(* ===== verification/XPrelude.thy ===== *)
theory XPrelude
  imports Main "HOL-Library.Word"
begin

text \<open>
  Shared material of the development: the model of \<open>std::map\<close> as an association list
  ordered by key (iteration order matters in the sources), the interface of such a map
  as a locale with its interpretation, address-range coverage counts used by the
  allocators, little-endian reads and writes of the header words the sources keep in raw
  memory, and the result type for the failures the sources raise or run into.
\<close>

unbundle bit_operations_syntax

named_theorems mem_simps \<open>reads after writes in raw memory\<close>
named_theorems cov_simps \<open>coverage counts of address ranges\<close>

text \<open>Failures: a \<open>throw\<close> with its message, and accesses whose behaviour C++ leaves undefined.\<close>

datatype xerror = Throw string | Undefined

subsection \<open>Ordered maps (\<open>std::map\<close>)\<close>

type_synonym ('k, 'v) omap = "('k \<times> 'v) list"

definition msorted :: "('k::linorder, 'v) omap \<Rightarrow> bool" where
  "msorted m = sorted_wrt (<) (map fst m)"

text \<open>\<open>std::map::insert\<close>: an existing binding is kept.\<close>

fun minsert :: "'k::linorder \<Rightarrow> 'v \<Rightarrow> ('k, 'v) omap \<Rightarrow> ('k, 'v) omap" where
  "minsert k v [] = [(k, v)]"
| "minsert k v (p # m) =
     (if k < fst p then (k, v) # p # m else if k = fst p then p # m else p # minsert k v m)"

text \<open>\<open>m[k] = v\<close>: an existing binding is replaced.\<close>

fun massign :: "'k::linorder \<Rightarrow> 'v \<Rightarrow> ('k, 'v) omap \<Rightarrow> ('k, 'v) omap" where
  "massign k v [] = [(k, v)]"
| "massign k v (p # m) =
     (if k < fst p then (k, v) # p # m else if k = fst p then (k, v) # m else p # massign k v m)"

definition merase :: "'k \<Rightarrow> ('k, 'v) omap \<Rightarrow> ('k, 'v) omap" where
  "merase k m = filter (\<lambda>p. fst p \<noteq> k) m"

subsection \<open>Raw memory\<close>

type_synonym addr = nat
type_synonym bmem = "addr \<Rightarrow> 8 word"

definition rd16 :: "bmem \<Rightarrow> addr \<Rightarrow> nat" where
  "rd16 m a = unat (m a) + 256 * unat (m (a + 1))"

definition wr16 :: "bmem \<Rightarrow> addr \<Rightarrow> nat \<Rightarrow> bmem" where
  "wr16 m a v = m(a := of_nat v, a + 1 := of_nat (v div 256))"

definition rd32 :: "bmem \<Rightarrow> addr \<Rightarrow> nat" where
  "rd32 m a = rd16 m a + 65536 * rd16 m (a + 2)"

definition wr32 :: "bmem \<Rightarrow> addr \<Rightarrow> nat \<Rightarrow> bmem" where
  "wr32 m a v = wr16 (wr16 m a v) (a + 2) (v div 65536)"

definition rd64 :: "bmem \<Rightarrow> addr \<Rightarrow> nat" where
  "rd64 m a = rd32 m a + 4294967296 * rd32 m (a + 4)"

definition wr64 :: "bmem \<Rightarrow> addr \<Rightarrow> nat \<Rightarrow> bmem" where
  "wr64 m a v = wr32 (wr32 m a v) (a + 4) (v div 4294967296)"

definition mset0 :: "bmem \<Rightarrow> addr \<Rightarrow> nat \<Rightarrow> bmem" where
  "mset0 m a n = (\<lambda>x. if a \<le> x \<and> x < a + n then 0 else m x)"

text \<open>Conversion of an integer to a C \<open>int\<close> and to \<open>unsigned\<close>.\<close>

fun put_bytes :: "bmem \<Rightarrow> addr \<Rightarrow> 8 word list \<Rightarrow> bmem" where
  "put_bytes mem a [] = mem"
| "put_bytes mem a (b # bs) = put_bytes (mem(a := b)) (Suc a) bs"

definition to_u32 :: "int \<Rightarrow> nat" where
  "to_u32 i = nat (i mod 4294967296)"

definition to_i32 :: "int \<Rightarrow> int" where
  "to_i32 i = (let u = i mod 4294967296 in if u < 2147483648 then u else u - 4294967296)"

subsection \<open>Address ranges\<close>

text \<open>
  The number of ranges \<open>(a, l)\<close> of an ordered map that hold the address \<open>x\<close>:
  disjointness and completeness of a partition are both statements about this count.
\<close>

definition ind :: "addr \<Rightarrow> int \<Rightarrow> addr \<Rightarrow> nat" where
  "ind a l x = (if a \<le> x \<and> int x < int a + l then 1 else 0)"

fun cov :: "(addr, int) omap \<Rightarrow> addr \<Rightarrow> nat" where
  "cov [] x = 0"
| "cov (p # m) x = ind (fst p) (snd p) x + cov m x"

definition pos_lens :: "(addr, int) omap \<Rightarrow> bool" where
  "pos_lens m = (\<forall>p \<in> set m. 0 < snd p)"

subsection \<open>Lemmas on ordered maps\<close>

lemma set_minsert: "set (minsert k v m) \<subseteq> insert (k, v) (set m)"
  by (induction m) auto

lemma set_massign: "set (massign k v m) \<subseteq> insert (k, v) (set m)"
  by (induction m) auto

lemma keys_minsert [simp]: "fst ` set (minsert k v m) = insert k (fst ` set m)"
  by (induction m) auto

lemma keys_massign [simp]: "fst ` set (massign k v m) = insert k (fst ` set m)"
  by (induction m) auto

lemma msorted_Nil [simp]: "msorted []"
  by (simp add: msorted_def)

lemma msorted_Cons [simp]:
  "msorted (p # m) \<longleftrightarrow> (\<forall>q \<in> set m. fst p < fst q) \<and> msorted m"
  by (simp add: msorted_def)

lemma msorted_minsert [simp, intro]: "msorted m \<Longrightarrow> msorted (minsert k v m)"
  by (induction m) (auto dest!: subsetD [OF set_minsert])

lemma msorted_massign [simp, intro]: "msorted m \<Longrightarrow> msorted (massign k v m)"
  by (induction m) (auto dest!: subsetD [OF set_massign])

lemma msorted_merase [simp, intro]: "msorted m \<Longrightarrow> msorted (merase k m)"
  by (induction m) (auto simp: merase_def)

lemma map_of_less_None: "\<forall>q \<in> set m. (k::'k::linorder) < fst q \<Longrightarrow> map_of m k = None"
  by (induction m) auto

lemma msorted_lt_None:
  "\<forall>q \<in> set m. (a::'k::linorder) < fst q \<Longrightarrow> k < a \<Longrightarrow> map_of m k = None"
  by (rule map_of_less_None) (auto dest: less_trans)

lemma map_of_minsert:
  "msorted m \<Longrightarrow> map_of (minsert k v m) =
     (if map_of m k = None then (map_of m)(k \<mapsto> v) else map_of m)"
  by (induction m) (auto simp: fun_eq_iff map_of_less_None msorted_lt_None)

lemma map_of_massign: "msorted m \<Longrightarrow> map_of (massign k v m) = (map_of m)(k \<mapsto> v)"
  by (induction m) (auto simp: fun_eq_iff map_of_less_None msorted_lt_None)

lemma map_of_merase: "map_of (merase k m) = (map_of m)(k := None)"
  by (induction m) (auto simp: merase_def fun_eq_iff)

lemma msorted_distinct: "msorted m \<Longrightarrow> distinct (map fst m)"
  by (induction m) auto

lemma minsert_new_length: "k \<notin> fst ` set m \<Longrightarrow> length (minsert k v m) = Suc (length m)"
  by (induction m) auto

lemma minsert_old: "msorted m \<Longrightarrow> k \<in> fst ` set m \<Longrightarrow> minsert k v m = m"
  by (induction m) (auto simp: less_imp_not_less)

subsection \<open>The map interface\<close>

text \<open>
  What every client of \<open>std::map\<close> in the sources relies on. The clients' facts are
  proved once here.
\<close>

locale std_map =
  fixes find :: "'m \<Rightarrow> 'k \<Rightarrow> 'v option"
    and ins :: "'k \<Rightarrow> 'v \<Rightarrow> 'm \<Rightarrow> 'm"
    and asg :: "'k \<Rightarrow> 'v \<Rightarrow> 'm \<Rightarrow> 'm"
    and era :: "'k \<Rightarrow> 'm \<Rightarrow> 'm"
    and wf :: "'m \<Rightarrow> bool"
  assumes find_ins: "wf m \<Longrightarrow> find (ins k v m) = (if find m k = None then (find m)(k \<mapsto> v) else find m)"
    and find_asg: "wf m \<Longrightarrow> find (asg k v m) = (find m)(k \<mapsto> v)"
    and find_era: "wf m \<Longrightarrow> find (era k m) = (find m)(k := None)"
    and wf_ins: "wf m \<Longrightarrow> wf (ins k v m)"
    and wf_asg: "wf m \<Longrightarrow> wf (asg k v m)"
    and wf_era: "wf m \<Longrightarrow> wf (era k m)"
begin

lemma find_ins_same: "wf m \<Longrightarrow> find m k = None \<Longrightarrow> find (ins k v m) k = Some v"
  by (simp add: find_ins)

lemma find_ins_keeps: "wf m \<Longrightarrow> find m k = Some w \<Longrightarrow> find (ins k v m) = find m"
  by (simp add: find_ins)

lemma find_ins_other: "wf m \<Longrightarrow> k' \<noteq> k \<Longrightarrow> find (ins k v m) k' = find m k'"
  by (simp add: find_ins)

lemma find_asg_same: "wf m \<Longrightarrow> find (asg k v m) k = Some v"
  by (simp add: find_asg)

lemma find_asg_other: "wf m \<Longrightarrow> k' \<noteq> k \<Longrightarrow> find (asg k v m) k' = find m k'"
  by (simp add: find_asg)

lemma find_era_same: "wf m \<Longrightarrow> find (era k m) k = None"
  by (simp add: find_era)

lemma find_era_other: "wf m \<Longrightarrow> k' \<noteq> k \<Longrightarrow> find (era k m) k' = find m k'"
  by (simp add: find_era)

lemma era_ins: "wf m \<Longrightarrow> find m k = None \<Longrightarrow> find (era k (ins k v m)) = find m"
  by (simp add: find_era find_ins wf_ins fun_upd_idem)

lemma era_asg: "wf m \<Longrightarrow> find (era k (asg k v m)) = find (era k m)"
  by (simp add: find_era find_asg wf_asg)

end

interpretation omap: std_map map_of minsert massign merase msorted
  by unfold_locales (auto simp: map_of_minsert map_of_massign map_of_merase)

subsection \<open>Lemmas on coverage\<close>

lemma ind_split: "0 \<le> l \<Longrightarrow> l \<le> n \<Longrightarrow> ind a n x = ind a l x + ind (a + nat l) (n - l) x"
  by (auto simp: ind_def)

lemma ind_join: "0 \<le> l \<Longrightarrow> 0 \<le> n \<Longrightarrow> ind a l x + ind (a + nat l) n x = ind a (l + n) x"
  by (auto simp: ind_def)

lemma ind_start: "0 < l \<Longrightarrow> ind a l a = 1"
  by (simp add: ind_def)

lemma cov_minsert [cov_simps]:
  "k \<notin> fst ` set m \<Longrightarrow> cov (minsert k v m) x = ind k v x + cov m x"
  by (induction m) auto

lemma cov_ge: "(a, l) \<in> set m \<Longrightarrow> ind a l x \<le> cov m x"
  by (induction m) auto

lemma merase_notin: "k \<notin> fst ` set m \<Longrightarrow> merase k m = m"
  by (induction m) (auto simp: merase_def)

lemma cov_merase [cov_simps]:
  "msorted m \<Longrightarrow> map_of m k = Some v \<Longrightarrow> cov m x = ind k v x + cov (merase k m) x"
proof (induction m)
  case (Cons p m)
  show ?case
  proof (cases "fst p = k")
    case True
    with Cons.prems have "k \<notin> fst ` set m" by auto
    with True Cons.prems show ?thesis by (simp add: merase_def merase_notin [unfolded merase_def])
  next
    case False
    with Cons show ?thesis by (simp add: merase_def)
  qed
qed simp

lemma pos_lens_Cons [simp]: "pos_lens (p # m) \<longleftrightarrow> 0 < snd p \<and> pos_lens m"
  by (simp add: pos_lens_def)

lemma pos_lens_Nil [simp]: "pos_lens []"
  by (simp add: pos_lens_def)

lemma pos_lens_minsert [simp, intro]: "pos_lens m \<Longrightarrow> 0 < v \<Longrightarrow> pos_lens (minsert k v m)"
  using set_minsert [of k v m] by (auto simp: pos_lens_def)

lemma pos_lens_merase [simp, intro]: "pos_lens m \<Longrightarrow> pos_lens (merase k m)"
  by (auto simp: pos_lens_def merase_def)

lemma cov_key: "pos_lens m \<Longrightarrow> k \<in> fst ` set m \<Longrightarrow> 1 \<le> cov m k"
  by (induction m) (auto simp: ind_def)

lemma cov_zero_notkey: "pos_lens m \<Longrightarrow> cov m k = 0 \<Longrightarrow> k \<notin> fst ` set m"
  using cov_key by fastforce

subsection \<open>Lemmas on raw memory\<close>

lemma unat_of_nat8 [simp]: "unat (of_nat v :: 8 word) = v mod 256"
  by (simp add: unat_of_nat)

lemma rd16_wr16 [mem_simps]: "rd16 (wr16 m a v) a = v mod 65536"
proof -
  have "v mod (256 * 256) = 256 * (v div 256 mod 256) + v mod 256" by (rule mod_mult2_eq)
  then show ?thesis by (simp add: rd16_def wr16_def)
qed

lemma rd16_wr16_other [mem_simps]: "a + 2 \<le> b \<or> b + 2 \<le> a \<Longrightarrow> rd16 (wr16 m a v) b = rd16 m b"
  by (auto simp: rd16_def wr16_def)

lemma rd32_wr32 [mem_simps]: "rd32 (wr32 m a v) a = v mod 4294967296"
proof -
  have "v mod (65536 * 65536) = 65536 * (v div 65536 mod 65536) + v mod 65536" by (rule mod_mult2_eq)
  then show ?thesis by (simp add: rd32_def wr32_def mem_simps)
qed

lemma wr32_other: "b < a \<or> a + 4 \<le> b \<Longrightarrow> wr32 m a v b = m b"
  by (auto simp: wr32_def wr16_def)

lemma wr64_other: "b < a \<or> a + 8 \<le> b \<Longrightarrow> wr64 m a v b = m b"
  by (auto simp: wr64_def wr32_other)

lemma wr16_other: "b < a \<or> a + 2 \<le> b \<Longrightarrow> wr16 m a v b = m b"
  by (auto simp: wr16_def)

lemma mset0_other: "b < a \<or> a + n \<le> b \<Longrightarrow> mset0 m a n b = m b"
  by (auto simp: mset0_def)

lemma rd16_cong: "m a = m' a \<Longrightarrow> m (Suc a) = m' (Suc a) \<Longrightarrow> rd16 m a = rd16 m' a"
  by (simp add: rd16_def)

lemma rd32_cong: "(\<And>i. a \<le> i \<Longrightarrow> i < a + 4 \<Longrightarrow> m i = m' i) \<Longrightarrow> rd32 m a = rd32 m' a"
  by (simp add: rd32_def rd16_def)

lemma rd64_cong: "(\<And>i. a \<le> i \<Longrightarrow> i < a + 8 \<Longrightarrow> m i = m' i) \<Longrightarrow> rd64 m a = rd64 m' a"
  unfolding rd64_def by (intro arg_cong2 [where f = "(+)"] arg_cong2 [where f = "(*)"] rd32_cong) auto

lemma rd32_wr32_other [mem_simps]: "a + 4 \<le> b \<or> b + 4 \<le> a \<Longrightarrow> rd32 (wr32 m a v) b = rd32 m b"
  by (rule rd32_cong) (auto intro: wr32_other)

lemma rd16_wr32_other [mem_simps]: "a + 4 \<le> b \<or> b + 2 \<le> a \<Longrightarrow> rd16 (wr32 m a v) b = rd16 m b"
  by (rule rd16_cong) (auto intro!: wr32_other)

lemma rd32_wr16_other [mem_simps]: "a + 2 \<le> b \<or> b + 4 \<le> a \<Longrightarrow> rd32 (wr16 m a v) b = rd32 m b"
  by (rule rd32_cong) (auto intro: wr16_other)

lemma rd16_mset0_other [mem_simps]: "a + n \<le> b \<or> b + 2 \<le> a \<Longrightarrow> rd16 (mset0 m a n) b = rd16 m b"
  by (rule rd16_cong) (auto intro!: mset0_other)

lemma rd32_mset0_other [mem_simps]: "a + n \<le> b \<or> b + 4 \<le> a \<Longrightarrow> rd32 (mset0 m a n) b = rd32 m b"
  by (rule rd32_cong) (auto intro: mset0_other)

lemma rd32_wr64_other [mem_simps]: "a + 8 \<le> b \<or> b + 4 \<le> a \<Longrightarrow> rd32 (wr64 m a v) b = rd32 m b"
  by (rule rd32_cong) (auto intro: wr64_other)

lemma rd16_wr64_other [mem_simps]: "a + 8 \<le> b \<or> b + 2 \<le> a \<Longrightarrow> rd16 (wr64 m a v) b = rd16 m b"
  by (rule rd16_cong) (auto intro!: wr64_other)

lemma rd64_wr64 [mem_simps]: "rd64 (wr64 m a v) a = v mod 18446744073709551616"
proof -
  have "v mod (4294967296 * 4294967296) =
      4294967296 * (v div 4294967296 mod 4294967296) + v mod 4294967296" by (rule mod_mult2_eq)
  then show ?thesis by (simp add: rd64_def wr64_def mem_simps)
qed

lemma put_bytes_at:
  "put_bytes mem a bs x = (if a \<le> x \<and> x < a + length bs then bs ! (x - a) else mem x)"
proof (induction mem a bs rule: put_bytes.induct)
  case (2 mem a b bs)
  have "x - a = Suc (x - Suc a)" if "Suc a \<le> x" using that by simp
  then show ?case by (simp only: put_bytes.simps "2.IH") (auto simp: less_Suc_eq_le)
qed auto

lemma put_bytes_append: "put_bytes mem a (xs @ ys) = put_bytes (put_bytes mem a xs) (a + length xs) ys"
  by (induction mem a xs rule: put_bytes.induct) (simp_all del: fun_upd_apply)

lemma put_bytes_other: "x < a \<or> a + length bs \<le> x \<Longrightarrow> put_bytes mem a bs x = mem x"
  by (auto simp: put_bytes_at)

text \<open>The \<open>n\<close> bytes from \<open>a\<close> on.\<close>

lemma get_put_bytes: "map (put_bytes mem a bs) [a..<a + length bs] = bs"
  by (rule nth_equalityI) (auto simp: put_bytes_at)

lemma rd16_bound: "rd16 m a < 65536"
  using unsigned_less [of "m a", where ?'a = nat] unsigned_less [of "m (a + 1)", where ?'a = nat] by (simp add: rd16_def)

lemma rd32_bound: "rd32 m a < 4294967296"
  using rd16_bound [of m a] rd16_bound [of m "a + 2"] by (simp add: rd32_def)

end
