(* ===== verification/StaticAlloc.thy ===== *)
theory StaticAlloc
  imports XPrelude
begin

text \<open>
  \<open>Mem/XStaticAlloc.h\<close> and \<open>Mem/XStaticAlloc.cpp\<close>: an allocator whose whole book-keeping
  (header, flag bits, record slots) lives in the managed block, so that a second process can
  load it. The block is raw memory (\<open>bmem\<close>, one byte per address); the object's pointers
  into the block and its three \<open>std::map\<close>s are the fields of the record
  \<open>static_alloc\<close>. Pointers are addresses (0 is \<open>NULL\<close>); \<open>sizeof(RangeInfo)\<close> is 16
  (8-byte pointer, 4-byte length, padding, which is not written). The block of the size
  computation, \<open>(total - head) / 17.125\<close> in double precision, is the exact quotient
  \<open>8 * (total - head) div 137\<close>: an unsigned 32-bit numerator is far from the precision
  at which rounding could reach the next integer.
  The main results: every operation keeps the partition of the heap area into free ranges
  and recorded blocks, freeing coalesces neighbours, and formatting followed by loading
  gives back the same maps.
\<close>

definition STATIC_UNIQUE_SYMBOL :: string where
  "STATIC_UNIQUE_SYMBOL = ''MemAlloc''"

definition MEM_IDENTIFIER_SIZE :: nat where
  "MEM_IDENTIFIER_SIZE = 8"

definition BITS_PER_BYTE :: nat where
  "BITS_PER_BYTE = 8"

definition SIZEOF_RANGEINFO :: nat where
  "SIZEOF_RANGEINFO = 16"

record static_alloc =
  m_pBegin :: addr
  m_nTotalLen :: nat
  m_pIdentifier :: addr
  m_pReserved :: addr
  m_pFlagLen :: addr
  m_pRecordLen :: addr
  m_pRecordOffset :: addr
  m_pFlagStart :: addr
  m_pRecordStart :: addr
  m_pStart :: addr
  m_RecordMap :: "(addr, int) omap"
  m_RecordInfo :: "(addr, int) omap"
  m_RangeSet :: "(addr, int) omap"

definition XStaticAlloc_new :: static_alloc where
  "XStaticAlloc_new = \<lparr>m_pBegin = 0, m_nTotalLen = 0, m_pIdentifier = 0, m_pReserved = 0,
     m_pFlagLen = 0, m_pRecordLen = 0, m_pRecordOffset = 0, m_pFlagStart = 0,
     m_pRecordStart = 0, m_pStart = 0, m_RecordMap = [], m_RecordInfo = [], m_RangeSet = []\<rparr>"

text \<open>The destructor; the flag says whether it prints the warning about blocks in use.\<close>

definition XStaticAlloc_destroy :: "static_alloc \<Rightarrow> bool \<times> static_alloc" where
  "XStaticAlloc_destroy st =
     (length (m_RecordMap st) > 0,
      st\<lparr>m_RecordMap := [], m_RecordInfo := [], m_RangeSet := [], m_pBegin := 0, m_nTotalLen := 0\<rparr>)"

definition padd :: "addr \<Rightarrow> int \<Rightarrow> addr" where
  "padd a l = nat (int a + l)"

text \<open>Bit \<open>k mod 8\<close> of flag byte \<open>k div 8\<close>: the double loops over \<open>i\<close> and \<open>j\<close> visit \<open>k = 8 * i + j\<close>.\<close>

definition flag_at :: "bmem \<Rightarrow> addr \<Rightarrow> nat \<Rightarrow> bool" where
  "flag_at mem fs k = bit (mem (fs + k div BITS_PER_BYTE)) (k mod BITS_PER_BYTE)"

definition flag_set :: "bmem \<Rightarrow> addr \<Rightarrow> nat \<Rightarrow> bmem" where
  "flag_set mem fs k =
     (let b = fs + k div BITS_PER_BYTE in mem(b := mem b OR push_bit (k mod BITS_PER_BYTE) 1))"

definition flag_clear :: "bmem \<Rightarrow> addr \<Rightarrow> nat \<Rightarrow> bmem" where
  "flag_clear mem fs k =
     (let b = fs + k div BITS_PER_BYTE in mem(b := mem b AND NOT (push_bit (k mod BITS_PER_BYTE) 1)))"

subsection \<open>Initialisation\<close>

definition IsRawBlockArea :: "bmem \<Rightarrow> static_alloc \<Rightarrow> bool" where
  "IsRawBlockArea mem st =
     (takeWhile (\<lambda>b. b \<noteq> 0) (map (\<lambda>i. mem (m_pBegin st + i)) [0..<MEM_IDENTIFIER_SIZE])
        \<noteq> map of_char STATIC_UNIQUE_SYMBOL)"

definition InitHeadInfo :: "static_alloc \<Rightarrow> static_alloc" where
  "InitHeadInfo st = st\<lparr>m_pIdentifier := m_pBegin st, m_pReserved := m_pBegin st + 8,
     m_pFlagLen := m_pBegin st + 8 + 4, m_pRecordLen := m_pBegin st + 8 + 4 + 4,
     m_pRecordOffset := m_pBegin st + 8 + 4 + 4 + 4,
     m_pFlagStart := (m_pBegin st + 8 + 4 + 4 + 4) + 4\<rparr>"

definition max_block_count :: "nat \<Rightarrow> nat \<Rightarrow> nat" where
  "max_block_count len head = 8 * to_u32 (int len - int head) div 137"

definition FormatBlockArea :: "bmem \<Rightarrow> static_alloc \<Rightarrow> bmem \<times> static_alloc" where
  "FormatBlockArea mem0 st0 =
     (let mem1 = mset0 mem0 (m_pBegin st0) (m_nTotalLen st0);
          mem2 = put_bytes mem1 (m_pBegin st0) (map of_char STATIC_UNIQUE_SYMBOL @ [0]);
          st1 = InitHeadInfo st0;
          nHeadSize = m_pFlagStart st1 - m_pIdentifier st1;
          nMaxCount = max_block_count (m_nTotalLen st1) nHeadSize;
          nSymbol = (if nMaxCount mod BITS_PER_BYTE \<noteq> 0 then nMaxCount div BITS_PER_BYTE + 1
                     else nMaxCount div BITS_PER_BYTE);
          mem3 = wr32 mem2 (m_pFlagLen st1) nSymbol;
          mem4 = wr32 mem3 (m_pRecordLen st1) (nMaxCount * SIZEOF_RANGEINFO);
          mem5 = wr32 mem4 (m_pRecordOffset st1) 0;
          st2 = st1\<lparr>m_pRecordStart := m_pFlagStart st1 + rd32 mem5 (m_pFlagLen st1)\<rparr>;
          st3 = st2\<lparr>m_pStart := m_pRecordStart st2 + rd32 mem5 (m_pRecordLen st2)\<rparr>;
          nRemain = to_i32 (int (m_pBegin st3 + m_nTotalLen st3) - int (m_pStart st3));
          mem6 = wr16 mem5 (m_pReserved st3) 0;
          mem7 = wr16 mem6 (m_pReserved st3 + 2) nMaxCount
      in (mem7, st3\<lparr>m_RangeSet := minsert (m_pStart st3) nRemain (m_RangeSet st3)\<rparr>))"

text \<open>The first loop of \<open>LoadBlockArea\<close>: every set flag contributes its record slot.\<close>

fun load_records :: "bmem \<Rightarrow> nat \<Rightarrow> nat \<Rightarrow> static_alloc \<Rightarrow> static_alloc" where
  "load_records mem k 0 st = st"
| "load_records mem k (Suc r) st =
     load_records mem (Suc k) r
       (if flag_at mem (m_pFlagStart st) k
        then (let slot = m_pRecordStart st + k * SIZEOF_RANGEINFO;
                  p = padd (m_pBegin st) (to_i32 (int (rd64 mem slot)));
                  l = to_i32 (int (rd32 mem (slot + 8)))
              in st\<lparr>m_RecordMap := minsert p (int k) (m_RecordMap st),
                     m_RecordInfo := minsert p l (m_RecordInfo st)\<rparr>)
        else st)"

text \<open>The second loop: the gaps between the loaded blocks (\<open>first\<close> marks the first iteration).\<close>

fun load_gaps :: "addr \<Rightarrow> addr \<Rightarrow> bool \<Rightarrow> addr \<times> int \<Rightarrow> (addr, int) omap \<Rightarrow> (addr, int) omap \<Rightarrow> (addr, int) omap" where
  "load_gaps pStart pEnd first prev [] rs = rs"
| "load_gaps pStart pEnd first prev (it # rest) rs =
     (if first then
        load_gaps pStart pEnd False it rest
          (if fst it > pStart then minsert pStart (to_i32 (int (fst it) - int pStart)) rs else rs)
      else if rest = [] then
        (let pNext = padd (fst it) (snd it)
         in if int pEnd - int pNext \<noteq> 0 then minsert pNext (to_i32 (int pEnd - int pNext)) rs else rs)
      else
        (let pGap = padd (fst prev) (snd prev)
         in load_gaps pStart pEnd False it rest
              (if int (fst it) - int pGap \<noteq> 0 then minsert pGap (to_i32 (int (fst it) - int pGap)) rs else rs)))"

definition LoadBlockArea :: "bmem \<Rightarrow> static_alloc \<Rightarrow> static_alloc" where
  "LoadBlockArea mem st0 =
     (let st1 = InitHeadInfo st0;
          st2 = st1\<lparr>m_pRecordStart := m_pFlagStart st1 + rd32 mem (m_pFlagLen st1)\<rparr>;
          st3 = st2\<lparr>m_pStart := m_pRecordStart st2 + rd32 mem (m_pRecordLen st2)\<rparr>;
          st4 = load_records mem 0 (rd32 mem (m_pFlagLen st3) * BITS_PER_BYTE) st3;
          pEnd = m_pBegin st4 + m_nTotalLen st4;
          rs = load_gaps (m_pStart st4) pEnd True (0, 0) (m_RecordInfo st4) (m_RangeSet st4)
      in st4\<lparr>m_RangeSet :=
           (if m_RecordInfo st4 = []
            then minsert (m_pStart st4) (to_i32 (int pEnd - int (m_pStart st4))) rs
            else rs)\<rparr>)"

definition Init :: "addr \<Rightarrow> int \<Rightarrow> bmem \<Rightarrow> static_alloc \<Rightarrow> int \<times> bmem \<times> static_alloc" where
  "Init pStart nLen mem st =
     (if pStart = 0 \<or> nLen \<le> 0 \<or> m_pBegin st \<noteq> 0 \<or> m_nTotalLen st > 0 then (-1, mem, st)
      else
        let st1 = st\<lparr>m_pBegin := pStart, m_nTotalLen := nat nLen,
                      m_RecordMap := [], m_RecordInfo := [], m_RangeSet := []\<rparr>
        in if IsRawBlockArea mem st1
           then (let (mem', st') = FormatBlockArea mem st1 in (0, mem', st'))
           else (1, mem, LoadBlockArea mem st1))"

definition Refresh :: "bmem \<Rightarrow> static_alloc \<Rightarrow> static_alloc" where
  "Refresh mem st =
     LoadBlockArea mem (st\<lparr>m_RecordMap := [], m_RecordInfo := [], m_RangeSet := []\<rparr>)"

subsection \<open>Allocation\<close>

text \<open>The scan for the last used record: it stops at the \<open>tgt\<close>-th set flag.\<close>

fun scan_used :: "bmem \<Rightarrow> addr \<Rightarrow> nat \<Rightarrow> nat \<Rightarrow> nat \<Rightarrow> nat \<Rightarrow> nat \<Rightarrow> nat" where
  "scan_used mem fs tgt k 0 cnt cur = cur"
| "scan_used mem fs tgt k (Suc r) cnt cur =
     (if flag_at mem fs k
      then (if Suc cnt = tgt then k else scan_used mem fs tgt (Suc k) r (Suc cnt) k)
      else scan_used mem fs tgt (Suc k) r cnt k)"

text \<open>The scan for an unused record: the first clear flag is set and its index returned.\<close>

fun find_clear :: "bmem \<Rightarrow> addr \<Rightarrow> nat \<Rightarrow> nat \<Rightarrow> nat \<Rightarrow> nat \<times> bmem" where
  "find_clear mem fs k 0 cur = (cur, mem)"
| "find_clear mem fs k (Suc r) cur =
     (if flag_at mem fs k then find_clear mem fs (Suc k) r k else (k, flag_set mem fs k))"

definition pCount :: "bmem \<Rightarrow> static_alloc \<Rightarrow> nat \<Rightarrow> nat" where
  "pCount mem st i = rd16 mem (m_pReserved st + 2 * i)"

text \<open>Choosing the block: first fit in the free ranges, else squeezed out of the record area.\<close>

definition alloc_pick :: "int \<Rightarrow> bmem \<Rightarrow> static_alloc \<Rightarrow> (addr \<times> nat \<times> bmem \<times> static_alloc) option" where
  "alloc_pick len mem st =
     (case List.find (\<lambda>p. len \<le> snd p) (m_RangeSet st) of
        Some (a, l) \<Rightarrow>
          (let left_pStart = padd a len;
               left_nLen = to_u32 (l - len);
               rs = merase a (m_RangeSet st);
               rs' = (if left_nLen > 0 then minsert left_pStart (to_i32 (int left_nLen)) rs else rs)
           in Some (a, to_u32 len, mem, st\<lparr>m_RangeSet := rs'\<rparr>))
      | None \<Rightarrow>
          (let nCurIndex = scan_used mem (m_pFlagStart st) (pCount mem st 0) 0
                             (rd32 mem (m_pFlagLen st) * BITS_PER_BYTE) 0 0;
               pExtBegin = m_pRecordStart st + (nCurIndex + 2) * SIZEOF_RANGEINFO;
               off = rd32 mem (m_pRecordOffset st);
               pEnd = (if off > 0 then int (m_pStart st) - int off else int (m_pStart st))
           in if pEnd - int pExtBegin < len then None
              else
                let pNeed = nat (pEnd - len)
                in Some (pNeed, to_u32 len,
                         wr32 mem (m_pRecordOffset st) (to_u32 (int (m_pStart st) - int pNeed)), st)))"

definition Alloc :: "int \<Rightarrow> bmem \<Rightarrow> static_alloc \<Rightarrow> addr \<times> bmem \<times> static_alloc" where
  "Alloc len mem st =
     (case alloc_pick len mem st of
        None \<Rightarrow> (0, mem, st)
      | Some (p, l, mem1, st1) \<Rightarrow>
          (let (nCurIndex, mem2) = find_clear mem1 (m_pFlagStart st1) 0
                                     (rd32 mem1 (m_pFlagLen st1) * BITS_PER_BYTE) 0;
               (mem3, st2) =
                 (if nCurIndex < pCount mem2 st1 1 then
                    (let slot = m_pRecordStart st1 + nCurIndex * SIZEOF_RANGEINFO;
                         memA = wr64 mem2 slot (nat (int p - int (m_pBegin st1)));
                         memB = wr32 memA (slot + 8) l
                     in (wr16 memB (m_pReserved st1) (pCount memB st1 0 + 1),
                         st1\<lparr>m_RecordMap := minsert p (int nCurIndex) (m_RecordMap st1),
                             m_RecordInfo := minsert p (to_i32 (int l)) (m_RecordInfo st1)\<rparr>))
                  else (mem2, st1))
           in (p, mset0 mem3 p l, st2)))"

subsection \<open>Release\<close>

text \<open>The coalescing loop of \<open>Free\<close>; \<open>prev\<close> is \<open>itPrev\<close>.\<close>

fun merge_from :: "addr \<times> int \<Rightarrow> (addr, int) omap \<Rightarrow> (addr, int) omap" where
  "merge_from prev [] = [prev]"
| "merge_from prev (it # rest) =
     (if padd (fst prev) (snd prev) = fst it then merge_from (fst prev, snd prev + snd it) rest
      else prev # merge_from it rest)"

fun merge_ranges :: "(addr, int) omap \<Rightarrow> (addr, int) omap" where
  "merge_ranges [] = []"
| "merge_ranges (p # rest) = merge_from p rest"

text \<open>The correction of the record-area offset at the end of \<open>Free\<close>.\<close>

definition fix_offset :: "bmem \<Rightarrow> static_alloc \<Rightarrow> bmem \<times> static_alloc" where
  "fix_offset mem st =
     (let off = rd32 mem (m_pRecordOffset st)
      in case m_RangeSet st of
           [] \<Rightarrow> (mem, st)
         | (a, l) # rest \<Rightarrow>
             if off > 0 \<and> int a = int (m_pStart st) - int off then
               (if to_u32 l \<le> off
                then (wr32 mem (m_pRecordOffset st) (to_u32 (int off - l)), st\<lparr>m_RangeSet := rest\<rparr>)
                else (wr32 mem (m_pRecordOffset st) 0,
                      st\<lparr>m_RangeSet := minsert (m_pStart st) (to_i32 (l - int off)) rest\<rparr>))
             else (mem, st))"

definition Free :: "addr \<Rightarrow> bmem \<Rightarrow> static_alloc \<Rightarrow> bmem \<times> static_alloc" where
  "Free p mem st =
     (case (map_of (m_RecordInfo st) p, map_of (m_RecordMap st) p) of
        (Some l, Some nTagIndex) \<Rightarrow>
          (let mem1 = flag_clear mem (m_pFlagStart st) (nat nTagIndex);
               mem2 = wr16 mem1 (m_pReserved st) (pCount mem1 st 0 + 65535);
               st1 = st\<lparr>m_RecordInfo := merase p (m_RecordInfo st),
                        m_RecordMap := merase p (m_RecordMap st)\<rparr>;
               st2 = st1\<lparr>m_RangeSet := merge_ranges (minsert p l (m_RangeSet st1))\<rparr>
           in fix_offset mem2 st2)
      | _ \<Rightarrow> (mem, st))"

subsection \<open>Queries and printing\<close>

definition GetMgrBlockCountLimit :: "bmem \<Rightarrow> static_alloc \<Rightarrow> int" where
  "GetMgrBlockCountLimit mem st = (if m_pReserved st \<noteq> 0 then int (pCount mem st 1) else -1)"

definition GetUseCount :: "bmem \<Rightarrow> static_alloc \<Rightarrow> int" where
  "GetUseCount mem st = (if m_pReserved st \<noteq> 0 then int (pCount mem st 0) else -1)"

definition GetNormalAvailableSize :: "bmem \<Rightarrow> static_alloc \<Rightarrow> int" where
  "GetNormalAvailableSize mem st =
     to_i32 (int (m_pBegin st + m_nTotalLen st) - int (m_pStart st) + int (rd32 mem (m_pRecordOffset st)))"

definition printBinary :: "8 word \<Rightarrow> char \<Rightarrow> string" where
  "printBinary uVal cExt = map (\<lambda>i. if bit uVal (7 - i) then CHR ''1'' else CHR ''0'') [0..<8] @ [cExt]"

definition printBinary32 :: "bmem \<Rightarrow> addr \<Rightarrow> string" where
  "printBinary32 mem a = concat (map (\<lambda>i. printBinary (mem (a + i)) CHR '' '') [3, 2, 1, 0])"

subsection \<open>The partition invariant\<close>

definition heap_lo :: "bmem \<Rightarrow> static_alloc \<Rightarrow> nat" where
  "heap_lo mem st = m_pStart st - rd32 mem (m_pRecordOffset st)"

definition sa_layout :: "bmem \<Rightarrow> static_alloc \<Rightarrow> bool" where
  "sa_layout mem st \<longleftrightarrow>
     0 < m_pBegin st \<and> m_nTotalLen st < 2147483648 \<and>
     m_pIdentifier st = m_pBegin st \<and> m_pReserved st = m_pBegin st + 8 \<and>
     m_pFlagLen st = m_pBegin st + 12 \<and> m_pRecordLen st = m_pBegin st + 16 \<and>
     m_pRecordOffset st = m_pBegin st + 20 \<and> m_pFlagStart st = m_pBegin st + 24 \<and>
     m_pRecordStart st = m_pFlagStart st + rd32 mem (m_pFlagLen st) \<and>
     m_pStart st = m_pRecordStart st + rd32 mem (m_pRecordLen st) \<and>
     m_pStart st \<le> m_pBegin st + m_nTotalLen st \<and>
     m_pRecordStart st + rd32 mem (m_pRecordOffset st) \<le> m_pStart st \<and>
     SIZEOF_RANGEINFO * pCount mem st 1 = rd32 mem (m_pRecordLen st) \<and>
     pCount mem st 1 \<le> BITS_PER_BYTE * rd32 mem (m_pFlagLen st)"

definition sa_parts :: "bmem \<Rightarrow> static_alloc \<Rightarrow> bool" where
  "sa_parts mem st \<longleftrightarrow>
     msorted (m_RangeSet st) \<and> msorted (m_RecordInfo st) \<and> msorted (m_RecordMap st) \<and>
     pos_lens (m_RangeSet st) \<and> pos_lens (m_RecordInfo st) \<and>
     fst ` set (m_RecordMap st) = fst ` set (m_RecordInfo st) \<and>
     (\<forall>x. cov (m_RangeSet st) x + cov (m_RecordInfo st) x =
          ind (heap_lo mem st) (int (m_pBegin st + m_nTotalLen st) - int (heap_lo mem st)) x)"

definition sa_inv :: "bmem \<Rightarrow> static_alloc \<Rightarrow> bool" where
  "sa_inv mem st \<longleftrightarrow> sa_layout mem st \<and> sa_parts mem st"

definition has_index :: "bmem \<Rightarrow> static_alloc \<Rightarrow> bool" where
  "has_index mem st = (\<exists>k < pCount mem st 1. \<not> flag_at mem (m_pFlagStart st) k)"

subsection \<open>Frame lemmas: what the header words depend on\<close>

lemma to_u32_id [simp]: "0 \<le> i \<Longrightarrow> i < 4294967296 \<Longrightarrow> to_u32 i = nat i"
  by (simp add: to_u32_def)

lemma to_i32_id [simp]: "-2147483648 \<le> i \<Longrightarrow> i < 2147483648 \<Longrightarrow> to_i32 i = i"
proof -
  assume b: "-2147483648 \<le> i" "i < 2147483648"
  show ?thesis
  proof (cases "0 \<le> i")
    case True
    with b show ?thesis by (simp add: to_i32_def Let_def)
  next
    case False
    have "i mod 4294967296 = (i + 4294967296) mod 4294967296" by simp
    also have "\<dots> = i + 4294967296" using b False by (intro mod_pos_pos_trivial) auto
    finally show ?thesis using b False by (simp add: to_i32_def Let_def)
  qed
qed

lemma heap_lo_maps [simp]:
  "heap_lo mem (st\<lparr>m_RangeSet := rs\<rparr>) = heap_lo mem st"
  "heap_lo mem (st\<lparr>m_RecordInfo := ri\<rparr>) = heap_lo mem st"
  "heap_lo mem (st\<lparr>m_RecordMap := rm\<rparr>) = heap_lo mem st"
  by (simp_all add: heap_lo_def)

lemma sa_layout_maps [simp]:
  "sa_layout mem (st\<lparr>m_RangeSet := rs\<rparr>) = sa_layout mem st"
  "sa_layout mem (st\<lparr>m_RecordInfo := ri\<rparr>) = sa_layout mem st"
  "sa_layout mem (st\<lparr>m_RecordMap := rm\<rparr>) = sa_layout mem st"
  by (simp_all add: sa_layout_def pCount_def)

definition same_header :: "static_alloc \<Rightarrow> bmem \<Rightarrow> bmem \<Rightarrow> bool" where
  "same_header st mem mem' = (\<forall>x. m_pBegin st + 10 \<le> x \<and> x < m_pBegin st + 24 \<longrightarrow> mem' x = mem x)"

lemma same_header_reads:
  assumes "sa_layout mem st" "same_header st mem mem'"
  shows "rd32 mem' (m_pFlagLen st) = rd32 mem (m_pFlagLen st)"
    and "rd32 mem' (m_pRecordLen st) = rd32 mem (m_pRecordLen st)"
    and "rd32 mem' (m_pRecordOffset st) = rd32 mem (m_pRecordOffset st)"
    and "pCount mem' st 1 = pCount mem st 1"
  using assms
  by (auto simp: sa_layout_def same_header_def pCount_def intro!: rd32_cong rd16_cong)

lemma same_header_layout:
  assumes "sa_layout mem st" "same_header st mem mem'"
  shows "sa_layout mem' st"
  using assms(1) unfolding sa_layout_def same_header_reads [OF assms] .

lemma same_header_heap_lo:
  "sa_layout mem st \<Longrightarrow> same_header st mem mem' \<Longrightarrow> heap_lo mem' st = heap_lo mem st"
  by (simp add: heap_lo_def same_header_reads)

lemma same_header_refl: "same_header st mem mem"
  by (simp add: same_header_def)

lemma same_header_trans:
  "same_header st m1 m2 \<Longrightarrow> same_header st m2 m3 \<Longrightarrow> same_header st m1 m3"
  by (simp add: same_header_def)

lemma same_header_flag_set: "m_pFlagStart st = m_pBegin st + 24 \<Longrightarrow> same_header st mem (flag_set mem (m_pFlagStart st) k)"
  by (simp add: same_header_def flag_set_def Let_def)

lemma same_header_flag_clear: "m_pFlagStart st = m_pBegin st + 24 \<Longrightarrow> same_header st mem (flag_clear mem (m_pFlagStart st) k)"
  by (simp add: same_header_def flag_clear_def Let_def)

lemma same_header_wr16: "a = m_pBegin st + 8 \<Longrightarrow> same_header st mem (wr16 mem a v)"
  by (auto simp: same_header_def intro: wr16_other)

lemma same_header_wr64: "m_pBegin st + 24 \<le> a \<Longrightarrow> same_header st mem (wr64 mem a v)"
  by (auto simp: same_header_def intro: wr64_other)

lemma same_header_wr32: "m_pBegin st + 24 \<le> a \<Longrightarrow> same_header st mem (wr32 mem a v)"
  by (auto simp: same_header_def intro: wr32_other)

lemma same_header_mset0: "m_pBegin st + 24 \<le> a \<Longrightarrow> same_header st mem (mset0 mem a n)"
  by (auto simp: same_header_def intro: mset0_other)

lemmas same_header_writes =
  same_header_flag_set same_header_flag_clear same_header_wr16 same_header_wr64
  same_header_wr32 same_header_mset0

lemma layout_set_offset:
  assumes "sa_layout mem st" "m_pRecordStart st + v \<le> m_pStart st"
  shows "sa_layout (wr32 mem (m_pRecordOffset st) v) st"
    and "heap_lo (wr32 mem (m_pRecordOffset st) v) st = m_pStart st - v"
proof -
  have "v < 4294967296"
    using assms rd32_bound [of mem "m_pRecordLen st"] by (simp add: sa_layout_def)
  then show "sa_layout (wr32 mem (m_pRecordOffset st) v) st"
    and "heap_lo (wr32 mem (m_pRecordOffset st) v) st = m_pStart st - v"
    using assms by (auto simp: sa_layout_def heap_lo_def pCount_def mem_simps)
qed

subsection \<open>Bounds of the ranges of a partition\<close>

lemma cov_bounds:
  assumes "(a, l) \<in> set m" "0 < l" "\<forall>x. cov m x + c x = ind lo n x"
  shows "lo \<le> a" and "int a + l \<le> int lo + n"
proof -
  have *: "ind lo n x = 1" if "ind a l x = 1" for x
    using cov_ge [OF assms(1), of x] spec [OF assms(3), of x] that
    by (auto simp: ind_def split: if_splits)
  from * [of a] assms(2) show "lo \<le> a" by (auto simp: ind_def split: if_splits)
  from * [of "a + nat (l - 1)"] assms(2) show "int a + l \<le> int lo + n"
    by (auto simp: ind_def split: if_splits)
qed

lemma find_first_in:
  "List.find P xs = Some p \<Longrightarrow> p \<in> set xs \<and> P p"
  by (auto simp: find_Some_iff)

lemma msorted_map_of: "msorted m \<Longrightarrow> (a, l) \<in> set m \<Longrightarrow> map_of m a = Some l"
  by (simp add: msorted_distinct)

lemma merase_notkey: "k \<notin> fst ` set (merase k m)"
  by (auto simp: merase_def)

subsection \<open>Allocation keeps the partition\<close>

text \<open>What the choice of a block guarantees before the record is written.\<close>

definition picked :: "bmem \<Rightarrow> static_alloc \<Rightarrow> int \<Rightarrow> addr \<Rightarrow> bmem \<Rightarrow> static_alloc \<Rightarrow> bool" where
  "picked mem st len p mem1 st1 \<longleftrightarrow>
     m_pRecordStart st \<le> p \<and> heap_lo mem1 st1 \<le> p \<and> int p + len \<le> int (m_pBegin st + m_nTotalLen st) \<and>
     st1 = st\<lparr>m_RangeSet := m_RangeSet st1\<rparr> \<and> sa_layout mem1 st1 \<and>
     msorted (m_RangeSet st1) \<and> pos_lens (m_RangeSet st1) \<and>
     (\<forall>x. x < m_pBegin st + 20 \<or> m_pBegin st + 24 \<le> x \<longrightarrow> mem1 x = mem x) \<and>
     (\<forall>x. cov (m_RangeSet st1) x + cov (m_RecordInfo st) x + ind p len x =
          ind (heap_lo mem1 st1) (int (m_pBegin st + m_nTotalLen st) - int (heap_lo mem1 st1)) x)"

lemma alloc_pick_fit:
  assumes inv: "sa_inv mem st" and len: "0 < len"
    and f: "List.find (\<lambda>p. len \<le> snd p) (m_RangeSet st) = Some (a, l)"
  shows "\<exists>st1. alloc_pick len mem st = Some (a, nat len, mem, st1) \<and> picked mem st len a mem st1"
proof -
  let ?hi = "int (m_pBegin st + m_nTotalLen st)"
  have lay: "sa_layout mem st" and srt: "msorted (m_RangeSet st)" and pos: "pos_lens (m_RangeSet st)"
    and part: "\<forall>x. cov (m_RangeSet st) x + cov (m_RecordInfo st) x = ind (heap_lo mem st) (?hi - int (heap_lo mem st)) x"
    using inv by (auto simp: sa_inv_def sa_parts_def)
  from f have al: "(a, l) \<in> set (m_RangeSet st)" and ll: "len \<le> l" by (auto dest: find_first_in)
  have lo: "heap_lo mem st \<le> a" and hi: "int a + l \<le> ?hi"
    using cov_bounds [OF al _ part] len ll by auto
  have small: "l < 2147483648" "len < 2147483648"
    using hi lo lay ll by (auto simp: sa_layout_def heap_lo_def)
  have rec: "m_pRecordStart st \<le> a" using lay lo by (auto simp: sa_layout_def heap_lo_def)
  have cv: "cov (m_RangeSet st) x = ind a l x + cov (merase a (m_RangeSet st)) x" for x
    using cov_merase [OF srt msorted_map_of [OF srt al]] .
  have sp: "ind a l x = ind a len x + ind (a + nat len) (l - len) x" for x
    using ind_split [of len l a x] len ll by simp
  let ?rs = "merase a (m_RangeSet st)"
  let ?rs' = "if 0 < l - len then minsert (a + nat len) (l - len) ?rs else ?rs"
  have cv': "cov ?rs' x + ind a len x = cov (m_RangeSet st) x" for x
  proof (cases "0 < l - len")
    case True
    let ?y = "a + nat len"
    have "ind a l ?y = 1" using len ll True by (simp add: ind_def)
    with cv [of ?y] spec [OF part, of ?y] have "cov ?rs ?y = 0"
      by (auto simp: ind_def split: if_splits)
    then have "?y \<notin> fst ` set ?rs" using pos by (intro cov_zero_notkey) auto
    with True show ?thesis by (simp add: cov_minsert cv sp)
  next
    case False
    with ll have "l = len" by simp
    then show ?thesis by (simp add: cv)
  qed
  let ?st1 = "st\<lparr>m_RangeSet := ?rs'\<rparr>"
  have "alloc_pick len mem st = Some (a, nat len, mem, ?st1)"
    using f len ll small by (auto simp: alloc_pick_def Let_def padd_def nat_add_distrib)
  moreover have "picked mem st len a mem ?st1"
    unfolding picked_def
    using lo hi rec ll lay srt pos len cv' part by (simp add: add.commute add.left_commute)
  ultimately show ?thesis by blast
qed

lemma alloc_pick_squeeze:
  assumes inv: "sa_inv mem st" and len: "0 < len"
    and f: "List.find (\<lambda>p. len \<le> snd p) (m_RangeSet st) = None"
    and pick: "alloc_pick len mem st = Some (p, l, mem1, st1)"
  shows "l = nat len \<and> picked mem st len p mem1 st1"
proof -
  let ?hi = "int (m_pBegin st + m_nTotalLen st)"
  let ?off = "rd32 mem (m_pRecordOffset st)"
  let ?ext = "m_pRecordStart st + (scan_used mem (m_pFlagStart st) (pCount mem st 0) 0
                (rd32 mem (m_pFlagLen st) * BITS_PER_BYTE) 0 0 + 2) * SIZEOF_RANGEINFO"
  have lay: "sa_layout mem st" and srt: "msorted (m_RangeSet st)" and pos: "pos_lens (m_RangeSet st)"
    and part: "\<forall>x. cov (m_RangeSet st) x + cov (m_RecordInfo st) x = ind (heap_lo mem st) (?hi - int (heap_lo mem st)) x"
    using inv by (auto simp: sa_inv_def sa_parts_def)
  have off: "m_pRecordStart st + ?off \<le> m_pStart st" "m_pStart st < m_pBegin st + 2147483648"
    "m_pBegin st \<le> m_pRecordStart st" "m_pStart st \<le> m_pBegin st + m_nTotalLen st"
    using lay by (auto simp: sa_layout_def)
  have pe: "(if ?off > 0 then int (m_pStart st) - int ?off else int (m_pStart st)) = int (heap_lo mem st)"
    using off by (simp add: heap_lo_def)
  have room: "\<not> int (heap_lo mem st) - int ?ext < len" and p: "p = nat (int (heap_lo mem st) - len)"
    and l: "l = to_u32 len" and st1: "st1 = st"
    and mem1: "mem1 = wr32 mem (m_pRecordOffset st) (to_u32 (int (m_pStart st) - int p))"
    using pick f pe by (auto simp: alloc_pick_def Let_def split: if_splits)
  have ext: "m_pRecordStart st \<le> ?ext" by simp
  have pl: "heap_lo mem st = p + nat len" and rec: "m_pRecordStart st \<le> p"
    using room p len ext by linarith+
  have hs: "heap_lo mem st \<le> m_pStart st" by (simp add: heap_lo_def)
  have v: "to_u32 (int (m_pStart st) - int p) = m_pStart st - p"
    using pl hs rec off by simp
  have lay1: "sa_layout mem1 st1" and lo1: "heap_lo mem1 st1 = p"
    using layout_set_offset [OF lay, of "m_pStart st - p"] rec pl hs mem1 st1 v by auto
  have "len < 4294967296" using pl hs rec off by linarith
  then have l': "l = nat len" using l len by simp
  have sp: "ind p (?hi - int p) x = ind p len x + ind (heap_lo mem st) (?hi - int (heap_lo mem st)) x" for x
    using ind_split [of len "?hi - int p" p x] len pl hs off by (simp add: algebra_simps)
  have ro: "m_pRecordOffset st = m_pBegin st + 20" using lay by (simp add: sa_layout_def)
  have fr: "\<forall>x. x < m_pBegin st + 20 \<or> m_pBegin st + 24 \<le> x \<longrightarrow> mem1 x = mem x"
    unfolding mem1 ro by (auto intro: wr32_other)
  have cv: "\<forall>x. cov (m_RangeSet st) x + cov (m_RecordInfo st) x + ind p len x = ind p (?hi - int p) x"
    using part sp by simp
  have hi: "int p + len \<le> ?hi" using pl hs off len by linarith
  have "picked mem st len p mem1 st1"
    unfolding picked_def lo1 using rec hi lay1 srt pos fr cv by (simp add: st1)
  with l' show ?thesis by simp
qed

lemma alloc_pick_picked:
  assumes "sa_inv mem st" "0 < len" "alloc_pick len mem st = Some (p, l, mem1, st1)"
  shows "l = nat len \<and> picked mem st len p mem1 st1"
proof (cases "List.find (\<lambda>p. len \<le> snd p) (m_RangeSet st)")
  case None
  with assms show ?thesis by (intro alloc_pick_squeeze)
next
  case (Some q)
  then obtain a n where "List.find (\<lambda>p. len \<le> snd p) (m_RangeSet st) = Some (a, n)" by (cases q) auto
  from alloc_pick_fit [OF assms(1,2) this] assms(3) show ?thesis by auto
qed

lemma find_clear_least:
  "k \<le> k0 \<Longrightarrow> k0 < k + r \<Longrightarrow> \<not> flag_at mem fs k0 \<Longrightarrow>
   \<exists>i. find_clear mem fs k r cur = (i, flag_set mem fs i) \<and> k \<le> i \<and> i \<le> k0 \<and> \<not> flag_at mem fs i \<and>
       (\<forall>j. k \<le> j \<and> j < i \<longrightarrow> flag_at mem fs j)"
proof (induction mem fs k r cur rule: find_clear.induct)
  case (2 mem fs k r cur)
  show ?case
  proof (cases "flag_at mem fs k")
    case True
    with "2.prems" have "k \<noteq> k0" by auto
    with "2.prems" have "Suc k \<le> k0" "k0 < Suc k + r" by auto
    from "2.IH" [OF True this "2.prems"(3)] obtain i
      where i: "find_clear mem fs (Suc k) r k = (i, flag_set mem fs i)" "Suc k \<le> i" "i \<le> k0"
        "\<not> flag_at mem fs i" "\<forall>j. Suc k \<le> j \<and> j < i \<longrightarrow> flag_at mem fs j" by blast
    have "\<forall>j. k \<le> j \<and> j < i \<longrightarrow> flag_at mem fs j"
      using i(5) True by (metis Suc_leI le_neq_implies_less)
    with i True show ?thesis by auto
  next
    case False
    with "2.prems" show ?thesis by auto
  qed
qed simp

lemma Alloc_recorded:
  assumes inv: "sa_inv mem st" and len: "0 < len" and idx: "has_index mem st"
    and pick: "alloc_pick len mem st = Some (p, l, mem1, st1)"
  shows "\<exists>mem' i. Alloc len mem st =
           (p, mset0 mem' p (nat len), st1\<lparr>m_RecordMap := minsert p (int i) (m_RecordMap st),
              m_RecordInfo := minsert p len (m_RecordInfo st)\<rparr>) \<and>
           same_header st1 mem1 (mset0 mem' p (nat len)) \<and> i < pCount mem st 1 \<and>
           \<not> flag_at mem (m_pFlagStart st) i"
proof -
  have lay: "sa_layout mem st" using inv by (simp add: sa_inv_def)
  from alloc_pick_picked [OF inv len pick]
  have l: "l = nat len" and pk: "picked mem st len p mem1 st1" by auto
  have st1: "st1 = st\<lparr>m_RangeSet := m_RangeSet st1\<rparr>" and lay1: "sa_layout mem1 st1"
    and eqm: "\<forall>x. x < m_pBegin st + 20 \<or> m_pBegin st + 24 \<le> x \<longrightarrow> mem1 x = mem x"
    and prec: "m_pRecordStart st \<le> p" and phi: "int p + len \<le> int (m_pBegin st + m_nTotalLen st)"
    and plo: "heap_lo mem1 st1 \<le> p"
    using pk by (auto simp: picked_def)
  have f1 [simp]: "m_pBegin st1 = m_pBegin st" "m_pFlagStart st1 = m_pFlagStart st" "m_pFlagLen st1 = m_pFlagLen st"
    "m_pRecordStart st1 = m_pRecordStart st" "m_pReserved st1 = m_pReserved st"
    "m_RecordMap st1 = m_RecordMap st" "m_RecordInfo st1 = m_RecordInfo st"
    by (subst st1, simp)+
  have pos: "m_pFlagStart st = m_pBegin st + 24" "m_pBegin st + 24 \<le> m_pRecordStart st"
    "m_pReserved st = m_pBegin st + 8" "m_nTotalLen st < 2147483648"
    using lay by (auto simp: sa_layout_def)
  have len2: "len < 2147483648" using phi prec pos by linarith
  have fl: "flag_at mem1 (m_pFlagStart st) k = flag_at mem (m_pFlagStart st) k" for k
    using eqm pos by (simp add: flag_at_def)
  have cnt: "pCount mem1 st1 1 = pCount mem st 1"
    using eqm pos by (auto simp: pCount_def intro!: rd16_cong)
  have fln: "rd32 mem1 (m_pFlagLen st) = rd32 mem (m_pFlagLen st)"
    using eqm lay by (auto simp: sa_layout_def intro!: rd32_cong)
  from idx obtain k0 where k0: "k0 < pCount mem st 1" "\<not> flag_at mem (m_pFlagStart st) k0"
    by (auto simp: has_index_def)
  moreover have "pCount mem st 1 \<le> rd32 mem (m_pFlagLen st) * BITS_PER_BYTE"
    using lay unfolding sa_layout_def by (subst mult.commute) blast
  ultimately obtain i where fc: "find_clear mem1 (m_pFlagStart st) 0 (rd32 mem1 (m_pFlagLen st) * BITS_PER_BYTE) 0
       = (i, flag_set mem1 (m_pFlagStart st) i)" and i: "i \<le> k0" "\<not> flag_at mem (m_pFlagStart st) i"
    using find_clear_least [of 0 k0 "rd32 mem1 (m_pFlagLen st) * BITS_PER_BYTE" mem1 "m_pFlagStart st" 0] fl fln by auto
  let ?m2 = "flag_set mem1 (m_pFlagStart st) i"
  let ?slot = "m_pRecordStart st + i * SIZEOF_RANGEINFO"
  let ?mA = "wr64 ?m2 ?slot (nat (int p - int (m_pBegin st)))"
  let ?mB = "wr32 ?mA (?slot + 8) l"
  let ?m3 = "wr16 ?mB (m_pReserved st) (pCount ?mB st1 0 + 1)"
  have h2: "same_header st1 mem1 ?m2" using same_header_flag_set [of st1 mem1 i] pos by simp
  have "pCount ?m2 st1 1 = pCount mem st 1"
    using same_header_reads(4) [OF lay1 h2] cnt by simp
  then have lt: "i < pCount ?m2 st1 1" using i k0 by simp
  have hA: "same_header st1 ?m2 ?mA" using pos by (intro same_header_wr64) simp
  have hB: "same_header st1 ?mA ?mB" using pos by (intro same_header_wr32) simp
  have hC: "same_header st1 ?mB ?m3" using pos by (intro same_header_wr16) simp
  have hD: "same_header st1 ?m3 (mset0 ?m3 p (nat len))" using pos prec by (intro same_header_mset0) simp
  note h3 = same_header_trans [OF same_header_trans [OF same_header_trans [OF same_header_trans [OF h2 hA] hB] hC] hD]
  have "Alloc len mem st = (p, mset0 ?m3 p (nat len), st1\<lparr>m_RecordMap := minsert p (int i) (m_RecordMap st),
              m_RecordInfo := minsert p len (m_RecordInfo st)\<rparr>)"
    using pick fc lt l len len2 by (simp add: Alloc_def Let_def case_prod_unfold)
  moreover have "i < pCount mem st 1" using i k0 by simp
  ultimately show ?thesis using h3 i by blast
qed

lemma Alloc_inv:
  assumes inv: "sa_inv mem st" and len: "0 < len" and idx: "has_index mem st"
    and al: "Alloc len mem st = (p, mem', st')" and p0: "p \<noteq> 0"
  shows "sa_inv mem' st'" and "map_of (m_RecordInfo st') = (map_of (m_RecordInfo st))(p \<mapsto> len)"
    and "p \<le> x \<Longrightarrow> int x < int p + len \<Longrightarrow> cov (m_RecordInfo st) x = 0 \<and> mem' x = 0"
proof -
  from al p0 obtain l mem1 st1 where pick: "alloc_pick len mem st = Some (p, l, mem1, st1)"
    by (auto simp: Alloc_def Let_def case_prod_unfold split: option.splits if_splits)
  from Alloc_recorded [OF inv len idx pick] al obtain m' i
    where m': "mem' = mset0 m' p (nat len)"
      and st': "st' = st1\<lparr>m_RecordMap := minsert p (int i) (m_RecordMap st),
              m_RecordInfo := minsert p len (m_RecordInfo st)\<rparr>"
      and h: "same_header st1 mem1 mem'" by auto
  from alloc_pick_picked [OF inv len pick] have pk: "picked mem st len p mem1 st1" by auto
  have st1: "st1 = st\<lparr>m_RangeSet := m_RangeSet st1\<rparr>" and lay1: "sa_layout mem1 st1"
    and part: "\<forall>x. cov (m_RangeSet st1) x + cov (m_RecordInfo st) x + ind p len x =
          ind (heap_lo mem1 st1) (int (m_pBegin st + m_nTotalLen st) - int (heap_lo mem1 st1)) x"
    and rs: "msorted (m_RangeSet st1)" "pos_lens (m_RangeSet st1)"
    using pk by (auto simp: picked_def)
  have f1: "m_pBegin st1 = m_pBegin st" "m_nTotalLen st1 = m_nTotalLen st" by (subst st1, simp)+
  have old: "msorted (m_RecordInfo st)" "pos_lens (m_RecordInfo st)" "msorted (m_RecordMap st)"
    "fst ` set (m_RecordMap st) = fst ` set (m_RecordInfo st)"
    using inv by (auto simp: sa_inv_def sa_parts_def)
  have zero: "cov (m_RecordInfo st) x = 0" if "p \<le> x" "int x < int p + len" for x
    using spec [OF part, of x] that by (auto simp: ind_def split: if_splits)
  have new: "p \<notin> fst ` set (m_RecordInfo st)"
    using zero [of p] len old by (intro cov_zero_notkey) auto
  have hl: "heap_lo mem' st1 = heap_lo mem1 st1" by (rule same_header_heap_lo [OF lay1 h])
  have "sa_parts mem' st'"
    unfolding sa_parts_def st' using rs old new len part hl f1 by (auto simp: cov_minsert ac_simps)
  then show "sa_inv mem' st'"
    using same_header_layout [OF lay1 h] by (simp add: sa_inv_def st')
  show "map_of (m_RecordInfo st') = (map_of (m_RecordInfo st))(p \<mapsto> len)"
    using new old by (simp add: st' map_of_minsert map_of_eq_None_iff)
  show "cov (m_RecordInfo st) x = 0 \<and> mem' x = 0" if "p \<le> x" "int x < int p + len"
    using zero [OF that] that by (auto simp: m' mset0_def)
qed

subsection \<open>Release keeps the partition and coalesces\<close>

fun coalesced :: "(addr, int) omap \<Rightarrow> bool" where
  "coalesced (p # q # m) \<longleftrightarrow> padd (fst p) (snd p) \<noteq> fst q \<and> coalesced (q # m)"
| "coalesced _ \<longleftrightarrow> True"

lemma merge_from_keys: "fst ` set (merge_from p m) \<subseteq> insert (fst p) (fst ` set m)"
  by (induction p m rule: merge_from.induct) auto

lemma merge_from_hd: "\<exists>l m'. merge_from p m = (fst p, l) # m'"
  by (induction p m rule: merge_from.induct) auto

lemma merge_from_props:
  "msorted (p # m) \<Longrightarrow> pos_lens (p # m) \<Longrightarrow>
   msorted (merge_from p m) \<and> pos_lens (merge_from p m) \<and> coalesced (merge_from p m) \<and>
   (\<forall>x. cov (merge_from p m) x = ind (fst p) (snd p) x + cov m x)"
proof (induction p m rule: merge_from.induct)
  case (2 p q m)
  show ?case
  proof (cases "padd (fst p) (snd p) = fst q")
    case True
    have "ind (fst p) (snd p) x + ind (fst q) (snd q) x = ind (fst p) (snd p + snd q) x" for x
      using ind_join [of "snd p" "snd q" "fst p" x] "2.prems" True by (simp add: padd_def nat_add_distrib)
    moreover have "msorted ((fst p, snd p + snd q) # m)" "pos_lens ((fst p, snd p + snd q) # m)"
      using "2.prems" by auto
    ultimately show ?thesis using "2.IH"(1) [OF True] True by (simp add: add.assoc [symmetric])
  next
    case False
    from "2.prems" have s: "msorted (q # m)" "pos_lens (q # m)" by auto
    from merge_from_hd [of q m] obtain l m' where hd: "merge_from q m = (fst q, l) # m'" by blast
    have "\<forall>r \<in> set (merge_from q m). fst p < fst r"
      using merge_from_keys [of q m] "2.prems" by fastforce
    with "2.IH"(2) [OF False s] False hd "2.prems" show ?thesis by auto
  qed
qed simp

lemma merge_ranges_props:
  "msorted m \<Longrightarrow> pos_lens m \<Longrightarrow>
   msorted (merge_ranges m) \<and> pos_lens (merge_ranges m) \<and> coalesced (merge_ranges m) \<and>
   (\<forall>x. cov (merge_ranges m) x = cov m x)"
  using merge_from_props by (cases m) auto

lemma coalesced_tl: "coalesced (p # m) \<Longrightarrow> coalesced m"
  by (cases m) auto

lemma coalesced_replace_hd:
  "coalesced (p # m) \<Longrightarrow> padd (fst p') (snd p') = padd (fst p) (snd p) \<Longrightarrow> coalesced (p' # m)"
  by (cases m) auto

lemma minsert_front: "\<forall>q \<in> set m. k < fst q \<Longrightarrow> minsert k v m = (k, v) # m"
  by (cases m) auto

lemma fix_offset_inv:
  assumes inv: "sa_inv mem st" and co: "coalesced (m_RangeSet st)"
    and fx: "fix_offset mem st = (mem', st')"
  shows "sa_inv mem' st' \<and> coalesced (m_RangeSet st') \<and> st' = st\<lparr>m_RangeSet := m_RangeSet st'\<rparr>"
proof (cases "m_RangeSet st")
  case Nil
  with fx inv co show ?thesis by (auto simp: fix_offset_def)
next
  case (Cons q rest)
  obtain a l where q: "q = (a, l)" by (cases q)
  let ?off = "rd32 mem (m_pRecordOffset st)"
  let ?hi = "int (m_pBegin st + m_nTotalLen st)"
  show ?thesis
  proof (cases "?off > 0 \<and> int a = int (m_pStart st) - int ?off")
    case False
    with fx inv co Cons q show ?thesis by (auto simp: fix_offset_def Let_def)
  next
    case True
    have lay: "sa_layout mem st" and srt: "msorted ((a, l) # rest)" and pos: "pos_lens ((a, l) # rest)"
      and part: "\<forall>x. cov (m_RangeSet st) x + cov (m_RecordInfo st) x = ind (heap_lo mem st) (?hi - int (heap_lo mem st)) x"
      and others: "msorted (m_RecordInfo st)" "msorted (m_RecordMap st)" "pos_lens (m_RecordInfo st)"
        "fst ` set (m_RecordMap st) = fst ` set (m_RecordInfo st)"
      using inv Cons q by (auto simp: sa_inv_def sa_parts_def)
    have off: "m_pRecordStart st + ?off \<le> m_pStart st" "m_pStart st \<le> m_pBegin st + m_nTotalLen st"
      "m_nTotalLen st < 2147483648" "m_pBegin st + 24 \<le> m_pRecordStart st"
      using lay by (auto simp: sa_layout_def)
    have a: "a = heap_lo mem st" "m_pStart st = a + ?off" using True off by (auto simp: heap_lo_def)
    have l0: "0 < l" using pos by simp
    have hi: "int a + l \<le> ?hi"
      using cov_bounds(2) [of a l "m_RangeSet st", OF _ _ part] Cons q a l0 by auto
    have lb: "l < 2147483648" using hi a off by linarith
    have cv: "ind a (?hi - int a) x = ind a l x + ind (a + nat l) (?hi - int a - l) x" for x
      using ind_split [of l "?hi - int a" a x] l0 hi by simp
    have prt: "cov rest x + cov (m_RecordInfo st) x = ind (a + nat l) (?hi - int a - l) x" for x
      using spec [OF part, of x] cv [of x] Cons q a by simp
    show ?thesis
    proof (cases "nat l \<le> ?off")
      case c: True
      have v: "to_u32 (int ?off - l) = ?off - nat l"
        using c l0 rd32_bound [of mem "m_pRecordOffset st"] by (simp add: nat_diff_distrib)
      have mm: "mem' = wr32 mem (m_pRecordOffset st) (?off - nat l)" and ss: "st' = st\<lparr>m_RangeSet := rest\<rparr>"
        using fx Cons q True c l0 lb v by (auto simp: fix_offset_def Let_def)
      have "m_pRecordStart st + (?off - nat l) \<le> m_pStart st" using off by simp
      from layout_set_offset [OF lay this] have lay': "sa_layout mem' st"
        and lo': "heap_lo mem' st = a + nat l" using mm a c by auto
      have "sa_parts mem' st'" unfolding sa_parts_def ss
        using srt pos others prt lo' l0 by (auto simp: algebra_simps)
      then show ?thesis using lay' ss co Cons q by (auto simp: sa_inv_def dest: coalesced_tl)
    next
      case c: False
      have front: "\<forall>r \<in> set rest. m_pStart st < fst r"
      proof
        fix r assume r: "r \<in> set rest"
        obtain ra rl where rr: "r = (ra, rl)" by (cases r)
        have "0 < rl" using pos r rr by (auto simp: pos_lens_def)
        then have "a + nat l \<le> ra" using cov_bounds(1) [of ra rl rest] r rr prt by blast
        then show "m_pStart st < fst r" using a c rr by simp
      qed
      have nl: "to_i32 (l - int ?off) = l - int ?off" using c l0 lb by simp
      have mm: "mem' = wr32 mem (m_pRecordOffset st) 0"
        and ss: "st' = st\<lparr>m_RangeSet := (m_pStart st, l - int ?off) # rest\<rparr>"
        using fx Cons q True c l0 lb nl minsert_front [OF front] by (auto simp: fix_offset_def Let_def)
      have "m_pRecordStart st + 0 \<le> m_pStart st" using off by simp
      from layout_set_offset [OF lay this] have lay': "sa_layout mem' st"
        and lo': "heap_lo mem' st = m_pStart st" using mm by auto
      have sp: "ind (m_pStart st) (?hi - int (m_pStart st)) x =
          ind (m_pStart st) (l - int ?off) x + ind (a + nat l) (?hi - int a - l) x" for x
        using ind_split [of "l - int ?off" "?hi - int (m_pStart st)" "m_pStart st" x] c hi a l0
        by (simp add: algebra_simps nat_diff_distrib)
      have "sa_parts mem' st'" unfolding sa_parts_def ss
        using srt pos others prt lo' front c sp l0 by (auto simp: algebra_simps)
      moreover have "coalesced (m_RangeSet st')"
        using co Cons q ss a c l0 by (auto simp: padd_def intro!: coalesced_replace_hd [of "(a, l)"])
      ultimately show ?thesis using lay' ss by (simp add: sa_inv_def)
    qed
  qed
qed

lemma Free_inv:
  assumes inv: "sa_inv mem st" and l: "map_of (m_RecordInfo st) p = Some l"
    and fr: "Free p mem st = (mem', st')"
  shows "sa_inv mem' st'" and "coalesced (m_RangeSet st')"
    and "map_of (m_RecordInfo st') = (map_of (m_RecordInfo st))(p := None)"
proof -
  let ?hi = "int (m_pBegin st + m_nTotalLen st)"
  have lay: "sa_layout mem st" and srt: "msorted (m_RangeSet st)" "msorted (m_RecordInfo st)" "msorted (m_RecordMap st)"
    and pos: "pos_lens (m_RangeSet st)" "pos_lens (m_RecordInfo st)"
    and keys: "fst ` set (m_RecordMap st) = fst ` set (m_RecordInfo st)"
    and part: "\<forall>x. cov (m_RangeSet st) x + cov (m_RecordInfo st) x = ind (heap_lo mem st) (?hi - int (heap_lo mem st)) x"
    using inv by (auto simp: sa_inv_def sa_parts_def)
  have pin: "(p, l) \<in> set (m_RecordInfo st)" using l by (rule map_of_SomeD)
  then have l0: "0 < l" using pos by (auto simp: pos_lens_def)
  have "p \<in> fst ` set (m_RecordMap st)" using pin keys by force
  then obtain i where i: "map_of (m_RecordMap st) p = Some i"
    by (metis map_of_eq_None_iff option.exhaust)
  let ?m1 = "flag_clear mem (m_pFlagStart st) (nat i)"
  let ?m2 = "wr16 ?m1 (m_pReserved st) (pCount ?m1 st 0 + 65535)"
  let ?rs = "minsert p l (m_RangeSet st)"
  let ?st2 = "st\<lparr>m_RecordInfo := merase p (m_RecordInfo st), m_RecordMap := merase p (m_RecordMap st),
                  m_RangeSet := merge_ranges ?rs\<rparr>"
  have fx: "fix_offset ?m2 ?st2 = (mem', st')" using fr l i by (simp add: Free_def Let_def)
  have ptr: "m_pFlagStart st = m_pBegin st + 24" "m_pReserved st = m_pBegin st + 8" using lay by (auto simp: sa_layout_def)
  have h: "same_header st mem ?m2"
    using ptr by (intro same_header_trans [OF same_header_flag_clear same_header_wr16]) auto
  have cr: "cov (m_RecordInfo st) x = ind p l x + cov (merase p (m_RecordInfo st)) x" for x
    by (rule cov_merase [OF srt(2) l])
  have "cov (m_RangeSet st) p = 0"
    using spec [OF part, of p] cr [of p] l0 by (auto simp: ind_def split: if_splits)
  then have "p \<notin> fst ` set (m_RangeSet st)" using pos by (intro cov_zero_notkey)
  then have cs: "cov ?rs x = ind p l x + cov (m_RangeSet st) x" for x by (rule cov_minsert)
  have mg: "msorted (merge_ranges ?rs)" "pos_lens (merge_ranges ?rs)" "coalesced (merge_ranges ?rs)"
    "\<forall>x. cov (merge_ranges ?rs) x = cov ?rs x"
    using merge_ranges_props [of ?rs] srt pos l0 by auto
  have k2: "fst ` set (merase p (m_RecordMap st)) = fst ` set (merase p (m_RecordInfo st))"
  proof -
    have "fst ` set (merase p m) = fst ` set m - {p}" for m :: "(addr, int) omap" by (force simp: merase_def)
    with keys show ?thesis by simp
  qed
  have sum: "cov (merge_ranges ?rs) x + cov (merase p (m_RecordInfo st)) x = cov (m_RangeSet st) x + cov (m_RecordInfo st) x" for x
    using mg(4) cs cr by simp
  have "sa_parts ?m2 ?st2" unfolding sa_parts_def
    using mg srt pos k2 part sum by (simp add: same_header_heap_lo [OF lay h])
  then have inv2: "sa_inv ?m2 ?st2" using same_header_layout [OF lay h] by (simp add: sa_inv_def)
  from fix_offset_inv [OF inv2 _ fx] mg(3)
  have res: "sa_inv mem' st'" "coalesced (m_RangeSet st')" "st' = ?st2\<lparr>m_RangeSet := m_RangeSet st'\<rparr>" by auto
  then show "sa_inv mem' st'" and "coalesced (m_RangeSet st')" by auto
  show "map_of (m_RecordInfo st') = (map_of (m_RecordInfo st))(p := None)"
    by (subst res(3)) (simp add: map_of_merase)
qed

subsection \<open>Formatting and loading\<close>

definition fresh :: "addr \<Rightarrow> nat \<Rightarrow> static_alloc" where
  "fresh b n = XStaticAlloc_new\<lparr>m_pBegin := b, m_nTotalLen := n\<rparr>"

definition flag_bytes :: "nat \<Rightarrow> nat" where
  "flag_bytes c = (if c mod 8 \<noteq> 0 then c div 8 + 1 else c div 8)"

definition formatted :: "addr \<Rightarrow> nat \<Rightarrow> static_alloc" where
  "formatted b n =
     (let c = max_block_count n 24; r = b + 24 + flag_bytes c; s = r + 16 * c
      in (InitHeadInfo (fresh b n))\<lparr>m_pRecordStart := r, m_pStart := s, m_RangeSet := [(s, int (b + n) - int s)]\<rparr>)"

lemma flag_bytes_bounds: "8 * flag_bytes c \<le> c + 7" "c \<le> 8 * flag_bytes c"
  unfolding flag_bytes_def by presburger+

lemma InitHeadInfo_eq:
  "InitHeadInfo st = st\<lparr>m_pIdentifier := m_pBegin st, m_pReserved := m_pBegin st + 8,
     m_pFlagLen := m_pBegin st + 12, m_pRecordLen := m_pBegin st + 16,
     m_pRecordOffset := m_pBegin st + 20, m_pFlagStart := m_pBegin st + 24\<rparr>"
  by (simp add: InitHeadInfo_def)

lemma symbol_length: "length STATIC_UNIQUE_SYMBOL = 8"
  by (simp add: STATIC_UNIQUE_SYMBOL_def)

lemma symbol_nonzero: "of_char c \<noteq> (0 :: 8 word)" if "c \<in> set STATIC_UNIQUE_SYMBOL"
  using that by (auto simp: STATIC_UNIQUE_SYMBOL_def)

lemma layout_fits:
  assumes "24 < n" "n < 2147483648"
  shows "24 + flag_bytes (max_block_count n 24) + 16 * max_block_count n 24 < n"
proof -
  let ?c = "max_block_count n 24"
  have c: "137 * ?c \<le> 8 * (n - 24)" using assms by (simp add: max_block_count_def)
  consider "?c = 0" | "1 \<le> ?c" by linarith
  then show ?thesis
    by cases (use c flag_bytes_bounds(1) [of ?c] assms in linarith)+
qed

lemma Format_result:
  assumes n: "24 < n" "n < 2147483648" and c: "max_block_count n 24 < 65536"
    and f: "FormatBlockArea mem (fresh b n) = (mem', st')"
  shows "st' = formatted b n" and "rd32 mem' (b + 12) = flag_bytes (max_block_count n 24)"
    and "rd32 mem' (b + 16) = 16 * max_block_count n 24" and "rd32 mem' (b + 20) = 0"
    and "rd16 mem' (b + 8) = 0" and "rd16 mem' (b + 10) = max_block_count n 24"
    and "b + 24 \<le> x \<Longrightarrow> x < b + n \<Longrightarrow> mem' x = 0"
    and "i < 8 \<Longrightarrow> mem' (b + i) = of_char (STATIC_UNIQUE_SYMBOL ! i)"
proof -
  let ?c = "max_block_count n 24"
  let ?m2 = "put_bytes (mset0 mem b n) b (map of_char STATIC_UNIQUE_SYMBOL @ [0])"
  let ?m5 = "wr32 (wr32 (wr32 ?m2 (b + 12) (flag_bytes ?c)) (b + 16) (16 * ?c)) (b + 20) 0"
  let ?m7 = "wr16 (wr16 ?m5 (b + 8) 0) (b + 10) ?c"
  have fb: "flag_bytes ?c < 4294967296" "16 * ?c < 4294967296" using c by (auto simp: flag_bytes_def)
  have r5: "rd32 ?m5 (b + 12) = flag_bytes ?c" "rd32 ?m5 (b + 16) = 16 * ?c"
    using fb by (simp_all add: mem_simps)
  have fit: "24 + flag_bytes ?c + 16 * ?c < n" by (rule layout_fits [OF n])
  let ?s = "b + 24 + flag_bytes ?c + 16 * ?c"
  have nr: "to_i32 (int (b + n) - int ?s) = int (b + n) - int ?s"
    using fit n by (intro to_i32_id) linarith+
  have "FormatBlockArea mem (fresh b n) = (?m7, formatted b n)"
    unfolding FormatBlockArea_def formatted_def BITS_PER_BYTE_def flag_bytes_def [symmetric]
      SIZEOF_RANGEINFO_def mult.commute [of _ "16::nat"] fresh_def XStaticAlloc_new_def InitHeadInfo_eq Let_def
    using r5 nr by (simp del: of_nat_add to_i32_id add: add.assoc add.commute [of 10 b])
  then have mm: "mem' = ?m7" and ss: "st' = formatted b n" using f by simp_all
  show "st' = formatted b n" by (rule ss)
  show "rd32 mem' (b + 12) = flag_bytes ?c" "rd32 mem' (b + 16) = 16 * ?c" "rd32 mem' (b + 20) = 0"
    "rd16 mem' (b + 8) = 0" "rd16 mem' (b + 10) = ?c"
    using fb c by (simp_all add: mm mem_simps)
  show "mem' x = 0" if "b + 24 \<le> x" "x < b + n"
    using that by (simp add: mm wr16_other wr32_other put_bytes_at mset0_def STATIC_UNIQUE_SYMBOL_def)
  show "mem' (b + i) = of_char (STATIC_UNIQUE_SYMBOL ! i)" if "i < 8"
    using that by (simp add: mm wr16_other wr32_other put_bytes_at symbol_length nth_append)
qed

lemma formatted_fields:
  "m_pBegin (formatted b n) = b" "m_nTotalLen (formatted b n) = n" "m_pIdentifier (formatted b n) = b"
  "m_pReserved (formatted b n) = b + 8" "m_pFlagLen (formatted b n) = b + 12"
  "m_pRecordLen (formatted b n) = b + 16" "m_pRecordOffset (formatted b n) = b + 20"
  "m_pFlagStart (formatted b n) = b + 24"
  "m_pRecordStart (formatted b n) = b + 24 + flag_bytes (max_block_count n 24)"
  "m_pStart (formatted b n) = b + 24 + flag_bytes (max_block_count n 24) + 16 * max_block_count n 24"
  "m_RecordMap (formatted b n) = []" "m_RecordInfo (formatted b n) = []"
  "m_RangeSet (formatted b n) = [(m_pStart (formatted b n), int (b + n) - int (m_pStart (formatted b n)))]"
  by (simp_all add: formatted_def Let_def InitHeadInfo_eq fresh_def XStaticAlloc_new_def)

lemma Format_inv:
  assumes b: "0 < b" and n: "24 < n" "n < 2147483648" and c: "max_block_count n 24 < 65536"
    and f: "FormatBlockArea mem (fresh b n) = (mem', st')"
  shows "sa_inv mem' (formatted b n)" and "\<not> flag_at mem' (b + 24) k \<or> 8 * flag_bytes (max_block_count n 24) \<le> k"
    and "\<not> IsRawBlockArea mem' (fresh b n)"
proof -
  note r = Format_result [OF n c f]
  let ?c = "max_block_count n 24"
  have fit: "24 + flag_bytes ?c + 16 * ?c < n" by (rule layout_fits [OF n])
  have p1: "pCount mem' (formatted b n) 1 = ?c" using r(6) by (simp add: pCount_def formatted_fields add.commute [of 10 b])
  have "sa_layout mem' (formatted b n)"
    unfolding sa_layout_def formatted_fields p1
    using b n fit r(2-4) flag_bytes_bounds(2) [of ?c] by (simp add: SIZEOF_RANGEINFO_def BITS_PER_BYTE_def)
  moreover have "heap_lo mem' (formatted b n) = m_pStart (formatted b n)"
    using r(4) by (simp add: heap_lo_def formatted_fields)
  then have "sa_parts mem' (formatted b n)"
    unfolding sa_parts_def using fit by (simp add: formatted_fields)
  ultimately show "sa_inv mem' (formatted b n)" by (simp add: sa_inv_def)
  show "\<not> flag_at mem' (b + 24) k \<or> 8 * flag_bytes ?c \<le> k"
  proof (cases "k < 8 * flag_bytes ?c")
    case True
    then have "k div 8 < flag_bytes ?c" by (simp add: less_mult_imp_div_less mult.commute)
    then have "mem' (b + 24 + k div 8) = 0" using fit by (intro r(7)) auto
    then show ?thesis by (simp add: flag_at_def BITS_PER_BYTE_def)
  qed simp
  have "map (\<lambda>i. mem' (b + i)) [0..<8] = map of_char STATIC_UNIQUE_SYMBOL"
    by (rule nth_equalityI) (simp_all add: symbol_length r(8))
  moreover have "takeWhile (\<lambda>x. x \<noteq> 0) (map of_char STATIC_UNIQUE_SYMBOL) = (map of_char STATIC_UNIQUE_SYMBOL :: 8 word list)"
    using symbol_nonzero by (simp add: takeWhile_eq_all_conv)
  ultimately show "\<not> IsRawBlockArea mem' (fresh b n)"
    by (simp add: IsRawBlockArea_def MEM_IDENTIFIER_SIZE_def fresh_def)
qed

lemma load_records_none:
  "(\<And>j. k \<le> j \<Longrightarrow> j < k + r \<Longrightarrow> \<not> flag_at mem (m_pFlagStart st) j) \<Longrightarrow> load_records mem k r st = st"
  by (induction mem k r st rule: load_records.induct) auto

lemma Init_fresh:
  "0 < b \<Longrightarrow> 0 < n \<Longrightarrow> Init b n mem XStaticAlloc_new =
     (if IsRawBlockArea mem (fresh b (nat n))
      then (let (mem', st') = FormatBlockArea mem (fresh b (nat n)) in (0, mem', st'))
      else (1, mem, LoadBlockArea mem (fresh b (nat n))))"
  by (simp add: Init_def fresh_def XStaticAlloc_new_def Let_def)

lemma Init_raw_ok:
  assumes "0 < b" and "24 < n" and "n < 2147483648" and "max_block_count (nat n) 24 < 65536"
    and "IsRawBlockArea mem (fresh b (nat n))"
  shows "\<exists>mem'. Init b n mem XStaticAlloc_new = (0, mem', formatted b (nat n)) \<and>
           sa_inv mem' (formatted b (nat n)) \<and> GetUseCount mem' (formatted b (nat n)) = 0 \<and>
           GetMgrBlockCountLimit mem' (formatted b (nat n)) = int (max_block_count (nat n) 24) \<and>
           (0 < max_block_count (nat n) 24 \<longrightarrow> has_index mem' (formatted b (nat n)))"
proof -
  obtain mem' st' where f: "FormatBlockArea mem (fresh b (nat n)) = (mem', st')" by fastforce
  have n: "24 < nat n" "nat n < 2147483648" using assms by auto
  note r = Format_result [OF n assms(4) f] and v = Format_inv [OF assms(1) n assms(4) f]
  have "Init b n mem XStaticAlloc_new = (0, mem', formatted b (nat n))"
    using assms f r(1) by (simp add: Init_fresh)
  moreover have "GetUseCount mem' (formatted b (nat n)) = 0"
      "GetMgrBlockCountLimit mem' (formatted b (nat n)) = int (max_block_count (nat n) 24)"
    using r(5,6) by (simp_all add: GetUseCount_def GetMgrBlockCountLimit_def pCount_def formatted_fields add.commute [of 10 b])
  moreover have "has_index mem' (formatted b (nat n))" if c0: "0 < max_block_count (nat n) 24"
  proof -
    have "\<not> flag_at mem' (b + 24) 0"
      using c0 v(2) [of 0] flag_bytes_bounds(2) [of "max_block_count (nat n) 24"] by (metis le_zero_eq mult_0_right not_le)
    moreover have "pCount mem' (formatted b (nat n)) 1 = max_block_count (nat n) 24"
      using r(6) by (simp add: pCount_def formatted_fields add.commute [of 10 b])
    ultimately show ?thesis using c0 formatted_fields(8) [of b "nat n"] unfolding has_index_def by metis
  qed
  ultimately show ?thesis using v(1) by (intro exI [of _ mem'] conjI impI)
qed

lemma sample_init:
  "\<exists>mem. Init 1000 200 (\<lambda>_. 0) XStaticAlloc_new = (0, mem, formatted 1000 200) \<and>
     sa_inv mem (formatted 1000 200) \<and> has_index mem (formatted 1000 200)"
proof -
  have "max_block_count 200 24 = 10" by (simp add: max_block_count_def to_u32_def)
  moreover have "IsRawBlockArea (\<lambda>_. 0) (fresh 1000 200)"
    by (simp add: IsRawBlockArea_def STATIC_UNIQUE_SYMBOL_def MEM_IDENTIFIER_SIZE_def upt_rec)
  ultimately show ?thesis using Init_raw_ok [of 1000 200 "\<lambda>_. 0"] by auto
qed

lemma sample_alloc:
  assumes "sa_inv mem (formatted 1000 200)" "has_index mem (formatted 1000 200)"
  shows "\<exists>mem' st'. Alloc 10 mem (formatted 1000 200) = (1186, mem', st')"
proof -
  have s: "m_RangeSet (formatted 1000 200) = [(1186, 14)]"
    by (simp add: formatted_fields max_block_count_def to_u32_def flag_bytes_def)
  obtain st1 where "alloc_pick 10 mem (formatted 1000 200) = Some (1186, nat 10, mem, st1)"
    using alloc_pick_fit [OF assms(1), of 10 1186 14] s by auto
  from Alloc_recorded [OF assms(1) _ assms(2) this] show ?thesis by auto
qed

subsection \<open>Properties\<close>

text \<open>
  Property C1. Allocation is safe: from a state in which free ranges and recorded blocks
  partition the heap area, a successful \<open>Alloc\<close> of a positive length with a free record
  index returns a block that overlaps no live block, zeroes it, records it with its length,
  keeps every other record and keeps the partition.
\<close>

theorem Alloc_keeps_partition:
  assumes "sa_inv mem st" and "0 < len" and "has_index mem st"
    and "Alloc len mem st = (p, mem', st')" and "p \<noteq> 0"
  shows "sa_inv mem' st' \<and> map_of (m_RecordInfo st') = (map_of (m_RecordInfo st))(p \<mapsto> len) \<and>
         (\<forall>x. p \<le> x \<and> int x < int p + len \<longrightarrow> cov (m_RecordInfo st) x = 0 \<and> mem' x = 0)"
  using Alloc_inv [OF assms] by blast

theorem Alloc_keeps_partition_witness:
  "\<exists>mem mem' st'. sa_inv mem (formatted 1000 200) \<and> has_index mem (formatted 1000 200) \<and>
     Alloc 10 mem (formatted 1000 200) = (1186, mem', st') \<and> sa_inv mem' st' \<and>
     map_of (m_RecordInfo st') 1186 = Some 10"
proof -
  obtain mem where m: "sa_inv mem (formatted 1000 200)" "has_index mem (formatted 1000 200)"
    using sample_init by blast
  obtain mem' st' where a: "Alloc 10 mem (formatted 1000 200) = (1186, mem', st')"
    using sample_alloc [OF m] by blast
  from Alloc_keeps_partition [OF m(1) _ m(2) a] m a show ?thesis by auto
qed

text \<open>
  Property C2. Release is safe: freeing a recorded block keeps the partition, removes just
  that record, and leaves no two adjacent free ranges (fragments are merged).
\<close>

theorem Free_keeps_partition:
  assumes "sa_inv mem st" and "map_of (m_RecordInfo st) p = Some l"
    and "Free p mem st = (mem', st')"
  shows "sa_inv mem' st' \<and> coalesced (m_RangeSet st') \<and>
         map_of (m_RecordInfo st') = (map_of (m_RecordInfo st))(p := None)"
  using Free_inv [OF assms] by blast

theorem Free_keeps_partition_witness:
  "\<exists>mem st mem' st'. sa_inv mem st \<and> map_of (m_RecordInfo st) 1186 = Some 10 \<and>
     Free 1186 mem st = (mem', st') \<and> sa_inv mem' st' \<and> map_of (m_RecordInfo st') 1186 = None"
proof -
  obtain mem where m: "sa_inv mem (formatted 1000 200)" "has_index mem (formatted 1000 200)"
    using sample_init by blast
  obtain mem' st' where a: "Alloc 10 mem (formatted 1000 200) = (1186, mem', st')"
    using sample_alloc [OF m] by blast
  from Alloc_inv [OF m(1) _ m(2) a]
  have r: "sa_inv mem' st'" "map_of (m_RecordInfo st') 1186 = Some 10" by auto
  obtain mem2 st2 where f: "Free 1186 mem' st' = (mem2, st2)" by fastforce
  from Free_keeps_partition [OF r f] have "sa_inv mem2 st2" "map_of (m_RecordInfo st2) 1186 = None" by auto
  with r f show ?thesis by blast
qed

text \<open>
  Observation. Initialising a raw block formats it: \<open>Init\<close> returns 0, the layout fits in
  the block, the whole rest of the block is one free range, no block is in use, the block
  limit is the computed one, and the partition invariant holds.
\<close>

theorem Init_formats_raw:
  assumes "0 < b" and "24 < n" and "n < 2147483648" and "max_block_count (nat n) 24 < 65536"
    and "IsRawBlockArea mem (fresh b (nat n))"
  shows "\<exists>mem'. Init b n mem XStaticAlloc_new = (0, mem', formatted b (nat n)) \<and>
           sa_inv mem' (formatted b (nat n)) \<and> GetUseCount mem' (formatted b (nat n)) = 0 \<and>
           GetMgrBlockCountLimit mem' (formatted b (nat n)) = int (max_block_count (nat n) 24) \<and>
           (0 < max_block_count (nat n) 24 \<longrightarrow> has_index mem' (formatted b (nat n)))"
  by (rule Init_raw_ok [OF assms])

theorem Init_formats_raw_witness:
  "\<exists>mem'. Init 1000 200 (\<lambda>_. 0) XStaticAlloc_new = (0, mem', formatted 1000 200) \<and>
     GetMgrBlockCountLimit mem' (formatted 1000 200) = 10"
proof -
  have "max_block_count 200 24 = 10" by (simp add: max_block_count_def to_u32_def)
  moreover have "IsRawBlockArea (\<lambda>_. 0) (fresh 1000 200)"
    by (simp add: IsRawBlockArea_def STATIC_UNIQUE_SYMBOL_def MEM_IDENTIFIER_SIZE_def upt_rec)
  ultimately show ?thesis using Init_formats_raw [of 1000 200 "\<lambda>_. 0"] by auto
qed

text \<open>
  Property C25. Format and load agree: a second \<open>Init\<close> (of another object) on the block
  that a first \<open>Init\<close> formatted returns 1, leaves the memory as it is and ends in the same
  pointers and maps.
\<close>

theorem format_then_load:
  assumes "0 < b" and "24 < n" and "n < 2147483648" and "max_block_count (nat n) 24 < 65536"
    and "Init b n mem XStaticAlloc_new = (0, mem', st')"
  shows "Init b n mem' XStaticAlloc_new = (1, mem', st')"
proof -
  have n: "24 < nat n" "nat n < 2147483648" "0 < n" using assms by auto
  have f: "FormatBlockArea mem (fresh b (nat n)) = (mem', st')"
    using assms(5) Init_fresh [OF assms(1) n(3), of mem] by (auto split: if_splits prod.splits)
  note r = Format_result [OF n(1,2) assms(4) f] and v = Format_inv [OF assms(1) n(1,2) assms(4) f]
  let ?c = "max_block_count (nat n) 24"
  let ?s0 = "(InitHeadInfo (fresh b (nat n)))\<lparr>m_pRecordStart := b + 24 + flag_bytes ?c,
               m_pStart := b + 24 + flag_bytes ?c + 16 * ?c\<rparr>"
  have fl: "\<not> flag_at mem' (b + 24) j" if "j < 8 * flag_bytes ?c" for j using v(2) [of j] that by simp
  have none: "load_records mem' 0 (flag_bytes ?c * BITS_PER_BYTE) ?s0 = ?s0"
    by (intro load_records_none) (auto simp: InitHeadInfo_eq fresh_def BITS_PER_BYTE_def mult.commute fl)
  have fit: "24 + flag_bytes ?c + 16 * ?c < nat n" by (rule layout_fits [OF n(1,2)])
  have nr: "to_i32 (int (b + nat n) - int (b + 24 + flag_bytes ?c + 16 * ?c)) = int (b + nat n) - int (b + 24 + flag_bytes ?c + 16 * ?c)"
    using fit n by (intro to_i32_id) linarith+
  have "LoadBlockArea mem' (fresh b (nat n)) = formatted b (nat n)"
    unfolding LoadBlockArea_def Let_def
    using none r(2,3) nr
    by (simp del: of_nat_add to_i32_id add: InitHeadInfo_eq fresh_def formatted_def Let_def XStaticAlloc_new_def)
  then show ?thesis
    using v(3) r(1) assms(1) n(3) by (simp add: Init_fresh)
qed

theorem format_then_load_witness:
  "\<exists>mem. Init 1000 200 (\<lambda>_. 0) XStaticAlloc_new = (0, mem, formatted 1000 200) \<and>
     Init 1000 200 mem XStaticAlloc_new = (1, mem, formatted 1000 200)"
proof -
  have c: "max_block_count 200 24 = 10" by (simp add: max_block_count_def to_u32_def)
  obtain mem where "Init 1000 200 (\<lambda>_. 0) XStaticAlloc_new = (0, mem, formatted 1000 200)"
    using sample_init by blast
  with format_then_load [OF _ _ _ _ this] c show ?thesis by auto
qed

text \<open>
  Observation. The free-range path of \<open>Alloc\<close> ignores the limit that squeezing puts on the
  record area: when the slot of the first clear flag lies inside a live block, a successful
  allocation from a free range leaves the new record's length there, whatever the owner of
  the block had stored.
\<close>

theorem Alloc_record_overwrites_live_block:
  assumes inv: "sa_inv mem st" and len: "0 < len"
    and fit: "List.find (\<lambda>p. len \<le> snd p) (m_RangeSet st) = Some (a, l)"
    and idx: "i < pCount mem st 1" "\<not> flag_at mem (m_pFlagStart st) i" "\<forall>j < i. flag_at mem (m_pFlagStart st) j"
    and live: "\<forall>y. slot + 8 \<le> y \<and> y < slot + 12 \<longrightarrow> 0 < cov (m_RecordInfo st) y"
    and slot: "slot = m_pRecordStart st + 16 * i"
  shows "\<exists>mem' st'. Alloc len mem st = (a, mem', st') \<and> rd32 mem' (slot + 8) = nat len"
proof -
  obtain st1 where pick: "alloc_pick len mem st = Some (a, nat len, mem, st1)" and pk: "picked mem st len a mem st1"
    using alloc_pick_fit [OF inv len fit] by blast
  have lay: "sa_layout mem st" using inv by (simp add: sa_inv_def)
  have st1: "st1 = st\<lparr>m_RangeSet := m_RangeSet st1\<rparr>" using pk by (simp add: picked_def)
  have f1 [simp]: "m_pBegin st1 = m_pBegin st" "m_pFlagStart st1 = m_pFlagStart st" "m_pFlagLen st1 = m_pFlagLen st"
    "m_pRecordStart st1 = m_pRecordStart st" "m_pReserved st1 = m_pReserved st"
    by (subst st1, simp)+
  have pos: "m_pFlagStart st = m_pBegin st + 24" "m_pBegin st + 24 \<le> m_pRecordStart st"
    "m_pReserved st = m_pBegin st + 8" "m_nTotalLen st < 2147483648"
    using lay by (auto simp: sa_layout_def)
  have "int a + len \<le> int (m_pBegin st + m_nTotalLen st)" "m_pRecordStart st \<le> a" using pk by (auto simp: picked_def)
  then have lenb: "nat len < 4294967296" using pos by linarith
  have "i < rd32 mem (m_pFlagLen st) * BITS_PER_BYTE"
    using idx lay unfolding sa_layout_def by (subst mult.commute) linarith
  from find_clear_least [OF _ _ idx(2), of 0 "rd32 mem (m_pFlagLen st) * BITS_PER_BYTE" 0] this idx
  have fc: "find_clear mem (m_pFlagStart st) 0 (rd32 mem (m_pFlagLen st) * BITS_PER_BYTE) 0 = (i, flag_set mem (m_pFlagStart st) i)"
    by (metis add_0 le0 le_neq_implies_less)
  let ?m2 = "flag_set mem (m_pFlagStart st) i"
  have h2: "same_header st mem ?m2" using same_header_flag_set pos by blast
  have lt: "i < pCount ?m2 st1 1"
    using same_header_reads(4) [OF lay h2] idx(1) by (simp add: pCount_def)
  have part: "cov (m_RecordInfo st) y + ind a len y \<le> 1" for y
    using pk unfolding picked_def by (auto simp: ind_def dest!: spec [of _ y] split: if_splits)
  have out: "\<not> (a \<le> y \<and> y < a + nat len)" if "slot + 8 \<le> y" "y < slot + 12" for y
    using live part [of y] that len by (auto simp: ind_def split: if_splits)
  have dis: "a + nat len \<le> slot + 8 \<or> slot + 8 + 4 \<le> a"
    using out [of "slot + 8"] out [of a] len by auto
  show ?thesis
    using pick fc lt lenb dis pos slot
    by (simp add: Alloc_def Let_def SIZEOF_RANGEINFO_def mult.commute [of 16] mem_simps)
qed

text \<open>
  A block of 200 bytes in which the record area has been squeezed by 100 bytes for one block
  and three one-byte blocks are live: four flags are set, the next record goes to slot 4.
\<close>

definition squeezed_mem :: bmem where
  "squeezed_mem = (\<lambda>_. 0)(1008 := 4, 1010 := 10, 1012 := 2, 1016 := 160, 1020 := 100, 1024 := 15)"

definition squeezed_st :: static_alloc where
  "squeezed_st = (formatted 1000 200)\<lparr>m_RecordMap := [(1086, 0), (1186, 1), (1187, 2), (1188, 3)],
     m_RecordInfo := [(1086, 100), (1186, 1), (1187, 1), (1188, 1)], m_RangeSet := [(1189, 11)]\<rparr>"

lemma squeezed_fields:
  "m_pBegin squeezed_st = 1000" "m_nTotalLen squeezed_st = 200" "m_pIdentifier squeezed_st = 1000"
  "m_pReserved squeezed_st = 1008" "m_pFlagLen squeezed_st = 1012" "m_pRecordLen squeezed_st = 1016"
  "m_pRecordOffset squeezed_st = 1020" "m_pFlagStart squeezed_st = 1024" "m_pRecordStart squeezed_st = 1026"
  "m_pStart squeezed_st = 1186" "m_RangeSet squeezed_st = [(1189, 11)]"
  "m_RecordInfo squeezed_st = [(1086, 100), (1186, 1), (1187, 1), (1188, 1)]"
  "m_RecordMap squeezed_st = [(1086, 0), (1186, 1), (1187, 2), (1188, 3)]"
  by (simp_all add: squeezed_st_def formatted_fields max_block_count_def to_u32_def flag_bytes_def)

lemma squeezed_reads:
  "rd32 squeezed_mem 1012 = 2" "rd32 squeezed_mem 1016 = 160" "rd32 squeezed_mem 1020 = 100"
  "rd16 squeezed_mem 1010 = 10"
  by (simp_all add: squeezed_mem_def rd32_def rd16_def)

lemma squeezed_inv: "sa_inv squeezed_mem squeezed_st"
proof -
  have lo: "heap_lo squeezed_mem squeezed_st = 1086" by (simp add: heap_lo_def squeezed_fields squeezed_reads)
  have "sa_layout squeezed_mem squeezed_st"
    by (simp add: sa_layout_def pCount_def squeezed_fields squeezed_reads SIZEOF_RANGEINFO_def BITS_PER_BYTE_def)
  moreover have "sa_parts squeezed_mem squeezed_st"
    unfolding sa_parts_def lo squeezed_fields by (auto simp: ind_def)
  ultimately show ?thesis by (simp add: sa_inv_def)
qed

theorem Alloc_record_overwrites_live_block_witness:
  "\<exists>mem' st'. cov (m_RecordInfo squeezed_st) 1098 = 1 \<and> Alloc 5 squeezed_mem squeezed_st = (1189, mem', st') \<and>
     rd32 squeezed_mem 1098 = 0 \<and> rd32 mem' 1098 = 5"
proof -
  have fl: "flag_at squeezed_mem 1024 j \<longleftrightarrow> j < 4" if "j < 8" for j
  proof -
    have "j \<in> {0, 1, 2, 3, 4, 5, 6, 7}" using that by auto
    then show ?thesis by (auto simp: flag_at_def squeezed_mem_def BITS_PER_BYTE_def bit_numeral_rec)
  qed
  have live: "\<forall>y. 1090 + 8 \<le> y \<and> y < 1090 + 12 \<longrightarrow> 0 < cov (m_RecordInfo squeezed_st) (y :: nat)"
    by (auto simp: squeezed_fields ind_def)
  have "\<exists>mem' st'. Alloc 5 squeezed_mem squeezed_st = (1189, mem', st') \<and> rd32 mem' (1090 + 8) = nat 5"
    by (rule Alloc_record_overwrites_live_block [OF squeezed_inv, where i = 4 and l = 11])
       (use live in \<open>auto simp: squeezed_fields pCount_def squeezed_reads fl\<close>)
  then show ?thesis
    by (auto simp: squeezed_fields ind_def squeezed_mem_def rd32_def rd16_def)
qed

text \<open>
  Observation. Loading forgets free space: when exactly one block is recorded and it starts
  at the heap start, \<open>Refresh\<close> ends with an empty set of free ranges, however much of the
  block lies behind it (the loop treats the only record as the first one and never adds the
  tail).
\<close>

theorem Refresh_single_block_loses_tail:
  assumes "m_RecordInfo (Refresh mem st) = [(m_pStart (Refresh mem st), l)]"
  shows "m_RangeSet (Refresh mem st) = []"
proof -
  have keep: "m_RangeSet (load_records mem k r s) = m_RangeSet s" "m_pStart (load_records mem k r s) = m_pStart s"
    for k r s by (induction mem k r s rule: load_records.induct) (auto simp: Let_def)
  show ?thesis using assms by (simp add: Refresh_def LoadBlockArea_def Let_def keep InitHeadInfo_eq)
qed

theorem Refresh_single_block_loses_tail_witness:
  "let mem = (\<lambda>_. 0)(1008 := 1, 1010 := 10, 1012 := 2, 1016 := 160, 1024 := 1, 1026 := 186, 1034 := 10);
       st = Refresh mem (fresh 1000 200)
   in m_RecordInfo st = [(1186, 10)] \<and> m_pStart st = 1186 \<and> m_nTotalLen st = 200 \<and> m_RangeSet st = []"
proof -
  let ?mem = "(\<lambda>_. 0)(1008 := 1, 1010 := 10, 1012 := 2, 1016 := 160, 1024 := 1, 1026 := 186, 1034 := 10) :: bmem"
  let ?st = "Refresh ?mem (fresh 1000 200)"
  have fl: "flag_at ?mem 1024 k \<longleftrightarrow> k = 0" if "k < 16" for k
  proof -
    have "k div 8 < 2" using that by simp
    then show ?thesis by (auto simp: flag_at_def BITS_PER_BYTE_def bit_1_iff)
  qed
  have v: "rd64 ?mem 1026 = 186" "rd32 ?mem 1034 = 10" by (simp_all add: rd64_def rd32_def rd16_def)
  have one: "load_records ?mem 0 16 u = u\<lparr>m_RecordMap := minsert 1186 0 (m_RecordMap u),
       m_RecordInfo := minsert 1186 10 (m_RecordInfo u)\<rparr>"
    if "m_pFlagStart u = 1024" "m_pRecordStart u = 1026" "m_pBegin u = 1000" for u
  proof -
    have "load_records ?mem 0 (Suc 15) u = load_records ?mem 1 15 (u\<lparr>m_RecordMap := minsert 1186 0 (m_RecordMap u),
       m_RecordInfo := minsert 1186 10 (m_RecordInfo u)\<rparr>)"
      by (subst load_records.simps(2))
         (use fl [of 0] that in \<open>simp add: v padd_def Let_def del: fun_upd_apply load_records.simps\<close>)
    also have "\<dots> = u\<lparr>m_RecordMap := minsert 1186 0 (m_RecordMap u),
       m_RecordInfo := minsert 1186 10 (m_RecordInfo u)\<rparr>"
      using fl that by (intro load_records_none) auto
    finally show ?thesis by simp
  qed
  have s: "m_RecordInfo ?st = [(1186, 10)]" "m_pStart ?st = 1186" "m_nTotalLen ?st = 200"
    by (simp_all add: Refresh_def LoadBlockArea_def Let_def InitHeadInfo_eq fresh_def XStaticAlloc_new_def
        rd32_def rd16_def BITS_PER_BYTE_def one)
  then show ?thesis using Refresh_single_block_loses_tail [of ?mem "fresh 1000 200" 10] by simp
qed

end
