(* ===== verification/FreeRuns.thy ===== *)
theory FreeRuns
  imports XPrelude
begin

text \<open>
  The interface shared by the two unit allocators of the sources (\<open>MemMgr\<close> and
  \<open>ObjPool\<close>): a search for \<open>n\<close> consecutive free units. The locale states what the
  search promises; what a client may conclude when it marks the units it found is proved
  once in it.
\<close>

text \<open>\<open>n\<close> consecutive free units start at \<open>i\<close>.\<close>

definition free_run :: "(nat \<Rightarrow> bool) \<Rightarrow> nat \<Rightarrow> nat \<Rightarrow> nat \<Rightarrow> bool" where
  "free_run fr len n i \<longleftrightarrow> i + n \<le> len \<and> (\<forall>j < n. fr (i + j))"

text \<open>No run starts before \<open>b\<close>.\<close>

definition no_run_below :: "(nat \<Rightarrow> bool) \<Rightarrow> nat \<Rightarrow> nat \<Rightarrow> nat \<Rightarrow> bool" where
  "no_run_below fr len n b \<longleftrightarrow> (\<forall>i < b. \<not> free_run fr len n i)"

text \<open>What a search for \<open>n\<close> units may answer: the start of the first run, or -1 when there is none.\<close>

definition run_result :: "(nat \<Rightarrow> bool) \<Rightarrow> nat \<Rightarrow> nat \<Rightarrow> int \<Rightarrow> bool" where
  "run_result fr len n r \<longleftrightarrow>
     (if r = -1 then \<forall>i. \<not> free_run fr len n i
      else 0 \<le> r \<and> free_run fr len n (nat r) \<and> no_run_below fr len n (nat r))"

lemma run_result_intros:
  "free_run fr len n i \<Longrightarrow> no_run_below fr len n i \<Longrightarrow> run_result fr len n (int i)"
  "(\<And>i. \<not> free_run fr len n i) \<Longrightarrow> run_result fr len n (-1)"
  by (auto simp: run_result_def)

lemma free_run_start: "free_run fr len n i \<Longrightarrow> 0 < n \<Longrightarrow> fr i \<and> i < len"
  unfolding free_run_def by (metis add.right_neutral add_lessD1 le_neq_implies_less less_add_same_cancel1 order_less_le_trans)

fun mark_range :: "nat \<Rightarrow> nat \<Rightarrow> 'a \<Rightarrow> 'a list \<Rightarrow> 'a list" where
  "mark_range i 0 v xs = xs"
| "mark_range i (Suc n) v xs = mark_range (Suc i) n v (xs[i := v])"

lemma mark_range_length [simp]: "length (mark_range i n v xs) = length xs"
  by (induction i n v xs rule: mark_range.induct) auto

lemma mark_range_nth:
  "k < length xs \<Longrightarrow> mark_range i n v xs ! k = (if i \<le> k \<and> k < i + n then v else xs ! k)"
  by (induction i n v xs rule: mark_range.induct) (auto simp: nth_list_update)

lemma mark_range_unmark:
  assumes "i + n \<le> length xs" "\<forall>j < n. xs ! (i + j) = v"
  shows "mark_range i n v (mark_range i n w xs) = xs"
proof (rule nth_equalityI)
  fix k assume "k < length (mark_range i n v (mark_range i n w xs))"
  then have k: "k < length xs" by simp
  show "mark_range i n v (mark_range i n w xs) ! k = xs ! k"
    using k assms(2) by (auto simp: mark_range_nth dest: spec [of _ "k - i"])
qed simp

text \<open>The first position from \<open>i\<close> on that holds \<open>c\<close> (\<open>strchr\<close>, \<open>find_if\<close>).\<close>

definition index_from :: "'a \<Rightarrow> 'a list \<Rightarrow> nat \<Rightarrow> nat option" where
  "index_from c s i =
     (let r = i + length (takeWhile (\<lambda>x. x \<noteq> c) (drop i s)) in if r < length s then Some r else None)"

lemma index_from_Some:
  assumes "index_from c s i = Some r"
  shows "i \<le> r" "r < length s" "s ! r = c" "\<forall>j. i \<le> j \<and> j < r \<longrightarrow> s ! j \<noteq> c"
proof -
  let ?t = "takeWhile (\<lambda>x. x \<noteq> c) (drop i s)"
  have r: "r = i + length ?t" "r < length s" using assms by (auto simp: index_from_def Let_def split: if_splits)
  then show "i \<le> r" "r < length s" by auto
  have "length ?t < length (drop i s)" using r by simp
  from nth_length_takeWhile [OF this] have "drop i s ! length ?t = c" by simp
  then show "s ! r = c" using r by simp
  show "\<forall>j. i \<le> j \<and> j < r \<longrightarrow> s ! j \<noteq> c"
  proof (intro allI impI)
    fix j assume j: "i \<le> j \<and> j < r"
    have "?t ! (j - i) \<in> set ?t" using j r by (intro nth_mem) auto
    then have "?t ! (j - i) \<noteq> c" by (auto dest: set_takeWhileD)
    moreover have "?t ! (j - i) = drop i s ! (j - i)" using j r by (intro takeWhile_nth) auto
    ultimately show "s ! j \<noteq> c" using j r by simp
  qed
qed

lemma index_from_None:
  assumes "index_from c s i = None" "i \<le> j" "j < length s"
  shows "s ! j \<noteq> c"
proof -
  let ?t = "takeWhile (\<lambda>x. x \<noteq> c) (drop i s)"
  have "length (drop i s) \<le> length ?t" using assms by (auto simp: index_from_def Let_def split: if_splits)
  then have "?t = drop i s" by (metis length_takeWhile_le le_antisym takeWhile_eq_take take_all)
  then have "\<forall>x \<in> set (drop i s). x \<noteq> c" by (simp add: takeWhile_eq_all_conv)
  moreover have "drop i s ! (j - i) \<in> set (drop i s)" using assms by (intro nth_mem) auto
  ultimately show ?thesis using assms by simp
qed

text \<open>Extending or abandoning a partial run when the next unit is seen.\<close>

lemma no_run_extend:
  assumes "no_run_below fr len n (p + 1 - c)" "c < n" "c \<le> p + 1"
    and gap: "\<forall>i. p < i \<and> i < q \<longrightarrow> \<not> fr i" and ne: "q \<noteq> p + 1" and pq: "p < q"
  shows "no_run_below fr len n q"
  unfolding no_run_below_def
proof (intro allI impI notI)
  fix i assume iq: "i < q" and r: "free_run fr len n i"
  show False
  proof (cases "i < p + 1 - c")
    case True
    with assms(1) r show False by (simp add: no_run_below_def)
  next
    case False
    show False
    proof (cases "p < i")
      case True
      with gap iq have "\<not> fr i" by blast
      moreover have "fr (i + 0)" using r assms(2) unfolding free_run_def by blast
      ultimately show False by simp
    next
      case c: False
      have "p + 1 - i < n" using False assms(2,3) c by linarith
      moreover have "i + (p + 1 - i) = p + 1" using c by simp
      ultimately have "fr (p + 1)" using r unfolding free_run_def by metis
      moreover have "\<not> fr (p + 1)" using gap ne pq by simp
      ultimately show False by blast
    qed
  qed
qed

lemma no_run_end:
  assumes "no_run_below fr len n (p + 1 - c)" "c < n" "c \<le> p + 1"
    and gap: "\<forall>i. p < i \<and> i < len \<longrightarrow> \<not> fr i"
  shows "\<not> free_run fr len n i"
proof
  assume r: "free_run fr len n i"
  have "\<not> i < p + 1 - c" using assms(1) r by (auto simp: no_run_below_def)
  then have big: "p + 1 < i + n \<or> p < i" using assms(2,3) by linarith
  let ?j = "if p < i then 0 else p + 1 - i"
  have "?j < n" using \<open>\<not> i < p + 1 - c\<close> assms(2,3) by auto
  moreover from this have "p < i + ?j" "i + ?j < len" using r by (auto simp: free_run_def)
  ultimately show False using r gap unfolding free_run_def by blast
qed

locale run_finder =
  fixes find :: "'f \<Rightarrow> int \<Rightarrow> int"
    and fr :: "'f \<Rightarrow> nat \<Rightarrow> bool"
    and units :: "'f \<Rightarrow> nat"
  assumes found: "0 < n \<Longrightarrow> find f n \<noteq> -1 \<Longrightarrow>
      0 \<le> find f n \<and> free_run (fr f) (units f) (nat n) (nat (find f n))"
    and first: "0 < n \<Longrightarrow> find f n \<noteq> -1 \<Longrightarrow> no_run_below (fr f) (units f) (nat n) (nat (find f n))"
    and none: "0 < n \<Longrightarrow> find f n = -1 \<Longrightarrow> \<not> free_run (fr f) (units f) (nat n) i"
begin

lemma find_iff_least:
  assumes "0 < n"
  shows "find f n = int i \<longleftrightarrow>
     free_run (fr f) (units f) (nat n) i \<and> no_run_below (fr f) (units f) (nat n) i"
proof
  assume "find f n = int i"
  with found [OF assms, of f] first [OF assms, of f]
  show "free_run (fr f) (units f) (nat n) i \<and> no_run_below (fr f) (units f) (nat n) i" by simp
next
  assume r: "free_run (fr f) (units f) (nat n) i \<and> no_run_below (fr f) (units f) (nat n) i"
  with none [OF assms, of f i] have nf: "find f n \<noteq> -1" by blast
  let ?k = "nat (find f n)"
  from found [OF assms nf] first [OF assms nf]
  have k: "0 \<le> find f n" "free_run (fr f) (units f) (nat n) ?k" "no_run_below (fr f) (units f) (nat n) ?k" by auto
  have "\<not> i < ?k" "\<not> ?k < i" using r k by (auto simp: no_run_below_def)
  with k(1) show "find f n = int i" by simp
qed

lemma find_none_iff: "0 < n \<Longrightarrow> find f n = -1 \<longleftrightarrow> (\<forall>i. \<not> free_run (fr f) (units f) (nat n) i)"
  using found none by blast

lemma found_bound: "0 < n \<Longrightarrow> find f n \<noteq> -1 \<Longrightarrow> nat (find f n) + nat n \<le> units f"
  using found by (auto simp: free_run_def)

lemma found_free: "0 < n \<Longrightarrow> find f n \<noteq> -1 \<Longrightarrow> j < nat n \<Longrightarrow> fr f (nat (find f n) + j)"
  using found by (auto simp: free_run_def)

end

end
