(* ===== verification/MemMgr.thy ===== *)
theory MemMgr
  imports FreeRuns
begin

text \<open>
  \<open>Mem/MemMgr.h\<close>, \<open>Mem/MemMgr.cpp\<close> and the allocation calls of \<open>Mem/XAllocator.h\<close>: an
  allocator of fixed-size units on a chain of 4096-byte pages, each with a flag string of
  \<open>'0'\<close> (free) and \<open>'1'\<close> (used) characters ended by a NUL.
  A page is a record \<open>EleNode\<close> (its flag string is the list of its \<open>nCount\<close> flags), the
  chain from \<open>pEleHead\<close> is a list, and the contents of the units are raw memory. The
  system's \<open>malloc\<close> is a parameter: the page address it returns, 0 for failure.
  \<open>sizeof(EleNode)\<close> is 32. Accesses past the flag string are the value \<open>Undefined\<close>.
\<close>

definition SYSMEMPAGE :: nat where
  "SYSMEMPAGE = 4096"

definition SIZEOF_ELENODE :: nat where
  "SIZEOF_ELENODE = 32"

record EleNode =
  nCount :: nat
  nIndex :: nat
  pFlag :: string
  pStart :: addr

record memmgr =
  nUnit :: nat
  pEleHead :: "EleNode list"
  mm_mem :: bmem

definition MemMgr_new :: memmgr where
  "MemMgr_new = \<lparr>nUnit = 0, pEleHead = [], mm_mem = (\<lambda>_. 0)\<rparr>"

definition SetUseStatus :: "nat \<Rightarrow> bool \<Rightarrow> EleNode \<Rightarrow> EleNode" where
  "SetUseStatus i b e = e\<lparr>pFlag := (pFlag e)[i := (if b then CHR ''1'' else CHR ''0'')]\<rparr>"

text \<open>The destructor: the pages handed back to the system, in chain order.\<close>

definition MemMgr_destroy :: "memmgr \<Rightarrow> addr list" where
  "MemMgr_destroy st = map (\<lambda>e. pStart e - (SYSMEMPAGE - nCount e * nUnit st)) (pEleHead st)"

text \<open>The loop of \<open>FindAvailable\<close>; the arguments after \<open>n\<close> are \<open>pStart\<close>, \<open>pTmp\<close>, \<open>pBegin\<close>, \<open>count\<close>, \<open>bFlag\<close>.\<close>

function find_loop :: "string \<Rightarrow> int \<Rightarrow> nat \<Rightarrow> nat \<Rightarrow> nat \<Rightarrow> nat \<Rightarrow> bool \<Rightarrow> int" where
  "find_loop p n ps tmp pb count bFlag =
     (case index_from CHR ''0'' p (ps + 1) of
        None \<Rightarrow> -1
      | Some tag \<Rightarrow>
          if int tag - 1 = int tmp then
            (let pb' = (if bFlag then pb else ps) in
             if n = int (count + 1) then int pb'
             else find_loop p n (ps + 1) tag pb' (count + 1) True)
          else find_loop p n tag tag pb 1 False)"
  by pat_completeness auto
termination
  by (relation "measure (\<lambda>(p, n, ps, tmp, pb, count, bFlag). length p - ps)")
     (use index_from_Some(1,2) in fastforce)+

declare find_loop.simps [simp del]

definition FindAvailable :: "string \<Rightarrow> int \<Rightarrow> int" where
  "FindAvailable p n =
     (case index_from CHR ''0'' p 0 of
        None \<Rightarrow> -1
      | Some ps \<Rightarrow> if n = 1 then int ps else find_loop p n ps ps ps 1 False)"

text \<open>\<open>Expend\<close>: the page becomes the last node of the chain, all its units free.\<close>

definition Expend :: "addr \<Rightarrow> nat \<Rightarrow> memmgr \<Rightarrow> memmgr" where
  "Expend p len st =
     (let x = (len - SIZEOF_ELENODE - 1) div (nUnit st + 1);
          e = \<lparr>nCount = x, nIndex = 0, pFlag = replicate x CHR ''0'', pStart = p + (len - x * nUnit st)\<rparr>
      in st\<lparr>pEleHead := pEleHead st @ [e], mm_mem := mset0 (mm_mem st) p len\<rparr>)"

definition MemMgr_Init :: "addr \<Rightarrow> nat \<Rightarrow> memmgr \<Rightarrow> xerror + bool \<times> memmgr" where
  "MemMgr_Init page blockSize st =
     (if page = 0 then Inl Undefined
      else let st' = Expend page SYSMEMPAGE (st\<lparr>nUnit := blockSize\<rparr>)
           in Inr (pEleHead st' \<noteq> [], st'))"

text \<open>The loop that marks the units: \<open>n\<close> counts down while \<open>i\<close> counts up.\<close>

fun mark_units :: "nat \<Rightarrow> nat \<Rightarrow> nat \<Rightarrow> EleNode \<Rightarrow> EleNode" where
  "mark_units idx i 0 e = e"
| "mark_units idx i (Suc n) e =
     (let e' = e\<lparr>pFlag := (pFlag e)[idx + i := CHR ''1'']\<rparr>
      in mark_units idx (Suc i) n (if idx + n < nIndex e' then e'\<lparr>nIndex := idx + n\<rparr> else e'))"

text \<open>The search of the chain: position of the first page with a run.\<close>

fun find_page :: "EleNode list \<Rightarrow> int \<Rightarrow> (nat \<times> int) option" where
  "find_page [] n = None"
| "find_page (e # es) n =
     (let idx = FindAvailable (pFlag e) n
      in if idx \<noteq> -1 then Some (0, idx) else map_option (\<lambda>(k, i). (Suc k, i)) (find_page es n))"

definition take_units :: "nat \<Rightarrow> int \<Rightarrow> int \<Rightarrow> memmgr \<Rightarrow> addr \<times> memmgr" where
  "take_units k idx n st =
     (let e = pEleHead st ! k
      in (pStart e + nat idx * nUnit st,
          st\<lparr>pEleHead := (pEleHead st)[k := mark_units (nat idx) 0 (nat n) e]\<rparr>))"

definition MemMgr_Alloc :: "addr \<Rightarrow> int \<Rightarrow> memmgr \<Rightarrow> addr \<times> memmgr" where
  "MemMgr_Alloc page n st =
     (case find_page (pEleHead st) n of
        Some (k, idx) \<Rightarrow> take_units k idx n st
      | None \<Rightarrow>
          if page \<noteq> 0 then
            (let st' = Expend page SYSMEMPAGE st;
                 idx = FindAvailable (pFlag (last (pEleHead st'))) n
             in if idx = -1 then (0, st') else take_units (length (pEleHead st)) idx n st')
          else (0, st))"

text \<open>The search of \<open>Free\<close>; the upper bound of a page is included, as in the source.\<close>

fun owner_page :: "nat \<Rightarrow> addr \<Rightarrow> EleNode list \<Rightarrow> nat option" where
  "owner_page u p [] = None"
| "owner_page u p (e # es) =
     (if pStart e \<le> p \<and> p \<le> pStart e + nCount e * u then Some 0 else map_option Suc (owner_page u p es))"

definition MemMgr_Free :: "addr \<Rightarrow> int \<Rightarrow> memmgr \<Rightarrow> xerror + memmgr" where
  "MemMgr_Free p n st =
     (case owner_page (nUnit st) p (pEleHead st) of
        None \<Rightarrow> Inl (Throw ''the MemMgr lib error'')
      | Some k \<Rightarrow>
          (let e = pEleHead st ! k; idx = (p - pStart e) div nUnit st
           in if nUnit st = 0 \<or> n < 0 \<or> (0 < n \<and> nCount e < idx + nat n) then Inl Undefined
              else Inr (st\<lparr>
                pEleHead := (pEleHead st)[k := e\<lparr>pFlag := mark_range idx (nat n) CHR ''0'' (pFlag e),
                                              nIndex := min (nIndex e) idx\<rparr>],
                mm_mem := mset0 (mm_mem st) (pStart e + idx * nUnit st) (nat n * nUnit st)\<rparr>)))"

text \<open>
  Assignment runs the destructor, which does not reset \<open>pEleHead\<close>, and then \<open>Init\<close>, whose
  \<open>Expend\<close> walks the freed chain.
\<close>

definition MemMgr_assign :: "addr \<Rightarrow> memmgr \<Rightarrow> memmgr \<Rightarrow> xerror + memmgr" where
  "MemMgr_assign page th st =
     (if nUnit st > 0 \<and> pEleHead st \<noteq> [] then Inl Undefined
      else case MemMgr_Init page (nUnit th) st of Inl e \<Rightarrow> Inl e | Inr (_, st') \<Rightarrow> Inr st')"

text \<open>\<open>XAllocator\<close>: the standard-allocator face of a \<open>MemMgr\<close> of units of \<open>sizeof(T)\<close>.\<close>

definition XAllocator_new :: "nat \<Rightarrow> addr \<Rightarrow> xerror + memmgr" where
  "XAllocator_new sizeofT page =
     (case MemMgr_Init page sizeofT MemMgr_new of Inl e \<Rightarrow> Inl e | Inr (_, st) \<Rightarrow> Inr st)"

definition allocate :: "addr \<Rightarrow> nat \<Rightarrow> memmgr \<Rightarrow> addr \<times> memmgr" where
  "allocate page n st = MemMgr_Alloc page (int n) st"

definition deallocate :: "addr \<Rightarrow> nat \<Rightarrow> memmgr \<Rightarrow> xerror + memmgr" where
  "deallocate p n st = MemMgr_Free p (int n) st"

definition max_size :: "nat \<Rightarrow> nat" where
  "max_size sizeofT = 4294967295 div sizeofT"

subsection \<open>The search finds the first run\<close>

definition flag_free :: "string \<Rightarrow> nat \<Rightarrow> bool" where
  "flag_free p i \<longleftrightarrow> i < length p \<and> p ! i = CHR ''0''"

lemma strchr_flag:
  assumes "index_from CHR ''0'' p i = Some r"
  shows "i \<le> r" "flag_free p r" "\<And>j. i \<le> j \<Longrightarrow> j < r \<Longrightarrow> \<not> flag_free p j"
  using index_from_Some [OF assms] by (auto simp: flag_free_def)

lemma strchr_no_flag: "index_from CHR ''0'' p i = None \<Longrightarrow> i \<le> j \<Longrightarrow> \<not> flag_free p j"
  using index_from_None [of "CHR ''0''" p i j] by (auto simp: flag_free_def)

lemma flag_free_bound: "flag_free p i \<Longrightarrow> i < length p"
  by (simp add: flag_free_def)

lemma find_loop_spec:
  assumes "flag_free p ps" "tmp = ps" "1 \<le> c" "c \<le> ps + 1" "int c < n"
    and "\<forall>j < c. flag_free p (ps + 1 - c + j)"
    and "no_run_below (flag_free p) (length p) (nat n) (ps + 1 - c)"
    and "(if b then pb = ps + 1 - c else c = 1)"
  shows "run_result (flag_free p) (length p) (nat n) (find_loop p n ps tmp pb c b)"
  using assms
proof (induction p n ps tmp pb c b rule: find_loop.induct)
  case (1 p n ps tmp pb c b)
  note prems = "1.prems"
  show ?case
  proof (cases "index_from CHR ''0'' p (ps + 1)")
    case None
    have "\<not> free_run (flag_free p) (length p) (nat n) i" for i
    proof (rule no_run_end [OF prems(7) _ prems(4)])
      show "c < nat n" using prems(5) by simp
      show "\<forall>i. ps < i \<and> i < length p \<longrightarrow> \<not> flag_free p i" using strchr_no_flag [OF None] by simp
    qed
    with None show ?thesis by (simp add: find_loop.simps [of p n] run_result_intros(2))
  next
    case (Some tag)
    note tg = strchr_flag [OF Some]
    show ?thesis
    proof (cases "int tag - 1 = int tmp")
      case True
      then have tag: "tag = ps + 1" using prems(2) by simp
      let ?pb = "if b then pb else ps"
      have pb: "?pb = ps + 1 - c" using prems(8) by (auto split: if_splits)
      have run: "flag_free p (ps + 1 - c + j)" if "j < c + 1" for j
      proof (cases "j < c")
        case True
        then show ?thesis using prems(6) by blast
      next
        case False
        then have "ps + 1 - c + j = tag" using tag prems(4) that by simp
        with tg(2) show ?thesis by simp
      qed
      show ?thesis
      proof (cases "n = int (c + 1)")
        case e: True
        have "ps + 1 - c + (c + 1) \<le> length p" using flag_free_bound [OF tg(2)] tag prems(4) by simp
        with run e have "free_run (flag_free p) (length p) (nat n) (ps + 1 - c)" by (simp add: free_run_def)
        moreover have "find_loop p n ps tmp pb c b = int (ps + 1 - c)"
          unfolding find_loop.simps [of p n ps tmp pb c b] using e True Some pb by (simp only: option.case if_True Let_def simp_thms)
        ultimately show ?thesis using prems(7) run_result_intros(1) by metis
      next
        case ne: False
        have "find_loop p n ps tmp pb c b = find_loop p n (ps + 1) tag ?pb (c + 1) True"
          using True Some ne by (simp add: find_loop.simps [of p n ps] Let_def)
        moreover have "run_result (flag_free p) (length p) (nat n) (find_loop p n (ps + 1) tag ?pb (c + 1) True)"
        proof (rule "1.IH"(1) [OF Some True refl ne])
          show "flag_free p (ps + 1)" "tag = ps + 1" using tg(2) tag by simp_all
          show "\<forall>j < c + 1. flag_free p (ps + 1 + 1 - (c + 1) + j)" using run by simp
          show "no_run_below (flag_free p) (length p) (nat n) (ps + 1 + 1 - (c + 1))" using prems(7) by simp
        qed (use prems(3-5) pb ne in auto)
        ultimately show ?thesis by simp
      qed
    next
      case False
      have ps: "tag \<noteq> ps + 1" "ps < tag" using False tg(1) prems(2) by auto
      have gap: "\<forall>i. ps < i \<and> i < tag \<longrightarrow> \<not> flag_free p i" using tg(3) by simp
      have nr: "no_run_below (flag_free p) (length p) (nat n) tag"
        using prems(5) by (intro no_run_extend [OF prems(7) _ prems(4) gap ps]) simp
      have "find_loop p n ps tmp pb c b = find_loop p n tag tag pb 1 False"
        using False Some by (simp add: find_loop.simps [of p n ps])
      moreover have "run_result (flag_free p) (length p) (nat n) (find_loop p n tag tag pb 1 False)"
        by (rule "1.IH"(2) [OF Some False]) (use tg(2) nr prems(3,5) in auto)
      ultimately show ?thesis by simp
    qed
  qed
qed

lemma FindAvailable_spec:
  assumes "0 < n"
  shows "run_result (flag_free p) (length p) (nat n) (FindAvailable p n)"
proof (cases "index_from CHR ''0'' p 0")
  case None
  have "\<not> free_run (flag_free p) (length p) (nat n) i" for i
    using strchr_no_flag [OF None, of i] free_run_start [of "flag_free p" "length p" "nat n" i] assms by auto
  with None show ?thesis by (simp add: FindAvailable_def run_result_intros(2))
next
  case (Some ps)
  note s = strchr_flag [OF Some]
  have nr: "no_run_below (flag_free p) (length p) (nat n) ps"
    using s(3) assms free_run_start [of "flag_free p" "length p" "nat n"] by (auto simp: no_run_below_def)
  show ?thesis
  proof (cases "n = 1")
    case True
    then have "free_run (flag_free p) (length p) (nat n) ps"
      using s(2) flag_free_bound [OF s(2)] by (simp add: free_run_def)
    with Some True nr show ?thesis by (simp add: FindAvailable_def run_result_intros(1))
  next
    case False
    have "run_result (flag_free p) (length p) (nat n) (find_loop p n ps ps ps 1 False)"
      using s(2) nr assms False by (intro find_loop_spec) auto
    with Some False show ?thesis by (simp add: FindAvailable_def)
  qed
qed

interpretation mgr_run: run_finder FindAvailable flag_free length
  using FindAvailable_spec by unfold_locales (auto simp: run_result_def split: if_splits)

subsection \<open>The invariant of the chain and the bytes in use\<close>

definition page_end :: "nat \<Rightarrow> EleNode \<Rightarrow> nat" where
  "page_end u e = pStart e + nCount e * u"

definition page_ok :: "nat \<Rightarrow> EleNode \<Rightarrow> bool" where
  "page_ok u e \<longleftrightarrow> length (pFlag e) = nCount e \<and> set (pFlag e) \<subseteq> {CHR ''0'', CHR ''1''} \<and>
     nCount e * (u + 1) \<le> SYSMEMPAGE - SIZEOF_ELENODE - 1 \<and> SYSMEMPAGE < page_end u e"

definition pages_apart :: "nat \<Rightarrow> EleNode \<Rightarrow> EleNode \<Rightarrow> bool" where
  "pages_apart u e f \<longleftrightarrow> page_end u e + SYSMEMPAGE \<le> page_end u f \<or> page_end u f + SYSMEMPAGE \<le> page_end u e"

definition mgr_inv :: "memmgr \<Rightarrow> bool" where
  "mgr_inv st \<longleftrightarrow> 0 < nUnit st \<and> (\<forall>e \<in> set (pEleHead st). page_ok (nUnit st) e) \<and>
     (\<forall>i < length (pEleHead st). \<forall>j < length (pEleHead st). i \<noteq> j \<longrightarrow>
        pages_apart (nUnit st) (pEleHead st ! i) (pEleHead st ! j))"

text \<open>What is relied on of \<open>malloc\<close>: a page that is not null overlaps no page of the chain.\<close>

definition page_fresh :: "addr \<Rightarrow> memmgr \<Rightarrow> bool" where
  "page_fresh page st \<longleftrightarrow> page = 0 \<or>
     (\<forall>e \<in> set (pEleHead st). page_end (nUnit st) e \<le> page \<or>
        page + SYSMEMPAGE + SYSMEMPAGE \<le> page_end (nUnit st) e)"

definition byte_used :: "nat \<Rightarrow> EleNode \<Rightarrow> addr \<Rightarrow> bool" where
  "byte_used u e x \<longleftrightarrow> pStart e \<le> x \<and> x < page_end u e \<and> pFlag e ! ((x - pStart e) div u) = CHR ''1''"

definition used_bytes :: "memmgr \<Rightarrow> addr set" where
  "used_bytes st = {x. \<exists>k < length (pEleHead st). byte_used (nUnit st) (pEleHead st ! k) x}"

definition unit_range :: "nat \<Rightarrow> EleNode \<Rightarrow> nat \<Rightarrow> nat \<Rightarrow> addr set" where
  "unit_range u e i n = {pStart e + i * u ..< pStart e + (i + n) * u}"

lemma mark_units_fields:
  "pFlag (mark_units idx i n e) = mark_range (idx + i) n CHR ''1'' (pFlag e)"
  "nCount (mark_units idx i n e) = nCount e" "pStart (mark_units idx i n e) = pStart e"
  by (induction idx i n e rule: mark_units.induct) (auto simp: Let_def)

lemma unit_range_div:
  assumes "0 < u" "pStart e \<le> x"
  shows "x \<in> unit_range u e i n \<longleftrightarrow> i \<le> (x - pStart e) div u \<and> (x - pStart e) div u < i + n"
  using assms unfolding unit_range_def
  by (auto simp: less_eq_div_iff_mult_less_eq div_less_iff_less_mult)

lemma unit_range_in_page:
  assumes "i + n \<le> nCount e" "x \<in> unit_range u e i n"
  shows "pStart e \<le> x" "x < page_end u e"
proof -
  have "(i + n) * u \<le> nCount e * u" using assms(1) by (rule mult_le_mono1)
  moreover have "pStart e + i * u \<le> x" "x < pStart e + (i + n) * u" using assms(2) unfolding unit_range_def by auto
  ultimately show "pStart e \<le> x" "x < page_end u e" unfolding page_end_def by linarith+
qed

lemma unit_index_bound:
  assumes "0 < u" "pStart e \<le> x" "x < page_end u e"
  shows "(x - pStart e) div u < nCount e"
  using assms by (simp add: div_less_iff_less_mult page_end_def)

text \<open>Writing a flag over a range of units.\<close>

lemma byte_used_mark:
  assumes u: "0 < u" and e: "length (pFlag e) = nCount e" "i + n \<le> nCount e"
    and e': "pFlag e' = mark_range i n c (pFlag e)" "nCount e' = nCount e" "pStart e' = pStart e"
  shows "byte_used u e' x \<longleftrightarrow>
     (if x \<in> unit_range u e i n then c = CHR ''1'' else byte_used u e x)"
proof (cases "pStart e \<le> x \<and> x < page_end u e")
  case True
  then have "(x - pStart e) div u < length (pFlag e)" using unit_index_bound [OF u, of e x] e by simp
  with True show ?thesis
    using unit_range_div [OF u, of e x i n] e' by (auto simp: byte_used_def mark_range_nth page_end_def)
next
  case False
  then have "x \<notin> unit_range u e i n" using unit_range_in_page [OF e(2)] by blast
  moreover from False have "\<not> byte_used u e x" "\<not> byte_used u e' x"
    using e' by (auto simp: byte_used_def page_end_def)
  ultimately show ?thesis by simp
qed

lemma page_size: "page_ok u e \<Longrightarrow> nCount e * u + 33 \<le> SYSMEMPAGE"
  by (simp add: page_ok_def SYSMEMPAGE_def SIZEOF_ELENODE_def algebra_simps)

lemma apart_range:
  assumes "pages_apart u e f" "page_ok u e" "page_ok u f" "pStart e \<le> x" "x \<le> page_end u e"
  shows "\<not> (pStart f \<le> x \<and> x \<le> page_end u f)"
  using assms page_size [OF assms(2)] page_size [OF assms(3)]
  by (auto simp: pages_apart_def page_end_def SYSMEMPAGE_def)

lemma mgr_inv_page:
  assumes "mgr_inv st" "k < length (pEleHead st)"
  shows "page_ok (nUnit st) (pEleHead st ! k)"
  using assms by (simp add: mgr_inv_def)

lemma mgr_inv_other:
  assumes "mgr_inv st" "k < length (pEleHead st)" "j < length (pEleHead st)" "j \<noteq> k"
    and "pStart (pEleHead st ! k) \<le> x" "x \<le> page_end (nUnit st) (pEleHead st ! k)"
  shows "\<not> (pStart (pEleHead st ! j) \<le> x \<and> x \<le> page_end (nUnit st) (pEleHead st ! j))"
proof (rule apart_range)
  show "pages_apart (nUnit st) (pEleHead st ! k) (pEleHead st ! j)"
    using assms(1-4) unfolding mgr_inv_def by metis
qed (use assms mgr_inv_page in auto)

text \<open>Replacing a page by one with other flags over the same units keeps the invariant.\<close>

lemma mgr_inv_update:
  assumes "mgr_inv st" "k < length (pEleHead st)" "page_ok (nUnit st) e'"
    and "nCount e' = nCount (pEleHead st ! k)" "pStart e' = pStart (pEleHead st ! k)"
    and st': "pEleHead st' = (pEleHead st)[k := e']" "nUnit st' = nUnit st"
  shows "mgr_inv st'"
proof -
  let ?u = "nUnit st"
  have end': "page_end ?u ((pEleHead st)[k := e'] ! i) = page_end ?u (pEleHead st ! i)"
    if "i < length (pEleHead st)" for i
    using assms(2,4,5) that by (cases "i = k") (simp_all add: page_end_def)
  have "\<forall>e \<in> set ((pEleHead st)[k := e']). page_ok ?u e"
    using assms(1,3) set_update_subset_insert [of "pEleHead st" k e'] by (auto simp: mgr_inv_def)
  then show ?thesis
    using assms(1) end' st' unfolding mgr_inv_def pages_apart_def by simp
qed

lemma page_ok_mark:
  assumes "page_ok u e" "c \<in> {CHR ''0'', CHR ''1''}"
    and "pFlag e' = mark_range i n c (pFlag e)" "nCount e' = nCount e" "pStart e' = pStart e"
  shows "page_ok u e'"
proof -
  have "x \<in> {CHR ''0'', CHR ''1''}" if x: "x \<in> set (mark_range i n c (pFlag e))" for x
  proof -
    from x obtain k where k: "k < length (pFlag e)" "x = mark_range i n c (pFlag e) ! k"
      by (auto simp: in_set_conv_nth)
    have "pFlag e ! k \<in> {CHR ''0'', CHR ''1''}" using assms(1) nth_mem [OF k(1)] by (auto simp: page_ok_def)
    with k assms(2) show ?thesis by (simp add: mark_range_nth split: if_splits)
  qed
  then have "set (pFlag e') \<subseteq> {CHR ''0'', CHR ''1''}" unfolding assms(3) by blast
  with assms show ?thesis by (simp add: page_ok_def page_end_def)
qed

lemma Expend_inv:
  assumes "mgr_inv st" "page_fresh page st" "page \<noteq> 0"
  shows "mgr_inv (Expend page SYSMEMPAGE st)"
proof -
  let ?u = "nUnit st" and ?x = "(SYSMEMPAGE - SIZEOF_ELENODE - 1) div (nUnit st + 1)"
  let ?e = "\<lparr>nCount = ?x, nIndex = 0, pFlag = replicate ?x CHR ''0'', pStart = page + (SYSMEMPAGE - ?x * ?u)\<rparr>"
  have le: "?x * (?u + 1) \<le> SYSMEMPAGE - SIZEOF_ELENODE - 1" by (rule div_times_less_eq_dividend)
  then have xu: "?x * ?u \<le> SYSMEMPAGE" by (simp add: SYSMEMPAGE_def SIZEOF_ELENODE_def algebra_simps)
  then have end_e: "page_end ?u ?e = page + SYSMEMPAGE" by (simp add: page_end_def)
  then have ok: "page_ok ?u ?e" using le assms(3) by (auto simp: page_ok_def)
  have st': "pEleHead (Expend page SYSMEMPAGE st) = pEleHead st @ [?e]" "nUnit (Expend page SYSMEMPAGE st) = ?u"
    by (simp_all add: Expend_def Let_def)
  have ap: "pages_apart ?u f ?e" "pages_apart ?u ?e f" if "f \<in> set (pEleHead st)" for f
    using assms(2,3) that end_e by (auto simp: page_fresh_def pages_apart_def)
  have apart: "pages_apart ?u ((pEleHead st @ [?e]) ! i) ((pEleHead st @ [?e]) ! j)"
    if "i < Suc (length (pEleHead st))" "j < Suc (length (pEleHead st))" "i \<noteq> j" for i j
  proof (cases "i < length (pEleHead st)")
    case i: True
    show ?thesis
    proof (cases "j < length (pEleHead st)")
      case True
      have "pages_apart ?u (pEleHead st ! i) (pEleHead st ! j)"
        using assms(1) i True that(3) unfolding mgr_inv_def by metis
      with i True show ?thesis by (simp add: nth_append)
    next
      case False
      with i that ap(1) show ?thesis by (simp add: nth_append)
    qed
  next
    case False
    with that have "i = length (pEleHead st)" "j < length (pEleHead st)" by auto
    with ap(2) show ?thesis by (simp add: nth_append)
  qed
  have pages: "\<forall>e \<in> set (pEleHead st @ [?e]). page_ok ?u e"
    using assms(1) ok unfolding mgr_inv_def by simp
  show ?thesis
    unfolding mgr_inv_def st' length_append
  proof (intro conjI allI impI)
    show "0 < ?u" using assms(1) by (simp add: mgr_inv_def)
    show "\<forall>e \<in> set (pEleHead st @ [?e]). page_ok ?u e" by (rule pages)
    fix i j assume "i < length (pEleHead st) + length [?e]" "j < length (pEleHead st) + length [?e]" "i \<noteq> j"
    then show "pages_apart ?u ((pEleHead st @ [?e]) ! i) ((pEleHead st @ [?e]) ! j)" by (intro apart) simp_all
  qed
qed

subsection \<open>Alloc and Free\<close>

lemma find_page_Some:
  assumes "find_page es n = Some (k, idx)"
  shows "k < length es \<and> idx = FindAvailable (pFlag (es ! k)) n \<and> idx \<noteq> -1"
  using assms
proof (induction es arbitrary: k)
  case (Cons e es)
  show ?case
  proof (cases "FindAvailable (pFlag e) n = -1")
    case True
    with Cons.prems obtain k' where "find_page es n = Some (k', idx)" "k = Suc k'" by auto
    with Cons.IH show ?thesis by simp
  next
    case False
    with Cons.prems show ?thesis by simp
  qed
qed simp

lemma find_page_None: "find_page es n = None \<longleftrightarrow> (\<forall>e \<in> set es. FindAvailable (pFlag e) n = -1)"
  by (induction es n rule: find_page.induct) (auto simp: Let_def)

text \<open>A successful \<open>Alloc\<close> marks a free run of one page, of the chain or of the chain with one new page.\<close>

definition alloc_from :: "memmgr \<Rightarrow> nat \<Rightarrow> addr \<Rightarrow> memmgr \<Rightarrow> bool" where
  "alloc_from st0 n p st' \<longleftrightarrow> (\<exists>k i. k < length (pEleHead st0) \<and>
     free_run (flag_free (pFlag (pEleHead st0 ! k))) (length (pFlag (pEleHead st0 ! k))) n i \<and>
     p = pStart (pEleHead st0 ! k) + i * nUnit st0 \<and>
     st' = st0\<lparr>pEleHead := (pEleHead st0)[k := mark_units i 0 n (pEleHead st0 ! k)]\<rparr>)"

lemma take_units_from:
  assumes "0 < n" "k < length (pEleHead st0)" "FindAvailable (pFlag (pEleHead st0 ! k)) n = idx" "idx \<noteq> -1"
    and "take_units k idx n st0 = (p, st')"
  shows "alloc_from st0 (nat n) p st'"
  unfolding alloc_from_def
  using assms mgr_run.found [OF assms(1), of "pFlag (pEleHead st0 ! k)"]
  by (intro exI [of _ k] exI [of _ "nat idx"]) (auto simp: take_units_def Let_def)

lemma MemMgr_Alloc_from:
  assumes "0 < n" "MemMgr_Alloc page n st = (p, st')" "p \<noteq> 0"
  shows "alloc_from st (nat n) p st' \<or>
     page \<noteq> 0 \<and> find_page (pEleHead st) n = None \<and> alloc_from (Expend page SYSMEMPAGE st) (nat n) p st'"
proof (cases "find_page (pEleHead st) n")
  case None
  let ?st = "Expend page SYSMEMPAGE st"
  have last: "last (pEleHead ?st) = pEleHead ?st ! length (pEleHead st)"
    "length (pEleHead st) < length (pEleHead ?st)"
    by (simp_all add: Expend_def Let_def)
  from None assms(2,3) have pg: "page \<noteq> 0" by (auto simp: MemMgr_Alloc_def split: if_splits)
  let ?idx = "FindAvailable (pFlag (last (pEleHead ?st))) n"
  have "?idx \<noteq> -1" "take_units (length (pEleHead st)) ?idx n ?st = (p, st')"
    using None assms(2,3) pg by (auto simp: MemMgr_Alloc_def Let_def split: if_splits)
  with take_units_from [OF assms(1) last(2) _ _ this(2)] last None pg show ?thesis by simp
next
  case (Some a)
  obtain k idx where a: "a = (k, idx)" by (cases a)
  with Some find_page_Some [of "pEleHead st" n k idx] assms(1,2) take_units_from [of n k st idx p st']
  show ?thesis by (simp add: MemMgr_Alloc_def)
qed

text \<open>Effect on the bytes in use of rewriting the flags of one page.\<close>

lemma used_bytes_update:
  assumes inv: "mgr_inv st" and k: "k < length (pEleHead st)" and n: "i + n \<le> nCount (pEleHead st ! k)"
    and e': "pFlag e' = mark_range i n c (pFlag (pEleHead st ! k))" "nCount e' = nCount (pEleHead st ! k)"
      "pStart e' = pStart (pEleHead st ! k)"
    and st': "pEleHead st' = (pEleHead st)[k := e']" "nUnit st' = nUnit st"
  shows "x \<in> used_bytes st' \<longleftrightarrow>
     (if x \<in> unit_range (nUnit st) (pEleHead st ! k) i n then c = CHR ''1'' else x \<in> used_bytes st)"
proof -
  let ?u = "nUnit st" and ?e = "pEleHead st ! k"
  have u: "0 < ?u" and len: "length (pFlag ?e) = nCount ?e"
    using inv mgr_inv_page [OF inv k] by (auto simp: mgr_inv_def page_ok_def)
  note bu = byte_used_mark [OF u len n e']
  have split: "x \<in> used_bytes st' \<longleftrightarrow> byte_used ?u e' x \<or>
      (\<exists>j < length (pEleHead st). j \<noteq> k \<and> byte_used ?u (pEleHead st ! j) x)"
    using st' k by (auto simp: used_bytes_def nth_list_update)
  have split0: "x \<in> used_bytes st \<longleftrightarrow> byte_used ?u ?e x \<or>
      (\<exists>j < length (pEleHead st). j \<noteq> k \<and> byte_used ?u (pEleHead st ! j) x)"
    using k by (auto simp: used_bytes_def)
  have other: "\<not> byte_used ?u (pEleHead st ! j) x"
    if "x \<in> unit_range ?u ?e i n" "j < length (pEleHead st)" "j \<noteq> k" for j
    using unit_range_in_page [OF n that(1)] mgr_inv_other [OF inv k that(2,3), of x]
    by (auto simp: byte_used_def)
  show ?thesis using split split0 bu [of x] other by auto
qed

lemma free_run_unused:
  assumes inv: "mgr_inv st" and k: "k < length (pEleHead st)"
    and r: "free_run (flag_free (pFlag (pEleHead st ! k))) (length (pFlag (pEleHead st ! k))) n i"
  shows "used_bytes st \<inter> unit_range (nUnit st) (pEleHead st ! k) i n = {}"
proof -
  let ?u = "nUnit st" and ?e = "pEleHead st ! k"
  have u: "0 < ?u" and len: "length (pFlag ?e) = nCount ?e"
    using inv mgr_inv_page [OF inv k] by (auto simp: mgr_inv_def page_ok_def)
  have n: "i + n \<le> nCount ?e" using r len by (simp add: free_run_def)
  have "x \<notin> used_bytes st" if x: "x \<in> unit_range ?u ?e i n" for x
  proof
    assume "x \<in> used_bytes st"
    then obtain j where j: "j < length (pEleHead st)" "byte_used ?u (pEleHead st ! j) x" by (auto simp: used_bytes_def)
    have jk: "j = k"
      using mgr_inv_other [OF inv k j(1), of x] j(2) unit_range_in_page [OF n x] by (auto simp: byte_used_def)
    let ?d = "(x - pStart ?e) div ?u"
    have "i \<le> ?d" "?d < i + n" using unit_range_div [OF u, of ?e x i n] x unit_range_in_page [OF n x] by auto
    then have "flag_free (pFlag ?e) (i + (?d - i))" using r unfolding free_run_def by (metis less_diff_conv2 add.commute)
    with \<open>i \<le> ?d\<close> j(2) jk show False by (simp add: flag_free_def byte_used_def)
  qed
  then show ?thesis by blast
qed

lemma Expend_used:
  assumes "mgr_inv st"
  shows "used_bytes (Expend page SYSMEMPAGE st) = used_bytes st"
proof -
  let ?st = "Expend page SYSMEMPAGE st"
  define e where "e = last (pEleHead ?st)"
  have st': "pEleHead ?st = pEleHead st @ [e]" "nUnit ?st = nUnit st" by (simp_all add: e_def Expend_def Let_def)
  have "pFlag e = replicate (nCount e) CHR ''0''" by (simp add: e_def Expend_def Let_def)
  then have "\<not> byte_used (nUnit st) e x" for x
    using unit_index_bound [of "nUnit st" e x] assms by (auto simp: byte_used_def mgr_inv_def)
  then show ?thesis
    unfolding used_bytes_def st' by (auto simp: nth_append less_Suc_eq)
qed

lemma alloc_from_effect:
  assumes inv: "mgr_inv st" and a: "alloc_from st n p st'"
  shows "mgr_inv st'" "used_bytes st' = used_bytes st \<union> {p ..< p + n * nUnit st}"
    "used_bytes st \<inter> {p ..< p + n * nUnit st} = {}"
proof -
  from a obtain k i where k: "k < length (pEleHead st)"
    and r: "free_run (flag_free (pFlag (pEleHead st ! k))) (length (pFlag (pEleHead st ! k))) n i"
    and p: "p = pStart (pEleHead st ! k) + i * nUnit st"
    and st': "st' = st\<lparr>pEleHead := (pEleHead st)[k := mark_units i 0 n (pEleHead st ! k)]\<rparr>"
    by (auto simp: alloc_from_def)
  let ?e = "pEleHead st ! k" and ?e' = "mark_units i 0 n (pEleHead st ! k)"
  have ok: "page_ok (nUnit st) ?e" by (rule mgr_inv_page [OF inv k])
  have n: "i + n \<le> nCount ?e" using r ok by (simp add: free_run_def page_ok_def)
  have e': "pFlag ?e' = mark_range i n CHR ''1'' (pFlag ?e)" "nCount ?e' = nCount ?e" "pStart ?e' = pStart ?e"
    by (simp_all add: mark_units_fields)
  have R: "{p ..< p + n * nUnit st} = unit_range (nUnit st) ?e i n"
    by (simp add: p unit_range_def algebra_simps)
  have st'': "pEleHead st' = (pEleHead st)[k := ?e']" "nUnit st' = nUnit st" by (simp_all add: st')
  show "mgr_inv st'" by (rule mgr_inv_update [OF inv k page_ok_mark [OF ok _ e'] e'(2,3) st'']) simp
  show "used_bytes st' = used_bytes st \<union> {p ..< p + n * nUnit st}"
    unfolding R by (intro set_eqI) (simp only: used_bytes_update [OF inv k n e' st''] Un_iff, simp)
  show "used_bytes st \<inter> {p ..< p + n * nUnit st} = {}" unfolding R by (rule free_run_unused [OF inv k r])
qed

lemma nUnit_Expend [simp]: "nUnit (Expend p l st) = nUnit st"
  by (simp add: Expend_def Let_def)

lemma MemMgr_Alloc_effect:
  assumes inv: "mgr_inv st" and fr: "page_fresh page st" and n: "0 < n"
    and al: "MemMgr_Alloc page n st = (p, st')" "p \<noteq> 0"
  shows "mgr_inv st'" "used_bytes st' = used_bytes st \<union> {p ..< p + nat n * nUnit st}"
    "used_bytes st \<inter> {p ..< p + nat n * nUnit st} = {}"
proof -
  have "\<exists>st0. mgr_inv st0 \<and> used_bytes st0 = used_bytes st \<and> nUnit st0 = nUnit st \<and> alloc_from st0 (nat n) p st'"
    using MemMgr_Alloc_from [OF n al]
  proof
    assume "alloc_from st (nat n) p st'"
    with inv show ?thesis by blast
  next
    assume "page \<noteq> 0 \<and> find_page (pEleHead st) n = None \<and> alloc_from (Expend page SYSMEMPAGE st) (nat n) p st'"
    with Expend_inv [OF inv fr] Expend_used [OF inv, of page] nUnit_Expend show ?thesis by blast
  qed
  then obtain st0 where st0: "mgr_inv st0" "used_bytes st0 = used_bytes st" "nUnit st0 = nUnit st"
    "alloc_from st0 (nat n) p st'" by blast
  from alloc_from_effect [OF st0(1,4)] st0(2,3)
  show "mgr_inv st'" "used_bytes st' = used_bytes st \<union> {p ..< p + nat n * nUnit st}"
    "used_bytes st \<inter> {p ..< p + nat n * nUnit st} = {}" by simp_all
qed

lemma owner_page_Some:
  assumes "k < length es" "pStart (es ! k) \<le> p" "p \<le> page_end u (es ! k)"
    and "\<forall>j < k. \<not> (pStart (es ! j) \<le> p \<and> p \<le> page_end u (es ! j))"
  shows "owner_page u p es = Some k"
  using assms
proof (induction es arbitrary: k)
  case (Cons e es)
  show ?case
  proof (cases k)
    case 0
    with Cons.prems show ?thesis by (simp add: page_end_def)
  next
    case (Suc k')
    have "\<not> (pStart e \<le> p \<and> p \<le> page_end u e)" using Cons.prems(4) Suc by force
    moreover have "owner_page u p es = Some k'"
    proof (rule Cons.IH)
      show "\<forall>j < k'. \<not> (pStart (es ! j) \<le> p \<and> p \<le> page_end u (es ! j))"
        using Cons.prems(4) Suc by (metis Suc_mono nth_Cons_Suc)
    qed (use Cons.prems Suc in auto)
    ultimately show ?thesis using Suc by (simp add: page_end_def)
  qed
qed simp

lemma owner_page_None:
  "owner_page u p es = None \<longleftrightarrow> (\<forall>e \<in> set es. \<not> (pStart e \<le> p \<and> p \<le> page_end u e))"
  by (induction es) (auto simp: page_end_def)

lemma owner_page_inv:
  assumes "mgr_inv st" "k < length (pEleHead st)"
    and "pStart (pEleHead st ! k) \<le> p" "p \<le> page_end (nUnit st) (pEleHead st ! k)"
  shows "owner_page (nUnit st) p (pEleHead st) = Some k"
  using assms mgr_inv_other [OF assms(1,2) _ _ assms(3,4)] by (intro owner_page_Some) auto

lemma MemMgr_Free_effect:
  assumes inv: "mgr_inv st" and k: "k < length (pEleHead st)"
    and p: "p = pStart (pEleHead st ! k) + i * nUnit st" and n: "0 < n" "i + n \<le> nCount (pEleHead st ! k)"
  shows "\<exists>st'. MemMgr_Free p (int n) st = Inr st' \<and> mgr_inv st' \<and>
     used_bytes st' = used_bytes st - {p ..< p + n * nUnit st} \<and>
     (\<forall>x \<in> {p ..< p + n * nUnit st}. mm_mem st' x = 0) \<and>
     map pFlag (pEleHead st') = (map pFlag (pEleHead st))[k := mark_range i n CHR ''0'' (pFlag (pEleHead st ! k))]"
proof -
  let ?e = "pEleHead st ! k"
  let ?e' = "?e\<lparr>pFlag := mark_range i n CHR ''0'' (pFlag ?e), nIndex := min (nIndex ?e) i\<rparr>"
  let ?st' = "st\<lparr>pEleHead := (pEleHead st)[k := ?e'], mm_mem := mset0 (mm_mem st) p (n * nUnit st)\<rparr>"
  have u: "0 < nUnit st" using inv by (simp add: mgr_inv_def)
  have ok: "page_ok (nUnit st) ?e" by (rule mgr_inv_page [OF inv k])
  have "i * nUnit st \<le> nCount ?e * nUnit st" using n by (intro mult_le_mono1) simp
  then have own: "owner_page (nUnit st) p (pEleHead st) = Some k"
    by (intro owner_page_inv [OF inv k]) (simp_all add: p page_end_def)
  have idx: "(p - pStart ?e) div nUnit st = i" using u by (simp add: p)
  have free: "MemMgr_Free p (int n) st = Inr ?st'"
    using u n by (simp add: MemMgr_Free_def own idx Let_def p [symmetric])
  have e': "pFlag ?e' = mark_range i n CHR ''0'' (pFlag ?e)" "nCount ?e' = nCount ?e" "pStart ?e' = pStart ?e" by simp_all
  have st': "pEleHead ?st' = (pEleHead st)[k := ?e']" "nUnit ?st' = nUnit st" by simp_all
  have R: "{p ..< p + n * nUnit st} = unit_range (nUnit st) ?e i n"
    by (simp add: p unit_range_def algebra_simps)
  have "mgr_inv ?st'" by (rule mgr_inv_update [OF inv k page_ok_mark [OF ok _ e'] e'(2,3) st']) simp
  moreover have "used_bytes ?st' = used_bytes st - {p ..< p + n * nUnit st}"
    unfolding R by (intro set_eqI) (simp only: used_bytes_update [OF inv k n(2) e' st'] Diff_iff, simp)
  moreover have "\<forall>x \<in> {p ..< p + n * nUnit st}. mm_mem ?st' x = 0" by (simp add: mset0_def)
  moreover have "map pFlag (pEleHead ?st') = (map pFlag (pEleHead st))[k := mark_range i n CHR ''0'' (pFlag ?e)]"
    by (simp add: map_update)
  ultimately show ?thesis unfolding free by (intro exI [of _ ?st'] conjI refl)
qed

lemma alloc_from_then_Free:
  assumes inv: "mgr_inv st" and n: "0 < n" and a: "alloc_from st n p st'"
  shows "\<exists>st''. MemMgr_Free p (int n) st' = Inr st'' \<and> mgr_inv st'' \<and>
     map pFlag (pEleHead st'') = map pFlag (pEleHead st) \<and> used_bytes st'' = used_bytes st"
proof -
  from a obtain k i where k: "k < length (pEleHead st)"
    and r: "free_run (flag_free (pFlag (pEleHead st ! k))) (length (pFlag (pEleHead st ! k))) n i"
    and p: "p = pStart (pEleHead st ! k) + i * nUnit st"
    and st': "st' = st\<lparr>pEleHead := (pEleHead st)[k := mark_units i 0 n (pEleHead st ! k)]\<rparr>"
    by (auto simp: alloc_from_def)
  note eff = alloc_from_effect [OF inv a]
  have len: "i + n \<le> length (pFlag (pEleHead st ! k))" and fl: "\<forall>j < n. pFlag (pEleHead st ! k) ! (i + j) = CHR ''0''"
    using r by (auto simp: free_run_def flag_free_def)
  have n': "i + n \<le> nCount (pEleHead st' ! k)"
    using len mgr_inv_page [OF inv k] k by (simp add: st' mark_units_fields page_ok_def)
  have "\<exists>st''. MemMgr_Free p (int n) st' = Inr st'' \<and> mgr_inv st'' \<and>
     used_bytes st'' = used_bytes st' - {p ..< p + n * nUnit st'} \<and>
     (\<forall>x \<in> {p ..< p + n * nUnit st'}. mm_mem st'' x = 0) \<and>
     map pFlag (pEleHead st'') = (map pFlag (pEleHead st'))[k := mark_range i n CHR ''0'' (pFlag (pEleHead st' ! k))]"
    using k by (intro MemMgr_Free_effect [OF eff(1) _ _ n n']) (simp_all add: st' p mark_units_fields)
  then obtain st'' where s: "MemMgr_Free p (int n) st' = Inr st''" "mgr_inv st''"
     "used_bytes st'' = used_bytes st' - {p ..< p + n * nUnit st'}"
     "map pFlag (pEleHead st'') = (map pFlag (pEleHead st'))[k := mark_range i n CHR ''0'' (pFlag (pEleHead st' ! k))]"
    by blast
  have "map pFlag (pEleHead st'') = map pFlag (pEleHead st)"
    using k by (simp add: s(4) st' map_update mark_units_fields mark_range_unmark [OF len fl] list_update_same_conv)
  moreover have "used_bytes st'' = used_bytes st" using s(3) eff(2,3) by (auto simp: st')
  ultimately show ?thesis using s by blast
qed

lemma FindAvailable_fresh:
  assumes "0 < n" "nat n \<le> x"
  shows "FindAvailable (replicate x CHR ''0'') n = 0"
proof -
  have "free_run (flag_free (replicate x CHR ''0'')) (length (replicate x CHR ''0'')) (nat n) 0"
    using assms by (simp add: free_run_def flag_free_def)
  then show ?thesis
    using mgr_run.find_iff_least [OF assms(1), of "replicate x CHR ''0''" 0] by (simp add: no_run_below_def)
qed

lemma page_start_pos: "page_ok u e \<Longrightarrow> 0 < pStart e"
  using page_size [of u e] by (simp add: page_ok_def page_end_def SYSMEMPAGE_def)

subsection \<open>Properties\<close>

text \<open>
  Property C19: the pointer-walking search of \<open>FindAvailable\<close> is first fit. It returns \<open>i\<close>
  exactly when \<open>i\<close> is the start of the first run of \<open>n\<close> free units of the page, and -1
  exactly when the page has no such run.
\<close>

theorem FindAvailable_first_fit:
  assumes "0 < n"
  shows "(FindAvailable p n = int i \<longleftrightarrow>
      free_run (flag_free p) (length p) (nat n) i \<and> no_run_below (flag_free p) (length p) (nat n) i) \<and>
    (FindAvailable p n = -1 \<longleftrightarrow> (\<forall>i. \<not> free_run (flag_free p) (length p) (nat n) i))"
  using mgr_run.find_iff_least [OF assms, of p i] mgr_run.find_none_iff [OF assms, of p] by blast

theorem FindAvailable_first_fit_witness:
  "free_run (flag_free ''0110001'') (length ''0110001'') 2 3 \<and>
   no_run_below (flag_free ''0110001'') (length ''0110001'') 2 3"
proof -
  have "FindAvailable ''0110001'' 2 = int 3" by code_simp
  with FindAvailable_first_fit [of 2 "''0110001''" 3] show ?thesis by simp
qed

text \<open>
  Property C6: a successful \<open>Alloc\<close> of \<open>n\<close> units hands out \<open>n\<close> units of memory of which no byte
  was in use, puts exactly those bytes in use, and keeps the invariant of the chain, whether
  the units come from a page of the chain or from a page fetched from the system. With
  \<open>malloc\<close> delivering a page and a request that fits a page, it does succeed.
\<close>

theorem MemMgr_Alloc_fresh_units:
  assumes "mgr_inv st" "page_fresh page st" "0 < n" "MemMgr_Alloc page n st = (p, st')"
  shows "(p \<noteq> 0 \<longrightarrow> mgr_inv st' \<and> used_bytes st' = used_bytes st \<union> {p ..< p + nat n * nUnit st} \<and>
       used_bytes st \<inter> {p ..< p + nat n * nUnit st} = {}) \<and>
     (page \<noteq> 0 \<and> nat n \<le> (SYSMEMPAGE - SIZEOF_ELENODE - 1) div (nUnit st + 1) \<longrightarrow> p \<noteq> 0)"
proof (intro conjI impI)
  assume "p \<noteq> 0"
  note eff = MemMgr_Alloc_effect [OF assms this]
  from eff show "mgr_inv st'" "used_bytes st' = used_bytes st \<union> {p ..< p + nat n * nUnit st}"
    "used_bytes st \<inter> {p ..< p + nat n * nUnit st} = {}" by simp_all
next
  assume h: "page \<noteq> 0 \<and> nat n \<le> (SYSMEMPAGE - SIZEOF_ELENODE - 1) div (nUnit st + 1)"
  show "p \<noteq> 0"
  proof (cases "find_page (pEleHead st) n")
    case None
    let ?st = "Expend page SYSMEMPAGE st"
    have l: "length (pEleHead st) < length (pEleHead ?st)" by (simp add: Expend_def Let_def)
    have "FindAvailable (pFlag (last (pEleHead ?st))) n = 0"
      using FindAvailable_fresh [OF assms(3)] h by (simp add: Expend_def Let_def)
    then have "p = pStart (pEleHead ?st ! length (pEleHead st))"
      using assms(4) None h by (auto simp: MemMgr_Alloc_def take_units_def Let_def)
    with page_start_pos [OF mgr_inv_page [OF Expend_inv [OF assms(1,2)] l]] h show ?thesis by simp
  next
    case (Some a)
    then obtain k i where a: "a = (k, i)" by (cases a)
    with Some find_page_Some [of "pEleHead st" n k i] have k: "k < length (pEleHead st)" by simp
    with Some a assms(4) have "p = pStart (pEleHead st ! k) + nat i * nUnit st"
      by (auto simp: MemMgr_Alloc_def take_units_def Let_def)
    with page_start_pos [OF mgr_inv_page [OF assms(1) k]] show ?thesis by simp
  qed
qed

abbreviation one_page :: memmgr where
  "one_page \<equiv> Expend 8192 SYSMEMPAGE (MemMgr_new\<lparr>nUnit := 1000\<rparr>)"

lemma one_page_inv: "mgr_inv one_page"
  by (rule Expend_inv) (simp_all add: mgr_inv_def MemMgr_new_def page_fresh_def)

theorem MemMgr_Alloc_fresh_units_witness:
  "used_bytes (snd (MemMgr_Alloc 0 2 one_page)) = used_bytes one_page \<union> {8288 ..< 10288}"
proof -
  have p: "fst (MemMgr_Alloc 0 2 one_page) = 8288" "nUnit one_page = 1000" by code_simp+
  obtain q st' where a: "MemMgr_Alloc 0 2 one_page = (q, st')" by (cases "MemMgr_Alloc 0 2 one_page")
  have "page_fresh 0 one_page" by (simp add: page_fresh_def)
  from MemMgr_Alloc_fresh_units [OF one_page_inv this _ a] p a show ?thesis by simp
qed

text \<open>
  Property C26: units obtained by \<open>Alloc\<close> and given back with the same count are free again.
  \<open>Free\<close> succeeds on the result of \<open>Alloc\<close>, and the flag strings of the chain are those before
  the \<open>Alloc\<close> (with a page of free units more if \<open>Alloc\<close> had to fetch one), so that the same bytes
  are in use as before.
\<close>

theorem MemMgr_Alloc_Free_roundtrip:
  assumes "mgr_inv st" "page_fresh page st" "0 < n" "MemMgr_Alloc page n st = (p, st')" "p \<noteq> 0"
  shows "\<exists>st''. MemMgr_Free p n st' = Inr st'' \<and> mgr_inv st'' \<and> used_bytes st'' = used_bytes st \<and>
     (map pFlag (pEleHead st'') = map pFlag (pEleHead st) \<or>
      map pFlag (pEleHead st'') = map pFlag (pEleHead (Expend page SYSMEMPAGE st)))"
  using MemMgr_Alloc_from [OF assms(3-5)]
proof
  assume "alloc_from st (nat n) p st'"
  from alloc_from_then_Free [OF assms(1) _ this] assms(3) show ?thesis by auto
next
  assume a: "page \<noteq> 0 \<and> find_page (pEleHead st) n = None \<and> alloc_from (Expend page SYSMEMPAGE st) (nat n) p st'"
  from a alloc_from_then_Free [OF Expend_inv [OF assms(1,2)], of "nat n" p st'] assms(3)
    Expend_used [OF assms(1), of page] show ?thesis by auto
qed

theorem MemMgr_Alloc_Free_roundtrip_witness:
  "\<exists>st''. MemMgr_Free 8288 2 (snd (MemMgr_Alloc 0 2 one_page)) = Inr st'' \<and> used_bytes st'' = used_bytes one_page"
proof -
  have p: "fst (MemMgr_Alloc 0 2 one_page) = 8288" by code_simp
  then have a: "MemMgr_Alloc 0 2 one_page = (8288, snd (MemMgr_Alloc 0 2 one_page))" by (simp add: prod_eq_iff)
  have "page_fresh 0 one_page" by (simp add: page_fresh_def)
  from MemMgr_Alloc_Free_roundtrip [OF one_page_inv this _ a] show ?thesis by auto
qed

text \<open>
  Observation: \<open>Free\<close> throws exactly for a pointer that no page covers, where a page is taken to
  cover the address one past its last unit too. So the end of a page is not reported as an error: the
  flag written for it is the terminating NUL of the flag string, an access outside of
  the units.
\<close>

theorem MemMgr_Free_errors:
  assumes "mgr_inv st" "0 < n"
  shows "(MemMgr_Free p n st = Inl (Throw ''the MemMgr lib error'') \<longleftrightarrow>
       (\<forall>e \<in> set (pEleHead st). \<not> (pStart e \<le> p \<and> p \<le> page_end (nUnit st) e))) \<and>
     (\<forall>e \<in> set (pEleHead st). MemMgr_Free (page_end (nUnit st) e) n st = Inl Undefined)"
proof (intro conjI ballI)
  show "MemMgr_Free p n st = Inl (Throw ''the MemMgr lib error'') \<longleftrightarrow>
      (\<forall>e \<in> set (pEleHead st). \<not> (pStart e \<le> p \<and> p \<le> page_end (nUnit st) e))"
    unfolding owner_page_None [symmetric] by (auto simp: MemMgr_Free_def Let_def split: option.splits if_splits)
  fix e assume "e \<in> set (pEleHead st)"
  then obtain k where k: "k < length (pEleHead st)" "e = pEleHead st ! k" by (auto simp: in_set_conv_nth)
  have u: "0 < nUnit st" using assms(1) by (simp add: mgr_inv_def)
  have "owner_page (nUnit st) (page_end (nUnit st) e) (pEleHead st) = Some k"
    using owner_page_inv [OF assms(1) k(1)] k(2) by (simp add: page_end_def)
  then show "MemMgr_Free (page_end (nUnit st) e) n st = Inl Undefined"
    using k(2) u assms(2) by (simp add: MemMgr_Free_def page_end_def Let_def)
qed

theorem MemMgr_Free_errors_witness:
  "MemMgr_Free 5 1 one_page = Inl (Throw ''the MemMgr lib error'') \<and> MemMgr_Free 12288 1 one_page = Inl Undefined"
proof -
  have e: "pEleHead one_page = [\<lparr>nCount = 4, nIndex = 0, pFlag = ''0000'', pStart = 8288\<rparr>]" "nUnit one_page = 1000"
    by code_simp+
  from MemMgr_Free_errors [OF one_page_inv, of 1 5] show ?thesis unfolding e by (simp add: page_end_def)
qed

end
