(* ===== verification/ObjPool.thy ===== *)
theory ObjPool
  imports FreeRuns
begin

text \<open>
  \<open>Mem/ObjPool.h\<close>: a pool of preallocated objects, grown by doubling. A node of the pool has an
  index, a use flag and a pointer to its object. \<open>InitObj\<close> is virtual, so it is the parameter
  \<open>io\<close>: the \<open>k\<close>-th call returns \<open>fst (io k)\<close> and stores \<open>p\<close> through its out pointer when
  \<open>snd (io k)\<close> is \<open>Some p\<close>; the field \<open>nCalls\<close> counts the calls. The \<open>m_nMax\<close> field is an
  \<open>unsigned short\<close>: its arithmetic is modulo 65536. An index outside of the vector is the
  value \<open>Undefined\<close>. The lock of \<open>Alloc\<close> covers the search only; the two halves are the
  definitions \<open>alloc_locked\<close> and \<open>alloc_mark\<close>, so that an interleaving of two calls can be written.
\<close>

record TNode =
  tn_nIndex :: nat
  tn_nFlag :: nat
  tn_pData :: addr

record objpool =
  m_nMax :: nat
  m_vecPMem :: "TNode list"
  nCalls :: nat

type_synonym initobj = "nat \<Rightarrow> bool \<times> addr option"

definition TNode_new :: TNode where
  "TNode_new = \<lparr>tn_nIndex = 65535, tn_nFlag = 0, tn_pData = 0\<rparr>"

definition ObjPool_new :: objpool where
  "ObjPool_new = \<lparr>m_nMax = 0, m_vecPMem = [], nCalls = 0\<rparr>"

text \<open>The destructor: the objects handed to \<open>Destroy\<close>.\<close>

definition ObjPool_destroy :: "objpool \<Rightarrow> addr list \<times> objpool" where
  "ObjPool_destroy st = (map tn_pData (m_vecPMem st), st\<lparr>m_vecPMem := []\<rparr>)"

definition resize :: "nat \<Rightarrow> TNode list \<Rightarrow> TNode list" where
  "resize n xs = take n xs @ replicate (n - length xs) TNode_new"

fun update_nodes :: "initobj \<Rightarrow> nat \<Rightarrow> nat \<Rightarrow> objpool \<Rightarrow> bool \<times> objpool" where
  "update_nodes io i 0 st = (True, st)"
| "update_nodes io i (Suc r) st =
     (let (ok, p) = io (nCalls st);
          e = m_vecPMem st ! i;
          e' = e\<lparr>tn_nIndex := i, tn_pData := (case p of None \<Rightarrow> tn_pData e | Some q \<Rightarrow> q)\<rparr>;
          st' = st\<lparr>m_vecPMem := (m_vecPMem st)[i := e'], nCalls := Suc (nCalls st)\<rparr>
      in if ok then update_nodes io (Suc i) r st' else (False, st'))"

definition UpdateRecord :: "initobj \<Rightarrow> bool \<Rightarrow> objpool \<Rightarrow> bool \<times> objpool" where
  "UpdateRecord io bInit st =
     (let i = (if bInit then 0 else m_nMax st div 2) in update_nodes io i (m_nMax st - i) st)"

definition ObjPool_Init :: "initobj \<Rightarrow> int \<Rightarrow> objpool \<Rightarrow> bool \<times> objpool" where
  "ObjPool_Init io sz st =
     (let mx = nat (sz mod 65536)
      in UpdateRecord io True (st\<lparr>m_nMax := mx, m_vecPMem := resize mx (m_vecPMem st)\<rparr>))"

definition expand :: "initobj \<Rightarrow> objpool \<Rightarrow> bool \<times> objpool" where
  "expand io st =
     (let mx = m_nMax st * 2 mod 65536
      in UpdateRecord io False (st\<lparr>m_nMax := mx, m_vecPMem := resize mx (m_vecPMem st)\<rparr>))"

text \<open>The loop of \<open>FindAvailable\<close> on the flags: \<open>b\<close>, \<open>s\<close>, \<open>c\<close> are \<open>itBegin\<close>, \<open>itStart\<close>, \<open>nCount\<close>.\<close>

function pool_loop :: "nat list \<Rightarrow> nat \<Rightarrow> int \<Rightarrow> nat \<Rightarrow> nat \<Rightarrow> nat \<Rightarrow> int" where
  "pool_loop fl ty n b s c =
     (case index_from ty fl b of
        None \<Rightarrow> if int c = n then int s else -1
      | Some it \<Rightarrow>
          let c' = (if c = 0 then 1 else if it = b then c + 1 else 1);
              s' = (if c = 0 then it else if it = b then s else it)
          in if int c' = n then int s' else pool_loop fl ty n (it + 1) s' c')"
  by pat_completeness auto
termination
  by (relation "measure (\<lambda>(fl, ty, n, b, s, c). length fl - b)")
     (use index_from_Some(1,2) in fastforce)+

declare pool_loop.simps [simp del]

definition ObjPool_FindAvailable :: "nat \<Rightarrow> TNode list \<Rightarrow> int \<Rightarrow> int" where
  "ObjPool_FindAvailable ty v n = pool_loop (map tn_nFlag v) ty n 0 (length v) 0"

fun set_flags :: "nat \<Rightarrow> nat \<Rightarrow> nat \<Rightarrow> TNode list \<Rightarrow> TNode list" where
  "set_flags i 0 f v = v"
| "set_flags i (Suc n) f v = set_flags (Suc i) n f (v[i := (v ! i)\<lparr>tn_nFlag := f\<rparr>])"

text \<open>The part of \<open>Alloc\<close> under the lock: the index found and the object, or \<open>NULL\<close>.\<close>

definition alloc_locked :: "initobj \<Rightarrow> int \<Rightarrow> objpool \<Rightarrow> xerror + (int \<times> addr \<times> objpool)" where
  "alloc_locked io n st =
     (let i = ObjPool_FindAvailable 0 (m_vecPMem st) n
      in if i \<noteq> -1
         then (if nat i < length (m_vecPMem st) then Inr (i, tn_pData (m_vecPMem st ! nat i), st) else Inl Undefined)
         else (case expand io st of
                 (False, st') \<Rightarrow> Inr (-1, 0, st')
               | (True, st') \<Rightarrow>
                   (let j = ObjPool_FindAvailable 0 (m_vecPMem st') n
                    in if 0 \<le> j \<and> nat j < length (m_vecPMem st')
                       then Inr (j, tn_pData (m_vecPMem st' ! nat j), st') else Inl Undefined)))"

definition alloc_mark :: "int \<Rightarrow> addr \<Rightarrow> int \<Rightarrow> objpool \<Rightarrow> objpool" where
  "alloc_mark i p n st = (if p \<noteq> 0 then st\<lparr>m_vecPMem := set_flags (nat i) (nat n) 1 (m_vecPMem st)\<rparr> else st)"

definition ObjPool_Alloc :: "initobj \<Rightarrow> int \<Rightarrow> objpool \<Rightarrow> xerror + (addr \<times> objpool)" where
  "ObjPool_Alloc io n st =
     (case alloc_locked io n st of
        Inl e \<Rightarrow> Inl e
      | Inr (i, p, st') \<Rightarrow> Inr (p, alloc_mark i p n st'))"

definition ObjPool_Free :: "addr \<Rightarrow> int \<Rightarrow> objpool \<Rightarrow> xerror + objpool" where
  "ObjPool_Free p n st =
     (case index_from p (map tn_pData (m_vecPMem st)) 0 of
        None \<Rightarrow> Inr st
      | Some i \<Rightarrow>
          if i + nat n \<le> length (m_vecPMem st)
          then Inr (st\<lparr>m_vecPMem := set_flags i (nat n) 0 (m_vecPMem st)\<rparr>) else Inl Undefined)"

definition GetUsed :: "nat \<Rightarrow> objpool \<Rightarrow> nat" where
  "GetUsed sizeofT st = length (filter (\<lambda>e. tn_nFlag e \<noteq> 0) (m_vecPMem st)) * sizeofT"

definition Capacity :: "nat \<Rightarrow> objpool \<Rightarrow> nat" where
  "Capacity sizeofT st = length (m_vecPMem st) * sizeofT"

fun retry_nodes :: "initobj \<Rightarrow> nat \<Rightarrow> nat \<Rightarrow> objpool \<Rightarrow> bool \<times> objpool" where
  "retry_nodes io i 0 st = (True, st)"
| "retry_nodes io i (Suc r) st =
     (let (ok, p) = io (nCalls st);
          e = m_vecPMem st ! i;
          e' = e\<lparr>tn_pData := (case p of None \<Rightarrow> tn_pData e | Some q \<Rightarrow> q)\<rparr>;
          st' = st\<lparr>m_vecPMem := (m_vecPMem st)[i := e'], nCalls := Suc (nCalls st)\<rparr>
      in if ok then retry_nodes io (Suc i) r st' else (False, st'))"

definition RetryInitObj :: "initobj \<Rightarrow> objpool \<Rightarrow> bool \<times> objpool" where
  "RetryInitObj io st = retry_nodes io 0 (length (m_vecPMem st)) st"

definition ClearPool :: "objpool \<Rightarrow> addr list \<times> objpool" where
  "ClearPool st =
     (map tn_pData (m_vecPMem st), st\<lparr>m_vecPMem := map (\<lambda>e. e\<lparr>tn_nFlag := 0\<rparr>) (m_vecPMem st)\<rparr>)"

subsection \<open>The search finds the first run\<close>

definition node_free :: "TNode list \<Rightarrow> nat \<Rightarrow> bool" where
  "node_free v i \<longleftrightarrow> i < length v \<and> tn_nFlag (v ! i) = 0"

lemma index_node:
  assumes "index_from 0 (map tn_nFlag v) b = Some it"
  shows "b \<le> it" "node_free v it" "\<And>j. b \<le> j \<Longrightarrow> j < it \<Longrightarrow> \<not> node_free v j"
  using index_from_Some [OF assms] by (auto simp: node_free_def)

lemma index_no_node: "index_from 0 (map tn_nFlag v) b = None \<Longrightarrow> b \<le> j \<Longrightarrow> \<not> node_free v j"
  using index_from_None [of 0 "map tn_nFlag v" b j] by (auto simp: node_free_def)

lemma pool_loop_spec:
  assumes "0 < n" "int c < n"
    and "0 < c \<longrightarrow> c \<le> b \<and> s = b - c \<and> (\<forall>j < c. node_free v (b - c + j))"
    and "no_run_below (node_free v) (length v) (nat n) (b - c)" "b \<le> length v"
  shows "run_result (node_free v) (length v) (nat n) (pool_loop (map tn_nFlag v) 0 n b s c)"
  using assms
proof (induction "map tn_nFlag v" "0 :: nat" n b s c rule: pool_loop.induct)
  case (1 n b s c)
  note prems = "1.prems"
  show ?case
  proof (cases "index_from 0 (map tn_nFlag v) b")
    case None
    have "\<not> free_run (node_free v) (length v) (nat n) i" for i
    proof
      assume r: "free_run (node_free v) (length v) (nat n) i"
      have "\<not> i < b - c" using prems(4) r by (auto simp: no_run_below_def)
      then have i: "b - c \<le> i" by simp
      have "c \<le> b" using prems(3) by (cases c) auto
      have "nat n - 1 < nat n" using prems(1) by simp
      then have "node_free v (i + (nat n - 1))" using r unfolding free_run_def by blast
      moreover have "b \<le> i + (nat n - 1)" using i prems(2) \<open>c \<le> b\<close> by linarith
      ultimately show False using index_no_node [OF None] by blast
    qed
    with None prems(2) show ?thesis by (simp add: pool_loop.simps [of _ _ n] run_result_intros(2))
  next
    case (Some it)
    note it = index_node [OF Some]
    let ?c = "if c = 0 then 1 else if it = b then c + 1 else 1"
    let ?s = "if c = 0 then it else if it = b then s else it"
    have itl: "it + 1 \<le> length v" using it(2) by (simp add: node_free_def)
    have c: "0 < ?c" "?c \<le> it + 1" "?s = it + 1 - ?c" using prems(3) by auto
    have run: "node_free v (it + 1 - ?c + j)" if "j < ?c" for j
    proof (cases "c \<noteq> 0 \<and> it = b \<and> j < c")
      case True
      with prems(3) show ?thesis by auto
    next
      case False
      with that have "it + 1 - ?c + j = it" using c prems(3) by (auto split: if_splits)
      with it(2) show ?thesis by simp
    qed
    have nr: "no_run_below (node_free v) (length v) (nat n) (it + 1 - ?c)"
    proof (cases "c \<noteq> 0 \<and> it = b")
      case True
      with prems(4) show ?thesis by simp
    next
      case False
      then have e: "it + 1 - ?c = it" by auto
      show ?thesis
      proof (cases "c = 0")
        case True
        show ?thesis unfolding e no_run_below_def
        proof (intro allI impI)
          fix i assume "i < it"
          show "\<not> free_run (node_free v) (length v) (nat n) i"
          proof (cases "i < b")
            case True
            with prems(4) \<open>c = 0\<close> show ?thesis by (simp add: no_run_below_def)
          next
            case False
            with it(3) \<open>i < it\<close> free_run_start [of "node_free v" "length v" "nat n" i] prems(1) show ?thesis by force
          qed
        qed
      next
        case c0: False
        with False have ne: "it \<noteq> b" by simp
        have "no_run_below (node_free v) (length v) (nat n) it"
        proof (rule no_run_extend [of _ _ _ "b - 1" c])
          show "no_run_below (node_free v) (length v) (nat n) (b - 1 + 1 - c)" using prems(3,4) c0 by simp
          show "\<forall>i. b - 1 < i \<and> i < it \<longrightarrow> \<not> node_free v i" using it(3) c0 prems(3) by auto
          show "c < nat n" using prems(2) by simp
          show "c \<le> b - 1 + 1" "it \<noteq> b - 1 + 1" "b - 1 < it" using prems(3) c0 ne it(1) by auto
        qed
        with e show ?thesis by simp
      qed
    qed
    show ?thesis
    proof (cases "int ?c = n")
      case True
      then have "free_run (node_free v) (length v) (nat n) (it + 1 - ?c)"
        using run itl c by (auto simp: free_run_def)
      with nr have "run_result (node_free v) (length v) (nat n) (int ?s)"
        unfolding c(3) using run_result_intros(1) by blast
      with Some True show ?thesis
        unfolding pool_loop.simps [of _ _ n b s c] by (simp only: option.case Let_def if_True simp_thms)
    next
      case False
      have "run_result (node_free v) (length v) (nat n) (pool_loop (map tn_nFlag v) 0 n (it + 1) ?s ?c)"
      proof (rule "1.hyps" [OF Some refl refl False])
        show "int ?c < n" using False prems(1,2) by auto
        show "0 < ?c \<longrightarrow> ?c \<le> it + 1 \<and> ?s = it + 1 - ?c \<and> (\<forall>j < ?c. node_free v (it + 1 - ?c + j))"
          using c run by blast
      qed (use nr itl prems(1) in auto)
      with Some False show ?thesis
        unfolding pool_loop.simps [of _ _ n b s c] by (simp only: option.case Let_def if_False)
    qed
  qed
qed

interpretation obj_run: run_finder "ObjPool_FindAvailable 0" node_free length
proof -
  have r: "run_result (node_free v) (length v) (nat n) (ObjPool_FindAvailable 0 v n)" if "0 < n" for v n
    unfolding ObjPool_FindAvailable_def
    using that by (intro pool_loop_spec) (simp_all add: no_run_below_def)
  show "run_finder (ObjPool_FindAvailable 0) node_free length"
    using r by unfold_locales (auto simp: run_result_def split: if_splits)
qed

subsection \<open>The pool\<close>

text \<open>What is relied on of \<open>new\<close>: call \<open>k\<close> gives object \<open>f k\<close>, never null, never the same twice.\<close>

definition newobj :: "(nat \<Rightarrow> addr) \<Rightarrow> initobj" where
  "newobj f = (\<lambda>k. (True, Some (f k)))"

definition pool_inv :: "(nat \<Rightarrow> addr) \<Rightarrow> objpool \<Rightarrow> bool" where
  "pool_inv f st \<longleftrightarrow> m_nMax st = length (m_vecPMem st) \<and> m_nMax st < 65536 \<and>
     distinct (map tn_pData (m_vecPMem st)) \<and>
     tn_pData ` set (m_vecPMem st) \<subseteq> f ` {..<nCalls st}"

definition live_objs :: "objpool \<Rightarrow> addr set" where
  "live_objs st = tn_pData ` {e \<in> set (m_vecPMem st). tn_nFlag e \<noteq> 0}"

definition run_objs :: "nat \<Rightarrow> nat \<Rightarrow> objpool \<Rightarrow> addr set" where
  "run_objs i n st = set (take n (drop i (map tn_pData (m_vecPMem st))))"

lemma set_flags_length [simp]: "length (set_flags i n f v) = length v"
  by (induction i n f v rule: set_flags.induct) auto

lemma set_flags_nth:
  "k < length v \<Longrightarrow> set_flags i n f v ! k = (if i \<le> k \<and> k < i + n then (v ! k)\<lparr>tn_nFlag := f\<rparr> else v ! k)"
  by (induction i n f v rule: set_flags.induct) (auto simp: nth_list_update not_less_eq_eq dest!: le_antisym)

lemma set_flags_fields:
  assumes "k < length v"
  shows "tn_nFlag (set_flags i n f v ! k) = (if i \<le> k \<and> k < i + n then f else tn_nFlag (v ! k))"
    and "tn_pData (set_flags i n f v ! k) = tn_pData (v ! k)"
  using assms by (simp_all add: set_flags_nth)

lemma set_flags_pData [simp]: "map tn_pData (set_flags i n f v) = map tn_pData v"
  by (rule nth_equalityI) (auto simp: set_flags_nth)

lemma in_run_objs:
  assumes "i + n \<le> length (m_vecPMem st)"
  shows "p \<in> run_objs i n st \<longleftrightarrow> (\<exists>k. i \<le> k \<and> k < i + n \<and> p = tn_pData (m_vecPMem st ! k))"
proof
  assume "p \<in> run_objs i n st"
  then obtain j where j: "j < n" "i + j < length (m_vecPMem st)" "p = take n (drop i (map tn_pData (m_vecPMem st))) ! j"
    using assms by (auto simp: run_objs_def in_set_conv_nth)
  then show "\<exists>k. i \<le> k \<and> k < i + n \<and> p = tn_pData (m_vecPMem st ! k)"
    by (intro exI [of _ "i + j"]) simp
next
  assume "\<exists>k. i \<le> k \<and> k < i + n \<and> p = tn_pData (m_vecPMem st ! k)"
  then obtain k where "i \<le> k" "k < i + n" "p = tn_pData (m_vecPMem st ! k)" by blast
  then show "p \<in> run_objs i n st"
    using assms unfolding run_objs_def in_set_conv_nth by (intro exI [of _ "k - i"]) simp
qed

lemma in_live_objs:
  "p \<in> live_objs st \<longleftrightarrow> (\<exists>k < length (m_vecPMem st). tn_nFlag (m_vecPMem st ! k) \<noteq> 0 \<and> p = tn_pData (m_vecPMem st ! k))"
  unfolding live_objs_def by (auto simp: in_set_conv_nth image_iff)

lemma pData_eq_iff:
  assumes "pool_inv f st" "j < length (m_vecPMem st)" "k < length (m_vecPMem st)"
  shows "tn_pData (m_vecPMem st ! j) = tn_pData (m_vecPMem st ! k) \<longleftrightarrow> j = k"
  using assms nth_eq_iff_index_eq [of "map tn_pData (m_vecPMem st)" j k] by (simp add: pool_inv_def)

lemma pool_inv_flags:
  assumes "pool_inv f st"
  shows "pool_inv f (st\<lparr>m_vecPMem := set_flags i n v (m_vecPMem st)\<rparr>)"
proof -
  have "tn_pData ` set (set_flags i n v (m_vecPMem st)) = tn_pData ` set (m_vecPMem st)"
    by (metis set_flags_pData set_map)
  with assms show ?thesis unfolding pool_inv_def by simp
qed

lemma live_set:
  assumes inv: "pool_inv f st" and n: "i + n \<le> length (m_vecPMem st)"
  shows "live_objs (st\<lparr>m_vecPMem := set_flags i n 1 (m_vecPMem st)\<rparr>) = live_objs st \<union> run_objs i n st" (is ?A)
    and "live_objs (st\<lparr>m_vecPMem := set_flags i n 0 (m_vecPMem st)\<rparr>) = live_objs st - run_objs i n st" (is ?B)
proof -
  let ?v = "m_vecPMem st"
  have upd: "p \<in> live_objs (st\<lparr>m_vecPMem := set_flags i n c ?v\<rparr>) \<longleftrightarrow>
      (\<exists>k < length ?v. (if i \<le> k \<and> k < i + n then c else tn_nFlag (?v ! k)) \<noteq> 0 \<and> p = tn_pData (?v ! k))" for p c
    unfolding in_live_objs by (simp add: set_flags_fields cong: conj_cong)
  show ?A
  proof (rule set_eqI)
    fix p
    show "p \<in> live_objs (st\<lparr>m_vecPMem := set_flags i n 1 ?v\<rparr>) \<longleftrightarrow> p \<in> live_objs st \<union> run_objs i n st"
      (is "?l \<longleftrightarrow> ?r")
    proof
      assume ?l
      then obtain k where "k < length ?v" "(if i \<le> k \<and> k < i + n then 1 else tn_nFlag (?v ! k)) \<noteq> 0" "p = tn_pData (?v ! k)"
        unfolding upd by blast
      then show ?r unfolding Un_iff in_live_objs in_run_objs [OF n] by (auto split: if_splits)
    next
      assume ?r
      then show ?l
      proof
        assume "p \<in> live_objs st"
        then obtain k where "k < length ?v" "tn_nFlag (?v ! k) \<noteq> 0" "p = tn_pData (?v ! k)" unfolding in_live_objs by blast
        then show ?l unfolding upd by (intro exI [of _ k]) simp
      next
        assume "p \<in> run_objs i n st"
        then obtain k where "i \<le> k" "k < i + n" "p = tn_pData (?v ! k)" unfolding in_run_objs [OF n] by blast
        then show ?l using n unfolding upd by (intro exI [of _ k]) simp
      qed
    qed
  qed
  have uniq: "\<And>k k'. k < length ?v \<Longrightarrow> k' < length ?v \<Longrightarrow> tn_pData (?v ! k) = tn_pData (?v ! k') \<Longrightarrow> k = k'"
    using pData_eq_iff [OF inv] by blast
  show ?B
  proof (rule set_eqI)
    fix p
    show "p \<in> live_objs (st\<lparr>m_vecPMem := set_flags i n 0 ?v\<rparr>) \<longleftrightarrow> p \<in> live_objs st - run_objs i n st"
      (is "?l \<longleftrightarrow> ?r")
    proof
      assume ?l
      then obtain k where k: "k < length ?v" "(if i \<le> k \<and> k < i + n then 0 else tn_nFlag (?v ! k)) \<noteq> 0" "p = tn_pData (?v ! k)"
        unfolding upd by blast
      then have "p \<in> live_objs st" unfolding in_live_objs by (auto split: if_splits)
      moreover have "p \<notin> run_objs i n st"
      proof
        assume "p \<in> run_objs i n st"
        then obtain k' where k': "i \<le> k'" "k' < i + n" "p = tn_pData (?v ! k')" unfolding in_run_objs [OF n] by blast
        then have "k = k'" using uniq [of k k'] k n by simp
        with k k' show False by simp
      qed
      ultimately show ?r by simp
    next
      assume r: ?r
      then obtain k where k: "k < length ?v" "tn_nFlag (?v ! k) \<noteq> 0" "p = tn_pData (?v ! k)" by (auto simp: in_live_objs)
      have "\<not> (i \<le> k \<and> k < i + n)" using r k(3) by (auto simp: in_run_objs [OF n])
      with k show ?l unfolding upd by (intro exI [of _ k]) simp
    qed
  qed
qed

lemma run_not_live:
  assumes inv: "pool_inv f st" and r: "free_run (node_free (m_vecPMem st)) (length (m_vecPMem st)) n i"
  shows "live_objs st \<inter> run_objs i n st = {}"
proof -
  have n: "i + n \<le> length (m_vecPMem st)" using r by (simp add: free_run_def)
  have fr: "node_free (m_vecPMem st) k" if "i \<le> k" "k < i + n" for k
    using r that unfolding free_run_def by (metis le_iff_add nat_add_left_cancel_less)
  have "False" if p: "p \<in> live_objs st" "p \<in> run_objs i n st" for p
  proof -
    from p(1) obtain j where j: "j < length (m_vecPMem st)" "tn_nFlag (m_vecPMem st ! j) \<noteq> 0" "p = tn_pData (m_vecPMem st ! j)"
      by (auto simp: in_live_objs)
    from p(2) obtain k where k: "i \<le> k" "k < i + n" "p = tn_pData (m_vecPMem st ! k)" by (auto simp: in_run_objs [OF n])
    then have "j = k" using pData_eq_iff [OF inv j(1), of k] j(3) n by simp
    with fr [OF k(1,2)] j(2) show False by (simp add: node_free_def)
  qed
  then show ?thesis by blast
qed

lemma update_nodes_new:
  assumes "i + r \<le> length (m_vecPMem st)"
  shows "\<exists>st'. update_nodes (newobj f) i r st = (True, st') \<and> m_nMax st' = m_nMax st \<and>
     nCalls st' = nCalls st + r \<and> length (m_vecPMem st') = length (m_vecPMem st) \<and>
     (\<forall>k < length (m_vecPMem st). m_vecPMem st' ! k =
        (if i \<le> k \<and> k < i + r
         then (m_vecPMem st ! k)\<lparr>tn_nIndex := k, tn_pData := f (nCalls st + (k - i))\<rparr> else m_vecPMem st ! k))"
  using assms
proof (induction r arbitrary: i st)
  case (Suc r)
  let ?e = "(m_vecPMem st ! i)\<lparr>tn_nIndex := i, tn_pData := f (nCalls st)\<rparr>"
  let ?st = "st\<lparr>m_vecPMem := (m_vecPMem st)[i := ?e], nCalls := Suc (nCalls st)\<rparr>"
  have "Suc i + r \<le> length (m_vecPMem ?st)" using Suc.prems by simp
  from Suc.IH [OF this] obtain st' where st': "update_nodes (newobj f) (Suc i) r ?st = (True, st')"
    "m_nMax st' = m_nMax ?st" "nCalls st' = nCalls ?st + r" "length (m_vecPMem st') = length (m_vecPMem ?st)"
    and nth: "\<forall>k < length (m_vecPMem ?st). m_vecPMem st' ! k =
        (if Suc i \<le> k \<and> k < Suc i + r
         then (m_vecPMem ?st ! k)\<lparr>tn_nIndex := k, tn_pData := f (nCalls ?st + (k - Suc i))\<rparr> else m_vecPMem ?st ! k)" by blast
  have "update_nodes (newobj f) i (Suc r) st = (True, st')" using st'(1) by (simp add: newobj_def Let_def)
  moreover have "m_vecPMem st' ! k = (if i \<le> k \<and> k < i + Suc r
      then (m_vecPMem st ! k)\<lparr>tn_nIndex := k, tn_pData := f (nCalls st + (k - i))\<rparr> else m_vecPMem st ! k)"
    if "k < length (m_vecPMem st)" for k
    using nth that by (cases "k = i") (auto simp: Suc_diff_Suc)
  ultimately show ?case using st'(2-4) by auto
qed auto

lemma expand_new:
  assumes inv: "pool_inv f st" and mx: "m_nMax st < 32768" and f: "inj f"
  shows "\<exists>st'. expand (newobj f) st = (True, st') \<and> pool_inv f st' \<and> m_nMax st' = 2 * m_nMax st \<and>
     (\<forall>k < m_nMax st. m_vecPMem st' ! k = m_vecPMem st ! k) \<and>
     (\<forall>k. m_nMax st \<le> k \<and> k < 2 * m_nMax st \<longrightarrow> node_free (m_vecPMem st') k)"
proof -
  let ?m = "m_nMax st" and ?v = "m_vecPMem st"
  have len: "length ?v = ?m" using inv by (simp add: pool_inv_def)
  let ?w = "?v @ replicate ?m TNode_new"
  let ?s0 = "st\<lparr>m_nMax := 2 * ?m, m_vecPMem := ?w\<rparr>"
  have ex: "expand (newobj f) st = update_nodes (newobj f) ?m ?m ?s0"
    using mx len by (simp add: expand_def UpdateRecord_def resize_def Let_def mult.commute)
  have "?m + ?m \<le> length (m_vecPMem ?s0)" by (simp add: len)
  from update_nodes_new [OF this, of f] obtain st' where st': "expand (newobj f) st = (True, st')"
    "m_nMax st' = 2 * ?m" "nCalls st' = nCalls st + ?m" "length (m_vecPMem st') = 2 * ?m"
    and nth: "\<forall>k < 2 * ?m. m_vecPMem st' ! k = (if ?m \<le> k \<and> k < ?m + ?m
         then (?w ! k)\<lparr>tn_nIndex := k, tn_pData := f (nCalls st + (k - ?m))\<rparr> else ?w ! k)"
    unfolding ex by (auto simp: len)
  have old: "m_vecPMem st' ! k = ?v ! k" if "k < ?m" for k using nth that by (simp add: nth_append len)
  have new: "tn_pData (m_vecPMem st' ! k) = f (nCalls st + (k - ?m))" "tn_nFlag (m_vecPMem st' ! k) = 0"
    if "?m \<le> k" "k < 2 * ?m" for k
    using nth that by (simp_all add: nth_append len TNode_new_def)
  have old_in: "tn_pData (?v ! k) \<in> f ` {..<nCalls st}" if "k < ?m" for k
    using inv that len unfolding pool_inv_def by (metis image_eqI nth_mem subsetD)
  have distinct: "tn_pData (m_vecPMem st' ! j) \<noteq> tn_pData (m_vecPMem st' ! k)" if "j < k" "k < 2 * ?m" for j k
  proof (cases "k < ?m")
    case True
    then show ?thesis using that pData_eq_iff [OF inv, of j k] len by (simp add: old)
  next
    case k: False
    show ?thesis
    proof (cases "j < ?m")
      case True
      with old_in [OF True] have "tn_pData (m_vecPMem st' ! j) \<in> f ` {..<nCalls st}" by (simp add: old)
      with new(1) [of k] k that show ?thesis by (auto simp: inj_eq [OF f])
    next
      case False
      with new(1) [of j] new(1) [of k] k that show ?thesis by (auto simp: inj_eq [OF f])
    qed
  qed
  have "distinct (map tn_pData (m_vecPMem st'))"
    unfolding distinct_conv_nth using distinct st'(4) by (metis length_map linorder_neqE_nat nth_map)
  moreover have "tn_pData ` set (m_vecPMem st') \<subseteq> f ` {..<nCalls st'}"
  proof
    fix p assume "p \<in> tn_pData ` set (m_vecPMem st')"
    then obtain k where k: "k < 2 * ?m" "p = tn_pData (m_vecPMem st' ! k)" using st'(4) by (auto simp: in_set_conv_nth)
    show "p \<in> f ` {..<nCalls st'}"
    proof (cases "k < ?m")
      case True
      with old_in [OF True] k st'(3) show ?thesis by (auto simp: old)
    next
      case False
      with new(1) [of k] k st'(3) show ?thesis by (intro image_eqI [of _ _ "nCalls st + (k - ?m)"]) auto
    qed
  qed
  ultimately have "pool_inv f st'" using st' mx by (simp add: pool_inv_def)
  moreover have "\<forall>k. ?m \<le> k \<and> k < 2 * ?m \<longrightarrow> node_free (m_vecPMem st') k"
    using new(2) st'(4) by (simp add: node_free_def)
  ultimately show ?thesis using st'(1,2) old by blast
qed

text \<open>A search that found a run, then the marking of the run.\<close>

lemma mark_found:
  assumes inv: "pool_inv f st" and n: "0 < n" and i: "ObjPool_FindAvailable 0 (m_vecPMem st) n = i" "i \<noteq> -1"
    and f: "0 \<notin> range f"
  shows "0 \<le> i" "nat i + nat n \<le> length (m_vecPMem st)" "tn_pData (m_vecPMem st ! nat i) \<noteq> 0"
    "nat i < length (m_vecPMem st)" "live_objs st \<inter> run_objs (nat i) (nat n) st = {}"
    "tn_pData (m_vecPMem st ! nat i) \<in> run_objs (nat i) (nat n) st"
    "live_objs (alloc_mark i (tn_pData (m_vecPMem st ! nat i)) n st) = live_objs st \<union> run_objs (nat i) (nat n) st"
    "pool_inv f (alloc_mark i (tn_pData (m_vecPMem st ! nat i)) n st)"
proof -
  have r: "free_run (node_free (m_vecPMem st)) (length (m_vecPMem st)) (nat n) (nat i)"
    and i0: "0 \<le> i" using obj_run.found [OF n, of "m_vecPMem st"] i by auto
  then show le: "nat i + nat n \<le> length (m_vecPMem st)" and "0 \<le> i" by (auto simp: free_run_def)
  then show il: "nat i < length (m_vecPMem st)" using n by simp
  have "tn_pData (m_vecPMem st ! nat i) \<in> f ` {..<nCalls st}"
    using inv nth_mem [OF il] by (auto simp: pool_inv_def)
  then show nz: "tn_pData (m_vecPMem st ! nat i) \<noteq> 0" using f by (metis image_iff rangeI)
  show "live_objs st \<inter> run_objs (nat i) (nat n) st = {}" by (rule run_not_live [OF inv r])
  show "tn_pData (m_vecPMem st ! nat i) \<in> run_objs (nat i) (nat n) st"
    using n by (auto simp: in_run_objs [OF le])
  show "live_objs (alloc_mark i (tn_pData (m_vecPMem st ! nat i)) n st) = live_objs st \<union> run_objs (nat i) (nat n) st"
    using live_set(1) [OF inv le] nz by (simp add: alloc_mark_def)
  show "pool_inv f (alloc_mark i (tn_pData (m_vecPMem st ! nat i)) n st)"
    using pool_inv_flags [OF inv] inv by (simp add: alloc_mark_def)
qed

lemma live_expand:
  assumes "pool_inv f st" "pool_inv f st'" "m_nMax st' = 2 * m_nMax st"
    "\<forall>k < m_nMax st. m_vecPMem st' ! k = m_vecPMem st ! k"
    "\<forall>k. m_nMax st \<le> k \<and> k < 2 * m_nMax st \<longrightarrow> node_free (m_vecPMem st') k"
  shows "live_objs st' = live_objs st"
proof (rule set_eqI)
  fix p
  have len: "length (m_vecPMem st) = m_nMax st" "length (m_vecPMem st') = 2 * m_nMax st"
    using assms(1-3) by (simp_all add: pool_inv_def)
  have "(k < 2 * m_nMax st \<and> tn_nFlag (m_vecPMem st' ! k) \<noteq> 0 \<and> p = tn_pData (m_vecPMem st' ! k)) \<longleftrightarrow>
      (k < m_nMax st \<and> tn_nFlag (m_vecPMem st ! k) \<noteq> 0 \<and> p = tn_pData (m_vecPMem st ! k))" for k
    using assms(4) [rule_format, of k] assms(5) [rule_format, of k] by (cases "k < m_nMax st") (auto simp: node_free_def)
  then show "p \<in> live_objs st' \<longleftrightarrow> p \<in> live_objs st" unfolding in_live_objs len by simp
qed

text \<open>Where \<open>Alloc\<close> takes the objects from, when the request fits the doubled pool.\<close>

lemma alloc_locked_ok:
  assumes inv: "pool_inv f st" and f: "inj f" "0 \<notin> range f" and n: "0 < n" "nat n \<le> m_nMax st" and mx: "m_nMax st < 32768"
  shows "\<exists>i st'. alloc_locked (newobj f) n st = Inr (i, tn_pData (m_vecPMem st' ! nat i), st') \<and> i \<noteq> -1 \<and>
     ObjPool_FindAvailable 0 (m_vecPMem st') n = i \<and> pool_inv f st' \<and> live_objs st' = live_objs st"
proof (cases "ObjPool_FindAvailable 0 (m_vecPMem st) n = -1")
  case False
  with mark_found(4) [OF inv n(1) refl False f(2)] inv show ?thesis
    by (auto simp: alloc_locked_def Let_def)
next
  case True
  obtain st' where st': "expand (newobj f) st = (True, st')" "pool_inv f st'" "m_nMax st' = 2 * m_nMax st"
    and old: "\<forall>k < m_nMax st. m_vecPMem st' ! k = m_vecPMem st ! k"
    and new: "\<forall>k. m_nMax st \<le> k \<and> k < 2 * m_nMax st \<longrightarrow> node_free (m_vecPMem st') k"
    using expand_new [OF inv mx f(1)] by blast
  have "free_run (node_free (m_vecPMem st')) (length (m_vecPMem st')) (nat n) (m_nMax st)"
    using new n st'(2,3) by (simp add: free_run_def pool_inv_def)
  then have j: "ObjPool_FindAvailable 0 (m_vecPMem st') n \<noteq> -1" using obj_run.none [OF n(1)] by blast
  with mark_found(1,4) [OF st'(2) n(1) refl j f(2)] True st'(1,2) live_expand [OF inv st'(2,3) old new]
  show ?thesis by (auto simp: alloc_locked_def Let_def)
qed

text \<open>How far one call of \<open>Alloc\<close> grows the pool.\<close>

lemma update_nodes_nMax: "update_nodes io i r st = (b, st') \<Longrightarrow> m_nMax st' = m_nMax st"
proof (induction r arbitrary: i st)
  case (Suc r)
  obtain ok p where io: "io (nCalls st) = (ok, p)" by (cases "io (nCalls st)") simp
  show ?case using Suc.prems Suc.IH by (cases ok) (fastforce simp: io Let_def)+
qed simp

lemma alloc_nMax:
  assumes "ObjPool_Alloc io n st = Inr (p, st')" "m_nMax st < 32768"
  shows "m_nMax st' = m_nMax st \<or> m_nMax st' = 2 * m_nMax st"
proof -
  have ex: "m_nMax st1 = 2 * m_nMax st" if "expand io st = (b, st1)" for b st1
  proof -
    have e: "update_nodes io i r (st\<lparr>m_nMax := mx, m_vecPMem := v\<rparr>) = (b', s') \<Longrightarrow> m_nMax s' = mx" for i r mx v b' s'
      by (drule update_nodes_nMax) simp
    show ?thesis using that assms(2) unfolding expand_def UpdateRecord_def Let_def by (simp split: if_splits) (auto dest!: e)
  qed
  show ?thesis using assms(1) unfolding ObjPool_Alloc_def alloc_locked_def Let_def
    by (auto simp: alloc_mark_def split: if_splits prod.splits bool.splits sum.splits dest!: ex)
qed

lemma index_of_own:
  assumes "pool_inv f st" "i < length (m_vecPMem st)"
  shows "index_from (tn_pData (m_vecPMem st ! i)) (map tn_pData (m_vecPMem st)) 0 = Some i"
proof (cases "index_from (tn_pData (m_vecPMem st ! i)) (map tn_pData (m_vecPMem st)) 0")
  case None
  from index_from_None [OF this, of i] assms(2) show ?thesis by simp
next
  case (Some k)
  from index_from_Some(2,3) [OF Some] assms(2) pData_eq_iff [OF assms(1), of k i] Some show ?thesis by simp
qed

lemma alloc_free_cycle:
  assumes "pool_inv f st" "inj f" "0 \<notin> range f" "0 < n" "nat n \<le> m_nMax st" "m_nMax st < 32768"
  shows "\<exists>p st' i st''. ObjPool_Alloc (newobj f) n st = Inr (p, st') \<and> p \<noteq> 0 \<and> pool_inv f st' \<and>
     p \<in> run_objs i (nat n) st' \<and> live_objs st \<inter> run_objs i (nat n) st' = {} \<and>
     live_objs st' = live_objs st \<union> run_objs i (nat n) st' \<and>
     ObjPool_Free p n st' = Inr st'' \<and> pool_inv f st'' \<and> live_objs st'' = live_objs st"
proof -
  obtain i st1 where l: "alloc_locked (newobj f) n st = Inr (i, tn_pData (m_vecPMem st1 ! nat i), st1)" "i \<noteq> -1"
    "ObjPool_FindAvailable 0 (m_vecPMem st1) n = i" "pool_inv f st1" "live_objs st1 = live_objs st"
    using alloc_locked_ok [OF assms] by blast
  let ?p = "tn_pData (m_vecPMem st1 ! nat i)"
  let ?st = "alloc_mark i ?p n st1"
  note m = mark_found [OF l(4) assms(4) l(3,2) assms(3)]
  have al: "ObjPool_Alloc (newobj f) n st = Inr (?p, ?st)" by (simp add: ObjPool_Alloc_def l(1))
  have vec: "map tn_pData (m_vecPMem ?st) = map tn_pData (m_vecPMem st1)" "length (m_vecPMem ?st) = length (m_vecPMem st1)"
    by (simp_all add: alloc_mark_def)
  then have ro: "run_objs (nat i) (nat n) ?st = run_objs (nat i) (nat n) st1" by (simp add: run_objs_def)
  have "index_from ?p (map tn_pData (m_vecPMem st1)) 0 = Some (nat i)" by (rule index_of_own [OF l(4) m(4)])
  then have fr: "ObjPool_Free ?p n ?st = Inr (?st\<lparr>m_vecPMem := set_flags (nat i) (nat n) 0 (m_vecPMem ?st)\<rparr>)"
    using m(2) unfolding ObjPool_Free_def vec by simp
  have le: "nat i + nat n \<le> length (m_vecPMem ?st)" using m(2) vec by simp
  have "live_objs (?st\<lparr>m_vecPMem := set_flags (nat i) (nat n) 0 (m_vecPMem ?st)\<rparr>) = live_objs st"
    using live_set(2) [OF m(8) le] m(5,7) l(5) ro by auto
  moreover have "live_objs st \<inter> run_objs (nat i) (nat n) ?st = {}" "?p \<in> run_objs (nat i) (nat n) ?st"
    "live_objs ?st = live_objs st \<union> run_objs (nat i) (nat n) ?st"
    using m(5-7) unfolding ro l(5) by simp_all
  ultimately show ?thesis using al fr m(3,8) pool_inv_flags [OF m(8)] by metis
qed

lemma run_objs_one: "p \<in> run_objs i 1 st \<Longrightarrow> run_objs i 1 st = {p}"
  by (cases "drop i (map tn_pData (m_vecPMem st))") (simp_all add: run_objs_def)

lemma alloc_one:
  assumes "pool_inv f st" "inj f" "0 \<notin> range f" "1 \<le> m_nMax st" "m_nMax st < 32768"
  shows "\<exists>p st'. ObjPool_Alloc (newobj f) 1 st = Inr (p, st') \<and> p \<noteq> 0 \<and> pool_inv f st' \<and> p \<notin> live_objs st \<and> live_objs st' = insert p (live_objs st)
    \<and> (\<exists>st''. ObjPool_Free p 1 st' = Inr st'' \<and> live_objs st'' = live_objs st)"
proof -
  obtain p st' i st'' where a: "ObjPool_Alloc (newobj f) 1 st = Inr (p, st')" "p \<noteq> 0" "pool_inv f st'"
     "p \<in> run_objs i 1 st'" "live_objs st \<inter> run_objs i 1 st' = {}" "live_objs st' = live_objs st \<union> run_objs i 1 st'"
     "ObjPool_Free p 1 st' = Inr st''" "live_objs st'' = live_objs st"
    using alloc_free_cycle [of f st 1] assms by auto
  then show ?thesis using run_objs_one [OF a(4)] by auto
qed

text \<open>An object that was given back is the next one handed out.\<close>

lemma set_flags_undo:
  assumes "\<forall>k. i \<le> k \<and> k < i + n \<longrightarrow> node_free v k" "i + n \<le> length v"
  shows "set_flags i n 0 (set_flags i n 1 v) = v"
proof (rule nth_equalityI)
  fix k assume "k < length (set_flags i n 0 (set_flags i n 1 v))"
  then have k: "k < length v" by simp
  have "(v ! k)\<lparr>tn_nFlag := 0\<rparr> = v ! k" if "i \<le> k" "k < i + n"
    using assms(1) that by (cases "v ! k") (auto simp: node_free_def)
  then show "set_flags i n 0 (set_flags i n 1 v) ! k = v ! k" using k by (simp add: set_flags_nth)
qed simp

lemma alloc_again:
  assumes "pool_inv f st" "inj f" "0 \<notin> range f" "0 < n" "nat n \<le> m_nMax st" "m_nMax st < 32768"
  shows "\<exists>p st' st''. ObjPool_Alloc (newobj f) n st = Inr (p, st') \<and> p \<noteq> 0 \<and> ObjPool_Free p n st' = Inr st'' \<and> ObjPool_Alloc (newobj f) n st'' = Inr (p, st')
    \<and> pool_inv f st'' \<and> live_objs st'' = live_objs st"
proof -
  obtain i st1 where l: "alloc_locked (newobj f) n st = Inr (i, tn_pData (m_vecPMem st1 ! nat i), st1)" "i \<noteq> -1"
    "ObjPool_FindAvailable 0 (m_vecPMem st1) n = i" "pool_inv f st1" "live_objs st1 = live_objs st"
    using alloc_locked_ok [OF assms] by blast
  define p where "p = tn_pData (m_vecPMem st1 ! nat i)"
  define st' where "st' = alloc_mark i p n st1"
  note m = mark_found [OF l(4) assms(4) l(3,2) assms(3)]
  have al: "ObjPool_Alloc (newobj f) n st = Inr (p, st')" by (simp add: ObjPool_Alloc_def l(1) p_def st'_def)
  have run: "free_run (node_free (m_vecPMem st1)) (length (m_vecPMem st1)) (nat n) (nat i)" using obj_run.found [OF assms(4)] l(2,3) by blast
  have run': "\<forall>k. nat i \<le> k \<and> k < nat i + nat n \<longrightarrow> node_free (m_vecPMem st1) k"
  proof (intro allI impI)
    fix k assume "nat i \<le> k \<and> k < nat i + nat n"
    then have "k - nat i < nat n" "k = nat i + (k - nat i)" by auto
    then show "node_free (m_vecPMem st1) k" using run unfolding free_run_def by metis
  qed
  have nz: "p \<noteq> 0" using m(3) by (simp add: p_def)
  have vec: "m_vecPMem st' = set_flags (nat i) (nat n) 1 (m_vecPMem st1)" using nz by (simp add: st'_def alloc_mark_def)
  have "ObjPool_Free p n st' = Inr (st'\<lparr>m_vecPMem := set_flags (nat i) (nat n) 0 (m_vecPMem st')\<rparr>)"
    using index_of_own [OF l(4) m(4)] m(2) unfolding ObjPool_Free_def vec p_def by simp
  also have "st'\<lparr>m_vecPMem := set_flags (nat i) (nat n) 0 (m_vecPMem st')\<rparr> = st1"
    unfolding vec set_flags_undo [OF run' m(2)] using nz by (simp add: st'_def alloc_mark_def)
  finally have fr: "ObjPool_Free p n st' = Inr st1" .
  have "alloc_locked (newobj f) n st1 = Inr (i, p, st1)" using l(2,3) m(4) by (simp add: alloc_locked_def p_def Let_def)
  then have "ObjPool_Alloc (newobj f) n st1 = Inr (p, st')" by (simp add: ObjPool_Alloc_def st'_def)
  with al fr nz l(4,5) show ?thesis by blast
qed

subsection \<open>Properties\<close>

text \<open>
  Property C23: with an allocator that gives fresh objects, a request that fits a pool of fewer than 32768 objects before doubling is
  always served. \<open>Alloc\<close> returns a non-null object that starts a run of \<open>n\<close> objects none
  of which was in use, puts just those in use, and keeps the invariant (as many nodes as
  \<open>m_nMax\<close>, all objects distinct); \<open>Free\<close> of that pointer with the same count then succeeds and
  brings back the objects in use before.
\<close>

theorem ObjPool_Alloc_Free:
  assumes "pool_inv f st" "inj f" "0 \<notin> range f" "0 < n" "nat n \<le> m_nMax st" "m_nMax st < 32768"
  shows "\<exists>p st' i st''. ObjPool_Alloc (newobj f) n st = Inr (p, st') \<and> p \<noteq> 0 \<and> pool_inv f st' \<and>
     p \<in> run_objs i (nat n) st' \<and> live_objs st \<inter> run_objs i (nat n) st' = {} \<and>
     live_objs st' = live_objs st \<union> run_objs i (nat n) st' \<and>
     ObjPool_Free p n st' = Inr st'' \<and> pool_inv f st'' \<and> live_objs st'' = live_objs st"
  using alloc_free_cycle [OF assms] .

abbreviation two_objs :: objpool where
  "two_objs \<equiv> snd (ObjPool_Init (newobj (\<lambda>k. 100 + k)) 2 ObjPool_new)"

lemma two_objs_vec:
  "two_objs = \<lparr>m_nMax = 2, m_vecPMem = [\<lparr>tn_nIndex = 0, tn_nFlag = 0, tn_pData = 100\<rparr>, \<lparr>tn_nIndex = 1, tn_nFlag = 0, tn_pData = 101\<rparr>],
     nCalls = 2\<rparr>"
  by (simp add: ObjPool_Init_def UpdateRecord_def resize_def newobj_def ObjPool_new_def TNode_new_def numeral_2_eq_2)

lemma two_objs_inv: "pool_inv (\<lambda>k. 100 + k) two_objs"
proof -
  have "(101 :: nat) = 100 + 1" "(100 :: nat) = 100 + 0" by simp_all
  then show ?thesis unfolding two_objs_vec pool_inv_def by (auto simp: image_iff)
qed

lemma two_objs_find:
  "ObjPool_FindAvailable 0 (m_vecPMem two_objs) 1 = 0" "ObjPool_FindAvailable 0 (m_vecPMem two_objs) 5 = -1"
  by (simp_all add: two_objs_vec ObjPool_FindAvailable_def pool_loop.simps index_from_def)

theorem ObjPool_Alloc_Free_witness:
  "\<exists>p st' st''. ObjPool_Alloc (newobj (\<lambda>k. 100 + k)) 2 two_objs = Inr (p, st') \<and> p \<noteq> 0 \<and>
     ObjPool_Free p 2 st' = Inr st'' \<and> live_objs st'' = live_objs two_objs"
proof -
  have "m_nMax two_objs = 2" "0 \<notin> range (\<lambda>k :: nat. 100 + k)" by (auto simp: two_objs_vec)
  with ObjPool_Alloc_Free [OF two_objs_inv, of 2] show ?thesis
    by (simp add: inj_def) blast
qed

text \<open>
  Observation: the lock of \<open>Alloc\<close> covers the search but not the marking. If a second thread
  takes the lock between the two halves of the first thread's call, it finds the same index and
  is given the same object.
\<close>

theorem ObjPool_Alloc_race:
  assumes "alloc_locked io n st = Inr (i, p, st1)" "i \<noteq> -1"
  shows "alloc_locked io n st1 = Inr (i, p, st1)"
  using assms by (auto simp: alloc_locked_def Let_def split: if_splits prod.splits bool.splits)

theorem ObjPool_Alloc_race_witness:
  "alloc_locked (newobj (\<lambda>k. 100 + k)) 1 two_objs = Inr (0, 100, two_objs) \<and>
   fst (projr (ObjPool_Alloc (newobj (\<lambda>k. 100 + k)) 1 two_objs)) = 100"
proof -
  have "alloc_locked (newobj (\<lambda>k. 100 + k)) 1 two_objs = Inr (0, 100, two_objs)"
    unfolding alloc_locked_def Let_def two_objs_find by (simp add: two_objs_vec)
  from ObjPool_Alloc_race [OF this] this show ?thesis by (simp add: ObjPool_Alloc_def)
qed

text \<open>
  Observation: growing is by one doubling of a 16-bit count. When no run is free and the request is larger than the doubled
  pool, or the pool has 32768 objects (the doubled count wraps to 0 and the vector is
  emptied, dropping every object in use), \<open>Alloc\<close> indexes the vector with -1.
\<close>

theorem ObjPool_Alloc_overflow:
  assumes inv: "pool_inv f st" and n: "0 < n" and full: "ObjPool_FindAvailable 0 (m_vecPMem st) n = -1" and f: "inj f"
    and big: "m_nMax st = 32768 \<or> m_nMax st < 32768 \<and> 2 * m_nMax st < nat n"
  shows "ObjPool_Alloc (newobj f) n st = Inl Undefined \<and>
     (m_nMax st = 32768 \<longrightarrow> m_vecPMem (snd (expand (newobj f) st)) = [])"
proof -
  have short: "ObjPool_FindAvailable 0 v n = -1" if "length v < nat n" for v
    using obj_run.found_bound [OF n, of v] that by linarith
  have len: "length (m_vecPMem st) = m_nMax st" using inv by (simp add: pool_inv_def)
  show ?thesis
  proof (cases "m_nMax st = 32768")
    case True
    then have e: "expand (newobj f) st = (True, st\<lparr>m_nMax := 0, m_vecPMem := []\<rparr>)"
      by (simp add: expand_def UpdateRecord_def resize_def len)
    with short [of "[]"] n full show ?thesis by (simp add: ObjPool_Alloc_def alloc_locked_def)
  next
    case False
    with big have mx: "m_nMax st < 32768" "2 * m_nMax st < nat n" by auto
    obtain st' where "expand (newobj f) st = (True, st')" "pool_inv f st'" "m_nMax st' = 2 * m_nMax st"
      using expand_new [OF inv mx(1) f] by blast
    with short [of "m_vecPMem st'"] mx(2) full False show ?thesis
      by (simp add: ObjPool_Alloc_def alloc_locked_def pool_inv_def)
  qed
qed

theorem ObjPool_Alloc_overflow_witness:
  "ObjPool_Alloc (newobj (\<lambda>k. 100 + k)) 5 two_objs = Inl Undefined"
proof -
  have "m_nMax two_objs = 2" by (simp add: two_objs_vec)
  with ObjPool_Alloc_overflow [OF two_objs_inv _ two_objs_find(2)] show ?thesis by (simp add: inj_def)
qed

end
