(* ===== verification/MemPool.thy ===== *)
theory MemPool
  imports XPrelude
begin

text \<open>
  \<open>Mem/MemPool.cpp\<close>: a pool of nodes in four size classes. A node is unused, used, or cut into chips, which are nodes again.
  Pointers to nodes (in the record of used addresses and in the sets of free chips) are paths: the key of the vector in
  \<open>m_pools\<close>, the generation of that vector, the position and the keys of the chips. Appending to a
  vector may move its elements, so it starts a new generation, and using a pointer of an older one is
  undefined. \<open>AllocFromSys\<close> is the parameter \<open>sys\<close>, the address of the \<open>k\<close>-th block obtained. The field \<open>pNext\<close> is never read and left out.
\<close>

datatype UseFor = UF_NONE | UF_USE | UF_ALLOC

datatype MemNode = MemNode (nLen: nat) (eStatus: UseFor) (pStart: addr) (mChips: "(nat \<times> MemNode) list")

record nodeptr =
  np_key :: nat
  np_gen :: nat
  np_idx :: nat
  np_chips :: "nat list"

record mempool =
  m_poolset :: "(nat, nodeptr list) omap"
  m_pools :: "(nat, nat \<times> MemNode list) omap"
  m_record :: "(addr, nodeptr) omap"
  m_OriginalBuffer :: "(addr \<times> nat) list"
  mp_mem :: bmem

definition DEFAULTBLOCK :: nat where "DEFAULTBLOCK = 64"
definition HALFPAGESIZE :: nat where "HALFPAGESIZE = DEFAULTBLOCK div 2"
definition DEFAULTCOUNT :: nat where "DEFAULTCOUNT = 3"

definition blockType :: "nat list" where
  "blockType = [4, 8, 16, 32]"

definition MemPool_new :: "bmem \<Rightarrow> mempool" where
  "MemPool_new mem = \<lparr>m_poolset = [], m_pools = [], m_record = [], m_OriginalBuffer = [], mp_mem = mem\<rparr>"

definition GetCorrectLessChipLen :: "nat \<Rightarrow> nat" where
  "GetCorrectLessChipLen len =
     (if DEFAULTBLOCK < len \<and> len - len div DEFAULTBLOCK * DEFAULTBLOCK \<noteq> 0
      then (len div DEFAULTBLOCK + 1) * DEFAULTBLOCK else len)"

subsection \<open>Nodes\<close>

primrec set_node :: "UseFor \<Rightarrow> MemNode \<Rightarrow> MemNode" where
  "set_node s (MemNode l s0 p cs) = MemNode l s p cs"

primrec GetRemain :: "MemNode \<Rightarrow> nat" where
  "GetRemain (MemNode l s p cs) =
     (case s of UF_USE \<Rightarrow> 0 | UF_NONE \<Rightarrow> l | UF_ALLOC \<Rightarrow> sum_list (map snd (map (map_prod id GetRemain) cs)))"

text \<open>The node at the end of a path of chips, and its update.\<close>

fun node_at :: "nat list \<Rightarrow> MemNode \<Rightarrow> MemNode option" where
  "node_at [] n = Some n"
| "node_at (k # ks) n = (case map_of (mChips n) k of None \<Rightarrow> None | Some m \<Rightarrow> node_at ks m)"

fun upd_at :: "nat list \<Rightarrow> (MemNode \<Rightarrow> MemNode) \<Rightarrow> MemNode \<Rightarrow> MemNode" where
  "upd_at [] f n = f n"
| "upd_at (k # ks) f n =
     MemNode (nLen n) (eStatus n) (pStart n) (map (\<lambda>(j, m). if j = k then (j, upd_at ks f m) else (j, m)) (mChips n))"

definition deref :: "nodeptr \<Rightarrow> mempool \<Rightarrow> MemNode option" where
  "deref p st =
     (case map_of (m_pools st) (np_key p) of
        None \<Rightarrow> None
      | Some (g, ns) \<Rightarrow> if g = np_gen p \<and> np_idx p < length ns then node_at (np_chips p) (ns ! np_idx p) else None)"

definition upd_node :: "nodeptr \<Rightarrow> (MemNode \<Rightarrow> MemNode) \<Rightarrow> mempool \<Rightarrow> mempool" where
  "upd_node p f st =
     (case map_of (m_pools st) (np_key p) of
        None \<Rightarrow> st
      | Some (g, ns) \<Rightarrow> st\<lparr>m_pools := massign (np_key p) (g, ns[np_idx p := upd_at (np_chips p) f (ns ! np_idx p)]) (m_pools st)\<rparr>)"

definition push_free :: "nat \<Rightarrow> nodeptr \<Rightarrow> mempool \<Rightarrow> mempool" where
  "push_free len p st =
     st\<lparr>m_poolset := (case map_of (m_poolset st) len of
                        Some ps \<Rightarrow> massign len (ps @ [p]) (m_poolset st)
                      | None \<Rightarrow> minsert len [p] (m_poolset st))\<rparr>"

text \<open>
  \<open>GetAddress\<close> on a node of length \<open>l\<close> at address \<open>a\<close>: a longer node is cut in two chips, which the map keeps by length. Both are
  inserted, so that the second is dropped if it has the length of the first, and the pointer to the free chip is looked up by its length.
\<close>

definition chip_ptr :: "nodeptr \<Rightarrow> nat \<Rightarrow> nodeptr" where
  "chip_ptr p k = p\<lparr>np_chips := np_chips p @ [k]\<rparr>"

definition GetAddress :: "nodeptr \<Rightarrow> nat \<Rightarrow> mempool \<Rightarrow> xerror + (addr \<times> mempool)" where
  "GetAddress p len st =
     (case deref p st of
        None \<Rightarrow> Inl Undefined
      | Some (MemNode l s a cs) \<Rightarrow>
          if len < l then
            (let cs1 = minsert len (MemNode len UF_USE a []) cs;
                 cs2 = minsert (l - len) (MemNode (l - len) UF_NONE (a + len) []) cs1;
                 st1 = upd_node p (\<lambda>_. MemNode l UF_ALLOC a cs2) st;
                 st2 = st1\<lparr>m_record := minsert a (chip_ptr p len) (m_record st1)\<rparr>
             in Inr (a, push_free (l - len) (chip_ptr p (l - len)) st2))
          else if l = len then
            Inr (a, (upd_node p (set_node UF_USE) st)\<lparr>m_record := minsert a p (m_record st)\<rparr>)
          else Inr (0, st))"

text \<open>\<open>GetAvailableAddress\<close>: the loop over the chips of a cut node returns in its first turn.\<close>

fun descend :: "MemNode \<Rightarrow> nat list option" where
  "descend (MemNode l s a cs) =
     (case s of
        UF_USE \<Rightarrow> None
      | UF_NONE \<Rightarrow> Some []
      | UF_ALLOC \<Rightarrow> (case cs of [] \<Rightarrow> None | (k, m) # _ \<Rightarrow> map_option (Cons k) (descend m)))"

definition GetAvailableAddress :: "nodeptr \<Rightarrow> nat \<Rightarrow> mempool \<Rightarrow> xerror + (addr \<times> mempool)" where
  "GetAvailableAddress p len st =
     (case deref p st of
        None \<Rightarrow> Inl Undefined
      | Some n \<Rightarrow>
          (case descend n of
             None \<Rightarrow> Inr (0, st)
           | Some ks \<Rightarrow> GetAddress (p\<lparr>np_chips := np_chips p @ ks\<rparr>) len st))"

definition GetCapacityByType :: "nat \<Rightarrow> mempool \<Rightarrow> nat" where
  "GetCapacityByType t st = (case map_of (m_pools st) t of None \<Rightarrow> 0 | Some (g, ns) \<Rightarrow> sum_list (map nLen ns))"

definition GetRemainByType :: "nat \<Rightarrow> mempool \<Rightarrow> nat" where
  "GetRemainByType t st = (case map_of (m_pools st) t of None \<Rightarrow> 0 | Some (g, ns) \<Rightarrow> sum_list (map GetRemain ns))"

subsection \<open>Growing\<close>

definition add_nodes :: "nat \<Rightarrow> MemNode list \<Rightarrow> mempool \<Rightarrow> mempool" where
  "add_nodes k ns st =
     st\<lparr>m_pools := (case map_of (m_pools st) k of
                      None \<Rightarrow> minsert k (0, ns) (m_pools st)
                    | Some (g, old) \<Rightarrow> massign k (Suc g, old @ ns) (m_pools st))\<rparr>"

text \<open>One turn of the loop over the size classes \<open>ts\<close> from class number \<open>i\<close> on: \<open>off\<close> is \<open>nOffset\<close>, \<open>us\<close> is \<open>useSize\<close>.\<close>

fun class_loop :: "addr \<Rightarrow> nat \<Rightarrow> bool \<Rightarrow> nat \<Rightarrow> nat list \<Rightarrow> nat \<Rightarrow> nat \<Rightarrow> nat \<Rightarrow> mempool \<Rightarrow> nat \<times> nat \<times> nat \<times> mempool" where
  "class_loop p len bInit i [] off us nFull st = (off, us, nFull, st)"
| "class_loop p len bInit i (t # ts) off us0 nFull st =
     (let us = (if i = 0 \<or> i = 1 then HALFPAGESIZE else DEFAULTBLOCK)
      in if \<not> bInit \<and> GetCapacityByType t st div 10 * 3 < GetRemainByType t st
         then class_loop p len bInit (Suc i) ts off us (Suc nFull) st
         else if off \<le> len
         then class_loop p len bInit (Suc i) ts (off + us) us nFull
                (add_nodes t (map (\<lambda>j. MemNode t UF_NONE (p + off + j * t) []) [0..<us div t]) st)
         else class_loop p len bInit (Suc i) ts off us nFull st)"

text \<open>The outer loop, with fuel; \<open>sizeof\<close> of the number of classes is the size of a \<open>size_t\<close>.\<close>

fun pools_loop :: "nat \<Rightarrow> addr \<Rightarrow> nat \<Rightarrow> bool \<Rightarrow> nat \<Rightarrow> nat \<Rightarrow> mempool \<Rightarrow> (nat \<times> nat \<times> mempool) option" where
  "pools_loop 0 p len bInit off us st = None"
| "pools_loop (Suc f) p len bInit off us st =
     (let (off', us', nFull, st') = class_loop p len bInit 0 blockType off us 0 st;
          bInit' = (bInit \<or> nFull = 8)
      in if off' \<le> len then pools_loop f p len bInit' off' us' st' else Some (off', us', st'))"

definition UpdatePools :: "nat \<Rightarrow> addr \<Rightarrow> nat \<Rightarrow> bool \<Rightarrow> mempool \<Rightarrow> mempool option" where
  "UpdatePools fuel p len bInit st =
     (case pools_loop fuel p len bInit 0 0 st of
        None \<Rightarrow> None
      | Some (off, us, st') \<Rightarrow>
          if len < off \<and> off - us < len
          then Some (add_nodes (len - (off - us)) [MemNode (len - (off - us)) UF_NONE (p + (off - us)) []] st')
          else Some st')"

definition sys_block :: "(nat \<Rightarrow> addr) \<Rightarrow> nat \<Rightarrow> mempool \<Rightarrow> addr \<times> mempool" where
  "sys_block sys len st =
     (let a = sys (length (m_OriginalBuffer st))
      in (a, st\<lparr>m_OriginalBuffer := m_OriginalBuffer st @ [(a, len)], mp_mem := mset0 (mp_mem st) a len\<rparr>))"

definition MemPool_Init :: "nat \<Rightarrow> (nat \<Rightarrow> addr) \<Rightarrow> mempool \<Rightarrow> mempool option" where
  "MemPool_Init fuel sys st =
     (let len = DEFAULTBLOCK * DEFAULTCOUNT; (a, st1) = sys_block sys len st in UpdatePools fuel a len True st1)"

text \<open>The destructor: the blocks given back to the system, in order.\<close>

definition MemPool_destroy :: "mempool \<Rightarrow> addr list" where
  "MemPool_destroy st = map fst (m_OriginalBuffer st)"

definition mp_expand :: "nat \<Rightarrow> (nat \<Rightarrow> addr) \<Rightarrow> mempool \<Rightarrow> mempool option" where
  "mp_expand fuel sys st =
     (let len = DEFAULTBLOCK * DEFAULTCOUNT; (a, st1) = sys_block sys len st in UpdatePools fuel a len False st1)"

subsection \<open>Allocation\<close>

text \<open>A chip of exactly the wanted length.\<close>

definition alloc_exact :: "nat \<Rightarrow> nodeptr list \<Rightarrow> mempool \<Rightarrow> xerror + (addr \<times> mempool)" where
  "alloc_exact len ps st =
     (if ps = [] then Inl Undefined
      else case deref (last ps) st of
        None \<Rightarrow> Inl Undefined
      | Some n \<Rightarrow>
          Inr (pStart n, (upd_node (last ps) (set_node UF_USE) st)
                 \<lparr>m_record := minsert (pStart n) (last ps) (m_record st), m_poolset := massign len (butlast ps) (m_poolset st)\<rparr>))"

text \<open>The free chips of the sets \<open>ms\<close>, set by set; \<open>i\<close> is the position in the set with key \<open>k\<close>.\<close>

fun chip_loop :: "nat \<Rightarrow> nat \<Rightarrow> nat \<Rightarrow> nodeptr list \<Rightarrow> mempool \<Rightarrow> xerror + (addr \<times> mempool)" where
  "chip_loop len k i [] st = Inr (0, st)"
| "chip_loop len k i (p # ps) st =
     (case GetAvailableAddress p len st of
        Inl e \<Rightarrow> Inl e
      | Inr (a, st') \<Rightarrow>
          if a \<noteq> 0 then
            (case map_of (m_poolset st') k of
               None \<Rightarrow> Inr (a, st')
             | Some v \<Rightarrow> Inr (a, st'\<lparr>m_poolset := massign k (take i v @ drop (Suc i) v) (m_poolset st')\<rparr>))
          else chip_loop len k (Suc i) ps st')"

fun set_loop :: "nat \<Rightarrow> (nat, nodeptr list) omap \<Rightarrow> mempool \<Rightarrow> xerror + (addr \<times> mempool)" where
  "set_loop len [] st = Inr (0, st)"
| "set_loop len ((k, ps) # ms) st =
     (case chip_loop len k 0 ps st of
        Inl e \<Rightarrow> Inl e
      | Inr (a, st') \<Rightarrow> if a \<noteq> 0 then Inr (a, st') else set_loop len ms st')"

text \<open>From the first key that is at least \<open>len\<close>; if there is none, from the key 0 if there is one.\<close>

definition from_key :: "nat \<Rightarrow> (nat, 'v) omap \<Rightarrow> (nat, 'v) omap" where
  "from_key len m =
     (let split = (case List.find (\<lambda>p. len \<le> fst p) m of None \<Rightarrow> 0 | Some p \<Rightarrow> fst p)
      in if map_of m split = None then [] else dropWhile (\<lambda>p. fst p < split) m)"

text \<open>The nodes of a vector, and the vectors of \<open>m_pools\<close>.\<close>

fun node_loop :: "nat \<Rightarrow> nat \<Rightarrow> nat \<Rightarrow> nat \<Rightarrow> nat \<Rightarrow> mempool \<Rightarrow> xerror + (addr \<times> mempool)" where
  "node_loop len k g i 0 st = Inr (0, st)"
| "node_loop len k g i (Suc r) st =
     (case GetAvailableAddress \<lparr>np_key = k, np_gen = g, np_idx = i, np_chips = []\<rparr> len st of
        Inl e \<Rightarrow> Inl e
      | Inr (a, st') \<Rightarrow> if a \<noteq> 0 then Inr (a, st') else node_loop len k g (Suc i) r st')"

fun pool_scan :: "nat \<Rightarrow> (nat, nat \<times> MemNode list) omap \<Rightarrow> mempool \<Rightarrow> xerror + (addr \<times> mempool)" where
  "pool_scan len [] st = Inr (0, st)"
| "pool_scan len ((k, g, ns) # ms) st =
     (case node_loop len k g 0 (length ns) st of
        Inl e \<Rightarrow> Inl e
      | Inr (a, st') \<Rightarrow> if a \<noteq> 0 then Inr (a, st') else pool_scan len ms st')"

text \<open>A block of its own for a long request.\<close>

definition own_block :: "(nat \<Rightarrow> addr) \<Rightarrow> nat \<Rightarrow> mempool \<Rightarrow> mempool" where
  "own_block sys len st =
     (if 32 < len \<and> map_of (m_pools st) len = None then
        (let (a, st1) = sys_block sys len st in add_nodes len [MemNode len UF_NONE a []] st1)
      else st)"

text \<open>After growing: the first node of the class with enough left.\<close>

definition alloc_grown :: "nat \<Rightarrow> mempool \<Rightarrow> xerror + (addr \<times> mempool)" where
  "alloc_grown len st =
     (case map_of (m_pools st) len of
        None \<Rightarrow> Inl Undefined
      | Some (g, ns) \<Rightarrow>
          (case List.find (\<lambda>(i, n). len \<le> GetRemain n) (enumerate 0 ns) of
             None \<Rightarrow> Inr (0, st)
           | Some (i, n) \<Rightarrow> GetAddress \<lparr>np_key = len, np_gen = g, np_idx = i, np_chips = []\<rparr> len st))"

definition AllocImpl :: "nat \<Rightarrow> (nat \<Rightarrow> addr) \<Rightarrow> nat \<Rightarrow> mempool \<Rightarrow> (xerror + (addr \<times> mempool)) option" where
  "AllocImpl fuel sys len0 st =
     (let len = GetCorrectLessChipLen len0
      in case map_of (m_poolset st) len of
           Some ps \<Rightarrow> Some (alloc_exact len ps st)
         | None \<Rightarrow>
             (case set_loop len (from_key len (m_poolset st)) st of
                Inl e \<Rightarrow> Some (Inl e)
              | Inr (a, st1) \<Rightarrow>
                  (let st2 = own_block sys len st1
                   in if a \<noteq> 0 then Some (Inr (a, st2))
                      else case pool_scan len (from_key len (m_pools st2)) st2 of
                        Inl e \<Rightarrow> Some (Inl e)
                      | Inr (b, st3) \<Rightarrow>
                          if b \<noteq> 0 then Some (Inr (b, st3))
                          else case mp_expand fuel sys st3 of
                            None \<Rightarrow> None
                          | Some st4 \<Rightarrow> Some (alloc_grown len st4))))"

definition FreeImpl :: "addr \<Rightarrow> mempool \<Rightarrow> xerror + mempool" where
  "FreeImpl p st =
     (case map_of (m_record st) p of
        None \<Rightarrow> Inl (Throw ''system error'')
      | Some np \<Rightarrow>
          (case deref np st of
             None \<Rightarrow> Inl Undefined
           | Some n \<Rightarrow>
               Inr (let st1 = push_free (nLen n) np (upd_node np (set_node UF_NONE) st)
                    in st1\<lparr>m_record := merase p (m_record st1)\<rparr>)))"

definition Realloc :: "nat \<Rightarrow> (nat \<Rightarrow> addr) \<Rightarrow> addr \<Rightarrow> nat \<Rightarrow> mempool \<Rightarrow> (xerror + (addr \<times> mempool)) option" where
  "Realloc fuel sys p newLen st =
     (case map_of (m_record st) p of
        None \<Rightarrow> Some (Inl Undefined)
      | Some np \<Rightarrow>
          (case deref np st of
             None \<Rightarrow> Some (Inl Undefined)
           | Some n \<Rightarrow>
               if nLen n = newLen then Some (Inr (p, st))
               else case AllocImpl fuel sys newLen st of
                 None \<Rightarrow> None
               | Some (Inl e) \<Rightarrow> Some (Inl e)
               | Some (Inr (d, st1)) \<Rightarrow>
                   if d = 0 then Some (Inr (d, st1))
                   else
                     let st2 = st1\<lparr>mp_mem := put_bytes (mp_mem st1) d (map (mp_mem st1) [p..<p + nLen n])\<rparr>
                     in case deref np st2 of
                          None \<Rightarrow> Some (Inl Undefined)
                        | Some n' \<Rightarrow>
                            (case FreeImpl p (upd_node np (set_node UF_NONE) st2) of
                               Inl e \<Rightarrow> Some (Inl e)
                             | Inr st3 \<Rightarrow> Some (Inr (d, st3)))))"

definition MemPool_Capacity :: "mempool \<Rightarrow> nat" where
  "MemPool_Capacity st = sum_list (map snd (m_OriginalBuffer st))"

definition GetTotalUse :: "mempool \<Rightarrow> xerror + nat" where
  "GetTotalUse st =
     (if \<exists>(a, p) \<in> set (m_record st). deref p st = None then Inl Undefined
      else Inr (sum_list (map (\<lambda>(a, p). nLen (the (deref p st))) (m_record st))))"

subsection \<open>Merging\<close>

text \<open>
  \<open>MergeFree\<close> on the node at \<open>p\<close>: the result, the new node and the new sets of free chips. A merged node takes its chips out of
  the sets; a chip that is in no set makes the iterator invalid.
\<close>

definition drop_free :: "nat \<Rightarrow> nodeptr \<Rightarrow> (nat, nodeptr list) omap \<Rightarrow> xerror + (nat, nodeptr list) omap" where
  "drop_free len p ps =
     (case map_of ps len of
        None \<Rightarrow> Inl Undefined
      | Some v \<Rightarrow> if p \<in> set v then Inr (massign len (remove1 p v) ps) else Inl Undefined)"

fun drop_chips :: "nodeptr \<Rightarrow> (nat \<times> MemNode) list \<Rightarrow> (nat, nodeptr list) omap \<Rightarrow> xerror + (nat, nodeptr list) omap" where
  "drop_chips p [] ps = Inr ps"
| "drop_chips p ((k, m) # cs) ps =
     (case drop_free (nLen m) (chip_ptr p k) ps of Inl e \<Rightarrow> Inl e | Inr ps' \<Rightarrow> drop_chips p cs ps')"

fun MergeFree :: "nodeptr \<Rightarrow> MemNode \<Rightarrow> (nat, nodeptr list) omap \<Rightarrow> xerror + (bool \<times> MemNode \<times> (nat, nodeptr list) omap)"
and merge_chips :: "nodeptr \<Rightarrow> (nat \<times> MemNode) list \<Rightarrow> (nat, nodeptr list) omap \<Rightarrow> xerror + (bool \<times> (nat \<times> MemNode) list \<times> (nat, nodeptr list) omap)" where
  "MergeFree p (MemNode l s a cs) ps =
     (case s of
        UF_USE \<Rightarrow> Inr (False, MemNode l s a cs, ps)
      | UF_NONE \<Rightarrow> Inr (True, MemNode l s a cs, ps)
      | UF_ALLOC \<Rightarrow>
          (case merge_chips p cs ps of
             Inl e \<Rightarrow> Inl e
           | Inr (ok, cs', ps') \<Rightarrow>
               if ok then (case drop_chips p cs' ps' of Inl e \<Rightarrow> Inl e | Inr ps2 \<Rightarrow> Inr (True, MemNode l UF_NONE a [], ps2))
               else Inr (False, MemNode l s a cs', ps')))"
| "merge_chips p [] ps = Inr (True, [], ps)"
| "merge_chips p ((k, m) # cs) ps =
     (case MergeFree (chip_ptr p k) m ps of
        Inl e \<Rightarrow> Inl e
      | Inr (b, m', ps1) \<Rightarrow>
          (case merge_chips p cs ps1 of
             Inl e \<Rightarrow> Inl e
           | Inr (c, cs', ps2) \<Rightarrow> Inr (b \<and> c, (k, m') # cs', ps2)))"

fun merge_vec :: "nat \<Rightarrow> nat \<Rightarrow> nat \<Rightarrow> MemNode list \<Rightarrow> (nat, nodeptr list) omap \<Rightarrow> xerror + (MemNode list \<times> (nat, nodeptr list) omap)" where
  "merge_vec k g i [] ps = Inr ([], ps)"
| "merge_vec k g i (n # ns) ps =
     (case MergeFree \<lparr>np_key = k, np_gen = g, np_idx = i, np_chips = []\<rparr> n ps of
        Inl e \<Rightarrow> Inl e
      | Inr (b, n', ps1) \<Rightarrow>
          (case merge_vec k g (Suc i) ns ps1 of Inl e \<Rightarrow> Inl e | Inr (ns', ps2) \<Rightarrow> Inr (n' # ns', ps2)))"

fun merge_pools :: "(nat, nat \<times> MemNode list) omap \<Rightarrow> (nat, nodeptr list) omap \<Rightarrow> xerror + ((nat, nat \<times> MemNode list) omap \<times> (nat, nodeptr list) omap)" where
  "merge_pools [] ps = Inr ([], ps)"
| "merge_pools ((k, g, ns) # ms) ps =
     (case merge_vec k g 0 ns ps of
        Inl e \<Rightarrow> Inl e
      | Inr (ns', ps1) \<Rightarrow> (case merge_pools ms ps1 of Inl e \<Rightarrow> Inl e | Inr (ms', ps2) \<Rightarrow> Inr ((k, g, ns') # ms', ps2)))"

text \<open>One round of the merging thread.\<close>

definition MemPool_run :: "mempool \<Rightarrow> xerror + mempool" where
  "MemPool_run st =
     (case merge_pools (m_pools st) (m_poolset st) of
        Inl e \<Rightarrow> Inl e
      | Inr (ms, ps) \<Rightarrow> Inr (st\<lparr>m_pools := ms, m_poolset := ps\<rparr>))"

subsection \<open>Nodes behind pointers\<close>

lemma node_at_upd: "node_at ks (upd_at ks f n) = map_option f (node_at ks n)"
proof (induction ks arbitrary: n)
  case (Cons k ks)
  have "map_of (map (\<lambda>(j, m). if j = k then (j, upd_at ks f m) else (j, m)) cs) k = map_option (upd_at ks f) (map_of cs k)" for cs
    by (induction cs) auto
  with Cons show ?case by (simp split: option.splits)
qed simp

lemma deref_upd:
  assumes "msorted (m_pools st)" "deref p st = Some n"
  shows "deref p (upd_node p f st) = Some (f n)"
proof -
  obtain g ns where m: "map_of (m_pools st) (np_key p) = Some (g, ns)" "g = np_gen p" "np_idx p < length ns" "node_at (np_chips p) (ns ! np_idx p) = Some n"
    using assms(2) by (auto simp: deref_def split: option.splits if_splits)
  then show ?thesis using assms(1) by (simp add: deref_def upd_node_def map_of_massign node_at_upd)
qed

lemma upd_node_fields [simp]:
  "m_poolset (upd_node p f st) = m_poolset st" "m_record (upd_node p f st) = m_record st"
  "m_OriginalBuffer (upd_node p f st) = m_OriginalBuffer st" "mp_mem (upd_node p f st) = mp_mem st"
  by (simp_all add: upd_node_def split: option.splits)

lemma upd_node_sorted: "msorted (m_pools st) \<Longrightarrow> msorted (m_pools (upd_node p f st))"
  by (simp add: upd_node_def msorted_massign split: option.splits)

lemma deref_pools: "m_pools st' = m_pools st \<Longrightarrow> deref p st' = deref p st"
  by (simp add: deref_def)

lemma push_free_fields [simp]:
  "m_pools (push_free l p st) = m_pools st" "m_record (push_free l p st) = m_record st"
  "m_OriginalBuffer (push_free l p st) = m_OriginalBuffer st" "mp_mem (push_free l p st) = mp_mem st"
  by (simp_all add: push_free_def)

lemma push_free_at:
  assumes "msorted (m_poolset st)"
  shows "map_of (m_poolset (push_free l p st)) l = Some ((case map_of (m_poolset st) l of Some ps \<Rightarrow> ps | None \<Rightarrow> []) @ [p])"
  using assms by (simp add: push_free_def map_of_massign map_of_minsert split: option.splits)

lemma alloc_exact_ok:
  assumes "ps \<noteq> []" "deref (last ps) st = Some n"
  shows "alloc_exact len ps st = Inr (pStart n, (upd_node (last ps) (set_node UF_USE) st)
     \<lparr>m_record := minsert (pStart n) (last ps) (m_record st), m_poolset := massign len (butlast ps) (m_poolset st)\<rparr>)"
  using assms by (simp add: alloc_exact_def)

lemma AllocImpl_exact:
  assumes "GetCorrectLessChipLen len = len" "map_of (m_poolset st) len = Some ps"
  shows "AllocImpl fuel sys len st = Some (alloc_exact len ps st)"
  unfolding AllocImpl_def Let_def assms by simp

subsection \<open>Free and allocate\<close>

lemma node_fields_set [simp]: "nLen (set_node s n) = nLen n" "pStart (set_node s n) = pStart n" "eStatus (set_node s n) = s"
  "set_node s (set_node t n) = set_node s n"
  by (cases n; simp)+

lemma FreeImpl_ok:
  assumes "map_of (m_record st) a = Some p" "deref p st = Some n"
  shows "FreeImpl a st = Inr ((push_free (nLen n) p (upd_node p (set_node UF_NONE) st))\<lparr>m_record := merase a (m_record st)\<rparr>)"
  using assms by (simp add: FreeImpl_def Let_def)

text \<open>
  Property C22. Freeing an address and asking for the length of its node gives the address again. In between the address is
  unrecorded and its node unused; afterwards the record is what it was, the node is used, and the set of free nodes of that
  length has the nodes it had before.
\<close>
theorem free_alloc_roundtrip:
  assumes sorted: "msorted (m_pools st)" "msorted (m_poolset st)" "msorted (m_record st)"
    and rec: "map_of (m_record st) a = Some p" "deref p st = Some n" "pStart n = a"
    and len: "GetCorrectLessChipLen (nLen n) = nLen n"
  shows "\<exists>st1 st2. FreeImpl a st = Inr st1 \<and> map_of (m_record st1) a = None \<and> deref p st1 = Some (set_node UF_NONE n)
    \<and> AllocImpl fuel sys (nLen n) st1 = Some (Inr (a, st2)) \<and> map_of (m_record st2) = map_of (m_record st)
    \<and> deref p st2 = Some (set_node UF_USE n)
    \<and> map_of (m_poolset st2) (nLen n) = Some (case map_of (m_poolset st) (nLen n) of Some ps \<Rightarrow> ps | None \<Rightarrow> [])"
proof -
  define st1 where "st1 = (push_free (nLen n) p (upd_node p (set_node UF_NONE) st))\<lparr>m_record := merase a (m_record st)\<rparr>"
  define ps where "ps = (case map_of (m_poolset st) (nLen n) of Some ps \<Rightarrow> ps | None \<Rightarrow> [])"
  have free: "FreeImpl a st = Inr st1" using FreeImpl_ok [OF rec(1,2)] by (simp add: st1_def)
  have d1: "deref p st1 = Some (set_node UF_NONE n)"
    using deref_upd [OF sorted(1) rec(2), of "set_node UF_NONE"] by (simp add: st1_def deref_def)
  have s1: "msorted (m_pools st1)" using sorted(1) by (simp add: st1_def upd_node_sorted)
  have set1: "map_of (m_poolset st1) (nLen n) = Some (ps @ [p])"
    using push_free_at [of "upd_node p (set_node UF_NONE) st" "nLen n" p] sorted(2) by (simp add: st1_def ps_def)
  have ss1: "msorted (m_poolset st1)"
    using sorted(2) by (simp add: st1_def push_free_def msorted_massign msorted_minsert split: option.splits)
  have r1: "m_record st1 = merase a (m_record st)" by (simp add: st1_def)
  have no: "map_of (m_record st1) a = None" using sorted(3) by (simp add: r1 map_of_merase)
  define st2 where "st2 = (upd_node p (set_node UF_USE) st1)
     \<lparr>m_record := minsert a p (m_record st1), m_poolset := massign (nLen n) ps (m_poolset st1)\<rparr>"
  have "AllocImpl fuel sys (nLen n) st1 = Some (Inr (a, st2))"
    using AllocImpl_exact [OF len set1] alloc_exact_ok [of "ps @ [p]" st1 "set_node UF_NONE n" "nLen n"] d1 rec(3)
    by (simp add: st2_def)
  moreover have "map_of (m_record st2) = map_of (m_record st)"
    using sorted(3) rec(1) by (intro ext) (simp add: st2_def r1 map_of_minsert map_of_merase msorted_merase)
  moreover have "deref p st2 = Some (set_node UF_USE n)"
    using deref_upd [OF s1 d1, of "set_node UF_USE"] by (simp add: st2_def deref_def)
  moreover have "map_of (m_poolset st2) (nLen n) = Some ps" using ss1 by (simp add: st2_def map_of_massign)
  ultimately show ?thesis using free no d1 unfolding ps_def by blast
qed

subsection \<open>What a new pool holds\<close>

definition nodes_from :: "nat \<Rightarrow> addr \<Rightarrow> nat \<Rightarrow> MemNode list" where
  "nodes_from t a k = map (\<lambda>j. MemNode t UF_NONE (a + j * t) []) [0..<k]"

definition fresh_pools :: "addr \<Rightarrow> (nat, nat \<times> MemNode list) omap" where
  "fresh_pools a =
     [(4, 1, nodes_from 4 a 8 @ nodes_from 4 (a + 192) 8), (8, 0, nodes_from 8 (a + 32) 4),
      (16, 0, nodes_from 16 (a + 64) 4), (32, 1, nodes_from 32 (a + 128) 2 @ [MemNode 32 UF_NONE (a + 160) []])]"

lemmas pool_consts = DEFAULTBLOCK_def HALFPAGESIZE_def DEFAULTCOUNT_def blockType_def

lemma first_round:
  "class_loop a 192 True 0 blockType 0 0 0 \<lparr>m_poolset = [], m_pools = [], m_record = [], m_OriginalBuffer = ob, mp_mem = mem\<rparr> =
     (192, 64, 0, \<lparr>m_poolset = [], m_pools = [(4, 0, nodes_from 4 a 8), (8, 0, nodes_from 8 (a + 32) 4), (16, 0, nodes_from 16 (a + 64) 4),
        (32, 0, nodes_from 32 (a + 128) 2)], m_record = [], m_OriginalBuffer = ob, mp_mem = mem\<rparr>)"
  by (simp add: pool_consts add_nodes_def nodes_from_def Let_def)

lemma second_round:
  "class_loop a 192 True 0 blockType 192 64 0
     \<lparr>m_poolset = [], m_pools = [(4, g, ns), (8, ps2), (16, ps3), (32, ps4)], m_record = [], m_OriginalBuffer = ob, mp_mem = mem\<rparr> =
     (224, 64, 0, \<lparr>m_poolset = [], m_pools = [(4, Suc g, ns @ nodes_from 4 (a + 192) 8), (8, ps2), (16, ps3), (32, ps4)],
        m_record = [], m_OriginalBuffer = ob, mp_mem = mem\<rparr>)"
  by (simp add: pool_consts add_nodes_def nodes_from_def Let_def)

lemma Init_pools:
  "MemPool_Init (Suc (Suc f)) sys (MemPool_new mem) =
     Some \<lparr>m_poolset = [], m_pools = fresh_pools (sys 0), m_record = [], m_OriginalBuffer = [(sys 0, 192)], mp_mem = mset0 mem (sys 0) 192\<rparr>"
proof -
  have len: "DEFAULTBLOCK * DEFAULTCOUNT = 192" by (simp add: pool_consts)
  have "pools_loop (Suc (Suc f)) a 192 True 0 0 \<lparr>m_poolset = [], m_pools = [], m_record = [], m_OriginalBuffer = ob, mp_mem = m\<rparr> =
     Some (224, 64, \<lparr>m_poolset = [], m_pools = [(4, 1, nodes_from 4 a 8 @ nodes_from 4 (a + 192) 8), (8, 0, nodes_from 8 (a + 32) 4),
        (16, 0, nodes_from 16 (a + 64) 4), (32, 0, nodes_from 32 (a + 128) 2)], m_record = [], m_OriginalBuffer = ob, mp_mem = m\<rparr>)" for a ob m
    by (simp add: first_round second_round)
  then show ?thesis
    unfolding MemPool_Init_def MemPool_new_def len UpdatePools_def by (simp add: sys_block_def Let_def add_nodes_def fresh_pools_def)
qed

text \<open>
  Observation. A new pool needs two turns of the outer loop to cut its block of 192 bytes, and it cuts more than the
  block: the class of 4 has a node that starts where the block ends, and two nodes of the class of 32 are the same 32 bytes.
\<close>
theorem Init_overruns_block:
  "\<exists>st g ns g' ns'. MemPool_Init (Suc (Suc f)) sys (MemPool_new mem) = Some st \<and> m_OriginalBuffer st = [(sys 0, 192)]
    \<and> map_of (m_pools st) 4 = Some (g, ns) \<and> MemNode 4 UF_NONE (sys 0 + 192) [] \<in> set ns
    \<and> map_of (m_pools st) 32 = Some (g', ns') \<and> (\<exists>i j. i < j \<and> j < length ns' \<and> ns' ! i = ns' ! j)"
proof -
  have "MemNode 4 UF_NONE (sys 0 + 192) [] \<in> set (nodes_from 4 (sys 0) 8 @ nodes_from 4 (sys 0 + 192) 8)"
    by (force simp: nodes_from_def)
  moreover have "\<exists>i j. i < j \<and> j < length (nodes_from 32 (a + 128) 2 @ [n]) \<and> (nodes_from 32 (a + 128) 2 @ [n]) ! i = (nodes_from 32 (a + 128) 2 @ [n]) ! j"
    if "n = MemNode 32 UF_NONE (a + 160) []" for a n
    by (rule exI [of _ 1], rule exI [of _ 2]) (simp add: nodes_from_def that numeral_2_eq_2)
  ultimately show ?thesis by (simp add: Init_pools fresh_pools_def)
qed

subsection \<open>Growing a pool whose classes are not used up\<close>

definition class_full :: "mempool \<Rightarrow> nat \<Rightarrow> bool" where
  "class_full st t \<longleftrightarrow> GetCapacityByType t st div 10 * 3 < GetRemainByType t st"

lemma class_loop_full:
  "\<forall>t \<in> set ts. class_full st t \<Longrightarrow> \<exists>us'. class_loop p len False i ts off us k st = (off, us', k + length ts, st)"
proof (induction ts arbitrary: i us k)
  case (Cons t ts)
  define us1 where "us1 = (if i = 0 \<or> i = 1 then HALFPAGESIZE else DEFAULTBLOCK)"
  have "class_loop p len False i (t # ts) off us k st = class_loop p len False (Suc i) ts off us1 (Suc k) st"
    using Cons.prems by (simp add: class_full_def us1_def)
  then show ?case using Cons.IH [of "Suc i" us1 "Suc k"] Cons.prems by simp
qed simp

lemma pools_loop_full:
  assumes "\<forall>t \<in> set blockType. class_full st t" "off \<le> len"
  shows "pools_loop fuel p len False off us st = None"
proof (induction fuel arbitrary: us)
  case (Suc f)
  obtain us' where "class_loop p len False 0 blockType off us 0 st = (off, us', length blockType, st)"
    using class_loop_full [OF assms(1), of p len 0 off us 0] by auto
  then show ?case using Suc assms(2) by (simp add: blockType_def)
qed simp

text \<open>The state that a request of a length over 32 leaves, and the scan for the same length over it.\<close>

definition long_used :: "nat \<Rightarrow> (nat \<Rightarrow> addr) \<Rightarrow> bmem \<Rightarrow> mempool" where
  "long_used len sys mem =
     \<lparr>m_poolset = [], m_pools = fresh_pools (sys 0) @ [(len, 0, [MemNode len UF_USE (sys 1) []])],
      m_record = [(sys 1, \<lparr>np_key = len, np_gen = 0, np_idx = 0, np_chips = []\<rparr>)],
      m_OriginalBuffer = [(sys 0, 192), (sys 1, len)], mp_mem = mem\<rparr>"

lemma correct_small: "len \<le> 64 \<Longrightarrow> GetCorrectLessChipLen len = len"
  by (simp add: GetCorrectLessChipLen_def DEFAULTBLOCK_def)

lemma from_key_long:
  assumes "32 < len"
  shows "from_key len (fresh_pools a @ [(len, v)]) = [(len, v)]" "map_of (fresh_pools a @ [(len, v)]) len = Some v"
    "map_of (fresh_pools a) len = None" "minsert len v (fresh_pools a) = fresh_pools a @ [(len, v)]"
    "massign len w (fresh_pools a @ [(len, v)]) = fresh_pools a @ [(len, w)]"
  using assms by (simp_all add: from_key_def fresh_pools_def)

lemma long_first:
  assumes "32 < len" "len \<le> 64" "sys 1 \<noteq> 0"
  shows "AllocImpl f sys len \<lparr>m_poolset = [], m_pools = fresh_pools (sys 0), m_record = [], m_OriginalBuffer = [(sys 0, 192)], mp_mem = mem\<rparr> =
     Some (Inr (sys 1, long_used len sys (mset0 mem (sys 1) len)))"
proof -
  define st0 where "st0 = \<lparr>m_poolset = [], m_pools = fresh_pools (sys 0), m_record = [], m_OriginalBuffer = [(sys 0, 192)], mp_mem = mem\<rparr>"
  define st2 where "st2 = \<lparr>m_poolset = [], m_pools = fresh_pools (sys 0) @ [(len, 0, [MemNode len UF_NONE (sys 1) []])],
      m_record = [], m_OriginalBuffer = [(sys 0, 192), (sys 1, len)], mp_mem = mset0 mem (sys 1) len\<rparr>"
  have own: "own_block sys len st0 = st2" and set0: "m_poolset st0 = []"
    using assms by (simp_all add: st0_def st2_def own_block_def sys_block_def add_nodes_def from_key_long Let_def)
  have pools: "m_pools st2 = fresh_pools (sys 0) @ [(len, 0, [MemNode len UF_NONE (sys 1) []])]" by (simp add: st2_def)
  have look: "map_of (m_pools st2) len = Some (0, [MemNode len UF_NONE (sys 1) []])"
    unfolding pools by (rule from_key_long(2) [OF assms(1)])
  have "GetAvailableAddress \<lparr>np_key = len, np_gen = 0, np_idx = 0, np_chips = []\<rparr> len st2 = Inr (sys 1, long_used len sys (mset0 mem (sys 1) len))"
    by (simp add: GetAvailableAddress_def GetAddress_def deref_def upd_node_def look)
       (simp add: st2_def long_used_def from_key_long(5) [OF assms(1)])
  then have "pool_scan len (from_key len (m_pools st2)) st2 = Inr (sys 1, long_used len sys (mset0 mem (sys 1) len))"
    unfolding pools from_key_long(1) [OF assms(1)] using assms(3) by simp
  then show ?thesis unfolding st0_def [symmetric] using assms(3)
    by (simp add: AllocImpl_def Let_def correct_small [OF assms(2)] set0 own from_key_def [of len "[]"])
qed

lemma long_used_full: "32 < len \<Longrightarrow> \<forall>t \<in> set blockType. class_full (st\<lparr>m_pools := fresh_pools a @ [(len, v)]\<rparr>) t"
  by (simp add: blockType_def class_full_def GetCapacityByType_def GetRemainByType_def fresh_pools_def nodes_from_def upt_conv_Cons)

lemma long_second:
  assumes "32 < len" "len \<le> 64"
  shows "AllocImpl f sys len (long_used len sys mem) = None"
proof -
  define st0 where "st0 = long_used len sys mem"
  have pools: "m_pools st0 = fresh_pools (sys 0) @ [(len, 0, [MemNode len UF_USE (sys 1) []])]" by (simp add: st0_def long_used_def)
  have look: "map_of (m_pools st0) len = Some (0, [MemNode len UF_USE (sys 1) []])"
    unfolding pools by (rule from_key_long(2) [OF assms(1)])
  have "GetAvailableAddress \<lparr>np_key = len, np_gen = 0, np_idx = 0, np_chips = []\<rparr> len st0 = Inr (0, st0)"
    by (simp add: GetAvailableAddress_def deref_def look)
  then have scan: "pool_scan len (from_key len (m_pools st0)) st0 = Inr (0, st0)"
    unfolding pools from_key_long(1) [OF assms(1)] by simp
  obtain st a where st: "sys_block sys 192 st0 = (a, st)" "m_pools st = m_pools st0"
    by (simp add: sys_block_def Let_def)
  have "\<forall>t \<in> set blockType. class_full st t"
    using long_used_full [OF assms(1), where st = st and a = "sys 0" and v = "(0, [MemNode len UF_USE (sys 1) []])"]
    by (simp add: class_full_def GetCapacityByType_def GetRemainByType_def st(2) pools)
  then have "UpdatePools f a 192 False st = None" by (simp add: UpdatePools_def pools_loop_full)
  then have "mp_expand f sys st0 = None" by (simp add: mp_expand_def DEFAULTBLOCK_def DEFAULTCOUNT_def st(1))
  moreover have "own_block sys len st0 = st0" "m_poolset st0 = []"
    by (simp_all add: own_block_def look) (simp add: st0_def long_used_def)
  ultimately show ?thesis unfolding st0_def [symmetric]
    using scan by (simp add: AllocImpl_def Let_def correct_small [OF assms(2)] from_key_def [of len "[]"])
qed

text \<open>
  Observation. A new pool serves one request of a length from 33 to 64 with a block of its own; the second request of that length, made
  while the first is in use, does not return. No class lacks nodes, so \<open>UpdatePools\<close> adds none, and its way out compares their
  number 4 with 8, the size of a \<open>size_t\<close>.
\<close>
theorem second_long_request_hangs:
  assumes "32 < len" "len \<le> 64" "sys 1 \<noteq> 0"
  shows "\<exists>st st1. MemPool_Init (Suc (Suc f)) sys (MemPool_new mem) = Some st \<and> AllocImpl f1 sys len st = Some (Inr (sys 1, st1))
    \<and> (\<forall>f2. AllocImpl f2 sys len st1 = None)"
  using long_first [of len sys] long_second [OF assms(1,2)] assms by (simp add: Init_pools)

theorem second_long_request_hangs_witness:
  "\<exists>st st1. MemPool_Init 2 (\<lambda>k. 1000 * (k + 1)) (MemPool_new (\<lambda>_. 0)) = Some st
    \<and> AllocImpl 0 (\<lambda>k. 1000 * (k + 1)) 40 st = Some (Inr (2000, st1)) \<and> (\<forall>f2. AllocImpl f2 (\<lambda>k. 1000 * (k + 1)) 40 st1 = None)"
  using second_long_request_hangs [of 40 "\<lambda>k. 1000 * (k + 1)" 0 "\<lambda>_. 0" 0] by (simp add: numeral_2_eq_2)

subsection \<open>Cutting a node in half\<close>

lemma node_at_snoc: "node_at (ks @ [k]) n = (case node_at ks n of None \<Rightarrow> None | Some m \<Rightarrow> map_of (mChips m) k)"
  by (induction ks arbitrary: n) (auto split: option.splits)

lemma deref_chip: "deref p st = Some n \<Longrightarrow> deref (chip_ptr p k) st = map_of (mChips n) k"
  by (auto simp: deref_def chip_ptr_def node_at_snoc split: option.splits if_splits)

lemma GetAddress_half:
  assumes "deref p st = Some (MemNode (2 * n) s a [])" "0 < n"
  shows "GetAddress p n st = Inr (a, push_free n (chip_ptr p n)
     ((upd_node p (\<lambda>_. MemNode (2 * n) UF_ALLOC a [(n, MemNode n UF_USE a [])]) st)\<lparr>m_record := minsert a (chip_ptr p n) (m_record st)\<rparr>))"
  using assms by (simp add: GetAddress_def Let_def mult_2)

text \<open>
  Observation. When an unused node of length \<open>2 n\<close> is cut for a request of \<open>n\<close> bytes, the map of chips has one place for the two
  halves: the used half is entered as free, and the next request of \<open>n\<close> bytes gets the same address.
\<close>
theorem half_handed_out_twice:
  assumes "deref p st = Some (MemNode (2 * n) UF_NONE a [])" "0 < n" "GetCorrectLessChipLen n = n"
    and "msorted (m_pools st)" "msorted (m_poolset st)"
  shows "\<exists>st1 st2. GetAddress p n st = Inr (a, st1) \<and> map_of (m_record st1) a \<noteq> None
    \<and> AllocImpl fuel sys n st1 = Some (Inr (a, st2))"
proof -
  define st0 where "st0 = (upd_node p (\<lambda>_. MemNode (2 * n) UF_ALLOC a [(n, MemNode n UF_USE a [])]) st)\<lparr>m_record := minsert a (chip_ptr p n) (m_record st)\<rparr>"
  define st1 where "st1 = push_free n (chip_ptr p n) st0"
  have "deref p st1 = Some (MemNode (2 * n) UF_ALLOC a [(n, MemNode n UF_USE a [])])"
    using deref_upd [OF assms(4,1), of "\<lambda>_. MemNode (2 * n) UF_ALLOC a [(n, MemNode n UF_USE a [])]"] by (simp add: st1_def st0_def deref_def)
  then have chip: "deref (chip_ptr p n) st1 = Some (MemNode n UF_USE a [])" by (simp add: deref_chip)
  obtain ps where ps: "map_of (m_poolset st1) n = Some (ps @ [chip_ptr p n])"
    using push_free_at [of st0 n "chip_ptr p n"] assms(5) unfolding st1_def by (simp add: st0_def)
  have "a \<in> fst ` set (m_record st1)" by (simp add: st1_def st0_def)
  then have "map_of (m_record st1) a \<noteq> None" by (simp add: map_of_eq_None_iff)
  moreover have "GetAddress p n st = Inr (a, st1)" using GetAddress_half [OF assms(1,2)] by (simp add: st1_def st0_def)
  moreover have "\<exists>st2. AllocImpl fuel sys n st1 = Some (Inr (a, st2))"
    using AllocImpl_exact [OF assms(3) ps] alloc_exact_ok [of "ps @ [chip_ptr p n]" st1 "MemNode n UF_USE a []" n] chip by simp
  ultimately show ?thesis by blast
qed

text \<open>A pool with one node, used for the examples.\<close>

definition one_node :: "UseFor \<Rightarrow> mempool" where
  "one_node s = \<lparr>m_poolset = [], m_pools = [(4, 0, [MemNode 4 s 1000 []])],
     m_record = (if s = UF_USE then [(1000, \<lparr>np_key = 4, np_gen = 0, np_idx = 0, np_chips = []\<rparr>)] else []),
     m_OriginalBuffer = [(1000, 192)], mp_mem = (\<lambda>_. 0)\<rparr>"

lemma one_node_facts:
  "deref \<lparr>np_key = 4, np_gen = 0, np_idx = 0, np_chips = []\<rparr> (one_node s) = Some (MemNode 4 s 1000 [])"
  "map_of (m_record (one_node UF_USE)) 1000 = Some \<lparr>np_key = 4, np_gen = 0, np_idx = 0, np_chips = []\<rparr>"
  "msorted (m_pools (one_node s))" "msorted (m_poolset (one_node s))" "msorted (m_record (one_node s))"
  by (simp_all add: deref_def one_node_def msorted_def)

theorem half_handed_out_twice_witness:
  "\<exists>st1 st2. GetAddress \<lparr>np_key = 4, np_gen = 0, np_idx = 0, np_chips = []\<rparr> 2 (one_node UF_NONE) = Inr (1000, st1)
    \<and> map_of (m_record st1) 1000 \<noteq> None \<and> AllocImpl 0 (\<lambda>k. 1000) 2 st1 = Some (Inr (1000, st2))"
  by (rule half_handed_out_twice) (simp_all add: one_node_facts correct_small)

theorem free_alloc_roundtrip_witness:
  "\<exists>st1 st2. FreeImpl 1000 (one_node UF_USE) = Inr st1 \<and> AllocImpl 0 (\<lambda>k. 1000) 4 st1 = Some (Inr (1000, st2))"
  using free_alloc_roundtrip [of "one_node UF_USE" 1000 "\<lparr>np_key = 4, np_gen = 0, np_idx = 0, np_chips = []\<rparr>" "MemNode 4 UF_USE 1000 []" 0 "\<lambda>k. 1000"]
  by (auto simp: one_node_facts correct_small)

subsection \<open>Merging\<close>

text \<open>A node with nothing in use, at any depth.\<close>

primrec unused :: "MemNode \<Rightarrow> bool" where
  "unused (MemNode l s a cs) \<longleftrightarrow> (case s of UF_USE \<Rightarrow> False | UF_NONE \<Rightarrow> True | UF_ALLOC \<Rightarrow> list_all snd (map (map_prod id unused) cs))"

definition listed :: "(nat, nodeptr list) omap \<Rightarrow> nodeptr set" where
  "listed ps = (\<Union>(k, v) \<in> set ps. set v)"

lemma drop_free_ok:
  assumes "drop_free len p ps = Inr ps'"
  shows "listed ps' \<subseteq> listed ps" "p \<in> listed ps"
proof -
  obtain v where v: "map_of ps len = Some v" "p \<in> set v" "ps' = massign len (remove1 p v) ps"
    using assms by (auto simp: drop_free_def split: option.splits if_splits)
  have "(len, v) \<in> set ps" using v(1) by (rule map_of_SomeD)
  then have "set v \<subseteq> listed ps" by (force simp: listed_def)
  then show "p \<in> listed ps" using v(2) by blast
  have "listed ps' \<subseteq> listed ((len, remove1 p v) # ps)" using set_massign [of len "remove1 p v" ps] by (force simp: v(3) listed_def)
  also have "\<dots> = set (remove1 p v) \<union> listed ps" by (simp add: listed_def)
  finally show "listed ps' \<subseteq> listed ps" using \<open>set v \<subseteq> listed ps\<close> set_remove1_subset [of p v] by blast
qed

lemma drop_chips_ok:
  assumes "drop_chips p cs ps = Inr ps'"
  shows "listed ps' \<subseteq> listed ps \<and> (\<forall>(k, m) \<in> set cs. chip_ptr p k \<in> listed ps)"
  using assms
proof (induction cs arbitrary: ps)
  case (Cons c cs)
  obtain k m where c: "c = (k, m)" by (cases c)
  obtain ps1 where ps1: "drop_free (nLen m) (chip_ptr p k) ps = Inr ps1" "drop_chips p cs ps1 = Inr ps'"
    using Cons.prems by (auto simp: c split: sum.splits)
  show ?case using Cons.IH [OF ps1(2)] drop_free_ok [OF ps1(1)] by (auto simp: c)
qed simp

text \<open>Merging succeeds with the answer whether the node is unused, and never lists a node.\<close>

lemma MergeFree_unused:
  "MergeFree p n ps = Inr (ok, n', ps') \<Longrightarrow> ok = unused n \<and> listed ps' \<subseteq> listed ps"
  "merge_chips p cs ps = Inr (ok, cs', ps') \<Longrightarrow> ok = list_all (\<lambda>c. unused (snd c)) cs \<and> listed ps' \<subseteq> listed ps \<and> map fst cs' = map fst cs"
proof (induction p n ps and p cs ps arbitrary: ok n' ps' and ok cs' ps' rule: MergeFree_merge_chips.induct)
  case (1 p l s a cs ps)
  show ?case
  proof (cases s)
    case UF_ALLOC
    obtain ok1 cs1 ps1 where m: "merge_chips p cs ps = Inr (ok1, cs1, ps1)"
      using "1.prems" UF_ALLOC by (auto split: sum.splits)
    note IH = "1.IH" [OF UF_ALLOC m]
    have u: "unused (MemNode l s a cs) = list_all (\<lambda>c. unused (snd c)) cs" by (simp add: UF_ALLOC list_all_iff)
    show ?thesis using "1.prems" IH m unfolding u by (auto simp: UF_ALLOC split: if_splits sum.splits dest!: drop_chips_ok)
  qed (use "1.prems" in auto)
next
  case (3 p k m cs ps)
  obtain b m' ps1 where m: "MergeFree (chip_ptr p k) m ps = Inr (b, m', ps1)"
    using "3.prems" by (auto split: sum.splits)
  obtain c cs1 where r: "merge_chips p cs ps1 = Inr (c, cs1, ps')" "ok = (b \<and> c)" "cs' = (k, m') # cs1"
    using "3.prems" m by (auto split: sum.splits)
  show ?case using "3.IH"(1) [OF m] "3.IH"(2) [OF m refl refl r(1)] r(2,3) by auto
qed auto

lemma drop_chips_error: "drop_chips p cs ps = Inl e \<Longrightarrow> e = Undefined"
  by (induction p cs ps rule: drop_chips.induct) (auto simp: drop_free_def split: sum.splits option.splits if_splits)

lemma MergeFree_error:
  "MergeFree p n ps = Inl e \<Longrightarrow> e = Undefined"
  "merge_chips p cs ps = Inl e \<Longrightarrow> e = Undefined"
  by (induction p n ps and p cs ps rule: MergeFree_merge_chips.induct)
     (auto split: sum.splits UseFor.splits if_splits prod.splits dest: drop_chips_error)

text \<open>
  Observation. Merging a cut node in which nothing is in use is undefined behaviour when one of its chips is in no set of free chips. That
  is the case of every chip that was itself cut: it left its set then, and merging it does not put it back.
\<close>
theorem merge_of_cut_chip_undefined:
  assumes "unused (MemNode l UF_ALLOC a cs)" "(k, m) \<in> set cs" "chip_ptr p k \<notin> listed ps"
  shows "MergeFree p (MemNode l UF_ALLOC a cs) ps = Inl Undefined"
proof (cases "MergeFree p (MemNode l UF_ALLOC a cs) ps")
  case (Inl e)
  show ?thesis unfolding Inl MergeFree_error(1) [OF Inl] by (rule refl)
next
  case (Inr r)
  obtain ok n' ps' where r: "r = (ok, n', ps')" by (cases r) auto
  have ok using MergeFree_unused(1) [OF Inr [unfolded r]] assms(1) by blast
  then obtain cs1 ps1 where m: "merge_chips p cs ps = Inr (True, cs1, ps1)" "drop_chips p cs1 ps1 = Inr ps'"
    using Inr by (auto simp: r split: sum.splits if_splits)
  have "k \<in> set (map fst cs)" using assms(2) by force
  then obtain m1 where "(k, m1) \<in> set cs1" using MergeFree_unused(2) [OF m(1)] by (metis (no_types) imageE list.set_map prod.collapse)
  then have "chip_ptr p k \<in> listed ps" using drop_chips_ok [OF m(2)] MergeFree_unused(2) [OF m(1)] by blast
  then show ?thesis using assms(3) by simp
qed

text \<open>Such a node in a pool with one node of 32 bytes: 10 and 5 bytes are allocated and freed.\<close>

abbreviation top32 :: nodeptr where
  "top32 \<equiv> \<lparr>np_key = 32, np_gen = 0, np_idx = 0, np_chips = []\<rparr>"

definition twice_cut :: MemNode where
  "twice_cut = MemNode 32 UF_ALLOC 1000 [(10, MemNode 10 UF_NONE 1000 []), (22, MemNode 22 UF_ALLOC 1010
     [(5, MemNode 5 UF_NONE 1010 []), (17, MemNode 17 UF_NONE 1015 [])])]"

definition twice_cut_set :: "(nat, nodeptr list) omap" where
  "twice_cut_set = [(5, [top32\<lparr>np_chips := [22, 5]\<rparr>]), (10, [top32\<lparr>np_chips := [10]\<rparr>]), (17, [top32\<lparr>np_chips := [22, 17]\<rparr>]), (22, [])]"

lemma twice_cut_reached:
  "\<exists>st1 st2 st3 st4. AllocImpl 0 sys 10 \<lparr>m_poolset = [], m_pools = [(32, 0, [MemNode 32 UF_NONE 1000 []])], m_record = [], m_OriginalBuffer = [(1000, 192)], mp_mem = mem\<rparr> = Some (Inr (1000, st1))
    \<and> AllocImpl 0 sys 5 st1 = Some (Inr (1010, st2)) \<and> FreeImpl 1010 st2 = Inr st3 \<and> FreeImpl 1000 st3 = Inr st4
    \<and> m_pools st4 = [(32, 0, [twice_cut])] \<and> m_poolset st4 = twice_cut_set"
  by (simp add: AllocImpl_def correct_small from_key_def own_block_def GetAvailableAddress_def deref_def GetAddress_def upd_node_def push_free_def chip_ptr_def
    Let_def FreeImpl_def twice_cut_def twice_cut_set_def merase_def)

theorem merge_of_cut_chip_undefined_witness: "MergeFree top32 twice_cut twice_cut_set = Inl Undefined"
  unfolding twice_cut_def
  by (rule merge_of_cut_chip_undefined [where k = 22]) (simp_all add: twice_cut_set_def listed_def chip_ptr_def)

text \<open>A chip that is in the set of its length leaves it; the others stay.\<close>

definition in_set :: "(nat, nodeptr list) omap \<Rightarrow> nat \<Rightarrow> nodeptr \<Rightarrow> bool" where
  "in_set ps len p \<longleftrightarrow> (case map_of ps len of None \<Rightarrow> False | Some v \<Rightarrow> p \<in> set v)"

lemma drop_free_in_set:
  assumes "msorted ps" "in_set ps len p"
  shows "\<exists>ps'. drop_free len p ps = Inr ps' \<and> msorted ps' \<and> (\<forall>l q. q \<noteq> p \<longrightarrow> in_set ps' l q = in_set ps l q)"
  using assms by (auto simp: in_set_def drop_free_def map_of_massign split: option.splits)

lemma drop_chips_in_set:
  assumes "msorted ps" "distinct (map fst cs)" "\<forall>(k, m) \<in> set cs. in_set ps (nLen m) (chip_ptr p k)"
  shows "\<exists>ps'. drop_chips p cs ps = Inr ps' \<and> msorted ps' \<and> (\<forall>l q. q \<notin> (\<lambda>(k, m). chip_ptr p k) ` set cs \<longrightarrow> in_set ps' l q = in_set ps l q)"
  using assms
proof (induction cs arbitrary: ps)
  case (Cons c cs)
  obtain k m where c: "c = (k, m)" by (cases c)
  obtain ps1 where ps1: "drop_free (nLen m) (chip_ptr p k) ps = Inr ps1" "msorted ps1" "\<forall>l q. q \<noteq> chip_ptr p k \<longrightarrow> in_set ps1 l q = in_set ps l q"
    using drop_free_in_set [of ps "nLen m" "chip_ptr p k"] Cons.prems by (auto simp: c)
  have inj: "chip_ptr p j = chip_ptr p k \<longleftrightarrow> j = k" for j by (cases p) (simp add: chip_ptr_def)
  have "\<forall>(j, x) \<in> set cs. in_set ps1 (nLen x) (chip_ptr p j)"
  proof (intro ballI, clarify)
    fix j x assume j: "(j, x) \<in> set cs"
    then have "j \<noteq> k" using Cons.prems(2) by (force simp: c)
    moreover have "in_set ps (nLen x) (chip_ptr p j)" using Cons.prems(3) j by auto
    ultimately show "in_set ps1 (nLen x) (chip_ptr p j)" using ps1(3) inj by simp
  qed
  then obtain ps' where "drop_chips p cs ps1 = Inr ps'" "msorted ps'" "\<forall>l q. q \<notin> (\<lambda>(k, m). chip_ptr p k) ` set cs \<longrightarrow> in_set ps' l q = in_set ps1 l q"
    using Cons.IH [OF ps1(2)] Cons.prems(2) by (auto simp: c)
  then show ?case using ps1(1,3) by (auto simp: c)
qed simp

lemma merge_chips_none: "\<forall>(k, m) \<in> set cs. eStatus m = UF_NONE \<Longrightarrow> merge_chips p cs ps = Inr (True, cs, ps)"
proof (induction cs)
  case (Cons c cs)
  obtain k l s a ds where "c = (k, MemNode l s a ds)" by (metis MemNode.exhaust surj_pair)
  moreover from this Cons.prems have "s = UF_NONE" by simp
  ultimately have "c = (k, MemNode l UF_NONE a ds)" by simp
  with Cons show ?case by simp
qed simp

text \<open>
  Observation. Merging puts a node that was cut once together again when all its chips are free: the node is unused with its full
  length and no chips, and no node other than its chips leaves the sets of free chips.
\<close>
theorem merge_restores_node:
  assumes "msorted ps" "distinct (map fst cs)" "\<forall>(k, m) \<in> set cs. eStatus m = UF_NONE"
    and "\<forall>(k, m) \<in> set cs. in_set ps (nLen m) (chip_ptr p k)"
  shows "\<exists>ps'. MergeFree p (MemNode l UF_ALLOC a cs) ps = Inr (True, MemNode l UF_NONE a [], ps')
    \<and> (\<forall>len q. q \<notin> (\<lambda>(k, m). chip_ptr p k) ` set cs \<longrightarrow> in_set ps' len q = in_set ps len q)"
proof -
  obtain ps' where ps': "drop_chips p cs ps = Inr ps'"
      "\<forall>len q. q \<notin> (\<lambda>(k, m). chip_ptr p k) ` set cs \<longrightarrow> in_set ps' len q = in_set ps len q"
    using drop_chips_in_set [OF assms(1,2,4)] by blast
  have "MergeFree p (MemNode l UF_ALLOC a cs) ps = Inr (True, MemNode l UF_NONE a [], ps')"
    by (simp add: merge_chips_none [OF assms(3)] ps'(1))
  with ps'(2) show ?thesis by blast
qed

theorem merge_restores_node_witness:
  "\<exists>ps'. MergeFree top32 (MemNode 32 UF_ALLOC 1000 [(10, MemNode 10 UF_NONE 1000 []), (22, MemNode 22 UF_NONE 1010 [])])
     [(10, [chip_ptr top32 10]), (22, [chip_ptr top32 22])] = Inr (True, MemNode 32 UF_NONE 1000 [], ps')"
proof -
  have "msorted [(10 :: nat, [chip_ptr top32 10]), (22, [chip_ptr top32 22])]" by (simp add: msorted_def)
  then show ?thesis
    using merge_restores_node [of "[(10, [chip_ptr top32 10]), (22, [chip_ptr top32 22])]"
      "[(10, MemNode 10 UF_NONE 1000 []), (22, MemNode 22 UF_NONE 1010 [])]" top32 32 1000]
    by (simp add: in_set_def del: MergeFree.simps) blast
qed

end
