(* ===== verification/RefPtrs.thy ===== *)
theory RefPtrs
  imports XPrelude
begin

text \<open>
  \<open>Mem/RefPtr.h\<close> and \<open>Mem/MemStatistics.cpp\<close>. \<open>Ref\<close> is the registry shared by all
  pointers of one type: for every managed address the set of \<open>RefPtr\<close> objects on it. A
  \<open>RefPtr\<close> object is a record in a store indexed by its own address (registered objects are
  written through these addresses by \<open>NotifyFree\<close>), and every \<open>delete\<close> is logged in
  \<open>rp_freed\<close>. What a constructor leaves uninitialised is an argument of its definition.
  \<open>Release\<close>, \<open>MoveFrom\<close> and \<open>CloneFrom\<close> are not modelled: the first does not compile when
  used (it calls a missing member) and the others have no body.
\<close>

record refptr =
  bHasFree :: bool
  bLoopRef :: bool
  pData :: addr
  fromRef :: addr

record refstate =
  refMaps :: "addr \<rightharpoonup> addr set"
  refInfo :: "addr \<rightharpoonup> addr"
  rp_objs :: "addr \<rightharpoonup> refptr"
  rp_freed :: "addr list"

definition ref_init :: refstate where
  "ref_init = \<lparr>refMaps = Map.empty, refInfo = Map.empty, rp_objs = Map.empty, rp_freed = []\<rparr>"

definition AddRef :: "addr \<Rightarrow> addr \<Rightarrow> refstate \<Rightarrow> refstate" where
  "AddRef m obj st =
     (if m = 0 \<or> obj = 0 then st
      else case refMaps st m of
             None \<Rightarrow> st\<lparr>refMaps := (refMaps st)(m \<mapsto> {obj}),
                        refInfo := (case refInfo st m of None \<Rightarrow> (refInfo st)(m \<mapsto> obj) | Some _ \<Rightarrow> refInfo st)\<rparr>
           | Some S \<Rightarrow> st\<lparr>refMaps := (refMaps st)(m \<mapsto> insert obj S)\<rparr>)"

definition DelRef :: "addr \<Rightarrow> addr \<Rightarrow> refstate \<Rightarrow> refstate" where
  "DelRef m obj st =
     (if m = 0 \<or> obj = 0 then st
      else case refMaps st m of
             None \<Rightarrow> st
           | Some S \<Rightarrow>
               if obj \<in> S
               then (if S - {obj} = {} then st\<lparr>refMaps := (refMaps st)(m := None)\<rparr>
                     else st\<lparr>refMaps := (refMaps st)(m \<mapsto> S - {obj})\<rparr>)
               else st)"

text \<open>The test is inverted: an absent address erases \<open>end()\<close>, a present one is left alone.\<close>

definition ClearTagRef :: "addr \<Rightarrow> refstate \<Rightarrow> xerror + refstate" where
  "ClearTagRef m st = (if refMaps st m = None then Inl Undefined else Inr st)"

definition GetRefCount :: "addr \<Rightarrow> refstate \<Rightarrow> nat" where
  "GetRefCount m st = (if m = 0 then 0 else case refMaps st m of None \<Rightarrow> 0 | Some S \<Rightarrow> card S)"

definition GetOwner :: "addr \<Rightarrow> refstate \<Rightarrow> addr" where
  "GetOwner m st = (case refInfo st m of None \<Rightarrow> 0 | Some p \<Rightarrow> p)"

definition NotifyFree :: "addr \<Rightarrow> refstate \<Rightarrow> refstate" where
  "NotifyFree m st =
     (case refMaps st m of
        None \<Rightarrow> st
      | Some S \<Rightarrow>
          st\<lparr>rp_objs := (\<lambda>a. if a \<in> S then map_option (\<lambda>r. r\<lparr>bHasFree := True\<rparr>) (rp_objs st a) else rp_objs st a),
             refMaps := (refMaps st)(m := None)\<rparr>)"

definition delete_mem :: "addr \<Rightarrow> refstate \<Rightarrow> refstate" where
  "delete_mem m st = (if m = 0 then st else st\<lparr>rp_freed := m # rp_freed st\<rparr>)"

definition RefPtr_new :: "addr \<Rightarrow> refstate \<Rightarrow> refstate" where
  "RefPtr_new a st =
     st\<lparr>rp_objs := (rp_objs st)(a \<mapsto> \<lparr>bHasFree = False, bLoopRef = False, pData = 0, fromRef = 0\<rparr>)\<rparr>"

definition RefPtr_of :: "addr \<Rightarrow> addr \<Rightarrow> refstate \<Rightarrow> refstate" where
  "RefPtr_of a p st =
     (let st1 = st\<lparr>rp_objs := (rp_objs st)(a \<mapsto> \<lparr>bHasFree = False, bLoopRef = False, pData = p, fromRef = 0\<rparr>)\<rparr>
      in if p \<noteq> 0 then AddRef p a st1 else st1)"

text \<open>The copy constructor; \<open>junk\<close> is the uninitialised storage, kept when the source is null.\<close>

definition RefPtr_copy :: "refptr \<Rightarrow> addr \<Rightarrow> addr \<Rightarrow> refptr \<Rightarrow> refstate \<Rightarrow> refstate" where
  "RefPtr_copy junk a b that st =
     (if pData that \<noteq> 0
      then AddRef (pData that) a
             (st\<lparr>rp_objs := (rp_objs st)(a \<mapsto> \<lparr>bHasFree = bHasFree that, bLoopRef = bLoopRef that,
                  pData = pData that, fromRef = (if fromRef that \<noteq> 0 then fromRef that else b)\<rparr>)\<rparr>)
      else st\<lparr>rp_objs := (rp_objs st)(a \<mapsto> junk\<lparr>pData := 0\<rparr>)\<rparr>)"

definition set_obj :: "addr \<Rightarrow> (refptr \<Rightarrow> refptr) \<Rightarrow> refstate \<Rightarrow> refstate" where
  "set_obj a f st = st\<lparr>rp_objs := (rp_objs st)(a := map_option f (rp_objs st a))\<rparr>"

text \<open>What assignment does to the target before it takes the new address.\<close>

definition assign_drop :: "addr \<Rightarrow> refptr \<Rightarrow> refstate \<Rightarrow> refstate" where
  "assign_drop a th st =
     (if bLoopRef th then
        (if fromRef th = 0 \<and> \<not> bHasFree th \<and> pData th \<noteq> 0
         then set_obj a (\<lambda>r. r\<lparr>pData := 0\<rparr>) (delete_mem (pData th) (NotifyFree (pData th) st))
         else if fromRef th \<noteq> 0 \<and> pData th \<noteq> 0
         then set_obj a (\<lambda>r. r\<lparr>fromRef := 0, pData := 0, bHasFree := False\<rparr>) (DelRef (pData th) a st)
         else st)
      else set_obj a (\<lambda>r. r\<lparr>pData := 0\<rparr>) (DelRef (pData th) a st))"

definition RefPtr_assign :: "addr \<Rightarrow> refptr \<Rightarrow> addr \<Rightarrow> refptr \<Rightarrow> refstate \<Rightarrow> refstate" where
  "RefPtr_assign a th b that st =
     (if a = b then st
      else
        let st1 = assign_drop a th st
        in if pData that \<noteq> 0
           then set_obj a (\<lambda>r. r\<lparr>bHasFree := bHasFree that, bLoopRef := bLoopRef that\<rparr>)
                  (AddRef (pData that) a
                     (set_obj a (\<lambda>r. r\<lparr>fromRef := (if fromRef that \<noteq> 0 then fromRef that else b),
                                        pData := pData that\<rparr>) st1))
           else st1)"

definition EnableLoopRefMode :: "addr \<Rightarrow> refstate \<Rightarrow> refstate" where
  "EnableLoopRefMode a st = set_obj a (\<lambda>r. r\<lparr>bLoopRef := True\<rparr>) st"

definition RefPtr_destroy :: "addr \<Rightarrow> refptr \<Rightarrow> refstate \<Rightarrow> refstate" where
  "RefPtr_destroy a th st =
     (let st1 =
        (if bLoopRef th then
           (if fromRef th = 0 \<and> \<not> bHasFree th \<and> pData th \<noteq> 0
            then delete_mem (pData th) (NotifyFree (pData th) st)
            else if fromRef th \<noteq> 0 then DelRef (pData th) a st
            else st)
         else
           (let st0 = DelRef (pData th) a st
            in if GetRefCount (pData th) st0 = 0 then delete_mem (pData th) st0 else st0))
      in st1\<lparr>rp_objs := (rp_objs st1)(a := None)\<rparr>)"

subsection \<open>Statistics\<close>

text \<open>\<open>MemStatistics\<close>: both maps are updated by the same code.\<close>

record memstat =
  m_records :: "string \<rightharpoonup> int"
  m_useds :: "string \<rightharpoonup> int"

definition update_stat :: "string \<Rightarrow> int \<Rightarrow> (string \<rightharpoonup> int) \<Rightarrow> (string \<rightharpoonup> int)" where
  "update_stat s count m =
     (if m s = None then m(s \<mapsto> count)
      else if count = -1 then m(s := None) else m(s \<mapsto> count))"

definition UpdateCapacity :: "string \<Rightarrow> int \<Rightarrow> memstat \<Rightarrow> memstat" where
  "UpdateCapacity s count st = st\<lparr>m_records := update_stat s count (m_records st)\<rparr>"

definition UpdateUseInfo :: "string \<Rightarrow> int \<Rightarrow> memstat \<Rightarrow> memstat" where
  "UpdateUseInfo s count st = st\<lparr>m_useds := update_stat s count (m_useds st)\<rparr>"

definition sum_stat :: "(string \<rightharpoonup> int) \<Rightarrow> int" where
  "sum_stat m = (\<Sum>s \<in> dom m. the (m s))"

definition GetCapacity :: "memstat \<Rightarrow> int" where
  "GetCapacity st = sum_stat (m_records st)"

definition MemStatistics_GetUsed :: "memstat \<Rightarrow> int" where
  "MemStatistics_GetUsed st = sum_stat (m_useds st)"

lemma sum_stat_update:
  assumes "finite (dom m)"
  shows "sum_stat (update_stat s c m) =
     sum_stat m - (case m s of None \<Rightarrow> 0 | Some v \<Rightarrow> v) + (if m s \<noteq> None \<and> c = -1 then 0 else c)"
proof -
  have other: "(\<Sum>x \<in> D - {s}. the ((m(s := y)) x)) = (\<Sum>x \<in> D - {s}. the (m x))" for D y
    by (rule sum.cong) auto
  show ?thesis
  proof (cases "m s")
    case None
    then have "s \<notin> dom m" by auto
    then have "(\<Sum>x \<in> dom m. the ((m(s \<mapsto> c)) x)) = (\<Sum>x \<in> dom m. the (m x))"
      using other [of "Some c" "dom m"] by simp
    with None assms \<open>s \<notin> dom m\<close> show ?thesis by (simp add: sum_stat_def update_stat_def)
  next
    case (Some v)
    then have s: "s \<in> dom m" by auto
    have split: "sum_stat m = v + (\<Sum>x \<in> dom m - {s}. the (m x))"
      unfolding sum_stat_def using sum.remove [OF assms s, of "\<lambda>x. the (m x)"] Some by simp
    show ?thesis
    proof (cases "c = -1")
      case True
      then show ?thesis using Some split other [of None "dom m"] by (simp add: sum_stat_def update_stat_def)
    next
      case False
      have "(\<Sum>x \<in> dom m. the ((m(s \<mapsto> c)) x)) = c + (\<Sum>x \<in> dom m - {s}. the (m x))"
        using sum.remove [OF assms s, of "\<lambda>x. the ((m(s \<mapsto> c)) x)"] other [of "Some c" "dom m"] by simp
      with False Some s split show ?thesis by (simp add: sum_stat_def update_stat_def insert_absorb)
    qed
  qed
qed

subsection \<open>Reference counting without loops\<close>

text \<open>
  The steps a client can make in the default mode: constructing from nothing, from a pointer that has
  not been deleted, or from a non-null \<open>RefPtr\<close>; assigning; destroying.
\<close>

inductive ref_step :: "refstate \<Rightarrow> refstate \<Rightarrow> bool" where
  new: "a \<noteq> 0 \<Longrightarrow> rp_objs st a = None \<Longrightarrow> ref_step st (RefPtr_new a st)"
| of_ptr: "a \<noteq> 0 \<Longrightarrow> rp_objs st a = None \<Longrightarrow> p \<notin> set (rp_freed st) \<Longrightarrow> ref_step st (RefPtr_of a p st)"
| copy: "a \<noteq> 0 \<Longrightarrow> rp_objs st a = None \<Longrightarrow> rp_objs st b = Some that \<Longrightarrow> pData that \<noteq> 0 \<Longrightarrow>
    ref_step st (RefPtr_copy junk a b that st)"
| assign: "rp_objs st a = Some th \<Longrightarrow> rp_objs st b = Some that \<Longrightarrow> ref_step st (RefPtr_assign a th b that st)"
| destroy: "rp_objs st a = Some th \<Longrightarrow> ref_step st (RefPtr_destroy a th st)"

inductive ref_reach :: "refstate \<Rightarrow> bool" where
  start: "ref_reach ref_init"
| step: "ref_reach st \<Longrightarrow> ref_step st st' \<Longrightarrow> ref_reach st'"

definition refs_to :: "addr \<Rightarrow> refstate \<Rightarrow> addr set" where
  "refs_to m st = {a. \<exists>r. rp_objs st a = Some r \<and> pData r = m}"

text \<open>
  The registry knows exactly the live pointers to every address, and no live pointer's
  address has been deleted.
\<close>

definition reg :: "refstate \<Rightarrow> addr \<Rightarrow> addr set" where
  "reg st m = (case refMaps st m of None \<Rightarrow> {} | Some S \<Rightarrow> S)"

definition reg_ok :: "refstate \<Rightarrow> bool" where
  "reg_ok st \<longleftrightarrow> refMaps st 0 = None \<and> (\<forall>m. refMaps st m \<noteq> Some {})"

definition ref_inv :: "refstate \<Rightarrow> bool" where
  "ref_inv st \<longleftrightarrow> reg_ok st \<and> rp_objs st 0 = None \<and> (\<forall>m. m \<noteq> 0 \<longrightarrow> reg st m = refs_to m st) \<and>
     (\<forall>m. finite (reg st m)) \<and> (\<forall>a r. rp_objs st a = Some r \<longrightarrow> \<not> bLoopRef r) \<and>
     (\<forall>m. m \<noteq> 0 \<and> refs_to m st \<noteq> {} \<longrightarrow> m \<notin> set (rp_freed st))"

lemma AddRef_fields [simp]:
  "rp_objs (AddRef m a st) = rp_objs st" "rp_freed (AddRef m a st) = rp_freed st"
  by (simp_all add: AddRef_def split: option.splits)

lemma DelRef_fields [simp]:
  "rp_objs (DelRef m a st) = rp_objs st" "rp_freed (DelRef m a st) = rp_freed st"
  by (simp_all add: DelRef_def split: option.splits)

lemma delete_fields [simp]:
  "rp_objs (delete_mem m st) = rp_objs st" "refMaps (delete_mem m st) = refMaps st"
  "rp_freed (delete_mem m st) = (if m = 0 then rp_freed st else m # rp_freed st)"
  by (simp_all add: delete_mem_def)

lemma set_obj_fields [simp]:
  "refMaps (set_obj a f st) = refMaps st" "rp_freed (set_obj a f st) = rp_freed st"
  "rp_objs (set_obj a f st) = (rp_objs st)(a := map_option f (rp_objs st a))"
  by (simp_all add: set_obj_def)

lemma reg_AddRef:
  assumes "m \<noteq> 0" "a \<noteq> 0"
  shows "reg (AddRef m a st) m' = (if m' = m then insert a (reg st m) else reg st m')"
    and "reg_ok st \<Longrightarrow> reg_ok (AddRef m a st)"
  using assms by (auto simp: reg_def AddRef_def reg_ok_def split: option.splits)

lemma reg_DelRef:
  assumes "a \<noteq> 0" "reg_ok st"
  shows "reg (DelRef m a st) m' = (if m' = m then reg st m - {a} else reg st m')"
    and "reg_ok (DelRef m a st)"
  using assms by (auto simp: reg_def DelRef_def reg_ok_def split: option.splits if_splits)

lemma reg_cong: "refMaps st = refMaps st' \<Longrightarrow> reg st = reg st'" "refMaps st = refMaps st' \<Longrightarrow> reg_ok st = reg_ok st'"
  by (auto simp: reg_def reg_ok_def fun_eq_iff)

lemma AddRef_maps: "refMaps st = refMaps st' \<Longrightarrow> refMaps (AddRef m a st) = refMaps (AddRef m a st')"
  by (auto simp: AddRef_def split: option.splits)

lemma DelRef_maps: "refMaps st = refMaps st' \<Longrightarrow> refMaps (DelRef m a st) = refMaps (DelRef m a st')"
  by (auto simp: DelRef_def split: option.splits)

lemma refs_to_cong: "rp_objs st = rp_objs st' \<Longrightarrow> refs_to m st = refs_to m st'"
  by (simp add: refs_to_def)

lemma refs_to_upd:
  assumes "rp_objs st' = (rp_objs st)(a := x)"
  shows "refs_to m st' = (case x of None \<Rightarrow> refs_to m st - {a}
     | Some r \<Rightarrow> if pData r = m then insert a (refs_to m st) else refs_to m st - {a})"
  using assms by (auto simp: refs_to_def split: option.splits)

lemma refs_to_none: "rp_objs st a = None \<Longrightarrow> refs_to m st - {a} = refs_to m st"
  by (auto simp: refs_to_def)

lemma refs_to_one: "rp_objs st a = Some r \<Longrightarrow> a \<in> refs_to m st \<longleftrightarrow> pData r = m"
  by (auto simp: refs_to_def)

lemma ref_invI:
  assumes "reg_ok st" "rp_objs st 0 = None" "\<And>m. m \<noteq> 0 \<Longrightarrow> reg st m = refs_to m st" "\<And>m. finite (reg st m)"
    "\<And>a r. rp_objs st a = Some r \<Longrightarrow> \<not> bLoopRef r"
    "\<And>m. m \<noteq> 0 \<Longrightarrow> refs_to m st \<noteq> {} \<Longrightarrow> m \<notin> set (rp_freed st)"
  shows "ref_inv st"
  using assms by (simp add: ref_inv_def)

lemma ref_invD:
  assumes "ref_inv st"
  shows "reg_ok st" "rp_objs st 0 = None" "\<And>m. m \<noteq> 0 \<Longrightarrow> reg st m = refs_to m st" "\<And>m. finite (reg st m)"
    "\<And>a r. rp_objs st a = Some r \<Longrightarrow> \<not> bLoopRef r"
    "\<And>m. m \<noteq> 0 \<Longrightarrow> refs_to m st \<noteq> {} \<Longrightarrow> m \<notin> set (rp_freed st)"
  using assms by (auto simp: ref_inv_def)

lemma RefPtr_new_inv:
  assumes "ref_inv st" "a \<noteq> 0" "rp_objs st a = None"
  shows "ref_inv (RefPtr_new a st)"
proof -
  note i = ref_invD [OF assms(1)]
  let ?st = "RefPtr_new a st"
  have r: "reg ?st = reg st" "reg_ok ?st = reg_ok st" by (rule reg_cong, simp add: RefPtr_new_def)+
  have o: "rp_objs ?st = (rp_objs st)(a \<mapsto> \<lparr>bHasFree = False, bLoopRef = False, pData = 0, fromRef = 0\<rparr>)"
    "rp_freed ?st = rp_freed st" by (simp_all add: RefPtr_new_def)
  have t: "refs_to m ?st = refs_to m st" if "m \<noteq> 0" for m
    using refs_to_upd [OF o(1), of m] refs_to_none [OF assms(3), of m] that by simp
  show ?thesis
  proof (rule ref_invI)
    show "reg_ok ?st" using i(1) unfolding r(2) .
    show "finite (reg ?st m)" for m using i(4) unfolding r(1) .
    show "rp_objs ?st 0 = None" using i(2) assms(2) o by simp
    show "\<not> bLoopRef x" if "rp_objs ?st b = Some x" for b x using that i(5) o by (auto split: if_splits)
    show "reg ?st m = refs_to m ?st" if "m \<noteq> 0" for m unfolding r(1) t [OF that] by (rule i(3) [OF that])
    show "m \<notin> set (rp_freed ?st)" if "m \<noteq> 0" "refs_to m ?st \<noteq> {}" for m
      using that(2) i(6) [OF that(1)] unfolding t [OF that(1)] o(2) by blast
  qed
qed

text \<open>A new object on \<open>m\<close>, registered.\<close>

lemma attach_inv:
  assumes inv: "ref_inv st" and a: "a \<noteq> 0" "rp_objs st a = None \<or> (\<exists>r. rp_objs st a = Some r \<and> pData r = 0)"
    and m: "m \<noteq> 0" "m \<notin> set (rp_freed st)" and r: "pData r = m" "\<not> bLoopRef r"
    and st': "rp_objs st' = (rp_objs st)(a \<mapsto> r)" "refMaps st' = refMaps (AddRef m a st)" "rp_freed st' = rp_freed st"
  shows "ref_inv st'"
proof -
  note i = ref_invD [OF inv]
  have g: "reg st' = reg (AddRef m a st)" "reg_ok st' = reg_ok (AddRef m a st)" using st'(2) by (rule reg_cong)+
  have an: "k \<noteq> 0 \<Longrightarrow> a \<notin> refs_to k st" for k using a(2) by (auto simp: refs_to_def)
  have t: "refs_to k st' = (if k = m then insert a (refs_to k st) else refs_to k st)" if "k \<noteq> 0" for k
    using an [OF that] r(1) by (subst refs_to_upd [OF st'(1)]) auto
  show ?thesis
  proof (rule ref_invI)
    show "reg_ok st'" using reg_AddRef(2) [OF m(1) a(1) i(1)] g by simp
    show "rp_objs st' 0 = None" using st'(1) i(2) a(1) by simp
    show "reg st' k = refs_to k st'" if "k \<noteq> 0" for k
      using reg_AddRef(1) [OF m(1) a(1), of st k] i(3) [OF that] i(3) [OF m(1)] t [OF that] g by simp
    show "finite (reg st' k)" for k using reg_AddRef(1) [OF m(1) a(1), of st k] i(4) g by simp
    show "\<not> bLoopRef x" if "rp_objs st' b = Some x" for b x using that i(5) r(2) st'(1) by (auto split: if_splits)
    show "k \<notin> set (rp_freed st')" if "k \<noteq> 0" "refs_to k st' \<noteq> {}" for k
      using that t i(6) m(2) st'(3) by (cases "k = m") auto
  qed
qed

text \<open>An object leaves its address; it is destroyed or left null.\<close>

lemma detach_inv:
  assumes inv: "ref_inv st" and a: "rp_objs st a = Some th"
    and x: "x = None \<or> (\<exists>r. x = Some r \<and> pData r = 0 \<and> \<not> bLoopRef r)"
    and st': "rp_objs st' = (rp_objs st)(a := x)" "refMaps st' = refMaps (DelRef (pData th) a st)"
      "set (rp_freed st') \<subseteq> set (rp_freed st) \<union> (if refs_to (pData th) st = {a} then {pData th} else {})"
  shows "ref_inv st'"
proof -
  note i = ref_invD [OF inv]
  have a0: "a \<noteq> 0" using i(2) a by (metis option.distinct(1))
  have g: "reg st' = reg (DelRef (pData th) a st)" "reg_ok st' = reg_ok (DelRef (pData th) a st)" using st'(2) by (rule reg_cong)+
  have t: "refs_to k st' = refs_to k st - {a}" if "k \<noteq> 0" for k
    using x that by (subst refs_to_upd [OF st'(1)]) auto
  have an: "a \<in> refs_to k st \<longleftrightarrow> pData th = k" for k by (rule refs_to_one [OF a])
  show ?thesis
  proof (rule ref_invI)
    show "reg_ok st'" using reg_DelRef(2) [OF a0 i(1)] g by simp
    show "rp_objs st' 0 = None" using st'(1) i(2) a0 by simp
    show "reg st' k = refs_to k st'" if "k \<noteq> 0" for k
    proof (cases "k = pData th")
      case True
      then show ?thesis using reg_DelRef(1) [OF a0 i(1), of "pData th" k] i(3) [OF that] t [OF that] g by simp
    next
      case False
      then have "refs_to k st - {a} = refs_to k st" using an [of k] by blast
      then show ?thesis using reg_DelRef(1) [OF a0 i(1), of "pData th" k] i(3) [OF that] t [OF that] g False by simp
    qed
    show "finite (reg st' k)" for k using reg_DelRef(1) [OF a0 i(1), of "pData th" k] i(4) g by simp
    show "\<not> bLoopRef y" if "rp_objs st' b = Some y" for b y using that i(5) x st'(1) by (auto split: if_splits)
    show "k \<notin> set (rp_freed st')" if k: "k \<noteq> 0" "refs_to k st' \<noteq> {}" for k
    proof -
      have ne: "refs_to k st - {a} \<noteq> {}" using k t by simp
      then have "k \<notin> set (rp_freed st)" using i(6) [OF k(1)] by blast
      moreover have "\<not> (refs_to (pData th) st = {a} \<and> k = pData th)" using ne by auto
      ultimately show ?thesis using st'(3) by (auto split: if_splits)
    qed
  qed
qed

lemma RefPtr_of_inv:
  assumes "ref_inv st" "a \<noteq> 0" "rp_objs st a = None" "p \<notin> set (rp_freed st)"
  shows "ref_inv (RefPtr_of a p st)"
proof (cases "p = 0")
  case True
  then have "RefPtr_of a p st = RefPtr_new a st" by (simp add: RefPtr_of_def RefPtr_new_def)
  with RefPtr_new_inv [OF assms(1-3)] show ?thesis by simp
next
  case False
  let ?r = "\<lparr>bHasFree = False, bLoopRef = False, pData = p, fromRef = 0\<rparr>"
  show ?thesis
  proof (rule attach_inv [OF assms(1,2) _ False assms(4), of ?r])
    show "refMaps (RefPtr_of a p st) = refMaps (AddRef p a st)"
      unfolding RefPtr_of_def Let_def if_P [OF False] by (rule AddRef_maps) simp
  qed (use assms(3) False in \<open>simp_all add: RefPtr_of_def Let_def\<close>)
qed

lemma RefPtr_copy_inv:
  assumes inv: "ref_inv st" and a: "a \<noteq> 0" "rp_objs st a = None" and b: "rp_objs st b = Some that" "pData that \<noteq> 0"
  shows "ref_inv (RefPtr_copy junk a b that st)"
proof -
  let ?r = "\<lparr>bHasFree = bHasFree that, bLoopRef = bLoopRef that, pData = pData that,
    fromRef = (if fromRef that \<noteq> 0 then fromRef that else b)\<rparr>"
  have fr: "pData that \<notin> set (rp_freed st)"
    using ref_invD(6) [OF inv b(2)] b(1) by (auto simp: refs_to_def)
  show ?thesis
  proof (rule attach_inv [OF inv a(1) _ b(2) fr, of ?r])
    show "refMaps (RefPtr_copy junk a b that st) = refMaps (AddRef (pData that) a st)"
      unfolding RefPtr_copy_def if_P [OF b(2)] by (rule AddRef_maps) simp
  qed (use a(2) b(2) ref_invD(5) [OF inv b(1)] in \<open>simp_all add: RefPtr_copy_def\<close>)
qed

lemma RefPtr_assign_inv:
  assumes inv: "ref_inv st" and a: "rp_objs st a = Some th" and b: "rp_objs st b = Some that"
  shows "ref_inv (RefPtr_assign a th b that st)"
proof (cases "a = b")
  case True
  with inv show ?thesis by (simp add: RefPtr_assign_def)
next
  case ab: False
  have nl: "\<not> bLoopRef th" "\<not> bLoopRef that" using ref_invD(5) [OF inv] a b by blast+
  have a0: "a \<noteq> 0" using ref_invD(2) [OF inv] a by (metis option.distinct(1))
  let ?st1 = "assign_drop a th st"
  have o1: "rp_objs ?st1 = (rp_objs st)(a := Some (th\<lparr>pData := 0\<rparr>))" "rp_freed ?st1 = rp_freed st"
    "refMaps ?st1 = refMaps (DelRef (pData th) a st)"
    using nl a by (simp_all add: assign_drop_def)
  have inv1: "ref_inv ?st1" by (rule detach_inv [OF inv a, of "Some (th\<lparr>pData := 0\<rparr>)"]) (use nl o1 in auto)
  show ?thesis
  proof (cases "pData that = 0")
    case True
    with ab inv1 show ?thesis by (simp add: RefPtr_assign_def Let_def)
  next
    case False
    let ?r = "th\<lparr>fromRef := (if fromRef that \<noteq> 0 then fromRef that else b), pData := pData that,
      bHasFree := bHasFree that, bLoopRef := bLoopRef that\<rparr>"
    have "pData that \<notin> set (rp_freed st)" using ref_invD(6) [OF inv False] b by (auto simp: refs_to_def)
    then have fr: "pData that \<notin> set (rp_freed ?st1)" using o1 by simp
    show ?thesis
    proof (rule attach_inv [OF inv1 a0 _ False fr, of ?r])
      show "refMaps (RefPtr_assign a th b that st) = refMaps (AddRef (pData that) a ?st1)"
        unfolding RefPtr_assign_def Let_def if_P [OF False] if_not_P [OF ab] set_obj_fields(1) by (rule AddRef_maps) simp
    qed (use ab False nl o1 in \<open>simp_all add: RefPtr_assign_def Let_def\<close>)
  qed
qed

lemma refcount_after:
  assumes inv: "ref_inv st" and a: "rp_objs st a = Some th" and m: "pData th \<noteq> 0"
  shows "GetRefCount (pData th) (DelRef (pData th) a st) = 0 \<longleftrightarrow> refs_to (pData th) st = {a}"
proof -
  note i = ref_invD [OF inv]
  have a0: "a \<noteq> 0" using i(2) a by (metis option.distinct(1))
  have "reg (DelRef (pData th) a st) (pData th) = refs_to (pData th) st - {a}"
    using reg_DelRef(1) [OF a0 i(1), of "pData th" "pData th"] i(3) [OF m] by simp
  moreover have "finite (refs_to (pData th) st - {a})" using i(3) [OF m] i(4) [of "pData th"] by simp
  moreover have "GetRefCount (pData th) s = card (reg s (pData th))" for s
    using m by (simp add: GetRefCount_def reg_def split: option.splits)
  moreover have "a \<in> refs_to (pData th) st" using refs_to_one [OF a] by simp
  ultimately have "GetRefCount (pData th) (DelRef (pData th) a st) = 0 \<longleftrightarrow> refs_to (pData th) st - {a} = {}"
    using card_0_eq by metis
  with \<open>a \<in> refs_to (pData th) st\<close> show ?thesis by blast
qed

lemma RefPtr_destroy_freed:
  assumes inv: "ref_inv st" and a: "rp_objs st a = Some th"
  shows "rp_freed (RefPtr_destroy a th st) =
     (if pData th \<noteq> 0 \<and> refs_to (pData th) st = {a} then pData th # rp_freed st else rp_freed st)"
    and "rp_objs (RefPtr_destroy a th st) = (rp_objs st)(a := None)"
    and "refMaps (RefPtr_destroy a th st) = refMaps (DelRef (pData th) a st)"
  using refcount_after [OF inv a] ref_invD(5) [OF inv a] by (auto simp: RefPtr_destroy_def Let_def)

lemma RefPtr_destroy_inv:
  assumes inv: "ref_inv st" and a: "rp_objs st a = Some th"
  shows "ref_inv (RefPtr_destroy a th st)"
  by (rule detach_inv [OF inv a, of None]) (use RefPtr_destroy_freed [OF inv a] in auto)

lemma ref_step_inv: "ref_step st st' \<Longrightarrow> ref_inv st \<Longrightarrow> ref_inv st'"
  by (induction rule: ref_step.induct)
     (auto intro: RefPtr_new_inv RefPtr_of_inv RefPtr_copy_inv RefPtr_assign_inv RefPtr_destroy_inv)

lemma ref_reach_inv: "ref_reach st \<Longrightarrow> ref_inv st"
proof (induction rule: ref_reach.induct)
  case start
  show ?case by (simp add: ref_inv_def ref_init_def reg_ok_def reg_def refs_to_def)
next
  case (step st st')
  then show ?case using ref_step_inv by blast
qed

subsection \<open>Properties\<close>

text \<open>
  Property C18: in every state that constructions, copies, assignments and destructions in the default
  mode can reach, no \<open>RefPtr\<close> points to deleted memory, the registered count of an address is the number of
  pointers on it, and destroying a pointer deletes its memory exactly when it is the last one.
\<close>

theorem RefPtr_counts_exact:
  assumes "ref_reach st" "rp_objs st a = Some th" "pData th \<noteq> 0"
  shows "pData th \<notin> set (rp_freed st) \<and> GetRefCount (pData th) st = card (refs_to (pData th) st) \<and>
     rp_freed (RefPtr_destroy a th st) =
       (if refs_to (pData th) st = {a} then pData th # rp_freed st else rp_freed st)"
proof -
  have inv: "ref_inv st" by (rule ref_reach_inv [OF assms(1)])
  have "refs_to (pData th) st \<noteq> {}" using assms(2) by (auto simp: refs_to_def)
  moreover have "GetRefCount (pData th) st = card (reg st (pData th))"
    using assms(3) by (simp add: GetRefCount_def reg_def split: option.splits)
  ultimately show ?thesis
    using ref_invD(3,6) [OF inv assms(3)] RefPtr_destroy_freed(1) [OF inv assms(2)] assms(3) by simp
qed

theorem RefPtr_counts_exact_witness:
  "ref_reach (RefPtr_of 1 500 ref_init) \<and> rp_freed (RefPtr_destroy 1 (the (rp_objs (RefPtr_of 1 500 ref_init) 1)) (RefPtr_of 1 500 ref_init)) = [500]"
proof -
  let ?r = "\<lparr>bHasFree = False, bLoopRef = False, pData = 500, fromRef = 0\<rparr>"
  have s: "ref_reach (RefPtr_of 1 500 ref_init)"
    by (rule ref_reach.step [OF ref_reach.start]) (rule ref_step.of_ptr, simp_all add: ref_init_def)
  have o: "rp_objs (RefPtr_of 1 500 ref_init) = [1 \<mapsto> ?r]" "rp_freed (RefPtr_of 1 500 ref_init) = []"
    by (simp_all add: RefPtr_of_def ref_init_def Let_def)
  have "refs_to 500 (RefPtr_of 1 500 ref_init) = {1}" unfolding refs_to_def o by auto
  with RefPtr_counts_exact [OF s, of 1 ?r] s o show ?thesis by simp
qed

text \<open>
  Observation: assignment never deletes in the default mode. Assigning another pointer to the last \<open>RefPtr\<close> of an
  address leaves that address with no pointer on it, unregistered and not deleted: it leaks.
\<close>

theorem RefPtr_assign_leaks:
  assumes "ref_reach st" "rp_objs st a = Some th" "rp_objs st b = Some that" "a \<noteq> b"
    and "pData th \<noteq> 0" "refs_to (pData th) st = {a}"
  shows "let st' = RefPtr_assign a th b that st
     in refs_to (pData th) st' = {} \<and> refMaps st' (pData th) = None \<and> pData th \<notin> set (rp_freed st')"
proof -
  have inv: "ref_inv st" by (rule ref_reach_inv [OF assms(1)])
  have nl: "\<not> bLoopRef th" "\<not> bLoopRef that" using ref_invD(5) [OF inv] assms by blast+
  let ?st = "RefPtr_assign a th b that st"
  have inv': "ref_inv ?st" by (rule RefPtr_assign_inv [OF inv assms(2,3)])
  have "b \<notin> refs_to (pData th) st" using assms(4,6) by simp
  then have ne: "pData that \<noteq> pData th" using refs_to_one [OF assms(3)] by simp
  have o: "rp_freed ?st = rp_freed st"
    using assms(4) nl by (simp add: RefPtr_assign_def Let_def assign_drop_def)
  have "\<exists>r. rp_objs ?st = (rp_objs st)(a \<mapsto> r) \<and> pData r = pData that"
    using assms(2,4) nl by (auto simp: RefPtr_assign_def Let_def assign_drop_def)
  then obtain r where r: "rp_objs ?st = (rp_objs st)(a \<mapsto> r)" "pData r = pData that" by blast
  have e: "refs_to (pData th) ?st = {}" using refs_to_upd [OF r(1), of "pData th"] r(2) ne assms(6) by simp
  have "refMaps ?st (pData th) = None"
    using ref_invD(1) [OF inv'] ref_invD(3) [OF inv' assms(5)] e
    by (cases "refMaps ?st (pData th)") (auto simp: reg_ok_def reg_def)
  with e o ref_invD(6) [OF inv assms(5)] assms(6) show ?thesis by simp
qed

theorem RefPtr_assign_leaks_witness:
  "let st = RefPtr_of 2 600 (RefPtr_of 1 500 ref_init);
       st' = RefPtr_assign 1 (the (rp_objs st 1)) 2 (the (rp_objs st 2)) st
   in refs_to 500 st' = {} \<and> 500 \<notin> set (rp_freed st')"
proof -
  let ?r = "\<lambda>p. \<lparr>bHasFree = False, bLoopRef = False, pData = p, fromRef = 0\<rparr>"
  let ?s = "RefPtr_of 2 600 (RefPtr_of 1 500 ref_init)"
  have "ref_reach (RefPtr_of 1 500 ref_init)"
    by (rule ref_reach.step [OF ref_reach.start]) (rule ref_step.of_ptr, simp_all add: ref_init_def)
  then have s: "ref_reach ?s"
    by (rule ref_reach.step) (rule ref_step.of_ptr, simp_all add: RefPtr_of_def ref_init_def Let_def)
  have o: "rp_objs ?s = [1 \<mapsto> ?r 500, 2 \<mapsto> ?r 600]" by (simp add: RefPtr_of_def ref_init_def Let_def)
  have "refs_to 500 ?s = {1}" unfolding refs_to_def o by auto
  with RefPtr_assign_leaks [OF s, of 1 "?r 500" 2 "?r 600"] o show ?thesis by (simp add: Let_def)
qed

end
