(* ===== verification/NetFrame.thy ===== *)
theory NetFrame
  imports XPrelude
begin

text \<open>
  \<open>Net/DataHandle.h\<close>, \<open>Net/NetPackage.h\<close> and the sizes of \<open>XDefine.h\<close>: the wire format. A package of
  the send queue is cut into chunks of at most 1000 bytes, every chunk is sent as a frame
  (a 24-byte \<open>Msg\<close> header and the chunk), and frames are written one after the other into the send
  buffers, a frame being split over two buffers when it does not fit the first.
  The buffers are raw memory (\<open>bmem\<close>), a \<open>MsgFrame\<close> is the address, capacity and valid length of one
  of them, and \<open>BuildPackage\<close> and \<open>Packaging\<close> are modelled with their pointer
  \<open>pStart\<close> and their offset \<open>nOffset\<close>, which the source keeps separately. The conversions to
  8- and 16-bit fields are in the writing of the header. \<open>code\<close>, \<open>compress\<close> and
  \<open>getData\<close> belong to the session type, a parameter: \<open>enc\<close> gives for a package the length \<open>compress\<close> returns
  and the bytes \<open>getData\<close> delivers. An index past the last buffer is \<open>Undefined\<close>.
\<close>

type_synonym byte = "8 word"

definition TRANSFRAME :: nat where
  "TRANSFRAME = 1024"

definition PERIOPOSTSIZE :: nat where
  "PERIOPOSTSIZE = 4096"

definition SIZEOF_MSG :: nat where
  "SIZEOF_MSG = 24"

record MsgHead =
  tFrames :: nat
  nFrames :: nat
  nVerifyLen :: nat
  nProtoType :: nat
  nReserved :: nat
  nRetState :: nat
  nDataLen :: nat
  tSrcLen :: nat
  tDataLen :: nat
  nFrameLen :: nat
  nUserProto :: nat
  ntimestamp :: nat

text \<open>The header in memory: the layout of the struct, little endian.\<close>

definition msg_at :: "bmem \<Rightarrow> addr \<Rightarrow> MsgHead" where
  "msg_at mem a = \<lparr>tFrames = unat (mem a), nFrames = unat (mem (a + 1)), nVerifyLen = unat (mem (a + 2)),
     nProtoType = unat (mem (a + 3)), nReserved = unat (mem (a + 4)), nRetState = unat (mem (a + 5)),
     nDataLen = rd16 mem (a + 6), tSrcLen = rd16 mem (a + 8), tDataLen = rd16 mem (a + 10),
     nFrameLen = rd16 mem (a + 12), nUserProto = rd16 mem (a + 14), ntimestamp = rd64 mem (a + 16)\<rparr>"

definition le16 :: "nat \<Rightarrow> byte list" where
  "le16 v = [of_nat v, of_nat (v div 256)]"

definition le64 :: "nat \<Rightarrow> byte list" where
  "le64 v = [of_nat v, of_nat (v div 256), of_nat (v div 65536), of_nat (v div 16777216),
     of_nat (v div 4294967296), of_nat (v div 1099511627776), of_nat (v div 281474976710656),
     of_nat (v div 72057594037927936)]"

definition head_bytes :: "MsgHead \<Rightarrow> byte list" where
  "head_bytes h = [of_nat (tFrames h), of_nat (nFrames h), of_nat (nVerifyLen h), of_nat (nProtoType h),
     of_nat (nReserved h), of_nat (nRetState h)] @ le16 (nDataLen h) @ le16 (tSrcLen h) @ le16 (tDataLen h) @
     le16 (nFrameLen h) @ le16 (nUserProto h) @ le64 (ntimestamp h)"

record NetPackage =
  m_pData :: "byte list option"
  m_len :: nat
  m_nBaseProtol :: nat
  m_nState :: nat
  m_nUserProtol :: nat
  m_nVerifyLen :: nat
  m_timestamp :: nat

definition NetPackage_new :: "byte list option \<Rightarrow> nat \<Rightarrow> nat \<Rightarrow> NetPackage" where
  "NetPackage_new p len junk = \<lparr>m_pData = p, m_len = len, m_nBaseProtol = 0, m_nState = 0,
     m_nUserProtol = junk mod 65536, m_nVerifyLen = 0, m_timestamp = 0\<rparr>"

definition CopyData :: "byte list option \<Rightarrow> nat \<Rightarrow> NetPackage \<Rightarrow> bool \<times> NetPackage" where
  "CopyData src len p =
     (case (m_pData p, src) of
        (Some d, Some bs) \<Rightarrow>
          if len \<le> m_len p then (True, p\<lparr>m_pData := Some (take len bs @ drop len d)\<rparr>) else (False, p)
      | _ \<Rightarrow> (False, p))"

definition IsValid :: "NetPackage \<Rightarrow> bool" where
  "IsValid p \<longleftrightarrow> m_pData p \<noteq> None"

definition IsBaseProtol :: "NetPackage \<Rightarrow> bool" where
  "IsBaseProtol p \<longleftrightarrow> m_nBaseProtol p \<noteq> 0"

definition SetBaseProtol :: "nat \<Rightarrow> NetPackage \<Rightarrow> NetPackage" where
  "SetBaseProtol n p = p\<lparr>m_nBaseProtol := n mod 256\<rparr>"

definition SetPackageState :: "nat \<Rightarrow> NetPackage \<Rightarrow> NetPackage" where
  "SetPackageState n p = p\<lparr>m_nState := n mod 256\<rparr>"

record MsgFrame =
  mf_len :: nat
  m_nValidLen :: nat
  m_index :: int
  m_buf :: addr

definition MsgFrame_new :: MsgFrame where
  "MsgFrame_new = \<lparr>mf_len = 0, m_nValidLen = 0, m_index = -1, m_buf = 0\<rparr>"

definition ResetValidDataLen :: "nat \<Rightarrow> MsgFrame \<Rightarrow> MsgFrame" where
  "ResetValidDataLen n f = f\<lparr>m_nValidLen := n mod 65536\<rparr>"

definition IsSmallPackage :: "bmem \<Rightarrow> MsgFrame \<Rightarrow> bool" where
  "IsSmallPackage mem f \<longleftrightarrow>
     (let h = msg_at mem (m_buf f) in tDataLen h = nFrameLen h \<and> int (tFrames h) - 1 = int (nFrames h))"

definition GetSrcDataLen :: "bmem \<Rightarrow> MsgFrame \<Rightarrow> nat" where
  "GetSrcDataLen mem f = tSrcLen (msg_at mem (m_buf f))"

definition GetDataLen :: "bmem \<Rightarrow> MsgFrame \<Rightarrow> nat" where
  "GetDataLen mem f = tDataLen (msg_at mem (m_buf f))"

definition GetBaseProto :: "bmem \<Rightarrow> MsgFrame \<Rightarrow> nat" where
  "GetBaseProto mem f = nProtoType (msg_at mem (m_buf f))"

definition GetTimeStamp :: "bmem \<Rightarrow> MsgFrame \<Rightarrow> nat" where
  "GetTimeStamp mem f = ntimestamp (msg_at mem (m_buf f))"

definition GetTotalFrames :: "bmem \<Rightarrow> MsgFrame \<Rightarrow> nat" where
  "GetTotalFrames mem f = tFrames (msg_at mem (m_buf f))"

subsection \<open>Building frames\<close>

record bpstate =
  bp_mem :: bmem
  bp_frames :: "MsgFrame list"
  fIndex :: nat
  pStart :: addr
  nOffset :: nat

definition set_valid :: "nat \<Rightarrow> nat \<Rightarrow> bpstate \<Rightarrow> bpstate" where
  "set_valid i n st = st\<lparr>bp_frames := (bp_frames st)[i := ResetValidDataLen n (bp_frames st ! i)]\<rparr>"

definition frame_head :: "NetPackage \<Rightarrow> nat \<Rightarrow> nat \<Rightarrow> nat \<Rightarrow> MsgHead" where
  "frame_head p nFrameNo srcLen totalFrames =
     \<lparr>tFrames = totalFrames, nFrames = nFrameNo, nVerifyLen = m_nVerifyLen p, nProtoType = m_nBaseProtol p,
      nReserved = 0, nRetState = 0, nDataLen = 0, tSrcLen = srcLen, tDataLen = srcLen, nFrameLen = 0,
      nUserProto = m_nUserProtol p, ntimestamp = m_timestamp p\<rparr>"

text \<open>The frame fits what is left of the buffer.\<close>

definition build_fit :: "MsgHead \<Rightarrow> byte list \<Rightarrow> int \<Rightarrow> bpstate \<Rightarrow> xerror + bpstate" where
  "build_fit h src avail st =
     (let len = length src;
          h1 = h\<lparr>nDataLen := len, nFrameLen := SIZEOF_MSG + len\<rparr>;
          mem1 = put_bytes (bp_mem st) (pStart st) (head_bytes h1);
          mem2 = put_bytes mem1 (pStart st + SIZEOF_MSG) src;
          off = nOffset st + len + SIZEOF_MSG;
          st1 = set_valid (fIndex st) off
                  (st\<lparr>bp_mem := mem2, pStart := pStart st + len + SIZEOF_MSG, nOffset := off\<rparr>)
      in if int (len + SIZEOF_MSG) = avail then
           (if fIndex st + 1 < length (bp_frames st)
            then Inr (st1\<lparr>fIndex := fIndex st + 1, pStart := m_buf (bp_frames st ! (fIndex st + 1)), nOffset := 0\<rparr>)
            else Inl Undefined)
         else Inr st1)"

text \<open>The header fits, the data is split.\<close>

definition build_split_data :: "MsgHead \<Rightarrow> byte list \<Rightarrow> nat \<Rightarrow> bpstate \<Rightarrow> xerror + bpstate" where
  "build_split_data h src avail st =
     (if fIndex st + 1 = length (bp_frames st) then Inl (Throw ''buildPackage error'')
      else
        let mem1 = put_bytes (bp_mem st) (pStart st) (head_bytes h);
            tmpOffset = avail - SIZEOF_MSG;
            mem2 = put_bytes mem1 (pStart st + SIZEOF_MSG) (take tmpOffset src);
            len = length src - tmpOffset;
            cur = bp_frames st ! fIndex st;
            st1 = set_valid (fIndex st) (mf_len cur) st;
            next = m_buf (bp_frames st ! (fIndex st + 1));
            lastLen = (if tmpOffset \<le> TRANSFRAME - SIZEOF_MSG \<and> TRANSFRAME - SIZEOF_MSG - tmpOffset < len
                       then TRANSFRAME - SIZEOF_MSG - tmpOffset else len);
            mem3 = put_bytes mem2 next (take lastLen (drop tmpOffset src));
            mem4 = wr16 mem3 (pStart st + 12) (SIZEOF_MSG + tmpOffset + lastLen);
            mem5 = wr16 mem4 (pStart st + 6) (tmpOffset + lastLen)
        in Inr (set_valid (fIndex st + 1) lastLen
             (st1\<lparr>bp_mem := mem5, fIndex := fIndex st + 1, pStart := next + lastLen, nOffset := lastLen\<rparr>)))"

text \<open>The header is split: where the two bytes of each length field go.\<close>

definition frame_len_ptrs :: "addr \<Rightarrow> addr \<Rightarrow> nat \<Rightarrow> addr \<times> addr" where
  "frame_len_ptrs tmp start avail =
     (if 13 \<le> avail then (tmp + 12, tmp + 13)
      else if avail = 12 then (tmp + 12, start)
      else (start + 12 - avail, start + 12 - avail + 1))"

definition data_len_ptrs :: "addr \<Rightarrow> addr \<Rightarrow> nat \<Rightarrow> addr \<times> addr" where
  "data_len_ptrs tmp start avail =
     (if 7 \<le> avail then (tmp + 6, tmp + 7)
      else if avail = 6 then (tmp + 6, start)
      else (start + 6 - avail, start + 6 - avail + 1))"

definition build_split_head :: "MsgHead \<Rightarrow> byte list \<Rightarrow> nat \<Rightarrow> bpstate \<Rightarrow> xerror + bpstate" where
  "build_split_head h src avail st =
     (if length (bp_frames st) \<le> fIndex st + 1 then Inl Undefined
      else
        let tmp = pStart st;
            mem1 = put_bytes (bp_mem st) tmp (take avail (head_bytes h));
            cur = bp_frames st ! fIndex st;
            st1 = set_valid (fIndex st) (mf_len cur) st;
            next = m_buf (bp_frames st ! (fIndex st + 1));
            mem2 = put_bytes mem1 next (drop avail (head_bytes h));
            start = next + (SIZEOF_MSG - avail);
            lastLen = (if TRANSFRAME - SIZEOF_MSG < length src then TRANSFRAME - SIZEOF_MSG else length src);
            mem3 = put_bytes mem2 start (take lastLen src);
            (f0, f1) = frame_len_ptrs tmp next avail;
            (d0, d1) = data_len_ptrs tmp next avail;
            mem4 = mem3(f0 := of_nat (SIZEOF_MSG + lastLen));
            mem5 = mem4(f1 := of_nat ((SIZEOF_MSG + lastLen) div 256));
            mem6 = mem5(d0 := of_nat lastLen);
            mem7 = mem6(d1 := of_nat (lastLen div 256))
        in Inr (set_valid (fIndex st + 1) (lastLen + SIZEOF_MSG - avail)
             (st1\<lparr>bp_mem := mem7, fIndex := fIndex st + 1, pStart := start + lastLen, nOffset := lastLen\<rparr>)))"

definition BuildPackage ::
  "byte list option \<Rightarrow> nat \<Rightarrow> nat \<Rightarrow> nat \<Rightarrow> NetPackage \<Rightarrow> bpstate \<Rightarrow> xerror + bpstate" where
  "BuildPackage src nFrameNo srcLen totalFrames p st =
     (let bs = (case src of None \<Rightarrow> [] | Some b \<Rightarrow> b);
          avail = int (mf_len (bp_frames st ! fIndex st)) - int (nOffset st);
          h = frame_head p nFrameNo srcLen totalFrames
      in if src = None \<and> (nFrameNo \<noteq> 0 \<or> srcLen \<noteq> 0 \<or> totalFrames \<noteq> 1)
         then Inl (Throw ''BuildPackage unknow error'')
         else if int (length bs + SIZEOF_MSG) \<le> avail \<or> avail < 0 then build_fit h bs avail st
         else if int SIZEOF_MSG \<le> avail then build_split_data h bs (nat avail) st
         else build_split_head h bs (nat avail) st)"

subsection \<open>Cutting packages\<close>

definition frame_count :: "nat \<Rightarrow> nat" where
  "frame_count len =
     (let c = TRANSFRAME - SIZEOF_MSG in len div c + (if 0 < len - len div c * c then 1 else 0))"

definition chunks :: "byte list \<Rightarrow> byte list list" where
  "chunks d =
     (let c = TRANSFRAME - SIZEOF_MSG
      in map (\<lambda>ci. if ci * c < length d then take c (drop ((ci - 1) * c) d)
                   else take (length d - (ci - 1) * c) (drop ((ci - 1) * c) d)) [1..<frame_count (length d) + 1])"

fun build_chunks :: "NetPackage \<Rightarrow> nat \<Rightarrow> nat \<Rightarrow> nat \<Rightarrow> byte list list \<Rightarrow> bpstate \<Rightarrow> xerror + bpstate" where
  "build_chunks p fc srcLen tot [] st = Inr st"
| "build_chunks p fc srcLen tot (c # cs) st =
     (case BuildPackage (Some c) fc srcLen tot p st of
        Inl e \<Rightarrow> Inl e
      | Inr st' \<Rightarrow> build_chunks p (Suc fc) srcLen tot cs st')"

definition build_package :: "NetPackage \<Rightarrow> byte list \<Rightarrow> bpstate \<Rightarrow> xerror + bpstate" where
  "build_package p d st =
     (if 0 < length d then build_chunks p 0 (m_len p) (frame_count (length d)) (chunks d) st
      else BuildPackage None 0 0 1 p st)"

type_synonym enc = "NetPackage \<Rightarrow> nat \<times> byte list option"

datatype pack_out = Restart | Done nat bpstate

fun pack_queue :: "enc \<Rightarrow> nat \<Rightarrow> nat \<Rightarrow> nat \<Rightarrow> NetPackage list \<Rightarrow> bpstate \<Rightarrow> xerror + pack_out" where
  "pack_queue enc cap i totalSend [] st = Inr (Done i st)"
| "pack_queue enc cap i totalSend (p # ps) st =
     (let (validLen, d) = enc p
      in if cap < totalSend + validLen + (i + 1) * SIZEOF_MSG then
           (if i = 0 then Inr Restart
            else Inr (Done i (if 0 < nOffset st then set_valid (fIndex st) (nOffset st) st else st)))
         else
           (case d of
              None \<Rightarrow> Inl (Throw ''process error'')
            | Some bs \<Rightarrow>
                if length bs \<noteq> validLen then Inl (Throw ''process error'')
                else (case build_package p bs st of
                        Inl e \<Rightarrow> Inl e
                      | Inr st' \<Rightarrow>
                          if fIndex st' = length (bp_frames st') then Inr (Done (i + 1) st')
                          else pack_queue enc cap (i + 1) (totalSend + validLen) ps st')))"

text \<open>
  \<open>Packaging\<close>: the fuel bounds the jumps back to \<open>RESTART\<close>; the result is the number of packages
  taken, the number of buffers used and the final state.
\<close>

fun Packaging :: "nat \<Rightarrow> enc \<Rightarrow> NetPackage list \<Rightarrow> bmem \<Rightarrow> MsgFrame list \<Rightarrow> (xerror + (nat \<times> nat \<times> bpstate)) option" where
  "Packaging 0 enc q mem fs = None"
| "Packaging (Suc n) enc q mem fs =
     (if fs = [] then Some (Inl Undefined)
      else case pack_queue enc (sum_list (map mf_len fs)) 0 0 q
                  \<lparr>bp_mem = mem, bp_frames = fs, fIndex = 0, pStart = m_buf (hd fs), nOffset = 0\<rparr> of
             Inl e \<Rightarrow> Some (Inl e)
           | Inr (Done count st) \<Rightarrow> Some (Inr (count, fIndex st + 1, st))
           | Inr Restart \<Rightarrow> Packaging n enc q mem (fs @ [MsgFrame_new]))"

subsection \<open>Putting frames together\<close>

text \<open>\<open>setMsgFrames\<close>: the payloads one after the other into \<open>m_pTmpbuf\<close> of length \<open>m_len\<close>.\<close>

fun gather :: "bmem \<Rightarrow> nat \<Rightarrow> MsgFrame list \<Rightarrow> byte list \<Rightarrow> xerror + byte list" where
  "gather mem mlen [] acc = Inr acc"
| "gather mem mlen (f # fs) acc =
     (let n = nDataLen (msg_at mem (m_buf f))
      in if mlen < length acc \<or> mlen < length acc + n
         then Inl (Throw ''setMsgFrames the recv data datalen not same as dataLen'')
         else gather mem mlen fs (acc @ map mem [m_buf f + SIZEOF_MSG..<m_buf f + SIZEOF_MSG + n]))"

definition setMsgFrames :: "bmem \<Rightarrow> bool \<Rightarrow> nat \<Rightarrow> MsgFrame list \<Rightarrow> nat \<Rightarrow> xerror + byte list" where
  "setMsgFrames mem tmpNull mlen fs count = (if tmpNull then Inr [] else gather mem mlen (take count fs) [])"

subsection \<open>Header bytes\<close>

lemma head_bytes_length [simp]: "length (head_bytes h) = SIZEOF_MSG"
  by (simp add: head_bytes_def le16_def le64_def SIZEOF_MSG_def)

definition head_mod :: "MsgHead \<Rightarrow> MsgHead" where
  "head_mod h = \<lparr>tFrames = tFrames h mod 256, nFrames = nFrames h mod 256, nVerifyLen = nVerifyLen h mod 256,
     nProtoType = nProtoType h mod 256, nReserved = nReserved h mod 256, nRetState = nRetState h mod 256,
     nDataLen = nDataLen h mod 65536, tSrcLen = tSrcLen h mod 65536, tDataLen = tDataLen h mod 65536,
     nFrameLen = nFrameLen h mod 65536, nUserProto = nUserProto h mod 65536,
     ntimestamp = ntimestamp h mod 18446744073709551616\<rparr>"

lemma rd16_bytes: "mem a = of_nat v \<Longrightarrow> mem b = of_nat (v div 256) \<Longrightarrow> b = a + 1 \<Longrightarrow> rd16 mem a = v mod 65536"
  using rd16_wr16 [of mem a v] by (simp add: rd16_def wr16_def)

lemma msg_at_bytes:
  assumes "\<And>i. i < SIZEOF_MSG \<Longrightarrow> mem (a + i) = head_bytes h ! i"
  shows "msg_at mem a = head_mod h"
proof -
  have v: "mem (a + 0) = of_nat (tFrames h)" "mem (a + 1) = of_nat (nFrames h)" "mem (a + 2) = of_nat (nVerifyLen h)"
    "mem (a + 3) = of_nat (nProtoType h)" "mem (a + 4) = of_nat (nReserved h)" "mem (a + 5) = of_nat (nRetState h)"
    "mem (a + 6) = of_nat (nDataLen h)" "mem (a + 7) = of_nat (nDataLen h div 256)"
    "mem (a + 8) = of_nat (tSrcLen h)" "mem (a + 9) = of_nat (tSrcLen h div 256)"
    "mem (a + 10) = of_nat (tDataLen h)" "mem (a + 11) = of_nat (tDataLen h div 256)"
    "mem (a + 12) = of_nat (nFrameLen h)" "mem (a + 13) = of_nat (nFrameLen h div 256)"
    "mem (a + 14) = of_nat (nUserProto h)" "mem (a + 15) = of_nat (nUserProto h div 256)"
    by (simp_all only: assms [of 0] assms [of 1] assms [of 2] assms [of 3] assms [of 4] assms [of 5] assms [of 6]
        assms [of 7] assms [of 8] assms [of 9] assms [of 10] assms [of 11] assms [of 12] assms [of 13] assms [of 14]
        assms [of 15] SIZEOF_MSG_def)
       (simp_all add: head_bytes_def le16_def)
  have t: "mem (a + 16 + i) = le64 (ntimestamp h) ! i" if "i < 8" for i
    using assms [of "16 + i"] that by (simp add: SIZEOF_MSG_def head_bytes_def le16_def add.assoc [symmetric] nth_Cons')
  have "rd64 mem (a + 16) = ntimestamp h mod 18446744073709551616"
    using t [of 0] t [of 1] t [of 2] t [of 3] t [of 4] t [of 5] t [of 6] t [of 7]
      rd64_wr64 [of mem "a + 16" "ntimestamp h"]
    by (simp add: rd64_def rd32_def rd16_def wr64_def wr32_def wr16_def le64_def div_mult2_eq [symmetric])
  then show ?thesis
    using v rd16_bytes [of mem, OF v(7) v(8)] rd16_bytes [of mem, OF v(9) v(10)] rd16_bytes [of mem, OF v(11) v(12)] rd16_bytes [of mem, OF v(13) v(14)]
      rd16_bytes [of mem, OF v(15) v(16)]
    by (simp add: msg_at_def head_mod_def)
qed

subsection \<open>Frames that fit\<close>

definition frame_bytes :: "MsgHead \<Rightarrow> byte list \<Rightarrow> byte list" where
  "frame_bytes h d = head_bytes (h\<lparr>nDataLen := length d, nFrameLen := SIZEOF_MSG + length d\<rparr>) @ d"

lemma frame_bytes_length [simp]: "length (frame_bytes h d) = SIZEOF_MSG + length d"
  by (simp add: frame_bytes_def)

text \<open>Writing bytes at the current position of the current buffer.\<close>

definition advance :: "byte list \<Rightarrow> bpstate \<Rightarrow> bpstate" where
  "advance bs st = st\<lparr>bp_mem := put_bytes (bp_mem st) (pStart st) bs, pStart := pStart st + length bs,
     nOffset := nOffset st + length bs,
     bp_frames := (bp_frames st)[fIndex st := ResetValidDataLen (nOffset st + length bs) (bp_frames st ! fIndex st)]\<rparr>"

lemma advance_fields [simp]:
  "fIndex (advance bs st) = fIndex st" "nOffset (advance bs st) = nOffset st + length bs"
  "length (bp_frames (advance bs st)) = length (bp_frames st)" "pStart (advance bs st) = pStart st + length bs"
  "bp_mem (advance bs st) = put_bytes (bp_mem st) (pStart st) bs"
  by (simp_all add: advance_def)

lemma advance_cap [simp]: "mf_len (bp_frames (advance bs st) ! i) = mf_len (bp_frames st ! i)"
  by (cases "fIndex st < length (bp_frames st)") (auto simp: advance_def ResetValidDataLen_def nth_list_update list_update_beyond)

lemma advance_append:
  assumes "fIndex st < length (bp_frames st)"
  shows "advance ys (advance xs st) = advance (xs @ ys) st"
  using assms by (simp add: advance_def put_bytes_append ResetValidDataLen_def add.assoc)

lemma BuildPackage_fit:
  assumes "nOffset st + SIZEOF_MSG + length bs < mf_len (bp_frames st ! fIndex st)" "src = None \<Longrightarrow> fc = 0 \<and> sl = 0 \<and> tot = 1"
    and "bs = (case src of None \<Rightarrow> [] | Some b \<Rightarrow> b)"
  shows "BuildPackage src fc sl tot p st = Inr (advance (frame_bytes (frame_head p fc sl tot) bs) st)"
proof -
  let ?av = "int (mf_len (bp_frames st ! fIndex st)) - int (nOffset st)"
  have fit: "int (length bs + SIZEOF_MSG) \<le> ?av" "int (length bs + SIZEOF_MSG) \<noteq> ?av" using assms(1) by linarith+
  have "BuildPackage src fc sl tot p st = build_fit (frame_head p fc sl tot) bs ?av st"
    using fit(1) assms(2,3) by (auto simp: BuildPackage_def Let_def)
  also have "\<dots> = Inr (advance (frame_bytes (frame_head p fc sl tot) bs) st)"
    using fit(2) by (simp add: build_fit_def Let_def advance_def frame_bytes_def put_bytes_append set_valid_def add.commute add.left_commute)
  finally show ?thesis .
qed

type_synonym fbs = "(MsgHead \<times> byte list) list"

definition stream :: "fbs \<Rightarrow> byte list" where
  "stream fs = concat (map (\<lambda>(h, d). frame_bytes h d) fs)"

lemma stream_simps [simp]:
  "stream [] = []" "stream ((h, d) # fs) = frame_bytes h d @ stream fs" "stream (fs @ gs) = stream fs @ stream gs"
  by (simp_all add: stream_def)

text \<open>The frames of a package.\<close>

definition pkg_frames :: "NetPackage \<Rightarrow> byte list \<Rightarrow> fbs" where
  "pkg_frames p d =
     (if 0 < length d
      then map (\<lambda>(fc, c). (frame_head p fc (m_len p) (frame_count (length d)), c)) (enumerate 0 (chunks d))
      else [(frame_head p 0 0 1, [])])"

lemma build_chunks_fit:
  assumes "cs \<noteq> []" "fIndex st < length (bp_frames st)"
    and "nOffset st + length (stream (map (\<lambda>(fc, c). (frame_head p fc sl tot, c)) (enumerate k cs)))
      < mf_len (bp_frames st ! fIndex st)"
  shows "build_chunks p k sl tot cs st =
     Inr (advance (stream (map (\<lambda>(fc, c). (frame_head p fc sl tot, c)) (enumerate k cs))) st)"
  using assms
proof (induction cs arbitrary: k st)
  case Nil
  then show ?case by simp
next
  case (Cons c cs)
  let ?s = "\<lambda>k cs. stream (map (\<lambda>(fc, c). (frame_head p fc sl tot, c)) (enumerate k cs))"
  let ?f = "frame_bytes (frame_head p k sl tot) c"
  have len: "nOffset st + (SIZEOF_MSG + length c) + length (?s (Suc k) cs) < mf_len (bp_frames st ! fIndex st)"
    using Cons.prems(3) by simp
  have b: "BuildPackage (Some c) k sl tot p st = Inr (advance ?f st)"
    using len by (intro BuildPackage_fit) simp_all
  show ?case
  proof (cases "cs = []")
    case True
    with b show ?thesis by simp
  next
    case False
    then have "build_chunks p (Suc k) sl tot cs (advance ?f st) = Inr (advance (?s (Suc k) cs) (advance ?f st))"
      using len Cons.prems(2) by (intro Cons.IH) simp_all
    then show ?thesis by (simp add: b advance_append [OF Cons.prems(2)])
  qed
qed

lemma frame_count_pos: "0 < n \<Longrightarrow> 0 < frame_count n"
  by (auto simp: frame_count_def Let_def TRANSFRAME_def SIZEOF_MSG_def)

lemma chunks_nonempty: "0 < length d \<Longrightarrow> chunks d \<noteq> []"
  using frame_count_pos [of "length d"] by (simp add: chunks_def Let_def)

lemma build_package_fit:
  assumes "fIndex st < length (bp_frames st)"
    and "nOffset st + length (stream (pkg_frames p d)) < mf_len (bp_frames st ! fIndex st)"
  shows "build_package p d st = Inr (advance (stream (pkg_frames p d)) st)"
proof (cases "0 < length d")
  case True
  then show ?thesis
    using build_chunks_fit [OF chunks_nonempty [OF True] assms(1), of p "m_len p" "frame_count (length d)" 0] assms(2)
    by (simp add: build_package_def pkg_frames_def)
next
  case False
  then have "BuildPackage None 0 0 1 p st = Inr (advance (frame_bytes (frame_head p 0 0 1) []) st)"
    using assms(2) by (intro BuildPackage_fit) (simp_all add: pkg_frames_def)
  with False show ?thesis by (simp add: build_package_def pkg_frames_def)
qed

subsection \<open>Chunks\<close>

lemma chunks_concat_take:
  assumes "0 < c"
  shows "concat (map (\<lambda>k. take c (drop (k * c) d)) [0..<n]) = take (n * c) d"
  by (induction n) (simp_all add: take_add [symmetric] add.commute)

lemma chunks_eq: "chunks d = map (\<lambda>k. take 1000 (drop (k * 1000) d)) [0..<frame_count (length d)]"
proof -
  have "(if ci * 1000 < length d then take 1000 (drop ((ci - 1) * 1000) d)
      else take (length d - (ci - 1) * 1000) (drop ((ci - 1) * 1000) d)) = take 1000 (drop ((ci - 1) * 1000) d)"
    if "1 \<le> ci" for ci
  proof (cases "ci * 1000 < length d")
    case False
    then have "length d - (ci - 1) * 1000 \<le> 1000" using that by (cases ci) auto
    with False show ?thesis by simp
  qed simp
  then have "chunks d = map (\<lambda>ci. take 1000 (drop ((ci - 1) * 1000) d)) [1..<frame_count (length d) + 1]"
    by (simp add: chunks_def Let_def TRANSFRAME_def SIZEOF_MSG_def)
  also have "\<dots> = map (\<lambda>k. take 1000 (drop (k * 1000) d)) [0..<frame_count (length d)]"
    by (rule nth_equalityI) (simp_all add: nth_upt del: upt_Suc)
  finally show ?thesis .
qed

lemma concat_chunks: "concat (chunks d) = d"
proof -
  have "length d \<le> frame_count (length d) * 1000"
  proof -
    have "length d = length d div 1000 * 1000 + length d mod 1000" by simp
    moreover have "length d - length d div 1000 * 1000 = length d mod 1000" by (simp add: minus_div_mult_eq_mod)
    moreover have "length d mod 1000 \<le> (if 0 < length d mod 1000 then 1 else 0) * 1000" by simp
    ultimately show ?thesis unfolding frame_count_def Let_def TRANSFRAME_def SIZEOF_MSG_def by (simp add: algebra_simps)
  qed
  then show ?thesis using chunks_concat_take [of 1000 d "frame_count (length d)"] by (simp add: chunks_eq)
qed

lemma chunk_length: "c \<in> set (chunks d) \<Longrightarrow> length c \<le> 1000"
  by (auto simp: chunks_eq)

lemma pkg_frames_data: "concat (map snd (pkg_frames p d)) = d"
proof -
  have "map snd (map (\<lambda>(fc, c). (h fc, c)) (enumerate 0 cs)) = cs" for h :: "nat \<Rightarrow> MsgHead" and cs :: "byte list list"
    by (rule nth_equalityI) (simp_all add: nth_enumerate_eq)
  then show ?thesis by (cases "0 < length d") (simp_all add: pkg_frames_def concat_chunks)
qed

lemma pkg_frames_len: "(h, c) \<in> set (pkg_frames p d) \<Longrightarrow> length c \<le> 1000"
  using chunk_length [of _ d] by (auto simp: pkg_frames_def in_set_enumerate_eq split: if_splits)

lemma stream_length: "length (stream fs) = length fs * SIZEOF_MSG + length (concat (map snd fs))"
  by (induction fs) (auto simp: stream_def)

lemma pkg_frames_min: "length d + SIZEOF_MSG \<le> length (stream (pkg_frames p d))"
proof -
  have "length (pkg_frames p d) = (if 0 < length d then length (chunks d) else 1)" by (simp add: pkg_frames_def)
  then have "0 < length (pkg_frames p d)" using chunks_nonempty [of d] by (auto split: if_splits)
  then have "1 * SIZEOF_MSG \<le> length (pkg_frames p d) * SIZEOF_MSG" by (intro mult_le_mono1) linarith
  then show ?thesis by (simp only: stream_length pkg_frames_data mult_1)
qed

subsection \<open>The whole queue\<close>

text \<open>What is relied on of \<open>compress\<close> and \<open>getData\<close>: the announced length is that of the bytes delivered.\<close>

definition queue_frames :: "(NetPackage \<Rightarrow> byte list) \<Rightarrow> NetPackage list \<Rightarrow> fbs" where
  "queue_frames f q = concat (map (\<lambda>p. pkg_frames p (f p)) q)"

definition enc_of :: "(NetPackage \<Rightarrow> byte list) \<Rightarrow> enc" where
  "enc_of f = (\<lambda>p. (length (f p), Some (f p)))"

lemma pack_queue_fit:
  assumes "fIndex st < length (bp_frames st)" "mf_len (bp_frames st ! fIndex st) \<le> cap" "q \<noteq> []"
    and "nOffset st + length (stream (queue_frames f q)) < mf_len (bp_frames st ! fIndex st)"
    and "ts + i * SIZEOF_MSG \<le> nOffset st"
  shows "pack_queue (enc_of f) cap i ts q st = Inr (Done (i + length q) (advance (stream (queue_frames f q)) st))"
  using assms
proof (induction q arbitrary: i ts st)
  case (Cons p q)
  let ?s = "stream (pkg_frames p (f p))"
  have s: "stream (queue_frames f (p # q)) = ?s @ stream (queue_frames f q)" by (simp add: queue_frames_def)
  have fit: "nOffset st + length ?s < mf_len (bp_frames st ! fIndex st)" using Cons.prems(4) s by simp
  have b: "build_package p (f p) st = Inr (advance ?s st)" by (rule build_package_fit [OF Cons.prems(1) fit])
  have mn: "length (f p) + SIZEOF_MSG \<le> length ?s" by (rule pkg_frames_min)
  have cap: "\<not> cap < ts + length (f p) + (i + 1) * SIZEOF_MSG"
    using fit mn Cons.prems(2,5) by (simp add: algebra_simps)
  have one: "pack_queue (enc_of f) cap i ts (p # q) st = pack_queue (enc_of f) cap (i + 1) (ts + length (f p)) q (advance ?s st)"
    using cap b Cons.prems(1) by (simp add: enc_of_def)
  show ?case
  proof (cases "q = []")
    case True
    with one s show ?thesis by (simp add: queue_frames_def)
  next
    case False
    have "pack_queue (enc_of f) cap (i + 1) (ts + length (f p)) q (advance ?s st) =
        Inr (Done (i + 1 + length q) (advance (stream (queue_frames f q)) (advance ?s st)))"
    proof (rule Cons.IH)
      show "ts + length (f p) + (i + 1) * SIZEOF_MSG \<le> nOffset (advance ?s st)"
        using mn Cons.prems(5) by (simp add: algebra_simps)
    qed (use Cons.prems False s in auto)
    with one s show ?thesis by (simp add: advance_append [OF Cons.prems(1)])
  qed
qed simp

lemma Packaging_fit:
  assumes "q \<noteq> []" "length (stream (queue_frames f q)) < mf_len fr"
  shows "Packaging (Suc n) (enc_of f) q mem (fr # fs) =
     Some (Inr (length q, 1, \<lparr>bp_mem = put_bytes mem (m_buf fr) (stream (queue_frames f q)),
       bp_frames = ResetValidDataLen (length (stream (queue_frames f q))) fr # fs, fIndex = 0,
       pStart = m_buf fr + length (stream (queue_frames f q)), nOffset = length (stream (queue_frames f q))\<rparr>))"
  using pack_queue_fit [of "\<lparr>bp_mem = mem, bp_frames = fr # fs, fIndex = 0, pStart = m_buf fr, nOffset = 0\<rparr>"
      "mf_len fr + sum_list (map mf_len fs)" q f 0 0] assms
  by (simp add: advance_def)

text \<open>Where the frames of a stream are, and what their headers say.\<close>

fun frame_addrs :: "addr \<Rightarrow> fbs \<Rightarrow> addr list" where
  "frame_addrs a [] = []"
| "frame_addrs a ((h, d) # fs) = a # frame_addrs (a + SIZEOF_MSG + length d) fs"

definition holds_bytes :: "bmem \<Rightarrow> addr \<Rightarrow> byte list \<Rightarrow> bool" where
  "holds_bytes mem a bs \<longleftrightarrow> (\<forall>i < length bs. mem (a + i) = bs ! i)"

lemma holds_put: "holds_bytes (put_bytes mem a bs) a bs"
  by (simp add: holds_bytes_def put_bytes_at)

lemma holds_append: "holds_bytes mem a (xs @ ys) \<longleftrightarrow> holds_bytes mem a xs \<and> holds_bytes mem (a + length xs) ys"
proof
  assume h: "holds_bytes mem a (xs @ ys)"
  have "mem (a + i) = xs ! i" if "i < length xs" for i
    using h that by (auto simp: holds_bytes_def nth_append dest!: spec [of _ i])
  moreover have "mem (a + length xs + i) = ys ! i" if "i < length ys" for i
    using h that by (auto simp: holds_bytes_def nth_append add.assoc dest!: spec [of _ "length xs + i"])
  ultimately show "holds_bytes mem a xs \<and> holds_bytes mem (a + length xs) ys" by (simp add: holds_bytes_def)
next
  assume h: "holds_bytes mem a xs \<and> holds_bytes mem (a + length xs) ys"
  have "mem (a + i) = (xs @ ys) ! i" if "i < length (xs @ ys)" for i
  proof (cases "i < length xs")
    case True
    with h show ?thesis by (simp add: holds_bytes_def nth_append)
  next
    case False
    have "\<forall>j < length ys. mem (a + length xs + j) = ys ! j" using h by (simp add: holds_bytes_def)
    then have "mem (a + length xs + (i - length xs)) = ys ! (i - length xs)" using that False by (metis length_append less_diff_conv2 not_le add.commute)
    with False show ?thesis by (simp add: nth_append)
  qed
  then show "holds_bytes mem a (xs @ ys)" by (simp add: holds_bytes_def)
qed

lemma holds_map: "holds_bytes mem a bs \<Longrightarrow> map mem [a..<a + length bs] = bs"
  by (rule nth_equalityI) (simp_all add: holds_bytes_def)

lemma holds_frame:
  assumes "holds_bytes mem a (frame_bytes h d)" "length d \<le> 1000"
  shows "nDataLen (msg_at mem a) = length d" "nFrameLen (msg_at mem a) = SIZEOF_MSG + length d"
    "tFrames (msg_at mem a) = tFrames h mod 256" "ntimestamp (msg_at mem a) = ntimestamp h mod 18446744073709551616"
    "tSrcLen (msg_at mem a) = tSrcLen h mod 65536" "nFrames (msg_at mem a) = nFrames h mod 256"
    "map mem [a + SIZEOF_MSG..<a + SIZEOF_MSG + length d] = d"
proof -
  let ?h = "h\<lparr>nDataLen := length d, nFrameLen := SIZEOF_MSG + length d\<rparr>"
  have hb: "holds_bytes mem a (head_bytes ?h)" "holds_bytes mem (a + SIZEOF_MSG) d"
    using assms(1) by (simp_all add: frame_bytes_def holds_append)
  have m: "msg_at mem a = head_mod ?h" using hb(1) by (intro msg_at_bytes) (simp add: holds_bytes_def)
  show "nDataLen (msg_at mem a) = length d" "nFrameLen (msg_at mem a) = SIZEOF_MSG + length d"
    "tFrames (msg_at mem a) = tFrames h mod 256" "ntimestamp (msg_at mem a) = ntimestamp h mod 18446744073709551616"
    "tSrcLen (msg_at mem a) = tSrcLen h mod 65536" "nFrames (msg_at mem a) = nFrames h mod 256"
    using assms(2) by (simp_all add: m head_mod_def SIZEOF_MSG_def)
  show "map mem [a + SIZEOF_MSG..<a + SIZEOF_MSG + length d] = d" by (rule holds_map [OF hb(2)])
qed

lemma gather_stream:
  assumes "holds_bytes mem a (stream fs)" "\<And>h d. (h, d) \<in> set fs \<Longrightarrow> length d \<le> 1000"
    and "map m_buf frs = frame_addrs a fs" "length acc + length (concat (map snd fs)) \<le> mlen"
  shows "gather mem mlen frs acc = Inr (acc @ concat (map snd fs))"
  using assms
proof (induction fs arbitrary: a frs acc)
  case (Cons x fs)
  obtain h d where x: "x = (h, d)" by (cases x)
  then obtain f gs where frs: "frs = f # gs" "m_buf f = a" "map m_buf gs = frame_addrs (a + SIZEOF_MSG + length d) fs"
    using Cons.prems(3) by (cases frs) auto
  have hs: "holds_bytes mem a (frame_bytes h d)" "holds_bytes mem (a + SIZEOF_MSG + length d) (stream fs)"
    using Cons.prems(1) x by (simp_all add: holds_append add.assoc)
  have d: "length d \<le> 1000" using Cons.prems(2) [of h d] x by simp
  note fr = holds_frame(1,7) [OF hs(1) d]
  have "gather mem mlen gs (acc @ d) = Inr ((acc @ d) @ concat (map snd fs))"
    by (rule Cons.IH [OF hs(2) _ frs(3)]) (use Cons.prems(2,4) x in auto)
  then show ?case using Cons.prems(4) x by (simp add: frs fr)
qed simp

subsection \<open>Split headers\<close>

lemma set_valid_maps [simp]:
  "map m_buf (bp_frames (set_valid i n st)) = map m_buf (bp_frames st)"
  "map mf_len (bp_frames (set_valid i n st)) = map mf_len (bp_frames st)"
proof -
  have "map g ((bp_frames st)[i := y]) = map g (bp_frames st)" if "g y = g (bp_frames st ! i)" for g :: "MsgFrame \<Rightarrow> nat" and y
    by (cases "i < length (bp_frames st)") (simp_all add: map_update list_update_same_conv that list_update_beyond)
  then show "map m_buf (bp_frames (set_valid i n st)) = map m_buf (bp_frames st)"
    "map mf_len (bp_frames (set_valid i n st)) = map mf_len (bp_frames st)"
    by (simp_all add: set_valid_def ResetValidDataLen_def)
qed

lemma split_ptrs:
  assumes "start = tmp + avail" "avail < SIZEOF_MSG"
  shows "frame_len_ptrs tmp start avail = (tmp + 12, if avail = 12 then tmp + 12 else tmp + 13)"
    "data_len_ptrs tmp start avail = (tmp + 6, if avail = 6 then tmp + 6 else tmp + 7)"
  using assms by (auto simp: frame_len_ptrs_def data_len_ptrs_def)

lemma split_head_mem:
  assumes av: "avail < SIZEOF_MSG" and nxt: "fIndex st + 1 < length (bp_frames st)"
    "m_buf (bp_frames st ! (fIndex st + 1)) = pStart st + avail" and src: "length src \<le> 1000"
    and r: "build_split_head h src avail st = Inr st'"
  shows "bp_mem st' = (put_bytes (bp_mem st) (pStart st) (head_bytes h @ src))
     (pStart st + 12 := of_nat (SIZEOF_MSG + length src),
      (if avail = 12 then pStart st + 12 else pStart st + 13) := of_nat ((SIZEOF_MSG + length src) div 256),
      pStart st + 6 := of_nat (length src),
      (if avail = 6 then pStart st + 6 else pStart st + 7) := of_nat (length src div 256))"
    "pStart st' = pStart st + SIZEOF_MSG + length src" "nOffset st' = length src" "fIndex st' = fIndex st + 1"
    "map m_buf (bp_frames st') = map m_buf (bp_frames st)" "map mf_len (bp_frames st') = map mf_len (bp_frames st)"
proof -
  have l: "\<not> length (bp_frames st) \<le> fIndex st + 1" using nxt(1) by simp
  have nl: "\<not> TRANSFRAME - SIZEOF_MSG < length src" using src by (simp add: TRANSFRAME_def SIZEOF_MSG_def)
  have "put_bytes (put_bytes (bp_mem st) (pStart st) (take avail (head_bytes h))) (pStart st + avail) (drop avail (head_bytes h))
      = put_bytes (bp_mem st) (pStart st) (head_bytes h)"
    using put_bytes_append [of "bp_mem st" "pStart st" "take avail (head_bytes h)" "drop avail (head_bytes h)"] av by simp
  moreover have "put_bytes (put_bytes (bp_mem st) (pStart st) (head_bytes h)) (pStart st + avail + (SIZEOF_MSG - avail)) src
      = put_bytes (bp_mem st) (pStart st) (head_bytes h @ src)"
    using av by (simp add: put_bytes_append)
  ultimately show "bp_mem st' = (put_bytes (bp_mem st) (pStart st) (head_bytes h @ src))
     (pStart st + 12 := of_nat (SIZEOF_MSG + length src),
      (if avail = 12 then pStart st + 12 else pStart st + 13) := of_nat ((SIZEOF_MSG + length src) div 256),
      pStart st + 6 := of_nat (length src),
      (if avail = 6 then pStart st + 6 else pStart st + 7) := of_nat (length src div 256))"
    using r unfolding build_split_head_def if_not_P [OF l] Let_def nxt(2) if_not_P [OF nl] split_ptrs [OF refl av]
    by (auto simp: set_valid_def simp del: of_nat_add)
  show "pStart st' = pStart st + SIZEOF_MSG + length src" "nOffset st' = length src" "fIndex st' = fIndex st + 1"
    using r av unfolding build_split_head_def if_not_P [OF l] Let_def nxt(2) if_not_P [OF nl] split_ptrs [OF refl av]
    by (auto simp: set_valid_def)
  show "map m_buf (bp_frames st') = map m_buf (bp_frames st)" "map mf_len (bp_frames st') = map mf_len (bp_frames st)"
    using r unfolding build_split_head_def if_not_P [OF l] Let_def nxt(2) if_not_P [OF nl] split_ptrs [OF refl av]
    by (auto simp del: set_valid_def)
qed

lemma split_head_ok:
  "fIndex st + 1 < length (bp_frames st) \<Longrightarrow> \<exists>st'. build_split_head h src avail st = Inr st'"
  by (simp add: build_split_head_def Let_def split: prod.splits)

lemma split_head_msg:
  assumes "avail < SIZEOF_MSG" "fIndex st + 1 < length (bp_frames st)"
    "m_buf (bp_frames st ! (fIndex st + 1)) = pStart st + avail" "length src \<le> 1000"
    and "build_split_head h src avail st = Inr st'" "nFrameLen h = 0" "nDataLen h = 0"
  shows "nFrameLen (msg_at (bp_mem st') (pStart st)) =
      (if avail = 12 then (SIZEOF_MSG + length src) div 256 else SIZEOF_MSG + length src)"
    "nDataLen (msg_at (bp_mem st') (pStart st)) = (if avail = 6 then length src div 256 else length src)"
proof -
  note m = split_head_mem(1) [OF assms(1-5)]
  let ?a = "pStart st"
  have hb: "put_bytes (bp_mem st) ?a (head_bytes h @ src) (?a + i) = head_bytes h ! i" if "i < SIZEOF_MSG" for i
    using that by (simp add: put_bytes_at nth_append)
  have z: "put_bytes (bp_mem st) ?a (head_bytes h @ src) (?a + 13) = 0" "put_bytes (bp_mem st) ?a (head_bytes h @ src) (?a + 7) = 0"
    using hb [of 13] hb [of 7] assms(6,7) by (simp_all add: SIZEOF_MSG_def head_bytes_def le16_def)
  have len: "SIZEOF_MSG + length src < 65536" using assms(4) by (simp add: SIZEOF_MSG_def)
  have r: "unat (of_nat v :: byte) + 256 * unat (of_nat (v div 256) :: byte) = v" if "v < 65536" for v
  proof -
    have "v div 256 < 256" using that by (simp add: less_mult_imp_div_less)
    then show ?thesis by simp
  qed
  have hi: "unat (of_nat ((24 + length src) div 256) :: byte) = (24 + length src) div 256"
    "unat (of_nat (length src div 256) :: byte) = length src div 256"
    using assms(4) by (simp_all add: less_mult_imp_div_less)
  show "nFrameLen (msg_at (bp_mem st') ?a) =
      (if avail = 12 then (SIZEOF_MSG + length src) div 256 else SIZEOF_MSG + length src)"
    using r [OF len] len z(1) hi(1)
    by (simp add: m msg_at_def rd16_def SIZEOF_MSG_def add.commute [of 13] del: of_nat_add unat_of_nat8)
  show "nDataLen (msg_at (bp_mem st') ?a) = (if avail = 6 then length src div 256 else length src)"
    using r [of "length src"] len z(2) hi(2)
    by (simp add: m msg_at_def rd16_def SIZEOF_MSG_def add.commute [of 7] del: of_nat_add unat_of_nat8)
qed

subsection \<open>Properties\<close>

text \<open>
  Property C3: sending and reassembling agree. When the frames of a queue fit the first
  send buffer, \<open>Packaging\<close> takes the whole queue into that buffer, writing the frames one after
  the other and nothing else, and \<open>setMsgFrames\<close> on the frames of any package of the queue delivers
  exactly the bytes of that package, however many frames it was cut into.
\<close>

theorem Packaging_setMsgFrames_roundtrip:
  assumes "length (stream (queue_frames f (q1 @ p # q2))) < mf_len fr"
    and "map m_buf frs = frame_addrs (m_buf fr + length (stream (queue_frames f q1))) (pkg_frames p (f p))"
  shows "\<exists>st. Packaging (Suc n) (enc_of f) (q1 @ p # q2) mem (fr # fs) = Some (Inr (length q1 + Suc (length q2), 1, st)) \<and>
     m_nValidLen (hd (bp_frames st)) = length (stream (queue_frames f (q1 @ p # q2))) mod 65536 \<and>
     (\<forall>x. x < m_buf fr \<or> m_buf fr + length (stream (queue_frames f (q1 @ p # q2))) \<le> x \<longrightarrow> bp_mem st x = mem x) \<and>
     setMsgFrames (bp_mem st) False (length (f p)) frs (length frs) = Inr (f p)"
proof -
  let ?s = "stream (queue_frames f (q1 @ p # q2))"
  have split: "?s = stream (queue_frames f q1) @ stream (pkg_frames p (f p)) @ stream (queue_frames f q2)"
    by (simp add: queue_frames_def)
  let ?m = "put_bytes mem (m_buf fr) ?s"
  have "holds_bytes ?m (m_buf fr + length (stream (queue_frames f q1))) (stream (pkg_frames p (f p)))"
    using holds_put [of mem "m_buf fr" ?s] by (simp add: split holds_append)
  then have "gather ?m (length (f p)) frs [] = Inr ([] @ concat (map snd (pkg_frames p (f p))))"
    using assms(2) pkg_frames_len pkg_frames_data by (intro gather_stream) auto
  then have "setMsgFrames ?m False (length (f p)) frs (length frs) = Inr (f p)"
    by (simp add: setMsgFrames_def pkg_frames_data)
  then show ?thesis
    using Packaging_fit [OF _ assms(1), of n mem fs] by (auto simp: ResetValidDataLen_def put_bytes_other)
qed

theorem Packaging_setMsgFrames_roundtrip_witness:
  "\<exists>st. Packaging 1 (enc_of (\<lambda>p. replicate (m_len p) 7)) [NetPackage_new None 3 0, NetPackage_new None 2 0] (\<lambda>_. 0)
       [\<lparr>mf_len = 100, m_nValidLen = 0, m_index = 0, m_buf = 500\<rparr>] = Some (Inr (2, 1, st)) \<and>
     setMsgFrames (bp_mem st) False 2 [\<lparr>mf_len = 0, m_nValidLen = 0, m_index = 0, m_buf = 527\<rparr>] 1 = Inr [7, 7]"
proof -
  let ?f = "\<lambda>p. replicate (m_len p) 7 :: byte list"
  let ?p = "NetPackage_new None 3 0" and ?q = "NetPackage_new None 2 0"
  let ?fr = "\<lparr>mf_len = 100, m_nValidLen = 0, m_index = 0, m_buf = 500\<rparr>"
  let ?g = "\<lparr>mf_len = 0, m_nValidLen = 0, m_index = 0, m_buf = 527\<rparr>"
  have c: "chunks (replicate 3 7) = [replicate 3 7]" "chunks (replicate 2 7) = [replicate 2 (7 :: byte)]"
    by (simp_all add: chunks_eq frame_count_def TRANSFRAME_def SIZEOF_MSG_def)
  have l: "length (stream (queue_frames ?f [?p])) = 27" "length (stream (queue_frames ?f [?p, ?q])) = 53"
    by (simp_all add: queue_frames_def pkg_frames_def NetPackage_new_def c SIZEOF_MSG_def)
  have a: "frame_addrs 527 (pkg_frames ?q (?f ?q)) = [527]" by (simp add: pkg_frames_def NetPackage_new_def c)
  have h1: "length (stream (queue_frames ?f ([?p] @ ?q # []))) < mf_len ?fr" using l(2) by simp
  have h2: "map m_buf [?g] = frame_addrs (m_buf ?fr + length (stream (queue_frames ?f [?p]))) (pkg_frames ?q (?f ?q))"
    by (simp only: l(1)) (simp add: a)
  from Packaging_setMsgFrames_roundtrip [OF h1 h2, of 0 "\<lambda>_. 0" "[]"]
  obtain st where "Packaging (Suc 0) (enc_of ?f) ([?p] @ ?q # []) (\<lambda>_. 0) [?fr] = Some (Inr (length [?p] + Suc (length ([] :: NetPackage list)), 1, st))"
     "setMsgFrames (bp_mem st) False (length (?f ?q)) [?g] (length [?g]) = Inr (?f ?q)"
    by (elim exE conjE) blast
  then show ?thesis by (intro exI [of _ st]) (simp add: NetPackage_new_def numeral_2_eq_2)
qed

text \<open>
  Observation: a header that is split over two adjacent send buffers is reassembled to the right lengths except at two cut
  points. With 12 bytes left the high byte of \<open>nFrameLen\<close> is written over its low byte, with 6 bytes left
  the same happens to \<open>nDataLen\<close>: the receiver reads the length divided by 256.
\<close>

theorem split_header_lengths:
  assumes "avail < SIZEOF_MSG" "fIndex st + 1 < length (bp_frames st)"
    and "m_buf (bp_frames st ! (fIndex st + 1)) = pStart st + avail" "length src \<le> 1000"
  shows "\<exists>st'. build_split_head (frame_head p fc sl tot) src avail st = Inr st' \<and>
     nFrameLen (msg_at (bp_mem st') (pStart st)) =
       (if avail = 12 then (SIZEOF_MSG + length src) div 256 else SIZEOF_MSG + length src) \<and>
     nDataLen (msg_at (bp_mem st') (pStart st)) = (if avail = 6 then length src div 256 else length src)"
  using split_head_ok [OF assms(2)] split_head_msg [OF assms] by (metis MsgHead.select_convs(7,10) frame_head_def)

abbreviation two_bufs :: "nat \<Rightarrow> bpstate" where
  "two_bufs off \<equiv> \<lparr>bp_mem = (\<lambda>_. 0), bp_frames = [\<lparr>mf_len = 4096, m_nValidLen = 0, m_index = 0, m_buf = 1000\<rparr>,
     \<lparr>mf_len = 4096, m_nValidLen = 0, m_index = 1, m_buf = 5096\<rparr>], fIndex = 0, pStart = 1000 + off, nOffset = off\<rparr>"

theorem split_header_lengths_witness:
  "\<exists>st'. build_split_head (frame_head (NetPackage_new None 0 0) 0 100 1) (replicate 100 1) 12 (two_bufs 4084) = Inr st' \<and>
     nFrameLen (msg_at (bp_mem st') 5084) = 0"
  using split_header_lengths [of 12 "two_bufs 4084" "replicate 100 1" "NetPackage_new None 0 0" 0 100 1]
  by (auto simp: SIZEOF_MSG_def)

text \<open>
  Observation: after a split header the offset of the second buffer does not count the header bytes
  moved there. When the next frame fits behind it, the valid length set for the buffer falls short of the bytes
  written by exactly the number of those header bytes, so the end of the last frame is not sent.
\<close>

theorem split_header_truncates:
  assumes "avail < SIZEOF_MSG" "fIndex st + 1 < length (bp_frames st)"
    and "m_buf (bp_frames st ! (fIndex st + 1)) = pStart st + avail" "length src \<le> 1000"
    and "length src + SIZEOF_MSG + length src' < mf_len (bp_frames st ! (fIndex st + 1))"
    and "length src + SIZEOF_MSG + length src' < 65536"
  shows "\<exists>st1 st2. build_split_head h src avail st = Inr st1 \<and> BuildPackage (Some src') fc sl tot p st1 = Inr st2 \<and>
     m_nValidLen (bp_frames st2 ! fIndex st2) + (SIZEOF_MSG - avail) = pStart st2 - m_buf (bp_frames st2 ! fIndex st2)"
proof -
  obtain st1 where b1: "build_split_head h src avail st = Inr st1" using split_head_ok [OF assms(2)] by blast
  note m = split_head_mem [OF assms(1-4) b1]
  have len: "length (bp_frames st1) = length (bp_frames st)" using m(5) map_eq_imp_length_eq by blast
  have cap: "mf_len (bp_frames st1 ! fIndex st1) = mf_len (bp_frames st ! (fIndex st + 1))"
    and buf: "m_buf (bp_frames st1 ! fIndex st1) = m_buf (bp_frames st ! (fIndex st + 1))"
    using m(4-6) len assms(2) by (metis nth_map)+
  let ?f = "frame_bytes (frame_head p fc sl tot) src'"
  have b2: "BuildPackage (Some src') fc sl tot p st1 = Inr (advance ?f st1)"
    using assms(5) cap m(3) by (intro BuildPackage_fit) simp_all
  have i: "fIndex st1 < length (bp_frames st1)" using m(4) len assms(2) by simp
  have "m_nValidLen (bp_frames (advance ?f st1) ! fIndex st1) = length src + SIZEOF_MSG + length src'"
    "m_buf (bp_frames (advance ?f st1) ! fIndex st1) = pStart st + avail"
    using i m(3) buf assms(3,6) by (simp_all add: advance_def ResetValidDataLen_def)
  then show ?thesis using b1 b2 m(2) assms(1) by (intro exI [of _ st1] exI [of _ "advance ?f st1"]) simp
qed

theorem split_header_truncates_witness:
  "\<exists>st1 st2. build_split_head (frame_head (NetPackage_new None 0 0) 0 100 1) (replicate 100 1) 20 (two_bufs 4076) = Inr st1 \<and>
     BuildPackage (Some [1, 2]) 0 2 1 (NetPackage_new None 0 0) st1 = Inr st2 \<and>
     m_nValidLen (bp_frames st2 ! fIndex st2) + 4 = pStart st2 - m_buf (bp_frames st2 ! fIndex st2)"
  using split_header_truncates [of 20 "two_bufs 4076" "replicate 100 1" "[1, 2]"
      "frame_head (NetPackage_new None 0 0) 0 100 1" 0 2 1 "NetPackage_new None 0 0"]
  by (simp add: SIZEOF_MSG_def)

text \<open>
  Property C30: a first package larger than all send buffers never gets sent: the buffer added for it is an
  empty \<open>MsgFrame\<close>, so the jump back to \<open>RESTART\<close> repeats for ever and \<open>Packaging\<close> does not return.
\<close>

theorem Packaging_diverges:
  assumes "sum_list (map mf_len fs) < fst (enc p) + SIZEOF_MSG" "fs \<noteq> []"
  shows "Packaging n enc (p # q) mem fs = None"
  using assms
proof (induction n arbitrary: fs)
  case (Suc n)
  have "pack_queue enc (sum_list (map mf_len fs)) 0 0 (p # q)
      \<lparr>bp_mem = mem, bp_frames = fs, fIndex = 0, pStart = m_buf (hd fs), nOffset = 0\<rparr> = Inr Restart"
    using Suc.prems(1) by (cases "enc p") simp
  moreover have "Packaging n enc (p # q) mem (fs @ [MsgFrame_new]) = None"
    using Suc.prems by (intro Suc.IH) (simp_all add: MsgFrame_new_def)
  ultimately show ?case using Suc.prems(2) by simp
qed simp

theorem Packaging_diverges_witness:
  "\<forall>n. Packaging n (enc_of (\<lambda>p. replicate (m_len p) 7)) [NetPackage_new None 200 0] (\<lambda>_. 0)
     [\<lparr>mf_len = 100, m_nValidLen = 0, m_index = 0, m_buf = 500\<rparr>] = None"
  by (intro allI, rule Packaging_diverges) (simp_all add: enc_of_def NetPackage_new_def SIZEOF_MSG_def)

end
