(* ===== verification/PackPer.thy ===== *)
theory PackPer
  imports NetFrame
begin

text \<open>
  \<open>Net/PackPerData.cpp\<close>: one receive or send buffer of a session and the frame it holds. Buffers refer
  to each other (a frame that is cut by the end of one buffer is completed from the next), so the
  operations work on the list of the session's buffers; a pointer to another \<open>PackPerData\<close> is its
  position in that list. Requests posted to the network layer are logged in \<open>pp_reqs\<close>.
  The bit fields \<open>m_isFinish\<close>, \<open>m_index\<close>, \<open>m_nPost\<close> (4 bits) and \<open>m_nExtendLen\<close> (16 bits) wrap
  where they are assigned.
\<close>

record packper =
  m_isFinish :: nat
  pp_index :: nat
  m_nPost :: nat
  m_nExtendLen :: nat
  m_pExtendStart :: addr
  m_pPrevPerData :: "nat option"
  m_pDataCur :: addr
  m_frame :: MsgFrame

datatype postreq =
    RecvReq addr int nat "nat option" nat
  | SendReq addr int nat nat

record ppstate =
  pp_mem :: bmem
  pp_objs :: "packper list"
  pp_reqs :: "postreq list"

definition PackPerData_new :: "nat \<Rightarrow> addr \<Rightarrow> nat \<Rightarrow> packper" where
  "PackPerData_new nIndex buf sz =
     \<lparr>m_isFinish = 0, pp_index = nIndex mod 16, m_nPost = 0, m_nExtendLen = 0, m_pExtendStart = 0,
      m_pPrevPerData = None, m_pDataCur = 0,
      m_frame = MsgFrame_new\<lparr>m_buf := buf, mf_len := sz mod 65536, m_index := int nIndex\<rparr>\<rparr>"

definition upd_obj :: "nat \<Rightarrow> (packper \<Rightarrow> packper) \<Rightarrow> ppstate \<Rightarrow> ppstate" where
  "upd_obj i f st = st\<lparr>pp_objs := (pp_objs st)[i := f (pp_objs st ! i)]\<rparr>"

definition post :: "postreq \<Rightarrow> ppstate \<Rightarrow> ppstate" where
  "post r st = st\<lparr>pp_reqs := pp_reqs st @ [r]\<rparr>"

abbreviation pbuf :: "packper \<Rightarrow> addr" where
  "pbuf x \<equiv> m_buf (m_frame x)"

text \<open>\<open>memcpy\<close>, and the byte-by-byte loops that move data down.\<close>

definition memcpy :: "bmem \<Rightarrow> addr \<Rightarrow> addr \<Rightarrow> nat \<Rightarrow> bmem" where
  "memcpy mem d s n = put_bytes mem d (map mem [s..<s + n])"

fun copy_loop :: "bmem \<Rightarrow> addr \<Rightarrow> addr \<Rightarrow> nat \<Rightarrow> bmem" where
  "copy_loop mem d s 0 = mem"
| "copy_loop mem d s (Suc n) = copy_loop (mem(d := mem s)) (Suc d) (Suc s) n"

definition MoveExtendData :: "nat \<Rightarrow> ppstate \<Rightarrow> ppstate" where
  "MoveExtendData j st =
     (let o1 = pp_objs st ! j
      in if m_pExtendStart o1 \<noteq> 0 \<and> 0 < m_nExtendLen o1
         then upd_obj j (\<lambda>x. x\<lparr>m_pExtendStart := 0\<rparr>)
                (st\<lparr>pp_mem := copy_loop (pp_mem st) (pbuf o1) (m_pExtendStart o1) (m_nExtendLen o1)\<rparr>)
         else st)"

definition HasExtendData :: "packper \<Rightarrow> nat" where
  "HasExtendData o1 = m_nExtendLen o1"

text \<open>The checks on the header of the frame being completed.\<close>

definition check_frame :: "MsgHead \<Rightarrow> xerror option" where
  "check_frame h =
     (if tSrcLen h \<noteq> tDataLen h \<or> nFrameLen h < nDataLen h then Some (Throw ''error frame'')
      else if nFrameLen h < nDataLen h \<or> tDataLen h < nDataLen h \<or> tSrcLen h < nDataLen h
      then Some (Throw ''recv error'') else None)"

definition add_extend :: "nat \<Rightarrow> nat \<Rightarrow> ppstate \<Rightarrow> ppstate" where
  "add_extend j n = upd_obj j (\<lambda>x. x\<lparr>m_nExtendLen := (m_nExtendLen x + n) mod 65536\<rparr>)"

text \<open>Completing the frame left in buffer \<open>j\<close>: the bytes taken from buffer \<open>i\<close> and the length that is left.\<close>

definition fill_prev :: "nat \<Rightarrow> nat \<Rightarrow> nat \<Rightarrow> nat \<Rightarrow> ppstate \<Rightarrow> xerror + (nat \<times> ppstate)" where
  "fill_prev i j nPrevLen len st =
     (let buf = pbuf (pp_objs st ! i); pre = pbuf (pp_objs st ! j)
      in if SIZEOF_MSG < len then
           (let mem1 = (if nPrevLen < SIZEOF_MSG then memcpy (pp_mem st) (pre + nPrevLen) buf (SIZEOF_MSG - nPrevLen)
                        else pp_mem st);
                h = msg_at mem1 pre;
                nTotalCopy = int (nFrameLen h) - int nPrevLen
            in if tFrames h = 0 then Inl (Throw ''error recv'')
               else case check_frame h of
                 Some e \<Rightarrow> Inl e
               | None \<Rightarrow>
                   if nTotalCopy \<le> 0 then Inl (Throw ''logic error'')
                   else if nTotalCopy \<le> int len then
                     (let n = nat nTotalCopy;
                          mem2 = memcpy mem1 (pre + nPrevLen) buf n;
                          mem3 = copy_loop mem2 buf (buf + n) (len - n)
                      in Inr (len - n, add_extend j n (st\<lparr>pp_mem := mem3\<rparr>)))
                   else
                     Inr (0, add_extend j len (st\<lparr>pp_mem := memcpy mem1 (pre + nPrevLen) buf len\<rparr>)))
         else Inr (0, add_extend j len (st\<lparr>pp_mem := memcpy (pp_mem st) (pre + nPrevLen) buf len\<rparr>)))"

definition recv_prev :: "nat \<Rightarrow> nat option \<Rightarrow> nat \<Rightarrow> ppstate \<Rightarrow> xerror + (nat \<times> bool \<times> ppstate)" where
  "recv_prev i prev len st =
     (case prev of
        None \<Rightarrow> Inr (len, False, st)
      | Some j \<Rightarrow>
          (let nPrevLen = HasExtendData (pp_objs st ! j)
           in if nPrevLen = 0 then Inr (len, False, st)
              else case fill_prev i j nPrevLen len (MoveExtendData j st) of
                Inl e \<Rightarrow> Inl e
              | Inr (len', st1) \<Rightarrow>
                  (let h = msg_at (pp_mem st1) (pbuf (pp_objs st1 ! j))
                   in if m_nExtendLen (pp_objs st1 ! j) = nFrameLen h then
                        (case check_frame h of
                           Some e \<Rightarrow> Inl e
                         | None \<Rightarrow> Inr (len', True, upd_obj j (\<lambda>x. x\<lparr>m_isFinish := 1, m_nExtendLen := 0\<rparr>) st1))
                      else Inr (len', False, st1))))"

text \<open>
  \<open>RecvData\<close>: \<open>len\<close> bytes have arrived at \<open>pdata\<close>. The result is the return value, whether the
  previous frame was completed, and the new state.
\<close>

definition RecvData ::
  "nat \<Rightarrow> addr \<Rightarrow> nat \<Rightarrow> nat option \<Rightarrow> nat \<Rightarrow> ppstate \<Rightarrow> xerror + (int \<times> bool \<times> ppstate)" where
  "RecvData i pdata len0 prev node st =
     (case recv_prev i prev len0 st of
        Inl e \<Rightarrow> Inl e
      | Inr (len, flag, st1) \<Rightarrow>
          (let o1 = pp_objs st1 ! i;
               buf = pbuf o1;
               cur = pdata + len;
               st2 = upd_obj i (\<lambda>x. x\<lparr>m_pDataCur := cur\<rparr>) st1;
               h = msg_at (pp_mem st2) buf
           in if len = 0 then Inr (-3, flag, st2)
              else if int SIZEOF_MSG < int cur - int buf \<or> cur < buf then
                (if nFrameLen h = 0 then Inl (Throw ''error frame'')
                 else if mf_len (m_frame o1) < nFrameLen h
                 then Inr (-2, flag, upd_obj i (\<lambda>x. x\<lparr>m_pDataCur := buf, m_isFinish := 0\<rparr>) st2)
                 else
                   let rlen = int (buf + nFrameLen h) - int cur
                   in if rlen \<le> 0 then
                        (let ext = (if nFrameLen h < len then (len - nFrameLen h) mod 65536 else m_nExtendLen o1)
                         in if PERIOPOSTSIZE < ext then Inl (Throw ''error extend data'')
                            else Inr (0, flag, upd_obj i (\<lambda>x. x\<lparr>m_pDataCur := buf, m_isFinish := 1,
                                   m_nExtendLen := ext, m_pExtendStart := buf + nFrameLen h\<rparr>) st2))
                      else Inr (2, flag, post (RecvReq cur rlen (pp_index o1) prev node) st2))
              else Inr (1, flag, st2)))"

definition RecordSendData :: "nat \<Rightarrow> addr \<Rightarrow> nat \<Rightarrow> nat \<Rightarrow> ppstate \<Rightarrow> int \<times> ppstate" where
  "RecordSendData i pdata len node st =
     (if len = 0 then (-1, st)
      else
        let o1 = pp_objs st ! i;
            cur = pdata + len;
            fin = pbuf o1 + m_nValidLen (m_frame o1);
            st1 = upd_obj i (\<lambda>x. x\<lparr>m_pDataCur := cur\<rparr>) st
        in if cur \<le> fin then
             (if cur = fin
              then (0, upd_obj i (\<lambda>x. x\<lparr>m_pDataCur := pbuf o1, m_isFinish := 1,
                                         m_frame := ResetValidDataLen 0 (m_frame x)\<rparr>) st1)
              else (0, post (SendReq cur (int fin - int cur) (pp_index o1) node) st1))
           else (1, st1))"

definition ResetData :: "nat \<Rightarrow> ppstate \<Rightarrow> ppstate" where
  "ResetData i st =
     (let o1 = pp_objs st ! i
      in upd_obj i (\<lambda>x. x\<lparr>m_frame := ResetValidDataLen 0 (m_frame x)\<rparr>)
           (st\<lparr>pp_mem := mset0 (pp_mem st) (pbuf o1) (mf_len (m_frame o1))\<rparr>))"

definition PackPer_PostRecv :: "nat \<Rightarrow> nat option \<Rightarrow> nat \<Rightarrow> ppstate \<Rightarrow> ppstate" where
  "PackPer_PostRecv i prv node st =
     (let o1 = pp_objs st ! i
      in if 2 < m_nPost o1 then upd_obj i (\<lambda>x. x\<lparr>m_nPost := 0\<rparr>) st
         else if pbuf o1 = 0 then st
         else post (RecvReq (pbuf o1) (int (mf_len (m_frame o1))) (pp_index o1) prv node)
                (upd_obj i (\<lambda>x. x\<lparr>m_pDataCur := pbuf o1, m_nExtendLen := 0, m_nPost := 0,
                                   m_pPrevPerData := prv\<rparr>) st))"

definition PackPer_PostSend :: "nat \<Rightarrow> nat \<Rightarrow> ppstate \<Rightarrow> ppstate" where
  "PackPer_PostSend i node st =
     (let o1 = pp_objs st ! i
      in if 2 < m_nPost o1 then upd_obj i (\<lambda>x. x\<lparr>m_nPost := 0\<rparr>) st
         else
           let st1 = upd_obj i (\<lambda>x. x\<lparr>m_pDataCur := pbuf o1\<rparr>) st
           in if pbuf o1 = 0 then st1
              else if 0 < m_nValidLen (m_frame o1)
              then post (SendReq (pbuf o1) (int (m_nValidLen (m_frame o1))) (pp_index o1) node) st1
              else st1)"

definition IsComplate :: "packper \<Rightarrow> bool" where
  "IsComplate o1 \<longleftrightarrow> m_isFinish o1 \<noteq> 0"

definition SetNoticeStatus :: "bool \<Rightarrow> packper \<Rightarrow> packper" where
  "SetNoticeStatus f o1 = o1\<lparr>m_isFinish := (if f then 1 else 0)\<rparr>"

definition GetPrevIndex :: "ppstate \<Rightarrow> packper \<Rightarrow> int" where
  "GetPrevIndex st o1 = (case m_pPrevPerData o1 of None \<Rightarrow> -1 | Some j \<Rightarrow> int (pp_index (pp_objs st ! j)))"

definition GetCurComplateFrame :: "bmem \<Rightarrow> packper \<Rightarrow> MsgFrame" where
  "GetCurComplateFrame mem o1 =
     MsgFrame_new\<lparr>m_buf := pbuf o1, mf_len := nFrameLen (msg_at mem (pbuf o1)), m_index := int (pp_index o1)\<rparr>"

text \<open>The frames behind the first one: \<open>a\<close> is \<open>pStart + pOffset\<close>, \<open>ext\<close> is \<open>extendLen\<close>.\<close>

function split_loop :: "bmem \<Rightarrow> nat \<Rightarrow> addr \<Rightarrow> nat \<Rightarrow> MsgFrame list \<Rightarrow> MsgFrame list \<times> addr \<times> nat" where
  "split_loop mem idx a ext acc =
     (if SIZEOF_MSG < ext then
        (let n = nDataLen (msg_at mem a)
         in if n \<le> ext - SIZEOF_MSG
            then split_loop mem idx (a + SIZEOF_MSG + n) (ext - SIZEOF_MSG - n)
                   (acc @ [MsgFrame_new\<lparr>m_buf := a, mf_len := n, m_index := int idx\<rparr>])
            else (acc, a, ext))
      else (acc, a, ext))"
  by pat_completeness auto
termination
  by (relation "measure (\<lambda>(mem, idx, a, ext, acc). ext)") (auto simp: SIZEOF_MSG_def)

declare split_loop.simps [simp del]

definition GetOtherFrameCount :: "nat \<Rightarrow> MsgFrame list \<Rightarrow> ppstate \<Rightarrow> nat \<times> MsgFrame list \<times> ppstate" where
  "GetOtherFrameCount i vFrames st =
     (let o1 = pp_objs st ! i;
          (fs, a, ext) = split_loop (pp_mem st) (pp_index o1) (pbuf o1 + nFrameLen (msg_at (pp_mem st) (pbuf o1)))
                           (m_nExtendLen o1) []
      in (length fs, vFrames @ fs, upd_obj i (\<lambda>x. x\<lparr>m_nExtendLen := ext, m_pExtendStart := a\<rparr>) st))"

definition RestRecvFlag :: "packper \<Rightarrow> packper" where
  "RestRecvFlag o1 = o1\<lparr>m_pPrevPerData := None\<rparr>"

definition ResetIndex :: "nat \<Rightarrow> packper \<Rightarrow> packper" where
  "ResetIndex k o1 = o1\<lparr>pp_index := k mod 16, m_frame := (m_frame o1)\<lparr>m_index := int (k mod 16)\<rparr>\<rparr>"

subsection \<open>Copying\<close>

lemma copy_loop_put: "d \<le> s \<Longrightarrow> copy_loop mem d s n = memcpy mem d s n"
proof (induction mem d s n rule: copy_loop.induct)
  case (2 mem d s n)
  have "map (mem(d := mem s)) [Suc s..<Suc s + n] = map mem [Suc s..<Suc s + n]" using 2(2) by auto
  then show ?case using 2 by (simp add: memcpy_def upt_conv_Cons del: upt_Suc fun_upd_apply)
qed (simp add: memcpy_def)

lemma memcpy_holds: "holds_bytes mem s bs \<Longrightarrow> holds_bytes (memcpy mem d s (length bs)) d bs"
  using holds_put [of mem d bs] by (simp add: memcpy_def holds_map)

lemma memcpy_other: "x < d \<or> d + n \<le> x \<Longrightarrow> memcpy mem d s n x = mem x"
  by (simp add: memcpy_def put_bytes_other)

lemma holds_cong:
  assumes "holds_bytes mem a bs" "\<And>x. a \<le> x \<Longrightarrow> x < a + length bs \<Longrightarrow> mem' x = mem x"
  shows "holds_bytes mem' a bs"
  using assms by (simp add: holds_bytes_def)

lemma memcpy_keeps:
  assumes "holds_bytes mem a bs" "a + length bs \<le> d \<or> d + n \<le> a"
  shows "holds_bytes (memcpy mem d s n) a bs"
  using assms(2) by (intro holds_cong [OF assms(1)]) (auto intro!: memcpy_other)

lemma holds_take: "holds_bytes mem a bs \<Longrightarrow> holds_bytes mem a (take n bs)"
  by (simp add: holds_bytes_def)

subsection \<open>Splitting what arrived\<close>

fun frames_at :: "nat \<Rightarrow> addr \<Rightarrow> fbs \<Rightarrow> MsgFrame list" where
  "frames_at idx a [] = []"
| "frames_at idx a ((h, d) # fs) =
     MsgFrame_new\<lparr>m_buf := a, mf_len := length d, m_index := int idx\<rparr> # frames_at idx (a + SIZEOF_MSG + length d) fs"

lemma frames_at_addrs: "map m_buf (frames_at idx a fs) = frame_addrs a fs"
  by (induction idx a fs rule: frames_at.induct) simp_all

lemma frame_addrs_length: "length (frame_addrs a fs) = length fs"
  by (induction a fs rule: frame_addrs.induct) simp_all

text \<open>The rest of the buffer is not a complete frame.\<close>

definition partial_frame :: "bmem \<Rightarrow> addr \<Rightarrow> nat \<Rightarrow> bool" where
  "partial_frame mem a n \<longleftrightarrow> n \<le> SIZEOF_MSG \<or> n - SIZEOF_MSG < nDataLen (msg_at mem a)"

lemma split_loop_stream:
  assumes "holds_bytes mem a (stream fs)" "\<And>h d. (h, d) \<in> set fs \<Longrightarrow> 0 < length d \<and> length d \<le> 1000"
    and "partial_frame mem (a + length (stream fs)) n"
  shows "split_loop mem idx a (length (stream fs) + n) acc = (acc @ frames_at idx a fs, a + length (stream fs), n)"
  using assms
proof (induction fs arbitrary: a acc)
  case Nil
  then show ?case by (auto simp: split_loop.simps [of mem idx a n] partial_frame_def Let_def)
next
  case (Cons x fs)
  obtain h d where x: "x = (h, d)" by (cases x)
  have hs: "holds_bytes mem a (frame_bytes h d)" "holds_bytes mem (a + SIZEOF_MSG + length d) (stream fs)"
    using Cons.prems(1) x by (simp_all add: holds_append add.assoc)
  have d: "0 < length d" "length d \<le> 1000" using Cons.prems(2) [of h d] x by auto
  note fr = holds_frame(1) [OF hs(1) d(2)]
  let ?e = "SIZEOF_MSG + length d + length (stream fs) + n"
  let ?f = "MsgFrame_new\<lparr>m_buf := a, mf_len := length d, m_index := int idx\<rparr>"
  have pf: "partial_frame mem (a + SIZEOF_MSG + length d + length (stream fs)) n"
    using Cons.prems(3) x by (simp add: add.assoc)
  have c: "SIZEOF_MSG < ?e" "length d \<le> ?e - SIZEOF_MSG" "?e - SIZEOF_MSG - length d = length (stream fs) + n"
    using d(1) by simp_all
  have "split_loop mem idx a ?e acc = split_loop mem idx (a + SIZEOF_MSG + length d) (length (stream fs) + n) (acc @ [?f])"
    using c by (simp only: split_loop.simps [of mem idx a ?e] fr Let_def if_True)
  also have "\<dots> = ((acc @ [?f]) @ frames_at idx (a + SIZEOF_MSG + length d) fs, a + SIZEOF_MSG + length d + length (stream fs), n)"
    using Cons.prems(2) by (intro Cons.IH [OF hs(2) _ pf]) auto
  finally show ?case using x by (simp add: add.assoc)
qed

text \<open>The buffer's own frame, after the previous one has been dealt with.\<close>

lemma RecvData_own:
  assumes rp: "recv_prev i prev len0 st = Inr (SIZEOF_MSG + length d + length rest, flag, st1)"
    and i: "i < length (pp_objs st1)" and hb: "holds_bytes (pp_mem st1) (pbuf (pp_objs st1 ! i)) (frame_bytes h d @ rest)"
    and d: "length d \<le> 1000" "0 < length d + length rest" and cap: "SIZEOF_MSG + length d \<le> mf_len (m_frame (pp_objs st1 ! i))"
    and rest: "length rest \<le> PERIOPOSTSIZE" and ext: "m_nExtendLen (pp_objs st1 ! i) = 0"
  shows "RecvData i (pbuf (pp_objs st1 ! i)) len0 prev node st =
     Inr (0, flag, upd_obj i (\<lambda>x. x\<lparr>m_pDataCur := pbuf (pp_objs st1 ! i), m_isFinish := 1, m_nExtendLen := length rest,
        m_pExtendStart := pbuf (pp_objs st1 ! i) + (SIZEOF_MSG + length d)\<rparr>) st1)"
proof -
  let ?b = "pbuf (pp_objs st1 ! i)"
  have h: "holds_bytes (pp_mem st1) ?b (frame_bytes h d)" using hb by (simp add: holds_append)
  note fr = holds_frame(2) [OF h d(1)]
  have r: "length rest mod 65536 = length rest" using rest by (simp add: PERIOPOSTSIZE_def)
  have pos: "0 < int (length d) + int (length rest)" using d(2) by linarith
  show ?thesis
    using i fr pos cap rest r ext
    by (auto simp: RecvData_def rp Let_def upd_obj_def SIZEOF_MSG_def)
qed

lemma frames_at_length [simp]: "length (frames_at idx a fs) = length fs"
  by (induction idx a fs rule: frames_at.induct) simp_all

lemma GetOther_stream:
  assumes "i < length (pp_objs st)" "nFrameLen (msg_at (pp_mem st) (pbuf (pp_objs st ! i))) = n"
    and "m_nExtendLen (pp_objs st ! i) = length (stream fs) + k"
    and "holds_bytes (pp_mem st) (pbuf (pp_objs st ! i) + n) (stream fs)"
    and "\<And>h d. (h, d) \<in> set fs \<Longrightarrow> 0 < length d \<and> length d \<le> 1000"
    and "partial_frame (pp_mem st) (pbuf (pp_objs st ! i) + n + length (stream fs)) k"
  shows "GetOtherFrameCount i vs st = (length fs, vs @ frames_at (pp_index (pp_objs st ! i)) (pbuf (pp_objs st ! i) + n) fs,
     upd_obj i (\<lambda>x. x\<lparr>m_nExtendLen := k, m_pExtendStart := pbuf (pp_objs st ! i) + n + length (stream fs)\<rparr>) st)"
  unfolding GetOtherFrameCount_def Let_def assms(2,3)
  using split_loop_stream [OF assms(4) assms(5) assms(6), where idx = "pp_index (pp_objs st ! i)" and acc = "[]"] by simp

lemma addrs_hold:
  assumes "holds_bytes mem a (stream fs)" "x \<in> set (frame_addrs a fs)"
  shows "\<exists>h d. (h, d) \<in> set fs \<and> holds_bytes mem x (frame_bytes h d)"
  using assms
proof (induction fs arbitrary: a)
  case (Cons y fs)
  obtain h d where y: "y = (h, d)" by (cases y)
  have hs: "holds_bytes mem a (frame_bytes h d)" "holds_bytes mem (a + SIZEOF_MSG + length d) (stream fs)"
    using Cons.prems(1) y by (simp_all add: holds_append add.assoc)
  show ?case
  proof (cases "x = a")
    case True
    with hs(1) y show ?thesis by auto
  next
    case False
    then have "x \<in> set (frame_addrs (a + SIZEOF_MSG + length d) fs)" using Cons.prems(2) y by auto
    from Cons.IH [OF hs(2) this] show ?thesis by auto
  qed
qed simp

subsection \<open>A frame cut by the end of a buffer\<close>

text \<open>
  Buffer \<open>j\<close> has kept the first part \<open>A\<close> of the frame \<open>h\<close>, \<open>d\<close>; buffer \<open>i\<close> now has the second part \<open>B\<close> and what
  follows. The buffers do not overlap.
\<close>

definition cut_frame :: "nat \<Rightarrow> nat \<Rightarrow> MsgHead \<Rightarrow> byte list \<Rightarrow> byte list \<Rightarrow> byte list \<Rightarrow> byte list \<Rightarrow> ppstate \<Rightarrow> bool" where
  "cut_frame i j h d A B rest st \<longleftrightarrow>
     (let oi = pp_objs st ! i; oj = pp_objs st ! j
      in i < length (pp_objs st) \<and> j < length (pp_objs st) \<and> i \<noteq> j \<and> A @ B = frame_bytes h d \<and> A \<noteq> [] \<and> B \<noteq> [] \<and>
         m_nExtendLen oj = length A \<and> m_pExtendStart oj \<noteq> 0 \<and> pbuf oj \<le> m_pExtendStart oj \<and>
         holds_bytes (pp_mem st) (m_pExtendStart oj) A \<and> holds_bytes (pp_mem st) (pbuf oi) (B @ rest) \<and>
         (pbuf oj + length (A @ B) \<le> pbuf oi \<or> pbuf oi + length (B @ rest) \<le> pbuf oj))"

definition head_ok :: "MsgHead \<Rightarrow> byte list \<Rightarrow> bool" where
  "head_ok h d \<longleftrightarrow> length d \<le> 1000 \<and> tFrames h mod 256 \<noteq> 0 \<and> tSrcLen h = tDataLen h \<and> length d \<le> tSrcLen h mod 65536"

lemma holds_head:
  assumes "holds_bytes mem a (take SIZEOF_MSG (frame_bytes h d))"
  shows "msg_at mem a = head_mod (h\<lparr>nDataLen := length d, nFrameLen := SIZEOF_MSG + length d\<rparr>)"
  using assms by (intro msg_at_bytes) (simp add: holds_bytes_def frame_bytes_def)

lemma head_ok_check:
  assumes "head_ok h d" "msg_at mem a = head_mod (h\<lparr>nDataLen := length d, nFrameLen := SIZEOF_MSG + length d\<rparr>)"
  shows "check_frame (msg_at mem a) = None" "tFrames (msg_at mem a) \<noteq> 0" "nFrameLen (msg_at mem a) = SIZEOF_MSG + length d"
  using assms by (auto simp: head_ok_def check_frame_def head_mod_def SIZEOF_MSG_def)

text \<open>The memory after the header bytes have been brought together, and after the whole frame has.\<close>

lemma cut_frame_mem:
  assumes A: "holds_bytes mem pre A" and B: "holds_bytes mem buf (B @ rest)"
    and F: "A @ B = frame_bytes h d"
    and dis: "pre + length (A @ B) \<le> buf \<or> buf + length (B @ rest) \<le> pre"
    and m1: "mem1 = (if length A < SIZEOF_MSG then memcpy mem (pre + length A) buf (SIZEOF_MSG - length A) else mem)"
    and m2: "mem2 = memcpy mem1 (pre + length A) buf (length B)"
    and m3: "mem3 = copy_loop mem2 buf (buf + length B) (length rest)"
  shows "holds_bytes mem1 pre (take SIZEOF_MSG (frame_bytes h d))" "holds_bytes mem3 pre (frame_bytes h d)"
    "holds_bytes mem3 buf rest"
proof -
  have lF: "length A + length B = SIZEOF_MSG + length d" using arg_cong [OF F, of length] by simp
  let ?k = "SIZEOF_MSG - length A"
  have kB: "?k \<le> length B" using lF by linarith
  have A1: "holds_bytes mem1 pre A" using A memcpy_keeps [OF A] by (auto simp: m1)
  have Bk: "holds_bytes mem1 (pre + length A) (take ?k B)"
  proof (cases "length A < SIZEOF_MSG")
    case True
    have "holds_bytes mem buf (take ?k B)" using B by (simp add: holds_append holds_take)
    from memcpy_holds [OF this, of "pre + length A"] kB True show ?thesis by (simp add: m1 min_absorb2)
  qed (simp add: holds_bytes_def)
  have "take SIZEOF_MSG (frame_bytes h d) = take SIZEOF_MSG A @ take ?k B" unfolding F [symmetric] by simp
  then show "holds_bytes mem1 pre (take SIZEOF_MSG (frame_bytes h d))"
    using holds_take [OF A1, of SIZEOF_MSG] Bk
    by (cases "length A \<le> SIZEOF_MSG") (simp_all add: holds_append)
  have B1: "holds_bytes mem1 buf (B @ rest)"
    using B dis kB by (auto simp: m1 intro!: memcpy_keeps)
  then have B1': "holds_bytes mem1 buf B" "holds_bytes mem1 (buf + length B) rest" by (simp_all add: holds_append)
  have A2: "holds_bytes mem2 pre A" unfolding m2 by (rule memcpy_keeps [OF A1]) simp
  have F2: "holds_bytes mem2 pre (frame_bytes h d)"
    using A2 memcpy_holds [OF B1'(1), of "pre + length A"] by (simp add: F [symmetric] holds_append m2)
  have R2: "holds_bytes mem2 (buf + length B) rest"
    unfolding m2 using dis by (intro memcpy_keeps [OF B1'(2)]) auto
  have m3': "mem3 = memcpy mem2 buf (buf + length B) (length rest)" unfolding m3 by (rule copy_loop_put) simp
  show "holds_bytes mem3 pre (frame_bytes h d)"
    unfolding m3' using dis lF by (intro memcpy_keeps [OF F2]) auto
  show "holds_bytes mem3 buf rest" unfolding m3' by (rule memcpy_holds [OF R2])
qed

lemma recv_prev_completes:
  assumes c: "cut_frame i j h d A B rest st" and h: "head_ok h d" and len: "SIZEOF_MSG < length (B @ rest)"
  shows "\<exists>st'. recv_prev i (Some j) (length (B @ rest)) st = Inr (length rest, True, st') \<and>
     holds_bytes (pp_mem st') (pbuf (pp_objs st ! j)) (frame_bytes h d) \<and>
     holds_bytes (pp_mem st') (pbuf (pp_objs st ! i)) rest \<and>
     pp_objs st' = (pp_objs st)[j := (pp_objs st ! j)\<lparr>m_pExtendStart := 0, m_isFinish := 1, m_nExtendLen := 0\<rparr>] \<and>
     pp_reqs st' = pp_reqs st"
proof -
  let ?oi = "pp_objs st ! i" and ?oj = "pp_objs st ! j"
  have ij: "i < length (pp_objs st)" "j < length (pp_objs st)" "i \<noteq> j" and F: "A @ B = frame_bytes h d" "A \<noteq> []" "B \<noteq> []"
    and ext: "m_nExtendLen ?oj = length A" "m_pExtendStart ?oj \<noteq> 0" "pbuf ?oj \<le> m_pExtendStart ?oj"
    and hA: "holds_bytes (pp_mem st) (m_pExtendStart ?oj) A" and hB: "holds_bytes (pp_mem st) (pbuf ?oi) (B @ rest)"
    and dis: "pbuf ?oj + length (A @ B) \<le> pbuf ?oi \<or> pbuf ?oi + length (B @ rest) \<le> pbuf ?oj"
    using c unfolding cut_frame_def Let_def by blast+
  have lF: "length A + length B = SIZEOF_MSG + length d" using arg_cong [OF F(1), of length] by simp
  have lt: "length A + length B < 65536" using h lF by (simp add: head_ok_def SIZEOF_MSG_def)
  let ?mem0 = "memcpy (pp_mem st) (pbuf ?oj) (m_pExtendStart ?oj) (length A)"
  let ?st0 = "upd_obj j (\<lambda>x. x\<lparr>m_pExtendStart := 0\<rparr>) (st\<lparr>pp_mem := ?mem0\<rparr>)"
  have mv: "MoveExtendData j st = ?st0"
    using ext F(2) copy_loop_put [OF ext(3)] by (simp add: MoveExtendData_def Let_def)
  have h0A: "holds_bytes ?mem0 (pbuf ?oj) A" by (rule memcpy_holds [OF hA])
  have h0B: "holds_bytes ?mem0 (pbuf ?oi) (B @ rest)" using dis by (intro memcpy_keeps [OF hB]) auto
  let ?mem1 = "if length A < SIZEOF_MSG then memcpy ?mem0 (pbuf ?oj + length A) (pbuf ?oi) (SIZEOF_MSG - length A) else ?mem0"
  let ?mem2 = "memcpy ?mem1 (pbuf ?oj + length A) (pbuf ?oi) (length B)"
  let ?mem3 = "copy_loop ?mem2 (pbuf ?oi) (pbuf ?oi + length B) (length rest)"
  note cm = cut_frame_mem [OF h0A h0B F(1) dis refl refl refl]
  note ck1 = head_ok_check [OF h holds_head [OF cm(1)]]
  have "holds_bytes ?mem3 (pbuf ?oj) (take SIZEOF_MSG (frame_bytes h d))" by (rule holds_take [OF cm(2)])
  note ck3 = head_ok_check [OF h holds_head [OF this]]
  have tc: "int (SIZEOF_MSG + length d) - int (length A) = int (length B)" using lF by linarith
  define st0 where "st0 = ?st0"
  define st1 where "st1 = add_extend j (length B) (st0\<lparr>pp_mem := ?mem3\<rparr>)"
  have fill: "fill_prev i j (length A) (length (B @ rest)) st0 = Inr (length rest, st1)"
  proof -
    have o: "pbuf (pp_objs st0 ! i) = pbuf ?oi" "pbuf (pp_objs st0 ! j) = pbuf ?oj" "pp_mem st0 = ?mem0"
      using ij by (simp_all add: st0_def upd_obj_def)
    show ?thesis
      unfolding fill_prev_def Let_def o if_P [OF len] ck1(1,3) tc option.case
      using ck1(2) F(3) by (simp add: st1_def)
  qed
  have o1: "pp_objs st1 = (pp_objs st)[j := ?oj\<lparr>m_pExtendStart := 0, m_nExtendLen := length A + length B\<rparr>]"
    "pp_mem st1 = ?mem3" "pp_reqs st1 = pp_reqs st"
    using ij ext(1) lt by (simp_all add: st1_def st0_def add_extend_def upd_obj_def)
  have ne: "HasExtendData ?oj \<noteq> 0" "HasExtendData ?oj = length A" using ext(1) F(2) by (simp_all add: HasExtendData_def)
  let ?st2 = "upd_obj j (\<lambda>x. x\<lparr>m_isFinish := 1, m_nExtendLen := 0\<rparr>) st1"
  have "m_nExtendLen (pp_objs st1 ! j) = SIZEOF_MSG + length d" "pbuf (pp_objs st1 ! j) = pbuf ?oj"
    using o1(1) ij lF by simp_all
  then have "recv_prev i (Some j) (length (B @ rest)) st = Inr (length rest, True, ?st2)"
    unfolding recv_prev_def option.case Let_def if_not_P [OF ne(1)] mv [folded st0_def] ne(2) fill sum.case prod.case o1(2)
    using F(2) by (simp only: ck3 option.case if_True length_0_conv if_False simp_thms)
  moreover have "pp_objs ?st2 = (pp_objs st)[j := ?oj\<lparr>m_pExtendStart := 0, m_isFinish := 1, m_nExtendLen := 0\<rparr>]"
    using o1(1) ij by (simp add: upd_obj_def)
  moreover have "pp_mem ?st2 = ?mem3" "pp_reqs ?st2 = pp_reqs st" using o1(2,3) by (simp_all add: upd_obj_def)
  ultimately show ?thesis using cm(2,3) by (intro exI [of _ ?st2]) simp
qed

subsection \<open>Properties\<close>

text \<open>
  Property C20: when a buffer receives a whole number of frames and possibly the beginning of another,
  \<open>RecvData\<close> completes the first frame and \<open>GetOtherFrameCount\<close> finds the others: together they report exactly
  the frames that were sent, in order and at their addresses, and keep the unfinished rest as extend data.
\<close>

theorem RecvData_splits_stream:
  assumes "i < length (pp_objs st)" "o1 = pp_objs st ! i" "m_nExtendLen o1 = 0"
    and "holds_bytes (pp_mem st) (pbuf o1) (stream ((h, d) # fs) @ tail)"
    and "\<forall>x \<in> set ((h, d) # fs). 0 < length (snd x) \<and> length (snd x) \<le> 1000"
    and "length (stream ((h, d) # fs) @ tail) \<le> PERIOPOSTSIZE" "mf_len (m_frame o1) = PERIOPOSTSIZE"
    and "partial_frame (pp_mem st) (pbuf o1 + length (stream ((h, d) # fs))) (length tail)"
  shows "\<exists>st1 st2 others. RecvData i (pbuf o1) (length (stream ((h, d) # fs) @ tail)) None node st = Inr (0, False, st1) \<and>
     IsComplate (pp_objs st1 ! i) \<and> pp_mem st1 = pp_mem st \<and>
     GetOtherFrameCount i [GetCurComplateFrame (pp_mem st1) (pp_objs st1 ! i)] st1 =
       (length fs, GetCurComplateFrame (pp_mem st1) (pp_objs st1 ! i) # others, st2) \<and>
     map m_buf (GetCurComplateFrame (pp_mem st1) (pp_objs st1 ! i) # others) = frame_addrs (pbuf o1) ((h, d) # fs) \<and>
     m_nExtendLen (pp_objs st2 ! i) = length tail \<and>
     m_pExtendStart (pp_objs st2 ! i) = pbuf o1 + length (stream ((h, d) # fs))"
proof -
  let ?b = "pbuf o1"
  let ?rest = "stream fs @ tail"
  have d: "0 < length d" "length d \<le> 1000" using assms(5) by simp_all
  have hb: "holds_bytes (pp_mem st) ?b (frame_bytes h d @ ?rest)" using assms(4) by simp
  have len: "length (stream ((h, d) # fs) @ tail) = SIZEOF_MSG + length d + length ?rest" by simp
  let ?st1 = "upd_obj i (\<lambda>x. x\<lparr>m_pDataCur := ?b, m_isFinish := 1, m_nExtendLen := length ?rest,
        m_pExtendStart := ?b + (SIZEOF_MSG + length d)\<rparr>) st"
  have r: "RecvData i ?b (length (stream ((h, d) # fs) @ tail)) None node st = Inr (0, False, ?st1)"
    unfolding len assms(2)
  proof (rule RecvData_own)
    show "recv_prev i None (SIZEOF_MSG + length d + length ?rest) st = Inr (SIZEOF_MSG + length d + length ?rest, False, st)"
      by (simp add: recv_prev_def)
    show "holds_bytes (pp_mem st) (pbuf (pp_objs st ! i)) (frame_bytes h d @ ?rest)" using hb assms(2) by simp
    show "m_nExtendLen (pp_objs st ! i) = 0" using assms(2,3) by simp
    show "SIZEOF_MSG + length d \<le> mf_len (m_frame (pp_objs st ! i))" using assms(2,6,7) by simp
    show "length ?rest \<le> PERIOPOSTSIZE" using assms(6) by simp
  qed (use d assms(1) in simp_all)
  have o: "pbuf (pp_objs ?st1 ! i) = ?b" "m_nExtendLen (pp_objs ?st1 ! i) = length (stream fs) + length tail"
    "pp_mem ?st1 = pp_mem st" "IsComplate (pp_objs ?st1 ! i)" "pp_index (pp_objs ?st1 ! i) = pp_index o1"
    using assms(1,2) by (simp_all add: upd_obj_def IsComplate_def)
  have hs: "holds_bytes (pp_mem st) ?b (frame_bytes h d)" "holds_bytes (pp_mem st) (?b + (SIZEOF_MSG + length d)) (stream fs)"
    using hb by (simp_all add: holds_append)
  have nf: "nFrameLen (msg_at (pp_mem st) ?b) = SIZEOF_MSG + length d" by (rule holds_frame(2) [OF hs(1) d(2)])
  have pf: "partial_frame (pp_mem st) (?b + (SIZEOF_MSG + length d) + length (stream fs)) (length tail)"
    using assms(8) by (simp add: add.assoc)
  have sp: "split_loop (pp_mem st) (pp_index o1) (?b + (SIZEOF_MSG + length d)) (length (stream fs) + length tail) [] =
      (frames_at (pp_index o1) (?b + (SIZEOF_MSG + length d)) fs, ?b + (SIZEOF_MSG + length d) + length (stream fs), length tail)"
    using split_loop_stream [OF hs(2) _ pf, of "pp_index o1" "[]"] assms(5) by force
  let ?others = "frames_at (pp_index o1) (?b + (SIZEOF_MSG + length d)) fs"
  let ?st2 = "upd_obj i (\<lambda>x. x\<lparr>m_nExtendLen := length tail, m_pExtendStart := ?b + (SIZEOF_MSG + length d) + length (stream fs)\<rparr>) ?st1"
  let ?cur = "GetCurComplateFrame (pp_mem ?st1) (pp_objs ?st1 ! i)"
  have lo: "length ?others = length fs"
    by (metis frames_at_addrs length_map map_eq_imp_length_eq frame_addrs_length)
  have g: "GetOtherFrameCount i [?cur] ?st1 = (length fs, ?cur # ?others, ?st2)"
    unfolding GetOtherFrameCount_def Let_def o nf sp prod.case lo by simp
  have m: "map m_buf (?cur # ?others) = frame_addrs ?b ((h, d) # fs)"
    using o(1) by (simp add: frames_at_addrs GetCurComplateFrame_def add.assoc)
  have e: "m_nExtendLen (pp_objs ?st2 ! i) = length tail" "m_pExtendStart (pp_objs ?st2 ! i) = ?b + length (stream ((h, d) # fs))"
    using assms(1) by (simp_all add: upd_obj_def)
  show ?thesis using r o(3,4) g m e by blast
qed

abbreviation sample_frames :: fbs where
  "sample_frames \<equiv> [(frame_head (NetPackage_new None 1 0) 0 1 1, [5]), (frame_head (NetPackage_new None 2 0) 0 2 1, [6, 7])]"

abbreviation sample_recv :: ppstate where
  "sample_recv \<equiv> \<lparr>pp_mem = put_bytes (\<lambda>_. 0) 1000 (stream sample_frames),
     pp_objs = [PackPerData_new 0 1000 4096, PackPerData_new 1 5096 4096], pp_reqs = []\<rparr>"

theorem RecvData_splits_stream_witness:
  "\<exists>st1. RecvData 0 1000 51 None 0 sample_recv = Inr (0, False, st1) \<and> IsComplate (pp_objs st1 ! 0) \<and>
     fst (GetOtherFrameCount 0 [GetCurComplateFrame (pp_mem st1) (pp_objs st1 ! 0)] st1) = 1"
proof -
  let ?h = "frame_head (NetPackage_new None 1 0) 0 1 1" and ?g = "frame_head (NetPackage_new None 2 0) 0 2 1"
  have l: "length (stream sample_frames @ []) = 51" by (simp add: SIZEOF_MSG_def)
  have o: "pbuf (PackPerData_new 0 1000 4096) = 1000" "mf_len (m_frame (PackPerData_new 0 1000 4096)) = PERIOPOSTSIZE"
    "m_nExtendLen (PackPerData_new 0 1000 4096) = 0"
    by (simp_all add: PackPerData_new_def PERIOPOSTSIZE_def)
  have "\<exists>st1 st2 others. RecvData 0 (pbuf (PackPerData_new 0 1000 4096)) (length (stream sample_frames @ [])) None 0 sample_recv = Inr (0, False, st1) \<and>
     IsComplate (pp_objs st1 ! 0) \<and> pp_mem st1 = pp_mem sample_recv \<and>
     GetOtherFrameCount 0 [GetCurComplateFrame (pp_mem st1) (pp_objs st1 ! 0)] st1 =
       (length [(?g, [6, 7 :: byte])], GetCurComplateFrame (pp_mem st1) (pp_objs st1 ! 0) # others, st2) \<and>
     map m_buf (GetCurComplateFrame (pp_mem st1) (pp_objs st1 ! 0) # others) = frame_addrs (pbuf (PackPerData_new 0 1000 4096)) sample_frames \<and>
     m_nExtendLen (pp_objs st2 ! 0) = length ([] :: byte list) \<and>
     m_pExtendStart (pp_objs st2 ! 0) = pbuf (PackPerData_new 0 1000 4096) + length (stream sample_frames)"
  proof (rule RecvData_splits_stream)
    show "holds_bytes (pp_mem sample_recv) (pbuf (PackPerData_new 0 1000 4096)) (stream sample_frames @ [])"
      unfolding o using holds_put by simp
  qed (use l o in \<open>simp_all add: partial_frame_def PERIOPOSTSIZE_def del: stream_simps\<close>)
  then show ?thesis unfolding l o by auto
qed

text \<open>
  Property C21: a frame cut anywhere by the end of a buffer, even inside its header, is completed from the next one.
  \<open>RecvData\<close> moves the kept part to the front of the previous buffer, appends the missing bytes and marks that buffer
  complete; the bytes that follow are moved to the front of its own buffer, where the next frame is complete in turn.
\<close>

theorem RecvData_completes_cut_frame:
  assumes "cut_frame i j h d A B (frame_bytes h2 d2 @ r2) st" "head_ok h d" "length d2 \<le> 1000" "0 < length d2 + length r2"
    and "SIZEOF_MSG + length d2 \<le> mf_len (m_frame (pp_objs st ! i))" "length r2 \<le> PERIOPOSTSIZE" "m_nExtendLen (pp_objs st ! i) = 0"
  shows "\<exists>st'. RecvData i (pbuf (pp_objs st ! i)) (length (B @ frame_bytes h2 d2 @ r2)) (Some j) node st = Inr (0, True, st') \<and>
     map (pp_mem st') [pbuf (pp_objs st ! j)..<pbuf (pp_objs st ! j) + length (frame_bytes h d)] = frame_bytes h d \<and>
     IsComplate (pp_objs st' ! j) \<and> HasExtendData (pp_objs st' ! j) = 0 \<and>
     map (pp_mem st') [pbuf (pp_objs st ! i)..<pbuf (pp_objs st ! i) + length (frame_bytes h2 d2 @ r2)] = frame_bytes h2 d2 @ r2 \<and>
     IsComplate (pp_objs st' ! i) \<and> HasExtendData (pp_objs st' ! i) = length r2"
proof -
  let ?rest = "frame_bytes h2 d2 @ r2"
  have len: "SIZEOF_MSG < length (B @ ?rest)" using assms(4) by (simp add: SIZEOF_MSG_def)
  obtain st1 where r: "recv_prev i (Some j) (length (B @ ?rest)) st = Inr (length ?rest, True, st1)"
    and hb: "holds_bytes (pp_mem st1) (pbuf (pp_objs st ! j)) (frame_bytes h d)" "holds_bytes (pp_mem st1) (pbuf (pp_objs st ! i)) ?rest"
    and o: "pp_objs st1 = (pp_objs st)[j := (pp_objs st ! j)\<lparr>m_pExtendStart := 0, m_isFinish := 1, m_nExtendLen := 0\<rparr>]"
    using recv_prev_completes [OF assms(1,2) len] by blast
  have ij: "i < length (pp_objs st)" "j < length (pp_objs st)" "i \<noteq> j" using assms(1) by (auto simp: cut_frame_def Let_def)
  have oi: "pp_objs st1 ! i = pp_objs st ! i" using o ij by simp
  let ?st2 = "upd_obj i (\<lambda>x. x\<lparr>m_pDataCur := pbuf (pp_objs st1 ! i), m_isFinish := 1, m_nExtendLen := length r2,
        m_pExtendStart := pbuf (pp_objs st1 ! i) + (SIZEOF_MSG + length d2)\<rparr>) st1"
  have "recv_prev i (Some j) (length (B @ ?rest)) st = Inr (SIZEOF_MSG + length d2 + length r2, True, st1)" using r by simp
  from RecvData_own [OF this _ _ assms(3,4), of h2 node]
  have "RecvData i (pbuf (pp_objs st ! i)) (length (B @ ?rest)) (Some j) node st = Inr (0, True, ?st2)"
    using hb(2) assms(5-7) ij o unfolding oi by simp
  moreover have "pp_objs ?st2 ! j = (pp_objs st ! j)\<lparr>m_pExtendStart := 0, m_isFinish := 1, m_nExtendLen := 0\<rparr>"
    "m_isFinish (pp_objs ?st2 ! i) = 1" "m_nExtendLen (pp_objs ?st2 ! i) = length r2" "pp_mem ?st2 = pp_mem st1"
    using o ij by (simp_all add: upd_obj_def)
  ultimately show ?thesis
    using holds_map [OF hb(1)] holds_map [OF hb(2)] by (intro exI [of _ ?st2]) (simp add: IsComplate_def HasExtendData_def)
qed

theorem RecvData_completes_cut_frame_witness:
  "\<exists>st st'. cut_frame 1 0 (frame_head (NetPackage_new None 3 0) 0 3 1) [5, 6, 7] (take 10 (frame_bytes (frame_head (NetPackage_new None 3 0) 0 3 1) [5, 6, 7]))
       (drop 10 (frame_bytes (frame_head (NetPackage_new None 3 0) 0 3 1) [5, 6, 7])) (frame_bytes (frame_head (NetPackage_new None 1 0) 0 1 1) [9] @ []) st \<and>
     RecvData 1 5096 42 (Some 0) 0 st = Inr (0, True, st') \<and> IsComplate (pp_objs st' ! 0) \<and> IsComplate (pp_objs st' ! 1)"
proof -
  let ?h = "frame_head (NetPackage_new None 3 0) 0 3 1" and ?h2 = "frame_head (NetPackage_new None 1 0) 0 1 1"
  let ?F = "frame_bytes ?h [5, 6, 7]" and ?G = "frame_bytes ?h2 [9]"
  let ?m = "put_bytes (put_bytes (\<lambda>_. 0) 1100 (take 10 ?F)) 5096 (drop 10 ?F @ ?G @ [])"
  let ?st = "\<lparr>pp_mem = ?m, pp_objs = [(PackPerData_new 0 1000 4096)\<lparr>m_nExtendLen := 10, m_pExtendStart := 1100\<rparr>,
     PackPerData_new 1 5096 4096], pp_reqs = []\<rparr>"
  have ho: "head_ok ?h [5, 6, 7]" by (simp add: head_ok_def frame_head_def)
  have h1: "holds_bytes ?m 1100 (take 10 ?F)"
    by (rule holds_cong [OF holds_put]) (simp add: put_bytes_other SIZEOF_MSG_def)
  have h2: "holds_bytes ?m 5096 (drop 10 ?F @ ?G @ [])" by (rule holds_put)
  have o: "pbuf (pp_objs ?st ! 0) = 1000" "pbuf (pp_objs ?st ! 1) = 5096" "m_nExtendLen (pp_objs ?st ! 1) = 0"
    "mf_len (m_frame (pp_objs ?st ! 1)) = 4096" by (simp_all add: PackPerData_new_def)
  have nz: "?F \<noteq> []" by (simp add: frame_bytes_def)
  have cf: "cut_frame 1 0 ?h [5, 6, 7] (take 10 ?F) (drop 10 ?F) (?G @ []) ?st"
    unfolding cut_frame_def Let_def o using h1 h2 nz by (simp add: SIZEOF_MSG_def)
  have l: "length (drop 10 ?F @ ?G @ []) = 42" by (simp add: SIZEOF_MSG_def)
  from RecvData_completes_cut_frame [OF cf ho, of 0] o(3,4) cf show ?thesis
    unfolding o l by (auto simp: SIZEOF_MSG_def)
qed

text \<open>
  Observation: a buffer that has received just a header, such as the empty package \<open>NoticeConnFailed\<close>
  sends, is left alone: \<open>RecvData\<close> returns 1 without completing the frame and without posting a
  request for more, so the session waits for ever.
\<close>

theorem RecvData_header_only_stalls:
  assumes "i < length (pp_objs st)" "m_isFinish (pp_objs st ! i) = 0"
    and "holds_bytes (pp_mem st) (pbuf (pp_objs st ! i)) (frame_bytes h [])"
  shows "\<exists>st'. RecvData i (pbuf (pp_objs st ! i)) (length (frame_bytes h [])) None node st = Inr (1, False, st') \<and>
     nFrameLen (msg_at (pp_mem st') (pbuf (pp_objs st ! i))) = length (frame_bytes h []) \<and>
     \<not> IsComplate (pp_objs st' ! i) \<and> pp_reqs st' = pp_reqs st"
  using assms holds_frame(2) [OF assms(3)]
  by (simp add: RecvData_def recv_prev_def Let_def upd_obj_def IsComplate_def SIZEOF_MSG_def)

theorem RecvData_header_only_stalls_witness:
  "\<exists>st'. RecvData 0 1000 24 None 0 (sample_recv\<lparr>pp_mem := put_bytes (\<lambda>_. 0) 1000 (frame_bytes (frame_head (NetPackage_new None 0 0) 0 0 1) [])\<rparr>)
     = Inr (1, False, st') \<and> pp_reqs st' = []"
proof -
  let ?h = "frame_head (NetPackage_new None 0 0) 0 0 1"
  let ?st = "sample_recv\<lparr>pp_mem := put_bytes (\<lambda>_. 0) 1000 (frame_bytes ?h [])\<rparr>"
  have o: "pbuf (pp_objs ?st ! 0) = 1000" "m_isFinish (pp_objs ?st ! 0) = 0" "0 < length (pp_objs ?st)"
    by (simp_all add: PackPerData_new_def)
  have "holds_bytes (pp_mem ?st) (pbuf (pp_objs ?st ! 0)) (frame_bytes ?h [])" unfolding o using holds_put by simp
  from RecvData_header_only_stalls [OF o(3,2) this, of 0] show ?thesis unfolding o by (auto simp: SIZEOF_MSG_def)
qed

end
