(* ===== verification/Session.thy ===== *)
theory Session
  imports PackPer
begin

text \<open>
  \<open>Net/SocketSession.cpp\<close>: one connection. It keeps a list of arrived pieces (\<open>m_perIoDatas\<close>), the frames
  collected so far per time stamp (\<open>m_mapFrames\<close>), the receive and send buffers (\<open>PackPer\<close>) and the
  queues towards the user. The virtual functions of the session type are parameters: \<open>alloc_ok\<close> (whether \<open>Alloc\<close> gives
  memory), \<open>set_info\<close> (\<open>SetPackageInfo\<close>) and \<open>proc\<close> (\<open>encode\<close> and \<open>uncompress\<close>; \<open>None\<close> when
  \<open>process\<close> fails, else the contents of the buffer), \<open>hk_junk\<close> the uninitialised field of a new \<open>NetPackage\<close>. The node that \<open>ApplyPostNode\<close> delivers is an argument
  \<open>nd\<close>, the current time an argument \<open>now\<close>. \<open>std::sort\<close> on the frames of a package is modelled as the
  stable sort by index. Locks only delimit the operations. The two rotations of
  \<open>m_RecvBuf\<close> push a copy of the last element and pop it again, so they change nothing.
\<close>

record TmpPerIO =
  io_pBuf :: addr
  io_len :: nat
  io_nIndex :: nat
  io_pPrev :: "nat option"
  io_pPostNode :: nat

record session =
  m_bOnline :: nat
  m_nSessionFrom :: nat
  m_nWriteCount :: nat
  m_wPostIndex :: nat
  m_rPostIndex :: nat
  m_heartbitTime :: int
  m_finishW :: int
  m_perIoDatas :: "TmpPerIO list"
  m_mapFrames :: "(nat, MsgFrame list) omap"
  ss_recv :: ppstate
  ss_send :: ppstate
  m_recvQueue :: "NetPackage list"
  m_sendQueue :: "NetPackage list"

definition RECV_BUFFER_SIZE :: nat where
  "RECV_BUFFER_SIZE = 4 * PERIOPOSTSIZE"

definition SEND_BUFFER_SIZE :: nat where
  "SEND_BUFFER_SIZE = 2 * PERIOPOSTSIZE"

text \<open>\<open>InitFrames\<close>: the buffers of one direction.\<close>

definition init_bufs :: "nat \<Rightarrow> addr \<Rightarrow> packper list" where
  "init_bufs sz base =
     (let n = sz div PERIOPOSTSIZE; last = sz - n * PERIOPOSTSIZE
      in map (\<lambda>i. PackPerData_new i (base + i * PERIOPOSTSIZE) PERIOPOSTSIZE) [0..<n] @
         (if 0 < last then [PackPerData_new n (base + n * PERIOPOSTSIZE) last] else []))"

definition InitFrames :: "addr \<Rightarrow> addr \<Rightarrow> session \<Rightarrow> session" where
  "InitFrames rbase sbase ss =
     ss\<lparr>ss_recv := (ss_recv ss)\<lparr>pp_objs := pp_objs (ss_recv ss) @ init_bufs RECV_BUFFER_SIZE rbase\<rparr>,
        ss_send := (ss_send ss)\<lparr>pp_objs := pp_objs (ss_send ss) @ init_bufs SEND_BUFFER_SIZE sbase\<rparr>\<rparr>"

definition SocketSession_new :: "bmem \<Rightarrow> session" where
  "SocketSession_new mem =
     (let pp = \<lparr>pp_mem = mem, pp_objs = [], pp_reqs = []\<rparr>
      in \<lparr>m_bOnline = 1, m_nSessionFrom = 0, m_nWriteCount = 0, m_wPostIndex = 0, m_rPostIndex = 0, m_heartbitTime = 0,
          m_finishW = 1, m_perIoDatas = [], m_mapFrames = [], ss_recv = pp, ss_send = pp, m_recvQueue = [],
          m_sendQueue = []\<rparr>)"

definition SocketSession_Init :: "nat \<Rightarrow> bool \<Rightarrow> int \<Rightarrow> addr \<Rightarrow> addr \<Rightarrow> session \<Rightarrow> session" where
  "SocketSession_Init ty hasNet now rbase sbase ss =
     InitFrames rbase sbase
       ((if hasNet then ss\<lparr>m_nSessionFrom := ty mod 4\<rparr> else ss)\<lparr>m_heartbitTime := now\<rparr>)"

definition DispatchData :: "addr \<Rightarrow> nat \<Rightarrow> int \<Rightarrow> nat option \<Rightarrow> nat \<Rightarrow> session \<Rightarrow> xerror + session" where
  "DispatchData buf len nIndex prev node ss =
     (if nIndex < 0 \<or> int (length (pp_objs (ss_recv ss))) < nIndex
      then Inl (Throw ''dispatchData failed error index'')
      else Inr (if buf \<noteq> 0
                then ss\<lparr>m_perIoDatas := m_perIoDatas ss @
                       [\<lparr>io_pBuf = buf, io_len = len, io_nIndex = nat nIndex, io_pPrev = prev, io_pPostNode = node\<rparr>]\<rparr>
                else ss))"

subsection \<open>Sending\<close>

definition NoticeComplateSend :: "nat \<Rightarrow> addr \<Rightarrow> nat \<Rightarrow> nat \<Rightarrow> nat \<Rightarrow> session \<Rightarrow> session" where
  "NoticeComplateSend index buf len node nd ss =
     (if index < length (pp_objs (ss_send ss)) then
        (let sb = snd (RecordSendData index buf len node (ss_send ss))
         in if IsComplate (pp_objs sb ! index) then
              (let sb1 = upd_obj index (SetNoticeStatus False) sb
               in if m_wPostIndex ss + 1 = m_nWriteCount ss
                  then ss\<lparr>ss_send := sb1, m_wPostIndex := 0, m_nWriteCount := 0, m_finishW := 1\<rparr>
                  else (let w = (m_wPostIndex ss + 1) mod 16
                        in ss\<lparr>ss_send := PackPer_PostSend w nd sb1, m_wPostIndex := w\<rparr>))
            else ss\<lparr>ss_send := sb\<rparr>)
      else ss)"

fun reset_send :: "nat \<Rightarrow> nat \<Rightarrow> ppstate \<Rightarrow> ppstate" where
  "reset_send i 0 sb = sb"
| "reset_send i (Suc r) sb = reset_send (Suc i) r (ResetData i (upd_obj i (SetNoticeStatus False) sb))"

text \<open>\<open>Packaging\<close> writes the valid lengths through the frame pointers, that is into the send buffers.\<close>

definition store_frames :: "MsgFrame list \<Rightarrow> ppstate \<Rightarrow> ppstate" where
  "store_frames fs sb = sb\<lparr>pp_objs := map (\<lambda>(ob, f). ob\<lparr>m_frame := f\<rparr>) (zip (pp_objs sb) fs)\<rparr>"

definition Session_PostSend :: "nat \<Rightarrow> enc \<Rightarrow> nat \<Rightarrow> session \<Rightarrow> (xerror + session) option" where
  "Session_PostSend fuel enc nd ss =
     (if m_bOnline ss = 0 then Some (Inr ss)
      else if m_finishW ss = 1 \<and> m_sendQueue ss \<noteq> [] then
        (let sb = reset_send 0 (length (pp_objs (ss_send ss))) (ss_send ss)
         in case Packaging fuel enc (m_sendQueue ss) (pp_mem sb) (map m_frame (pp_objs sb)) of
              None \<Rightarrow> None
            | Some (Inl e) \<Rightarrow> Some (Inl e)
            | Some (Inr (ret, nFrameCount, st)) \<Rightarrow>
                (let sb1 = store_frames (bp_frames st) (sb\<lparr>pp_mem := bp_mem st\<rparr>)
                 in if 0 < ret
                    then Some (Inr (ss\<lparr>m_sendQueue := drop ret (m_sendQueue ss), m_wPostIndex := 0,
                                 m_nWriteCount := nFrameCount mod 16, m_finishW := 0,
                                 ss_send := PackPer_PostSend 0 nd sb1\<rparr>))
                    else Some (Inr (ss\<lparr>ss_send := sb1\<rparr>))))
      else Some (Inr ss))"

subsection \<open>Receiving\<close>

definition ResetRecvFlagInfo :: "nat \<Rightarrow> session \<Rightarrow> session" where
  "ResetRecvFlagInfo nIndex ss =
     (if nIndex < length (pp_objs (ss_recv ss))
      then ss\<lparr>ss_recv := (ss_recv ss)\<lparr>pp_objs :=
             map RestRecvFlag (take nIndex (pp_objs (ss_recv ss))) @ drop nIndex (pp_objs (ss_recv ss))\<rparr>\<rparr>
      else ss)"

definition Session_PostRecv :: "nat \<Rightarrow> nat option \<Rightarrow> nat \<Rightarrow> session \<Rightarrow> xerror + session" where
  "Session_PostRecv index prv nd ss =
     (if m_bOnline ss = 0 then Inr ss
      else if length (pp_objs (ss_recv ss)) \<le> index then Inl (Throw ''invalid index'')
      else Inr (ss\<lparr>ss_recv := PackPer_PostRecv index prv nd (ss_recv ss)\<rparr>))"

definition add_frame :: "bmem \<Rightarrow> MsgFrame \<Rightarrow> (nat, MsgFrame list) omap \<Rightarrow> (nat, MsgFrame list) omap" where
  "add_frame mem f m =
     (let ts = GetTimeStamp mem f
      in case map_of m ts of
           None \<Rightarrow> minsert ts [f] m
         | Some fs \<Rightarrow> massign ts (fs @ [f]) m)"

text \<open>The local variables of one turn of the loop of \<open>ParseData\<close>.\<close>

record parse_vars =
  pv_ts :: "nat option"
  pv_bComplateOne :: bool
  pv_bFlag :: bool
  pv_bFinshPackage :: bool
  pv_bfinishR :: bool

text \<open>The frame of the previous buffer was completed.\<close>

definition parse_prev :: "int \<Rightarrow> nat \<Rightarrow> parse_vars \<Rightarrow> session \<Rightarrow> xerror + (parse_vars \<times> session)" where
  "parse_prev ret i v ss =
     (let rb = ss_recv ss;
          nIndex = GetPrevIndex rb (pp_objs rb ! i);
          v' = (if 0 < ret then v\<lparr>pv_bFlag := True\<rparr> else v)
      in if nIndex = -1 then Inr (v', ss)
         else if length (pp_objs rb) \<le> nat nIndex then Inl Undefined
         else
           let f = GetCurComplateFrame (pp_mem rb) (pp_objs rb ! nat nIndex)
           in Inr (v'\<lparr>pv_ts := Some (GetTimeStamp (pp_mem rb) f), pv_bComplateOne := True\<rparr>,
                   ss\<lparr>m_mapFrames := add_frame (pp_mem rb) f (m_mapFrames ss)\<rparr>))"

text \<open>The buffer's own frames are complete.\<close>

definition parse_own :: "nat \<Rightarrow> parse_vars \<Rightarrow> session \<Rightarrow> parse_vars \<times> session" where
  "parse_own i v ss =
     (let rb = upd_obj i (SetNoticeStatus False) (ss_recv ss);
          (n, fs, rb') = GetOtherFrameCount i [GetCurComplateFrame (pp_mem rb) (pp_objs rb ! i)] rb
      in (v\<lparr>pv_ts := Some (GetTimeStamp (pp_mem rb') (last fs)), pv_bComplateOne := True\<rparr>,
          ss\<lparr>ss_recv := rb', m_mapFrames := fold (add_frame (pp_mem rb')) fs (m_mapFrames ss)\<rparr>))"

definition reset_indexes :: "ppstate \<Rightarrow> ppstate" where
  "reset_indexes rb = rb\<lparr>pp_objs := map (\<lambda>(k, ob). ResetIndex k ob) (enumerate 0 (pp_objs rb))\<rparr>"

text \<open>Is the last completed frame the last of its package? If not, the next buffer is posted.\<close>

definition parse_next :: "nat \<Rightarrow> nat \<Rightarrow> parse_vars \<Rightarrow> session \<Rightarrow> xerror + (parse_vars \<times> session)" where
  "parse_next i nd v ss =
     (let rb = ss_recv ss; mem = pp_mem rb
      in if pv_bFlag v then Inr (v\<lparr>pv_bFinshPackage := False\<rparr>, ss)
         else case (case pv_ts v of None \<Rightarrow> None | Some ts \<Rightarrow> map_option (\<lambda>fs. (ts, fs)) (map_of (m_mapFrames ss) ts)) of
           None \<Rightarrow> Inr (v\<lparr>pv_bFinshPackage := True\<rparr>, ss\<lparr>m_rPostIndex := 0\<rparr>)
         | Some (ts, fs) \<Rightarrow>
             if length fs < GetTotalFrames mem (hd fs) then
               (let ext = (if HasExtendData (pp_objs rb ! i) \<noteq> 0 then Some i else None);
                    fs' = sort_key m_index fs;
                    ss1 = ss\<lparr>m_mapFrames := massign ts fs' (m_mapFrames ss)\<rparr>;
                    ss2 = (if m_rPostIndex ss + 1 = length (pp_objs rb) then
                             (let nIndex = m_index (hd fs')
                              in if 0 < nIndex
                                 then ss1\<lparr>ss_recv := reset_indexes rb,
                                          m_rPostIndex := nat ((int i - nIndex + 1) mod 16)\<rparr>
                                 else ss1)
                           else ss1\<lparr>m_rPostIndex := (m_rPostIndex ss + 1) mod 16\<rparr>)
                in if m_rPostIndex ss2 < length (pp_objs (ss_recv ss2))
                   then Inr (v\<lparr>pv_bFinshPackage := False\<rparr>,
                             ss2\<lparr>ss_recv := PackPer_PostRecv (m_rPostIndex ss2) ext nd (ss_recv ss2)\<rparr>)
                   else Inl Undefined)
             else Inr (v\<lparr>pv_bFinshPackage := True\<rparr>, ss\<lparr>m_rPostIndex := 0\<rparr>))"

fun find_finished :: "bmem \<Rightarrow> (nat, MsgFrame list) omap \<Rightarrow> xerror + bool" where
  "find_finished mem [] = Inr False"
| "find_finished mem ((k, fs) # m) =
     (if \<exists>f \<in> set fs. GetTimeStamp mem f \<noteq> k then Inl (Throw ''error'')
      else if length fs = GetTotalFrames mem (hd fs) then Inr True
      else find_finished mem m)"

definition whole_packages :: "bmem \<Rightarrow> (nat, MsgFrame list) omap \<Rightarrow> (nat, MsgFrame list) omap" where
  "whole_packages mem m = filter (\<lambda>(k, fs). GetTotalFrames mem (hd fs) = length fs) m"

definition first_extend :: "packper list \<Rightarrow> int" where
  "first_extend obs = (case List.find (\<lambda>(k, ob). HasExtendData ob \<noteq> 0) (enumerate 0 obs) of None \<Rightarrow> -1 | Some (k, _) \<Rightarrow> int k)"

text \<open>The index to continue from when the last buffer has extend data.\<close>

definition last_index :: "bmem \<Rightarrow> (nat, MsgFrame list) omap \<Rightarrow> session \<Rightarrow> xerror + (int \<times> session)" where
  "last_index mem whole ss =
     (let ts = GetTimeStamp mem (hd (snd (last whole)))
      in if whole = [] then Inl Undefined
         else if map_of (m_mapFrames ss) ts = None then Inl (Throw ''unknow error'')
         else case dropWhile (\<lambda>p. fst p \<le> ts) (m_mapFrames ss) of
           (k, fs) # _ \<Rightarrow>
             (let fs' = sort_key m_index fs
              in Inr (m_index (hd fs'), ss\<lparr>m_mapFrames := massign k fs' (m_mapFrames ss)\<rparr>))
         | [] \<Rightarrow> Inr (m_index (last (sort_key m_index (snd (last (m_mapFrames ss))))), ss))"

fun erase_packages :: "bmem \<Rightarrow> (nat, MsgFrame list) omap \<Rightarrow> session \<Rightarrow> xerror + session" where
  "erase_packages mem [] ss = Inr ss"
| "erase_packages mem ((k, fs) # w) ss =
     (let ts = GetTimeStamp mem (hd fs)
      in if map_of (m_mapFrames ss) ts = None then Inl (Throw ''unknow error'')
         else erase_packages mem w (ss\<lparr>m_mapFrames := merase ts (m_mapFrames ss)\<rparr>))"

text \<open>\<open>DataHandle::IsBaseProtocolPackage\<close>, which \<open>PackageProxy\<close> does not override.\<close>

definition IsBaseProtocolPackage :: "nat \<Rightarrow> bool" where
  "IsBaseProtocolPackage nProto = False"

definition ParseBaseProtocol :: "int \<Rightarrow> nat \<Rightarrow> session \<Rightarrow> bool \<times> session" where
  "ParseBaseProtocol now proto ss =
     (True, if proto = 2 then ss\<lparr>m_heartbitTime := now\<rparr> else ss)"

record hooks =
  hk_alloc :: "nat \<Rightarrow> bool"
  hk_set_info :: "nat \<Rightarrow> nat \<Rightarrow> bool"
  hk_proc :: "byte list \<Rightarrow> byte list option"
  hk_junk :: nat

text \<open>One whole package; the flag tells whether the session is to be kicked.\<close>

definition deliver_one :: "hooks \<Rightarrow> int \<Rightarrow> bmem \<Rightarrow> MsgFrame list \<Rightarrow> session \<Rightarrow> xerror + (bool \<times> session)" where
  "deliver_one hk now mem fs ss =
     (if fs = [] then Inr (False, ss)
      else
        let totalLen = GetDataLen mem (hd fs); srcLen = GetSrcDataLen mem (hd fs)
        in if 0 < totalLen then
             (if \<not> hk_set_info hk totalLen srcLen then Inr (False, ss)
              else case setMsgFrames mem (\<not> hk_alloc hk srcLen) srcLen fs (length fs) of
                Inl e \<Rightarrow> Inl e
              | Inr bs \<Rightarrow>
                  if totalLen \<noteq> length bs then Inr (False, ss)
                  else case hk_proc hk bs of
                    None \<Rightarrow> Inr (False, ss)
                  | Some out \<Rightarrow>
                      if \<not> hk_alloc hk srcLen then Inr (False, ss)
                      else if IsBaseProtocolPackage (GetBaseProto mem (hd fs)) then
                        (let (ok, ss') = ParseBaseProtocol now (GetBaseProto mem (hd fs)) ss
                         in if ok then Inr (False, ss') else Inr (True, ss'\<lparr>m_bOnline := 0\<rparr>))
                      else Inr (False, ss\<lparr>m_recvQueue := m_recvQueue ss @ [NetPackage_new (Some out) srcLen (hk_junk hk)]\<rparr>))
           else if IsBaseProtocolPackage (GetBaseProto mem (hd fs)) then
             (let (ok, ss') = ParseBaseProtocol now (GetBaseProto mem (hd fs)) ss
              in if ok then Inr (False, ss') else Inr (True, ss'\<lparr>m_bOnline := 0\<rparr>))
           else Inr (False, ss))"

fun deliver :: "hooks \<Rightarrow> int \<Rightarrow> bmem \<Rightarrow> (nat, MsgFrame list) omap \<Rightarrow> session \<Rightarrow> xerror + (bool \<times> session)" where
  "deliver hk now mem [] ss = Inr (False, ss)"
| "deliver hk now mem ((k, fs) # w) ss =
     (case deliver_one hk now mem fs ss of
        Inl e \<Rightarrow> Inl e
      | Inr (kick, ss') \<Rightarrow> if kick then Inr (True, ss') else deliver hk now mem w ss')"

text \<open>Posting the next receive after whole packages have been delivered.\<close>

definition repost :: "int \<Rightarrow> int \<Rightarrow> nat \<Rightarrow> parse_vars \<Rightarrow> session \<Rightarrow> xerror + (parse_vars \<times> session)" where
  "repost nIndex nLast nd v ss =
     (let n = length (pp_objs (ss_recv ss));
          prv = (if nIndex \<noteq> -1 then Some (nat nIndex) else None);
          go = (\<lambda>idx ss1.
            if pv_bFinshPackage v then
              (let r = nat (idx mod 16); ss2 = (ResetRecvFlagInfo (nat idx) ss1)\<lparr>m_rPostIndex := r\<rparr>
               in case Session_PostRecv r prv nd ss2 of
                    Inl e \<Rightarrow> Inl e
                  | Inr ss3 \<Rightarrow> Inr (v\<lparr>pv_bFinshPackage := False, pv_bfinishR := False\<rparr>, ss3))
            else Inr (v\<lparr>pv_bfinishR := False\<rparr>, ss1))
      in if nIndex = -1 then go 0 ss
         else if nIndex + 1 = int n then
           (if 0 < nLast then go (nIndex - nLast + 1) (ss\<lparr>ss_recv := reset_indexes (ss_recv ss)\<rparr>)
            else Inl (Throw ''need new more memory''))
         else go (nIndex + 1) ss)"

definition parse_finished :: "hooks \<Rightarrow> int \<Rightarrow> nat \<Rightarrow> parse_vars \<Rightarrow> session \<Rightarrow> xerror + (bool \<times> parse_vars \<times> session)" where
  "parse_finished hk now nd v ss =
     (let mem = pp_mem (ss_recv ss);
          whole = whole_packages mem (m_mapFrames ss);
          nIndex = first_extend (pp_objs (ss_recv ss))
      in if \<exists>(k, fs) \<in> set whole. \<exists>f \<in> set fs. GetTimeStamp mem f \<noteq> k then Inl (Throw ''xxx'')
         else case (if nIndex + 1 = int (length (pp_objs (ss_recv ss))) then last_index mem whole ss else Inr (-1, ss)) of
           Inl e \<Rightarrow> Inl e
         | Inr (nLast, ss1) \<Rightarrow>
             (case erase_packages mem whole ss1 of
                Inl e \<Rightarrow> Inl e
              | Inr ss2 \<Rightarrow>
                  if whole = [] then Inr (False, v, ss2)
                  else
                    case deliver hk now mem whole ss2 of
                      Inl e \<Rightarrow> Inl e
                    | Inr (True, ss3) \<Rightarrow> Inr (True, v, ss3)
                    | Inr (False, ss3) \<Rightarrow>
                        (case repost nIndex nLast nd v ss3 of
                           Inl e \<Rightarrow> Inl e
                         | Inr (v', ss4) \<Rightarrow> Inr (False, v', ss4))))"

text \<open>One turn of the loop up to the search for whole packages.\<close>

definition parse_io :: "nat \<Rightarrow> TmpPerIO \<Rightarrow> parse_vars \<Rightarrow> session \<Rightarrow> xerror + (parse_vars \<times> session)" where
  "parse_io nd io v0 ss =
     (let i = io_nIndex io; v = v0\<lparr>pv_ts := None, pv_bComplateOne := False, pv_bFlag := False\<rparr>
      in if length (pp_objs (ss_recv ss)) \<le> i then Inr (v, ss)
         else case RecvData i (io_pBuf io) (io_len io) (io_pPrev io) (io_pPostNode io) (ss_recv ss) of
           Inl e \<Rightarrow> Inl e
         | Inr (ret, prevFlag, rb) \<Rightarrow>
             (case (if prevFlag then parse_prev ret i v (ss\<lparr>ss_recv := rb\<rparr>) else Inr (v, ss\<lparr>ss_recv := rb\<rparr>)) of
                Inl e \<Rightarrow> Inl e
              | Inr (v1, ss1) \<Rightarrow>
                  (let (v2, ss2) = (if 0 \<le> ret \<and> IsComplate (pp_objs (ss_recv ss1) ! i)
                                    then parse_own i v1 ss1 else (v1, ss1))
                   in if pv_bComplateOne v2 then
                        (case parse_next i nd v2 ss2 of
                           Inl e \<Rightarrow> Inl e
                         | Inr (v3, ss3) \<Rightarrow>
                             (case find_finished (pp_mem (ss_recv ss3)) (m_mapFrames ss3) of
                                Inl e \<Rightarrow> Inl e
                              | Inr b \<Rightarrow> Inr (if b then v3\<lparr>pv_bfinishR := True\<rparr> else v3, ss3)))
                      else Inr (v2, ss2))))"

fun parse_loop :: "hooks \<Rightarrow> int \<Rightarrow> nat \<Rightarrow> TmpPerIO list \<Rightarrow> parse_vars \<Rightarrow> session \<Rightarrow> xerror + session" where
  "parse_loop hk now nd [] v ss = Inr (ss\<lparr>m_perIoDatas := []\<rparr>)"
| "parse_loop hk now nd (io # ios) v ss =
     (case parse_io nd io v ss of
        Inl e \<Rightarrow> Inl e
      | Inr (v1, ss1) \<Rightarrow>
          if pv_bfinishR v1 then
            (case parse_finished hk now nd v1 ss1 of
               Inl e \<Rightarrow> Inl e
             | Inr (True, v2, ss2) \<Rightarrow> Inr (ss2\<lparr>m_perIoDatas := io # ios\<rparr>)
             | Inr (False, v2, ss2) \<Rightarrow> parse_loop hk now nd ios v2 ss2)
          else parse_loop hk now nd ios v1 ss1)"

definition ParseData :: "hooks \<Rightarrow> int \<Rightarrow> nat \<Rightarrow> session \<Rightarrow> xerror + session" where
  "ParseData hk now nd ss =
     parse_loop hk now nd (m_perIoDatas ss)
       \<lparr>pv_ts = None, pv_bComplateOne = False, pv_bFlag = False, pv_bFinshPackage = False, pv_bfinishR = False\<rparr> ss"

subsection \<open>Queues\<close>

definition Session_RecvNetPackage :: "session \<Rightarrow> int \<times> NetPackage option \<times> session" where
  "Session_RecvNetPackage ss =
     (case m_recvQueue ss of
        [] \<Rightarrow> (-1, None, ss)
      | p # q \<Rightarrow> (0, Some p, ss\<lparr>m_recvQueue := q\<rparr>))"

definition Session_SendNetPackage :: "NetPackage \<Rightarrow> session \<Rightarrow> int \<times> session" where
  "Session_SendNetPackage p ss =
     (if m_bOnline ss = 0 then (0, ss) else (0, ss\<lparr>m_sendQueue := m_sendQueue ss @ [p]\<rparr>))"

definition NoticeConnFailed :: "nat \<Rightarrow> nat \<Rightarrow> session \<Rightarrow> session" where
  "NoticeConnFailed ts junk ss =
     snd (Session_SendNetPackage (SetPackageState 1 (SetBaseProtol 1 ((NetPackage_new None 0 junk)\<lparr>m_timestamp := ts\<rparr>))) ss)"

subsection \<open>The heartbeat time\<close>

lemma parse_prev_hb: "parse_prev ret i v ss = Inr (v', ss') \<Longrightarrow> m_heartbitTime ss' = m_heartbitTime ss"
  by (auto simp: parse_prev_def Let_def split: if_splits)

lemma parse_own_hb: "parse_own i v ss = (v', ss') \<Longrightarrow> m_heartbitTime ss' = m_heartbitTime ss"
  by (auto simp: parse_own_def Let_def split: prod.splits)

lemma parse_next_hb: "parse_next i nd v ss = Inr (v', ss') \<Longrightarrow> m_heartbitTime ss' = m_heartbitTime ss"
  by (auto simp: parse_next_def Let_def split: if_splits option.splits prod.splits)

lemma parse_io_hb:
  assumes "parse_io nd io v ss = Inr (v', ss')"
  shows "m_heartbitTime ss' = m_heartbitTime ss"
proof (cases "length (pp_objs (ss_recv ss)) \<le> io_nIndex io")
  case True
  with assms show ?thesis by (auto simp: parse_io_def Let_def)
next
  case False
  let ?i = "io_nIndex io" and ?v = "v\<lparr>pv_ts := None, pv_bComplateOne := False, pv_bFlag := False\<rparr>"
  obtain ret flag rb where r: "RecvData ?i (io_pBuf io) (io_len io) (io_pPrev io) (io_pPostNode io) (ss_recv ss) = Inr (ret, flag, rb)"
    using assms False by (cases "RecvData ?i (io_pBuf io) (io_len io) (io_pPrev io) (io_pPostNode io) (ss_recv ss)")
      (auto simp: parse_io_def Let_def)
  obtain v1 ss1 where p1: "(if flag then parse_prev ret ?i ?v (ss\<lparr>ss_recv := rb\<rparr>) else Inr (?v, ss\<lparr>ss_recv := rb\<rparr>)) = Inr (v1, ss1)"
    using assms False r
    by (cases "if flag then parse_prev ret ?i ?v (ss\<lparr>ss_recv := rb\<rparr>) else Inr (?v, ss\<lparr>ss_recv := rb\<rparr>)")
      (auto simp: parse_io_def Let_def)
  have h1: "m_heartbitTime ss1 = m_heartbitTime ss" using p1 parse_prev_hb [of ret ?i ?v "ss\<lparr>ss_recv := rb\<rparr>" v1 ss1]
    by (auto split: if_splits)
  obtain v2 ss2 where p2: "(if 0 \<le> ret \<and> IsComplate (pp_objs (ss_recv ss1) ! ?i) then parse_own ?i v1 ss1 else (v1, ss1)) = (v2, ss2)"
    by fastforce
  have h2: "m_heartbitTime ss2 = m_heartbitTime ss" using p2 parse_own_hb [of ?i v1 ss1 v2 ss2] h1 by (auto split: if_splits)
  show ?thesis
    using assms False unfolding parse_io_def Let_def r sum.case prod.case p1 p2
    using h2 parse_next_hb [of ?i nd v2 ss2] by (auto split: if_splits sum.splits prod.splits)
qed

lemma last_index_hb: "last_index mem w ss = Inr (n, ss') \<Longrightarrow> m_heartbitTime ss' = m_heartbitTime ss"
  by (auto simp: last_index_def Let_def split: if_splits list.splits)

lemma erase_packages_hb: "erase_packages mem w ss = Inr ss' \<Longrightarrow> m_heartbitTime ss' = m_heartbitTime ss"
  by (induction mem w ss rule: erase_packages.induct) (auto simp: Let_def split: if_splits)

lemma deliver_one_hb: "deliver_one hk now mem fs ss = Inr (k, ss') \<Longrightarrow> m_heartbitTime ss' = m_heartbitTime ss"
  by (auto simp: deliver_one_def Let_def IsBaseProtocolPackage_def split: if_splits sum.splits option.splits)

lemma deliver_hb: "deliver hk now mem w ss = Inr (k, ss') \<Longrightarrow> m_heartbitTime ss' = m_heartbitTime ss"
proof (induction hk now mem w ss rule: deliver.induct)
  case (2 hk now mem ts fs w ss)
  obtain k1 ss1 where d: "deliver_one hk now mem fs ss = Inr (k1, ss1)"
    using "2.prems" by (cases "deliver_one hk now mem fs ss") auto
  have "m_heartbitTime ss1 = m_heartbitTime ss" by (rule deliver_one_hb [OF d])
  with "2.IH" [OF d refl] "2.prems" d show ?case by (cases k1) auto
qed simp

lemma repost_hb: "repost n l nd v ss = Inr (v', ss') \<Longrightarrow> m_heartbitTime ss' = m_heartbitTime ss"
  by (auto simp: repost_def Let_def Session_PostRecv_def ResetRecvFlagInfo_def split: if_splits sum.splits)

lemma parse_finished_hb:
  assumes "parse_finished hk now nd v ss = Inr (k, v', ss')"
  shows "m_heartbitTime ss' = m_heartbitTime ss"
  using assms unfolding parse_finished_def Let_def
  by (auto split: if_splits sum.splits prod.splits bool.splits
      dest!: last_index_hb erase_packages_hb deliver_hb repost_hb)

lemma parse_loop_hb: "parse_loop hk now nd ios v ss = Inr ss' \<Longrightarrow> m_heartbitTime ss' = m_heartbitTime ss"
proof (induction hk now nd ios v ss rule: parse_loop.induct)
  case (2 hk now nd io ios v ss)
  obtain v1 ss1 where p: "parse_io nd io v ss = Inr (v1, ss1)"
    using "2.prems" by (cases "parse_io nd io v ss") auto
  note h1 = parse_io_hb [OF p]
  show ?case
  proof (cases "pv_bfinishR v1")
    case False
    with "2.IH"(2) [OF p refl False] "2.prems" p h1 show ?thesis by simp
  next
    case True
    then obtain k v2 ss2 where f: "parse_finished hk now nd v1 ss1 = Inr (k, v2, ss2)"
      using "2.prems" p by (cases "parse_finished hk now nd v1 ss1") auto
    note h2 = parse_finished_hb [OF f]
    show ?thesis
    proof (cases k)
      case True
      with "2.prems" p f \<open>pv_bfinishR v1\<close> h1 h2 show ?thesis by auto
    next
      case False
      have "m_heartbitTime ss' = m_heartbitTime ss2"
        using "2.prems" p f \<open>pv_bfinishR v1\<close> False
        by (intro "2.IH"(1) [OF p refl \<open>pv_bfinishR v1\<close> f]) simp_all
      with h1 h2 show ?thesis by simp
    qed
  qed
qed auto

subsection \<open>One package in one buffer\<close>

lemma add_frame_first: "GetTimeStamp mem f = ts \<Longrightarrow> add_frame mem f [] = [(ts, [f])]"
  by (simp add: add_frame_def)

lemma fold_add_frames:
  assumes "\<forall>f \<in> set fs. GetTimeStamp mem f = ts"
  shows "fold (add_frame mem) fs [(ts, acc)] = [(ts, acc @ fs)]"
  using assms by (induction fs arbitrary: acc) (simp_all add: add_frame_def)

lemma find_None_iff_first: "(\<forall>ob \<in> set obs. HasExtendData ob = 0) \<Longrightarrow> first_extend obs = -1"
proof -
  assume "\<forall>ob \<in> set obs. HasExtendData ob = 0"
  then have "List.find (\<lambda>(k, ob). HasExtendData ob \<noteq> 0) (enumerate 0 obs) = None"
    by (auto simp: find_None_iff in_set_enumerate_eq)
  then show ?thesis by (simp add: first_extend_def)
qed

text \<open>The state in which buffer 0 has just received the frames of package \<open>p\<close> with bytes \<open>d\<close>.\<close>

definition arrived :: "NetPackage \<Rightarrow> byte list \<Rightarrow> session \<Rightarrow> bool" where
  "arrived p d ss \<longleftrightarrow>
     (let rb = ss_recv ss; b = pbuf (pp_objs rb ! 0); s = stream (pkg_frames p d)
      in m_bOnline ss \<noteq> 0 \<and> m_mapFrames ss = [] \<and> pp_objs rb \<noteq> [] \<and>
         (\<forall>ob \<in> set (pp_objs rb). m_nExtendLen ob = 0 \<and> m_nPost ob \<le> 2) \<and>
         b \<noteq> 0 \<and> mf_len (m_frame (pp_objs rb ! 0)) = PERIOPOSTSIZE \<and> holds_bytes (pp_mem rb) b s \<and>
         0 < length d \<and> m_len p = length d \<and> length s \<le> PERIOPOSTSIZE \<and> m_timestamp p < 18446744073709551616 \<and>
         (\<exists>node. m_perIoDatas ss = [\<lparr>io_pBuf = b, io_len = length s, io_nIndex = 0, io_pPrev = None, io_pPostNode = node\<rparr>]))"

text \<open>What the frames of a package say.\<close>

lemma pkg_frames_head:
  assumes "(h, c) \<in> set (pkg_frames p d)" "0 < length d"
  shows "tFrames h = length (pkg_frames p d)" "ntimestamp h = m_timestamp p" "tSrcLen h = m_len p" "tDataLen h = m_len p" "0 < length c"
proof -
  have n: "length (pkg_frames p d) = frame_count (length d)" using assms(2) by (simp add: pkg_frames_def chunks_eq)
  from assms obtain k where k: "k < frame_count (length d)" "c = chunks d ! k" "h = frame_head p k (m_len p) (frame_count (length d))"
    by (auto simp: pkg_frames_def in_set_enumerate_eq chunks_eq split: if_splits)
  then show "tFrames h = length (pkg_frames p d)" "ntimestamp h = m_timestamp p" "tSrcLen h = m_len p" "tDataLen h = m_len p"
    by (simp_all add: frame_head_def n)
  have "k * 1000 < length d"
  proof -
    have "frame_count (length d) = length d div 1000 + (if 0 < length d mod 1000 then 1 else 0)"
      by (simp add: frame_count_def Let_def TRANSFRAME_def SIZEOF_MSG_def flip: minus_div_mult_eq_mod)
    then have "k < length d div 1000 \<or> k = length d div 1000 \<and> 0 < length d mod 1000"
      using k(1) by (cases "0 < length d mod 1000") auto
    moreover have "length d = length d div 1000 * 1000 + length d mod 1000" by simp
    ultimately show ?thesis by linarith
  qed
  then show "0 < length c" using k(1,2) by (simp add: chunks_eq)
qed

lemma holds_frame_lens:
  assumes "holds_bytes mem a (frame_bytes h d)" "length d \<le> 1000"
  shows "tDataLen (msg_at mem a) = tDataLen h mod 65536"
proof -
  have "holds_bytes mem a (take SIZEOF_MSG (frame_bytes h d))" by (rule holds_take [OF assms(1)])
  from holds_head [OF this] show ?thesis by (simp add: head_mod_def)
qed

lemma recv_frames_info:
  assumes hb: "holds_bytes mem b (stream (pkg_frames p d))" and d: "0 < length d"
    and s: "length (stream (pkg_frames p d)) \<le> PERIOPOSTSIZE" and t: "m_timestamp p < 18446744073709551616"
    and m: "m_len p = length d" and f: "m_buf f \<in> set (frame_addrs b (pkg_frames p d))"
  shows "GetTimeStamp mem f = m_timestamp p" "GetTotalFrames mem f = length (pkg_frames p d)"
    "GetSrcDataLen mem f = length d" "GetDataLen mem f = length d"
proof -
  obtain h c where h: "(h, c) \<in> set (pkg_frames p d)" "holds_bytes mem (m_buf f) (frame_bytes h c)"
    using addrs_hold [OF hb f] by blast
  have c: "length c \<le> 1000" by (rule pkg_frames_len [OF h(1)])
  note hd = pkg_frames_head [OF h(1) d]
  note hf = holds_frame [OF h(2) c]
  have sl: "length (stream (pkg_frames p d)) = length (pkg_frames p d) * SIZEOF_MSG + length d"
    by (simp add: stream_length pkg_frames_data)
  then have n: "length (pkg_frames p d) < 256" "length d < 65536" using s by (simp_all add: SIZEOF_MSG_def PERIOPOSTSIZE_def)
  show "GetTimeStamp mem f = m_timestamp p" using hf(4) hd(2) t by (simp add: GetTimeStamp_def)
  show "GetTotalFrames mem f = length (pkg_frames p d)" using hf(3) hd(1) n(1) by (simp add: GetTotalFrames_def)
  show "GetSrcDataLen mem f = length d" using hf(5) hd(3) m n(2) by (simp add: GetSrcDataLen_def)
  show "GetDataLen mem f = length d" using holds_frame_lens [OF h(2) c] hd(4) m n(2) by (simp add: GetDataLen_def)
qed

text \<open>Receiving the buffer and collecting its frames.\<close>

lemma parse_io_arrived:
  assumes a: "arrived p d ss" and io: "m_perIoDatas ss = [io]"
    and v: "pv_bfinishR v = False"
  shows "\<exists>rb fs v'. parse_io nd io v ss = Inr (v', ss\<lparr>ss_recv := rb, m_mapFrames := [(m_timestamp p, fs)], m_rPostIndex := 0\<rparr>) \<and>
     pv_bfinishR v' \<and> pv_bFinshPackage v' \<and> map m_buf fs = frame_addrs (pbuf (pp_objs (ss_recv ss) ! 0)) (pkg_frames p d) \<and>
     pp_mem rb = pp_mem (ss_recv ss) \<and> pp_reqs rb = pp_reqs (ss_recv ss) \<and> length (pp_objs rb) = length (pp_objs (ss_recv ss)) \<and>
     m_frame (pp_objs rb ! 0) = m_frame (pp_objs (ss_recv ss) ! 0) \<and> pp_index (pp_objs rb ! 0) = pp_index (pp_objs (ss_recv ss) ! 0) \<and>
     (\<forall>ob \<in> set (pp_objs rb). m_nExtendLen ob = 0 \<and> m_nPost ob \<le> 2)"
proof -
  let ?rb = "ss_recv ss" and ?b = "pbuf (pp_objs (ss_recv ss) ! 0)" and ?fs = "pkg_frames p d" and ?idx = "pp_index (pp_objs (ss_recv ss) ! 0)"
  have ne: "pp_objs ?rb \<noteq> []" and ext: "\<forall>ob \<in> set (pp_objs ?rb). m_nExtendLen ob = 0 \<and> m_nPost ob \<le> 2"
    and cap: "mf_len (m_frame (pp_objs ?rb ! 0)) = PERIOPOSTSIZE" and hb: "holds_bytes (pp_mem ?rb) ?b (stream ?fs)"
    and d: "0 < length d" "m_len p = length d" "length (stream ?fs) \<le> PERIOPOSTSIZE" "m_timestamp p < 18446744073709551616"
    and mf: "m_mapFrames ss = []"
    using a unfolding arrived_def Let_def by blast+
  obtain node where ioeq: "io = \<lparr>io_pBuf = ?b, io_len = length (stream ?fs), io_nIndex = 0, io_pPrev = None, io_pPostNode = node\<rparr>"
    using a io unfolding arrived_def Let_def by auto
  obtain h c gs where g: "?fs = (h, c) # gs"
    using chunks_nonempty [OF d(1)] d(1) by (cases ?fs) (auto simp: pkg_frames_def enumerate_eq_zip)
  have fsl: "0 < length c' \<and> length c' \<le> 1000" if "(h', c') \<in> set ?fs" for h' c'
    using pkg_frames_head(5) [OF that d(1)] pkg_frames_len [OF that] by simp
  have c: "0 < length c" "length c \<le> 1000" using fsl [of h c] g by simp_all
  have z: "0 < length (pp_objs ?rb)" using ne by simp
  have e0: "m_nExtendLen (pp_objs ?rb ! 0) = 0" using ext nth_mem [OF z] by blast
  have hbs: "holds_bytes (pp_mem ?rb) ?b (frame_bytes h c @ stream gs)" using hb g by simp
  let ?o1 = "(pp_objs ?rb ! 0)\<lparr>m_pDataCur := ?b, m_isFinish := 1, m_nExtendLen := length (stream gs), m_pExtendStart := ?b + (SIZEOF_MSG + length c)\<rparr>"
  let ?rb1 = "?rb\<lparr>pp_objs := (pp_objs ?rb)[0 := ?o1]\<rparr>"
  have "recv_prev 0 None (length (stream ?fs)) ?rb = Inr (SIZEOF_MSG + length c + length (stream gs), False, ?rb)"
    by (simp add: recv_prev_def g)
  from RecvData_own [OF this z hbs c(2)] c(1) cap d(3) e0 g
  have rd: "RecvData 0 ?b (length (stream ?fs)) None node ?rb = Inr (0, False, ?rb1)"
    by (simp add: upd_obj_def)
  let ?o2 = "?o1\<lparr>m_isFinish := 0\<rparr>"
  let ?rb2 = "?rb\<lparr>pp_objs := (pp_objs ?rb)[0 := ?o2]\<rparr>"
  have up: "upd_obj 0 (SetNoticeStatus False) ?rb1 = ?rb2" using z by (simp add: upd_obj_def SetNoticeStatus_def)
  have o2: "pp_objs ?rb2 ! 0 = ?o2" "pp_mem ?rb2 = pp_mem ?rb" using z by simp_all
  have hs: "holds_bytes (pp_mem ?rb) ?b (frame_bytes h c)" "holds_bytes (pp_mem ?rb) (?b + (SIZEOF_MSG + length c)) (stream gs)"
    using hbs by (simp_all add: holds_append)
  have nf: "nFrameLen (msg_at (pp_mem ?rb) ?b) = SIZEOF_MSG + length c" by (rule holds_frame(2) [OF hs(1) c(2)])
  let ?o3 = "?o2\<lparr>m_nExtendLen := 0, m_pExtendStart := ?b + (SIZEOF_MSG + length c) + length (stream gs)\<rparr>"
  let ?rb3 = "?rb\<lparr>pp_objs := (pp_objs ?rb)[0 := ?o3]\<rparr>"
  let ?cur = "GetCurComplateFrame (pp_mem ?rb) ?o2"
  let ?rest = "frames_at ?idx (?b + (SIZEOF_MSG + length c)) gs"
  have go: "GetOtherFrameCount 0 [?cur] ?rb2 = (length gs, [?cur] @ ?rest, ?rb3)"
  proof -
    have "GetOtherFrameCount 0 [?cur] ?rb2 = (length gs, [?cur] @ frames_at (pp_index (pp_objs ?rb2 ! 0)) (pbuf (pp_objs ?rb2 ! 0) + (SIZEOF_MSG + length c)) gs,
      upd_obj 0 (\<lambda>x. x\<lparr>m_nExtendLen := 0, m_pExtendStart := pbuf (pp_objs ?rb2 ! 0) + (SIZEOF_MSG + length c) + length (stream gs)\<rparr>) ?rb2)"
      by (rule GetOther_stream) (use z nf hs(2) fsl g o2 in \<open>auto simp: partial_frame_def\<close>)
    then show ?thesis using z by (simp add: upd_obj_def)
  qed
  let ?all = "?cur # ?rest"
  have am: "map m_buf ?all = frame_addrs ?b ?fs"
    using frames_at_addrs [of ?idx "?b + (SIZEOF_MSG + length c)" gs] by (simp add: g GetCurComplateFrame_def add.assoc)
  have info: "GetTimeStamp (pp_mem ?rb) f = m_timestamp p" "GetTotalFrames (pp_mem ?rb) f = length ?fs" if "f \<in> set ?all" for f
  proof -
    have "m_buf f \<in> set (map m_buf ?all)" unfolding set_map using that by (rule imageI)
    then have "m_buf f \<in> set (frame_addrs ?b ?fs)" unfolding am .
    from recv_frames_info [OF hb d(1,3,4,2) this]
    show "GetTimeStamp (pp_mem ?rb) f = m_timestamp p" "GetTotalFrames (pp_mem ?rb) f = length ?fs" by simp_all
  qed
  define all where "all = ?all"
  have alln: "all \<noteq> []" "length all = length ?fs" by (simp_all add: all_def g)
  have infoa: "\<forall>f \<in> set all. GetTimeStamp (pp_mem ?rb) f = m_timestamp p" "GetTotalFrames (pp_mem ?rb) (hd all) = length all"
    using info alln by (simp_all add: all_def g)
  have fold: "fold (add_frame (pp_mem ?rb)) all [] = [(m_timestamp p, all)]"
  proof -
    obtain f r where f: "all = f # r" using alln by (cases all) auto
    then have "add_frame (pp_mem ?rb) f [] = [(m_timestamp p, [f])]" using infoa by (intro add_frame_first) simp
    then show ?thesis using fold_add_frames [of r "pp_mem ?rb" "m_timestamp p" "[f]"] infoa(1) f by simp
  qed
  let ?v0 = "v\<lparr>pv_ts := None, pv_bComplateOne := False, pv_bFlag := False\<rparr>"
  let ?v1 = "?v0\<lparr>pv_ts := Some (m_timestamp p), pv_bComplateOne := True\<rparr>"
  have own: "parse_own 0 ?v0 (ss\<lparr>ss_recv := ?rb1\<rparr>) = (?v1, ss\<lparr>ss_recv := ?rb3, m_mapFrames := [(m_timestamp p, all)]\<rparr>)"
  proof -
    have lt: "GetTimeStamp (pp_mem ?rb) (last all) = m_timestamp p" using infoa(1) last_in_set [OF alln(1)] by blast
    have go': "GetOtherFrameCount 0 [GetCurComplateFrame (pp_mem ?rb2) (pp_objs ?rb2 ! 0)] ?rb2 = (length gs, all, ?rb3)"
      using go z by (simp add: all_def)
    have s1: "ss_recv (ss\<lparr>ss_recv := ?rb1\<rparr>) = ?rb1" by simp
    show ?thesis
      unfolding parse_own_def Let_def s1 up go' prod.case using lt fold mf by simp
  qed
  let ?ss2 = "ss\<lparr>ss_recv := ?rb3, m_mapFrames := [(m_timestamp p, all)]\<rparr>"
  let ?v2 = "?v1\<lparr>pv_bFinshPackage := True\<rparr>"
  have nx: "parse_next 0 nd ?v1 ?ss2 = Inr (?v2, ?ss2\<lparr>m_rPostIndex := 0\<rparr>)"
    unfolding parse_next_def Let_def using infoa(2) by simp
  have ff: "find_finished (pp_mem ?rb) [(m_timestamp p, all)] = Inr True" using infoa by simp
  have cmp: "IsComplate (pp_objs ?rb1 ! 0)" using z by (simp add: IsComplate_def)
  have "parse_io nd io v ss = Inr (?v2\<lparr>pv_bfinishR := True\<rparr>, ?ss2\<lparr>m_rPostIndex := 0\<rparr>)"
    unfolding parse_io_def Let_def ioeq using z rd cmp own nx ff by simp
  moreover have "\<forall>ob \<in> set (pp_objs ?rb3). m_nExtendLen ob = 0 \<and> m_nPost ob \<le> 2"
    using ext nth_mem [OF z] set_update_subset_insert [of "pp_objs ?rb" 0 ?o3] by fastforce
  ultimately show ?thesis
    using am z by (intro exI [of _ ?rb3] exI [of _ all] exI [of _ "?v2\<lparr>pv_bfinishR := True\<rparr>"]) (simp add: all_def)
qed

lemma gather_package:
  assumes "holds_bytes mem b (stream (pkg_frames p d))" "map m_buf fs = frame_addrs b (pkg_frames p d)"
  shows "setMsgFrames mem False (length d) fs (length fs) = Inr d"
proof -
  have "gather mem (length d) fs [] = Inr ([] @ concat (map snd (pkg_frames p d)))"
    using assms pkg_frames_len pkg_frames_data by (intro gather_stream) auto
  then show ?thesis by (simp add: setMsgFrames_def pkg_frames_data)
qed

text \<open>Delivering the collected package and posting the next receive.\<close>

lemma parse_finished_one:
  assumes b: "b = pbuf (pp_objs (ss_recv ss) ! 0)" and hb: "holds_bytes (pp_mem (ss_recv ss)) b (stream (pkg_frames p d))"
    and d: "0 < length d" "m_len p = length d" "length (stream (pkg_frames p d)) \<le> PERIOPOSTSIZE" "m_timestamp p < 18446744073709551616"
    and fs: "map m_buf fs = frame_addrs b (pkg_frames p d)" and mf: "m_mapFrames ss = [(m_timestamp p, fs)]"
    and ob: "pp_objs (ss_recv ss) \<noteq> []" "\<forall>ob \<in> set (pp_objs (ss_recv ss)). m_nExtendLen ob = 0 \<and> m_nPost ob \<le> 2" "b \<noteq> 0"
    and on: "m_bOnline ss \<noteq> 0" and v: "pv_bFinshPackage v"
    and hk: "hk_alloc hk (length d)" "hk_set_info hk (length d) (length d)" "hk_proc hk d = Some out"
  shows "parse_finished hk now nd v ss = Inr (False, v\<lparr>pv_bFinshPackage := False, pv_bfinishR := False\<rparr>,
     ss\<lparr>m_mapFrames := [], m_recvQueue := m_recvQueue ss @ [NetPackage_new (Some out) (length d) (hk_junk hk)], m_rPostIndex := 0,
       ss_recv := PackPer_PostRecv 0 None nd (ss_recv ss)\<rparr>)"
proof -
  let ?mem = "pp_mem (ss_recv ss)"
  have len: "length fs = length (pkg_frames p d)" using fs by (metis frame_addrs_length length_map)
  have "0 < length (pkg_frames p d)"
    using chunks_nonempty [OF d(1)] d(1) by (simp add: pkg_frames_def)
  then have ne: "fs \<noteq> []" using len by auto
  have info: "GetTimeStamp ?mem f = m_timestamp p" "GetTotalFrames ?mem f = length fs" "GetSrcDataLen ?mem f = length d" "GetDataLen ?mem f = length d"
    if "f \<in> set fs" for f
  proof -
    have "m_buf f \<in> set (map m_buf fs)" unfolding set_map using that by (rule imageI)
    then have "m_buf f \<in> set (frame_addrs b (pkg_frames p d))" unfolding fs .
    from recv_frames_info [OF hb d(1,3,4,2) this] len
    show "GetTimeStamp ?mem f = m_timestamp p" "GetTotalFrames ?mem f = length fs" "GetSrcDataLen ?mem f = length d" "GetDataLen ?mem f = length d" by simp_all
  qed
  note ih = info [OF hd_in_set [OF ne]]
  have whole: "whole_packages ?mem [(m_timestamp p, fs)] = [(m_timestamp p, fs)]" using ih(2) by (simp add: whole_packages_def)
  have fe: "first_extend (pp_objs (ss_recv ss)) = -1" using ob(2) by (intro find_None_iff_first) (simp add: HasExtendData_def)
  have er: "erase_packages ?mem [(m_timestamp p, fs)] ss = Inr (ss\<lparr>m_mapFrames := []\<rparr>)"
    using ih(1) mf by (simp add: Let_def merase_def)
  let ?ss2 = "ss\<lparr>m_mapFrames := []\<rparr>"
  let ?ss3 = "?ss2\<lparr>m_recvQueue := m_recvQueue ss @ [NetPackage_new (Some out) (length d) (hk_junk hk)]\<rparr>"
  have dl: "deliver hk now ?mem [(m_timestamp p, fs)] ?ss2 = Inr (False, ?ss3)"
    using ne ih(3,4) d(1) hk gather_package [OF hb fs] by (simp add: deliver_one_def IsBaseProtocolPackage_def Let_def)
  have rp: "repost (-1) (-1) nd v ?ss3 = Inr (v\<lparr>pv_bFinshPackage := False, pv_bfinishR := False\<rparr>,
      ?ss3\<lparr>m_rPostIndex := 0, ss_recv := PackPer_PostRecv 0 None nd (ss_recv ss)\<rparr>)"
    using v on ob(1) by (simp add: repost_def Let_def ResetRecvFlagInfo_def Session_PostRecv_def)
  have nt: "\<not> (\<exists>(k, gs) \<in> set [(m_timestamp p, fs)]. \<exists>f \<in> set gs. GetTimeStamp ?mem f \<noteq> k)" using info(1) by simp
  have nl: "\<not> (-1 + 1 = int (length (pp_objs (ss_recv ss))))" using ob(1) by simp
  show ?thesis
    unfolding parse_finished_def Let_def mf whole fe if_not_P [OF nt] if_not_P [OF nl] sum.case prod.case er
    by (simp del: erase_packages.simps deliver.simps add: dl rp)
qed

lemma ParseData_arrived:
  assumes a: "arrived p d ss" and hk: "hk_alloc hk (length d)" "hk_set_info hk (length d) (length d)" "hk_proc hk d = Some out"
  shows "\<exists>ss'. ParseData hk now nd ss = Inr ss' \<and> m_perIoDatas ss' = [] \<and> m_mapFrames ss' = [] \<and>
     m_recvQueue ss' = m_recvQueue ss @ [NetPackage_new (Some out) (length d) (hk_junk hk)] \<and>
     pp_reqs (ss_recv ss') = pp_reqs (ss_recv ss) @
       [RecvReq (pbuf (pp_objs (ss_recv ss) ! 0)) (int PERIOPOSTSIZE) (pp_index (pp_objs (ss_recv ss) ! 0)) None nd]"
proof -
  let ?v = "\<lparr>pv_ts = None, pv_bComplateOne = False, pv_bFlag = False, pv_bFinshPackage = False, pv_bfinishR = False\<rparr>"
  let ?b = "pbuf (pp_objs (ss_recv ss) ! 0)"
  obtain io where io: "m_perIoDatas ss = [io]" using a unfolding arrived_def Let_def by blast
  obtain rb fs v' where p: "parse_io nd io ?v ss = Inr (v', ss\<lparr>ss_recv := rb, m_mapFrames := [(m_timestamp p, fs)], m_rPostIndex := 0\<rparr>)"
     "pv_bfinishR v'" "pv_bFinshPackage v'" "map m_buf fs = frame_addrs ?b (pkg_frames p d)"
     "pp_mem rb = pp_mem (ss_recv ss)" "pp_reqs rb = pp_reqs (ss_recv ss)" "length (pp_objs rb) = length (pp_objs (ss_recv ss))"
     "m_frame (pp_objs rb ! 0) = m_frame (pp_objs (ss_recv ss) ! 0)" "pp_index (pp_objs rb ! 0) = pp_index (pp_objs (ss_recv ss) ! 0)"
     "\<forall>ob \<in> set (pp_objs rb). m_nExtendLen ob = 0 \<and> m_nPost ob \<le> 2"
    using parse_io_arrived [OF a io, of ?v nd] by auto
  let ?ss1 = "ss\<lparr>ss_recv := rb, m_mapFrames := [(m_timestamp p, fs)], m_rPostIndex := 0\<rparr>"
  have ar: "m_bOnline ss \<noteq> 0" "pp_objs (ss_recv ss) \<noteq> []" "?b \<noteq> 0" "mf_len (m_frame (pp_objs (ss_recv ss) ! 0)) = PERIOPOSTSIZE"
    "holds_bytes (pp_mem (ss_recv ss)) ?b (stream (pkg_frames p d))" "0 < length d" "m_len p = length d"
    "length (stream (pkg_frames p d)) \<le> PERIOPOSTSIZE" "m_timestamp p < 18446744073709551616"
    using a unfolding arrived_def Let_def by blast+
  have ne: "pp_objs rb \<noteq> []" using p(7) ar(2) by auto
  let ?ss2 = "?ss1\<lparr>m_mapFrames := [], m_recvQueue := m_recvQueue ss @ [NetPackage_new (Some out) (length d) (hk_junk hk)], m_rPostIndex := 0,
       ss_recv := PackPer_PostRecv 0 None nd rb\<rparr>"
  have f: "parse_finished hk now nd v' ?ss1 = Inr (False, v'\<lparr>pv_bFinshPackage := False, pv_bfinishR := False\<rparr>, ?ss2)"
    using parse_finished_one [of ?b ?ss1 p d fs v' hk out now nd] ar p ne hk by simp
  have "ParseData hk now nd ss = Inr (?ss2\<lparr>m_perIoDatas := []\<rparr>)"
    unfolding ParseData_def io using p(1,2) f by simp
  moreover have "pp_reqs (PackPer_PostRecv 0 None nd rb) =
      pp_reqs (ss_recv ss) @ [RecvReq ?b (int PERIOPOSTSIZE) (pp_index (pp_objs (ss_recv ss) ! 0)) None nd]"
  proof -
    have "m_nPost (pp_objs rb ! 0) \<le> 2" using p(10) ne by (metis hd_conv_nth hd_in_set)
    then show ?thesis using p(6,8,9) ar(3,4) by (simp add: PackPer_PostRecv_def post_def upd_obj_def Let_def)
  qed
  ultimately show ?thesis by (intro exI [of _ "?ss2\<lparr>m_perIoDatas := []\<rparr>"]) simp
qed

subsection \<open>The send pipeline\<close>

text \<open>
  \<open>sending ss cur\<close>: buffer \<open>m_wPostIndex\<close> is being sent from address \<open>cur\<close> on, the request for its rest is the
  last one posted, and the buffers up to \<open>m_nWriteCount\<close> wait for their turn. \<open>pending\<close> is what is still to go out.
  \<open>drain\<close> is the network: it takes at most \<open>l\<close> bytes of the outstanding request and reports them.
\<close>

definition buf_end :: "ppstate \<Rightarrow> nat \<Rightarrow> addr" where
  "buf_end sb k = pbuf (pp_objs sb ! k) + m_nValidLen (m_frame (pp_objs sb ! k))"

definition sending :: "session \<Rightarrow> addr \<Rightarrow> bool" where
  "sending ss cur \<longleftrightarrow>
     (let sb = ss_send ss; w = m_wPostIndex ss; n = m_nWriteCount ss
      in m_finishW ss \<noteq> 1 \<and> w < n \<and> n < 16 \<and> n \<le> length (pp_objs sb) \<and>
         (\<forall>k < length (pp_objs sb). pp_index (pp_objs sb ! k) = k \<and> pbuf (pp_objs sb ! k) \<noteq> 0 \<and>
            m_nPost (pp_objs sb ! k) \<le> 2 \<and> m_isFinish (pp_objs sb ! k) = 0) \<and>
         (\<forall>k. w \<le> k \<and> k < n \<longrightarrow> 0 < m_nValidLen (m_frame (pp_objs sb ! k))) \<and>
         pbuf (pp_objs sb ! w) \<le> cur \<and> cur < buf_end sb w \<and>
         (\<exists>node rs. pp_reqs sb = rs @ [SendReq cur (int (buf_end sb w) - int cur) w node]))"

definition buf_bytes :: "ppstate \<Rightarrow> nat \<Rightarrow> byte list" where
  "buf_bytes sb k = map (pp_mem sb) [pbuf (pp_objs sb ! k)..<buf_end sb k]"

definition pending :: "session \<Rightarrow> addr \<Rightarrow> byte list" where
  "pending ss cur =
     (let sb = ss_send ss
      in map (pp_mem sb) [cur..<buf_end sb (m_wPostIndex ss)] @
         concat (map (buf_bytes sb) [Suc (m_wPostIndex ss)..<m_nWriteCount ss]))"

fun drain :: "nat \<Rightarrow> nat list \<Rightarrow> session \<Rightarrow> byte list \<times> session" where
  "drain nd [] ss = ([], ss)"
| "drain nd (l # ls) ss =
     (if m_finishW ss = 1 then ([], ss)
      else case last (pp_reqs (ss_send ss)) of
        SendReq a n i node \<Rightarrow>
          (let k = min l (nat n); (bs, ss') = drain nd ls (NoticeComplateSend i a k node nd ss)
           in (map (pp_mem (ss_send ss)) [a..<a + k] @ bs, ss'))
      | _ \<Rightarrow> ([], ss))"

lemma upt_cut: "(a :: nat) \<le> b \<Longrightarrow> b \<le> c \<Longrightarrow> map f [a..<c] = map f [a..<b] @ map f [b..<c]"
  by (metis le_Suc_ex map_append upt_add_eq_append)

lemma sending_part:
  assumes s: "sending ss cur" and l: "0 < l" "cur + l < buf_end (ss_send ss) (m_wPostIndex ss)"
    and ss'_def: "ss' = NoticeComplateSend (m_wPostIndex ss) cur l node nd ss"
  shows "sending ss' (cur + l) \<and> pp_mem (ss_send ss') = pp_mem (ss_send ss) \<and>
     pending ss cur = map (pp_mem (ss_send ss)) [cur..<cur + l] @ pending ss' (cur + l)"
proof -
  let ?sb = "ss_send ss" and ?w = "m_wPostIndex ss"
  let ?o = "(pp_objs ?sb ! ?w)\<lparr>m_pDataCur := cur + l\<rparr>"
  let ?sb' = "?sb\<lparr>pp_objs := (pp_objs ?sb)[?w := ?o], pp_reqs := pp_reqs ?sb @ [SendReq (cur + l) (int (buf_end ?sb ?w) - int (cur + l)) ?w node]\<rparr>"
  have w: "?w < length (pp_objs ?sb)" and ix: "pp_index (pp_objs ?sb ! ?w) = ?w" and nf: "m_isFinish (pp_objs ?sb ! ?w) = 0"
    using s by (auto simp: sending_def Let_def)
  have rs: "snd (RecordSendData ?w cur l node ?sb) = ?sb'"
    using l w ix by (simp add: RecordSendData_def upd_obj_def post_def buf_end_def Let_def)
  have e: "ss' = ss\<lparr>ss_send := ?sb'\<rparr>"
    unfolding ss'_def NoticeComplateSend_def Let_def rs using w nf by (simp add: IsComplate_def)
  have be: "buf_end ?sb' = buf_end ?sb"
    using w by (intro ext) (simp add: buf_end_def nth_list_update)
  have bb: "buf_bytes ?sb' = buf_bytes ?sb"
    unfolding buf_bytes_def be using w by (intro ext) (simp add: nth_list_update)
  have f: "ss_send ss' = ?sb'" "m_wPostIndex ss' = ?w" "m_nWriteCount ss' = m_nWriteCount ss" "m_finishW ss' = m_finishW ss"
    by (simp_all add: e)
  have "sending ss' (cur + l)"
    using s l w unfolding sending_def Let_def f be by (simp add: nth_list_update)
  moreover have "pending ss cur = map (pp_mem ?sb) [cur..<cur + l] @ pending ss' (cur + l)"
    unfolding pending_def Let_def f be bb using l upt_cut [of cur "cur + l" "buf_end ?sb ?w" "pp_mem ?sb"] by simp
  ultimately show ?thesis by (simp add: e)
qed

lemma sending_full:
  assumes s: "sending ss cur" and l: "cur + l = buf_end (ss_send ss) (m_wPostIndex ss)"
    and ss'_def: "ss' = NoticeComplateSend (m_wPostIndex ss) cur l node nd ss"
  shows "pp_mem (ss_send ss') = pp_mem (ss_send ss) \<and>
    (if Suc (m_wPostIndex ss) = m_nWriteCount ss
     then m_finishW ss' = 1 \<and> pending ss cur = map (pp_mem (ss_send ss)) [cur..<cur + l]
     else \<exists>cur'. sending ss' cur' \<and> pending ss cur = map (pp_mem (ss_send ss)) [cur..<cur + l] @ pending ss' cur')"
proof -
  let ?sb = "ss_send ss" and ?w = "m_wPostIndex ss" and ?n = "m_nWriteCount ss"
  let ?o = "(pp_objs ?sb ! ?w)\<lparr>m_pDataCur := pbuf (pp_objs ?sb ! ?w), m_isFinish := 1, m_frame := ResetValidDataLen 0 (m_frame (pp_objs ?sb ! ?w))\<rparr>"
  let ?o1 = "?o\<lparr>m_isFinish := 0\<rparr>"
  let ?sb1 = "?sb\<lparr>pp_objs := (pp_objs ?sb)[?w := ?o1]\<rparr>"
  have w: "?w < length (pp_objs ?sb)" "?w < ?n" "?n < 16" "?n \<le> length (pp_objs ?sb)" and c: "cur < buf_end ?sb ?w"
    and all: "\<forall>k < length (pp_objs ?sb). pp_index (pp_objs ?sb ! k) = k \<and> pbuf (pp_objs ?sb ! k) \<noteq> 0 \<and>
            m_nPost (pp_objs ?sb ! k) \<le> 2 \<and> m_isFinish (pp_objs ?sb ! k) = 0"
    and vl: "\<forall>k. ?w \<le> k \<and> k < ?n \<longrightarrow> 0 < m_nValidLen (m_frame (pp_objs ?sb ! k))" and fw: "m_finishW ss \<noteq> 1"
    using s unfolding sending_def Let_def by auto
  have rs: "snd (RecordSendData ?w cur l node ?sb) = ?sb\<lparr>pp_objs := (pp_objs ?sb)[?w := ?o]\<rparr>"
    using l c w(1) by (simp add: RecordSendData_def upd_obj_def buf_end_def Let_def)
  have up: "upd_obj ?w (SetNoticeStatus False) (?sb\<lparr>pp_objs := (pp_objs ?sb)[?w := ?o]\<rparr>) = ?sb1"
    using w(1) by (simp add: upd_obj_def SetNoticeStatus_def)
  have cm: "IsComplate (pp_objs (?sb\<lparr>pp_objs := (pp_objs ?sb)[?w := ?o]\<rparr>) ! ?w)" using w(1) by (simp add: IsComplate_def)
  show ?thesis
  proof (cases "Suc ?w = ?n")
    case True
    have e: "ss' = ss\<lparr>ss_send := ?sb1, m_wPostIndex := 0, m_nWriteCount := 0, m_finishW := 1\<rparr>"
      unfolding ss'_def NoticeComplateSend_def Let_def rs up if_P [OF w(1)] if_P [OF cm] using True by simp
    show ?thesis using True l unfolding e pending_def Let_def by simp
  next
    case False
    then have w': "Suc ?w < ?n" "Suc ?w < length (pp_objs ?sb)" "(?w + 1) mod 16 = Suc ?w" using w by auto
    let ?p = "pp_objs ?sb ! Suc ?w" and ?cur = "pbuf (pp_objs ?sb ! Suc ?w)"
    let ?sb2 = "?sb1\<lparr>pp_objs := (pp_objs ?sb1)[Suc ?w := ?p\<lparr>m_pDataCur := ?cur\<rparr>],
      pp_reqs := pp_reqs ?sb @ [SendReq ?cur (int (m_nValidLen (m_frame ?p))) (Suc ?w) nd]\<rparr>"
    have ap: "pp_index ?p = Suc ?w" "pbuf ?p \<noteq> 0" "m_nPost ?p \<le> 2" "0 < m_nValidLen (m_frame ?p)"
      using all w'(1,2) vl by auto
    have ps: "PackPer_PostSend (Suc ?w) nd ?sb1 = ?sb2"
      using w'(2) ap unfolding PackPer_PostSend_def upd_obj_def post_def Let_def by simp
    have ne: "\<not> (?w + 1 = ?n)" using False by simp
    have e: "ss' = ss\<lparr>ss_send := ?sb2, m_wPostIndex := Suc ?w\<rparr>"
      unfolding ss'_def NoticeComplateSend_def Let_def rs up if_P [OF w(1)] if_P [OF cm] if_not_P [OF ne] w'(3) ps ..
    have be: "buf_end ?sb2 k = buf_end ?sb k" if "Suc ?w \<le> k" for k
      using that w'(2) by (simp add: buf_end_def nth_list_update)
    have pb: "pbuf (pp_objs ?sb2 ! k) = pbuf (pp_objs ?sb ! k)" for k
      using w'(2) by (simp add: nth_list_update ResetValidDataLen_def)
    have bb: "buf_bytes ?sb2 k = buf_bytes ?sb k" if "Suc ?w \<le> k" for k
      using be [OF that] unfolding buf_bytes_def pb by simp
    define sb2 where "sb2 = ?sb2"
    have f: "ss_send ss' = sb2" "m_wPostIndex ss' = Suc ?w" "m_nWriteCount ss' = ?n" "m_finishW ss' = m_finishW ss"
      by (simp_all add: e sb2_def)
    note be = be [folded sb2_def] and pb = pb [folded sb2_def] and bb = bb [folded sb2_def]
    have m2: "pp_mem sb2 = pp_mem ?sb" "length (pp_objs sb2) = length (pp_objs ?sb)" by (simp_all add: sb2_def)
    have "sending ss' ?cur"
    proof -
      have "\<forall>k < length (pp_objs sb2). pp_index (pp_objs sb2 ! k) = k \<and> pbuf (pp_objs sb2 ! k) \<noteq> 0 \<and>
            m_nPost (pp_objs sb2 ! k) \<le> 2 \<and> m_isFinish (pp_objs sb2 ! k) = 0"
        using all w(1) w'(2) by (auto simp: nth_list_update ResetValidDataLen_def sb2_def)
      moreover have "\<forall>k. Suc ?w \<le> k \<and> k < ?n \<longrightarrow> 0 < m_nValidLen (m_frame (pp_objs sb2 ! k))"
        using vl w(4) by (auto simp: nth_list_update sb2_def)
      moreover have "pp_reqs sb2 = pp_reqs ?sb @ [SendReq ?cur (int (buf_end sb2 (Suc ?w)) - int ?cur) (Suc ?w) nd]"
        using be [of "Suc ?w"] by (simp add: buf_end_def [of ?sb]) (simp add: sb2_def)
      moreover have "?cur < buf_end sb2 (Suc ?w)" using be [of "Suc ?w"] ap(4) by (simp add: buf_end_def [of ?sb])
      ultimately show ?thesis
        unfolding sending_def Let_def f using fw w'(1) w(3,4) pb [of "Suc ?w"] m2 by auto
    qed
    moreover have "pending ss cur = map (pp_mem ?sb) [cur..<cur + l] @ pending ss' ?cur"
    proof -
      have "[Suc ?w..<?n] = Suc ?w # [Suc (Suc ?w)..<?n]" using w'(1) by (simp add: upt_rec)
      then have "concat (map (buf_bytes ?sb) [Suc ?w..<?n]) = buf_bytes ?sb (Suc ?w) @ concat (map (buf_bytes ?sb) [Suc (Suc ?w)..<?n])" by simp
      moreover have "map (buf_bytes sb2) [Suc (Suc ?w)..<?n] = map (buf_bytes ?sb) [Suc (Suc ?w)..<?n]"
        using bb by (intro map_cong refl) simp
      moreover have "map (pp_mem sb2) [?cur..<buf_end sb2 (Suc ?w)] = buf_bytes ?sb (Suc ?w)"
        using be [of "Suc ?w"] by (simp add: buf_bytes_def m2)
      ultimately show ?thesis unfolding pending_def Let_def f using l by (simp del: map_eq_conv)
    qed
    ultimately show ?thesis using False m2(1) by (auto simp: f)
  qed
qed

lemma drain_all:
  assumes "sending ss cur" "\<forall>l \<in> set ls. 0 < l" "length (pending ss cur) \<le> length ls"
  shows "\<exists>ss'. drain nd ls ss = (pending ss cur, ss') \<and> m_finishW ss' = 1"
  using assms
proof (induction ls arbitrary: ss cur)
  case Nil
  then show ?case by (auto simp: sending_def pending_def Let_def)
next
  case (Cons l ls)
  let ?sb = "ss_send ss" and ?w = "m_wPostIndex ss"
  obtain node rs where r: "pp_reqs ?sb = rs @ [SendReq cur (int (buf_end ?sb ?w) - int cur) ?w node]"
    and c: "cur < buf_end ?sb ?w" and fw: "m_finishW ss \<noteq> 1"
    using Cons.prems(1) unfolding sending_def Let_def by blast
  define k where "k = min l (nat (int (buf_end ?sb ?w) - int cur))"
  have k: "0 < k" "cur + k \<le> buf_end ?sb ?w" using Cons.prems(2) c by (auto simp: k_def)
  let ?ss = "NoticeComplateSend ?w cur k node nd ss"
  have step: "drain nd (l # ls) ss = (map (pp_mem ?sb) [cur..<cur + k] @ fst (drain nd ls ?ss), snd (drain nd ls ?ss))"
    using fw r by (simp add: k_def Let_def split_def)
  have fin: ?case if "sending ?ss cur'" "pending ss cur = map (pp_mem ?sb) [cur..<cur + k] @ pending ?ss cur'" for cur'
  proof -
    have "length (pending ?ss cur') \<le> length ls" using Cons.prems(3) k(1) by (simp add: that(2))
    from Cons.IH [OF that(1) _ this] Cons.prems(2)
    obtain s2 where "drain nd ls ?ss = (pending ?ss cur', s2)" "m_finishW s2 = 1" by auto
    then show ?thesis unfolding step that(2) by simp
  qed
  show ?case
  proof (cases "cur + k = buf_end ?sb ?w")
    case False
    with k have "cur + k < buf_end ?sb ?w" by simp
    from sending_part [OF Cons.prems(1) k(1) this refl, of node nd] fin show ?thesis by blast
  next
    case True
    note f = sending_full [OF Cons.prems(1) True refl, of node nd]
    show ?thesis
    proof (cases "Suc ?w = m_nWriteCount ss")
      case True
      then have d: "m_finishW ?ss = 1" "pending ss cur = map (pp_mem ?sb) [cur..<cur + k]" using f by auto
      then have "drain nd ls ?ss = ([], ?ss)" by (cases ls) auto
      then show ?thesis unfolding step using d by simp
    next
      case False
      with f fin show ?thesis by auto
    qed
  qed
qed

subsection \<open>Properties\<close>

text \<open>
  Property C4: receiving a package. When the frames of a package have arrived in the first receive buffer, one call of
  \<open>ParseData\<close> finds all of them, puts them together, hands the bytes to \<open>encode\<close>/\<open>uncompress\<close>, appends
  exactly one package with the result to the receive queue, leaves no piece and no frame behind and posts
  the next receive on the first buffer.
\<close>

theorem ParseData_delivers_package:
  assumes "arrived p d ss" "hk_alloc hk (length d)" "hk_set_info hk (length d) (length d)" "hk_proc hk d = Some out"
  shows "\<exists>ss'. ParseData hk now nd ss = Inr ss' \<and> m_perIoDatas ss' = [] \<and> m_mapFrames ss' = [] \<and>
     m_recvQueue ss' = m_recvQueue ss @ [NetPackage_new (Some out) (length d) (hk_junk hk)] \<and>
     pp_reqs (ss_recv ss') = pp_reqs (ss_recv ss) @
       [RecvReq (pbuf (pp_objs (ss_recv ss) ! 0)) (int PERIOPOSTSIZE) (pp_index (pp_objs (ss_recv ss) ! 0)) None nd]"
  by (rule ParseData_arrived [OF assms])

abbreviation sample_hooks :: hooks where
  "sample_hooks \<equiv> \<lparr>hk_alloc = \<lambda>_. True, hk_set_info = \<lambda>_ _. True, hk_proc = Some, hk_junk = 0\<rparr>"

abbreviation sample_pkg :: NetPackage where
  "sample_pkg \<equiv> (NetPackage_new None 2 0)\<lparr>m_timestamp := 77\<rparr>"

abbreviation sample_session :: session where
  "sample_session \<equiv> (SocketSession_new (put_bytes (\<lambda>_. 0) 1000 (stream (pkg_frames sample_pkg [6, 7]))))
     \<lparr>m_perIoDatas := [\<lparr>io_pBuf = 1000, io_len = 26, io_nIndex = 0, io_pPrev = None, io_pPostNode = 3\<rparr>],
      ss_recv := \<lparr>pp_mem = put_bytes (\<lambda>_. 0) 1000 (stream (pkg_frames sample_pkg [6, 7])),
                  pp_objs = [PackPerData_new 0 1000 4096, PackPerData_new 1 5096 4096], pp_reqs = []\<rparr>\<rparr>"

lemma sample_arrived: "arrived sample_pkg [6, 7] sample_session"
proof -
  have c: "chunks [6, 7 :: byte] = [[6, 7]]" by (simp add: chunks_eq frame_count_def TRANSFRAME_def SIZEOF_MSG_def)
  have l: "length (stream (pkg_frames sample_pkg [6, 7])) = 26" by (simp add: pkg_frames_def NetPackage_new_def c SIZEOF_MSG_def)
  have "m_timestamp sample_pkg = 77" "m_len sample_pkg = 2" by (simp_all add: NetPackage_new_def)
  then show ?thesis
    unfolding arrived_def Let_def using l holds_put [of "\<lambda>_. 0" 1000 "stream (pkg_frames sample_pkg [6, 7])"]
    by (simp add: SocketSession_new_def PackPerData_new_def PERIOPOSTSIZE_def Let_def)
qed

theorem ParseData_delivers_package_witness:
  "\<exists>ss'. ParseData sample_hooks 0 9 sample_session = Inr ss' \<and> m_mapFrames ss' = [] \<and>
     m_recvQueue ss' = m_recvQueue sample_session @ [NetPackage_new (Some [6, 7]) 2 0]"
  using ParseData_delivers_package [OF sample_arrived, of sample_hooks "[6, 7]" 0 9] by (auto simp: numeral_2_eq_2)

text \<open>
  Property C5: the send pipeline. Whatever amounts the network accepts per request, the completion
  notices drive \<open>NoticeComplateSend\<close> through the rest of the current buffer and then the buffers up
  to \<open>m_nWriteCount\<close>: exactly the pending bytes go out, in order, and the session is ready to pack again.
\<close>

theorem send_pipeline_in_order:
  assumes "sending ss cur" "\<forall>l \<in> set ls. 0 < l" "length (pending ss cur) \<le> length ls"
  shows "\<exists>ss'. drain nd ls ss = (pending ss cur, ss') \<and> m_finishW ss' = 1"
  by (rule drain_all [OF assms])

abbreviation sample_send :: session where
  "sample_send \<equiv> (SocketSession_new (\<lambda>_. 0))\<lparr>m_nWriteCount := 2, m_finishW := 0,
     ss_send := \<lparr>pp_mem = (\<lambda>a. of_nat a), pp_objs = [(PackPerData_new 0 10 4)\<lparr>m_frame := (m_frame (PackPerData_new 0 10 4))\<lparr>m_nValidLen := 3\<rparr>\<rparr>,
        (PackPerData_new 1 14 4)\<lparr>m_frame := (m_frame (PackPerData_new 1 14 4))\<lparr>m_nValidLen := 2\<rparr>\<rparr>], pp_reqs = [SendReq 10 3 0 0]\<rparr>\<rparr>"

theorem send_pipeline_in_order_witness:
  "\<exists>ss'. drain 0 [2, 9, 1, 4, 4] sample_send = ([10, 11, 12, 14, 15], ss') \<and> m_finishW ss' = 1"
proof -
  have "sending sample_send 10"
    by (simp add: sending_def Let_def SocketSession_new_def PackPerData_new_def buf_end_def less_Suc_eq numeral_2_eq_2)
  moreover have p: "pending sample_send 10 = [10, 11, 12, 14, 15]"
    by (simp add: pending_def Let_def SocketSession_new_def PackPerData_new_def buf_end_def buf_bytes_def upt_rec)
  ultimately show ?thesis using send_pipeline_in_order [of sample_send 10 "[2, 9, 1, 4, 4]" 0] by simp
qed

text \<open>
  Observation: heartbeats have no effect. Whatever arrives, \<open>ParseData\<close> leaves the time of the last heartbeat as it is,
  because \<open>IsBaseProtocolPackage\<close> is false for every protocol number; and a package with
  the number of a heartbeat would not refresh it either, since \<open>ParseBaseProtocol\<close> looks for number 2.
\<close>

theorem heartbeat_never_refreshed:
  assumes "ParseData hk now nd ss = Inr ss'"
  shows "m_heartbitTime ss' = m_heartbitTime ss \<and> ParseBaseProtocol now 3 ss = (True, ss)"
  using parse_loop_hb [OF assms [unfolded ParseData_def]] by (simp add: ParseBaseProtocol_def)

theorem heartbeat_never_refreshed_witness:
  "m_heartbitTime (sample_session\<lparr>m_perIoDatas := []\<rparr>) = m_heartbitTime sample_session \<and>
   ParseData sample_hooks 5 0 (sample_session\<lparr>m_perIoDatas := []\<rparr>) = Inr (sample_session\<lparr>m_perIoDatas := []\<rparr>)"
proof -
  have "ParseData sample_hooks 5 0 (sample_session\<lparr>m_perIoDatas := []\<rparr>) = Inr (sample_session\<lparr>m_perIoDatas := []\<rparr>)"
    by (simp add: ParseData_def)
  with heartbeat_never_refreshed [OF this] show ?thesis by simp
qed

end
