(* ===== verification/TimeInf.thy ===== *)
theory TimeInf
  imports XPrelude
begin

text \<open>
  \<open>SystemApi/TimeInfo.cpp\<close>: a date and time in the bit fields of one 32-bit word, its arithmetic through
  \<open>mktime\<close> and \<open>localtime_r\<close>, its text form and its comparison. The two library functions are
  modelled for a time zone with the fixed offset \<open>tz\<close> (in seconds) in the Gregorian calendar; the field
  \<open>tm_isdst\<close>, which most callers leave uninitialised, has no influence in such a zone. Reading the clock is
  the argument \<open>now\<close>.
\<close>

named_theorems ti_defs \<open>the operations that go through \<open>mktime\<close> and \<open>localtime_r\<close>\<close>

record time_info =
  ti_sec :: nat
  ti_min :: nat
  ti_hour :: nat
  ti_day :: nat
  ti_mon :: nat
  ti_year :: nat

text \<open>Assignment of an \<open>int\<close> to a bit field of \<open>w\<close> bits.\<close>

definition to_bits :: "nat \<Rightarrow> int \<Rightarrow> nat" where
  "to_bits w i = nat (i mod 2 ^ w)"

definition ti_set :: "int \<Rightarrow> int \<Rightarrow> int \<Rightarrow> int \<Rightarrow> int \<Rightarrow> int \<Rightarrow> time_info" where
  "ti_set y mon d h m s =
     \<lparr>ti_sec = to_bits 6 s, ti_min = to_bits 6 m, ti_hour = to_bits 5 h, ti_day = to_bits 5 d, ti_mon = to_bits 4 mon,
      ti_year = to_bits 6 y\<rparr>"

definition TimeInfo_of :: "int \<Rightarrow> int \<Rightarrow> int \<Rightarrow> int \<Rightarrow> int \<Rightarrow> int \<Rightarrow> time_info" where
  "TimeInfo_of y mon d h m s = ti_set (y - 2000) mon d h m s"

subsection \<open>The calendar of the C library\<close>

record tm =
  tm_year :: int
  tm_mon :: int
  tm_mday :: int
  tm_hour :: int
  tm_min :: int
  tm_sec :: int

definition leap :: "int \<Rightarrow> bool" where
  "leap y \<longleftrightarrow> y mod 4 = 0 \<and> (y mod 100 \<noteq> 0 \<or> y mod 400 = 0)"

definition year_len :: "int \<Rightarrow> int" where
  "year_len y = (if leap y then 366 else 365)"

definition mon_lens :: "int \<Rightarrow> int list" where
  "mon_lens y = [31, if leap y then 29 else 28, 31, 30, 31, 30, 31, 31, 30, 31, 30, 31]"

text \<open>Days from 1 January 1970 to 1 January of a year.\<close>

definition year_days :: "int \<Rightarrow> int" where
  "year_days y = 365 * (y - 1970) + (y - 1) div 4 - (y - 1) div 100 + (y - 1) div 400 - 477"

definition mktime :: "int \<Rightarrow> tm \<Rightarrow> int" where
  "mktime tz t =
     (let y = tm_year t + 1900 + tm_mon t div 12; m = nat (tm_mon t mod 12);
          days = year_days y + sum_list (take m (mon_lens y)) + tm_mday t - 1
      in days * 86400 + tm_hour t * 3600 + tm_min t * 60 + tm_sec t - tz)"

function year_up :: "int \<Rightarrow> int \<Rightarrow> int \<times> int" where
  "year_up y d = (if d < year_len y then (y, d) else year_up (y + 1) (d - year_len y))"
  by pat_completeness auto
termination
  by (relation "measure (\<lambda>(y, d). nat d)") (auto simp: year_len_def split: if_splits)

function year_down :: "int \<Rightarrow> int \<Rightarrow> int \<times> int" where
  "year_down y d = (if 0 \<le> d then (y, d) else year_down (y - 1) (d + year_len (y - 1)))"
  by pat_completeness auto
termination
  by (relation "measure (\<lambda>(y, d). nat (- d))") (auto simp: year_len_def split: if_splits)

declare year_up.simps [simp del] year_down.simps [simp del]

fun mon_split :: "int list \<Rightarrow> int \<Rightarrow> int \<Rightarrow> int \<times> int" where
  "mon_split [] m d = (m, d)"
| "mon_split (l # ls) m d = (if d < l then (m, d) else mon_split ls (m + 1) (d - l))"

definition localtime :: "int \<Rightarrow> int \<Rightarrow> tm" where
  "localtime tz t =
     (let s = t + tz; d = s div 86400; r = s mod 86400;
          (y, yd) = (if 0 \<le> d then year_up 1970 d else year_down 1970 d);
          (m, md) = mon_split (mon_lens y) 0 yd
      in \<lparr>tm_year = y - 1900, tm_mon = m, tm_mday = md + 1, tm_hour = r div 3600, tm_min = r mod 3600 div 60, tm_sec = r mod 60\<rparr>)"

subsection \<open>The operations\<close>

text \<open>The \<open>struct tm\<close> that every operation fills from the object.\<close>

definition tm_of :: "time_info \<Rightarrow> tm" where
  "tm_of t = \<lparr>tm_year = 100 + int (ti_year t), tm_mon = int (ti_mon t) - 1, tm_mday = int (ti_day t),
              tm_hour = int (ti_hour t), tm_min = int (ti_min t), tm_sec = int (ti_sec t)\<rparr>"

text \<open>Copying the result of \<open>localtime_r\<close> into the object.\<close>

definition of_tm :: "tm \<Rightarrow> time_info" where
  "of_tm l = ti_set (tm_year l - 100) (tm_mon l + 1) (tm_mday l) (tm_hour l) (tm_min l) (tm_sec l)"

definition TimeInfo_Update :: "int \<Rightarrow> int \<Rightarrow> time_info" where
  "TimeInfo_Update tz now = of_tm (localtime tz now)"

definition ti_plus :: "int \<Rightarrow> time_info \<Rightarrow> int \<Rightarrow> time_info" where
  "ti_plus tz t s =
     (let l = localtime tz (mktime tz (tm_of t) + s)
      in TimeInfo_of (tm_year l + 1900) (tm_mon l + 1) (tm_mday l) (tm_hour l) (tm_min l) (tm_sec l))"

definition ti_minus :: "int \<Rightarrow> time_info \<Rightarrow> int \<Rightarrow> time_info" where
  "ti_minus tz t s =
     (let l = localtime tz (mktime tz (tm_of t) - s)
      in TimeInfo_of (tm_year l + 1900) (tm_mon l + 1) (tm_mday l) (tm_hour l) (tm_min l) (tm_sec l))"

definition ti_add_assign :: "int \<Rightarrow> time_info \<Rightarrow> int \<Rightarrow> time_info" where
  "ti_add_assign tz t s = of_tm (localtime tz (mktime tz (tm_of t) + s))"

definition ti_sub_assign :: "int \<Rightarrow> time_info \<Rightarrow> int \<Rightarrow> time_info" where
  "ti_sub_assign tz t s = of_tm (localtime tz (mktime tz (tm_of t) - s))"

definition ti_diff :: "int \<Rightarrow> time_info \<Rightarrow> time_info \<Rightarrow> int" where
  "ti_diff tz t1 t2 = mktime tz (tm_of t1) - mktime tz (tm_of t2)"

declare ti_plus_def [ti_defs] ti_minus_def [ti_defs] ti_add_assign_def [ti_defs] ti_sub_assign_def [ti_defs]

text \<open>The word that holds the bit fields, first field in the lowest bits.\<close>

definition GetTimeOfNumber :: "time_info \<Rightarrow> nat" where
  "GetTimeOfNumber t =
     ti_sec t + 2 ^ 6 * ti_min t + 2 ^ 12 * ti_hour t + 2 ^ 17 * ti_day t + 2 ^ 22 * ti_mon t + 2 ^ 26 * ti_year t"

definition ti_less :: "time_info \<Rightarrow> time_info \<Rightarrow> bool" where
  "ti_less t1 t2 \<longleftrightarrow> GetTimeOfNumber t1 < GetTimeOfNumber t2"

text \<open>The product \<open>d*24*3600\<close> is computed in \<open>int\<close>.\<close>

definition AddDay :: "int \<Rightarrow> int \<Rightarrow> time_info \<Rightarrow> xerror + time_info" where
  "AddDay tz d t =
     (if - 2147483648 \<le> d * 24 * 3600 \<and> d * 24 * 3600 < 2147483648
      then Inr (of_tm (localtime tz (mktime tz (tm_of t) + d * 24 * 3600))) else Inl Undefined)"

definition clip_feb :: "time_info \<Rightarrow> time_info" where
  "clip_feb t =
     (if ti_mon t = 2 then
        (if (ti_year t + 2000) mod 4 = 0 then (if 29 < ti_day t then t\<lparr>ti_day := 29\<rparr> else t)
         else (if 28 < ti_day t then t\<lparr>ti_day := 28\<rparr> else t))
      else t)"

text \<open>\<open>ti_mon\<close> is unsigned, so the test \<open>ti_mon < 0\<close> is that of a natural number.\<close>

definition AddMonth :: "int \<Rightarrow> time_info \<Rightarrow> time_info" where
  "AddMonth mon t =
     (let t1 = t\<lparr>ti_mon := to_bits 4 (int (ti_mon t) + mon)\<rparr>
      in clip_feb
           (if 12 < ti_mon t1
            then t1\<lparr>ti_mon := to_bits 4 (int (ti_mon t1) - 12), ti_year := to_bits 6 (int (ti_year t1) + 1)\<rparr>
            else if ti_mon t1 < 0
            then t1\<lparr>ti_year := to_bits 6 (int (ti_year t1) - 1), ti_mon := to_bits 4 (int (ti_mon t1) + 12)\<rparr>
            else t1))"

definition AddYear :: "int \<Rightarrow> time_info \<Rightarrow> time_info" where
  "AddYear y t = clip_feb (t\<lparr>ti_year := to_bits 6 (int (ti_year t) + y)\<rparr>)"

definition GetMaxDay :: "int \<Rightarrow> int \<Rightarrow> int" where
  "GetMaxDay year month =
     (if month < 1 \<or> 12 < month then -1
      else if month \<noteq> 2 then
        (if month \<in> set [1, 3, 5, 7, 8, 10, 12] then 31 else if month \<in> set [4, 6, 9, 11, 0, 0, 0] then 30 else -1)
      else if year mod 4 = 0 then 29 else 28)"

subsection \<open>Text\<close>

definition digit :: "nat \<Rightarrow> char" where
  "digit d = char_of (48 + d)"

text \<open>\<open>%02d\<close> and \<open>%04d\<close> of numbers with at most that many digits.\<close>

definition fmt2 :: "nat \<Rightarrow> string" where
  "fmt2 n = [digit (n div 10), digit (n mod 10)]"

definition fmt4 :: "nat \<Rightarrow> string" where
  "fmt4 n = [digit (n div 1000), digit (n div 100 mod 10), digit (n div 10 mod 10), digit (n mod 10)]"

definition TimeInfo_string :: "time_info \<Rightarrow> string" where
  "TimeInfo_string t =
     fmt4 (ti_year t + 2000) @ ''-'' @ fmt2 (ti_mon t) @ ''-'' @ fmt2 (ti_day t) @ '' '' @ fmt2 (ti_hour t) @ '':'' @
     fmt2 (ti_min t) @ '':'' @ fmt2 (ti_sec t)"

definition is_digit :: "char \<Rightarrow> bool" where
  "is_digit c \<longleftrightarrow> 48 \<le> (of_char c :: nat) \<and> (of_char c :: nat) \<le> 57"

definition is_blank :: "char \<Rightarrow> bool" where
  "is_blank c \<longleftrightarrow> (of_char c :: nat) = 32 \<or> 9 \<le> (of_char c :: nat) \<and> (of_char c :: nat) \<le> 13"

fun digits_val :: "int \<Rightarrow> string \<Rightarrow> int" where
  "digits_val acc [] = acc"
| "digits_val acc (c # cs) = (if is_digit c then digits_val (acc * 10 + (of_char c - 48)) cs else acc)"

definition atoi :: "string \<Rightarrow> int" where
  "atoi s =
     (case dropWhile is_blank s of
        [] \<Rightarrow> 0
      | c # cs \<Rightarrow> if c = CHR ''-'' then - digits_val 0 cs else if c = CHR ''+'' then digits_val 0 cs
                  else digits_val 0 (c # cs))"

text \<open>\<open>strchr\<close> followed by the increment: the text behind the first \<open>c\<close>.\<close>

definition after_char :: "char \<Rightarrow> string \<Rightarrow> string option" where
  "after_char c s = (case dropWhile (\<lambda>x. x \<noteq> c) s of [] \<Rightarrow> None | _ # r \<Rightarrow> Some r)"

definition parse_clock :: "string \<Rightarrow> (int \<times> int \<times> int) option" where
  "parse_clock pDstr =
     (case after_char CHR '' '' pDstr of
        None \<Rightarrow> None
      | Some pHstr \<Rightarrow>
          (let hour = atoi (take 2 pHstr)
           in if 0 \<le> hour \<and> hour \<le> 23 then
                (case after_char CHR '':'' pHstr of
                   None \<Rightarrow> None
                 | Some pmstr \<Rightarrow>
                     (let mi = atoi (take 2 pmstr)
                      in if 0 \<le> mi \<and> mi < 60 then
                           (case after_char CHR '':'' pmstr of
                              None \<Rightarrow> None
                            | Some psstr \<Rightarrow>
                                (let sec = atoi psstr
                                 in if 0 \<le> sec \<and> sec < 60 then Some (hour, mi, sec) else None))
                         else None))
              else None))"

definition parse_date :: "string \<Rightarrow> time_info option" where
  "parse_date s =
     (if length s = 19 then
        (let year = atoi (take 4 s) - 2000
         in case after_char CHR ''-'' (drop 4 s) of
              None \<Rightarrow> None
            | Some pMstr \<Rightarrow>
                (let month = atoi (take 2 pMstr)
                 in if 0 < month \<and> month \<le> 12 then
                      (case after_char CHR ''-'' pMstr of
                         None \<Rightarrow> None
                       | Some pDstr \<Rightarrow>
                           (let day = atoi (take 2 pDstr)
                            in if day \<le> GetMaxDay year month
                               then map_option (\<lambda>(h, m, sec). ti_set year month day h m sec) (parse_clock pDstr)
                               else None))
                    else None))
      else None)"

definition TimeInfo_parse :: "int \<Rightarrow> int \<Rightarrow> string \<Rightarrow> time_info" where
  "TimeInfo_parse tz now s = (case parse_date s of Some t \<Rightarrow> t | None \<Rightarrow> TimeInfo_Update tz now)"

definition getTimeStamp :: "int \<Rightarrow> int \<Rightarrow> int" where
  "getTimeStamp time millitm = time * 1000 + millitm"

subsection \<open>The calendar\<close>

lemma year_len_bounds: "365 \<le> year_len y" "year_len y \<le> 366"
  by (simp_all add: year_len_def)

lemma div_step: "0 < k \<Longrightarrow> y div k = (y - 1) div k + (if y mod k = 0 then 1 else 0)" for y k :: int
proof -
  assume k: "0 < k"
  have y: "y = y div k * k + y mod k" by simp
  show ?thesis
  proof (cases "y mod k = 0")
    case True
    then have "y - 1 = (y div k - 1) * k + (k - 1)" using y by (simp add: algebra_simps)
    then have "(y - 1) div k = y div k - 1" using k by (intro int_div_pos_eq [of _ _ _ "k - 1"]) (simp_all add: mult.commute)
    then show ?thesis using True by simp
  next
    case False
    have "0 < y mod k" "y mod k < k" using False k pos_mod_bound [OF k, of y] pos_mod_sign [OF k, of y] by linarith+
    moreover have "y - 1 = y div k * k + (y mod k - 1)" using y by linarith
    ultimately have "(y - 1) div k = y div k" by (intro int_div_pos_eq [of _ _ _ "y mod k - 1"]) (simp_all add: mult.commute)
    then show ?thesis using False by simp
  qed
qed

lemma year_days_step: "year_days (y + 1) = year_days y + year_len y"
proof -
  have m: "y mod 400 = 0 \<Longrightarrow> y mod 100 = 0" "y mod 100 = 0 \<Longrightarrow> y mod 4 = 0"
    unfolding dvd_eq_mod_eq_0 [symmetric] by (erule dvd_trans [rotated], simp)+
  have d: "y div 4 = (y - 1) div 4 + (if y mod 4 = 0 then 1 else 0)" "y div 100 = (y - 1) div 100 + (if y mod 100 = 0 then 1 else 0)"
    "y div 400 = (y - 1) div 400 + (if y mod 400 = 0 then 1 else 0)"
    by (rule div_step, simp)+
  have shift: "365 * (y + 1 - 1970) + (a + i) - (b + j) + (c + k) - 477 = 365 * (y - 1970) + a - b + c - 477 + 365 + i - j + k"
    for a b c i j k :: int by simp
  have "year_days (y + 1) = 365 * (y + 1 - 1970) + y div 4 - y div 100 + y div 400 - 477" by (simp add: year_days_def)
  also have "\<dots> = year_days y + 365 + (if y mod 4 = 0 then 1 else 0) - (if y mod 100 = 0 then 1 else 0) + (if y mod 400 = 0 then 1 else 0)"
    unfolding d year_days_def by (rule shift)
  also have "\<dots> = year_days y + year_len y"
    using m by (cases "y mod 400 = 0"; cases "y mod 100 = 0"; cases "y mod 4 = 0") (simp_all add: year_len_def leap_def)
  finally show ?thesis .
qed

lemma year_days_mono: "year_days y + 365 * int n \<le> year_days (y + int n)"
proof (induction n)
  case (Suc n)
  have "year_days (y + int (Suc n)) = year_days (y + int n) + year_len (y + int n)"
    using year_days_step [of "y + int n"] by (simp add: algebra_simps)
  with Suc year_len_bounds(1) [of "y + int n"] show ?case by (simp add: algebra_simps)
qed simp

lemma year_days_less:
  assumes "y < y'"
  shows "year_days y + year_len y \<le> year_days y'"
proof -
  from assms obtain n where "y' = y + 1 + int n" by (metis zless_iff_Suc_zadd of_nat_Suc add.assoc add.commute)
  with year_days_mono [of "y + 1" n] show ?thesis by (simp add: year_days_step)
qed

lemma year_up_split:
  "0 \<le> d \<Longrightarrow> year_up y0 d = (y, r) \<Longrightarrow> 0 \<le> r \<and> r < year_len y \<and> year_days y + r = year_days y0 + d"
proof (induction y0 d rule: year_up.induct)
  case (1 y0 d)
  show ?case
  proof (cases "d < year_len y0")
    case True
    with 1 show ?thesis by (simp add: year_up.simps [of y0])
  next
    case False
    then have "year_up (y0 + 1) (d - year_len y0) = (y, r)" using "1.prems" by (simp add: year_up.simps [of y0])
    with "1.IH" [OF False] False show ?thesis by (simp add: year_days_step)
  qed
qed

lemma year_down_split:
  "d < year_len y0 \<Longrightarrow> year_down y0 d = (y, r) \<Longrightarrow> 0 \<le> r \<and> r < year_len y \<and> year_days y + r = year_days y0 + d"
proof (induction y0 d rule: year_down.induct)
  case (1 y0 d)
  show ?case
  proof (cases "0 \<le> d")
    case True
    with 1 show ?thesis by (simp add: year_down.simps [of y0])
  next
    case False
    then have "year_down (y0 - 1) (d + year_len (y0 - 1)) = (y, r)" using "1.prems" by (simp add: year_down.simps [of y0])
    with "1.IH" [OF False] False year_days_step [of "y0 - 1"] show ?thesis by simp
  qed
qed

text \<open>The year and the day of the year of a day number.\<close>

lemma year_split_unique:
  assumes "0 \<le> r" "r < year_len y" "0 \<le> r'" "r' < year_len y'" "year_days y + r = year_days y' + r'"
  shows "y = y' \<and> r = r'"
proof -
  have "\<not> y < y'" "\<not> y' < y" using assms year_days_less [of y y'] year_days_less [of y' y] by linarith+
  then show ?thesis using assms(5) by simp
qed

lemma mon_split_sum:
  "0 \<le> d \<Longrightarrow> d < sum_list ls \<Longrightarrow> \<exists>k < length ls. mon_split ls m d = (m + int k, d - sum_list (take k ls)) \<and>
     0 \<le> d - sum_list (take k ls) \<and> d - sum_list (take k ls) < ls ! k"
proof (induction ls arbitrary: m d)
  case (Cons l ls)
  show ?case
  proof (cases "d < l")
    case True
    with Cons.prems show ?thesis by (intro exI [of _ 0]) simp
  next
    case False
    with Cons.prems obtain k where "k < length ls" "mon_split ls (m + 1) (d - l) = (m + 1 + int k, d - l - sum_list (take k ls))"
      "0 \<le> d - l - sum_list (take k ls)" "d - l - sum_list (take k ls) < ls ! k"
      using Cons.IH [of "d - l" "m + 1"] by auto
    with False show ?thesis by (intro exI [of _ "Suc k"]) (simp add: algebra_simps)
  qed
qed simp

lemma mon_split_at:
  assumes "k < length ls" "0 \<le> r" "r < ls ! k" "\<forall>l \<in> set ls. 0 < l"
  shows "mon_split ls m (sum_list (take k ls) + r) = (m + int k, r)"
  using assms
proof (induction ls arbitrary: m k)
  case (Cons l ls)
  show ?case
  proof (cases k)
    case 0
    with Cons.prems show ?thesis by simp
  next
    case (Suc j)
    have "0 \<le> sum_list (take j ls)" using Cons.prems(4) by (intro sum_list_nonneg) (metis in_set_takeD list.set_intros(2) order_less_imp_le)
    with Suc Cons.prems Cons.IH [of j "m + 1"] show ?thesis by (simp add: algebra_simps)
  qed
qed simp

lemma mon_lens_length: "length (mon_lens y) = 12"
  by (simp add: mon_lens_def)

lemma mon_lens_sum: "sum_list (mon_lens y) = year_len y"
  by (simp add: mon_lens_def year_len_def)

lemma mon_lens_pos: "\<forall>l \<in> set (mon_lens y). 0 < l"
  by (simp add: mon_lens_def)

lemma take_sum_bound:
  assumes "k < 12" "d \<le> mon_lens y ! k"
  shows "sum_list (take k (mon_lens y)) + d \<le> year_len y"
proof -
  have "sum_list (mon_lens y) = sum_list (take k (mon_lens y)) + (mon_lens y ! k + sum_list (drop (Suc k) (mon_lens y)))"
    using assms(1) by (metis append_take_drop_id mon_lens_length sum_list_append Cons_nth_drop_Suc sum_list.Cons)
  moreover have "0 \<le> sum_list (drop (Suc k) (mon_lens y))"
    using mon_lens_pos [of y] by (intro sum_list_nonneg) (metis in_set_dropD order_less_imp_le)
  ultimately show ?thesis using assms(2) mon_lens_sum [of y] by simp
qed

text \<open>A \<open>struct tm\<close> with all fields in range.\<close>

definition tm_valid :: "tm \<Rightarrow> bool" where
  "tm_valid t \<longleftrightarrow> 0 \<le> tm_mon t \<and> tm_mon t < 12 \<and> 1 \<le> tm_mday t \<and> tm_mday t \<le> mon_lens (tm_year t + 1900) ! nat (tm_mon t) \<and>
     0 \<le> tm_hour t \<and> tm_hour t < 24 \<and> 0 \<le> tm_min t \<and> tm_min t < 60 \<and> 0 \<le> tm_sec t \<and> tm_sec t < 60"

lemma localtime_valid: "tm_valid (localtime tz t) \<and> mktime tz (localtime tz t) = t"
proof -
  define d where "d = (t + tz) div 86400"
  define r where "r = (t + tz) mod 86400"
  obtain y yd where y: "(if 0 \<le> d then year_up 1970 d else year_down 1970 d) = (y, yd)" by fastforce
  have z: "year_days 1970 = 0" by (simp add: year_days_def)
  have yd: "0 \<le> yd" "yd < year_len y" "year_days y + yd = d"
    using y year_up_split [of d 1970 y yd] year_down_split [of d 1970 y yd] z year_len_bounds(1) [of 1970]
    by (auto split: if_splits)
  obtain k where k: "k < 12" "mon_split (mon_lens y) 0 yd = (int k, yd - sum_list (take k (mon_lens y)))"
    "0 \<le> yd - sum_list (take k (mon_lens y))" "yd - sum_list (take k (mon_lens y)) < mon_lens y ! k"
    using mon_split_sum [OF yd(1), of "mon_lens y" 0] yd(2) by (auto simp: mon_lens_sum mon_lens_length)
  have l: "localtime tz t = \<lparr>tm_year = y - 1900, tm_mon = int k, tm_mday = yd - sum_list (take k (mon_lens y)) + 1,
      tm_hour = r div 3600, tm_min = r mod 3600 div 60, tm_sec = r mod 60\<rparr>"
    unfolding localtime_def Let_def d_def [symmetric] r_def [symmetric] y prod.case k(2) by simp
  have r: "0 \<le> r" "r < 86400" by (simp_all add: r_def)
  have c: "r div 3600 * 3600 + r mod 3600 div 60 * 60 + r mod 60 = r"
  proof -
    have "r mod 3600 mod 60 = r mod 60" by (rule mod_mod_cancel) simp
    then show ?thesis using div_mult_mod_eq [of r 3600] div_mult_mod_eq [of "r mod 3600" 60] by linarith
  qed
  have h: "r div 3600 < 24" "0 \<le> r div 3600" "r mod 3600 div 60 < 60" "0 \<le> r mod 3600 div 60" using r by (simp_all add: div_less_iff_less_mult pos_imp_zdiv_nonneg_iff)
  have "tm_valid (localtime tz t)" using k h by (simp add: l tm_valid_def)
  moreover have "mktime tz (localtime tz t) = t"
  proof -
    have "(int k div 12) = 0" "int k mod 12 = int k" using k(1) by simp_all
    then have "mktime tz (localtime tz t) = (year_days y + yd) * 86400 + (r div 3600 * 3600 + r mod 3600 div 60 * 60 + r mod 60) - tz"
      by (simp add: l mktime_def Let_def)
    also have "\<dots> = d * 86400 + r - tz" unfolding c yd(3) ..
    also have "\<dots> = t" by (simp add: d_def r_def)
    finally show ?thesis .
  qed
  ultimately show ?thesis ..
qed

text \<open>Two different valid broken-down times are different points in time.\<close>

definition tm_day :: "tm \<Rightarrow> int" where
  "tm_day t = year_days (tm_year t + 1900) + sum_list (take (nat (tm_mon t)) (mon_lens (tm_year t + 1900))) + tm_mday t - 1"

definition tm_clock :: "tm \<Rightarrow> int" where
  "tm_clock t = tm_hour t * 3600 + tm_min t * 60 + tm_sec t"

lemma mktime_day_clock: "tm_valid t \<Longrightarrow> mktime tz t = tm_day t * 86400 + tm_clock t - tz"
  by (simp add: mktime_def Let_def tm_day_def tm_clock_def tm_valid_def)

lemma tm_clock_bounds: "tm_valid t \<Longrightarrow> 0 \<le> tm_clock t \<and> tm_clock t < 86400"
  by (auto simp: tm_valid_def tm_clock_def)

lemma take_sum_less:
  assumes "j < k" "k < 12"
  shows "sum_list (take j (mon_lens y)) + mon_lens y ! j \<le> sum_list (take k (mon_lens y))"
proof -
  have "take k (mon_lens y) = take (Suc j) (mon_lens y) @ take (k - Suc j) (drop (Suc j) (mon_lens y))"
    using assms(1) by (metis Suc_leI le_add_diff_inverse take_add)
  moreover have "0 \<le> sum_list (take (k - Suc j) (drop (Suc j) (mon_lens y)))"
    using mon_lens_pos [of y] by (intro sum_list_nonneg) (metis in_set_dropD in_set_takeD order_less_imp_le)
  ultimately show ?thesis using assms by (simp add: take_Suc_conv_app_nth mon_lens_length)
qed

lemma tm_day_bounds:
  assumes "tm_valid t"
  shows "year_days (tm_year t + 1900) \<le> tm_day t" "tm_day t < year_days (tm_year t + 1900) + year_len (tm_year t + 1900)"
proof -
  have "0 \<le> sum_list (take (nat (tm_mon t)) (mon_lens (tm_year t + 1900)))"
    using mon_lens_pos by (intro sum_list_nonneg) (metis in_set_takeD order_less_imp_le)
  with assms show "year_days (tm_year t + 1900) \<le> tm_day t" by (simp add: tm_day_def tm_valid_def)
  have "sum_list (take (nat (tm_mon t)) (mon_lens (tm_year t + 1900))) + tm_mday t \<le> year_len (tm_year t + 1900)"
    using assms by (intro take_sum_bound) (auto simp: tm_valid_def)
  then show "tm_day t < year_days (tm_year t + 1900) + year_len (tm_year t + 1900)" by (simp add: tm_day_def)
qed

text \<open>\<open>mktime\<close> follows the order of the fields.\<close>

lemma mktime_less_day: "tm_valid a \<Longrightarrow> tm_valid b \<Longrightarrow> tm_day a < tm_day b \<Longrightarrow> mktime tz a < mktime tz b"
  using tm_clock_bounds [of a] tm_clock_bounds [of b] by (simp add: mktime_day_clock)

lemma tm_day_less_year:
  assumes "tm_valid a" "tm_valid b" "tm_year a < tm_year b"
  shows "tm_day a < tm_day b"
  using tm_day_bounds [OF assms(1)] tm_day_bounds [OF assms(2)] year_days_less [of "tm_year a + 1900" "tm_year b + 1900"] assms(3)
  by linarith

lemma tm_day_less_mon:
  assumes "tm_valid a" "tm_valid b" "tm_year a = tm_year b" "tm_mon a < tm_mon b"
  shows "tm_day a < tm_day b"
proof -
  have "nat (tm_mon a) < nat (tm_mon b)" "nat (tm_mon b) < 12" using assms by (auto simp: tm_valid_def)
  from take_sum_less [OF this, of "tm_year b + 1900"] show ?thesis
    using assms(1-3) by (simp add: tm_day_def tm_valid_def)
qed

subsection \<open>The bit fields\<close>

definition ti_valid :: "time_info \<Rightarrow> bool" where
  "ti_valid t \<longleftrightarrow> ti_year t < 64 \<and> tm_valid (tm_of t)"

lemma to_bits_id: "0 \<le> i \<Longrightarrow> i < 2 ^ w \<Longrightarrow> to_bits w i = nat i"
  by (simp add: to_bits_def)

lemma mon_lens_le: "k < 12 \<Longrightarrow> mon_lens y ! k \<le> 31"
proof -
  assume "k < 12"
  then have "mon_lens y ! k \<in> set (mon_lens y)" by (simp add: mon_lens_length)
  then show ?thesis by (auto simp: mon_lens_def split: if_splits)
qed

lemma tm_valid_mday:
  assumes "tm_valid t"
  shows "tm_mday t \<le> 31"
proof -
  have "nat (tm_mon t) < 12" "tm_mday t \<le> mon_lens (tm_year t + 1900) ! nat (tm_mon t)" using assms by (auto simp: tm_valid_def)
  with mon_lens_le [of "nat (tm_mon t)" "tm_year t + 1900"] show ?thesis by simp
qed

lemma of_tm_tm_of: "ti_valid t \<Longrightarrow> of_tm (tm_of t) = t"
  using tm_valid_mday [of "tm_of t"]
  by (cases t) (auto simp: ti_valid_def tm_valid_def of_tm_def tm_of_def ti_set_def to_bits_id)

lemma tm_of_of_tm:
  assumes "tm_valid l" "100 \<le> tm_year l" "tm_year l < 164"
  shows "tm_of (of_tm l) = l" "ti_valid (of_tm l)"
proof -
  show "tm_of (of_tm l) = l"
    using assms tm_valid_mday [OF assms(1)]
    by (cases l) (auto simp: tm_valid_def of_tm_def tm_of_def ti_set_def to_bits_id)
  then show "ti_valid (of_tm l)" using assms by (auto simp: ti_valid_def of_tm_def ti_set_def to_bits_id)
qed

lemma split_less:
  fixes a b a' b' K :: nat
  assumes "a * K + b < a' * K + b'" "b < K" "b' < K"
  shows "a < a' \<or> a = a' \<and> b < b'"
proof (cases "a' < a")
  case True
  then have "(a' + 1) * K \<le> a * K" by (intro mult_le_mono1) simp
  with assms show ?thesis by simp
next
  case False
  then show ?thesis using assms(1) by (auto simp: order_less_le)
qed

lemma split_eq:
  fixes a b a' b' K :: nat
  assumes "b + K * a = b' + K * a'" "b < K" "b' < K"
  shows "b = b' \<and> a = a'"
proof -
  have "(b + K * a) mod K = b" "(b' + K * a') mod K = b'" using assms(2,3) by simp_all
  then have "b = b'" using assms(1) by simp
  with assms show ?thesis by simp
qed

lemma ti_less_lex:
  assumes v: "ti_valid a" "ti_valid b" and l: "ti_less a b"
  shows "ti_year a < ti_year b \<or> ti_year a = ti_year b \<and> (ti_mon a < ti_mon b \<or> ti_mon a = ti_mon b \<and>
    (ti_day a < ti_day b \<or> ti_day a = ti_day b \<and> tm_clock (tm_of a) < tm_clock (tm_of b)))"
proof -
  have f: "ti_sec t < 60" "ti_min t < 60" "ti_hour t < 24" "ti_day t < 32" "ti_mon t < 16" if "ti_valid t" for t
    using that tm_valid_mday [of "tm_of t"] by (auto simp: ti_valid_def tm_valid_def tm_of_def)
  note fa = f [OF v(1)] and fb = f [OF v(2)]
  define ca where "ca = ti_sec a + 64 * ti_min a + 4096 * ti_hour a"
  define cb where "cb = ti_sec b + 64 * ti_min b + 4096 * ti_hour b"
  have c: "ca < 131072" "cb < 131072" using fa fb by (simp_all add: ca_def cb_def)
  have "ti_year a * 67108864 + (ti_mon a * 4194304 + (ti_day a * 131072 + ca)) <
        ti_year b * 67108864 + (ti_mon b * 4194304 + (ti_day b * 131072 + cb))"
    using l by (simp add: ti_less_def GetTimeOfNumber_def ca_def cb_def)
  from split_less [OF this] fa fb c
  have "ti_year a < ti_year b \<or> ti_year a = ti_year b \<and> ti_mon a * 4194304 + (ti_day a * 131072 + ca) < ti_mon b * 4194304 + (ti_day b * 131072 + cb)"
    by simp
  moreover have "ti_mon a < ti_mon b \<or> ti_mon a = ti_mon b \<and> ti_day a * 131072 + ca < ti_day b * 131072 + cb"
    if "ti_mon a * 4194304 + (ti_day a * 131072 + ca) < ti_mon b * 4194304 + (ti_day b * 131072 + cb)"
    using split_less [OF that] fa fb c by simp
  moreover have "ti_day a < ti_day b \<or> ti_day a = ti_day b \<and> ca < cb" if "ti_day a * 131072 + ca < ti_day b * 131072 + cb"
    using split_less [OF that] c by simp
  moreover have "tm_clock (tm_of a) < tm_clock (tm_of b)" if "ca < cb"
  proof -
    have "ti_hour a * 4096 + (ti_min a * 64 + ti_sec a) < ti_hour b * 4096 + (ti_min b * 64 + ti_sec b)"
      using that by (simp add: ca_def cb_def)
    from split_less [OF this] fa fb
    have "ti_hour a < ti_hour b \<or> ti_hour a = ti_hour b \<and> ti_min a * 64 + ti_sec a < ti_min b * 64 + ti_sec b" by simp
    moreover have "ti_min a < ti_min b \<or> ti_min a = ti_min b \<and> ti_sec a < ti_sec b"
      if "ti_min a * 64 + ti_sec a < ti_min b * 64 + ti_sec b"
      using split_less [OF that] fa fb by simp
    ultimately show ?thesis using fa fb by (auto simp: tm_clock_def tm_of_def)
  qed
  ultimately show ?thesis by blast
qed

lemma ti_less_mktime:
  assumes v: "ti_valid a" "ti_valid b" and l: "ti_less a b"
  shows "mktime tz (tm_of a) < mktime tz (tm_of b)"
proof -
  have t: "tm_valid (tm_of a)" "tm_valid (tm_of b)" using v by (simp_all add: ti_valid_def)
  consider (y) "ti_year a < ti_year b" | (m) "ti_year a = ti_year b" "ti_mon a < ti_mon b"
    | (d) "ti_year a = ti_year b" "ti_mon a = ti_mon b" "ti_day a < ti_day b"
    | (c) "ti_year a = ti_year b" "ti_mon a = ti_mon b" "ti_day a = ti_day b" "tm_clock (tm_of a) < tm_clock (tm_of b)"
    using ti_less_lex [OF assms] by blast
  then show ?thesis
  proof cases
    case y
    then show ?thesis by (intro mktime_less_day [OF t] tm_day_less_year [OF t]) (simp add: tm_of_def)
  next
    case m
    then show ?thesis by (intro mktime_less_day [OF t] tm_day_less_mon [OF t]) (simp_all add: tm_of_def)
  next
    case d
    then show ?thesis by (intro mktime_less_day [OF t]) (simp add: tm_of_def tm_day_def)
  next
    case c
    then have "tm_day (tm_of a) = tm_day (tm_of b)" by (simp add: tm_of_def tm_day_def)
    with c(4) show ?thesis by (simp add: mktime_day_clock [OF t(1)] mktime_day_clock [OF t(2)])
  qed
qed

lemma number_inj:
  assumes v: "ti_valid a" "ti_valid b" and e: "GetTimeOfNumber a = GetTimeOfNumber b"
  shows "mktime tz (tm_of a) = mktime tz (tm_of b)"
proof -
  have f: "ti_sec t < 64" "ti_min t < 64" "ti_hour t < 32" "ti_day t < 32" "ti_mon t < 16" if "ti_valid t" for t
    using that tm_valid_mday [of "tm_of t"] by (auto simp: ti_valid_def tm_valid_def tm_of_def)
  note fa = f [OF v(1)] and fb = f [OF v(2)]
  let ?n = "\<lambda>t. ti_sec t + 64 * (ti_min t + 64 * (ti_hour t + 32 * (ti_day t + 32 * (ti_mon t + 16 * ti_year t))))"
  have "?n a = ?n b" using e by (simp add: GetTimeOfNumber_def)
  from split_eq [OF this fa(1) fb(1)] have 1: "ti_sec a = ti_sec b" and r: "ti_min a + 64 * (ti_hour a + 32 * (ti_day a + 32 * (ti_mon a + 16 * ti_year a))) =
    ti_min b + 64 * (ti_hour b + 32 * (ti_day b + 32 * (ti_mon b + 16 * ti_year b)))" by blast+
  from split_eq [OF r fa(2) fb(2)] have 2: "ti_min a = ti_min b" and r: "ti_hour a + 32 * (ti_day a + 32 * (ti_mon a + 16 * ti_year a)) =
    ti_hour b + 32 * (ti_day b + 32 * (ti_mon b + 16 * ti_year b))" by blast+
  from split_eq [OF r fa(3) fb(3)] have 3: "ti_hour a = ti_hour b" and r: "ti_day a + 32 * (ti_mon a + 16 * ti_year a) =
    ti_day b + 32 * (ti_mon b + 16 * ti_year b)" by blast+
  from split_eq [OF r fa(4) fb(4)] have 4: "ti_day a = ti_day b" and r: "ti_mon a + 16 * ti_year a = ti_mon b + 16 * ti_year b" by blast+
  from split_eq [OF r fa(5) fb(5)] have 5: "ti_mon a = ti_mon b" "ti_year a = ti_year b" by blast+
  show ?thesis using 1 2 3 4 5 by (simp add: tm_of_def)
qed

lemma mktime_inj:
  assumes "tm_valid a" "tm_valid b" "mktime tz a = mktime tz b"
  shows "a = b"
proof -
  have e: "tm_day a * 86400 + tm_clock a = tm_day b * 86400 + tm_clock b"
    using assms(3) by (simp add: mktime_day_clock [OF assms(1)] mktime_day_clock [OF assms(2)])
  have d: "tm_day a = tm_day b"
    using e tm_clock_bounds [OF assms(1)] tm_clock_bounds [OF assms(2)] by linarith
  then have c: "tm_clock a = tm_clock b" using e by simp
  have y: "tm_year a = tm_year b"
    using tm_day_less_year [OF assms(1,2)] tm_day_less_year [OF assms(2,1)] d by (metis linorder_neqE_linordered_idom order_less_irrefl)
  then have m: "tm_mon a = tm_mon b"
    using tm_day_less_mon [OF assms(1,2)] tm_day_less_mon [OF assms(2,1)] d by (metis linorder_neqE_linordered_idom order_less_irrefl)
  have md: "tm_mday a = tm_mday b" using d y m by (simp add: tm_day_def)
  have k: "0 \<le> tm_hour a" "0 \<le> tm_min a" "tm_min a < 60" "0 \<le> tm_sec a" "tm_sec a < 60"
    "0 \<le> tm_hour b" "0 \<le> tm_min b" "tm_min b < 60" "0 \<le> tm_sec b" "tm_sec b < 60"
    using assms by (simp_all add: tm_valid_def)
  have s: "tm_hour a * 3600 + tm_min a * 60 + tm_sec a = tm_hour b * 3600 + tm_min b * 60 + tm_sec b"
    using c by (simp add: tm_clock_def)
  then have h: "tm_hour a = tm_hour b" using k by linarith
  with s have mi: "tm_min a = tm_min b" using k by linarith
  with s h have "tm_sec a = tm_sec b" by simp
  then show ?thesis using y m md h mi by simp
qed

lemma localtime_mktime: "tm_valid l \<Longrightarrow> localtime tz (mktime tz l) = l"
  using localtime_valid [of tz "mktime tz l"] mktime_inj [of "localtime tz (mktime tz l)" l tz] by blast

lemma plus_is_add_assign: "ti_plus tz t s = ti_add_assign tz t s" "ti_minus tz t s = ti_sub_assign tz t s"
  by (simp_all add: ti_defs TimeInfo_of_def of_tm_def Let_def)

subsection \<open>Text\<close>

lemma of_digit: "d < 10 \<Longrightarrow> (of_char (digit d) :: nat) = 48 + d"
  by (simp add: digit_def)

lemma digit_class: "d < 10 \<Longrightarrow> is_digit (digit d)" "d < 10 \<Longrightarrow> \<not> is_blank (digit d)"
  by (simp_all add: is_digit_def is_blank_def of_digit)

lemma digit_neq:
  assumes "d < 10" "\<not> is_digit c"
  shows "digit d \<noteq> c"
  using digit_class(1) [OF assms(1)] assms(2) by blast

lemma seps_no_digit: "\<not> is_digit CHR ''-''" "\<not> is_digit CHR ''+''" "\<not> is_digit CHR '':''" "\<not> is_digit CHR '' ''"
  by (simp_all add: is_digit_def)

lemma digits_val_digit: "d < 10 \<Longrightarrow> digits_val acc (digit d # cs) = digits_val (acc * 10 + int d) cs"
proof -
  assume d: "d < 10"
  have "(of_char (digit d) :: int) = int (of_char (digit d))" by (cases "digit d") simp
  then show ?thesis using d by (simp add: digit_class of_digit)
qed

lemma atoi_digits: "d < 10 \<Longrightarrow> atoi (digit d # cs) = digits_val 0 (digit d # cs)"
  by (simp add: atoi_def digit_class digit_neq seps_no_digit)

lemma atoi_fmt2: "n < 100 \<Longrightarrow> atoi (fmt2 n) = int n"
proof -
  assume n: "n < 100"
  have "int (n div 10) * 10 + int (n mod 10) = int n" by (metis div_mult_mod_eq of_nat_add of_nat_mult of_nat_numeral)
  moreover have "n div 10 < 10" using n by simp
  ultimately show ?thesis by (simp add: fmt2_def atoi_digits digits_val_digit del: digits_val.simps(2))
qed

lemma atoi_fmt4: "n < 10000 \<Longrightarrow> atoi (fmt4 n) = int n"
proof -
  assume n: "n < 10000"
  define a where "a = n div 10"
  define b where "b = a div 10"
  have "b = n div 100" "b div 10 = n div 1000" by (simp_all add: a_def b_def div_mult2_eq [symmetric])
  then have f: "fmt4 n = [digit (b div 10), digit (b mod 10), digit (a mod 10), digit (n mod 10)]" by (simp add: fmt4_def a_def)
  have c: "n = a * 10 + n mod 10" "a = b * 10 + a mod 10" "b = b div 10 * 10 + b mod 10" by (simp_all add: a_def b_def)
  have "b div 10 < 10" using n by (simp add: \<open>b div 10 = n div 1000\<close>)
  moreover have "((int (b div 10) * 10 + int (b mod 10)) * 10 + int (a mod 10)) * 10 + int (n mod 10) = int n"
    using c by (metis of_nat_add of_nat_mult of_nat_numeral)
  ultimately show ?thesis by (simp add: f atoi_digits digits_val_digit del: digits_val.simps(2))
qed

lemma after_char_skip: "x \<noteq> c \<Longrightarrow> after_char c (x # r) = after_char c r" "after_char c (c # r) = Some r"
  by (simp_all add: after_char_def)

lemma after_fmt2: "n < 100 \<Longrightarrow> \<not> is_digit c \<Longrightarrow> after_char c (fmt2 n @ c # r) = Some r"
proof -
  assume n: "n < 100" and c: "\<not> is_digit c"
  have "digit (n div 10) \<noteq> c" "digit (n mod 10) \<noteq> c" by (rule digit_neq [OF _ c], use n in simp)+
  then show ?thesis by (simp add: fmt2_def after_char_skip)
qed

lemma take_fmt2: "take 2 (fmt2 n @ r) = fmt2 n" "length (fmt2 n) = 2" "take 4 (fmt4 k @ r) = fmt4 k" "drop 4 (fmt4 k @ r) = r" "length (fmt4 k) = 4"
  by (simp_all add: fmt2_def fmt4_def)

lemma GetMaxDay_calendar:
  assumes "y < 64" "1 \<le> m" "m \<le> 12"
  shows "GetMaxDay (int y) (int m) = mon_lens (int y + 2000) ! (m - 1)"
proof -
  have "leap (int y + 2000) \<longleftrightarrow> int y mod 4 = 0"
  proof -
    have "(int y + 2000) mod 4 = int y mod 4" using mod_mult_self1 [of "int y" 500 4] by simp
    moreover have "(int y + 2000) mod 100 = int y" using mod_mult_self1 [of "int y" 20 100] assms(1) by simp
    moreover have "(int y + 2000) mod 400 = int y" using mod_mult_self1 [of "int y" 5 400] assms(1) by simp
    ultimately show ?thesis by (auto simp: leap_def)
  qed
  moreover have "m = 1 \<or> m = 2 \<or> m = 3 \<or> m = 4 \<or> m = 5 \<or> m = 6 \<or> m = 7 \<or> m = 8 \<or> m = 9 \<or> m = 10 \<or> m = 11 \<or> m = 12"
    using assms(2,3) by presburger
  ultimately show ?thesis by (elim disjE) (simp_all add: GetMaxDay_def mon_lens_def)
qed

lemma ti_valid_fields:
  assumes "ti_valid t"
  shows "ti_year t < 64" "1 \<le> ti_mon t" "ti_mon t \<le> 12" "1 \<le> ti_day t" "int (ti_day t) \<le> mon_lens (int (ti_year t) + 2000) ! (ti_mon t - 1)"
    "ti_day t \<le> 31" "ti_hour t < 24" "ti_min t < 60" "ti_sec t < 60"
proof -
  note v = assms [unfolded ti_valid_def tm_valid_def]
  show "ti_year t < 64" "1 \<le> ti_mon t" "ti_mon t \<le> 12" "1 \<le> ti_day t" "ti_hour t < 24" "ti_min t < 60" "ti_sec t < 60"
    using v by (auto simp: tm_of_def)
  show "ti_day t \<le> 31" using tm_valid_mday [of "tm_of t"] assms by (auto simp: ti_valid_def tm_of_def)
  have "nat (int (ti_mon t) - 1) = ti_mon t - 1" using v by (auto simp: tm_of_def)
  then show "int (ti_day t) \<le> mon_lens (int (ti_year t) + 2000) ! (ti_mon t - 1)" using v by (simp add: tm_of_def add.commute)
qed

lemma parse_clock_fmt:
  assumes "d < 100" "h < 24" "m < 60" "s < 60"
  shows "parse_clock (fmt2 d @ CHR '' '' # fmt2 h @ CHR '':'' # fmt2 m @ CHR '':'' # fmt2 s) = Some (int h, int m, int s)"
  using assms by (simp add: parse_clock_def after_fmt2 seps_no_digit take_fmt2 atoi_fmt2)

lemma parse_date_string:
  assumes "ti_valid t"
  shows "parse_date (TimeInfo_string t) = Some t"
proof -
  note f = ti_valid_fields [OF assms]
  let ?clock = "fmt2 (ti_day t) @ CHR '' '' # fmt2 (ti_hour t) @ CHR '':'' # fmt2 (ti_min t) @ CHR '':'' # fmt2 (ti_sec t)"
  let ?d = "fmt2 (ti_mon t) @ CHR ''-'' # ?clock"
  have s: "TimeInfo_string t = fmt4 (ti_year t + 2000) @ CHR ''-'' # ?d" by (simp add: TimeInfo_string_def)
  have len: "length (TimeInfo_string t) = 19" by (simp add: s take_fmt2)
  have y: "atoi (take 4 (TimeInfo_string t)) - 2000 = int (ti_year t)" "after_char CHR ''-'' (drop 4 (TimeInfo_string t)) = Some ?d"
    using f(1) by (simp_all add: s take_fmt2 atoi_fmt4 after_char_skip)
  have m: "atoi (take 2 ?d) = int (ti_mon t)" "after_char CHR ''-'' ?d = Some ?clock"
    using f(3) by (simp_all add: take_fmt2 atoi_fmt2 after_fmt2 seps_no_digit)
  have d: "atoi (take 2 ?clock) = int (ti_day t)" using f(6) by (simp add: take_fmt2 atoi_fmt2)
  have g: "int (ti_day t) \<le> GetMaxDay (int (ti_year t)) (int (ti_mon t))" using f(5) by (simp add: GetMaxDay_calendar [OF f(1-3)])
  have c: "parse_clock ?clock = Some (int (ti_hour t), int (ti_min t), int (ti_sec t))" using f by (intro parse_clock_fmt) simp_all
  have mo: "0 < int (ti_mon t) \<and> int (ti_mon t) \<le> 12" using f by simp
  have "ti_set (int (ti_year t)) (int (ti_mon t)) (int (ti_day t)) (int (ti_hour t)) (int (ti_min t)) (int (ti_sec t)) = t"
    using f by (cases t) (simp add: ti_set_def to_bits_id)
  then show ?thesis
    unfolding parse_date_def if_P [OF len] Let_def y option.case m if_P [OF mo] d if_P [OF g] c by simp
qed

subsection \<open>Properties\<close>

text \<open>
  Property C27: the text form is read back. For every valid time the text is 19 characters long
  and the constructor from text returns the time it was made from.
\<close>

theorem time_text_roundtrip:
  assumes "ti_valid t"
  shows "length (TimeInfo_string t) = 19 \<and> TimeInfo_parse tz now (TimeInfo_string t) = t"
  using parse_date_string [OF assms] by (simp add: TimeInfo_parse_def TimeInfo_string_def take_fmt2)

theorem time_text_roundtrip_witness:
  "TimeInfo_parse 0 0 (TimeInfo_string \<lparr>ti_sec = 30, ti_min = 59, ti_hour = 23, ti_day = 28, ti_mon = 2, ti_year = 20\<rparr>)
     = \<lparr>ti_sec = 30, ti_min = 59, ti_hour = 23, ti_day = 28, ti_mon = 2, ti_year = 20\<rparr>"
proof -
  have "ti_valid \<lparr>ti_sec = 30, ti_min = 59, ti_hour = 23, ti_day = 28, ti_mon = 2, ti_year = 20\<rparr>"
    by (simp add: ti_valid_def tm_valid_def tm_of_def mon_lens_def leap_def nth_Cons')
  from time_text_roundtrip [OF this, of 0 0] show ?thesis by simp
qed

text \<open>
  Observation: adding seconds to a valid time gives, as long as the result lies between the years 2000 and 2063, the valid time that is that
  many seconds later: the difference to the old time is the number added, and subtracting it again restores the old
  time. The assigning operators and \<open>AddDay\<close> agree with it.
\<close>

theorem time_arithmetic:
  assumes "ti_valid t" "2000 \<le> tm_year (localtime tz (mktime tz (tm_of t) + s)) + 1900" "tm_year (localtime tz (mktime tz (tm_of t) + s)) + 1900 < 2064"
  shows "ti_valid (ti_plus tz t s) \<and> ti_diff tz (ti_plus tz t s) t = s \<and> ti_minus tz (ti_plus tz t s) s = t \<and>
     ti_add_assign tz t s = ti_plus tz t s \<and> ti_sub_assign tz (ti_plus tz t s) s = t \<and>
     (\<forall>d. s = d * 86400 \<and> \<bar>d\<bar> < 24855 \<longrightarrow> AddDay tz d t = Inr (ti_plus tz t s))"
proof -
  define l where "l = localtime tz (mktime tz (tm_of t) + s)"
  have l: "tm_valid l" "mktime tz l = mktime tz (tm_of t) + s" using localtime_valid by (simp_all add: l_def)
  have v: "tm_valid (tm_of t)" using assms(1) by (simp add: ti_valid_def)
  have p: "ti_plus tz t s = of_tm l" by (simp add: plus_is_add_assign ti_add_assign_def l_def)
  have o: "tm_of (of_tm l) = l" "ti_valid (of_tm l)" using tm_of_of_tm [OF l(1)] assms(2,3) by (simp_all add: l_def)
  have m: "ti_sub_assign tz (of_tm l) s = t"
    by (simp add: ti_sub_assign_def o l(2) localtime_mktime [OF v] of_tm_tm_of [OF assms(1)])
  have "ti_diff tz (of_tm l) t = s" by (simp add: ti_diff_def o l(2))
  moreover have "AddDay tz d t = Inr (of_tm l)" if "s = d * 86400" "\<bar>d\<bar> < 24855" for d
  proof -
    have "d * 24 * 3600 = s" "- 2147483648 \<le> s" "s < 2147483648" using that by auto
    then show ?thesis by (simp add: AddDay_def l_def)
  qed
  ultimately show ?thesis using o(2) m unfolding p plus_is_add_assign(1) [symmetric] plus_is_add_assign(2) by blast
qed

abbreviation sample_time :: time_info where
  "sample_time \<equiv> \<lparr>ti_sec = 30, ti_min = 59, ti_hour = 23, ti_day = 28, ti_mon = 2, ti_year = 20\<rparr>"

theorem time_arithmetic_witness:
  "ti_valid (ti_plus 28800 sample_time 86400) \<and> ti_minus 28800 (ti_plus 28800 sample_time 86400) 86400 = sample_time"
proof -
  have v: "ti_valid sample_time"
    by (simp add: ti_valid_def tm_valid_def tm_of_def mon_lens_def leap_def nth_Cons')
  let ?l = "\<lparr>tm_year = 120, tm_mon = 1, tm_mday = 29, tm_hour = 23, tm_min = 59, tm_sec = 30\<rparr>"
  have tv: "tm_valid ?l" by (simp add: tm_valid_def mon_lens_def leap_def nth_Cons')
  have "mktime 28800 (tm_of sample_time) + 86400 = mktime 28800 ?l"
    by (simp add: mktime_def tm_of_def Let_def)
  then have "localtime 28800 (mktime 28800 (tm_of sample_time) + 86400) = ?l" using localtime_mktime [OF tv] by simp
  with time_arithmetic [OF v, of 28800 86400] show ?thesis by simp
qed

text \<open>
  Observation: comparing the words that hold two valid times compares the points in time they stand for.
\<close>

theorem time_less_is_earlier:
  assumes "ti_valid a" "ti_valid b"
  shows "ti_less a b \<longleftrightarrow> 0 < ti_diff tz b a"
proof -
  consider (l) "ti_less a b" | (g) "ti_less b a" | (e) "GetTimeOfNumber a = GetTimeOfNumber b"
    unfolding ti_less_def by linarith
  then show ?thesis
  proof cases
    case l
    with ti_less_mktime [OF assms] show ?thesis by (simp add: ti_diff_def)
  next
    case g
    then have "\<not> ti_less a b" by (simp add: ti_less_def)
    moreover have "mktime tz (tm_of b) < mktime tz (tm_of a)" by (rule ti_less_mktime [OF assms(2,1) g])
    ultimately show ?thesis by (simp add: ti_diff_def)
  next
    case e
    then have "\<not> ti_less a b" by (simp add: ti_less_def)
    moreover have "mktime tz (tm_of a) = mktime tz (tm_of b)" by (rule number_inj [OF assms e])
    ultimately show ?thesis by (simp add: ti_diff_def)
  qed
qed

theorem time_less_is_earlier_witness:
  "ti_less sample_time (sample_time\<lparr>ti_sec := 0, ti_mon := 3\<rparr>) \<and> 0 < ti_diff 0 (sample_time\<lparr>ti_sec := 0, ti_mon := 3\<rparr>) sample_time"
proof -
  have v: "ti_valid sample_time" "ti_valid (sample_time\<lparr>ti_sec := 0, ti_mon := 3\<rparr>)"
    by (simp_all add: ti_valid_def tm_valid_def tm_of_def mon_lens_def leap_def nth_Cons')
  have "ti_less sample_time (sample_time\<lparr>ti_sec := 0, ti_mon := 3\<rparr>)" by (simp add: ti_less_def GetTimeOfNumber_def)
  with time_less_is_earlier [OF v, of 0] show ?thesis by simp
qed

text \<open>
  Observation: \<open>AddMonth\<close> by at most a year in either direction gives the right month of the right year exactly if the
  target month counted from January of the old year lies between 1 and 15. Beyond that the 4-bit field wraps; in
  particular no step back over the start of a year is right, because the test for a negative month is never true.
\<close>

theorem AddMonth_range:
  assumes "ti_valid t" "- 12 \<le> n" "n \<le> 12" "ti_year t < 63"
  shows "(1 \<le> ti_mon (AddMonth n t) \<and> ti_mon (AddMonth n t) \<le> 12 \<and>
      int (ti_year (AddMonth n t)) * 12 + int (ti_mon (AddMonth n t)) = int (ti_year t) * 12 + int (ti_mon t) + n) \<longleftrightarrow>
     1 \<le> int (ti_mon t) + n \<and> int (ti_mon t) + n \<le> 15"
proof -
  have cl: "ti_year (clip_feb u) = ti_year u" "ti_mon (clip_feb u) = ti_mon u" for u by (simp_all add: clip_feb_def)
  define k where "k = int (ti_mon t) + n"
  define m where "m = k mod 16"
  have m: "0 \<le> m" "m < 16" by (simp_all add: m_def)
  have mon: "1 \<le> ti_mon t" "ti_mon t \<le> 12" using assms(1) by (auto simp: ti_valid_def tm_valid_def tm_of_def)
  have k: "- 12 < k" "k \<le> 24" using mon assms(2,3) by (auto simp: k_def)
  have y: "int (ti_year (AddMonth n t)) = (if 12 < m then int (ti_year t) + 1 else int (ti_year t))"
    "int (ti_mon (AddMonth n t)) = (if 12 < m then m - 12 else m)"
    using m assms(4) by (auto simp: AddMonth_def cl Let_def to_bits_def k_def [symmetric] m_def [symmetric])
  have e: "int (ti_year t) * 12 + int (ti_mon t) + n = int (ti_year t) * 12 + k" by (simp add: k_def)
  have "m = k + 16 \<or> m = k \<or> m = k - 16"
  proof -
    consider "k < 0" | "0 \<le> k" "k < 16" | "16 \<le> k" by linarith
    then show ?thesis
    proof cases
      case 1
      have "(k + 16) mod 16 = k + 16" using 1 k by (intro mod_pos_pos_trivial) simp_all
      moreover have "m = (k + 16) mod 16" by (simp add: m_def)
      ultimately show ?thesis by simp
    next
      case 2
      then show ?thesis by (simp add: m_def)
    next
      case 3
      have "(k - 16) mod 16 = k - 16" using 3 k by (intro mod_pos_pos_trivial) simp_all
      moreover have "m = (k - 16) mod 16" by (simp add: m_def)
      ultimately show ?thesis by simp
    qed
  qed
  moreover have "1 \<le> ti_mon (AddMonth n t) \<and> ti_mon (AddMonth n t) \<le> 12 \<longleftrightarrow> m \<noteq> 0" using y(2) m by (auto split: if_splits)
  ultimately show ?thesis unfolding e y k_def [symmetric] using k m by auto
qed

theorem AddMonth_range_witness:
  "\<not> (1 \<le> ti_mon (AddMonth (-2) sample_time) \<and> ti_mon (AddMonth (-2) sample_time) \<le> 12 \<and>
      int (ti_year (AddMonth (-2) sample_time)) * 12 + int (ti_mon (AddMonth (-2) sample_time)) = 240)"
proof -
  have v: "ti_valid sample_time"
    by (simp add: ti_valid_def tm_valid_def tm_of_def mon_lens_def leap_def nth_Cons')
  from AddMonth_range [OF v, of "-2"] show ?thesis by simp
qed

end
