(* ===== verification/TPool.thy ===== *)
theory TPool
  imports XPrelude "HOL-Library.List_Lexorder" "HOL-Library.Char_ord"
begin

text \<open>
  \<open>Thread/ThreadPoolImpl_Linux.cpp\<close> and \<open>Thread/Task.h\<close>: a queue of tasks, a counting semaphore and workers that take
  tasks. A task is an object with an identity and a type; what happens to tasks and task processors
  (calls, \<open>done\<close>, \<open>delete\<close>) is recorded in order. The virtual functions of tasks are parameters: the comparison
  \<open>tp_cmp\<close> (\<open>m_taskCmp\<close>) and the result \<open>w\<close> of \<open>Task::wait\<close>. A worker that has to wait for the semaphore is the
  result \<open>None\<close>.
\<close>

type_synonym jobtype = string

record task =
  tk_id :: nat
  m_type :: jobtype

datatype tp_event = Call nat task | TaskDone task int | TaskDel task | ProcDel nat

type_synonym tcompare = "(task \<Rightarrow> jobtype \<Rightarrow> task \<Rightarrow> bool) option"

record tpool =
  m_thread_sum :: nat
  m_flag :: bool
  m_pools :: "nat option"
  m_MaxPriority :: jobtype
  m_LowPriority :: jobtype
  m_taskCmp :: tcompare
  m_jobs :: "task list"
  m_tasks :: "(jobtype, nat) omap"
  m_ctrl :: nat
  tp_log :: "tp_event list"

definition ThreadPoolImpl_new :: "nat \<Rightarrow> tpool" where
  "ThreadPoolImpl_new limit =
     \<lparr>m_thread_sum = limit mod 256, m_flag = True, m_pools = None, m_MaxPriority = ''-1'', m_LowPriority = ''-1'',
      m_taskCmp = None, m_jobs = [], m_tasks = [], m_ctrl = 0, tp_log = []\<rparr>"

text \<open>\<open>m_pools\<close>: the number of threads in the array, which never is a null pointer after \<open>new\<close>.\<close>

definition TP_Init :: "tpool \<Rightarrow> int \<times> tpool" where
  "TP_Init st =
     (if m_pools st \<noteq> None then (-1, st) else (0, st\<lparr>m_pools := Some (m_thread_sum st), m_flag := True\<rparr>))"

definition TaskTypeCompare :: "jobtype \<Rightarrow> task option \<Rightarrow> tcompare \<Rightarrow> task \<Rightarrow> bool" where
  "TaskTypeCompare t new f other =
     (case (f, new) of (Some g, Some n) \<Rightarrow> g other t n | _ \<Rightarrow> m_type other = t)"

definition submit_job_req :: "int \<Rightarrow> task \<Rightarrow> tpool \<Rightarrow> int \<times> tpool" where
  "submit_job_req w job st =
     (if \<not> m_flag st then (-1, st)
      else if m_LowPriority st \<noteq> ''-1'' \<and> (\<exists>o1 \<in> set (m_jobs st). TaskTypeCompare (m_LowPriority st) (Some job) (m_taskCmp st) o1)
      then (-2, st\<lparr>tp_log := tp_log st @ [TaskDel job]\<rparr>)
      else (w, st\<lparr>m_jobs := m_jobs st @ [job], m_ctrl := m_ctrl st + 1\<rparr>))"

text \<open>\<open>find_if\<close> and \<open>erase\<close>.\<close>

fun take_first :: "('a \<Rightarrow> bool) \<Rightarrow> 'a list \<Rightarrow> ('a \<times> 'a list) option" where
  "take_first P [] = None"
| "take_first P (x # xs) = (if P x then Some (x, xs) else map_option (\<lambda>(y, ys). (y, x # ys)) (take_first P xs))"

text \<open>The part of \<open>run\<close> under the lock; \<open>None\<close> is \<open>front\<close> of an empty list.\<close>

definition take_job :: "tpool \<Rightarrow> (task \<times> tpool) option" where
  "take_job st =
     (case (if m_MaxPriority st \<noteq> ''-1'' then take_first (TaskTypeCompare (m_MaxPriority st) None None) (m_jobs st) else None) of
        Some (t, js) \<Rightarrow> Some (t, st\<lparr>m_jobs := js\<rparr>)
      | None \<Rightarrow> (case m_jobs st of [] \<Rightarrow> None | t # js \<Rightarrow> Some (t, st\<lparr>m_jobs := js\<rparr>)))"

definition exec_job :: "task \<Rightarrow> tpool \<Rightarrow> tpool" where
  "exec_job t st =
     (case map_of (m_tasks st) (m_type t) of
        None \<Rightarrow> st
      | Some p \<Rightarrow> st\<lparr>tp_log := tp_log st @ [Call p t, TaskDone t 0, TaskDel t]\<rparr>)"

definition TP_run :: "tpool \<Rightarrow> (xerror + tpool) option" where
  "TP_run st =
     (if m_ctrl st = 0 then None
      else case take_job (st\<lparr>m_ctrl := m_ctrl st - 1\<rparr>) of
        None \<Rightarrow> Some (Inl Undefined)
      | Some (t, st1) \<Rightarrow> Some (Inr (exec_job t st1)))"

text \<open>\<open>thread_func\<close>: turns of one worker while the flag is set.\<close>

fun thread_func :: "nat \<Rightarrow> tpool \<Rightarrow> (xerror + tpool) option" where
  "thread_func 0 st = Some (Inr st)"
| "thread_func (Suc n) st =
     (if m_flag st then
        (case TP_run st of
           None \<Rightarrow> None
         | Some (Inl e) \<Rightarrow> Some (Inl e)
         | Some (Inr st') \<Rightarrow> thread_func n st')
      else Some (Inr st))"

definition Register_taskProcess :: "jobtype \<Rightarrow> nat \<Rightarrow> tpool \<Rightarrow> bool \<times> tpool" where
  "Register_taskProcess type process st =
     (map_of (m_tasks st) type = None, st\<lparr>m_tasks := minsert type process (m_tasks st)\<rparr>)"

definition TP_Stop :: "tpool \<Rightarrow> tpool" where
  "TP_Stop st =
     (if \<not> m_flag st then st
      else st\<lparr>m_flag := False, m_ctrl := m_ctrl st + m_thread_sum st, m_tasks := [], m_jobs := [], m_pools := None,
              tp_log := tp_log st @ map (\<lambda>(k, p). ProcDel p) (m_tasks st) @
                        concat (map (\<lambda>t. [TaskDone t 1, TaskDel t]) (m_jobs st))\<rparr>)"

definition setMaxPriorityType :: "jobtype \<Rightarrow> tpool \<Rightarrow> tpool" where
  "setMaxPriorityType t st = st\<lparr>m_MaxPriority := t\<rparr>"

definition setMergeTaskType :: "jobtype \<Rightarrow> tpool \<Rightarrow> tpool" where
  "setMergeTaskType t st = st\<lparr>m_LowPriority := t\<rparr>"

definition setTaskCmp :: "tcompare \<Rightarrow> tpool \<Rightarrow> tpool" where
  "setTaskCmp f st = st\<lparr>m_taskCmp := f\<rparr>"

text \<open>The operations another thread can call, and a turn of a worker.\<close>

inductive tp_step :: "tpool \<Rightarrow> tpool \<Rightarrow> bool" where
  Submit: "tp_step st (snd (submit_job_req w job st))"
| Run: "TP_run st = Some (Inr st') \<Longrightarrow> tp_step st st'"
| Register: "tp_step st (snd (Register_taskProcess ty p st))"
| Init: "tp_step st (snd (TP_Init st))"
| MaxPrio: "tp_step st (setMaxPriorityType ty st)"
| Merge: "tp_step st (setMergeTaskType ty st)"
| Cmp: "tp_step st (setTaskCmp f st)"

inductive tp_reach :: "tpool \<Rightarrow> bool" where
  Start: "tp_reach (ThreadPoolImpl_new n)"
| Step: "tp_reach st \<Longrightarrow> tp_step st st' \<Longrightarrow> tp_reach st'"

subsection \<open>A queue with two priorities\<close>

text \<open>
  The contract of the task queue: a pair of first-in first-out queues, of which the first is served first.
  \<open>take_all\<close> takes until nothing is left.
\<close>

fun take_all :: "nat \<Rightarrow> ('s \<Rightarrow> ('a \<times> 's) option) \<Rightarrow> 's \<Rightarrow> 'a list" where
  "take_all 0 get s = []"
| "take_all (Suc n) get s = (case get s of None \<Rightarrow> [] | Some (x, s') \<Rightarrow> x # take_all n get s')"

locale two_queues =
  fixes qabs :: "'s \<Rightarrow> 'a list \<times> 'a list"
    and high :: "'s \<Rightarrow> 'a \<Rightarrow> bool"
    and put :: "'a \<Rightarrow> 's \<Rightarrow> 's"
    and get :: "'s \<Rightarrow> ('a \<times> 's) option"
  assumes put_abs: "qabs (put x s) = (if high s x then (fst (qabs s) @ [x], snd (qabs s)) else (fst (qabs s), snd (qabs s) @ [x]))"
    and get_None: "get s = None \<longleftrightarrow> qabs s = ([], [])"
    and get_high: "get s = Some (x, s') \<Longrightarrow> fst (qabs s) = y # ys \<Longrightarrow> x = y \<and> qabs s' = (ys, snd (qabs s))"
    and get_low: "get s = Some (x, s') \<Longrightarrow> fst (qabs s) = [] \<Longrightarrow> snd (qabs s) = x # snd (qabs s') \<and> fst (qabs s') = []"
begin

lemma take_all_order:
  assumes "length (fst (qabs s)) + length (snd (qabs s)) \<le> n"
  shows "take_all n get s = fst (qabs s) @ snd (qabs s)"
  using assms
proof (induction n arbitrary: s)
  case (Suc n)
  show ?case
  proof (cases "get s")
    case None
    then show ?thesis using get_None [of s] by simp
  next
    case (Some p)
    then obtain x s' where p: "get s = Some (x, s')" by (cases p) auto
    show ?thesis
    proof (cases "fst (qabs s)")
      case Nil
      note g = get_low [OF p Nil]
      with Suc.prems Nil have "take_all n get s' = fst (qabs s') @ snd (qabs s')" by (intro Suc.IH) auto
      with p g Nil show ?thesis by simp
    next
      case (Cons y ys)
      note g = get_high [OF p Cons]
      with Suc.prems Cons have "take_all n get s' = fst (qabs s') @ snd (qabs s')" by (intro Suc.IH) auto
      with p g Cons show ?thesis by simp
    qed
  qed
qed simp

lemma put_then_all:
  assumes "length (fst (qabs s)) + length (snd (qabs s)) < n"
  shows "take_all n get (put x s) = (if high s x then fst (qabs s) @ x # snd (qabs s) else fst (qabs s) @ snd (qabs s) @ [x])"
  using assms by (subst take_all_order) (auto simp: put_abs)

end

definition is_max :: "tpool \<Rightarrow> task \<Rightarrow> bool" where
  "is_max st t \<longleftrightarrow> m_MaxPriority st \<noteq> ''-1'' \<and> m_type t = m_MaxPriority st"

definition jobs_abs :: "tpool \<Rightarrow> task list \<times> task list" where
  "jobs_abs st = (filter (is_max st) (m_jobs st), filter (\<lambda>t. \<not> is_max st t) (m_jobs st))"

definition put_job :: "task \<Rightarrow> tpool \<Rightarrow> tpool" where
  "put_job t st = st\<lparr>m_jobs := m_jobs st @ [t]\<rparr>"

lemma take_first_None: "take_first P xs = None \<longleftrightarrow> (\<forall>x \<in> set xs. \<not> P x)"
  by (induction xs) auto

lemma take_first_Some:
  "take_first P xs = Some (x, ys) \<Longrightarrow> filter P xs = x # filter P ys \<and> filter (\<lambda>y. \<not> P y) xs = filter (\<lambda>y. \<not> P y) ys"
  by (induction xs arbitrary: ys) (auto split: if_splits)

lemma max_compare: "TaskTypeCompare m None None = (\<lambda>t. m_type t = m)"
  by (rule ext) (simp add: TaskTypeCompare_def)

lemma is_max_fields [simp]: "is_max (st\<lparr>m_jobs := js\<rparr>) = is_max st" "is_max (st\<lparr>m_ctrl := n\<rparr>) = is_max st"
  "is_max (st\<lparr>m_jobs := js, m_ctrl := n\<rparr>) = is_max st"
  by (simp_all add: is_max_def fun_eq_iff)

lemma take_job_cases:
  assumes "take_job st = Some (t, st')"
  obtains (high) js where "take_first (is_max st) (m_jobs st) = Some (t, js)" "st' = st\<lparr>m_jobs := js\<rparr>"
    | (low) js where "\<forall>x \<in> set (m_jobs st). \<not> is_max st x" "m_jobs st = t # js" "st' = st\<lparr>m_jobs := js\<rparr>"
proof (cases "m_MaxPriority st = ''-1''")
  case True
  then have "\<forall>x \<in> set (m_jobs st). \<not> is_max st x" by (simp add: is_max_def)
  with assms True low show ?thesis by (auto simp: take_job_def split: list.splits)
next
  case False
  then have e: "is_max st = (\<lambda>t. m_type t = m_MaxPriority st)" by (simp add: is_max_def fun_eq_iff)
  show ?thesis
  proof (cases "take_first (is_max st) (m_jobs st)")
    case None
    then have n: "\<forall>x \<in> set (m_jobs st). \<not> is_max st x" by (simp add: take_first_None)
    have "(case m_jobs st of [] \<Rightarrow> None | t # js \<Rightarrow> Some (t, st\<lparr>m_jobs := js\<rparr>)) = Some (t, st')"
      using assms False None by (simp add: take_job_def max_compare e)
    then show ?thesis using n low by (cases "m_jobs st") auto
  next
    case (Some p)
    with assms False high show ?thesis by (cases p) (auto simp: take_job_def max_compare e)
  qed
qed

lemma take_job_None: "take_job st = None \<longleftrightarrow> m_jobs st = []"
  by (auto simp: take_job_def split: option.splits list.splits if_splits)

interpretation pool_queue: two_queues jobs_abs is_max put_job take_job
proof
  fix x s s' y ys
  show "jobs_abs (put_job x s) = (if is_max s x then (fst (jobs_abs s) @ [x], snd (jobs_abs s)) else (fst (jobs_abs s), snd (jobs_abs s) @ [x]))"
    by (simp add: jobs_abs_def put_job_def)
  show "take_job s = None \<longleftrightarrow> jobs_abs s = ([], [])"
    unfolding take_job_None by (auto simp: jobs_abs_def filter_empty_conv)
next
  fix x s s' y ys
  assume t: "take_job s = Some (x, s')" and f: "fst (jobs_abs s) = y # ys"
  from t show "x = y \<and> jobs_abs s' = (ys, snd (jobs_abs s))"
  proof (cases rule: take_job_cases)
    case (high js)
    with take_first_Some [OF high(1)] f show ?thesis by (simp add: jobs_abs_def)
  next
    case (low js)
    then have "filter (is_max s) (m_jobs s) = []" by (simp add: filter_empty_conv)
    with f show ?thesis by (simp add: jobs_abs_def)
  qed
next
  fix x s s'
  assume t: "take_job s = Some (x, s')" and f: "fst (jobs_abs s) = []"
  from t show "snd (jobs_abs s) = x # snd (jobs_abs s') \<and> fst (jobs_abs s') = []"
  proof (cases rule: take_job_cases)
    case (high js)
    with take_first_Some [OF high(1)] f show ?thesis by (simp add: jobs_abs_def)
  next
    case (low js)
    then show ?thesis by (simp add: jobs_abs_def filter_empty_conv)
  qed
qed

subsection \<open>Workers\<close>

text \<open>What a worker leaves in the record for a task.\<close>

definition job_events :: "tpool \<Rightarrow> task \<Rightarrow> tp_event list" where
  "job_events st t = (case map_of (m_tasks st) (m_type t) of None \<Rightarrow> [] | Some p \<Rightarrow> [Call p t, TaskDone t 0, TaskDel t])"

lemma take_job_fields:
  assumes "take_job st = Some (t, st')"
  shows "m_tasks st' = m_tasks st" "m_ctrl st' = m_ctrl st" "m_flag st' = m_flag st" "tp_log st' = tp_log st"
    "length (m_jobs st) = Suc (length (m_jobs st'))" "m_MaxPriority st' = m_MaxPriority st"
proof -
  show "m_tasks st' = m_tasks st" "m_ctrl st' = m_ctrl st" "m_flag st' = m_flag st" "tp_log st' = tp_log st" "m_MaxPriority st' = m_MaxPriority st"
    using assms by (cases rule: take_job_cases; simp)+
  show "length (m_jobs st) = Suc (length (m_jobs st'))"
    using assms
  proof (cases rule: take_job_cases)
    case (high js)
    note f = take_first_Some [OF high(1)]
    have "length (m_jobs st) = length (filter (is_max st) (m_jobs st)) + length (filter (\<lambda>t. \<not> is_max st t) (m_jobs st))"
      by (simp add: sum_length_filter_compl)
    also have "\<dots> = Suc (length js)" using f sum_length_filter_compl [of "is_max st" js] by simp
    finally show ?thesis using high(2) by simp
  qed simp
qed

lemma exec_job_fields [simp]:
  "m_tasks (exec_job t st) = m_tasks st" "m_ctrl (exec_job t st) = m_ctrl st" "m_flag (exec_job t st) = m_flag st"
  "m_jobs (exec_job t st) = m_jobs st" "m_MaxPriority (exec_job t st) = m_MaxPriority st"
  "tp_log (exec_job t st) = tp_log st @ job_events st t"
  by (simp_all add: exec_job_def job_events_def split: option.splits)

text \<open>While the pool runs the semaphore counts the queued tasks.\<close>

definition pool_ok :: "tpool \<Rightarrow> bool" where
  "pool_ok st \<longleftrightarrow> m_flag st \<and> m_ctrl st = length (m_jobs st)"

lemma TP_run_ok:
  assumes "pool_ok st"
  shows "case TP_run st of None \<Rightarrow> m_jobs st = [] | Some r \<Rightarrow> (\<exists>st'. r = Inr st' \<and> pool_ok st')"
proof (cases "m_jobs st")
  case Nil
  with assms show ?thesis by (simp add: TP_run_def pool_ok_def)
next
  case (Cons j js)
  let ?s = "st\<lparr>m_ctrl := m_ctrl st - 1\<rparr>"
  have "take_job ?s \<noteq> None" using Cons by (simp add: take_job_None)
  then obtain t s' where t: "take_job ?s = Some (t, s')" by auto
  note f = take_job_fields [OF t]
  have "pool_ok (exec_job t s')" using f assms Cons by (auto simp: pool_ok_def)
  moreover have "TP_run st = Some (Inr (exec_job t s'))" using assms Cons t by (simp add: TP_run_def pool_ok_def)
  ultimately show ?thesis by simp
qed

lemma tp_step_ok:
  assumes "tp_step st st'" "pool_ok st"
  shows "pool_ok st'"
  using assms
proof (cases rule: tp_step.cases)
  case (Submit w job)
  with assms show ?thesis by (auto simp: pool_ok_def submit_job_req_def)
next
  case Run
  with TP_run_ok [OF assms(2)] show ?thesis by auto
next
  case (Register ty p)
  with assms show ?thesis by (simp add: pool_ok_def Register_taskProcess_def)
next
  case Init
  with assms show ?thesis by (simp add: pool_ok_def TP_Init_def)
qed (simp_all add: pool_ok_def setMaxPriorityType_def setMergeTaskType_def setTaskCmp_def)

lemma tp_reach_ok: "tp_reach st \<Longrightarrow> pool_ok st"
proof (induction rule: tp_reach.induct)
  case (Start n)
  show ?case by (simp add: pool_ok_def ThreadPoolImpl_new_def)
next
  case (Step st st')
  show ?case by (rule tp_step_ok [OF Step.hyps(2) Step.IH])
qed

lemma take_all_exec:
  assumes "pool_ok st" "n = length (m_jobs st)"
  shows "\<exists>st'. thread_func n st = Some (Inr st') \<and> m_jobs st' = [] \<and> pool_ok st' \<and>
     tp_log st' = tp_log st @ concat (map (job_events st) (take_all n take_job st))"
  using assms
proof (induction n arbitrary: st)
  case (Suc n)
  let ?s = "st\<lparr>m_ctrl := m_ctrl st - 1\<rparr>"
  have k: "take_job ?s = map_option (\<lambda>(t, s). (t, s\<lparr>m_ctrl := m_ctrl st - 1\<rparr>)) (take_job st)"
    by (auto simp: take_job_def split: option.splits list.splits)
  have "take_job st \<noteq> None" using Suc.prems(2) by (auto simp: take_job_None)
  then obtain t s' where t: "take_job st = Some (t, s')" by auto
  note f = take_job_fields [OF t]
  let ?r = "exec_job t (s'\<lparr>m_ctrl := m_ctrl st - 1\<rparr>)"
  have r: "TP_run st = Some (Inr ?r)" using Suc.prems k t by (auto simp: TP_run_def pool_ok_def)
  have ok: "pool_ok ?r" "n = length (m_jobs ?r)" using Suc.prems f by (auto simp: pool_ok_def)
  have ev: "job_events ?r = job_events st" "job_events (s'\<lparr>m_ctrl := m_ctrl st - 1\<rparr>) = job_events st"
    using f(1) by (auto simp: job_events_def fun_eq_iff)
  have ta: "take_all n take_job ?r = take_all n take_job s'"
  proof -
    have "is_max ?r = is_max s'" by (simp add: is_max_def fun_eq_iff)
    then have "jobs_abs ?r = jobs_abs s'" by (simp add: jobs_abs_def)
    moreover have "length (fst (jobs_abs s')) + length (snd (jobs_abs s')) \<le> n"
      using ok(2) by (simp add: jobs_abs_def sum_length_filter_compl)
    ultimately show ?thesis by (simp add: pool_queue.take_all_order)
  qed
  obtain st' where "thread_func n ?r = Some (Inr st')" "m_jobs st' = []" "pool_ok st'"
    "tp_log st' = tp_log ?r @ concat (map (job_events ?r) (take_all n take_job ?r))"
    using Suc.IH [OF ok] by blast
  moreover have "thread_func (Suc n) st = thread_func n ?r"
    unfolding thread_func.simps r using Suc.prems(1) by (simp add: pool_ok_def)
  ultimately show ?case using t f(4) ev ta by (intro exI [of _ st']) simp
qed (simp add: pool_ok_def)

subsection \<open>Properties\<close>

text \<open>
  Observation: in every state reached before \<open>Stop\<close> a worker never takes from an empty queue, and it does not wait while a task
  is queued: the semaphore counts the queue.
\<close>

theorem pool_worker_safe:
  assumes "tp_reach st"
  shows "TP_run st \<noteq> Some (Inl e) \<and> (TP_run st = None \<longleftrightarrow> m_jobs st = [])"
proof -
  note ok = tp_reach_ok [OF assms]
  show ?thesis
  proof (cases "TP_run st")
    case None
    with TP_run_ok [OF ok] show ?thesis by simp
  next
    case (Some r)
    with TP_run_ok [OF ok] obtain st' where r: "r = Inr st'" by auto
    have "m_ctrl st \<noteq> 0" using Some by (cases "m_ctrl st = 0") (simp_all add: TP_run_def)
    then have "m_jobs st \<noteq> []" using ok by (auto simp: pool_ok_def)
    with Some r show ?thesis by simp
  qed
qed

theorem pool_worker_safe_witness:
  "TP_run (snd (submit_job_req 0 \<lparr>tk_id = 1, m_type = ''a''\<rparr> (ThreadPoolImpl_new 2))) \<noteq> None"
proof -
  have "tp_reach (snd (submit_job_req 0 \<lparr>tk_id = 1, m_type = ''a''\<rparr> (ThreadPoolImpl_new 2)))"
    by (rule tp_reach.Step [OF tp_reach.Start tp_step.Submit])
  from pool_worker_safe [OF this] show ?thesis by (simp add: submit_job_req_def ThreadPoolImpl_new_def)
qed

text \<open>
  Property C7: the queue implements two queues served by priority. From a reachable state a worker processes all
  queued tasks in as many turns: first those of the preferred type, then the others, each group in the order of submission,
  each task with a registered processor being called, finished and deleted exactly once; a task submitted next is the last of its group.
\<close>

theorem pool_serves_by_priority:
  assumes "tp_reach st"
  shows "\<exists>st'. thread_func (length (m_jobs st)) st = Some (Inr st') \<and> m_jobs st' = [] \<and>
      tp_log st' = tp_log st @ concat (map (job_events st) (filter (is_max st) (m_jobs st) @ filter (\<lambda>t. \<not> is_max st t) (m_jobs st)))
    \<and> (\<forall>w job. fst (submit_job_req w job st) \<noteq> -2 \<longrightarrow>
        jobs_abs (snd (submit_job_req w job st)) =
          (if is_max st job then (fst (jobs_abs st) @ [job], snd (jobs_abs st)) else (fst (jobs_abs st), snd (jobs_abs st) @ [job])))"
proof -
  note ok = tp_reach_ok [OF assms]
  have "take_all (length (m_jobs st)) take_job st = fst (jobs_abs st) @ snd (jobs_abs st)"
    by (rule pool_queue.take_all_order) (simp add: jobs_abs_def sum_length_filter_compl)
  then have ta: "take_all (length (m_jobs st)) take_job st = filter (is_max st) (m_jobs st) @ filter (\<lambda>t. \<not> is_max st t) (m_jobs st)"
    by (simp add: jobs_abs_def)
  have "jobs_abs (snd (submit_job_req w job st)) = jobs_abs (put_job job st)" if "fst (submit_job_req w job st) \<noteq> -2" for w job
    using that ok by (auto simp: submit_job_req_def pool_ok_def jobs_abs_def put_job_def split: if_splits)
  then have sub: "\<forall>w job. fst (submit_job_req w job st) \<noteq> -2 \<longrightarrow>
        jobs_abs (snd (submit_job_req w job st)) =
          (if is_max st job then (fst (jobs_abs st) @ [job], snd (jobs_abs st)) else (fst (jobs_abs st), snd (jobs_abs st) @ [job]))"
    unfolding pool_queue.put_abs [symmetric] by blast
  show ?thesis using take_all_exec [OF ok refl] sub unfolding ta by blast
qed

text \<open>
  Observation: merging drops tasks of every type. With no comparison function set, a task is discarded and deleted as
  soon as some task of the mergeable type is queued, whatever its own type is.
\<close>

theorem merge_drops_any_type:
  assumes "m_flag st" "m_taskCmp st = None" "m_LowPriority st \<noteq> ''-1''" "o1 \<in> set (m_jobs st)" "m_type o1 = m_LowPriority st"
  shows "submit_job_req w job st = (-2, st\<lparr>tp_log := tp_log st @ [TaskDel job]\<rparr>)"
  using assms by (auto simp: submit_job_req_def TaskTypeCompare_def)

abbreviation low_pool :: tpool where
  "low_pool \<equiv> (ThreadPoolImpl_new 1)\<lparr>m_LowPriority := ''draw'', m_jobs := [\<lparr>tk_id = 1, m_type = ''draw''\<rparr>], m_ctrl := 1\<rparr>"

theorem merge_drops_any_type_witness:
  "submit_job_req 0 \<lparr>tk_id = 2, m_type = ''save''\<rparr> low_pool =
     (-2, low_pool\<lparr>tp_log := tp_log low_pool @ [TaskDel \<lparr>tk_id = 2, m_type = ''save''\<rparr>]\<rparr>)"
  by (rule merge_drops_any_type [of low_pool "\<lparr>tk_id = 1, m_type = ''draw''\<rparr>"]) (simp_all add: ThreadPoolImpl_new_def)

abbreviation sample_task :: task where
  "sample_task \<equiv> \<lparr>tk_id = 1, m_type = ''a''\<rparr>"

theorem pool_serves_by_priority_witness:
  "\<exists>st'. thread_func 1 (snd (submit_job_req 0 sample_task (snd (Register_taskProcess ''a'' 7 (ThreadPoolImpl_new 2))))) = Some (Inr st') \<and>
     tp_log st' = [Call 7 sample_task, TaskDone sample_task 0, TaskDel sample_task]"
proof -
  define st where "st = snd (submit_job_req 0 sample_task (snd (Register_taskProcess ''a'' 7 (ThreadPoolImpl_new 2))))"
  have r: "tp_reach st"
    unfolding st_def by (rule tp_reach.Step [OF tp_reach.Step [OF tp_reach.Start tp_step.Register] tp_step.Submit])
  have f: "m_jobs st = [sample_task]" "tp_log st = []" "\<not> is_max st sample_task"
    "job_events st sample_task = [Call 7 sample_task, TaskDone sample_task 0, TaskDel sample_task]"
    by (simp_all add: st_def submit_job_req_def ThreadPoolImpl_new_def Register_taskProcess_def is_max_def job_events_def)
  obtain st' where "thread_func (length (m_jobs st)) st = Some (Inr st')"
    "tp_log st' = tp_log st @ concat (map (job_events st) (filter (is_max st) (m_jobs st) @ filter (\<lambda>t. \<not> is_max st t) (m_jobs st)))"
    using pool_serves_by_priority [OF r] by blast
  then have "thread_func 1 st = Some (Inr st')" "tp_log st' = [Call 7 sample_task, TaskDone sample_task 0, TaskDel sample_task]"
    unfolding f(1) using f(2-4) by simp_all
  then show ?thesis unfolding st_def by blast
qed

text \<open>
  Observation: stopping lets workers run into the empty queue. \<open>Stop\<close> posts the semaphore once for each worker and
  then empties the queue, so the next worker that passes the semaphore takes the front of an empty list.
\<close>

theorem stop_then_empty_front:
  assumes "tp_reach st" "0 < m_thread_sum st"
  shows "TP_run (TP_Stop st) = Some (Inl Undefined)"
proof -
  have "m_ctrl (TP_Stop st) \<noteq> 0" "m_jobs (TP_Stop st) = []"
    using tp_reach_ok [OF assms(1)] assms(2) by (simp_all add: TP_Stop_def pool_ok_def)
  moreover from this have "take_job ((TP_Stop st)\<lparr>m_ctrl := m_ctrl (TP_Stop st) - 1\<rparr>) = None" by (simp add: take_job_None)
  ultimately show ?thesis by (simp add: TP_run_def)
qed

theorem stop_then_empty_front_witness: "TP_run (TP_Stop (ThreadPoolImpl_new 2)) = Some (Inl Undefined)"
  by (rule stop_then_empty_front [OF tp_reach.Start]) (simp add: ThreadPoolImpl_new_def)

end
