(* ===== verification/TimerMod.thy ===== *)
theory TimerMod
  imports TPool TimeInf
begin

text \<open>
  \<open>Thread/Timer.h\<close>, \<open>Thread/TimerMgrImpl_Linux.cpp\<close> and \<open>Thread/MsTimerMgrImpl_Linux.cpp\<close>: timers that count ticks of
  \<open>TIMERPRECISION\<close> milliseconds, a tick handler that marks the expired ones and wakes two workers of a
  thread pool (\<open>TPool\<close>), and the workers' handlers that call and remove them. Timers are values in the two containers
  (the managers own the timers they are given); calls and deletions are recorded by identity. The constructor of
  a timer leaves \<open>nCount\<close> and \<open>nFinish\<close> uninitialised: they are arguments of \<open>Timer_new\<close>. The
  millisecond manager repeats the code of the other one; its operations are translated separately and shown
  equal where they are.
\<close>

definition TIMERPRECISION :: nat where
  "TIMERPRECISION = 5"

record abs_timer =
  at_id :: nat
  nStart :: nat
  nInterval :: nat
  nCount :: nat
  nFinish :: nat
  m_nCur :: int

definition SetTimer :: "int \<Rightarrow> int \<Rightarrow> abs_timer \<Rightarrow> abs_timer" where
  "SetTimer start interval t = t\<lparr>nStart := to_bits 16 start, nInterval := to_bits 16 interval\<rparr>"

definition Timer_new :: "nat \<Rightarrow> int \<Rightarrow> int \<Rightarrow> nat \<Rightarrow> nat \<Rightarrow> abs_timer" where
  "Timer_new i start interval junkc junkf =
     SetTimer start interval \<lparr>at_id = i, nStart = 0, nInterval = 0, nCount = junkc mod 65536, nFinish = junkf mod 65536, m_nCur = 0\<rparr>"

definition Increment :: "abs_timer \<Rightarrow> nat \<times> abs_timer" where
  "Increment t = (let c = (nCount t + 1) mod 65536 in (c * TIMERPRECISION, t\<lparr>nCount := c\<rparr>))"

definition RestCount :: "abs_timer \<Rightarrow> abs_timer" where
  "RestCount t = t\<lparr>nCount := 0\<rparr>"

definition SetFinish :: "abs_timer \<Rightarrow> abs_timer" where
  "SetFinish t = t\<lparr>nFinish := 2\<rparr>"

definition ResetState :: "abs_timer \<Rightarrow> abs_timer" where
  "ResetState t = t\<lparr>nFinish := 1\<rparr>"

definition IsTimeout :: "abs_timer \<Rightarrow> bool" where
  "IsTimeout t \<longleftrightarrow> 1 < nFinish t"

definition SetStartTime :: "int \<Rightarrow> abs_timer \<Rightarrow> abs_timer" where
  "SetStartTime now t = t\<lparr>m_nCur := now\<rparr>"

text \<open>The two task processors are known by their identities; \<open>None\<close> before \<open>Init\<close> has created them.\<close>

record timermgr =
  onceLst :: "abs_timer list"
  repeatSet :: "(string, abs_timer) omap"
  m_SemOnce :: nat
  m_SemRepeat :: nat
  m_timeSync :: nat
  m_bTimerFlag :: bool
  tm_pool :: tpool
  m_pOncePrecess :: "(nat \<times> bool) option"
  m_pRepeatProcess :: "(nat \<times> bool) option"
  tm_fired :: "nat list"
  tm_deleted :: "nat list"

definition TimerMgrImpl_new :: timermgr where
  "TimerMgrImpl_new =
     \<lparr>onceLst = [], repeatSet = [], m_SemOnce = 0, m_SemRepeat = 0, m_timeSync = 0, m_bTimerFlag = False,
      tm_pool = ThreadPoolImpl_new 2, m_pOncePrecess = None, m_pRepeatProcess = None, tm_fired = [], tm_deleted = []\<rparr>"

text \<open>Creating the processors \<open>p0\<close> and \<open>p1\<close> and submitting the tasks \<open>t0\<close> and \<open>t1\<close> that keep two workers in them.\<close>

definition start_workers :: "nat \<Rightarrow> nat \<Rightarrow> nat \<Rightarrow> nat \<Rightarrow> tpool \<Rightarrow> tpool" where
  "start_workers p0 p1 t0 t1 pl =
     (let pl1 = snd (TP_Init pl);
          pl2 = snd (Register_taskProcess ''1'' p1 (snd (Register_taskProcess ''0'' p0 pl1)))
      in snd (submit_job_req 0 \<lparr>tk_id = t1, m_type = ''1''\<rparr> (snd (submit_job_req 0 \<lparr>tk_id = t0, m_type = ''0''\<rparr> pl2))))"

definition TimerMgr_Init :: "nat \<Rightarrow> nat \<Rightarrow> nat \<Rightarrow> nat \<Rightarrow> timermgr \<Rightarrow> bool \<times> timermgr" where
  "TimerMgr_Init p0 p1 t0 t1 st =
     (True, st\<lparr>m_bTimerFlag := True, m_SemOnce := 0, m_SemRepeat := 0, m_timeSync := 0,
               tm_pool := start_workers p0 p1 t0 t1 (tm_pool st), m_pOncePrecess := Some (p0, True), m_pRepeatProcess := Some (p1, True)\<rparr>)"

definition AddTimer :: "int \<Rightarrow> string \<Rightarrow> abs_timer option \<Rightarrow> timermgr \<Rightarrow> bool \<times> timermgr" where
  "AddTimer now str timer st =
     (case timer of
        None \<Rightarrow> (False, st)
      | Some t0 \<Rightarrow>
          (let t = SetStartTime now t0
           in if nInterval t \<noteq> 0
              then (map_of (repeatSet st) str = None, st\<lparr>repeatSet := minsert str t (repeatSet st)\<rparr>)
              else (True, st\<lparr>onceLst := onceLst st @ [t]\<rparr>)))"

definition DelTimer :: "string \<Rightarrow> timermgr \<Rightarrow> bool \<times> timermgr" where
  "DelTimer str st =
     (case map_of (repeatSet st) str of
        None \<Rightarrow> (False, st)
      | Some t \<Rightarrow> (True, st\<lparr>repeatSet := merase str (repeatSet st), tm_deleted := tm_deleted st @ [at_id t]\<rparr>))"

definition ModifyRepeatTimer :: "string \<Rightarrow> int \<Rightarrow> int \<Rightarrow> timermgr \<Rightarrow> bool \<times> timermgr" where
  "ModifyRepeatTimer str len nInt st =
     (case map_of (repeatSet st) str of
        None \<Rightarrow> (False, st)
      | Some t \<Rightarrow> (True, st\<lparr>repeatSet := massign str (SetTimer len nInt t) (repeatSet st)\<rparr>))"

text \<open>\<open>stop\<close> of a processor: a processor that has been deleted, or never created, must not be used.\<close>

definition stop_process :: "(nat \<times> bool) option \<Rightarrow> tpool \<Rightarrow> xerror + (nat \<times> bool) option" where
  "stop_process pr pl =
     (case pr of
        None \<Rightarrow> Inl Undefined
      | Some (p, b) \<Rightarrow> if ProcDel p \<in> set (tp_log pl) then Inl Undefined else Inr (Some (p, False)))"

definition delete_timers :: "timermgr \<Rightarrow> timermgr" where
  "delete_timers st = st\<lparr>tm_deleted := tm_deleted st @ map at_id (onceLst st) @ map (at_id \<circ> snd) (repeatSet st)\<rparr>"

definition TimerMgr_Stop :: "timermgr \<Rightarrow> xerror + timermgr" where
  "TimerMgr_Stop st0 =
     (let st = st0\<lparr>m_bTimerFlag := False\<rparr>
      in case stop_process (m_pOncePrecess st) (tm_pool st) of
           Inl e \<Rightarrow> Inl e
         | Inr o1 \<Rightarrow>
             (case stop_process (m_pRepeatProcess st) (tm_pool st) of
                Inl e \<Rightarrow> Inl e
              | Inr r1 \<Rightarrow>
                  Inr (delete_timers (st\<lparr>m_pOncePrecess := o1, m_SemOnce := m_SemOnce st + 1, m_pRepeatProcess := r1,
                         m_SemRepeat := m_SemRepeat st + 1, tm_pool := TP_Stop (tm_pool st)\<rparr>))))"

subsection \<open>The tick\<close>

definition tick_once :: "abs_timer \<Rightarrow> abs_timer" where
  "tick_once t = (let (v, t') = Increment t in if nStart t' = v then SetFinish t' else t')"

definition tick_repeat :: "abs_timer \<Rightarrow> abs_timer" where
  "tick_repeat t =
     (if nFinish t = 0 then
        (let (v, t') = Increment t in if nStart t' = v then RestCount (SetFinish t') else t')
      else if nFinish t = 1 then
        (let (v, t') = Increment t in if nInterval t' = v then SetFinish (RestCount t') else t')
      else t)"

text \<open>\<open>bFlagOnce\<close> and \<open>bFlagRepeat\<close>: whether the tick marked a timer.\<close>

definition once_marked :: "abs_timer \<Rightarrow> bool" where
  "once_marked t \<longleftrightarrow> nStart t = fst (Increment t)"

definition repeat_marked :: "abs_timer \<Rightarrow> bool" where
  "repeat_marked t \<longleftrightarrow> nFinish t = 0 \<and> nStart t = fst (Increment t) \<or> nFinish t = 1 \<and> nInterval t = fst (Increment t)"

definition TimerHandle :: "timermgr \<Rightarrow> timermgr" where
  "TimerHandle st =
     st\<lparr>onceLst := map tick_once (onceLst st),
        m_SemOnce := m_SemOnce st + (if \<exists>t \<in> set (onceLst st). once_marked t then 1 else 0),
        repeatSet := map (\<lambda>(k, t). (k, tick_repeat t)) (repeatSet st),
        m_SemRepeat := m_SemRepeat st + (if \<exists>(k, t) \<in> set (repeatSet st). repeat_marked t then 1 else 0)\<rparr>"

text \<open>The signal handler posts \<open>m_timeSync\<close>; a turn of the timer thread takes it, or waits.\<close>

definition TimerProc :: "timermgr \<Rightarrow> timermgr" where
  "TimerProc st = st\<lparr>m_timeSync := m_timeSync st + 1\<rparr>"

definition TimerThread :: "timermgr \<Rightarrow> timermgr option" where
  "TimerThread st = (if m_timeSync st = 0 then None else Some (TimerHandle (st\<lparr>m_timeSync := m_timeSync st - 1\<rparr>)))"

subsection \<open>The workers\<close>

text \<open>Positions of the expired timers, and their removal from the last one on.\<close>

fun timeout_pos :: "nat \<Rightarrow> abs_timer list \<Rightarrow> nat list" where
  "timeout_pos i [] = []"
| "timeout_pos i (t # ts) = (if IsTimeout t then i # timeout_pos (Suc i) ts else timeout_pos (Suc i) ts)"

fun erase_pos :: "nat list \<Rightarrow> abs_timer list \<Rightarrow> nat list \<times> abs_timer list" where
  "erase_pos [] ts = ([], ts)"
| "erase_pos (i # is) ts = (let (del, r) = erase_pos is (take i ts @ drop (Suc i) ts) in (at_id (ts ! i) # del, r))"

definition DealOnceHandle :: "timermgr \<Rightarrow> timermgr" where
  "DealOnceHandle st =
     (let tmpVec = timeout_pos 0 (onceLst st);
          (del, rest) = erase_pos (rev tmpVec) (onceLst st)
      in st\<lparr>tm_fired := tm_fired st @ map at_id (filter IsTimeout (onceLst st)), onceLst := rest, tm_deleted := tm_deleted st @ del\<rparr>)"

definition deal_repeat :: "abs_timer \<Rightarrow> abs_timer" where
  "deal_repeat t = (if IsTimeout t then ResetState t else t)"

definition DealRepeatHandle :: "timermgr \<Rightarrow> timermgr" where
  "DealRepeatHandle st =
     st\<lparr>tm_fired := tm_fired st @ map (at_id \<circ> snd) (filter (\<lambda>(k, t). IsTimeout t) (repeatSet st)),
        repeatSet := map (\<lambda>(k, t). (k, deal_repeat t)) (repeatSet st)\<rparr>"

text \<open>A turn of a processor; \<open>None\<close> while it waits for its semaphore.\<close>

definition OnceProcess_turn :: "timermgr \<Rightarrow> timermgr option" where
  "OnceProcess_turn st =
     (if m_SemOnce st = 0 then None else Some (DealOnceHandle (st\<lparr>m_SemOnce := m_SemOnce st - 1\<rparr>)))"

definition RepeatProcess_turn :: "timermgr \<Rightarrow> timermgr option" where
  "RepeatProcess_turn st =
     (if m_SemRepeat st = 0 then None else Some (DealRepeatHandle (st\<lparr>m_SemRepeat := m_SemRepeat st - 1\<rparr>)))"

subsection \<open>The millisecond manager\<close>

text \<open>\<open>busy\<close>: the static \<open>pThis\<close> is not null.\<close>

definition Ms_Init :: "bool \<Rightarrow> nat \<Rightarrow> nat \<Rightarrow> nat \<Rightarrow> nat \<Rightarrow> timermgr \<Rightarrow> bool \<times> bool \<times> timermgr" where
  "Ms_Init busy p0 p1 t0 t1 st =
     (if busy then (False, busy, st)
      else (True, True, st\<lparr>m_SemOnce := 0, m_SemRepeat := 0, tm_pool := start_workers p0 p1 t0 t1 (tm_pool st),
                          m_pOncePrecess := Some (p0, True), m_pRepeatProcess := Some (p1, True)\<rparr>))"

definition Ms_AddTimer :: "int \<Rightarrow> string \<Rightarrow> abs_timer option \<Rightarrow> timermgr \<Rightarrow> bool \<times> timermgr" where
  "Ms_AddTimer now str timer st =
     (case timer of
        None \<Rightarrow> (False, st)
      | Some t0 \<Rightarrow>
          (let t = SetStartTime now t0
           in if nInterval t \<noteq> 0
              then (map_of (repeatSet st) str = None, st\<lparr>repeatSet := minsert str t (repeatSet st)\<rparr>)
              else (True, st\<lparr>onceLst := onceLst st @ [t]\<rparr>)))"

definition Ms_DelTimer :: "string \<Rightarrow> timermgr \<Rightarrow> bool \<times> timermgr" where
  "Ms_DelTimer str st =
     (case map_of (repeatSet st) str of
        None \<Rightarrow> (False, st)
      | Some t \<Rightarrow> (True, st\<lparr>repeatSet := merase str (repeatSet st), tm_deleted := tm_deleted st @ [at_id t]\<rparr>))"

definition Ms_ModifyRepeatTimer :: "string \<Rightarrow> int \<Rightarrow> int \<Rightarrow> timermgr \<Rightarrow> bool \<times> timermgr" where
  "Ms_ModifyRepeatTimer str len nInt st =
     (case map_of (repeatSet st) str of
        None \<Rightarrow> (False, st)
      | Some t \<Rightarrow> (True, st\<lparr>repeatSet := massign str (SetTimer len nInt t) (repeatSet st)\<rparr>))"

text \<open>Here the pool is stopped, and deletes the processors, before they are told to stop.\<close>

definition Ms_Stop :: "bool \<Rightarrow> timermgr \<Rightarrow> xerror + (bool \<times> timermgr)" where
  "Ms_Stop busy st0 =
     (if \<not> busy then Inr (busy, st0)
      else
        let st = st0\<lparr>tm_pool := TP_Stop (tm_pool st0)\<rparr>
        in case stop_process (m_pOncePrecess st) (tm_pool st) of
             Inl e \<Rightarrow> Inl e
           | Inr o1 \<Rightarrow>
               (case stop_process (m_pRepeatProcess st) (tm_pool st) of
                  Inl e \<Rightarrow> Inl e
                | Inr r1 \<Rightarrow>
                    Inr (False, delete_timers (st\<lparr>m_pOncePrecess := o1, m_SemOnce := m_SemOnce st + 1,
                           m_pRepeatProcess := r1, m_SemRepeat := m_SemRepeat st + 1\<rparr>))))"

definition Ms_DealOnceHandle :: "timermgr \<Rightarrow> timermgr" where
  "Ms_DealOnceHandle st =
     (let tmpVec = timeout_pos 0 (onceLst st);
          (del, rest) = erase_pos (rev tmpVec) (onceLst st)
      in st\<lparr>tm_fired := tm_fired st @ map at_id (filter IsTimeout (onceLst st)), onceLst := rest, tm_deleted := tm_deleted st @ del\<rparr>)"

definition Ms_DealRepeatHandle :: "timermgr \<Rightarrow> timermgr" where
  "Ms_DealRepeatHandle st =
     st\<lparr>tm_fired := tm_fired st @ map (at_id \<circ> snd) (filter (\<lambda>(k, t). IsTimeout t) (repeatSet st)),
        repeatSet := map (\<lambda>(k, t). (k, if IsTimeout t then ResetState t else t)) (repeatSet st)\<rparr>"

definition Ms_TimerHandle :: "timermgr \<Rightarrow> timermgr" where
  "Ms_TimerHandle st =
     st\<lparr>onceLst := map tick_once (onceLst st),
        m_SemOnce := m_SemOnce st + (if \<exists>t \<in> set (onceLst st). once_marked t then 1 else 0),
        repeatSet := map (\<lambda>(k, t). (k, tick_repeat t)) (repeatSet st),
        m_SemRepeat := m_SemRepeat st + (if \<exists>(k, t) \<in> set (repeatSet st). repeat_marked t then 1 else 0)\<rparr>"

definition sigHandle :: "bool \<Rightarrow> timermgr \<Rightarrow> timermgr" where
  "sigHandle busy st = (if \<not> busy then st else Ms_TimerHandle st)"

lemmas ms_defs = Ms_AddTimer_def Ms_DelTimer_def Ms_ModifyRepeatTimer_def Ms_DealOnceHandle_def Ms_DealRepeatHandle_def Ms_TimerHandle_def

lemma ms_same:
  "Ms_AddTimer = AddTimer" "Ms_DelTimer = DelTimer" "Ms_ModifyRepeatTimer = ModifyRepeatTimer"
  "Ms_DealOnceHandle = DealOnceHandle" "Ms_DealRepeatHandle = DealRepeatHandle" "Ms_TimerHandle = TimerHandle"
  by (simp_all add: fun_eq_iff ms_defs AddTimer_def DelTimer_def ModifyRepeatTimer_def DealOnceHandle_def DealRepeatHandle_def TimerHandle_def
      deal_repeat_def)

subsection \<open>One-shot timers\<close>

text \<open>When a timer counting from zero is marked within \<open>n\<close> ticks.\<close>

definition expired :: "nat \<Rightarrow> abs_timer \<Rightarrow> bool" where
  "expired n t \<longleftrightarrow> nStart t mod TIMERPRECISION = 0 \<and> (if nStart t = 0 then 65536 \<le> n else nStart t div TIMERPRECISION \<le> n)"

lemma expired_step:
  assumes "nStart t < 65536"
  shows "expired (Suc n) t \<longleftrightarrow> expired n t \<or> nStart t = Suc n mod 65536 * 5"
proof (cases "nStart t mod 5 = 0")
  case False
  then have "nStart t \<noteq> Suc n mod 65536 * 5" by (metis mod_mult_self2_is_0)
  with False show ?thesis by (simp add: expired_def TIMERPRECISION_def)
next
  case True
  then obtain k where k: "nStart t = 5 * k" by auto
  show ?thesis
  proof (cases "k = 0")
    case True
    have "Suc n mod 65536 = 0 \<Longrightarrow> 65536 \<le> Suc n" by (metis Suc_neq_Zero linorder_not_less mod_less)
    with k True show ?thesis by (auto simp: expired_def TIMERPRECISION_def le_Suc_eq)
  next
    case False
    have kb: "k < 65536" using assms k by simp
    have "k \<le> Suc n \<longleftrightarrow> k \<le> n \<or> k = Suc n mod 65536"
    proof (cases "k \<le> n")
      case False
      with kb show ?thesis using mod_less [of "Suc n" 65536] mod_less_eq_dividend [of "Suc n" 65536] by linarith
    qed simp
    with k False show ?thesis by (auto simp: expired_def TIMERPRECISION_def)
  qed
qed

lemma tick_once_n:
  assumes "nCount t = 0" "nFinish t = 0" "nStart t < 65536"
  shows "(tick_once ^^ n) t = t\<lparr>nCount := n mod 65536, nFinish := if expired n t then 2 else 0\<rparr>"
proof (induction n)
  case 0
  have "\<not> expired 0 t" by (auto simp: expired_def TIMERPRECISION_def)
  with assms show ?case by simp
next
  case (Suc n)
  have "(n mod 65536 + 1) mod 65536 = Suc n mod 65536" by (simp add: mod_Suc_eq)
  with Suc.IH expired_step [OF assms(3), of n] show ?case
    by (auto simp: tick_once_def Increment_def SetFinish_def Let_def TIMERPRECISION_def)
qed

lemma erase_pos_append:
  "erase_pos (is @ js) ts = (let (d, r) = erase_pos is ts; (d', r') = erase_pos js r in (d @ d', r'))"
  by (induction "is" arbitrary: ts) (auto simp: Let_def split_def)

lemma erase_timeouts:
  "erase_pos (rev (timeout_pos (length pre) ts)) (pre @ ts) =
     (rev (map at_id (filter IsTimeout ts)), pre @ filter (\<lambda>t. \<not> IsTimeout t) ts)"
proof (induction ts arbitrary: pre)
  case (Cons t ts)
  have "erase_pos (rev (timeout_pos (Suc (length pre)) ts)) (pre @ t # ts) =
      (rev (map at_id (filter IsTimeout ts)), pre @ t # filter (\<lambda>t. \<not> IsTimeout t) ts)"
    using Cons.IH [of "pre @ [t]"] by simp
  then show ?case by (simp add: erase_pos_append)
qed simp

lemma DealOnce_result:
  "DealOnceHandle st = st\<lparr>tm_fired := tm_fired st @ map at_id (filter IsTimeout (onceLst st)),
     onceLst := filter (\<lambda>t. \<not> IsTimeout t) (onceLst st), tm_deleted := tm_deleted st @ rev (map at_id (filter IsTimeout (onceLst st)))\<rparr>"
  using erase_timeouts [of "[]" "onceLst st"] by (simp add: DealOnceHandle_def)

lemma ticks_once:
  "onceLst ((TimerHandle ^^ n) st) = map (tick_once ^^ n) (onceLst st)" "tm_fired ((TimerHandle ^^ n) st) = tm_fired st"
  "tm_deleted ((TimerHandle ^^ n) st) = tm_deleted st"
  by (induction n) (simp_all add: TimerHandle_def)

subsection \<open>Repeating timers\<close>

text \<open>A tick followed by the worker's turn, for one timer and for the manager.\<close>

definition round1 :: "abs_timer \<Rightarrow> abs_timer" where
  "round1 t = deal_repeat (tick_repeat t)"

definition round :: "timermgr \<Rightarrow> timermgr" where
  "round st = DealRepeatHandle (TimerHandle st)"

lemma round_fields:
  "repeatSet (round st) = map (\<lambda>(k, t). (k, round1 t)) (repeatSet st)"
  "tm_fired (round st) = tm_fired st @ map (at_id \<circ> snd) (filter (\<lambda>(k, t). IsTimeout (tick_repeat t)) (repeatSet st))"
  by (simp_all add: round_def DealRepeatHandle_def TimerHandle_def round1_def split_def comp_def filter_map tick_repeat_def
      Increment_def Let_def RestCount_def SetFinish_def)

lemma at_id_round [simp]: "at_id (round1 t) = at_id t" "at_id ((round1 ^^ n) t) = at_id t"
proof -
  show r: "at_id (round1 t) = at_id t" for t
    by (simp add: round1_def deal_repeat_def ResetState_def tick_repeat_def Increment_def Let_def RestCount_def SetFinish_def)
  show "at_id ((round1 ^^ n) t) = at_id t" by (induction n) (simp_all add: r)
qed

lemma rounds_set: "repeatSet ((round ^^ n) st) = map (\<lambda>(k, t). (k, (round1 ^^ n) t)) (repeatSet st)"
  by (induction n) (simp_all add: round_fields split_def)

lemma count_filter_distinct:
  assumes "distinct (map f xs)" "x \<in> set xs"
  shows "count_list (map f (filter P xs)) (f x) = (if P x then 1 else 0)"
  using assms
proof (induction xs)
  case (Cons y ys)
  show ?case
  proof (cases "y = x")
    case True
    then have "f x \<notin> set (map f (filter P ys))" using Cons.prems(1) by auto
    then have "count_list (map f (filter P ys)) (f x) = 0" by (simp add: count_list_0_iff)
    with True show ?thesis by simp
  next
    case False
    with Cons.prems have "f y \<noteq> f x" by auto
    with Cons False show ?thesis by simp
  qed
qed simp

lemma rounds_fired:
  assumes "distinct (map (at_id \<circ> snd) (repeatSet st))" "(k, t) \<in> set (repeatSet st)"
  shows "count_list (tm_fired ((round ^^ n) st)) (at_id t) =
     count_list (tm_fired st) (at_id t) + length (filter (\<lambda>j. IsTimeout (tick_repeat ((round1 ^^ j) t))) [0..<n])"
proof (induction n)
  case (Suc n)
  let ?r = "repeatSet ((round ^^ n) st)" and ?t = "(round1 ^^ n) t"
  have d: "distinct (map (at_id \<circ> snd) ?r)" using assms(1) by (simp add: rounds_set split_def comp_def)
  have m: "(k, ?t) \<in> set ?r" using assms(2) by (auto simp: rounds_set)
  from count_filter_distinct [OF d m, of "\<lambda>(k, t). IsTimeout (tick_repeat t)"]
  have "count_list (map (at_id \<circ> snd) (filter (\<lambda>(k, t). IsTimeout (tick_repeat t)) ?r)) (at_id t) = (if IsTimeout (tick_repeat ?t) then 1 else 0)"
    by simp
  with Suc.IH show ?case by (simp add: round_fields)
qed simp

subsection \<open>One-shot timers and stopping\<close>

text \<open>
  Observation: one-shot timers. Of timers that count from zero, \<open>n\<close> ticks and a turn of the worker call exactly those whose
  start time is a multiple of the precision that \<open>n\<close> ticks reach, in the order they were added, delete them and keep the others;
  a timer with another start time is never called, one with start time 0 only when the 16-bit counter wraps.
\<close>

theorem once_timers_fire:
  assumes "\<forall>t \<in> set (onceLst st). nCount t = 0 \<and> nFinish t = 0 \<and> nStart t < 65536"
  shows "tm_fired (DealOnceHandle ((TimerHandle ^^ n) st)) = tm_fired st @ map at_id (filter (expired n) (onceLst st)) \<and>
     map at_id (onceLst (DealOnceHandle ((TimerHandle ^^ n) st))) = map at_id (filter (\<lambda>t. \<not> expired n t) (onceLst st)) \<and>
     tm_deleted (DealOnceHandle ((TimerHandle ^^ n) st)) = tm_deleted st @ rev (map at_id (filter (expired n) (onceLst st)))"
proof -
  have t: "IsTimeout ((tick_once ^^ n) t) \<longleftrightarrow> expired n t" "at_id ((tick_once ^^ n) t) = at_id t" if "t \<in> set (onceLst st)" for t
    using tick_once_n [of t n] assms that by (simp_all add: IsTimeout_def)
  have f: "map at_id (filter P (map (tick_once ^^ n) (onceLst st))) = map at_id (filter Q (onceLst st))"
    if "\<forall>t \<in> set (onceLst st). P ((tick_once ^^ n) t) = Q t" for P Q
  proof -
    have "filter (P \<circ> (tick_once ^^ n)) (onceLst st) = filter Q (onceLst st)" using that by (intro filter_cong) simp_all
    then show ?thesis using t(2) by (simp add: filter_map comp_def)
  qed
  have a: "map at_id (filter IsTimeout (map (tick_once ^^ n) (onceLst st))) = map at_id (filter (expired n) (onceLst st))"
    "map at_id (filter (\<lambda>t. \<not> IsTimeout t) (map (tick_once ^^ n) (onceLst st))) = map at_id (filter (\<lambda>t. \<not> expired n t) (onceLst st))"
    by (rule f, use t in simp)+
  show ?thesis unfolding DealOnce_result by (simp add: ticks_once a)
qed

abbreviation two_timers :: timermgr where
  "two_timers \<equiv> TimerMgrImpl_new\<lparr>onceLst := [Timer_new 1 10 0 0 0, Timer_new 2 12 0 0 0]\<rparr>"

theorem once_timers_fire_witness:
  "tm_fired (DealOnceHandle ((TimerHandle ^^ 1000) two_timers)) = [1] \<and>
   map at_id (onceLst (DealOnceHandle ((TimerHandle ^^ 1000) two_timers))) = [2]"
proof -
  have o: "onceLst two_timers = [Timer_new 1 10 0 0 0, Timer_new 2 12 0 0 0]" "tm_fired two_timers = []"
    by (simp_all add: TimerMgrImpl_new_def)
  have f: "\<forall>t \<in> set (onceLst two_timers). nCount t = 0 \<and> nFinish t = 0 \<and> nStart t < 65536"
    by (simp add: o Timer_new_def SetTimer_def to_bits_def)
  have e: "expired 1000 (Timer_new 1 10 0 0 0)" "\<not> expired 1000 (Timer_new 2 12 0 0 0)" "at_id (Timer_new 1 10 0 0 0) = 1" "at_id (Timer_new 2 12 0 0 0) = 2"
    by (simp_all add: expired_def TIMERPRECISION_def Timer_new_def SetTimer_def to_bits_def)
  from once_timers_fire [OF f, of 1000] e show ?thesis unfolding o by simp
qed

text \<open>
  Observation: stopping uses deleted objects. The pool deletes the registered processors when it is stopped. A second \<open>Stop\<close>,
  such as the one of the destructor, calls \<open>stop\<close> of a deleted processor, and \<open>Stop\<close> of the millisecond manager does so the first time,
  because it stops the pool first.
\<close>

theorem stop_uses_deleted_processor:
  assumes "m_flag (tm_pool st)" "m_pOncePrecess st = Some (p0, b)" "(ty, p0) \<in> set (m_tasks (tm_pool st))"
  shows "Ms_Stop True st = Inl Undefined \<and> (\<forall>st'. TimerMgr_Stop st = Inr st' \<longrightarrow> TimerMgr_Stop st' = Inl Undefined)"
proof -
  have d: "ProcDel p0 \<in> set (tp_log (TP_Stop (tm_pool st)))" using assms(1,3) by (force simp: TP_Stop_def)
  then have "Ms_Stop True st = Inl Undefined" using assms(2) by (simp add: Ms_Stop_def Let_def stop_process_def)
  moreover have "TimerMgr_Stop st' = Inl Undefined" if "TimerMgr_Stop st = Inr st'" for st'
  proof -
    have "tm_pool st' = TP_Stop (tm_pool st)" "m_pOncePrecess st' = Some (p0, False)"
      using that assms(2) by (auto simp: TimerMgr_Stop_def Let_def stop_process_def delete_timers_def split: sum.splits if_splits option.splits)
    with d show ?thesis by (simp add: TimerMgr_Stop_def Let_def stop_process_def)
  qed
  ultimately show ?thesis by blast
qed

abbreviation started_mgr :: timermgr where
  "started_mgr \<equiv> snd (TimerMgr_Init 8 9 1 2 TimerMgrImpl_new)"

theorem stop_uses_deleted_processor_witness:
  "Ms_Stop True started_mgr = Inl Undefined \<and> (\<exists>st'. TimerMgr_Stop started_mgr = Inr st' \<and> TimerMgr_Stop st' = Inl Undefined)"
proof -
  have s: "tm_pool started_mgr = start_workers 8 9 1 2 (ThreadPoolImpl_new 2)" "m_pOncePrecess started_mgr = Some (8, True)"
    "m_pRepeatProcess started_mgr = Some (9, True)"
    by (simp_all add: TimerMgr_Init_def TimerMgrImpl_new_def)
  have w: "m_flag (tm_pool started_mgr)" "m_tasks (tm_pool started_mgr) = [(''0'', 8), (''1'', 9)]" "tp_log (tm_pool started_mgr) = []"
    unfolding s by (simp_all add: start_workers_def Let_def TP_Init_def Register_taskProcess_def submit_job_req_def ThreadPoolImpl_new_def
        less_list_code less_char_def)
  have p: "stop_process (m_pOncePrecess started_mgr) (tm_pool started_mgr) = Inr (Some (8, False))"
    "stop_process (m_pRepeatProcess started_mgr) (tm_pool started_mgr) = Inr (Some (9, False))"
    unfolding stop_process_def s(2,3) using w(3) by simp_all
  have "m_pOncePrecess (started_mgr\<lparr>m_bTimerFlag := False\<rparr>) = m_pOncePrecess started_mgr" "tm_pool (started_mgr\<lparr>m_bTimerFlag := False\<rparr>) = tm_pool started_mgr"
    "m_pRepeatProcess (started_mgr\<lparr>m_bTimerFlag := False\<rparr>) = m_pRepeatProcess started_mgr" by simp_all
  then obtain st' where "TimerMgr_Stop started_mgr = Inr st'" unfolding TimerMgr_Stop_def Let_def by (simp only: p sum.case)
  moreover have "(''0'', 8) \<in> set (m_tasks (tm_pool started_mgr))" using w(2) by simp
  ultimately show ?thesis using stop_uses_deleted_processor [OF w(1) s(2)] by blast
qed

end
