(* ===== verification/TimerRun.thy ===== *)
theory TimerRun
  imports TimerMod
begin

text \<open>
  Runs of the timer manager of \<open>Thread/TimerMgrImpl_Linux.cpp\<close>: any order of signals, turns of the timer thread and of the two workers, and calls of the program, as a
  list of events. A repeating timer of such a run is an alarm clock with two states.
\<close>

subsection \<open>Events\<close>

datatype tm_event = EvSignal | EvTick | EvRepeat | EvOnce | EvAdd int string abs_timer | EvDel string | EvModify string int int

text \<open>A turn of a thread that waits for its semaphore is \<open>None\<close>.\<close>

fun tm_step :: "tm_event \<Rightarrow> timermgr \<Rightarrow> timermgr option" where
  "tm_step EvSignal st = Some (TimerProc st)"
| "tm_step EvTick st = TimerThread st"
| "tm_step EvRepeat st = RepeatProcess_turn st"
| "tm_step EvOnce st = OnceProcess_turn st"
| "tm_step (EvAdd now str t) st = Some (snd (AddTimer now str (Some t) st))"
| "tm_step (EvDel str) st = Some (snd (DelTimer str st))"
| "tm_step (EvModify str len nInt) st = Some (snd (ModifyRepeatTimer str len nInt st))"

fun tm_exec :: "tm_event list \<Rightarrow> timermgr \<Rightarrow> timermgr option" where
  "tm_exec [] st = Some st"
| "tm_exec (ev # evs) st = (case tm_step ev st of None \<Rightarrow> None | Some st1 \<Rightarrow> tm_exec evs st1)"

text \<open>Events that leave the timer of the entry \<open>k\<close> alone: it is not deleted or given other times, and its identity is not used again.\<close>

fun spares :: "string \<Rightarrow> nat \<Rightarrow> tm_event \<Rightarrow> bool" where
  "spares k x (EvAdd now str t) = (at_id t \<noteq> x)"
| "spares k x (EvDel str) = (str \<noteq> k)"
| "spares k x (EvModify str len nInt) = (str \<noteq> k)"
| "spares k x _ = True"

subsection \<open>Alarm clocks\<close>

text \<open>
  The reference: an alarm clock waits for a number of ticks, and is then due until the worker calls it; it then waits again, for \<open>i\<close> ticks. The argument of \<open>Due\<close> is the
  number of ticks it waits for after the call.
\<close>

datatype alarm = Waiting nat | Due nat

fun alarm_step :: "nat \<Rightarrow> tm_event \<Rightarrow> alarm \<times> nat \<Rightarrow> alarm \<times> nat" where
  "alarm_step i EvTick (Waiting m, n) = (if m = 1 then Due i else Waiting (m - 1), n)"
| "alarm_step i EvRepeat (Due m, n) = (Waiting m, Suc n)"
| "alarm_step i _ s = s"

fun alarm_run :: "nat \<Rightarrow> tm_event list \<Rightarrow> alarm \<times> nat \<Rightarrow> alarm \<times> nat" where
  "alarm_run i [] s = s"
| "alarm_run i (ev # evs) s = alarm_run i evs (alarm_step i ev s)"

text \<open>After how many ticks a counter of 16 bits reaches a value.\<close>

definition ticks_left :: "nat \<Rightarrow> nat \<Rightarrow> nat" where
  "ticks_left c v = (if c < v then v - c else v + 65536 - c)"

definition alarm_of :: "nat \<Rightarrow> nat \<Rightarrow> abs_timer \<Rightarrow> alarm" where
  "alarm_of s i t =
     (if nFinish t = 0 then Waiting (ticks_left (nCount t) s)
      else if nFinish t = 1 then Waiting (ticks_left (nCount t) i) else Due (ticks_left (nCount t) i))"

text \<open>A timer with the start \<open>5 * s\<close> and the interval \<open>5 * i\<close> milliseconds; the contents of its counter and its state are those of its memory.\<close>

definition has_times :: "nat \<Rightarrow> nat \<Rightarrow> abs_timer \<Rightarrow> bool" where
  "has_times s i t =
     (nStart t = TIMERPRECISION * s \<and> nInterval t = TIMERPRECISION * i \<and> 0 < i \<and> s < 65536 \<and> i < 65536 \<and> nCount t < 65536)"

lemma ticks_left_next:
  assumes "c < 65536" "v < 65536"
  shows "(ticks_left c v = 1) = ((c + 1) mod 65536 = v)" "(c + 1) mod 65536 \<noteq> v \<Longrightarrow> ticks_left ((c + 1) mod 65536) v = ticks_left c v - 1"
  using assms by (cases "c = 65535"; auto simp: ticks_left_def)+

lemma ticks_left_0: "0 < v \<Longrightarrow> ticks_left 0 v = v"
  by (simp add: ticks_left_def)

lemma tick_alarm:
  assumes "has_times s i t"
  shows "has_times s i (tick_repeat t) \<and> (alarm_of s i (tick_repeat t), n) = alarm_step i EvTick (alarm_of s i t, n) \<and>
     (repeat_marked t \<or> alarm_of s i (tick_repeat t) = alarm_of s i t \<or> nFinish (tick_repeat t) \<le> 1)"
proof -
  let ?c = "(nCount t + 1) mod 65536"
  have b: "nCount t < 65536" "s < 65536" "i < 65536" "0 < i" "nStart t = 5 * s" "nInterval t = 5 * i" "?c < 65536"
    using assms by (simp_all add: has_times_def TIMERPRECISION_def)
  note s = ticks_left_next [OF b(1,2)] and i = ticks_left_next [OF b(1,3)]
  consider (first) "nFinish t = 0" | (again) "nFinish t = 1" | (due) "1 < nFinish t" by linarith
  then show ?thesis
  proof cases
    case first
    then show ?thesis using b s ticks_left_0 [OF b(4)]
      by (cases "?c = s") (simp_all add: tick_repeat_def Increment_def Let_def RestCount_def SetFinish_def alarm_of_def has_times_def repeat_marked_def TIMERPRECISION_def)
  next
    case again
    then show ?thesis using b i ticks_left_0 [OF b(4)]
      by (cases "?c = i") (simp_all add: tick_repeat_def Increment_def Let_def RestCount_def SetFinish_def alarm_of_def has_times_def repeat_marked_def TIMERPRECISION_def)
  next
    case due
    then show ?thesis using assms by (simp add: tick_repeat_def alarm_of_def)
  qed
qed

lemma deal_alarm:
  assumes "has_times s i t"
  shows "has_times s i (deal_repeat t) \<and> (alarm_of s i (deal_repeat t), n + (if IsTimeout t then 1 else 0)) = alarm_step i EvRepeat (alarm_of s i t, n)"
proof -
  consider (first) "nFinish t = 0" | (again) "nFinish t = 1" | (due) "1 < nFinish t" by linarith
  then show ?thesis using assms
    by cases (simp_all add: deal_repeat_def IsTimeout_def ResetState_def alarm_of_def has_times_def)
qed

subsection \<open>Every repeating timer is an alarm clock\<close>

text \<open>The entry \<open>k\<close> has the timer with the identity \<open>x\<close>, and nothing else has this identity.\<close>

definition only_entry :: "string \<Rightarrow> nat \<Rightarrow> timermgr \<Rightarrow> bool" where
  "only_entry k x st =
     (msorted (repeatSet st) \<and> (\<forall>p \<in> set (repeatSet st). (at_id (snd p) = x) = (fst p = k)) \<and> x \<notin> at_id ` set (onceLst st))"

definition ringing :: "alarm \<Rightarrow> bool" where
  "ringing a = (case a of Waiting _ \<Rightarrow> False | Due _ \<Rightarrow> True)"

lemma msorted_map [simp]: "msorted (map (\<lambda>(k, t). (k, f t)) m) = msorted m"
  by (simp add: msorted_def comp_def split_def)

lemma map_of_map_snd [simp]: "map_of (map (\<lambda>(k, t). (k, f t)) m) k = map_option f (map_of m k)"
  by (induction m) auto

lemma at_id_steps [simp]: "at_id (tick_repeat t) = at_id t" "at_id (deal_repeat t) = at_id t" "at_id (tick_once t) = at_id t"
  by (simp_all add: tick_repeat_def deal_repeat_def tick_once_def Increment_def Let_def RestCount_def SetFinish_def ResetState_def)

lemma count_called:
  fixes m :: "(string \<times> abs_timer) list"
  assumes "msorted m" "\<forall>p \<in> set m. (at_id (snd p) = x) = (fst p = k)" "map_of m k = Some t"
  shows "count_list (map (at_id \<circ> snd) (filter (\<lambda>(k, t). P t) m)) x = (if P t then 1 else 0)"
proof -
  have none: "count_list (map (at_id \<circ> snd) (filter (\<lambda>(k, t). P t) m')) x = 0" if "\<forall>p \<in> set m'. at_id (snd p) \<noteq> x" for m' :: "(string \<times> abs_timer) list"
    using that by (induction m') auto
  show ?thesis
    using assms
  proof (induction m)
    case (Cons p m)
    show ?case
    proof (cases "fst p = k")
      case True
      have "\<forall>q \<in> set m. fst q \<noteq> k" using Cons.prems(1) True by (auto simp: msorted_def)
      then have "\<forall>q \<in> set m. at_id (snd q) \<noteq> x" using Cons.prems(2) by auto
      from none [OF this] True Cons.prems(2,3) show ?thesis by (cases p) (auto simp: comp_def)
    next
      case False
      have "msorted m" using Cons.prems(1) by (simp add: msorted_def)
      with Cons.IH Cons.prems(2,3) False show ?thesis by (cases p) auto
    qed
  qed simp
qed

text \<open>What one event does to the entry: its alarm clock makes the same step, and when that is due the worker has been woken.\<close>

definition rings :: "string \<Rightarrow> nat \<Rightarrow> nat \<Rightarrow> nat \<Rightarrow> alarm \<times> nat \<Rightarrow> timermgr \<Rightarrow> bool" where
  "rings k x s i a st =
     (only_entry k x st \<and> (\<exists>t. map_of (repeatSet st) k = Some t \<and> has_times s i t \<and> (alarm_of s i t, count_list (tm_fired st) x) = a))"

lemma rings_tick:
  assumes "rings k x s i a st"
  shows "rings k x s i (alarm_step i EvTick a) (TimerHandle st) \<and>
    (ringing (fst (alarm_step i EvTick a)) \<longrightarrow> ringing (fst a) \<and> m_SemRepeat st \<le> m_SemRepeat (TimerHandle st) \<or> 0 < m_SemRepeat (TimerHandle st))"
proof -
  obtain t where t: "map_of (repeatSet st) k = Some t" "has_times s i t" "(alarm_of s i t, count_list (tm_fired st) x) = a" and o: "only_entry k x st"
    using assms by (auto simp: rings_def)
  from tick_alarm [OF t(2), of "count_list (tm_fired st) x"] have n: "has_times s i (tick_repeat t)"
    "(alarm_of s i (tick_repeat t), count_list (tm_fired st) x) = alarm_step i EvTick a"
    "repeat_marked t \<or> alarm_of s i (tick_repeat t) = alarm_of s i t \<or> nFinish (tick_repeat t) \<le> 1"
    by (simp_all add: t(3))
  have "only_entry k x (TimerHandle st)" using o by (auto simp: only_entry_def TimerHandle_def image_image)
  moreover have "map_of (repeatSet (TimerHandle st)) k = Some (tick_repeat t)" "tm_fired (TimerHandle st) = tm_fired st"
    by (simp_all add: TimerHandle_def t(1))
  ultimately have "rings k x s i (alarm_step i EvTick a) (TimerHandle st)" using n(1,2) by (auto simp: rings_def)
  moreover have "0 < m_SemRepeat (TimerHandle st)" if "repeat_marked t"
    using that map_of_SomeD [OF t(1)] by (auto simp: TimerHandle_def)
  moreover have "ringing (fst a)" if "ringing (fst (alarm_step i EvTick a))" "alarm_of s i (tick_repeat t) = alarm_of s i t"
    using that n(2) t(3) by (metis fst_conv)
  moreover have "\<not> ringing (fst (alarm_step i EvTick a))" if "nFinish (tick_repeat t) \<le> 1"
    using that n(2) [symmetric] by (auto simp: ringing_def alarm_of_def)
  moreover have "m_SemRepeat st \<le> m_SemRepeat (TimerHandle st)" by (simp add: TimerHandle_def)
  ultimately show ?thesis using n(3) by auto
qed

lemma rings_repeat:
  assumes "rings k x s i a st"
  shows "rings k x s i (alarm_step i EvRepeat a) (DealRepeatHandle st)"
proof -
  obtain t where t: "map_of (repeatSet st) k = Some t" "has_times s i t" "(alarm_of s i t, count_list (tm_fired st) x) = a" and o: "only_entry k x st"
    using assms by (auto simp: rings_def)
  have c: "count_list (map (at_id \<circ> snd) (filter (\<lambda>(k, t). IsTimeout t) (repeatSet st))) x = (if IsTimeout t then 1 else 0)"
    by (rule count_called [OF _ _ t(1)]) (use o in \<open>simp_all add: only_entry_def\<close>)
  then have f: "count_list (tm_fired (DealRepeatHandle st)) x = count_list (tm_fired st) x + (if IsTimeout t then 1 else 0)"
    by (simp add: DealRepeatHandle_def)
  have "only_entry k x (DealRepeatHandle st)" using o by (auto simp: only_entry_def DealRepeatHandle_def)
  moreover have "map_of (repeatSet (DealRepeatHandle st)) k = Some (deal_repeat t)" by (simp add: DealRepeatHandle_def t(1))
  ultimately show ?thesis using deal_alarm [OF t(2), of "count_list (tm_fired st) x"] f by (auto simp: rings_def t(3))
qed

lemma rings_calls:
  assumes "rings k x s i a st" "spares k x ev" "ev \<notin> {EvTick, EvRepeat}" "tm_step ev st = Some st1"
  shows "rings k x s i a st1 \<and> m_SemRepeat st1 = m_SemRepeat st"
proof -
  obtain t where t: "map_of (repeatSet st) k = Some t" "has_times s i t" "(alarm_of s i t, count_list (tm_fired st) x) = a"
    and o: "msorted (repeatSet st)" "\<forall>p \<in> set (repeatSet st). (at_id (snd p) = x) = (fst p = k)" "x \<notin> at_id ` set (onceLst st)"
    using assms(1) by (auto simp: rings_def only_entry_def)
  have id: "at_id t = x" using map_of_SomeD [OF t(1)] o(2) by force
  have other: "rings k x s i a st1" if "msorted (repeatSet st1)" "set (repeatSet st1) \<subseteq> insert (k', t') (set (repeatSet st))" "k' \<noteq> k" "at_id t' \<noteq> x"
    "map_of (repeatSet st1) k = Some t" "x \<notin> at_id ` set (onceLst st1)" "count_list (tm_fired st1) x = count_list (tm_fired st) x" for st1 k' t'
    using that o t by (fastforce simp: rings_def only_entry_def)
  show ?thesis
  proof (cases ev)
    case EvSignal
    then show ?thesis using assms t o by (auto simp: TimerProc_def rings_def only_entry_def)
  next
    case EvOnce
    then obtain n where e: "st1 = DealOnceHandle (st\<lparr>m_SemRepeat := m_SemRepeat st, m_SemOnce := n\<rparr>)" using assms(4) by (auto simp: OnceProcess_turn_def split: if_splits)
    have "count_list (map at_id (filter IsTimeout (onceLst st))) x = 0" using o(3) by (simp add: count_list_0_iff) blast
    then show ?thesis using t o unfolding e DealOnce_result by (auto simp: rings_def only_entry_def)
  next
    case (EvAdd now str u)
    then have u: "at_id (SetStartTime now u) \<noteq> x" using assms(2) by (simp add: SetStartTime_def)
    show ?thesis
    proof (cases "nInterval (SetStartTime now u) \<noteq> 0 \<and> str \<noteq> k")
      case True
      then have e: "st1 = st\<lparr>repeatSet := minsert str (SetStartTime now u) (repeatSet st)\<rparr>" using assms(4) EvAdd by (simp add: AddTimer_def Let_def)
      have "rings k x s i a st1"
        by (rule other [of _ str "SetStartTime now u"]) (use True u t o set_minsert [of str "SetStartTime now u" "repeatSet st"] in \<open>auto simp: e map_of_minsert\<close>)
      then show ?thesis by (simp add: e)
    next
      case False
      have "k \<in> fst ` set (repeatSet st)" using map_of_SomeD [OF t(1)] by force
      then have k: "minsert k (SetStartTime now u) (repeatSet st) = repeatSet st" by (rule minsert_old [OF o(1)])
      from False k have "st1 = st \<or> st1 = st\<lparr>onceLst := onceLst st @ [SetStartTime now u]\<rparr>" using assms(4) EvAdd by (auto simp: AddTimer_def Let_def)
      then show ?thesis using t o u assms(1) by (auto simp: rings_def only_entry_def)
    qed
  next
    case (EvDel str)
    have d: "rings k x s i a (st\<lparr>repeatSet := merase str (repeatSet st), tm_deleted := y\<rparr>)" for y
      using o t assms(2) EvDel by (auto simp: rings_def only_entry_def map_of_merase) (auto simp: merase_def)
    then show ?thesis using assms EvDel by (auto simp: DelTimer_def split: option.splits)
  next
    case (EvModify str len nInt)
    show ?thesis
    proof (cases "map_of (repeatSet st) str")
      case (Some u)
      then have e: "st1 = st\<lparr>repeatSet := massign str (SetTimer len nInt u) (repeatSet st)\<rparr>" using assms(4) EvModify by (simp add: ModifyRepeatTimer_def)
      have "str \<noteq> k" using assms(2) EvModify by simp
      moreover have "at_id (SetTimer len nInt u) \<noteq> x" using map_of_SomeD [OF Some] o(2) \<open>str \<noteq> k\<close> by (fastforce simp: SetTimer_def)
      ultimately have "rings k x s i a st1"
        using t o set_massign [of str "SetTimer len nInt u" "repeatSet st"] by (intro other [of _ str "SetTimer len nInt u"]) (simp_all add: e map_of_massign)
      then show ?thesis by (simp add: e)
    qed (use assms EvModify in \<open>simp add: ModifyRepeatTimer_def\<close>)
  qed (use assms(3) in auto)
qed

lemma alarm_step_calls: "ev \<notin> {EvTick, EvRepeat} \<Longrightarrow> alarm_step i ev a = a"
  by (cases a; cases "fst a"; cases ev) auto

lemma rings_net [simp]: "rings k x s i a (st\<lparr>m_timeSync := n\<rparr>) = rings k x s i a st" "rings k x s i a (st\<lparr>m_SemRepeat := n\<rparr>) = rings k x s i a st"
  by (simp_all add: rings_def only_entry_def)

lemma rings_step:
  assumes "rings k x s i a st" "spares k x ev" "tm_step ev st = Some st1"
  shows "rings k x s i (alarm_step i ev a) st1 \<and> ((ringing (fst a) \<longrightarrow> 0 < m_SemRepeat st) \<longrightarrow> ringing (fst (alarm_step i ev a)) \<longrightarrow> 0 < m_SemRepeat st1)"
proof -
  consider (tick) "ev = EvTick" | (rep) "ev = EvRepeat" | (call) "ev \<notin> {EvTick, EvRepeat}" by blast
  then show ?thesis
  proof cases
    case tick
    then obtain n where "st1 = TimerHandle (st\<lparr>m_timeSync := n\<rparr>)" using assms(3) by (auto simp: TimerThread_def split: if_splits)
    then show ?thesis using rings_tick [of k x s i a "st\<lparr>m_timeSync := n\<rparr>"] assms(1) tick by auto
  next
    case rep
    then obtain n where "st1 = DealRepeatHandle (st\<lparr>m_SemRepeat := n\<rparr>)" using assms(3) by (auto simp: RepeatProcess_turn_def split: if_splits)
    moreover have "\<not> ringing (fst (alarm_step i EvRepeat a))" by (cases a; cases "fst a") (auto simp: ringing_def)
    ultimately show ?thesis using rings_repeat [of k x s i a "st\<lparr>m_SemRepeat := n\<rparr>"] assms(1) rep by auto
  next
    case call
    from rings_calls [OF assms(1,2) call assms(3)] alarm_step_calls [OF call] show ?thesis by simp
  qed
qed

lemma rings_exec:
  "rings k x s i a st \<Longrightarrow> list_all (spares k x) evs \<Longrightarrow> tm_exec evs st = Some st' \<Longrightarrow>
   rings k x s i (alarm_run i evs a) st' \<and> ((ringing (fst a) \<longrightarrow> 0 < m_SemRepeat st) \<longrightarrow> ringing (fst (alarm_run i evs a)) \<longrightarrow> 0 < m_SemRepeat st')"
proof (induction evs arbitrary: a st)
  case (Cons ev evs)
  from Cons.prems(3) obtain st1 where s1: "tm_step ev st = Some st1" "tm_exec evs st1 = Some st'" by (auto split: option.splits)
  from rings_step [OF Cons.prems(1) _ s1(1)] Cons.prems(2) Cons.IH [of "alarm_step i ev a" st1] s1(2) show ?case by simp
qed simp

subsection \<open>What alarm clocks do\<close>

text \<open>The numbers of ticks and the schedule in which the worker takes its turn after every tick as soon as it is woken.\<close>

definition ticks :: "tm_event list \<Rightarrow> nat" where
  "ticks evs = length (filter (\<lambda>ev. ev = EvTick) evs)"

definition since :: "nat \<Rightarrow> alarm \<Rightarrow> nat" where
  "since i a = (case a of Waiting m \<Rightarrow> i - m | Due m \<Rightarrow> i)"

text \<open>Once a clock waits for at most its interval, a call costs \<open>i\<close> ticks.\<close>

lemma alarm_step_since:
  assumes "0 < i" "case fst a of Waiting m \<Rightarrow> 0 < m \<and> m \<le> i | Due m \<Rightarrow> m = i" "alarm_step i ev a = b"
  shows "(case fst b of Waiting m \<Rightarrow> 0 < m \<and> m \<le> i | Due m \<Rightarrow> m = i) \<and> snd b * i + since i (fst b) \<le> snd a * i + since i (fst a) + ticks [ev]"
  using assms by (cases a; cases "fst a"; cases ev) (auto simp: since_def ticks_def)

lemma alarm_run_since:
  "0 < i \<Longrightarrow> (case fst a of Waiting m \<Rightarrow> 0 < m \<and> m \<le> i | Due m \<Rightarrow> m = i) \<Longrightarrow>
   snd (alarm_run i evs a) * i \<le> snd a * i + since i (fst a) + ticks evs"
proof (induction evs arbitrary: a)
  case (Cons ev evs)
  note s = alarm_step_since [OF Cons.prems refl, of ev]
  have "ticks (ev # evs) = ticks [ev] + ticks evs" by (simp add: ticks_def)
  moreover have "alarm_run i (ev # evs) a = alarm_run i evs (alarm_step i ev a)" by simp
  moreover note order_trans [OF Cons.IH [OF Cons.prems(1) conjunct1 [OF s]] add_right_mono [OF conjunct2 [OF s]]]
  ultimately show ?case by (simp only: add.assoc)
qed simp

text \<open>
  Observation. A clock that has been called calls at most once in \<open>i\<close> further ticks, in every schedule: of \<open>n\<close> ticks at most every \<open>i\<close>-th makes it due.
\<close>

lemma alarm_calls_apart: "0 < i \<Longrightarrow> snd (alarm_run i evs (Waiting i, n)) \<le> n + ticks evs div i"
proof -
  assume i: "0 < i"
  from alarm_run_since [OF i, of "(Waiting i, n)" evs] i have "snd (alarm_run i evs (Waiting i, n)) * i \<le> n * i + ticks evs" by (simp add: since_def)
  then have "snd (alarm_run i evs (Waiting i, n)) \<le> (n * i + ticks evs) div i" using i by (subst less_eq_div_iff_mult_less_eq) simp_all
  with i show ?thesis by simp
qed

text \<open>In a schedule that lets the worker take its turn as soon as the clock is due the calls are at the first time and then at every \<open>i\<close>-th tick.\<close>

fun prompt :: "nat \<Rightarrow> nat \<Rightarrow> nat \<Rightarrow> tm_event list" where
  "prompt i d 0 = []"
| "prompt i d (Suc n) = (if d = 1 then EvTick # EvRepeat # prompt i i n else EvTick # prompt i (d - 1) n)"

lemma alarm_prompt:
  "0 < i \<Longrightarrow> 0 < d \<Longrightarrow> ticks (prompt i d n) = n \<and> snd (alarm_run i (prompt i d n) (Waiting d, c)) = c + (if n < d then 0 else (n - d) div i + 1)"
proof (induction n arbitrary: d c)
  case (Suc n)
  show ?case
  proof (cases "d = 1")
    case True
    have "n div i = (n - i) div i + 1" if "i \<le> n" using that Suc.prems(1) by (simp add: le_div_geq)
    with Suc.IH [of i "Suc c"] Suc.prems True show ?thesis by (auto simp: ticks_def)
  next
    case False
    with Suc.IH [of "d - 1" c] Suc.prems show ?thesis by (auto simp: ticks_def Suc_diff_le)
  qed
qed (simp add: ticks_def)

subsection \<open>Properties\<close>

text \<open>
  Property C24: repeating timers are alarm clocks. Take a repeating timer whose times are multiples of the precision, with any contents of the counter and the state that
  its constructor does not set, and any sequence of signals, turns of the timer thread and of both workers, and calls of the program that add timers and delete or change
  others. Then the timer is still in its entry, and its calls are those of an alarm clock: it waits for the ticks that its counter needs to reach the start or, if the state
  happens to be one, the interval, it is due from then on until the next turn of the worker, which calls it once, and it then waits for \<open>i\<close> ticks again, where ticks while it
  is due do not count. Unless the state happens to be two or more, a timer that is due is never left waiting for the semaphore: the worker has been woken.
\<close>

theorem timers_are_alarm_clocks:
  assumes "tm_exec evs st = Some st'" "only_entry k x st" "map_of (repeatSet st) k = Some t" "has_times s i t" "list_all (spares k x) evs"
  shows "\<exists>t'. map_of (repeatSet st') k = Some t' \<and> at_id t' = x \<and>
      (alarm_of s i t', count_list (tm_fired st') x) = alarm_run i evs (alarm_of s i t, count_list (tm_fired st) x) \<and>
      (nFinish t \<le> 1 \<longrightarrow> ringing (alarm_of s i t') \<longrightarrow> RepeatProcess_turn st' \<noteq> None)"
proof -
  have "rings k x s i (alarm_of s i t, count_list (tm_fired st) x) st" using assms(2-4) by (simp add: rings_def)
  from rings_exec [OF this assms(5,1)] obtain t' where t': "only_entry k x st'" "map_of (repeatSet st') k = Some t'"
    "(alarm_of s i t', count_list (tm_fired st') x) = alarm_run i evs (alarm_of s i t, count_list (tm_fired st) x)"
    "(ringing (alarm_of s i t) \<longrightarrow> 0 < m_SemRepeat st) \<longrightarrow> ringing (alarm_of s i t') \<longrightarrow> 0 < m_SemRepeat st'"
    by (auto simp: rings_def) (metis fst_conv)+
  moreover have "at_id t' = x" using t'(1) map_of_SomeD [OF t'(2)] by (force simp: only_entry_def)
  moreover have "nFinish t \<le> 1 \<longrightarrow> \<not> ringing (alarm_of s i t)" by (auto simp: ringing_def alarm_of_def)
  ultimately show ?thesis by (auto simp: RepeatProcess_turn_def)
qed

definition ex_mgr :: timermgr where
  "ex_mgr = TimerMgrImpl_new\<lparr>repeatSet := [(''hb'', Timer_new 4 10 15 65535 0)], m_timeSync := 6, m_SemRepeat := 1\<rparr>"

lemma tick_enabled:
  "m_timeSync (TimerHandle st) = m_timeSync st" "m_SemRepeat st \<noteq> 0 \<Longrightarrow> m_SemRepeat (TimerHandle st) \<noteq> 0"
  "m_timeSync (snd (AddTimer now str t st)) = m_timeSync st" "m_SemRepeat (snd (AddTimer now str t st)) = m_SemRepeat st"
  "m_timeSync (DealRepeatHandle st) = m_timeSync st"
  by (simp_all add: TimerHandle_def AddTimer_def DealRepeatHandle_def Let_def split: option.split)

lemma timers_are_alarm_clocks_witness:
  "\<exists>st' t'. tm_exec [EvTick, EvTick, EvAdd 0 ''x'' (Timer_new 5 5 5 0 0), EvTick, EvTick, EvRepeat, EvTick] ex_mgr = Some st' \<and>
     map_of (repeatSet st') ''hb'' = Some t' \<and> alarm_of 2 3 t' = Waiting 2 \<and> count_list (tm_fired st') 4 = 1"
proof -
  let ?t = "Timer_new 4 10 15 65535 0"
  let ?evs = "[EvTick, EvTick, EvAdd 0 ''x'' (Timer_new 5 5 5 0 0), EvTick, EvTick, EvRepeat, EvTick]"
  have t: "at_id ?t = 4" "nStart ?t = 10" "nInterval ?t = 15" "nCount ?t = 65535" "nFinish ?t = 0" "at_id (Timer_new 5 5 5 0 0) = 5"
    by (simp_all add: Timer_new_def SetTimer_def to_bits_def)
  have o: "only_entry ''hb'' 4 ex_mgr" "map_of (repeatSet ex_mgr) ''hb'' = Some ?t" "has_times 2 3 ?t" "list_all (spares ''hb'' 4) ?evs"
    by (simp_all add: only_entry_def ex_mgr_def msorted_def has_times_def TIMERPRECISION_def t TimerMgrImpl_new_def)
  have "m_timeSync ex_mgr = 6" "m_SemRepeat ex_mgr \<noteq> 0" by (simp_all add: ex_mgr_def)
  then have "tm_exec ?evs ex_mgr \<noteq> None" by (simp add: TimerThread_def RepeatProcess_turn_def tick_enabled)
  then obtain st' where st': "tm_exec ?evs ex_mgr = Some st'" by blast
  have f: "tm_fired ex_mgr = []" by (simp add: ex_mgr_def TimerMgrImpl_new_def)
  have "alarm_run 3 ?evs (alarm_of 2 3 ?t, count_list (tm_fired ex_mgr) 4) = (Waiting 2, 1)"
    by (simp add: f t alarm_of_def ticks_left_def)
  with timers_are_alarm_clocks [OF st' o] st' show ?thesis by (metis prod.inject)
qed

text \<open>
  Observation. If the state happens to be two or more, the timer is due from the beginning, but no tick wakes the worker for it: alone in a manager it is never called.
\<close>

lemma junk_state_never_called:
  "2 \<le> nFinish t \<Longrightarrow> repeatSet st = [(k, t)] \<Longrightarrow> m_SemRepeat st = 0 \<Longrightarrow> RepeatProcess_turn ((TimerHandle ^^ n) st) = None"
proof -
  assume a: "2 \<le> nFinish t" "repeatSet st = [(k, t)]" "m_SemRepeat st = 0"
  then have "repeatSet ((TimerHandle ^^ n) st) = [(k, t)] \<and> m_SemRepeat ((TimerHandle ^^ n) st) = 0"
    by (induction n) (simp_all add: TimerHandle_def tick_repeat_def repeat_marked_def)
  then show ?thesis by (simp add: RepeatProcess_turn_def)
qed

end
