(* ===== verification/Balance.thy ===== *)
theory Balance
  imports Session TimerMod
begin

text \<open>
  \<open>Net/BalanceHandle_Linux.cpp\<close>: the clients of a server, shared out to worker threads by ranges of the client
  list. Iterators into the list are positions; every change of the list recomputes the ranges. The lock \<open>m_rwLock\<close> is taken
  and released within each operation and only delimits it, except in \<open>LoseHeartBitThread\<close>, which releases it without holding it;
  the mutex of \<open>m_heartCtrl\<close> is part of the state. The callbacks of the session
  interface are recorded; the session that \<open>GetNetSocketSession\<close> delivers is an argument. The flags that
  the constructor leaves uninitialised are arguments of \<open>BalanceHandle_new\<close>. An operation that waits forever is \<open>None\<close>.
\<close>

record SockHandle =
  m_sock :: int
  m_ip :: string
  m_conntype :: int
  m_port :: int

record client =
  c_hSock :: SockHandle
  c_sess :: session

datatype bal_event = CloseSock int | DestroySession SockHandle | ClientEnter SockHandle | ClientExit SockHandle

record balance =
  m_WorkorFlag :: bool
  m_bStart :: bool
  m_HeartBitFlag :: bool
  m_pBase :: bool
  m_clientInfos :: "client list"
  m_itrs :: "(nat \<times> nat) list"
  m_sem :: "nat list"
  m_lostHeartbit :: "SockHandle list"
  m_heartLocked :: bool
  m_timerMgr :: timermgr
  bal_log :: "bal_event list"

definition THREAD_COUNT :: nat where
  "THREAD_COUNT = 1"

definition HEARTBIT_INTERVAL :: int where
  "HEARTBIT_INTERVAL = 30"

text \<open>The constructor with its heartbeat timer \<open>hid\<close>; \<open>jc\<close> and \<open>jf\<close> are the uninitialised fields of the timer.\<close>

definition BalanceHandle_new :: "bool \<Rightarrow> bool \<Rightarrow> bool \<Rightarrow> int \<Rightarrow> nat \<Rightarrow> nat \<Rightarrow> nat \<Rightarrow> balance" where
  "BalanceHandle_new jw js jh now hid jc jf =
     (let mgr = snd (TimerMgr_Init 0 1 0 1 TimerMgrImpl_new);
          mgr' = snd (AddTimer now ''0'' (Some (Timer_new hid 2 HEARTBIT_INTERVAL jc jf)) mgr)
      in \<lparr>m_WorkorFlag = jw, m_bStart = js, m_HeartBitFlag = jh, m_pBase = False, m_clientInfos = [],
          m_itrs = replicate THREAD_COUNT (0, 0), m_sem = replicate THREAD_COUNT 0, m_lostHeartbit = [], m_heartLocked = False,
          m_timerMgr = mgr', bal_log = []\<rparr>)"

definition Bal_Start :: "bool \<Rightarrow> balance \<Rightarrow> bool \<times> balance" where
  "Bal_Start base st = (if m_bStart st then (False, st) else (True, st\<lparr>m_bStart := True, m_pBase := base\<rparr>))"

definition Bal_Stop :: "balance \<Rightarrow> bool \<times> balance" where
  "Bal_Stop st =
     (if \<not> m_bStart st then (False, st)
      else (True, st\<lparr>m_bStart := False, m_HeartBitFlag := False, m_WorkorFlag := False, m_sem := map Suc (m_sem st),
              bal_log := bal_log st @ concat (map (\<lambda>c. [CloseSock (m_sock (c_hSock c)), DestroySession (c_hSock c)]) (m_clientInfos st)),
              m_clientInfos := []\<rparr>))"

text \<open>\<open>InitIterator\<close>: turn \<open>i\<close> of the loop with the running iterator \<open>it\<close>.\<close>

fun init_loop :: "nat \<Rightarrow> nat \<Rightarrow> nat \<Rightarrow> nat \<Rightarrow> nat \<Rightarrow> nat \<Rightarrow> (nat \<times> nat) list" where
  "init_loop 0 i it count pos n = []"
| "init_loop (Suc r) i it count pos n =
     (let istart = (if i = 0 then 0 else it); it' = it + pos; iend = (if count - 1 = i then n else it')
      in (istart, iend) # init_loop r (Suc i) it' count pos n)"

definition ranges :: "nat \<Rightarrow> nat \<Rightarrow> (nat \<times> nat) list" where
  "ranges count n = init_loop count 0 0 count (n div count) n"

definition InitIterator :: "nat \<Rightarrow> balance \<Rightarrow> balance" where
  "InitIterator count st = st\<lparr>m_itrs := ranges count (length (m_clientInfos st))\<rparr>"

definition post_sems :: "balance \<Rightarrow> balance" where
  "post_sems st = st\<lparr>m_sem := map (\<lambda>((a, b), s). if a \<noteq> b then s + 1 else s) (zip (m_itrs st) (m_sem st))\<rparr>"

text \<open>\<open>SessionCampare\<close> looks at the socket only.\<close>

definition same_sock :: "SockHandle \<Rightarrow> client \<Rightarrow> bool" where
  "same_sock h c \<longleftrightarrow> m_sock (c_hSock c) = m_sock h"

fun upd_client :: "SockHandle \<Rightarrow> (session \<Rightarrow> session) \<Rightarrow> client list \<Rightarrow> client list" where
  "upd_client h f [] = []"
| "upd_client h f (c # cs) = (if same_sock h c then c\<lparr>c_sess := f (c_sess c)\<rparr> # cs else c # upd_client h f cs)"

fun drop_client :: "SockHandle \<Rightarrow> client list \<Rightarrow> client list" where
  "drop_client h [] = []"
| "drop_client h (c # cs) = (if same_sock h c then cs else c # drop_client h cs)"

definition RemoveClient :: "SockHandle \<Rightarrow> balance \<Rightarrow> balance" where
  "RemoveClient h st =
     (if \<not> m_bStart st then st
      else
        let st1 = st\<lparr>bal_log := bal_log st @ [CloseSock (m_sock h)]\<rparr>;
            st2 = (case List.find (same_sock h) (m_clientInfos st1) of
                     None \<Rightarrow> st1
                   | Some c \<Rightarrow> post_sems (InitIterator THREAD_COUNT (st1\<lparr>m_clientInfos := drop_client h (m_clientInfos st1),
                                 bal_log := bal_log st1 @ [DestroySession (c_hSock c)]\<rparr>)))
        in st2\<lparr>bal_log := bal_log st2 @ [ClientExit h]\<rparr>)"

definition KickClient :: "SockHandle \<Rightarrow> balance \<Rightarrow> balance" where
  "KickClient h st =
     (if \<not> m_bStart st then st
      else
        let st1 = st\<lparr>bal_log := bal_log st @ [CloseSock (m_sock h)]\<rparr>;
            st2 = (case List.find (same_sock h) (m_clientInfos st1) of
                     None \<Rightarrow> st1
                   | Some c \<Rightarrow> post_sems (InitIterator THREAD_COUNT (st1\<lparr>m_clientInfos := drop_client h (m_clientInfos st1),
                                 bal_log := bal_log st1 @ [DestroySession (c_hSock c)]\<rparr>)))
        in st2\<lparr>bal_log := bal_log st2 @ [ClientExit h]\<rparr>)"

definition AppendNewClient :: "int \<Rightarrow> addr \<Rightarrow> addr \<Rightarrow> nat \<Rightarrow> session option \<Rightarrow> SockHandle \<Rightarrow> balance \<Rightarrow> xerror + balance" where
  "AppendNewClient now rbase sbase nd pSession h st =
     (if \<not> m_bStart st then Inr st
      else case pSession of
        None \<Rightarrow> Inl (Throw ''can't new Client where connect'')
      | Some ss0 \<Rightarrow>
          (let ss = SocketSession_Init 0 (m_pBase st) now rbase sbase ss0;
               st1 = post_sems (InitIterator THREAD_COUNT (st\<lparr>m_clientInfos := m_clientInfos st @ [\<lparr>c_hSock = h, c_sess = ss\<rparr>]\<rparr>));
               st2 = st1\<lparr>bal_log := bal_log st1 @ [ClientEnter h]\<rparr>
           in case Session_PostRecv 0 None nd ss of
                Inl e \<Rightarrow> Inl e
              | Inr ss' \<Rightarrow> Inr (st2\<lparr>m_clientInfos := m_clientInfos st @ [\<lparr>c_hSock = h, c_sess = ss'\<rparr>]\<rparr>)))"

definition RecvClientData :: "SockHandle \<Rightarrow> addr \<Rightarrow> nat \<Rightarrow> int \<Rightarrow> nat option \<Rightarrow> nat \<Rightarrow> balance \<Rightarrow> xerror + balance" where
  "RecvClientData h buf len nIndex prev node st =
     (if \<not> m_bStart st then Inr st
      else case List.find (same_sock h) (m_clientInfos st) of
        None \<Rightarrow> Inr st
      | Some c \<Rightarrow>
          (case DispatchData buf len nIndex prev node (c_sess c) of
             Inl e \<Rightarrow> Inl e
           | Inr ss \<Rightarrow> Inr (st\<lparr>m_clientInfos := upd_client h (\<lambda>_. ss) (m_clientInfos st)\<rparr>)))"

definition ActivateWrite :: "SockHandle \<Rightarrow> nat \<Rightarrow> addr \<Rightarrow> nat \<Rightarrow> nat \<Rightarrow> nat \<Rightarrow> balance \<Rightarrow> balance" where
  "ActivateWrite h index buf len node nd st =
     (if \<not> m_bStart st then st
      else st\<lparr>m_clientInfos := upd_client h (NoticeComplateSend index buf len node nd) (m_clientInfos st)\<rparr>)"

definition Bal_RecvNetPackage :: "SockHandle \<Rightarrow> balance \<Rightarrow> int \<times> NetPackage option \<times> balance" where
  "Bal_RecvNetPackage h st =
     (if \<not> m_bStart st then (-1, None, st)
      else case List.find (same_sock h) (m_clientInfos st) of
        None \<Rightarrow> (-1, None, st)
      | Some c \<Rightarrow>
          (case Session_RecvNetPackage (c_sess c) of
             (ret, p, ss) \<Rightarrow> (ret, p, st\<lparr>m_clientInfos := upd_client h (\<lambda>_. ss) (m_clientInfos st)\<rparr>)))"

definition Bal_SendNetPackage :: "SockHandle \<Rightarrow> NetPackage \<Rightarrow> balance \<Rightarrow> int \<times> balance" where
  "Bal_SendNetPackage h p st =
     (if \<not> m_bStart st then (-1, st)
      else case List.find (same_sock h) (m_clientInfos st) of
        None \<Rightarrow> (-1, st)
      | Some c \<Rightarrow>
          (case Session_SendNetPackage p (c_sess c) of
             (ret, ss) \<Rightarrow> (ret, st\<lparr>m_clientInfos := upd_client h (\<lambda>_. ss) (m_clientInfos st)\<rparr>)))"

text \<open>\<open>Alloc\<close> and \<open>Free\<close> are functions of the session type, parameters here.\<close>

definition Bal_Alloc :: "(session \<Rightarrow> nat \<Rightarrow> addr \<times> session) \<Rightarrow> SockHandle \<Rightarrow> nat \<Rightarrow> balance \<Rightarrow> addr \<times> balance" where
  "Bal_Alloc al h len st =
     (if \<not> m_bStart st then (0, st)
      else case List.find (same_sock h) (m_clientInfos st) of
        None \<Rightarrow> (0, st)
      | Some c \<Rightarrow> (case al (c_sess c) len of (p, ss) \<Rightarrow> (p, st\<lparr>m_clientInfos := upd_client h (\<lambda>_. ss) (m_clientInfos st)\<rparr>)))"

definition Bal_Free :: "(session \<Rightarrow> addr \<Rightarrow> session) \<Rightarrow> SockHandle \<Rightarrow> addr \<Rightarrow> balance \<Rightarrow> balance" where
  "Bal_Free fr h p st =
     (if \<not> m_bStart st then st
      else st\<lparr>m_clientInfos := upd_client h (\<lambda>ss. fr ss p) (m_clientInfos st)\<rparr>)"

subsection \<open>The worker threads\<close>

record work_env =
  we_hooks :: hooks
  we_now :: int
  we_node :: nat
  we_fuel :: nat
  we_enc :: enc

definition deal_client :: "work_env \<Rightarrow> client \<Rightarrow> (xerror + client) option" where
  "deal_client e c =
     (case ParseData (we_hooks e) (we_now e) (we_node e) (c_sess c) of
        Inl x \<Rightarrow> Some (Inl x)
      | Inr ss \<Rightarrow>
          (case Session_PostSend (we_fuel e) (we_enc e) (we_node e) ss of
             None \<Rightarrow> None
           | Some (Inl x) \<Rightarrow> Some (Inl x)
           | Some (Inr ss') \<Rightarrow> Some (Inr (c\<lparr>c_sess := ss'\<rparr>))))"

fun deal_clients :: "work_env \<Rightarrow> client list \<Rightarrow> (xerror + client list) option" where
  "deal_clients e [] = Some (Inr [])"
| "deal_clients e (c # cs) =
     (case deal_client e c of
        None \<Rightarrow> None
      | Some (Inl x) \<Rightarrow> Some (Inl x)
      | Some (Inr c') \<Rightarrow>
          (case deal_clients e cs of
             None \<Rightarrow> None
           | Some (Inl x) \<Rightarrow> Some (Inl x)
           | Some (Inr cs') \<Rightarrow> Some (Inr (c' # cs'))))"

definition DealData :: "work_env \<Rightarrow> nat \<times> nat \<Rightarrow> balance \<Rightarrow> (xerror + balance) option" where
  "DealData e r st =
     (let cs = m_clientInfos st; a = fst r; b = snd r
      in case deal_clients e (drop a (take b cs)) of
           None \<Rightarrow> None
         | Some (Inl x) \<Rightarrow> Some (Inl x)
         | Some (Inr cs') \<Rightarrow> Some (Inr (st\<lparr>m_clientInfos := take a cs @ cs' @ drop b cs\<rparr>)))"

definition runImpl :: "work_env \<Rightarrow> nat \<Rightarrow> balance \<Rightarrow> (xerror + balance) option" where
  "runImpl e index st =
     (if fst (m_itrs st ! index) = snd (m_itrs st ! index) then
        (if m_sem st ! index = 0 then None
         else DealData e (m_itrs st ! index) (st\<lparr>m_sem := (m_sem st)[index := m_sem st ! index - 1]\<rparr>))
      else DealData e (m_itrs st ! index) st)"

text \<open>Turns of the loop of a worker, each with its environment.\<close>

fun Bal_run :: "work_env list \<Rightarrow> nat \<Rightarrow> balance \<Rightarrow> (xerror + balance) option" where
  "Bal_run [] index st = Some (Inr st)"
| "Bal_run (e # es) index st =
     (if m_WorkorFlag st then
        (case runImpl e index st of
           None \<Rightarrow> None
         | Some (Inl x) \<Rightarrow> Some (Inl x)
         | Some (Inr st') \<Rightarrow> Bal_run es index st')
      else Some (Inr st))"

subsection \<open>Lost heartbeats\<close>

definition HeartBitHandle :: "nat \<Rightarrow> int \<Rightarrow> balance \<Rightarrow> balance option" where
  "HeartBitHandle index now st =
     (if m_heartLocked st then None
      else
        let (a, b) = m_itrs st ! index;
            lost = filter (\<lambda>c. HEARTBIT_INTERVAL + HEARTBIT_INTERVAL div 10 < now - m_heartbitTime (c_sess c)) (drop a (take b (m_clientInfos st)))
        in Some (st\<lparr>m_lostHeartbit := m_lostHeartbit st @ map c_hSock lost\<rparr>))"

text \<open>
  One turn of \<open>LoseHeartBitThread\<close>. It waits while the mutex is taken or nothing is lost; otherwise it kicks the
  lost clients and then releases a lock it does not hold, the second component of the result.
\<close>

definition LoseHeartBit_turn :: "balance \<Rightarrow> (balance \<times> xerror) option" where
  "LoseHeartBit_turn st =
     (if m_heartLocked st \<or> m_lostHeartbit st = [] then None
      else Some ((fold KickClient (m_lostHeartbit st) (st\<lparr>m_heartLocked := True\<rparr>))\<lparr>m_lostHeartbit := []\<rparr>, Undefined))"

subsection \<open>Ranges\<close>

definition slice :: "'a list \<Rightarrow> nat \<times> nat \<Rightarrow> 'a list" where
  "slice xs r = drop (fst r) (take (snd r) xs)"

lemma slice_append: "a \<le> b \<Longrightarrow> slice xs (a, b) @ drop b xs = drop a xs"
  by (metis append_take_drop_id drop_drop drop_take le_add_diff_inverse2 slice_def fst_conv snd_conv)

lemma init_loop_cover:
  assumes "i + Suc r = count" "it = i * pos"
  shows "concat (map (slice xs) (init_loop (Suc r) i it count pos (length xs))) = drop it xs"
  using assms
proof (induction r arbitrary: i it)
  case 0
  then show ?case by (auto simp: slice_def Let_def)
next
  case (Suc r)
  have "concat (map (slice xs) (init_loop (Suc r) (Suc i) (it + pos) count pos (length xs))) = drop (it + pos) xs"
    using Suc.prems by (intro Suc.IH) simp_all
  moreover have "count - 1 \<noteq> i" "(if i = 0 then 0 else it) = it" using Suc.prems by auto
  moreover have "slice xs (it, it + pos) @ drop (it + pos) xs = drop it xs" by (rule slice_append) simp
  ultimately show ?case by (simp only: init_loop.simps(2) [of "Suc r"] Let_def if_False list.map concat.simps)
qed

lemma ranges_cover: "0 < count \<Longrightarrow> concat (map (slice xs) (ranges count (length xs))) = xs"
  using init_loop_cover [of 0 "count - 1" count 0 "length xs div count" xs] by (simp add: ranges_def)

lemma ranges_length: "length (init_loop r i it count pos n) = r"
  by (induction r arbitrary: i it) (simp_all add: Let_def)

lemma ranges_one: "ranges (Suc 0) n = [(0, n)]"
  by (simp add: ranges_def)

subsection \<open>Clients\<close>

lemma upd_client_socks [simp]: "map c_hSock (upd_client h f cs) = map c_hSock cs" "length (upd_client h f cs) = length cs"
  by (induction cs) simp_all

lemma drop_client_distinct:
  assumes "distinct (map (m_sock \<circ> c_hSock) cs)"
  shows "drop_client h cs = filter (\<lambda>c. \<not> same_sock h c) cs"
  using assms
proof (induction cs)
  case (Cons c cs)
  show ?case
  proof (cases "same_sock h c")
    case True
    then have "\<forall>x \<in> set cs. \<not> same_sock h x" using Cons.prems by (force simp: same_sock_def)
    then have "filter (\<lambda>c. \<not> same_sock h c) cs = cs" by simp
    with True show ?thesis by simp
  qed (use Cons in simp)
qed simp

lemma find_client: "List.find (same_sock h) cs = Some c \<Longrightarrow> c \<in> set cs \<and> same_sock h c"
  by (induction cs) (auto split: if_splits)

lemma sock_unique:
  assumes "distinct (map (m_sock \<circ> c_hSock) cs)" "c \<in> set cs" "d \<in> set cs" "same_sock h c" "same_sock h d"
  shows "d = c"
  using assms by (auto simp: distinct_map same_sock_def inj_on_def)

lemma upd_client_at:
  assumes "distinct (map (m_sock \<circ> c_hSock) cs)" "c \<in> set cs" "same_sock h c"
  shows "upd_client h f cs = map (\<lambda>d. if d = c then c\<lparr>c_sess := f (c_sess c)\<rparr> else d) cs \<and> List.find (same_sock h) cs = Some c"
  using assms
proof (induction cs)
  case (Cons x cs)
  show ?case
  proof (cases "same_sock h x")
    case True
    have e: "x = c" using sock_unique [OF Cons.prems(1,2) _ Cons.prems(3) True] by simp
    then have "c \<notin> set cs" using Cons.prems(1) by auto
    then have "map (\<lambda>d. if d = c then c\<lparr>c_sess := f (c_sess c)\<rparr> else d) cs = cs" by (intro map_idI) auto
    with e True show ?thesis by simp
  next
    case False
    with Cons.prems have "x \<noteq> c" "c \<in> set cs" by auto
    with Cons False show ?thesis by simp
  qed
qed simp

lemma Session_PostSend_hb:
  assumes "Session_PostSend fuel enc nd ss = Some (Inr ss')"
  shows "m_heartbitTime ss' = m_heartbitTime ss"
  using assms by (auto simp: Session_PostSend_def Let_def split: if_splits option.splits sum.splits prod.splits)

lemma deal_client_keeps:
  assumes "deal_client e c = Some (Inr c')"
  shows "c_hSock c' = c_hSock c \<and> m_heartbitTime (c_sess c') = m_heartbitTime (c_sess c)"
proof -
  obtain ss where p: "ParseData (we_hooks e) (we_now e) (we_node e) (c_sess c) = Inr ss"
    using assms by (cases "ParseData (we_hooks e) (we_now e) (we_node e) (c_sess c)") (simp_all add: deal_client_def)
  obtain ss' where q: "Session_PostSend (we_fuel e) (we_enc e) (we_node e) ss = Some (Inr ss')" "c' = c\<lparr>c_sess := ss'\<rparr>"
    using assms p by (auto simp: deal_client_def split: option.splits sum.splits)
  have "m_heartbitTime ss = m_heartbitTime (c_sess c)" by (rule parse_loop_hb [OF p [unfolded ParseData_def]])
  with Session_PostSend_hb [OF q(1)] q(2) show ?thesis by simp
qed

lemma deal_clients_keeps:
  "deal_clients e cs = Some (Inr cs') \<Longrightarrow>
     map (\<lambda>c. (c_hSock c, m_heartbitTime (c_sess c))) cs' = map (\<lambda>c. (c_hSock c, m_heartbitTime (c_sess c))) cs"
  by (induction cs arbitrary: cs') (auto split: option.splits sum.splits dest: deal_client_keeps)

text \<open>What a worker leaves as it is: the sockets and the times of the last heartbeats.\<close>

definition client_times :: "balance \<Rightarrow> (SockHandle \<times> int) list" where
  "client_times st = map (\<lambda>c. (c_hSock c, m_heartbitTime (c_sess c))) (m_clientInfos st)"

lemma DealData_keeps:
  assumes "DealData e r st = Some (Inr st')" "fst r \<le> snd r"
  shows "client_times st' = client_times st \<and> length (m_clientInfos st') = length (m_clientInfos st) \<and>
    (\<exists>cs. st' = st\<lparr>m_clientInfos := cs\<rparr>)"
proof -
  let ?cs = "m_clientInfos st"
  obtain cs' where c: "deal_clients e (drop (fst r) (take (snd r) ?cs)) = Some (Inr cs')"
    "st' = st\<lparr>m_clientInfos := take (fst r) ?cs @ cs' @ drop (snd r) ?cs\<rparr>"
    using assms by (auto simp: DealData_def Let_def split: option.splits sum.splits)
  let ?f = "\<lambda>c. (c_hSock c, m_heartbitTime (c_sess c))"
  have "map ?f (take (fst r) ?cs @ cs' @ drop (snd r) ?cs) =
      map ?f (take (fst r) ?cs @ drop (fst r) (take (snd r) ?cs) @ drop (snd r) ?cs)"
    using deal_clients_keeps [OF c(1)] by simp
  also have "take (fst r) ?cs @ drop (fst r) (take (snd r) ?cs) @ drop (snd r) ?cs = ?cs"
    using slice_append [OF assms(2), of ?cs] by (simp add: slice_def)
  finally have "client_times st' = client_times st" by (simp add: client_times_def c(2))
  moreover from this have "length (m_clientInfos st') = length ?cs" unfolding client_times_def by (metis length_map)
  ultimately show ?thesis using c(2) by blast
qed

lemma runImpl_keeps:
  assumes "runImpl e i st = Some (Inr st')" "fst (m_itrs st ! i) \<le> snd (m_itrs st ! i)"
  shows "client_times st' = client_times st \<and> length (m_clientInfos st') = length (m_clientInfos st) \<and>
    m_itrs st' = m_itrs st \<and> length (m_sem st') = length (m_sem st) \<and> m_bStart st' = m_bStart st \<and>
    m_heartLocked st' = m_heartLocked st \<and> m_lostHeartbit st' = m_lostHeartbit st"
proof (cases "fst (m_itrs st ! i) = snd (m_itrs st ! i)")
  case True
  let ?s = "st\<lparr>m_sem := (m_sem st)[i := m_sem st ! i - 1]\<rparr>"
  have "DealData e (m_itrs st ! i) ?s = Some (Inr st')" using assms(1) True by (simp add: runImpl_def split: if_splits)
  from DealData_keeps [OF this assms(2)] show ?thesis by (auto simp: client_times_def)
next
  case False
  then have "DealData e (m_itrs st ! i) st = Some (Inr st')" using assms(1) by (simp add: runImpl_def)
  from DealData_keeps [OF this assms(2)] show ?thesis by auto
qed

subsection \<open>Every client has a worker\<close>

inductive bal_step :: "balance \<Rightarrow> balance \<Rightarrow> bool" where
  StartUp: "bal_step st (snd (Bal_Start base st))"
| Append: "AppendNewClient now rb sb nd ps h st = Inr st' \<Longrightarrow> bal_step st st'"
| Remove: "bal_step st (RemoveClient h st)"
| Kick: "bal_step st (KickClient h st)"
| Data: "RecvClientData h buf len n prev node st = Inr st' \<Longrightarrow> bal_step st st'"
| Write: "bal_step st (ActivateWrite h n buf len node nd st)"
| RecvPkg: "bal_step st (snd (snd (Bal_RecvNetPackage h st)))"
| SendPkg: "bal_step st (snd (Bal_SendNetPackage h p st))"
| AllocMem: "bal_step st (snd (Bal_Alloc al h len st))"
| FreeMem: "bal_step st (Bal_Free fr h a st)"
| Work: "i < THREAD_COUNT \<Longrightarrow> runImpl e i st = Some (Inr st') \<Longrightarrow> bal_step st st'"
| Heart: "HeartBitHandle i now st = Some st' \<Longrightarrow> bal_step st st'"

inductive bal_reach :: "balance \<Rightarrow> bool" where
  New: "bal_reach (BalanceHandle_new jw js jh now hid jc jf)"
| Step: "bal_reach st \<Longrightarrow> bal_step st st' \<Longrightarrow> bal_reach st'"

definition bal_inv :: "balance \<Rightarrow> bool" where
  "bal_inv st \<longleftrightarrow> m_itrs st = ranges THREAD_COUNT (length (m_clientInfos st))"

lemma bal_inv_cong: "bal_inv st \<Longrightarrow> m_itrs st' = m_itrs st \<Longrightarrow> length (m_clientInfos st') = length (m_clientInfos st) \<Longrightarrow> bal_inv st'"
  by (simp add: bal_inv_def)

lemma post_sems_fields [simp]: "m_itrs (post_sems st) = m_itrs st" "m_clientInfos (post_sems st) = m_clientInfos st"
  "m_bStart (post_sems st) = m_bStart st" "m_heartLocked (post_sems st) = m_heartLocked st" "m_lostHeartbit (post_sems st) = m_lostHeartbit st"
  by (simp_all add: post_sems_def)

lemma InitIterator_inv: "bal_inv (InitIterator THREAD_COUNT st)"
  by (simp add: bal_inv_def InitIterator_def)

lemma KickClient_inv: "bal_inv st \<Longrightarrow> bal_inv (KickClient h st)"
  by (auto simp: KickClient_def Let_def bal_inv_def InitIterator_def split: option.splits)

lemma RemoveClient_is_Kick: "RemoveClient = KickClient"
  by (simp add: fun_eq_iff RemoveClient_def KickClient_def)

lemma bal_step_inv:
  assumes "bal_step st st'" "bal_inv st"
  shows "bal_inv st'"
  using assms
proof (cases rule: bal_step.cases)
  case (StartUp base)
  with assms(2) show ?thesis by (simp add: Bal_Start_def bal_inv_def)
next
  case (Append now rb sb nd ps h)
  with assms(2) show ?thesis
    by (auto simp: AppendNewClient_def Let_def bal_inv_def InitIterator_def split: if_splits option.splits sum.splits)
next
  case (Remove h)
  with assms(2) show ?thesis by (simp add: RemoveClient_is_Kick KickClient_inv)
next
  case (Kick h)
  with assms(2) show ?thesis by (simp add: KickClient_inv)
next
  case (Data h buf len n prev node)
  with assms(2) show ?thesis by (auto simp: RecvClientData_def bal_inv_def split: if_splits option.splits sum.splits)
next
  case (Write h n buf len node nd)
  with assms(2) show ?thesis by (simp add: ActivateWrite_def bal_inv_def)
next
  case (RecvPkg h)
  with assms(2) show ?thesis by (auto simp: Bal_RecvNetPackage_def bal_inv_def split: option.splits prod.splits)
next
  case (SendPkg h p)
  with assms(2) show ?thesis by (auto simp: Bal_SendNetPackage_def bal_inv_def split: option.splits prod.splits)
next
  case (AllocMem al h len)
  with assms(2) show ?thesis by (auto simp: Bal_Alloc_def bal_inv_def split: option.splits prod.splits)
next
  case (FreeMem fr h a)
  with assms(2) show ?thesis by (simp add: Bal_Free_def bal_inv_def)
next
  case (Work i e)
  have "fst (m_itrs st ! i) \<le> snd (m_itrs st ! i)"
    using assms(2) Work(1) ranges_one by (simp add: bal_inv_def THREAD_COUNT_def)
  from runImpl_keeps [OF Work(2) this] show ?thesis using bal_inv_cong [OF assms(2)] by blast
next
  case (Heart i now)
  with assms(2) show ?thesis by (auto simp: HeartBitHandle_def Let_def bal_inv_def split: if_splits prod.splits)
qed

lemma bal_reach_inv: "bal_reach st \<Longrightarrow> bal_inv st"
proof (induction rule: bal_reach.induct)
  case (New jw js jh now hid jc jf)
  show ?case by (simp add: bal_inv_def BalanceHandle_new_def Let_def THREAD_COUNT_def ranges_one)
next
  case (Step st st')
  show ?case by (rule bal_step_inv [OF Step.hyps(2) Step.IH])
qed

subsection \<open>Kicking\<close>

lemma KickClient_fields:
  assumes "m_bStart st" "distinct (map (m_sock \<circ> c_hSock) (m_clientInfos st))"
  shows "m_clientInfos (KickClient h st) = filter (\<lambda>c. \<not> same_sock h c) (m_clientInfos st)" "m_bStart (KickClient h st)"
    "m_heartLocked (KickClient h st) = m_heartLocked st"
proof -
  show "m_clientInfos (KickClient h st) = filter (\<lambda>c. \<not> same_sock h c) (m_clientInfos st)"
  proof (cases "List.find (same_sock h) (m_clientInfos st)")
    case None
    then have "filter (\<lambda>c. \<not> same_sock h c) (m_clientInfos st) = m_clientInfos st" by (simp add: find_None_iff)
    with None assms(1) show ?thesis by (simp add: KickClient_def Let_def)
  next
    case (Some c)
    with assms show ?thesis by (simp add: KickClient_def Let_def InitIterator_def drop_client_distinct)
  qed
  show "m_bStart (KickClient h st)" "m_heartLocked (KickClient h st) = m_heartLocked st"
    using assms(1) by (simp_all add: KickClient_def Let_def InitIterator_def split: option.splits)
qed

lemma kick_all:
  assumes "m_bStart st" "distinct (map (m_sock \<circ> c_hSock) (m_clientInfos st))"
  shows "m_clientInfos (fold KickClient hs st) = filter (\<lambda>c. \<forall>h \<in> set hs. \<not> same_sock h c) (m_clientInfos st) \<and>
    m_heartLocked (fold KickClient hs st) = m_heartLocked st"
  using assms
proof (induction hs arbitrary: st)
  case (Cons h hs)
  note k = KickClient_fields [OF Cons.prems]
  have "distinct (map (m_sock \<circ> c_hSock) (m_clientInfos (KickClient h st)))"
    unfolding k(1) using Cons.prems(2) by (rule distinct_map_filter)
  note ih = Cons.IH [OF k(2) this]
  then show ?case by (simp add: k(1,3) conj_commute)
qed simp

subsection \<open>Properties\<close>

text \<open>
  Property C8: in every state reached from the constructor without \<open>Stop\<close> the ranges of the workers cut the client list
  into consecutive parts: together they are the whole list, so that each client is served by exactly one worker. The same holds of the ranges for
  any number of workers.
\<close>

theorem workers_cover_clients:
  assumes "bal_reach st"
  shows "concat (map (slice (m_clientInfos st)) (m_itrs st)) = m_clientInfos st \<and> length (m_itrs st) = THREAD_COUNT \<and>
     (\<forall>count. 0 < count \<longrightarrow> concat (map (slice (m_clientInfos st)) (m_itrs (InitIterator count st))) = m_clientInfos st)"
proof -
  have "m_itrs st = ranges THREAD_COUNT (length (m_clientInfos st))" using bal_reach_inv [OF assms] by (simp add: bal_inv_def)
  then show ?thesis
    using ranges_cover [of THREAD_COUNT "m_clientInfos st"] ranges_cover [of _ "m_clientInfos st"]
    by (simp add: THREAD_COUNT_def InitIterator_def ranges_def ranges_length)
qed

abbreviation sample_sock :: "int \<Rightarrow> SockHandle" where
  "sample_sock s \<equiv> \<lparr>m_sock = s, m_ip = [], m_conntype = 0, m_port = 80\<rparr>"

theorem workers_cover_clients_witness:
  "concat (map (slice (m_clientInfos (RemoveClient (sample_sock 4) (BalanceHandle_new True True True 0 0 0 0))))
     (m_itrs (RemoveClient (sample_sock 4) (BalanceHandle_new True True True 0 0 0 0)))) = []"
proof -
  let ?st = "RemoveClient (sample_sock 4) (BalanceHandle_new True True True 0 0 0 0)"
  have "bal_reach ?st" by (rule bal_reach.Step [OF bal_reach.New bal_step.Remove])
  moreover have "m_clientInfos ?st = []" by (simp add: RemoveClient_def BalanceHandle_new_def Let_def)
  ultimately show ?thesis using workers_cover_clients [of ?st] by simp
qed

text \<open>
  Observation: packages are routed by socket. With distinct sockets, a package sent to a client goes to the end of the send queue of
  that client's session and to no other, as long as the session is online; the answer for an unknown socket is \<open>-1\<close> and nothing changes.
\<close>

theorem send_routes_to_client:
  assumes "m_bStart st" "distinct (map (m_sock \<circ> c_hSock) (m_clientInfos st))"
  shows "(\<forall>c \<in> set (m_clientInfos st). same_sock h c \<longrightarrow> m_bOnline (c_sess c) \<noteq> 0 \<longrightarrow>
       Bal_SendNetPackage h p st = (0, st\<lparr>m_clientInfos :=
         map (\<lambda>d. if d = c then c\<lparr>c_sess := (c_sess c)\<lparr>m_sendQueue := m_sendQueue (c_sess c) @ [p]\<rparr>\<rparr> else d) (m_clientInfos st)\<rparr>)) \<and>
     ((\<forall>c \<in> set (m_clientInfos st). \<not> same_sock h c) \<longrightarrow> Bal_SendNetPackage h p st = (-1, st))"
proof -
  have "Bal_SendNetPackage h p st = (0, st\<lparr>m_clientInfos :=
         map (\<lambda>d. if d = c then c\<lparr>c_sess := (c_sess c)\<lparr>m_sendQueue := m_sendQueue (c_sess c) @ [p]\<rparr>\<rparr> else d) (m_clientInfos st)\<rparr>)"
    if c: "c \<in> set (m_clientInfos st)" "same_sock h c" "m_bOnline (c_sess c) \<noteq> 0" for c
    using upd_client_at [OF assms(2) c(1,2)] assms(1) c(3) by (simp add: Bal_SendNetPackage_def Session_SendNetPackage_def)
  moreover have "Bal_SendNetPackage h p st = (-1, st)" if "\<forall>c \<in> set (m_clientInfos st). \<not> same_sock h c"
  proof -
    have "List.find (same_sock h) (m_clientInfos st) = None" using that by (simp add: find_None_iff)
    with assms(1) show ?thesis by (simp add: Bal_SendNetPackage_def)
  qed
  ultimately show ?thesis by blast
qed

abbreviation sample_bal :: balance where
  "sample_bal \<equiv> (BalanceHandle_new True True True 0 0 0 0)\<lparr>m_clientInfos := [\<lparr>c_hSock = sample_sock 4, c_sess = SocketSession_new (\<lambda>_. 0)\<rparr>],
     m_itrs := [(0, 1)]\<rparr>"

lemma sample_bal_fields: "m_bStart sample_bal" "\<not> m_heartLocked sample_bal" "m_lostHeartbit sample_bal = []"
  by (simp_all add: BalanceHandle_new_def Let_def)

theorem send_routes_to_client_witness:
  "fst (Bal_SendNetPackage (sample_sock 4) (NetPackage_new None 0 0) sample_bal) = 0 \<and>
   fst (Bal_SendNetPackage (sample_sock 5) (NetPackage_new None 0 0) sample_bal) = -1"
proof -
  have d: "distinct (map (m_sock \<circ> c_hSock) (m_clientInfos sample_bal))" by simp
  note r = send_routes_to_client [OF sample_bal_fields(1) d]
  have "m_bOnline (SocketSession_new (\<lambda>_. 0)) \<noteq> 0" by (simp add: SocketSession_new_def Let_def)
  with r [of "sample_sock 4" "NetPackage_new None 0 0"] r [of "sample_sock 5" "NetPackage_new None 0 0"]
  show ?thesis by (simp add: same_sock_def)
qed

lemma client_times_filter:
  assumes "client_times st1 = client_times st" "\<And>d. P d = R (c_hSock d, m_heartbitTime (c_sess d))"
  shows "map c_hSock (filter P (m_clientInfos st1)) = map c_hSock (filter P (m_clientInfos st))"
proof -
  have "map fst (filter R (client_times st1)) = map fst (filter R (client_times st))" by (simp add: assms(1))
  moreover have "P = (\<lambda>d. R (c_hSock d, m_heartbitTime (c_sess d)))" using assms(2) by blast
  ultimately show ?thesis unfolding client_times_def filter_map by (simp add: comp_def)
qed

lemma not_same_as_any:
  assumes "distinct (map (m_sock \<circ> c_hSock) cs)" "d \<in> set cs"
  shows "(\<forall>h \<in> set (map c_hSock (filter P cs)). \<not> same_sock h d) \<longleftrightarrow> \<not> P d"
proof
  assume a: "\<forall>h \<in> set (map c_hSock (filter P cs)). \<not> same_sock h d"
  then show "\<not> P d" using assms(2) by (auto simp: same_sock_def)
next
  assume a: "\<not> P d"
  show "\<forall>h \<in> set (map c_hSock (filter P cs)). \<not> same_sock h d"
  proof
    fix h assume "h \<in> set (map c_hSock (filter P cs))"
    then obtain x where x: "x \<in> set cs" "P x" "h = c_hSock x" by auto
    then have "same_sock h d \<Longrightarrow> d = x" using sock_unique [OF assms(1) x(1) assms(2), of h] by (simp add: same_sock_def)
    with a x(2) show "\<not> same_sock h d" by blast
  qed
qed

text \<open>
  Observation: clients that do talk are kicked, once. Whatever a client has sent and a worker has parsed, its last heartbeat stays the time of its
  connection, so the next check more than 33 seconds later reports it lost. The thread for lost clients then removes
  exactly the reported ones, releases a lock it does not hold and keeps the mutex of \<open>m_heartCtrl\<close>: no later check returns.
\<close>

theorem talking_client_kicked:
  assumes "m_bStart st" "\<not> m_heartLocked st" "m_lostHeartbit st = []" "m_itrs st = [(0, length (m_clientInfos st))]"
    and "distinct (map (m_sock \<circ> c_hSock) (m_clientInfos st))" "runImpl e 0 st = Some (Inr st1)"
    and "c \<in> set (m_clientInfos st)" "33 < now - m_heartbitTime (c_sess c)"
  shows "\<exists>st2 st3. HeartBitHandle 0 now st1 = Some st2 \<and> LoseHeartBit_turn st2 = Some (st3, Undefined) \<and>
     map c_hSock (m_clientInfos st3) = map c_hSock (filter (\<lambda>d. \<not> 33 < now - m_heartbitTime (c_sess d)) (m_clientInfos st)) \<and>
     c_hSock c \<notin> set (map c_hSock (m_clientInfos st3)) \<and> HeartBitHandle i now' st3 = None"
proof -
  let ?lost = "\<lambda>d. 33 < now - m_heartbitTime (c_sess d)"
  have k: "client_times st1 = client_times st" "length (m_clientInfos st1) = length (m_clientInfos st)" "m_itrs st1 = m_itrs st"
    "m_bStart st1" "\<not> m_heartLocked st1" "m_lostHeartbit st1 = []"
    using runImpl_keeps [OF assms(6)] assms(1-4) by simp_all
  note hs = client_times_filter [OF k(1)]
  have d1: "distinct (map (m_sock \<circ> c_hSock) (m_clientInfos st1))"
  proof -
    have "map c_hSock (m_clientInfos st1) = map c_hSock (m_clientInfos st)" using hs [of "\<lambda>_. True" "\<lambda>_. True"] by simp
    then have "map m_sock (map c_hSock (m_clientInfos st1)) = map m_sock (map c_hSock (m_clientInfos st))" by simp
    then show ?thesis using assms(5) by (simp add: comp_def)
  qed
  let ?hs = "map c_hSock (filter ?lost (m_clientInfos st1))"
  let ?st2 = "st1\<lparr>m_lostHeartbit := ?hs\<rparr>"
  have h1: "HeartBitHandle 0 now st1 = Some ?st2"
    using k(5,6) assms(4) k(2,3) by (simp add: HeartBitHandle_def HEARTBIT_INTERVAL_def)
  have same: "map c_hSock (filter ?lost (m_clientInfos st1)) = map c_hSock (filter ?lost (m_clientInfos st))"
    by (rule hs [of _ "\<lambda>(s, t). 33 < now - t"]) simp
  have cin: "c_hSock c \<in> set ?hs" using assms(7,8) unfolding same by auto
  let ?st3 = "(fold KickClient ?hs (?st2\<lparr>m_heartLocked := True\<rparr>))\<lparr>m_lostHeartbit := []\<rparr>"
  have l: "LoseHeartBit_turn ?st2 = Some (?st3, Undefined)"
    using k(5) cin by (cases "filter ?lost (m_clientInfos st1)") (simp_all add: LoseHeartBit_turn_def)
  have ka: "m_clientInfos ?st3 = filter (\<lambda>d. \<forall>h \<in> set ?hs. \<not> same_sock h d) (m_clientInfos st1)" "m_heartLocked ?st3"
    using kick_all [of "?st2\<lparr>m_heartLocked := True\<rparr>" ?hs] k(4) d1 by simp_all
  have f3: "m_clientInfos ?st3 = filter (\<lambda>d. \<not> ?lost d) (m_clientInfos st1)"
    unfolding ka(1) by (rule filter_cong [OF refl]) (rule not_same_as_any [OF d1])
  have m3: "map c_hSock (m_clientInfos ?st3) = map c_hSock (filter (\<lambda>d. \<not> ?lost d) (m_clientInfos st))"
    unfolding f3 by (rule hs [of _ "\<lambda>(s, t). \<not> 33 < now - t"]) simp
  have "c_hSock c \<notin> set (map c_hSock (m_clientInfos ?st3))"
  proof
    assume "c_hSock c \<in> set (map c_hSock (m_clientInfos ?st3))"
    then obtain x where x: "x \<in> set (m_clientInfos st)" "\<not> ?lost x" "c_hSock x = c_hSock c" unfolding m3 by auto
    then have "x = c" using sock_unique [OF assms(5,7) x(1), of "c_hSock c"] by (simp add: same_sock_def)
    with x(2) assms(8) show False by simp
  qed
  moreover have "HeartBitHandle i now' ?st3 = None" using ka(2) by (simp add: HeartBitHandle_def)
  ultimately show ?thesis using h1 l m3 by blast
qed

abbreviation idle_env :: work_env where
  "idle_env \<equiv> \<lparr>we_hooks = sample_hooks, we_now = 0, we_node = 0, we_fuel = 0, we_enc = enc_of (\<lambda>_. [])\<rparr>"

theorem talking_client_kicked_witness:
  "\<exists>st1 st2 st3. runImpl idle_env 0 sample_bal = Some (Inr st1) \<and> HeartBitHandle 0 34 st1 = Some st2 \<and>
     LoseHeartBit_turn st2 = Some (st3, Undefined) \<and> m_clientInfos st3 = []"
proof -
  let ?ss = "SocketSession_new (\<lambda>_. 0)" and ?c = "\<lparr>c_hSock = sample_sock 4, c_sess = SocketSession_new (\<lambda>_. 0)\<rparr>"
  have ss: "m_perIoDatas ?ss = []" "m_sendQueue ?ss = []" "m_heartbitTime ?ss = 0" "m_bOnline ?ss = 1"
    by (simp_all add: SocketSession_new_def Let_def)
  have "ParseData sample_hooks 0 0 ?ss = Inr (?ss\<lparr>m_perIoDatas := []\<rparr>)" using ss by (simp add: ParseData_def)
  then have "deal_client idle_env ?c = Some (Inr (?c\<lparr>c_sess := ?ss\<lparr>m_perIoDatas := []\<rparr>\<rparr>))"
    using ss by (simp add: deal_client_def Session_PostSend_def)
  then obtain st1 where r: "runImpl idle_env 0 sample_bal = Some (Inr st1)"
    by (simp add: runImpl_def DealData_def Let_def)
  have d: "distinct (map (m_sock \<circ> c_hSock) (m_clientInfos sample_bal))" "m_itrs sample_bal = [(0, length (m_clientInfos sample_bal))]"
    "?c \<in> set (m_clientInfos sample_bal)" "33 < 34 - m_heartbitTime (c_sess ?c)"
    using ss by simp_all
  obtain st2 st3 where s: "HeartBitHandle 0 34 st1 = Some st2" "LoseHeartBit_turn st2 = Some (st3, Undefined)"
    "map c_hSock (m_clientInfos st3) = map c_hSock (filter (\<lambda>d. \<not> 33 < 34 - m_heartbitTime (c_sess d)) (m_clientInfos sample_bal))"
    using talking_client_kicked [OF sample_bal_fields d(2,1) r d(3,4), of 0 0] by blast
  then have "m_clientInfos st3 = []" using ss(3) by simp
  with r s show ?thesis by blast
qed

text \<open>
  Observation: the check for lost heartbeats never runs. The constructor starts its timer with start time 2, which is not a multiple
  of the precision of the timers; with its state initially zero, as in fresh memory, no number of ticks calls it.
\<close>

theorem heartbeat_check_never_runs:
  "hid \<notin> set (tm_fired ((round ^^ n) (m_timerMgr (BalanceHandle_new jw js jh now hid jc 0))))"
proof -
  let ?t = "SetStartTime now (Timer_new hid 2 30 jc 0)" and ?m = "m_timerMgr (BalanceHandle_new jw js jh now hid jc 0)"
  have t: "nFinish ?t = 0" "nStart ?t = 2" "at_id ?t = hid" by (simp_all add: SetStartTime_def Timer_new_def SetTimer_def to_bits_def)
  have m: "repeatSet ?m = [(''0'', ?t)]" "tm_fired ?m = []"
    by (simp_all add: BalanceHandle_new_def Let_def TimerMgr_Init_def TimerMgrImpl_new_def AddTimer_def HEARTBIT_INTERVAL_def SetStartTime_def
        Timer_new_def SetTimer_def to_bits_def)
  have five: "2 \<noteq> c * (5 :: nat)" for c by presburger
  have i: "nFinish ((round1 ^^ j) ?t) = 0 \<and> nStart ((round1 ^^ j) ?t) = 2" for j
  proof (induction j)
    case (Suc j)
    define u where "u = (round1 ^^ j) ?t"
    have u: "nFinish u = 0" "nStart u = 2" using Suc.IH by (simp_all add: u_def)
    then have "tick_repeat u = snd (Increment u)"
      using five by (simp add: tick_repeat_def Increment_def Let_def TIMERPRECISION_def)
    then have "nFinish (round1 u) = 0 \<and> nStart (round1 u) = 2"
      using u by (simp add: round1_def deal_repeat_def IsTimeout_def Increment_def Let_def)
    then show ?case by (simp add: u_def)
  qed (use t in simp)
  have "\<not> IsTimeout (tick_repeat u)" if "nFinish u = 0 \<and> nStart u = 2" for u
    using that five by (simp add: IsTimeout_def tick_repeat_def Increment_def Let_def TIMERPRECISION_def)
  then have "\<not> IsTimeout (tick_repeat ((round1 ^^ j) ?t))" for j using i by blast
  then have "count_list (tm_fired ((round ^^ n) ?m)) (at_id ?t) = 0"
    using rounds_fired [of ?m "''0''" ?t n] m by simp
  then show ?thesis using t(3) by (simp add: count_list_0_iff)
qed

end
