(* ===== verification/TreeRel.thy ===== *)
theory TreeRel
  imports XPrelude "HOL-Library.Multiset"
begin

text \<open>
  \<open>Pattern/TreeRelation.h\<close>: classes register themselves as nodes of a tree, and a base class finds, compares and removes
  them by name. The database accessors and connections use it to create the class of a driver. Nodes are static objects: a store maps their
  identity to their fields. Asserts are in force. The search follows the lists of children without a check for cycles, so the recursive
  functions take fuel and \<open>None\<close> is a search that has not ended.
\<close>

datatype tree_error = AssertFailed | TreeErr xerror

type_synonym tid = nat

record tnode =
  st_type :: string
  st_funcptr :: "addr \<Rightarrow> addr"
  st_parent :: "tid option"
  st_children :: "tid list"

type_synonym tstore = "tid \<Rightarrow> tnode option"

record treerel =
  tr_nodes :: tstore
  tr_root :: tid
  s_children :: int

definition TreeRelation_new :: "tid \<Rightarrow> (addr \<Rightarrow> addr) \<Rightarrow> string \<Rightarrow> tid \<Rightarrow> tnode" where
  "TreeRelation_new this f type parent =
     \<lparr>st_type = type, st_funcptr = f, st_parent = (if parent = this then None else Some parent), st_children = []\<rparr>"

fun findNode :: "nat \<Rightarrow> string \<Rightarrow> tid \<Rightarrow> tstore \<Rightarrow> (tree_error + tid option) option"
and find_children :: "nat \<Rightarrow> string \<Rightarrow> tid list \<Rightarrow> tstore \<Rightarrow> (tree_error + tid option) option" where
  "findNode 0 type root st = None"
| "findNode (Suc f) type root st =
     (if type = [] then Some (Inl AssertFailed)
      else case st root of
        None \<Rightarrow> Some (Inl (TreeErr Undefined))
      | Some n \<Rightarrow> if type = st_type n then Some (Inr (Some root)) else find_children f type (st_children n) st)"
| "find_children f type [] st = Some (Inr None)"
| "find_children f type (c # cs) st =
     (case findNode f type c st of
        None \<Rightarrow> None
      | Some (Inl e) \<Rightarrow> Some (Inl e)
      | Some (Inr (Some i)) \<Rightarrow> Some (Inr (Some i))
      | Some (Inr None) \<Rightarrow> find_children f type cs st)"

definition getInstance :: "nat \<Rightarrow> string \<Rightarrow> addr \<Rightarrow> treerel \<Rightarrow> (tree_error + addr) option" where
  "getInstance fuel type p tr =
     (case findNode fuel type (tr_root tr) (tr_nodes tr) of
        None \<Rightarrow> None
      | Some (Inl e) \<Rightarrow> Some (Inl e)
      | Some (Inr None) \<Rightarrow> Some (Inr 0)
      | Some (Inr (Some i)) \<Rightarrow>
          (case tr_nodes tr i of None \<Rightarrow> Some (Inl (TreeErr Undefined)) | Some n \<Rightarrow> Some (Inr (st_funcptr n p))))"

definition upd_tnode :: "tid \<Rightarrow> (tnode \<Rightarrow> tnode) \<Rightarrow> tstore \<Rightarrow> tstore" where
  "upd_tnode i g st = st(i := map_option g (st i))"

definition AddChild :: "nat \<Rightarrow> string \<Rightarrow> tid \<Rightarrow> treerel \<Rightarrow> (tree_error + (bool \<times> treerel)) option" where
  "AddChild fuel parenttype leaf tr =
     (case findNode fuel parenttype (tr_root tr) (tr_nodes tr) of
        None \<Rightarrow> None
      | Some (Inl e) \<Rightarrow> Some (Inl e)
      | Some (Inr None) \<Rightarrow> Some (Inr (False, tr))
      | Some (Inr (Some i)) \<Rightarrow>
          Some (Inr (True, tr\<lparr>tr_nodes := upd_tnode i (\<lambda>n. n\<lparr>st_children := st_children n @ [leaf]\<rparr>) (tr_nodes tr),
                              s_children := s_children tr + 1\<rparr>)))"

text \<open>
  \<open>relationcmp\<close>. The fields of a found node are read through its pointer; a found node below another one without a
  parent would be a null pointer.
\<close>

definition parent_of :: "tstore \<Rightarrow> tid \<Rightarrow> tid option" where
  "parent_of st i = (case st i of None \<Rightarrow> None | Some n \<Rightarrow> st_parent n)"

definition parent_type :: "tstore \<Rightarrow> tid \<Rightarrow> string option" where
  "parent_type st i = (case parent_of st i of None \<Rightarrow> None | Some p \<Rightarrow> map_option st_type (st p))"

fun relationcmp :: "nat \<Rightarrow> string \<Rightarrow> string \<Rightarrow> treerel \<Rightarrow> (tree_error + int) option" where
  "relationcmp 0 type typed tr = None"
| "relationcmp (Suc f) type typed tr =
     (let find = (\<lambda>t r. findNode f t r (tr_nodes tr))
      in case find type (tr_root tr) of
           None \<Rightarrow> None
         | Some (Inl e) \<Rightarrow> Some (Inl e)
         | Some (Inr pt) \<Rightarrow>
      (case find typed (tr_root tr) of
           None \<Rightarrow> None
         | Some (Inl e) \<Rightarrow> Some (Inl e)
         | Some (Inr ptd) \<Rightarrow>
      (case (pt, ptd) of
           (Some x, Some y) \<Rightarrow>
             if parent_of (tr_nodes tr) x = parent_of (tr_nodes tr) y \<or> type = typed then Some (Inr 0)
             else
               (case find typed x of
                  None \<Rightarrow> None
                | Some (Inl e) \<Rightarrow> Some (Inl e)
                | Some (Inr (Some z)) \<Rightarrow>
                    (case parent_type (tr_nodes tr) z of
                       None \<Rightarrow> Some (Inl (TreeErr Undefined))
                     | Some q \<Rightarrow>
                         if q = type then Some (Inr 1)
                         else (case relationcmp f q typed tr of Some (Inr k) \<Rightarrow> Some (Inr (1 + k)) | r \<Rightarrow> r))
                | Some (Inr None) \<Rightarrow>
                    (case find type y of
                       None \<Rightarrow> None
                     | Some (Inl e) \<Rightarrow> Some (Inl e)
                     | Some (Inr None) \<Rightarrow> Some (Inr (- 2))
                     | Some (Inr (Some z)) \<Rightarrow>
                         (case parent_type (tr_nodes tr) z of
                            None \<Rightarrow> Some (Inl (TreeErr Undefined))
                          | Some q \<Rightarrow>
                              if q = typed then Some (Inr (- 1))
                              else (case relationcmp f type q tr of Some (Inr k) \<Rightarrow> Some (Inr (- 1 + k)) | r \<Rightarrow> r))))
         | _ \<Rightarrow> Some (Inl (TreeErr (Throw ''The Arg type was no't in relation Tree''))))))"

definition removeChild :: "nat \<Rightarrow> string \<Rightarrow> treerel \<Rightarrow> (tree_error + (int \<times> treerel)) option" where
  "removeChild fuel type tr =
     (if type \<noteq> [] then Some (Inl AssertFailed)
      else if map_option st_type (tr_nodes tr (tr_root tr)) = Some type then Some (Inr (2, tr))
      else case findNode fuel type (tr_root tr) (tr_nodes tr) of
             None \<Rightarrow> None
           | Some (Inl e) \<Rightarrow> Some (Inl e)
           | Some (Inr None) \<Rightarrow> Some (Inr (- 1, tr))
           | Some (Inr (Some i)) \<Rightarrow>
               (case tr_nodes tr i of
                  None \<Rightarrow> Some (Inl (TreeErr Undefined))
                | Some n \<Rightarrow>
                    if st_children n \<noteq> [] then Some (Inr (1, tr))
                    else case st_parent n of
                      None \<Rightarrow> Some (Inl (TreeErr Undefined))
                    | Some p \<Rightarrow>
                        Some (Inr (0, tr\<lparr>tr_nodes := upd_tnode p (\<lambda>m. m\<lparr>st_children := removeAll i (st_children m)\<rparr>) (tr_nodes tr),
                                         s_children := s_children tr - 1\<rparr>))))"

text \<open>
  \<open>clearReleation\<close> walks over a list of children while the calls remove from it. An iterator at a removed element is invalid; other
  removed elements are not visited.
\<close>

fun clearReleation :: "nat \<Rightarrow> tid \<Rightarrow> treerel \<Rightarrow> (tree_error + treerel) option"
and clear_loop :: "nat \<Rightarrow> tid \<Rightarrow> tid list \<Rightarrow> treerel \<Rightarrow> (tree_error + treerel) option" where
  "clearReleation 0 i tr = None"
| "clearReleation (Suc f) i tr =
     (case tr_nodes tr i of
        None \<Rightarrow> Some (Inl (TreeErr Undefined))
      | Some n \<Rightarrow>
          if st_children n = [] then
            (if i = tr_root tr then Some (Inr tr)
             else case st_parent n of
               None \<Rightarrow> Some (Inl (TreeErr Undefined))
             | Some p \<Rightarrow> Some (Inr (tr\<lparr>tr_nodes := upd_tnode p (\<lambda>m. m\<lparr>st_children := removeAll i (st_children m)\<rparr>) (tr_nodes tr)\<rparr>)))
          else case clear_loop f i (st_children n) tr of
                 None \<Rightarrow> None
               | Some (Inl e) \<Rightarrow> Some (Inl e)
               | Some (Inr tr') \<Rightarrow> Some (Inr (tr'\<lparr>s_children := 1\<rparr>)))"
| "clear_loop f i [] tr = Some (Inr tr)"
| "clear_loop f i (c # cs) tr =
     (case clearReleation f c tr of
        None \<Rightarrow> None
      | Some (Inl e) \<Rightarrow> Some (Inl e)
      | Some (Inr tr') \<Rightarrow>
          (case tr_nodes tr' i of
             None \<Rightarrow> Some (Inl (TreeErr Undefined))
           | Some n \<Rightarrow>
               if c \<in> set (st_children n) then clear_loop f i (filter (\<lambda>x. x \<in> set (st_children n)) cs) tr'
               else Some (Inl (TreeErr Undefined))))"

definition clearTreeReleation :: "nat \<Rightarrow> treerel \<Rightarrow> (tree_error + treerel) option" where
  "clearTreeReleation fuel tr = clearReleation fuel (tr_root tr) tr"

definition getChildrenCount :: "treerel \<Rightarrow> int" where
  "getChildrenCount tr = s_children tr"

subsection \<open>Stores that hold a tree\<close>

datatype rtree = RNode (rid: tid) (rsub: "rtree list")

primrec preorder :: "rtree \<Rightarrow> tid list" where
  "preorder (RNode i ts) = i # concat (map preorder ts)"

primrec subtrees :: "rtree \<Rightarrow> rtree list" where
  "subtrees (RNode i ts) = RNode i ts # concat (map subtrees ts)"

primrec height :: "rtree \<Rightarrow> nat" where
  "height (RNode i ts) = Suc (fold max (map height ts) 0)"

definition holds_tree :: "tstore \<Rightarrow> rtree \<Rightarrow> bool" where
  "holds_tree st t \<longleftrightarrow>
     (\<forall>s \<in> set (subtrees t).
        (case st (rid s) of None \<Rightarrow> False | Some n \<Rightarrow> st_children n = map rid (rsub s))
        \<and> (\<forall>c \<in> set (rsub s). parent_of st (rid c) = Some (rid s)))"

definition type_of :: "tstore \<Rightarrow> tid \<Rightarrow> string" where
  "type_of st i = (case st i of None \<Rightarrow> [] | Some n \<Rightarrow> st_type n)"

lemma fold_max_le: "fold max xs a \<le> (n :: nat) \<longleftrightarrow> a \<le> n \<and> (\<forall>x \<in> set xs. x \<le> n)"
  by (induction xs arbitrary: a) auto

lemma height_le: "height (RNode i ts) \<le> Suc n \<longleftrightarrow> (\<forall>c \<in> set ts. height c \<le> n)"
  by (simp add: fold_max_le)

lemma height_pos: "0 < height t"
  by (cases t) simp

lemma subtrees_refl [simp]: "t \<in> set (subtrees t)"
  by (cases t) simp

lemma subtrees_trans: "u \<in> set (subtrees s) \<Longrightarrow> s \<in> set (subtrees t) \<Longrightarrow> u \<in> set (subtrees t)"
  by (induction t) auto

lemma holds_subtree: "holds_tree st t \<Longrightarrow> s \<in> set (subtrees t) \<Longrightarrow> holds_tree st s"
  unfolding holds_tree_def using subtrees_trans by blast

lemma child_subtree: "c \<in> set ts \<Longrightarrow> c \<in> set (subtrees (RNode i ts))"
  using subtrees_refl [of c] by (auto simp del: subtrees_refl)

lemma holds_node:
  assumes "holds_tree st (RNode i ts)"
  shows "\<exists>n. st i = Some n \<and> st_children n = map rid ts \<and> (\<forall>c \<in> set ts. holds_tree st c \<and> parent_of st (rid c) = Some i)"
proof -
  have "holds_tree st c" if "c \<in> set ts" for c using holds_subtree [OF assms] child_subtree [OF that] .
  then show ?thesis using assms unfolding holds_tree_def by (auto split: option.splits)
qed

lemma holds_root: "holds_tree st t \<Longrightarrow> \<exists>n. st (rid t) = Some n \<and> st_children n = map rid (rsub t)"
  using holds_node [of st "rid t" "rsub t"] by (cases t) auto

lemma height_subtree: "s \<in> set (subtrees t) \<Longrightarrow> height s \<le> height t"
proof (induction t)
  case (RNode i ts)
  show ?case
  proof (cases "s = RNode i ts")
    case False
    then obtain c where c: "c \<in> set ts" "s \<in> set (subtrees c)" using RNode.prems by auto
    have "height c \<le> fold max (map height ts) 0" using c(1) fold_max_le [of "map height ts" 0 "fold max (map height ts) 0"] by auto
    then show ?thesis using RNode.IH [OF c] by simp
  qed simp
qed

lemma preorder_subtree: "s \<in> set (subtrees t) \<Longrightarrow> set (preorder s) \<subseteq> set (preorder t)"
  by (induction t) auto

lemma rid_in_preorder [simp]: "rid t \<in> set (preorder t)"
  by (cases t) simp

lemma preorder_rids: "i \<in> set (preorder t) \<longleftrightarrow> (\<exists>s \<in> set (subtrees t). rid s = i)"
  by (induction t) auto

lemma find_append: "List.find P (xs @ ys) = (case List.find P xs of None \<Rightarrow> List.find P ys | Some x \<Rightarrow> Some x)"
  by (induction xs) auto

text \<open>The search returns the first node in preorder, and fuel for the height of the tree is enough.\<close>

lemma findNode_tree:
  assumes "type \<noteq> []"
  shows "holds_tree st t \<Longrightarrow> height t \<le> f \<Longrightarrow> findNode f type (rid t) st = Some (Inr (List.find (\<lambda>i. type_of st i = type) (preorder t)))"
proof (induction t arbitrary: f)
  case (RNode i ts)
  obtain g where f: "f = Suc g" using RNode.prems(2) by (cases f) simp_all
  obtain n where n: "st i = Some n" "st_children n = map rid ts" "\<forall>c \<in> set ts. holds_tree st c \<and> parent_of st (rid c) = Some i"
    using holds_node [OF RNode.prems(1)] by blast
  have "find_children g type (map rid cs) st = Some (Inr (List.find (\<lambda>i. type_of st i = type) (concat (map preorder cs))))"
    if "set cs \<subseteq> set ts" for cs
    using that
  proof (induction cs)
    case (Cons c cs)
    have "findNode g type (rid c) st = Some (Inr (List.find (\<lambda>i. type_of st i = type) (preorder c)))"
      using RNode.IH [of c g] Cons.prems n(3) RNode.prems(2) unfolding f height_le by auto
    then show ?case using Cons by (simp add: find_append split: option.splits)
  qed simp
  then show ?case using assms by (auto simp: f n(1,2) type_of_def)
qed

subsection \<open>Registered classes\<close>

definition registered :: "treerel \<Rightarrow> rtree \<Rightarrow> bool" where
  "registered tr t \<longleftrightarrow>
     holds_tree (tr_nodes tr) t \<and> rid t = tr_root tr \<and> parent_of (tr_nodes tr) (rid t) = None \<and> distinct (preorder t)
     \<and> distinct (map (type_of (tr_nodes tr)) (preorder t)) \<and> [] \<notin> set (map (type_of (tr_nodes tr)) (preorder t))
     \<and> s_children tr = int (length (preorder t))"

lemma find_injective: "inj_on f (set xs) \<Longrightarrow> i \<in> set xs \<Longrightarrow> List.find (\<lambda>j. f j = f i) xs = Some i"
  by (induction xs) (auto simp: inj_on_def)

lemma find_type:
  assumes "registered tr t" "s \<in> set (subtrees t)" "i \<in> set (preorder t)" "height t \<le> f"
  shows "findNode f (type_of (tr_nodes tr) i) (rid s) (tr_nodes tr) = Some (Inr (if i \<in> set (preorder s) then Some i else None))"
proof -
  let ?ty = "type_of (tr_nodes tr)"
  have inj: "inj_on ?ty (set (preorder t))" using assms(1) by (simp add: registered_def distinct_map)
  have ne: "?ty i \<noteq> []" using assms(1,3) unfolding registered_def by (metis image_eqI list.set_map)
  have h: "holds_tree (tr_nodes tr) s" "height s \<le> f"
    using assms(1,4) holds_subtree [OF _ assms(2)] height_subtree [OF assms(2)] by (auto simp: registered_def)
  have sub: "set (preorder s) \<subseteq> set (preorder t)" by (rule preorder_subtree [OF assms(2)])
  have "List.find (\<lambda>j. ?ty j = ?ty i) (preorder s) = (if i \<in> set (preorder s) then Some i else None)"
  proof (cases "i \<in> set (preorder s)")
    case True
    then show ?thesis using find_injective [OF inj_on_subset [OF inj sub] True] by simp
  next
    case False
    have "?ty j \<noteq> ?ty i" if "j \<in> set (preorder s)" for j using inj_onD [OF inj _ _ assms(3), of j] that sub False by blast
    then show ?thesis using False by (auto simp: find_None_iff)
  qed
  then show ?thesis using findNode_tree [OF ne h] by simp
qed

lemma distinct_subtree: "distinct (preorder t) \<Longrightarrow> s \<in> set (subtrees t) \<Longrightarrow> distinct (preorder s)"
proof (induction t)
  case (RNode i ts)
  then show ?case by (auto simp: distinct_concat_iff)
qed

lemma root_not_below: "distinct (preorder s) \<Longrightarrow> c \<in> set (rsub s) \<Longrightarrow> rid s \<notin> set (preorder c)"
  by (cases s) auto

lemma below: "u \<in> set (subtrees s) \<Longrightarrow> c \<in> set (rsub u) \<Longrightarrow> c \<in> set (subtrees s) \<and> (\<exists>d \<in> set (rsub s). c \<in> set (subtrees d))"
proof (cases s, cases "u = s")
  fix i ts assume a: "s = RNode i ts" "u = s" "c \<in> set (rsub u)"
  then have "c \<in> set (subtrees s)" using child_subtree [of c ts i] by simp
  then show ?thesis using a subtrees_refl [of c] by blast
next
  fix i ts assume a: "s = RNode i ts" "u \<noteq> s" "u \<in> set (subtrees s)" "c \<in> set (rsub u)"
  then obtain d where d: "d \<in> set ts" "u \<in> set (subtrees d)" by auto
  have "c \<in> set (subtrees u)" using a(4) child_subtree [of c "rsub u" "rid u"] by (cases u) auto
  then have "c \<in> set (subtrees d)" using subtrees_trans d(2) by blast
  then show ?thesis using d(1) a(1) by auto
qed

lemma has_parent: "s \<in> set (subtrees t) \<Longrightarrow> s = t \<or> (\<exists>u \<in> set (subtrees t). s \<in> set (rsub u))"
proof (induction t)
  case (RNode i ts)
  show ?case
  proof (cases "s = RNode i ts")
    case False
    then obtain d where d: "d \<in> set ts" "s \<in> set (subtrees d)" using RNode.prems by auto
    then show ?thesis using RNode.IH [OF d] by auto
  qed simp
qed

lemma parents_differ:
  assumes "registered tr t" "s \<in> set (subtrees t)" "u \<in> set (subtrees s)" "c \<in> set (rsub u)"
  shows "parent_of (tr_nodes tr) (rid c) = Some (rid u)" "parent_of (tr_nodes tr) (rid s) \<noteq> Some (rid u)"
    "rid s \<notin> set (preorder c)" "c \<in> set (subtrees t)" "u \<in> set (subtrees t)"
proof -
  have t: "holds_tree (tr_nodes tr) t" "distinct (preorder t)" "parent_of (tr_nodes tr) (rid t) = None"
    using assms(1) unfolding registered_def by blast+
  show ut: "u \<in> set (subtrees t)" using subtrees_trans assms(2,3) by blast
  then show "parent_of (tr_nodes tr) (rid c) = Some (rid u)" using t(1) assms(4) by (auto simp: holds_tree_def)
  show "c \<in> set (subtrees t)" using below [OF ut assms(4)] by blast
  obtain d where d: "d \<in> set (rsub s)" "c \<in> set (subtrees d)" using below [OF assms(3,4)] by blast
  show "rid s \<notin> set (preorder c)"
    using root_not_below [OF distinct_subtree [OF t(2) assms(2)] d(1)] preorder_subtree [OF d(2)] by blast
  show "parent_of (tr_nodes tr) (rid s) \<noteq> Some (rid u)"
  proof (cases "s = t")
    case False
    then obtain v where v: "v \<in> set (subtrees t)" "s \<in> set (rsub v)" using has_parent [OF assms(2)] by blast
    have "rid v \<notin> set (preorder s)" by (rule root_not_below [OF distinct_subtree [OF t(2) v(1)] v(2)])
    moreover have "rid u \<in> set (preorder s)" using preorder_subtree [OF assms(3)] rid_in_preorder [of u] by blast
    moreover have "parent_of (tr_nodes tr) (rid s) = Some (rid v)" using t(1) v by (auto simp: holds_tree_def)
    ultimately show ?thesis by auto
  qed (use t(3) in simp)
qed

text \<open>One step of the comparison of a node with a node below it, and the other way round.\<close>

lemma relationcmp_step:
  assumes "registered tr t" "s \<in> set (subtrees t)" "u \<in> set (subtrees s)" "c \<in> set (rsub u)" "height t \<le> f"
  defines "ty \<equiv> type_of (tr_nodes tr)"
  shows "relationcmp (Suc f) (ty (rid s)) (ty (rid c)) tr =
      (if rid u = rid s then Some (Inr 1)
       else case relationcmp f (ty (rid u)) (ty (rid c)) tr of Some (Inr k) \<Rightarrow> Some (Inr (1 + k)) | r \<Rightarrow> r)" (is ?down)
    and "relationcmp (Suc f) (ty (rid c)) (ty (rid s)) tr =
      (if rid u = rid s then Some (Inr (- 1))
       else case relationcmp f (ty (rid c)) (ty (rid u)) tr of Some (Inr k) \<Rightarrow> Some (Inr (- 1 + k)) | r \<Rightarrow> r)" (is ?up)
proof -
  note pd = parents_differ [OF assms(1-4)]
  have pre: "i \<in> set (preorder t)" if "v \<in> set (subtrees t)" "i = rid v" for i v
    using preorder_subtree [OF that(1)] rid_in_preorder [of v] that(2) by blast
  have ins: "rid c \<in> set (preorder s)" using below [OF assms(3,4)] preorder_subtree [of c s] rid_in_preorder [of c] by blast
  have root: "rid t = tr_root tr" using assms(1) by (simp add: registered_def)
  have f: "findNode f (ty i) (rid v) (tr_nodes tr) = Some (Inr (if i \<in> set (preorder v) then Some i else None))"
    if "v \<in> set (subtrees t)" "i \<in> set (preorder t)" for i v
    unfolding ty_def using find_type [OF assms(1) that assms(5)] .
  have ft: "findNode f (ty i) (tr_root tr) (tr_nodes tr) = Some (Inr (Some i))" if "i \<in> set (preorder t)" for i
    using f [OF subtrees_refl that] that by (simp add: root)
  have inj: "ty i = ty j \<longleftrightarrow> i = j" if "i \<in> set (preorder t)" "j \<in> set (preorder t)" for i j
    using assms(1) that unfolding ty_def registered_def distinct_map inj_on_def by blast
  have ne: "rid s \<noteq> rid c" using pd(3) by auto
  have u: "holds_tree (tr_nodes tr) u" using assms(1) pd(5) holds_subtree unfolding registered_def by blast
  obtain n where "tr_nodes tr (rid u) = Some n" using holds_root [OF u] by blast
  then have pt: "parent_type (tr_nodes tr) (rid c) = Some (ty (rid u))" by (simp add: parent_type_def pd(1) ty_def type_of_def)
  note facts = ft [OF pre [OF assms(2) refl]] ft [OF pre [OF pd(4) refl]] f [OF assms(2) pre [OF pd(4) refl]]
    f [OF pd(4) pre [OF assms(2) refl]] pt ins pd(1-3) ne inj [OF pre [OF assms(2) refl] pre [OF pd(4) refl]]
    inj [OF pre [OF pd(4) refl] pre [OF assms(2) refl]] inj [OF pre [OF pd(5) refl] pre [OF assms(2) refl]]
  show ?down using facts by (simp add: Let_def split: option.splits sum.splits)
  show ?up using facts by (simp add: Let_def split: option.splits sum.splits)
qed

text \<open>
  Observation. \<open>relationcmp\<close> does not count generations. A node below another compares as 1 or \<open>-1\<close> if it is a child, and as 2 or \<open>-2\<close> at any
  greater distance, since the recursive call starts from the parent of the lower node; \<open>-2\<close> is also the answer for unrelated nodes.
\<close>
theorem relationcmp_two_generations:
  assumes "registered tr t" "s \<in> set (subtrees t)" "u \<in> set (subtrees s)" "c \<in> set (rsub u)" "height t \<le> f"
  shows "relationcmp (Suc (Suc f)) (type_of (tr_nodes tr) (rid s)) (type_of (tr_nodes tr) (rid c)) tr =
      Some (Inr (if rid u = rid s then 1 else 2))
    \<and> relationcmp (Suc (Suc f)) (type_of (tr_nodes tr) (rid c)) (type_of (tr_nodes tr) (rid s)) tr =
      Some (Inr (if rid u = rid s then - 1 else - 2))"
proof -
  have u: "u \<in> set (subtrees t)" using subtrees_trans assms(2,3) by blast
  note one = relationcmp_step [OF assms(1) u subtrees_refl assms(4,5)]
  have f: "height t \<le> Suc f" using assms(5) by simp
  note two = relationcmp_step [OF assms(1-4) f]
  show ?thesis unfolding two one by simp
qed

subsection \<open>Adding a class\<close>

primrec graft :: "tid \<Rightarrow> tid \<Rightarrow> rtree \<Rightarrow> rtree" where
  "graft p l (RNode i ts) = RNode i (map (graft p l) ts @ (if i = p then [RNode l []] else []))"

lemma graft_fields [simp]: "rid (graft p l t) = rid t"
  "rsub (graft p l t) = map (graft p l) (rsub t) @ (if rid t = p then [RNode l []] else [])"
  by (cases t; simp)+

lemma subtrees_graft: "s \<in> set (subtrees (graft p l t)) \<Longrightarrow> s = RNode l [] \<or> (\<exists>d \<in> set (subtrees t). s = graft p l d)"
proof (induction t)
  case (RNode i ts)
  show ?case
  proof (cases "s = graft p l (RNode i ts)")
    case False
    then have "(\<exists>d \<in> set ts. s \<in> set (subtrees (graft p l d))) \<or> s = RNode l []" using RNode.prems by (auto split: if_splits)
    then show ?thesis using RNode.IH by fastforce
  qed (use subtrees_refl in blast)
qed

lemma graft_notin: "p \<notin> set (preorder t) \<Longrightarrow> graft p l t = t"
  by (induction t) (auto intro: map_idI)

lemma preorder_graft:
  "distinct (preorder t) \<Longrightarrow> p \<in> set (preorder t) \<Longrightarrow> mset (preorder (graft p l t)) = add_mset l (mset (preorder t))"
proof (induction t)
  case (RNode i ts)
  show ?case
  proof (cases "i = p")
    case True
    then have "map (graft p l) ts = ts" using RNode.prems(1) by (intro map_idI graft_notin) auto
    with True show ?thesis by simp
  next
    case False
    then obtain d where d: "d \<in> set ts" "p \<in> set (preorder d)" using RNode.prems(2) by auto
    obtain as bs where ts: "ts = as @ d # bs" using split_list [OF d(1)] by blast
    have "distinct (preorder d)" and no: "\<forall>x \<in> set as \<union> set bs. p \<notin> set (preorder x)"
      using RNode.prems(1) d(2) by (auto simp: ts)
    then have "mset (preorder (graft p l d)) = add_mset l (mset (preorder d))" using RNode.IH [OF d(1) _ d(2)] by blast
    moreover have "map (graft p l) as = as" "map (graft p l) bs = bs" using no by (auto intro!: map_idI graft_notin)
    ultimately show ?thesis using False by (simp add: ts)
  qed
qed

lemma upd_tnode_reads:
  assumes "st' = upd_tnode p (\<lambda>n. n\<lparr>st_children := st_children n @ [l]\<rparr>) st"
  shows "parent_of st' i = parent_of st i" "type_of st' i = type_of st i"
  by (simp_all add: assms upd_tnode_def parent_of_def type_of_def split: option.splits)

lemma holds_graft:
  assumes "holds_tree st t" "l \<noteq> p" "st l = Some n" "st_children n = []" "st_parent n = Some p"
  shows "holds_tree (upd_tnode p (\<lambda>n. n\<lparr>st_children := st_children n @ [l]\<rparr>) st) (graft p l t)"
proof -
  define st' where "st' = upd_tnode p (\<lambda>n. n\<lparr>st_children := st_children n @ [l]\<rparr>) st"
  note reads = upd_tnode_reads [OF st'_def]
  have pl: "parent_of st l = Some p" using assms(3,5) by (simp add: parent_of_def)
  have "(case st' (rid s) of None \<Rightarrow> False | Some n \<Rightarrow> st_children n = map rid (rsub s)) \<and> (\<forall>c \<in> set (rsub s). parent_of st' (rid c) = Some (rid s))"
    if s: "s \<in> set (subtrees (graft p l t))" for s
    using subtrees_graft [OF s]
  proof
    assume "s = RNode l []"
    then show ?thesis using assms(2-4) by (simp add: st'_def upd_tnode_def)
  next
    assume "\<exists>d \<in> set (subtrees t). s = graft p l d"
    then obtain d where d: "d \<in> set (subtrees t)" "s = graft p l d" by blast
    obtain m where m: "st (rid d) = Some m" "st_children m = map rid (rsub d)" "\<forall>c \<in> set (rsub d). parent_of st (rid c) = Some (rid d)"
      using assms(1) d(1) unfolding holds_tree_def by (auto split: option.splits)
    have "map rid (rsub s) = map rid (rsub d) @ (if rid d = p then [l] else [])" by (simp add: d(2) comp_def)
    moreover have "\<forall>c \<in> set (rsub s). parent_of st (rid c) = Some (rid s)" using m(3) pl by (auto simp: d(2))
    moreover have "\<exists>n. st' (rid d) = Some n \<and> st_children n = map rid (rsub d) @ (if rid d = p then [l] else [])"
      using m(1,2) by (cases "rid d = p") (simp_all add: st'_def upd_tnode_def)
    moreover have "rid s = rid d" by (simp add: d(2))
    ultimately show ?thesis by (auto simp: reads)
  qed
  then show ?thesis unfolding holds_tree_def st'_def [symmetric] by blast
qed

text \<open>
  Property C28. \<open>AddChild\<close> adds a leaf to the tree of registered classes: under the conditions that the registration macros establish (the new
  node is a leaf that names its parent, its own name is new) the call succeeds, the new node is the last child of the named
  one, and the counter is again the number of nodes. A name that is not registered is refused without effect.
\<close>
theorem AddChild_grafts:
  assumes "registered tr t" "height t \<le> f"
    and "p \<in> set (preorder t)" "leaf \<notin> set (preorder t)"
    and "tr_nodes tr leaf = Some n" "st_children n = []" "st_parent n = Some p"
    and "st_type n \<notin> insert [] (type_of (tr_nodes tr) ` set (preorder t))"
    and "other \<notin> insert [] (type_of (tr_nodes tr) ` set (preorder t))"
  shows "\<exists>tr'. AddChild f (type_of (tr_nodes tr) p) leaf tr = Some (Inr (True, tr')) \<and> registered tr' (graft p leaf t)
    \<and> AddChild f other leaf tr = Some (Inr (False, tr))"
proof -
  have t: "holds_tree (tr_nodes tr) t" "rid t = tr_root tr" "parent_of (tr_nodes tr) (rid t) = None" "distinct (preorder t)"
    "distinct (map (type_of (tr_nodes tr)) (preorder t))" "[] \<notin> set (map (type_of (tr_nodes tr)) (preorder t))"
    "s_children tr = int (length (preorder t))"
    using assms(1) unfolding registered_def by blast+
  define st' where "st' = upd_tnode p (\<lambda>n. n\<lparr>st_children := st_children n @ [leaf]\<rparr>) (tr_nodes tr)"
  define tr' where "tr' = tr\<lparr>tr_nodes := st', s_children := s_children tr + 1\<rparr>"
  note reads = upd_tnode_reads [OF st'_def]
  have "findNode f (type_of (tr_nodes tr) p) (tr_root tr) (tr_nodes tr) = Some (Inr (Some p))"
    using find_type [OF assms(1) subtrees_refl assms(3,2)] assms(3) by (simp add: t(2))
  then have add: "AddChild f (type_of (tr_nodes tr) p) leaf tr = Some (Inr (True, tr'))" by (simp add: AddChild_def tr'_def st'_def)
  have "List.find (\<lambda>i. type_of (tr_nodes tr) i = other) (preorder t) = None" using assms(9) by (auto simp: find_None_iff)
  then have no: "AddChild f other leaf tr = Some (Inr (False, tr))"
    using findNode_tree [OF _ t(1) assms(2), of other] assms(9) by (simp add: AddChild_def t(2))
  have ms: "mset (preorder (graft p leaf t)) = mset (leaf # preorder t)" using preorder_graft [OF t(4) assms(3)] by simp
  have msm: "mset (map g (preorder (graft p leaf t))) = mset (map g (leaf # preorder t))" for g :: "tid \<Rightarrow> string"
    using arg_cong [OF ms, of "image_mset g"] by simp
  have leaf: "type_of (tr_nodes tr) leaf = st_type n" using assms(5) by (simp add: type_of_def)
  have ty: "type_of st' = type_of (tr_nodes tr)" using reads(2) by blast
  have "leaf \<noteq> p" using assms(3,4) by blast
  then have "holds_tree st' (graft p leaf t)" unfolding st'_def using holds_graft [OF t(1) _ assms(5-7)] by blast
  moreover have "distinct (preorder (graft p leaf t))" using mset_eq_imp_distinct_iff [OF ms] t(4) assms(4) by simp
  moreover have "distinct (map (type_of st') (preorder (graft p leaf t)))"
    unfolding ty mset_eq_imp_distinct_iff [OF msm] using t(5) assms(8) by (simp add: leaf)
  moreover have "[] \<notin> set (map (type_of st') (preorder (graft p leaf t)))"
    unfolding ty mset_eq_setD [OF msm] using t(6) assms(8) by (auto simp: leaf)
  moreover have "length (preorder (graft p leaf t)) = Suc (length (preorder t))" using mset_eq_length [OF ms] by simp
  ultimately have "registered tr' (graft p leaf t)"
    using t(2,3,7) reads(1) unfolding registered_def tr'_def by simp
  then show ?thesis using add no by blast
qed

subsection \<open>Removing classes\<close>

lemma clear_below_undefined:
  assumes "parent_of (tr_nodes tr) (tr_root tr) = None"
  shows "holds_tree (tr_nodes tr) s \<Longrightarrow> rsub s \<noteq> [] \<Longrightarrow> height s \<le> f \<Longrightarrow> clearReleation f (rid s) tr = Some (Inl (TreeErr Undefined))"
proof (induction s arbitrary: f)
  case (RNode i ts)
  obtain d ds where ts: "ts = d # ds" using RNode.prems(2) by (cases ts) auto
  obtain g where f: "f = Suc g" using RNode.prems(3) by (cases f) simp_all
  have hd: "height d \<le> g" using RNode.prems(3) unfolding f height_le by (simp add: ts)
  obtain n where n: "tr_nodes tr i = Some n" "st_children n = map rid ts" "holds_tree (tr_nodes tr) d" "parent_of (tr_nodes tr) (rid d) = Some i"
    using holds_node [OF RNode.prems(1)] by (auto simp: ts)
  have "clear_loop g i (map rid ts) tr = Some (Inl (TreeErr Undefined))"
  proof (cases "rsub d = []")
    case False
    then show ?thesis using RNode.IH [of d g] n(3) hd by (simp add: ts)
  next
    case True
    obtain h where g: "g = Suc h" using hd height_pos [of d] by (cases g) simp_all
    obtain m where m: "tr_nodes tr (rid d) = Some m" "st_children m = []"
      using holds_root [OF n(3)] True by auto
    then have "st_parent m = Some i" "rid d \<noteq> tr_root tr" using n(4) assms by (auto simp: parent_of_def)
    then show ?thesis using m n(1) by (simp add: ts g upd_tnode_def)
  qed
  then show ?case using n(1,2) by (simp add: f ts)
qed

text \<open>
  Observation. With asserts in force no class is ever removed. \<open>removeChild\<close> asserts that the name is empty, the search it makes asserts that it is
  not, and \<open>clearTreeReleation\<close> uses the iterator of an erased element as soon as there is a class below the root.
\<close>
theorem tree_never_shrinks:
  assumes "registered tr t" "height t \<le> f" "rsub t \<noteq> []"
  shows "removeChild f type tr = Some (Inl AssertFailed) \<and> clearTreeReleation f tr = Some (Inl (TreeErr Undefined))"
proof
  have t: "holds_tree (tr_nodes tr) t" "rid t = tr_root tr" "parent_of (tr_nodes tr) (rid t) = None" "[] \<notin> set (map (type_of (tr_nodes tr)) (preorder t))"
    using assms(1) unfolding registered_def by blast+
  show "clearTreeReleation f tr = Some (Inl (TreeErr Undefined))"
    using clear_below_undefined [OF t(3) [unfolded t(2)] t(1) assms(3,2)] by (simp add: clearTreeReleation_def t(2))
  obtain g where f: "f = Suc g" using assms(2) height_pos [of t] by (cases f) simp_all
  obtain n where n: "tr_nodes tr (tr_root tr) = Some n" using holds_root [OF t(1)] t(2) by auto
  have "type_of (tr_nodes tr) (rid t) \<noteq> []" using t(4) rid_in_preorder [of t] by (metis image_eqI list.set_map)
  then show "removeChild f type tr = Some (Inl AssertFailed)" by (auto simp: removeChild_def f n t(2) type_of_def)
qed

subsection \<open>Examples\<close>

text \<open>Three generations, and a class that is not registered yet.\<close>

definition sample_tree :: treerel where
  "sample_tree = \<lparr>tr_nodes = (\<lambda>_. None)(
       1 \<mapsto> \<lparr>st_type = ''a'', st_funcptr = id, st_parent = None, st_children = [2]\<rparr>,
       2 \<mapsto> \<lparr>st_type = ''b'', st_funcptr = id, st_parent = Some 1, st_children = [3]\<rparr>,
       3 \<mapsto> \<lparr>st_type = ''c'', st_funcptr = id, st_parent = Some 2, st_children = []\<rparr>,
       4 \<mapsto> \<lparr>st_type = ''d'', st_funcptr = id, st_parent = Some 3, st_children = []\<rparr>), tr_root = 1, s_children = 3\<rparr>"

abbreviation sample_shape :: rtree where
  "sample_shape \<equiv> RNode 1 [RNode 2 [RNode 3 []]]"

lemma sample_registered: "registered sample_tree sample_shape"
  by (simp add: registered_def sample_tree_def holds_tree_def parent_of_def type_of_def)

lemma sample_types: "type_of (tr_nodes sample_tree) (Suc 0) = ''a''" "type_of (tr_nodes sample_tree) 2 = ''b''" "type_of (tr_nodes sample_tree) 3 = ''c''"
  by (simp_all add: sample_tree_def type_of_def)

lemma sample_leaf: "tr_nodes sample_tree 4 = Some \<lparr>st_type = ''d'', st_funcptr = id, st_parent = Some 3, st_children = []\<rparr>"
  by (simp add: sample_tree_def)

theorem relationcmp_two_generations_witness:
  "relationcmp 5 ''a'' ''c'' sample_tree = Some (Inr 2) \<and> relationcmp 5 ''c'' ''a'' sample_tree = Some (Inr (- 2))"
  using relationcmp_two_generations [OF sample_registered, of sample_shape "RNode 2 [RNode 3 []]" "RNode 3 []" 3]
  by (simp add: sample_types del: relationcmp.simps)

theorem AddChild_grafts_witness:
  "\<exists>tr'. AddChild 3 ''c'' 4 sample_tree = Some (Inr (True, tr')) \<and> registered tr' (RNode 1 [RNode 2 [RNode 3 [RNode 4 []]]])"
  using AddChild_grafts [OF sample_registered, of 3 3 4 "\<lparr>st_type = ''d'', st_funcptr = id, st_parent = Some 3, st_children = []\<rparr>" "''e''"]
  by (simp add: sample_types sample_leaf) blast

theorem tree_never_shrinks_witness:
  "removeChild 3 ''c'' sample_tree = Some (Inl AssertFailed) \<and> clearTreeReleation 3 sample_tree = Some (Inl (TreeErr Undefined))"
  by (rule tree_never_shrinks [OF sample_registered]) simp_all

end
