(* ===== verification/SyncCtrl.thy ===== *)
theory SyncCtrl
  imports XPrelude
begin

text \<open>
  The synchronisation classes of \<open>Thread/\<close> on Linux. A call that has to wait is \<open>None\<close>; the mutex inside a class delimits its operations. The
  fields of \<open>SemaphoreExImpl\<close> are \<open>unsigned char\<close>. \<open>TaskCtrlImpl\<close> lets one thread start a round of work in all registered threads and
  wait for them; the system of these threads is a step relation, and its rounds are proved to be separated.
\<close>

subsection \<open>Mutexes, locks and semaphores\<close>

record AtomMutexImpl =
  am_locked :: bool

definition AtomMutex_Lock :: "AtomMutexImpl \<Rightarrow> AtomMutexImpl option" where
  "AtomMutex_Lock m = (if am_locked m then None else Some (m\<lparr>am_locked := True\<rparr>))"

definition AtomMutex_UnLock :: "AtomMutexImpl \<Rightarrow> AtomMutexImpl" where
  "AtomMutex_UnLock m = m\<lparr>am_locked := False\<rparr>"

record MutexIntegerImpl =
  mi_val :: int
  mi_lock :: AtomMutexImpl

definition MutexInteger_new :: MutexIntegerImpl where
  "MutexInteger_new = \<lparr>mi_val = 0, mi_lock = \<lparr>am_locked = False\<rparr>\<rparr>"

definition MutexInteger_SetVal :: "int \<Rightarrow> MutexIntegerImpl \<Rightarrow> MutexIntegerImpl option" where
  "MutexInteger_SetVal n m =
     map_option (\<lambda>l. m\<lparr>mi_val := n, mi_lock := AtomMutex_UnLock l\<rparr>) (AtomMutex_Lock (mi_lock m))"

definition MutexInteger_getVal :: "MutexIntegerImpl \<Rightarrow> (int \<times> MutexIntegerImpl) option" where
  "MutexInteger_getVal m =
     map_option (\<lambda>l. (mi_val m, m\<lparr>mi_lock := AtomMutex_UnLock l\<rparr>)) (AtomMutex_Lock (mi_lock m))"

definition MutexInteger_IsVal :: "int \<Rightarrow> MutexIntegerImpl \<Rightarrow> (bool \<times> MutexIntegerImpl) option" where
  "MutexInteger_IsVal n m =
     map_option (\<lambda>l. (mi_val m = n, m\<lparr>mi_lock := AtomMutex_UnLock l\<rparr>)) (AtomMutex_Lock (mi_lock m))"

record RWLockImpl =
  rw_readers :: nat
  rw_writer :: bool

definition RW_LockWrite :: "RWLockImpl \<Rightarrow> RWLockImpl option" where
  "RW_LockWrite l = (if rw_writer l \<or> 0 < rw_readers l then None else Some (l\<lparr>rw_writer := True\<rparr>))"

definition RW_LockRead :: "RWLockImpl \<Rightarrow> RWLockImpl option" where
  "RW_LockRead l = (if rw_writer l then None else Some (l\<lparr>rw_readers := Suc (rw_readers l)\<rparr>))"

text \<open>Both unlock functions call \<open>pthread_rwlock_unlock\<close>, which is undefined for a lock that is not held.\<close>

definition RW_Unlock :: "RWLockImpl \<Rightarrow> xerror + RWLockImpl" where
  "RW_Unlock l =
     (if rw_writer l then Inr (l\<lparr>rw_writer := False\<rparr>)
      else if 0 < rw_readers l then Inr (l\<lparr>rw_readers := rw_readers l - 1\<rparr>) else Inl Undefined)"

definition RW_UnlockWrite :: "RWLockImpl \<Rightarrow> xerror + RWLockImpl" where
  "RW_UnlockWrite l = RW_Unlock l"

definition RW_UnlockRead :: "RWLockImpl \<Rightarrow> xerror + RWLockImpl" where
  "RW_UnlockRead l = RW_Unlock l"

definition Sem_Post :: "nat \<Rightarrow> nat" where
  "Sem_Post s = s + 1"

definition Sem_Wait :: "nat \<Rightarrow> nat option" where
  "Sem_Wait s = (if s = 0 then None else Some (s - 1))"

text \<open>\<open>ThreadCtrlExImpl\<close>: a mutex with two condition variables, given by the number of threads that wait for each.\<close>

record ThreadCtrlExImpl =
  tc_locked :: bool
  tc_condp :: nat
  tc_condc :: nat

definition TC_Lock :: "ThreadCtrlExImpl \<Rightarrow> ThreadCtrlExImpl option" where
  "TC_Lock c = (if tc_locked c then None else Some (c\<lparr>tc_locked := True\<rparr>))"

definition TC_Unlock :: "ThreadCtrlExImpl \<Rightarrow> ThreadCtrlExImpl" where
  "TC_Unlock c = c\<lparr>tc_locked := False\<rparr>"

definition TC_WaitProduce :: "ThreadCtrlExImpl \<Rightarrow> ThreadCtrlExImpl" where
  "TC_WaitProduce c = c\<lparr>tc_locked := False, tc_condp := tc_condp c + 1\<rparr>"

definition TC_WaitConsume :: "ThreadCtrlExImpl \<Rightarrow> ThreadCtrlExImpl" where
  "TC_WaitConsume c = c\<lparr>tc_locked := False, tc_condc := tc_condc c + 1\<rparr>"

definition TC_WakeProduce :: "bool \<Rightarrow> ThreadCtrlExImpl \<Rightarrow> ThreadCtrlExImpl" where
  "TC_WakeProduce bAll c = c\<lparr>tc_condp := (if bAll then 0 else tc_condp c - 1)\<rparr>"

definition TC_WakeConsume :: "bool \<Rightarrow> ThreadCtrlExImpl \<Rightarrow> ThreadCtrlExImpl" where
  "TC_WakeConsume bAll c = c\<lparr>tc_condc := (if bAll then 0 else tc_condc c - 1)\<rparr>"

subsection \<open>Counting semaphore with steps\<close>

record SemaphoreExImpl =
  se_nCount :: nat
  se_nWait :: nat
  se_nPost :: nat

text \<open>The constructor does not initialise \<open>m_nCount\<close>: its content is the argument.\<close>

definition SemEx_new :: "nat \<Rightarrow> SemaphoreExImpl" where
  "SemEx_new junk = \<lparr>se_nCount = junk, se_nWait = 1, se_nPost = 1\<rparr>"

definition to_uchar :: "int \<Rightarrow> nat" where
  "to_uchar n = nat (n mod 256)"

definition SemEx_Init :: "int \<Rightarrow> int \<Rightarrow> int \<Rightarrow> SemaphoreExImpl \<Rightarrow> SemaphoreExImpl" where
  "SemEx_Init nCount nWait nPost s = \<lparr>se_nCount = to_uchar nCount, se_nWait = to_uchar nWait, se_nPost = to_uchar nPost\<rparr>"

definition SemSignal :: "int \<Rightarrow> SemaphoreExImpl \<Rightarrow> SemaphoreExImpl" where
  "SemSignal n s =
     s\<lparr>se_nCount := to_uchar (int (se_nCount s) + (if 0 < n \<and> n < int (se_nPost s) then n else int (se_nPost s)))\<rparr>"

definition SemWait :: "int \<Rightarrow> SemaphoreExImpl \<Rightarrow> SemaphoreExImpl option" where
  "SemWait n s =
     (let nWait = (if 0 < n \<and> n < int (se_nWait s) then n else int (se_nWait s))
      in if int (se_nCount s) < nWait then None else Some (s\<lparr>se_nCount := to_uchar (int (se_nCount s) - nWait)\<rparr>))"

subsection \<open>Threads that are started together\<close>

record MultiThreadSync =
  mt_nths :: int
  mt_threads :: "(addr, nat) omap"

definition MT_new :: MultiThreadSync where
  "MT_new = \<lparr>mt_nths = 0, mt_threads = []\<rparr>"

definition MT_Init :: "int \<Rightarrow> MultiThreadSync \<Rightarrow> MultiThreadSync" where
  "MT_Init n m = m\<lparr>mt_nths := n, mt_threads := []\<rparr>"

definition MT_Wait :: "addr \<Rightarrow> MultiThreadSync \<Rightarrow> MultiThreadSync option" where
  "MT_Wait x m =
     (case map_of (mt_threads m) x of
        None \<Rightarrow> Some m
      | Some v \<Rightarrow> if v = 0 then None else Some (m\<lparr>mt_threads := massign x 0 (mt_threads m)\<rparr>))"

definition MT_Signal :: "MultiThreadSync \<Rightarrow> MultiThreadSync" where
  "MT_Signal m = (if mt_threads m = [] then m else m\<lparr>mt_threads := map (\<lambda>(x, v). (x, 1)) (mt_threads m)\<rparr>)"

definition MT_AddThread :: "addr \<Rightarrow> MultiThreadSync \<Rightarrow> MultiThreadSync" where
  "MT_AddThread x m = m\<lparr>mt_threads := minsert x 0 (mt_threads m)\<rparr>"

definition MT_DelThread :: "addr \<Rightarrow> MultiThreadSync \<Rightarrow> MultiThreadSync" where
  "MT_DelThread x m = m\<lparr>mt_threads := merase x (mt_threads m)\<rparr>"

record TaskCtrlImpl =
  m_semaEx :: SemaphoreExImpl
  m_multSync :: MultiThreadSync

definition TaskCtrl_Init :: "int \<Rightarrow> TaskCtrlImpl \<Rightarrow> TaskCtrlImpl" where
  "TaskCtrl_Init n c = c\<lparr>m_semaEx := SemEx_Init 0 n 1 (m_semaEx c), m_multSync := MT_Init n (m_multSync c)\<rparr>"

text \<open>
  \<open>SyncTaskOneTime\<close> signals and then waits; other threads run in between, so the two calls are separate. The definition of the
  whole is the case where nothing runs in between.
\<close>

definition Sync_signal :: "TaskCtrlImpl \<Rightarrow> TaskCtrlImpl" where
  "Sync_signal c = c\<lparr>m_multSync := MT_Signal (m_multSync c)\<rparr>"

definition Sync_wait :: "TaskCtrlImpl \<Rightarrow> TaskCtrlImpl option" where
  "Sync_wait c = map_option (\<lambda>s. c\<lparr>m_semaEx := s\<rparr>) (SemWait (- 1) (m_semaEx c))"

definition SyncTaskOneTime :: "TaskCtrlImpl \<Rightarrow> TaskCtrlImpl option" where
  "SyncTaskOneTime c = Sync_wait (Sync_signal c)"

definition TaskCtrl_wait :: "addr \<Rightarrow> TaskCtrlImpl \<Rightarrow> TaskCtrlImpl option" where
  "TaskCtrl_wait x c = map_option (\<lambda>m. c\<lparr>m_multSync := m\<rparr>) (MT_Wait x (m_multSync c))"

definition TaskCtrl_done :: "TaskCtrlImpl \<Rightarrow> TaskCtrlImpl" where
  "TaskCtrl_done c = c\<lparr>m_semaEx := SemSignal (- 1) (m_semaEx c)\<rparr>"

definition TaskCtrl_AddThread :: "addr \<Rightarrow> TaskCtrlImpl \<Rightarrow> TaskCtrlImpl" where
  "TaskCtrl_AddThread x c = c\<lparr>m_multSync := MT_AddThread x (m_multSync c)\<rparr>"

definition TaskCtrl_DelThread :: "addr \<Rightarrow> TaskCtrlImpl \<Rightarrow> TaskCtrlImpl" where
  "TaskCtrl_DelThread x c = c\<lparr>m_multSync := MT_DelThread x (m_multSync c)\<rparr>"

subsection \<open>Rounds of work\<close>

text \<open>
  One thread calls \<open>SyncTaskOneTime\<close> again and again, every registered thread calls \<open>wait\<close>, works and calls \<open>done\<close>. \<open>ro_main\<close>: the first one is inside
  the call; \<open>ro_work\<close>: the threads at work; \<open>ro_rounds\<close>, \<open>ro_tasks\<close>: completed calls and completed pieces of work.
\<close>

record rounds =
  ro_ctrl :: TaskCtrlImpl
  ro_main :: bool
  ro_work :: "addr \<Rightarrow> bool"
  ro_rounds :: nat
  ro_tasks :: "addr \<Rightarrow> nat"

definition rounds_start :: "nat \<Rightarrow> addr list \<Rightarrow> rounds" where
  "rounds_start junk xs =
     \<lparr>ro_ctrl = fold TaskCtrl_AddThread xs (TaskCtrl_Init (int (length xs)) \<lparr>m_semaEx = SemEx_new junk, m_multSync = MT_new\<rparr>),
      ro_main = False, ro_work = (\<lambda>_. False), ro_rounds = 0, ro_tasks = (\<lambda>_. 0)\<rparr>"

inductive rounds_step :: "addr set \<Rightarrow> rounds \<Rightarrow> rounds \<Rightarrow> bool" for X where
  Begin: "\<not> ro_main s \<Longrightarrow> rounds_step X s (s\<lparr>ro_main := True, ro_ctrl := Sync_signal (ro_ctrl s)\<rparr>)"
| Return: "ro_main s \<Longrightarrow> Sync_wait (ro_ctrl s) = Some c \<Longrightarrow>
    rounds_step X s (s\<lparr>ro_main := False, ro_ctrl := c, ro_rounds := Suc (ro_rounds s)\<rparr>)"
| Take: "x \<in> X \<Longrightarrow> \<not> ro_work s x \<Longrightarrow> TaskCtrl_wait x (ro_ctrl s) = Some c \<Longrightarrow>
    rounds_step X s (s\<lparr>ro_work := (ro_work s)(x := True), ro_ctrl := c\<rparr>)"
| Done: "x \<in> X \<Longrightarrow> ro_work s x \<Longrightarrow>
    rounds_step X s (s\<lparr>ro_work := (ro_work s)(x := False), ro_tasks := (ro_tasks s)(x := Suc (ro_tasks s x)), ro_ctrl := TaskCtrl_done (ro_ctrl s)\<rparr>)"

inductive rounds_reach :: "nat \<Rightarrow> addr list \<Rightarrow> rounds \<Rightarrow> bool" for junk xs where
  Start: "rounds_reach junk xs (rounds_start junk xs)"
| Step: "rounds_reach junk xs s \<Longrightarrow> rounds_step (set xs) s s' \<Longrightarrow> rounds_reach junk xs s'"

inductive_cases rounds_stepE: "rounds_step X s s'"

text \<open>
  Every thread is signalled, at work or finished while the first one is inside the call, and idle outside of it. The
  semaphore counts the finished ones.
\<close>

definition flag_of :: "rounds \<Rightarrow> addr \<Rightarrow> nat option" where
  "flag_of s x = map_of (mt_threads (m_multSync (ro_ctrl s))) x"

definition thread_ok :: "rounds \<Rightarrow> addr \<Rightarrow> bool" where
  "thread_ok s x \<longleftrightarrow>
     (if ro_main s then
        (flag_of s x, ro_work s x, ro_tasks s x) \<in>
          {(Some 1, False, ro_rounds s), (Some 0, True, ro_rounds s), (Some 0, False, Suc (ro_rounds s))}
      else (flag_of s x, ro_work s x, ro_tasks s x) = (Some 0, False, ro_rounds s))"

definition finished :: "addr list \<Rightarrow> rounds \<Rightarrow> addr set" where
  "finished xs s = {x \<in> set xs. ro_tasks s x = Suc (ro_rounds s)}"

definition rounds_inv :: "addr list \<Rightarrow> rounds \<Rightarrow> bool" where
  "rounds_inv xs s \<longleftrightarrow>
     msorted (mt_threads (m_multSync (ro_ctrl s))) \<and> fst ` set (mt_threads (m_multSync (ro_ctrl s))) = set xs
     \<and> se_nWait (m_semaEx (ro_ctrl s)) = length xs \<and> se_nPost (m_semaEx (ro_ctrl s)) = 1
     \<and> se_nCount (m_semaEx (ro_ctrl s)) = card (finished xs s) \<and> (\<forall>x \<in> set xs. thread_ok s x)"

lemma to_uchar_small: "0 \<le> n \<Longrightarrow> n < 256 \<Longrightarrow> to_uchar n = nat n"
  by (simp add: to_uchar_def)

lemma msorted_keys_map: "msorted (map (\<lambda>(x, v). (x, f v)) m) = msorted m"
  by (simp add: msorted_def comp_def case_prod_unfold)

lemma keys_values: "fst ` set (map (\<lambda>(x, v). (x, f v)) m) = fst ` set m"
  by force

lemma map_of_values: "map_of (map (\<lambda>(x, v). (x, f v)) m) k = map_option f (map_of m k)"
  by (induction m) auto

lemma add_threads:
  "msorted (mt_threads (m_multSync c)) \<Longrightarrow> (\<forall>x. map_of (mt_threads (m_multSync c)) x \<in> {None, Some 0}) \<Longrightarrow>
   (let c' = fold TaskCtrl_AddThread xs c; m = mt_threads (m_multSync c')
    in m_semaEx c' = m_semaEx c \<and> msorted m \<and> fst ` set m = set xs \<union> fst ` set (mt_threads (m_multSync c)) \<and> (\<forall>x. map_of m x \<in> {None, Some 0}))"
proof (induction xs arbitrary: c)
  case (Cons a xs)
  have "msorted (mt_threads (m_multSync (TaskCtrl_AddThread a c)))" "\<forall>x. map_of (mt_threads (m_multSync (TaskCtrl_AddThread a c))) x \<in> {None, Some 0}"
    using Cons.prems by (auto simp: TaskCtrl_AddThread_def MT_AddThread_def map_of_minsert)
  from Cons.IH [OF this] show ?case by (simp add: Let_def) (auto simp: TaskCtrl_AddThread_def MT_AddThread_def)
qed simp

lemma rounds_start_inv:
  assumes "length xs < 256"
  shows "rounds_inv xs (rounds_start junk xs)"
proof -
  let ?c0 = "TaskCtrl_Init (int (length xs)) \<lparr>m_semaEx = SemEx_new junk, m_multSync = MT_new\<rparr>"
  let ?m = "mt_threads (m_multSync (fold TaskCtrl_AddThread xs ?c0))"
  have a: "m_semaEx (fold TaskCtrl_AddThread xs ?c0) = m_semaEx ?c0" "msorted ?m" "fst ` set ?m = set xs" "\<forall>x. map_of ?m x \<in> {None, Some 0}"
    using add_threads [of ?c0 xs] by (simp_all add: Let_def TaskCtrl_Init_def MT_Init_def)
  have "map_of ?m x = Some 0" if "x \<in> set xs" for x
    using a(3,4) that by (metis insertE map_of_eq_None_iff singletonD)
  then show ?thesis
    using a(1-3) assms
    by (simp add: rounds_inv_def rounds_start_def thread_ok_def flag_of_def finished_def TaskCtrl_Init_def SemEx_Init_def to_uchar_small)
qed

lemma TaskCtrl_fields:
  "m_multSync (TaskCtrl_done c) = m_multSync c" "m_semaEx (Sync_signal c) = m_semaEx c"
  "Sync_wait c = Some c' \<Longrightarrow> m_multSync c' = m_multSync c"
  "TaskCtrl_wait x c = Some c' \<Longrightarrow> m_semaEx c' = m_semaEx c"
  by (auto simp: TaskCtrl_done_def Sync_signal_def Sync_wait_def TaskCtrl_wait_def)

lemma inv_flag: "rounds_inv xs s \<Longrightarrow> x \<in> set xs \<Longrightarrow> thread_ok s x"
  by (simp add: rounds_inv_def)

lemma Begin_inv:
  assumes "rounds_inv xs s" "\<not> ro_main s"
  shows "rounds_inv xs (s\<lparr>ro_main := True, ro_ctrl := Sync_signal (ro_ctrl s)\<rparr>)"
proof -
  let ?s = "s\<lparr>ro_main := True, ro_ctrl := Sync_signal (ro_ctrl s)\<rparr>" and ?m = "mt_threads (m_multSync (ro_ctrl s))"
  have m: "mt_threads (m_multSync (ro_ctrl ?s)) = map (\<lambda>(x, v). (x, 1)) ?m" by (simp add: Sync_signal_def MT_Signal_def)
  have "thread_ok ?s x" if "x \<in> set xs" for x
    using inv_flag [OF assms(1) that] assms(2) m by (simp add: thread_ok_def flag_of_def map_of_values)
  moreover have "finished xs ?s = finished xs s" by (simp add: finished_def)
  ultimately show ?thesis using assms(1) unfolding rounds_inv_def m by (simp add: TaskCtrl_fields msorted_keys_map keys_values del: set_map)
qed

lemma Return_all_done:
  assumes "rounds_inv xs s" "Sync_wait (ro_ctrl s) = Some c" "distinct xs"
  shows "finished xs s = set xs" "se_nCount (m_semaEx c) = 0"
    "se_nWait (m_semaEx c) = length xs" "se_nPost (m_semaEx c) = 1"
proof -
  let ?q = "m_semaEx (ro_ctrl s)"
  have q: "se_nWait ?q = length xs" "se_nPost ?q = 1" "se_nCount ?q = card (finished xs s)" using assms(1) by (simp_all add: rounds_inv_def)
  have sub: "finished xs s \<subseteq> set xs" by (auto simp: finished_def)
  then have le: "card (finished xs s) \<le> card (set xs)" by (intro card_mono) simp_all
  have w: "length xs \<le> card (finished xs s)" and c: "m_semaEx c = ?q\<lparr>se_nCount := to_uchar (int (se_nCount ?q) - int (length xs))\<rparr>"
    using assms(2) q by (auto simp: Sync_wait_def SemWait_def Let_def split: if_splits)
  have eq: "card (finished xs s) = card (set xs)" using le w distinct_card [OF assms(3)] by simp
  then show "finished xs s = set xs" using card_subset_eq [OF _ sub] by simp
  show "se_nCount (m_semaEx c) = 0" "se_nWait (m_semaEx c) = length xs" "se_nPost (m_semaEx c) = 1"
    using c q eq distinct_card [OF assms(3)] by (simp_all add: to_uchar_def)
qed

lemma Return_inv:
  assumes "rounds_inv xs s" "ro_main s" "Sync_wait (ro_ctrl s) = Some c" "distinct xs"
  shows "rounds_inv xs (s\<lparr>ro_main := False, ro_ctrl := c, ro_rounds := Suc (ro_rounds s)\<rparr>)"
proof -
  let ?s = "s\<lparr>ro_main := False, ro_ctrl := c, ro_rounds := Suc (ro_rounds s)\<rparr>"
  note all = Return_all_done [OF assms(1,3,4)]
  have m: "m_multSync c = m_multSync (ro_ctrl s)" by (rule TaskCtrl_fields(3) [OF assms(3)])
  have t: "thread_ok ?s x \<and> ro_tasks s x = Suc (ro_rounds s)" if "x \<in> set xs" for x
  proof -
    have "ro_tasks s x = Suc (ro_rounds s)" using that all(1) by (auto simp: finished_def)
    then show ?thesis using inv_flag [OF assms(1) that] assms(2) m by (simp add: thread_ok_def flag_of_def)
  qed
  then have "finished xs ?s = {}" by (auto simp: finished_def)
  then show ?thesis using assms(1) t all(2-4) unfolding rounds_inv_def by (simp add: m)
qed

lemma Take_inv:
  assumes "rounds_inv xs s" "x \<in> set xs" "\<not> ro_work s x" "TaskCtrl_wait x (ro_ctrl s) = Some c"
  shows "rounds_inv xs (s\<lparr>ro_work := (ro_work s)(x := True), ro_ctrl := c\<rparr>)"
proof -
  let ?s = "s\<lparr>ro_work := (ro_work s)(x := True), ro_ctrl := c\<rparr>" and ?m = "mt_threads (m_multSync (ro_ctrl s))"
  have srt: "msorted ?m" "fst ` set ?m = set xs" using assms(1) by (simp_all add: rounds_inv_def)
  obtain v where v: "map_of ?m x = Some v" using inv_flag [OF assms(1,2)] by (auto simp: thread_ok_def flag_of_def split: if_splits)
  have c: "mt_threads (m_multSync c) = massign x 0 ?m" and v1: "v \<noteq> 0"
    using assms(4) v by (auto simp: TaskCtrl_wait_def MT_Wait_def split: if_splits)
  have "thread_ok ?s y" if "y \<in> set xs" for y
    using inv_flag [OF assms(1) that] inv_flag [OF assms(1,2)] v v1 assms(3)
    by (auto simp: thread_ok_def flag_of_def c map_of_massign [OF srt(1)] split: if_splits)
  moreover have "finished xs ?s = finished xs s" by (simp add: finished_def)
  ultimately show ?thesis
    using assms(1,2) srt unfolding rounds_inv_def by (simp add: c TaskCtrl_fields(4) [OF assms(4)] insert_absorb)
qed

lemma Done_inv:
  assumes "rounds_inv xs s" "x \<in> set xs" "ro_work s x" "length xs < 256" "distinct xs"
  shows "rounds_inv xs (s\<lparr>ro_work := (ro_work s)(x := False), ro_tasks := (ro_tasks s)(x := Suc (ro_tasks s x)), ro_ctrl := TaskCtrl_done (ro_ctrl s)\<rparr>)"
proof -
  let ?s = "s\<lparr>ro_work := (ro_work s)(x := False), ro_tasks := (ro_tasks s)(x := Suc (ro_tasks s x)), ro_ctrl := TaskCtrl_done (ro_ctrl s)\<rparr>"
  let ?q = "m_semaEx (ro_ctrl s)"
  have x: "ro_main s" "ro_tasks s x = ro_rounds s" using inv_flag [OF assms(1,2)] assms(3) by (auto simp: thread_ok_def split: if_splits)
  have "thread_ok ?s y" if "y \<in> set xs" for y
    using inv_flag [OF assms(1) that] x assms(3) by (auto simp: thread_ok_def flag_of_def TaskCtrl_fields)
  moreover have fin: "finished xs ?s = insert x (finished xs s)" "x \<notin> finished xs s"
    using assms(2) x(2) by (auto simp: finished_def)
  have card: "card (insert x (finished xs s)) = Suc (card (finished xs s))"
    using fin(2) by (simp add: finished_def)
  have "card (insert x (finished xs s)) \<le> card (set xs)" using assms(2) by (intro card_mono) (auto simp: finished_def)
  then have "Suc (card (finished xs s)) < 256" using card assms(4) distinct_card [OF assms(5)] by simp
  then have "se_nCount (m_semaEx (TaskCtrl_done (ro_ctrl s))) = Suc (card (finished xs s))"
    using assms(1) by (simp add: rounds_inv_def TaskCtrl_done_def SemSignal_def to_uchar_small)
  ultimately show ?thesis
    using assms(1) fin card unfolding rounds_inv_def by (simp add: TaskCtrl_fields) (simp add: TaskCtrl_done_def SemSignal_def)
qed

lemma rounds_reach_inv: "rounds_reach junk xs s \<Longrightarrow> distinct xs \<Longrightarrow> length xs < 256 \<Longrightarrow> rounds_inv xs s"
proof (induction rule: rounds_reach.induct)
  case (Step s s')
  then have "rounds_inv xs s" by blast
  with Step(2) Step.prems show ?case
    by (elim rounds_stepE) (auto intro: Begin_inv Return_inv Take_inv Done_inv)
qed (rule rounds_start_inv)

text \<open>
  Property C9. \<open>TaskCtrl\<close> separates rounds of work. In every state that the calling thread and up to 255 registered threads can reach, a
  thread has completed as many pieces of work as calls of \<open>SyncTaskOneTime\<close> have returned, or one more while a call is in progress; outside
  of a call no thread is at work, and when a call returns every thread has worked exactly once since it began.
\<close>
theorem rounds_are_separated:
  assumes "rounds_reach junk xs s" "distinct xs" "length xs < 256" "x \<in> set xs"
  shows "(ro_tasks s x = ro_rounds s \<or> ro_main s \<and> \<not> ro_work s x \<and> ro_tasks s x = Suc (ro_rounds s))
    \<and> (\<not> ro_main s \<longrightarrow> \<not> ro_work s x)
    \<and> (ro_main s \<and> Sync_wait (ro_ctrl s) \<noteq> None \<longrightarrow> \<not> ro_work s x \<and> ro_tasks s x = Suc (ro_rounds s))"
proof -
  have inv: "rounds_inv xs s" using rounds_reach_inv assms(1-3) by blast
  note ok = inv_flag [OF inv assms(4)]
  have "x \<in> finished xs s" if "Sync_wait (ro_ctrl s) \<noteq> None"
    using that Return_all_done(1) [OF inv] assms(2,4) by blast
  then have "ro_main s \<and> Sync_wait (ro_ctrl s) \<noteq> None \<longrightarrow> \<not> ro_work s x \<and> ro_tasks s x = Suc (ro_rounds s)"
    using ok by (auto simp: thread_ok_def finished_def)
  then show ?thesis using ok by (auto simp: thread_ok_def split: if_splits)
qed

text \<open>What is left to do in the round: a signalled thread has two steps, a working one has one.\<close>

definition todo :: "rounds \<Rightarrow> addr \<Rightarrow> nat" where
  "todo s x = (if flag_of s x = Some 1 then 2 else if ro_work s x then 1 else 0)"

lemma sum_less_at:
  fixes f g :: "addr \<Rightarrow> nat"
  assumes "finite A" "x \<in> A" "f x < g x" "\<And>y. y \<noteq> x \<Longrightarrow> f y = g y"
  shows "sum f A < sum g A"
proof (rule sum_strict_mono_ex1 [OF assms(1)])
  show "\<forall>y \<in> A. f y \<le> g y" using assms(3,4) by (metis order_le_less)
qed (use assms(2,3) in blast)

lemma Take_todo:
  assumes "rounds_inv xs s" "x \<in> set xs" "\<not> ro_work s x" "TaskCtrl_wait x (ro_ctrl s) = Some c"
  shows "sum (todo (s\<lparr>ro_work := (ro_work s)(x := True), ro_ctrl := c\<rparr>)) (set xs) < sum (todo s) (set xs)"
proof (rule sum_less_at [OF _ assms(2)])
  let ?m = "mt_threads (m_multSync (ro_ctrl s))"
  have srt: "msorted ?m" using assms(1) by (simp add: rounds_inv_def)
  obtain v where v: "map_of ?m x = Some v" using inv_flag [OF assms(1,2)] by (auto simp: thread_ok_def flag_of_def split: if_splits)
  have c: "mt_threads (m_multSync c) = massign x 0 ?m" and v1: "v \<noteq> 0"
    using assms(4) v by (auto simp: TaskCtrl_wait_def MT_Wait_def split: if_splits)
  have "flag_of s x = Some 1" using inv_flag [OF assms(1,2)] v v1 by (auto simp: thread_ok_def flag_of_def split: if_splits)
  then show "todo (s\<lparr>ro_work := (ro_work s)(x := True), ro_ctrl := c\<rparr>) x < todo s x"
    by (simp add: todo_def flag_of_def c map_of_massign [OF srt])
  show "todo (s\<lparr>ro_work := (ro_work s)(x := True), ro_ctrl := c\<rparr>) y = todo s y" if "y \<noteq> x" for y
    using that by (simp add: todo_def flag_of_def c map_of_massign [OF srt])
qed simp

lemma Done_todo:
  assumes "rounds_inv xs s" "x \<in> set xs" "ro_work s x"
  shows "sum (todo (s\<lparr>ro_work := (ro_work s)(x := False), ro_tasks := t, ro_ctrl := TaskCtrl_done (ro_ctrl s)\<rparr>)) (set xs) < sum (todo s) (set xs)"
proof (rule sum_less_at [OF _ assms(2)])
  have "flag_of s x = Some 0" using inv_flag [OF assms(1,2)] assms(3) by (auto simp: thread_ok_def split: if_splits)
  then show "todo (s\<lparr>ro_work := (ro_work s)(x := False), ro_tasks := t, ro_ctrl := TaskCtrl_done (ro_ctrl s)\<rparr>) x < todo s x"
    using assms(3) by (simp add: todo_def flag_of_def TaskCtrl_fields)
qed (simp_all add: todo_def flag_of_def TaskCtrl_fields)

lemma rounds_can_step:
  assumes "rounds_inv xs s" "distinct xs"
  shows "\<exists>s'. rounds_step (set xs) s s'"
proof -
  consider "\<not> ro_main s" | x where "x \<in> set xs" "ro_work s x"
    | x where "ro_main s" "x \<in> set xs" "\<not> ro_work s x" "flag_of s x = Some 1"
    | "ro_main s" "\<forall>x \<in> set xs. \<not> ro_work s x \<and> flag_of s x \<noteq> Some 1" by blast
  then show ?thesis
  proof cases
    case (3 x)
    then have "TaskCtrl_wait x (ro_ctrl s) \<noteq> None" by (simp add: TaskCtrl_wait_def MT_Wait_def flag_of_def)
    with 3 show ?thesis by (blast intro: rounds_step.Take)
  next
    case 4
    then have "finished xs s = set xs" using inv_flag [OF assms(1)] by (fastforce simp: thread_ok_def finished_def)
    then have "Sync_wait (ro_ctrl s) \<noteq> None"
      using assms(1) distinct_card [OF assms(2)] by (simp add: rounds_inv_def Sync_wait_def SemWait_def)
    with 4 show ?thesis by (blast intro: rounds_step.Return)
  qed (blast intro: rounds_step.Begin rounds_step.Done)+
qed

text \<open>
  Property C12. A round of \<open>TaskCtrl\<close> ends under every schedule: in no reachable state are all threads stuck, and while a call of
  \<open>SyncTaskOneTime\<close> is in progress every step that does not end it lowers what is left to do, so that the call returns after
  at most two steps of every registered thread.
\<close>
theorem rounds_make_progress:
  assumes "rounds_reach junk xs s" "distinct xs" "length xs < 256"
  shows "(\<exists>s'. rounds_step (set xs) s s')
    \<and> (\<forall>s'. ro_main s \<and> rounds_step (set xs) s s' \<and> ro_main s' \<longrightarrow> sum (todo s') (set xs) < sum (todo s) (set xs))"
proof -
  have inv: "rounds_inv xs s" using rounds_reach_inv assms by blast
  have "sum (todo s') (set xs) < sum (todo s) (set xs)" if "ro_main s" "rounds_step (set xs) s s'" "ro_main s'" for s'
    using that(2,1,3) by (cases rule: rounds_step.cases) (auto intro: Take_todo [OF inv] Done_todo [OF inv])
  then show ?thesis using rounds_can_step [OF inv assms(2)] by blast
qed

text \<open>
  Observation. The counters have 8 bits: set up for 256 threads, \<open>SyncTaskOneTime\<close> waits for none of them.
\<close>
theorem sync_256_waits_for_none:
  "\<exists>c'. SyncTaskOneTime (TaskCtrl_Init 256 c) = Some c'"
  by (simp add: SyncTaskOneTime_def TaskCtrl_Init_def Sync_wait_def Sync_signal_def SemWait_def SemEx_Init_def to_uchar_def)

lemma two_rounds: "rounds_reach 7 [10, 20] (rounds_start 7 [10, 20])" "distinct [10 :: addr, 20]" "length [10 :: addr, 20] < 256"
  by (auto intro: rounds_reach.Start)

theorem rounds_are_separated_witness:
  "ro_tasks (rounds_start 7 [10, 20]) 10 = 0 \<and> \<not> ro_work (rounds_start 7 [10, 20]) 10"
  using rounds_are_separated [OF two_rounds, of 10] by (simp add: rounds_start_def)

theorem rounds_make_progress_witness: "\<exists>s'. rounds_step {10, 20} (rounds_start 7 [10, 20]) s'"
  using rounds_make_progress [OF two_rounds] by simp

end
