(* ===== verification/AsyncNet.thy ===== *)
theory AsyncNet
  imports TPool
begin

text \<open>
  The asynchronous socket layer on Linux (\<open>Net/AsyncNetDefine.h\<close>, \<open>AsyncServer\<close>, \<open>AsyncClient\<close> and their epoll implementations). Buffers
  are posted per socket, an event thread turns readiness into tasks of a thread pool (\<open>TPool\<close>), the workers receive or send and queue
  completed requests for the consumer. The kernel is a parameter: a record of the system calls used, over a state of its
  own. Calls with an effect on descriptors are recorded in \<open>an_log\<close>. Byte counts are natural numbers. A pointer to
  a \<open>PackPerData\<close> is its position, as in \<open>PackPer\<close>. An uninitialised operation code is \<open>None\<close>. The loop of the reader takes fuel.
\<close>

datatype OpType = OP_ACCEPT | OP_EXIT | OP_READ | OP_WRITE

record mem_node =
  mn_pData :: addr
  mn_nCount :: nat
  mn_nTrans :: nat
  mn_nSize :: nat
  mn_nIndex :: int
  mn_prev :: "nat option"
  mn_oType :: "OpType option"

definition MemNode_new :: mem_node where
  "MemNode_new = \<lparr>mn_pData = 0, mn_nCount = 0, mn_nTrans = 0, mn_nSize = 0, mn_nIndex = - 1, mn_prev = None, mn_oType = None\<rparr>"

definition MemNode_Reset :: "mem_node \<Rightarrow> bmem \<Rightarrow> mem_node \<times> bmem" where
  "MemNode_Reset n mem =
     (if mn_pData n \<noteq> 0 then (n\<lparr>mn_nTrans := 0, mn_prev := None\<rparr>, mset0 mem (mn_pData n) (mn_nSize n)) else (n, mem))"

definition MemNode_Valid :: "mem_node \<Rightarrow> bool" where
  "MemNode_Valid n \<longleftrightarrow> mn_pData n \<noteq> 0 \<and> mn_nCount n \<noteq> 0"

record post_req =
  pr_node :: mem_node
  pr_cSock :: int
  pr_sSock :: int
  pr_ip :: string

text \<open>\<open>SPostReq\<close> and \<open>CPostReq\<close>; the second has no server socket and no address.\<close>

definition PostReq_of :: "mem_node \<Rightarrow> post_req" where
  "PostReq_of n = \<lparr>pr_node = n, pr_cSock = - 1, pr_sSock = - 1, pr_ip = []\<rparr>"

definition SPostReq_Valid :: "post_req \<Rightarrow> bool" where
  "SPostReq_Valid r \<longleftrightarrow> pr_cSock r \<noteq> - 1 \<and> pr_sSock r \<noteq> - 1"

definition CPostReq_Valid :: "post_req \<Rightarrow> bool" where
  "CPostReq_Valid r \<longleftrightarrow> pr_cSock r \<noteq> - 1"

subsection \<open>Queues per socket\<close>

type_synonym dispatch = "(int, mem_node list) omap"

definition AppendNew :: "int \<Rightarrow> dispatch \<Rightarrow> dispatch" where
  "AppendNew sock d = minsert sock [] d"

definition DeleteOut :: "int \<Rightarrow> dispatch \<Rightarrow> dispatch" where
  "DeleteOut sock d = merase sock d"

definition AppendData :: "int \<Rightarrow> mem_node \<Rightarrow> dispatch \<Rightarrow> dispatch" where
  "AppendData sock n d = (case map_of d sock of None \<Rightarrow> d | Some q \<Rightarrow> massign sock (q @ [n]) d)"

definition PushBack :: "int \<Rightarrow> mem_node \<Rightarrow> dispatch \<Rightarrow> dispatch" where
  "PushBack sock n d = (case map_of d sock of None \<Rightarrow> d | Some q \<Rightarrow> massign sock (n # q) d)"

text \<open>\<open>front\<close> of an empty list is undefined.\<close>

definition GetAndPopFront :: "int \<Rightarrow> dispatch \<Rightarrow> xerror + (mem_node \<times> dispatch)" where
  "GetAndPopFront sock d =
     (case map_of d sock of
        None \<Rightarrow> Inr (MemNode_new, d)
      | Some [] \<Rightarrow> Inl Undefined
      | Some (n # q) \<Rightarrow> Inr (n, massign sock q d))"

subsection \<open>State\<close>

datatype net_event =
    EpollAdd int int bool
  | EpollDel int int
  | CloseFd int
  | Connected int

record 'k kernel =
  k_socket :: "'k \<Rightarrow> int \<times> 'k"
  k_bind :: "int \<Rightarrow> int \<Rightarrow> 'k \<Rightarrow> bool \<times> 'k"
  k_listen :: "int \<Rightarrow> 'k \<Rightarrow> bool \<times> 'k"
  k_epoll_create :: "'k \<Rightarrow> int \<times> 'k"
  k_accept :: "int \<Rightarrow> 'k \<Rightarrow> (int \<times> string) \<times> 'k"
  k_connect :: "int \<Rightarrow> string \<Rightarrow> int \<Rightarrow> 'k \<Rightarrow> bool \<times> 'k"
  k_recv :: "int \<Rightarrow> nat \<Rightarrow> 'k \<Rightarrow> 8 word list option \<times> 'k"
  k_send :: "int \<Rightarrow> 8 word list \<Rightarrow> 'k \<Rightarrow> int \<times> 'k"

text \<open>
  \<open>an_socks\<close>: the sockets of the tasks created so far, by the identity of the task. \<open>an_ip\<close> and \<open>an_port\<close> are used by the
  client.
\<close>

record 'k anet =
  an_run :: bool
  an_sock :: int
  an_hEpoll :: int
  an_data :: "post_req list"
  an_read :: dispatch
  an_write :: dispatch
  an_pool :: tpool
  an_socks :: "nat \<Rightarrow> int \<times> int"
  an_next :: nat
  an_ip :: string
  an_port :: int
  an_mem :: bmem
  an_k :: 'k
  an_log :: "net_event list"

definition READTASK :: jobtype where "READTASK = ''0''"
definition WRITETASK :: jobtype where "WRITETASK = ''1''"

definition AsyncNet_new :: "nat \<Rightarrow> bmem \<Rightarrow> 'k \<Rightarrow> 'k anet" where
  "AsyncNet_new nthPool mem k =
     \<lparr>an_run = False, an_sock = - 1, an_hEpoll = - 1, an_data = [], an_read = [], an_write = [], an_pool = ThreadPoolImpl_new nthPool,
      an_socks = (\<lambda>_. (- 1, - 1)), an_next = 0, an_ip = [], an_port = 0, an_mem = mem, an_k = k, an_log = []\<rparr>"

definition an_event :: "net_event \<Rightarrow> 'k anet \<Rightarrow> 'k anet" where
  "an_event e st = st\<lparr>an_log := an_log st @ [e]\<rparr>"

definition ProduceNode :: "post_req \<Rightarrow> 'k anet \<Rightarrow> 'k anet" where
  "ProduceNode r st = (if \<not> an_run st then st else st\<lparr>an_data := an_data st @ [r]\<rparr>)"

text \<open>\<open>GetQueueComplateStatus\<close> waits for a request; the result is its validity and the request.\<close>

definition GetQueueComplateStatus :: "(post_req \<Rightarrow> bool) \<Rightarrow> 'k anet \<Rightarrow> (bool \<times> post_req option \<times> 'k anet) option" where
  "GetQueueComplateStatus valid st =
     (if \<not> an_run st then Some (False, None, st)
      else case an_data st of
        [] \<Rightarrow> None
      | r # rs \<Rightarrow> Some (valid r, Some r, st\<lparr>an_data := rs\<rparr>))"

definition postQuest :: "int \<Rightarrow> jobtype \<Rightarrow> mem_node \<Rightarrow> 'k anet \<Rightarrow> 'k anet" where
  "postQuest sock type n st =
     (if \<not> an_run st then st
      else if type = READTASK then st\<lparr>an_read := AppendData sock n (an_read st)\<rparr>
      else if type = WRITETASK then st\<lparr>an_write := AppendData sock n (an_write st)\<rparr>
      else st)"

subsection \<open>Receiving and sending\<close>

definition EAGAIN :: int where "EAGAIN = 11"

text \<open>
  The loop of the reader. \<open>part\<close> and \<open>full\<close> make the request for a partly and for a completely filled buffer,
  \<open>closed\<close> is the treatment of a connection at its end; server and client differ in them.
\<close>

fun read_loop :: "nat \<Rightarrow> 'k kernel \<Rightarrow> (mem_node \<Rightarrow> post_req) \<Rightarrow> (mem_node \<Rightarrow> post_req) \<Rightarrow> (mem_node \<Rightarrow> 'k anet \<Rightarrow> 'k anet) \<Rightarrow>
    int \<Rightarrow> mem_node \<Rightarrow> nat \<Rightarrow> 'k anet \<Rightarrow> (xerror + 'k anet) option" where
  "read_loop 0 K part full closed fd n cnt st = None"
| "read_loop (Suc f) K part full closed fd n cnt st =
     (let (ans, k) = k_recv K fd (mn_nCount n - cnt) (an_k st);
          rLen = (case ans of None \<Rightarrow> - 1 | Some bs \<Rightarrow> int (length bs));
          st1 = st\<lparr>an_k := k, an_mem := (case ans of None \<Rightarrow> an_mem st | Some bs \<Rightarrow> put_bytes (an_mem st) (mn_pData n + cnt) bs)\<rparr>
      in if rLen < 0 then
           (if rLen = EAGAIN then
              (if 0 < cnt then Some (Inr (ProduceNode (part (n\<lparr>mn_nTrans := cnt\<rparr>)) st1))
               else Some (Inr (st1\<lparr>an_read := PushBack fd n (an_read st1)\<rparr>)))
            else Some (Inr (st1\<lparr>an_read := PushBack fd n (an_read st1)\<rparr>)))
         else if rLen = 0 then Some (Inr (closed n st1))
         else if rLen = int (mn_nCount n) then
           (let n' = n\<lparr>mn_nTrans := mn_nCount n\<rparr>;
                st2 = ProduceNode (full n') st1;
                st3 = st2\<lparr>an_mem := snd (MemNode_Reset n' (an_mem st2))\<rparr>
            in case GetAndPopFront fd (an_read st3) of
                 Inl e \<Rightarrow> Some (Inl e)
               | Inr (m, d) \<Rightarrow>
                   if \<not> MemNode_Valid m then Some (Inr (st3\<lparr>an_read := d\<rparr>))
                   else read_loop f K part full closed fd m 0 (st3\<lparr>an_read := d\<rparr>))
         else read_loop f K part full closed fd n (cnt + nat rLen) st1)"

definition sock_reader :: "nat \<Rightarrow> 'k kernel \<Rightarrow> (mem_node \<Rightarrow> post_req) \<Rightarrow> (mem_node \<Rightarrow> post_req) \<Rightarrow> (mem_node \<Rightarrow> 'k anet \<Rightarrow> 'k anet) \<Rightarrow>
    int \<Rightarrow> 'k anet \<Rightarrow> (xerror + 'k anet) option" where
  "sock_reader fuel K part full closed fd st =
     (case GetAndPopFront fd (an_read st) of
        Inl e \<Rightarrow> Some (Inl e)
      | Inr (n, d) \<Rightarrow>
          if MemNode_Valid n then
            (let (n', mem) = MemNode_Reset n (an_mem st)
             in read_loop fuel K part full closed fd n' 0 (st\<lparr>an_read := d, an_mem := mem\<rparr>))
          else Some (Inr (st\<lparr>an_read := d\<rparr>)))"

definition sock_writer :: "'k kernel \<Rightarrow> (mem_node \<Rightarrow> post_req) \<Rightarrow> int \<Rightarrow> 'k anet \<Rightarrow> xerror + 'k anet" where
  "sock_writer K full fd st =
     (case GetAndPopFront fd (an_write st) of
        Inl e \<Rightarrow> Inl e
      | Inr (n, d) \<Rightarrow>
          (let st1 = st\<lparr>an_write := d\<rparr>
           in if MemNode_Valid n then
                (let (wLen, k) = k_send K fd (map (an_mem st) [mn_pData n..<mn_pData n + mn_nCount n]) (an_k st);
                     st2 = st1\<lparr>an_k := k\<rparr>
                 in if wLen \<le> 0 then Inr (st2\<lparr>an_write := PushBack fd n (an_write st2)\<rparr>)
                    else Inr (ProduceNode (full (n\<lparr>mn_nTrans := nat wLen\<rparr>)) st2))
              else Inr st1))"

subsection \<open>Server\<close>

definition Server_FdAdd :: "int \<Rightarrow> int \<Rightarrow> bool \<Rightarrow> 'k anet \<Rightarrow> 'k anet" where
  "Server_FdAdd fd epfd bMonWrite st = an_event (EpollAdd fd epfd bMonWrite) st"

definition Server_FdDel :: "int \<Rightarrow> int \<Rightarrow> 'k anet \<Rightarrow> 'k anet" where
  "Server_FdDel fd epfd st =
     (let st1 = an_event (CloseFd fd) (an_event (EpollDel fd epfd) st);
          st2 = st1\<lparr>an_read := DeleteOut fd (an_read st1), an_write := DeleteOut fd (an_write st1)\<rparr>
      in ProduceNode ((PostReq_of (MemNode_new\<lparr>mn_oType := Some OP_EXIT\<rparr>))\<lparr>pr_sSock := an_sock st, pr_cSock := fd\<rparr>) st2)"

definition Server_req :: "int \<Rightarrow> int \<Rightarrow> mem_node \<Rightarrow> post_req" where
  "Server_req c s n = (PostReq_of n)\<lparr>pr_cSock := c, pr_sSock := s\<rparr>"

definition Server_PostSockReader :: "nat \<Rightarrow> 'k kernel \<Rightarrow> int \<Rightarrow> int \<Rightarrow> 'k anet \<Rightarrow> (xerror + 'k anet) option" where
  "Server_PostSockReader fuel K c s st =
     sock_reader fuel K PostReq_of (Server_req c s) (\<lambda>n. Server_FdDel c s) c st"

definition Server_PostSockWriter :: "'k kernel \<Rightarrow> int \<Rightarrow> int \<Rightarrow> 'k anet \<Rightarrow> xerror + 'k anet" where
  "Server_PostSockWriter K c s st = sock_writer K (Server_req c s) c st"

text \<open>The address is fixed; a failing \<open>bind\<close> returns \<open>false\<close>, which is 0 and not the error value.\<close>

definition Server_InitSocket :: "'k kernel \<Rightarrow> int \<Rightarrow> 'k anet \<Rightarrow> int \<times> 'k anet" where
  "Server_InitSocket K port st =
     (let (s, k1) = k_socket K (an_k st); (okb, k2) = k_bind K s port k1; st1 = st\<lparr>an_sock := s, an_k := k2\<rparr>
      in if \<not> okb then (0, st1)
         else let (okl, k3) = k_listen K s k2; st2 = st1\<lparr>an_k := k3\<rparr> in if \<not> okl then (- 1, st2) else (s, st2))"

definition Server_AsyncInit :: "'k kernel \<Rightarrow> int \<Rightarrow> 'k anet \<Rightarrow> int \<times> 'k anet" where
  "Server_AsyncInit K sfd st =
     (let (ep, k) = k_epoll_create K (an_k st)
      in (ep, Server_FdAdd sfd ep False (st\<lparr>an_hEpoll := ep, an_k := k\<rparr>)))"

text \<open>\<open>AsyncNetRWTask::tCompare\<close> on the sockets of the tasks.\<close>

definition rw_compare :: "(nat \<Rightarrow> int \<times> int) \<Rightarrow> task \<Rightarrow> jobtype \<Rightarrow> task \<Rightarrow> bool" where
  "rw_compare socks a type b \<longleftrightarrow> fst (socks (tk_id a)) = fst (socks (tk_id b)) \<and> m_type a = m_type b \<and> m_type a = type"

definition setup_pool :: "(nat \<Rightarrow> int \<times> int) \<Rightarrow> tpool \<Rightarrow> tpool" where
  "setup_pool socks p =
     setMergeTaskType WRITETASK (setMaxPriorityType READTASK (snd (Register_taskProcess WRITETASK 1
       (snd (Register_taskProcess READTASK 0 (setTaskCmp (Some (rw_compare socks)) p))))))"

text \<open>\<open>Init\<close>: the result \<open>None\<close> is the missing \<open>return\<close> at the end of the function.\<close>

definition AsyncServer_Init :: "'k kernel \<Rightarrow> int \<Rightarrow> 'k anet \<Rightarrow> bool option \<times> 'k anet" where
  "AsyncServer_Init K port st =
     (if an_run st then (Some False, st)
      else
        let (r, st1) = Server_InitSocket K port (st\<lparr>an_run := True\<rparr>)
        in if r = - 1 then (Some False, st1)
           else let (e, st2) = Server_AsyncInit K (an_sock st1) st1
                in if e = - 1 then (Some False, st2)
                   else let (t, p) = TP_Init (an_pool st2); st3 = st2\<lparr>an_pool := p\<rparr>
                        in if t \<noteq> 0 then (Some False, st3)
                           else (None, st3\<lparr>an_pool := setup_pool (an_socks st3) (an_pool st3)\<rparr>))"

definition AsyncServer_Stop :: "'k anet \<Rightarrow> 'k anet" where
  "AsyncServer_Stop st = an_event (CloseFd (an_sock st)) (st\<lparr>an_run := False, an_pool := TP_Stop (an_pool st)\<rparr>)"

definition AsyncNetServerImpl_Stop :: "'k anet \<Rightarrow> 'k anet" where
  "AsyncNetServerImpl_Stop st = (let st1 = AsyncServer_Stop st in an_event (CloseFd (an_hEpoll st1)) st1)"

definition on_accept_callback :: "'k kernel \<Rightarrow> int \<Rightarrow> int \<Rightarrow> 'k anet \<Rightarrow> int \<times> string \<times> 'k anet" where
  "on_accept_callback K sfd epfd st =
     (let ((fd, ip), k) = k_accept K sfd (an_k st); st1 = st\<lparr>an_k := k\<rparr>
      in if fd = - 1 then (- 1, [], st1) else (fd, ip, Server_FdAdd fd epfd True st1))"

text \<open>A new task for the pool; the comparison of the pool reads the sockets of all tasks.\<close>

definition submit_rw :: "int \<Rightarrow> jobtype \<Rightarrow> int \<Rightarrow> 'k anet \<Rightarrow> 'k anet" where
  "submit_rw c type s st =
     (let socks = (an_socks st)(an_next st := (c, s));
          p = (an_pool st)\<lparr>m_taskCmp := map_option (\<lambda>_. rw_compare socks) (m_taskCmp (an_pool st))\<rparr>
      in st\<lparr>an_socks := socks, an_next := Suc (an_next st), an_pool := snd (submit_job_req 0 \<lparr>tk_id = an_next st, m_type = type\<rparr> p)\<rparr>)"

text \<open>One event of \<open>epoll_wait\<close>: the descriptor and whether it is readable and writable.\<close>

definition Server_event :: "'k kernel \<Rightarrow> int \<times> bool \<times> bool \<Rightarrow> 'k anet \<Rightarrow> 'k anet" where
  "Server_event K ev st =
     (case ev of (fd, isin, isout) \<Rightarrow>
        if fd = an_sock st then
          (case on_accept_callback K (an_sock st) (an_hEpoll st) st of
             (c, ip, st1) \<Rightarrow>
               if c = - 1 then st1
               else
                 let st2 = ProduceNode ((PostReq_of (MemNode_new\<lparr>mn_oType := Some OP_ACCEPT\<rparr>))
                             \<lparr>pr_sSock := an_sock st1, pr_cSock := c, pr_ip := ip\<rparr>) st1
                 in st2\<lparr>an_read := AppendNew c (an_read st2), an_write := AppendNew c (an_write st2)\<rparr>)
        else if isin then submit_rw fd READTASK (an_sock st) st
        else if isout then submit_rw fd WRITETASK (an_sock st) st
        else st)"

definition Server_HandleThread :: "'k kernel \<Rightarrow> (int \<times> bool \<times> bool) list \<Rightarrow> 'k anet \<Rightarrow> 'k anet" where
  "Server_HandleThread K evs st = (if an_run st then fold (Server_event K) evs st else st)"

text \<open>One turn of a worker of the pool: \<open>TP_run\<close> with the processors in place.\<close>

definition worker_turn :: "(int \<Rightarrow> int \<Rightarrow> 'k anet \<Rightarrow> (xerror + 'k anet) option) \<Rightarrow> (int \<Rightarrow> int \<Rightarrow> 'k anet \<Rightarrow> xerror + 'k anet) \<Rightarrow>
    'k anet \<Rightarrow> (xerror + 'k anet) option" where
  "worker_turn reader writer st =
     (if m_ctrl (an_pool st) = 0 then None
      else case take_job ((an_pool st)\<lparr>m_ctrl := m_ctrl (an_pool st) - 1\<rparr>) of
        None \<Rightarrow> Some (Inl Undefined)
      | Some (t, p) \<Rightarrow>
          (let st1 = st\<lparr>an_pool := exec_job t p\<rparr>; (c, s) = an_socks st (tk_id t)
           in case map_of (m_tasks p) (m_type t) of
                None \<Rightarrow> Some (Inr st1)
              | Some i \<Rightarrow> if i = 0 then reader c s st1 else Some (writer c s st1)))"

definition Server_worker :: "nat \<Rightarrow> 'k kernel \<Rightarrow> 'k anet \<Rightarrow> (xerror + 'k anet) option" where
  "Server_worker fuel K = worker_turn (Server_PostSockReader fuel K) (Server_PostSockWriter K)"

subsection \<open>Client\<close>

definition Client_req :: "int \<Rightarrow> mem_node \<Rightarrow> post_req" where
  "Client_req c n = (PostReq_of n)\<lparr>pr_cSock := c\<rparr>"

definition Client_PostSockReader :: "nat \<Rightarrow> 'k kernel \<Rightarrow> int \<Rightarrow> int \<Rightarrow> 'k anet \<Rightarrow> (xerror + 'k anet) option" where
  "Client_PostSockReader fuel K c s st =
     sock_reader fuel K PostReq_of (Client_req c) (\<lambda>n. ProduceNode (Client_req c (n\<lparr>mn_oType := Some OP_EXIT\<rparr>))) c st"

definition Client_PostSockWriter :: "'k kernel \<Rightarrow> int \<Rightarrow> int \<Rightarrow> 'k anet \<Rightarrow> xerror + 'k anet" where
  "Client_PostSockWriter K c s st = sock_writer K (Client_req c) c st"

definition Client_InitSocket :: "'k kernel \<Rightarrow> string \<Rightarrow> int \<Rightarrow> 'k anet \<Rightarrow> int \<times> 'k anet" where
  "Client_InitSocket K ip port st =
     (let (s, k) = k_socket K (an_k st) in (s, st\<lparr>an_ip := ip, an_port := port, an_sock := s, an_k := k\<rparr>))"

definition ReConnect :: "'k kernel \<Rightarrow> 'k anet \<Rightarrow> bool \<times> 'k anet" where
  "ReConnect K st =
     (if an_run st then (False, st)
      else
        let (ok, k) = k_connect K (an_sock st) (an_ip st) (an_port st) (an_k st); st1 = st\<lparr>an_k := k\<rparr>
        in if \<not> ok then (False, st1) else (True, an_event (Connected (an_sock st1)) (st1\<lparr>an_run := True\<rparr>)))"

definition Client_FdAdd :: "int \<Rightarrow> int \<Rightarrow> bool \<Rightarrow> 'k anet \<Rightarrow> 'k anet" where
  "Client_FdAdd fd epfd bMonWrite st = an_event (EpollAdd fd epfd bMonWrite) st"

definition Client_FdDel :: "int \<Rightarrow> int \<Rightarrow> 'k anet \<Rightarrow> 'k anet" where
  "Client_FdDel fd epfd st =
     (let st1 = an_event (CloseFd fd) (an_event (EpollDel fd epfd) st);
          st2 = st1\<lparr>an_read := DeleteOut fd (an_read st1), an_write := DeleteOut fd (an_write st1)\<rparr>
      in (ProduceNode (Client_req fd (MemNode_new\<lparr>mn_oType := Some OP_EXIT\<rparr>)) st2)\<lparr>an_run := False\<rparr>)"

definition Client_AsyncInit :: "'k kernel \<Rightarrow> int \<Rightarrow> 'k anet \<Rightarrow> int \<times> 'k anet" where
  "Client_AsyncInit K sfd st =
     (let (ep, k) = k_epoll_create K (an_k st)
      in (ep, Client_FdAdd sfd ep False (st\<lparr>an_hEpoll := ep, an_k := k\<rparr>)))"

definition AsyncClient_Init :: "'k kernel \<Rightarrow> string \<Rightarrow> int \<Rightarrow> 'k anet \<Rightarrow> bool option \<times> 'k anet" where
  "AsyncClient_Init K ip port st =
     (if an_run st then (Some False, st)
      else
        let st0 = st\<lparr>an_ip := ip, an_port := port, an_run := True\<rparr>;
            (s, st1) = Client_InitSocket K (an_ip st0) (an_port st0) st0
        in if s = - 1 then (Some False, st1)
           else let (c, st2) = ReConnect K st1
                in if \<not> c then (Some False, st2)
                   else let (e, st3) = Client_AsyncInit K (an_sock st2) st2
                        in if e = - 1 then (Some False, st3)
                           else let (t, p) = TP_Init (an_pool st3); st4 = st3\<lparr>an_pool := p\<rparr>
                                in if t \<noteq> 0 then (Some False, st4)
                                   else (None, st4\<lparr>an_pool := setup_pool (an_socks st4) (an_pool st4),
                                                  an_read := AppendNew (an_sock st4) (an_read st4),
                                                  an_write := AppendNew (an_sock st4) (an_write st4)\<rparr>))"

definition AsyncClient_Stop :: "'k anet \<Rightarrow> 'k anet" where
  "AsyncClient_Stop st = an_event (CloseFd (an_sock st)) (st\<lparr>an_run := False, an_pool := TP_Stop (an_pool st)\<rparr>)"

definition AsyncNetClientImpl_Stop :: "'k anet \<Rightarrow> 'k anet" where
  "AsyncNetClientImpl_Stop st = (let st1 = AsyncClient_Stop st in an_event (CloseFd (an_hEpoll st1)) st1)"

definition Client_event :: "int \<times> bool \<times> bool \<Rightarrow> 'k anet \<Rightarrow> 'k anet" where
  "Client_event ev st =
     (case ev of (fd, isin, isout) \<Rightarrow>
        if fd = an_sock st then
          (if isin then submit_rw fd READTASK (- 1) st else if isout then submit_rw fd WRITETASK (- 1) st else st)
        else st)"

definition Client_HandleThread :: "(int \<times> bool \<times> bool) list \<Rightarrow> 'k anet \<Rightarrow> 'k anet" where
  "Client_HandleThread evs st = (if an_run st then fold Client_event evs st else st)"

definition Client_worker :: "nat \<Rightarrow> 'k kernel \<Rightarrow> 'k anet \<Rightarrow> (xerror + 'k anet) option" where
  "Client_worker fuel K = worker_turn (Client_PostSockReader fuel K) (Client_PostSockWriter K)"

subsection \<open>Reading a stream\<close>

text \<open>
  A non-blocking stream socket whose bytes have all arrived: the kernel state is what has not been read. This
  is the documented behaviour of \<open>recv\<close> and the hypothesis of the property below.
\<close>

definition stream_recv :: "nat \<Rightarrow> 8 word list \<Rightarrow> 8 word list option \<times> 8 word list" where
  "stream_recv n rx = (if n = 0 then (Some [], rx) else if rx = [] then (None, rx) else (Some (take n rx), drop n rx))"

definition buf_of :: "mem_node \<Rightarrow> addr set" where
  "buf_of n = {mn_pData n..<mn_pData n + mn_nCount n}"

fun bufs_apart :: "mem_node list \<Rightarrow> bool" where
  "bufs_apart [] \<longleftrightarrow> True"
| "bufs_apart (n # ns) \<longleftrightarrow> (\<forall>m \<in> set ns. buf_of n \<inter> buf_of m = {}) \<and> bufs_apart ns"

definition plain_buf :: "mem_node \<Rightarrow> bool" where
  "plain_buf n \<longleftrightarrow> MemNode_Valid n \<and> mn_nSize n = 0"

definition same_buf :: "mem_node \<Rightarrow> mem_node \<Rightarrow> bool" where
  "same_buf a b \<longleftrightarrow> mn_pData a = mn_pData b \<and> mn_nCount a = mn_nCount b \<and> mn_nSize a = mn_nSize b"

abbreviation req_view :: "post_req \<Rightarrow> addr \<times> nat \<times> int" where
  "req_view r \<equiv> (mn_pData (pr_node r), mn_nTrans (pr_node r), pr_cSock r)"

lemma mset0_none [simp]: "mset0 m a 0 = m"
  by (rule ext) (auto simp: mset0_def)

lemma read_rest:
  assumes "\<And>n rx. k_recv K fd n rx = stream_recv n rx" "an_k st = rest" "length rest < mn_nCount c"
    and "msorted (an_read st)" "map_of (an_read st) fd = Some qs"
  shows "\<exists>st'. read_loop (Suc (Suc f)) K part full closed fd c 0 st = Some (Inr st') \<and> an_data st' = an_data st \<and> an_k st' = []
    \<and> map_of (an_read st') fd = Some (c # qs) \<and> (\<forall>x. x \<notin> buf_of c \<longrightarrow> an_mem st' x = an_mem st x)"
proof (cases "rest = []")
  case True
  then show ?thesis using assms by (simp add: Let_def stream_recv_def PushBack_def map_of_massign)
next
  case False
  have "an_mem st x = put_bytes (an_mem st) (mn_pData c) rest x" if "x \<notin> buf_of c" for x
    using that assms(3) put_bytes_other [of x "mn_pData c" rest "an_mem st"] by (auto simp: buf_of_def)
  then show ?thesis using False assms by (simp add: Let_def stream_recv_def PushBack_def map_of_massign EAGAIN_def)
qed

lemma read_full:
  assumes "\<And>n rx. k_recv K fd n rx = stream_recv n rx" "an_k st = seg @ rx" "length seg = mn_nCount c" "plain_buf c"
    and "msorted (an_read st)" "map_of (an_read st) fd = Some (d # qs)" "MemNode_Valid d" "an_run st"
  shows "read_loop (Suc f) K part full closed fd c 0 st =
    read_loop f K part full closed fd d 0 (st\<lparr>an_k := rx, an_data := an_data st @ [full (c\<lparr>mn_nTrans := mn_nCount c\<rparr>)],
      an_mem := put_bytes (an_mem st) (mn_pData c) seg, an_read := massign fd qs (an_read st)\<rparr>)"
proof -
  have "mn_nCount c \<noteq> 0" "mn_nSize c = 0" "seg \<noteq> []" using assms(3,4) by (auto simp: plain_buf_def MemNode_Valid_def)
  then show ?thesis using assms by (simp add: Let_def stream_recv_def ProduceNode_def MemNode_Reset_def GetAndPopFront_def)
qed

text \<open>The current buffer \<open>c\<close> is the first of \<open>ns @ [m]\<close>, the queue holds the others and \<open>qs\<close>.\<close>

lemma read_stream:
  assumes "\<And>n rx. k_recv K fd n rx = stream_recv n rx" "\<And>n. mn_pData (pr_node (full n)) = mn_pData n \<and> mn_nTrans (pr_node (full n)) = mn_nTrans n \<and> pr_cSock (full n) = fd"
  shows "same_buf c (hd (ns @ [m])) \<Longrightarrow> map_of (an_read st) fd = Some (tl (ns @ [m]) @ qs) \<Longrightarrow> \<forall>n \<in> set (ns @ [m]). plain_buf n \<Longrightarrow>
    bufs_apart (ns @ [m]) \<Longrightarrow> an_k st = concat segs @ rest \<Longrightarrow> map length segs = map mn_nCount ns \<Longrightarrow> length rest < mn_nCount m \<Longrightarrow>
    msorted (an_read st) \<Longrightarrow> an_run st \<Longrightarrow>
    \<exists>st'. read_loop (length ns + 2) K part full closed fd c 0 st = Some (Inr st') \<and> an_k st' = []
      \<and> map req_view (an_data st') = map req_view (an_data st) @ map (\<lambda>n. (mn_pData n, mn_nCount n, fd)) ns
      \<and> (\<exists>m'. same_buf m' m \<and> map_of (an_read st') fd = Some (m' # qs))
      \<and> map (\<lambda>n. map (an_mem st') [mn_pData n..<mn_pData n + mn_nCount n]) ns = segs
      \<and> (\<forall>x. (\<forall>n \<in> set (ns @ [m]). x \<notin> buf_of n) \<longrightarrow> an_mem st' x = an_mem st x)"
proof (induction ns arbitrary: c segs st)
  case Nil
  then have "segs = []" "buf_of c = buf_of m" by (simp_all add: same_buf_def buf_of_def)
  then show ?case using read_rest [OF assms(1) _ _ Nil.prems(8), of rest c qs 0 part full closed] Nil.prems by (auto simp: same_buf_def numeral_2_eq_2)
next
  case (Cons n ns)
  obtain seg segs' where segs: "segs = seg # segs'" "length seg = mn_nCount n" "map length segs' = map mn_nCount ns"
    using Cons.prems(6) by (cases segs) auto
  have c: "length seg = mn_nCount c" "plain_buf c" "mn_pData c = mn_pData n" "mn_nCount c = mn_nCount n"
    using Cons.prems(1,3) segs(2) by (auto simp: same_buf_def plain_buf_def MemNode_Valid_def)
  obtain d ds where d: "ns @ [m] = d # ds" by (cases ns) auto
  have dv: "MemNode_Valid d" using Cons.prems(3) d by (auto simp: plain_buf_def)
  define st1 where "st1 = st\<lparr>an_k := concat segs' @ rest, an_data := an_data st @ [full (c\<lparr>mn_nTrans := mn_nCount c\<rparr>)],
      an_mem := put_bytes (an_mem st) (mn_pData n) seg, an_read := massign fd (ds @ qs) (an_read st)\<rparr>"
  have loop: "read_loop (length (n # ns) + 2) K part full closed fd c 0 st = read_loop (length ns + 2) K part full closed fd d 0 st1"
    using read_full [OF assms(1), of st seg "concat segs' @ rest" c d "ds @ qs" "length ns + 2" part full closed] c dv Cons.prems(2,5,8,9) segs(1) d
    by (simp add: st1_def)
  have "\<exists>st'. read_loop (length ns + 2) K part full closed fd d 0 st1 = Some (Inr st') \<and> an_k st' = []
      \<and> map req_view (an_data st') = map req_view (an_data st1) @ map (\<lambda>n. (mn_pData n, mn_nCount n, fd)) ns
      \<and> (\<exists>m'. same_buf m' m \<and> map_of (an_read st') fd = Some (m' # qs))
      \<and> map (\<lambda>n. map (an_mem st') [mn_pData n..<mn_pData n + mn_nCount n]) ns = segs'
      \<and> (\<forall>x. (\<forall>n \<in> set (ns @ [m]). x \<notin> buf_of n) \<longrightarrow> an_mem st' x = an_mem st1 x)"
    using Cons.prems segs(3) d by (intro Cons.IH) (auto simp: st1_def map_of_massign same_buf_def)
  then obtain st' where st': "read_loop (length ns + 2) K part full closed fd d 0 st1 = Some (Inr st')" "an_k st' = []"
      "map req_view (an_data st') = map req_view (an_data st1) @ map (\<lambda>n. (mn_pData n, mn_nCount n, fd)) ns"
      "\<exists>m'. same_buf m' m \<and> map_of (an_read st') fd = Some (m' # qs)"
      "map (\<lambda>n. map (an_mem st') [mn_pData n..<mn_pData n + mn_nCount n]) ns = segs'"
      "\<forall>x. (\<forall>n \<in> set (ns @ [m]). x \<notin> buf_of n) \<longrightarrow> an_mem st' x = an_mem st1 x" by blast
  have keep: "an_mem st' x = put_bytes (an_mem st) (mn_pData n) seg x" if "x \<in> buf_of n" for x
  proof -
    have "\<forall>k \<in> set (ns @ [m]). x \<notin> buf_of k" using Cons.prems(4) that by auto
    then show ?thesis using st'(6) by (simp add: st1_def)
  qed
  have "map (an_mem st') [mn_pData n..<mn_pData n + mn_nCount n] = map (put_bytes (an_mem st) (mn_pData n) seg) [mn_pData n..<mn_pData n + length seg]"
    unfolding segs(2) by (rule map_cong [OF refl]) (auto intro!: keep simp: buf_of_def)
  then have seg: "map (an_mem st') [mn_pData n..<mn_pData n + mn_nCount n] = seg" by (simp add: get_put_bytes)
  have "an_mem st' x = an_mem st x" if "\<forall>k \<in> set ((n # ns) @ [m]). x \<notin> buf_of k" for x
    using that st'(6) put_bytes_other [of x "mn_pData n" seg "an_mem st"] segs(2) by (auto simp: st1_def buf_of_def)
  then show ?case using loop st' seg assms(2) c by (intro exI [of _ st']) (simp add: segs(1) st1_def)
qed

declare read_loop.simps [simp del]

text \<open>
  Property C10. What a worker of the server does with a readable connection. The posted buffers are filled in order, every completely
  filled one is handed on with its bytes, its length and the socket, and the first that is not filled goes back to the front of the queue; two more
  turns of the loop than buffers are enough. The bytes that did not fill it are gone: they have been read from the
  kernel and belong to no request, because the end of the data is looked for in the result of \<open>recv\<close> and not in \<open>errno\<close>.
\<close>
theorem server_reads_stream:
  assumes "\<And>n rx. k_recv K fd n rx = stream_recv n rx" "map_of (an_read st) fd = Some (ns @ m # qs)"
    and "\<forall>n \<in> set (ns @ [m]). plain_buf n" "bufs_apart (ns @ [m])"
    and "an_k st = concat segs @ rest" "map length segs = map mn_nCount ns" "length rest < mn_nCount m"
    and "msorted (an_read st)" "an_run st"
  shows "\<exists>st'. Server_PostSockReader (length ns + 2) K fd s st = Some (Inr st') \<and> an_k st' = []
      \<and> map req_view (an_data st') = map req_view (an_data st) @ map (\<lambda>n. (mn_pData n, mn_nCount n, fd)) ns
      \<and> (\<exists>m'. same_buf m' m \<and> map_of (an_read st') fd = Some (m' # qs))
      \<and> map (\<lambda>n. map (an_mem st') [mn_pData n..<mn_pData n + mn_nCount n]) ns = segs"
proof -
  obtain c ds where c: "ns @ [m] = c # ds" by (cases ns) auto
  have q: "map_of (an_read st) fd = Some (c # ds @ qs)" using assms(2) c by (metis append.assoc append_Cons append_Nil)
  have cv: "plain_buf c" using assms(3) c by auto
  define c' where "c' = c\<lparr>mn_nTrans := 0, mn_prev := None\<rparr>"
  define st1 where "st1 = st\<lparr>an_read := massign fd (ds @ qs) (an_read st)\<rparr>"
  have "Server_PostSockReader (length ns + 2) K fd s st =
      read_loop (length ns + 2) K PostReq_of (Server_req fd s) (\<lambda>n. Server_FdDel fd s) fd c' 0 st1"
    using q cv by (simp add: Server_PostSockReader_def sock_reader_def GetAndPopFront_def plain_buf_def MemNode_Valid_def MemNode_Reset_def c'_def st1_def)
  moreover have "\<exists>st'. read_loop (length ns + 2) K PostReq_of (Server_req fd s) (\<lambda>n. Server_FdDel fd s) fd c' 0 st1 = Some (Inr st') \<and> an_k st' = []
      \<and> map req_view (an_data st') = map req_view (an_data st1) @ map (\<lambda>n. (mn_pData n, mn_nCount n, fd)) ns
      \<and> (\<exists>m'. same_buf m' m \<and> map_of (an_read st') fd = Some (m' # qs))
      \<and> map (\<lambda>n. map (an_mem st') [mn_pData n..<mn_pData n + mn_nCount n]) ns = segs
      \<and> (\<forall>x. (\<forall>n \<in> set (ns @ [m]). x \<notin> buf_of n) \<longrightarrow> an_mem st' x = an_mem st1 x)"
    using assms(3-9) c by (intro read_stream [OF assms(1)])
      (simp_all add: st1_def c'_def map_of_massign same_buf_def Server_req_def PostReq_of_def)
  ultimately show ?thesis by (auto simp: st1_def)
qed

text \<open>
  Observation. A buffer that arrives in two parts closes the connection: after the second part the buffer is full, the server asks for zero more bytes, and the
  answer zero is taken for the end of the connection. The descriptor is closed, its queues are deleted and the only request produced is \<open>OP_EXIT\<close>.
\<close>
theorem buffer_in_two_parts_disconnects:
  assumes "k_recv K fd (mn_nCount n) (an_k st) = (Some xs, k1)" "0 < length xs" "length xs < mn_nCount n"
    and "k_recv K fd (mn_nCount n - length xs) k1 = (Some ys, k2)" "length ys = mn_nCount n - length xs"
    and "k_recv K fd 0 k2 = (Some [], k3)"
    and "map_of (an_read st) fd = Some (n # q)" "MemNode_Valid n" "an_run st"
  shows "\<exists>st' r. Server_PostSockReader 3 K fd s st = Some (Inr st') \<and> CloseFd fd \<in> set (an_log st') \<and> map_of (an_read st') fd = None
    \<and> an_data st' = an_data st @ [r] \<and> mn_oType (pr_node r) = Some OP_EXIT \<and> pr_cSock r = fd"
proof -
  define n' where "n' = n\<lparr>mn_nTrans := 0, mn_prev := None\<rparr>"
  define st0 where "st0 = st\<lparr>an_read := massign fd q (an_read st), an_mem := mset0 (an_mem st) (mn_pData n) (mn_nSize n)\<rparr>"
  let ?loop = "\<lambda>f. read_loop f K PostReq_of (Server_req fd s) (\<lambda>n. Server_FdDel fd s) fd n'"
  have start: "Server_PostSockReader 3 K fd s st = ?loop 3 0 st0"
    using assms(7,8) by (simp add: Server_PostSockReader_def sock_reader_def GetAndPopFront_def MemNode_Valid_def MemNode_Reset_def n'_def st0_def)
  define st1 where "st1 = st0\<lparr>an_k := k1, an_mem := put_bytes (an_mem st0) (mn_pData n) xs\<rparr>"
  define st2 where "st2 = st1\<lparr>an_k := k2, an_mem := put_bytes (an_mem st1) (mn_pData n + length xs) ys\<rparr>"
  have arith: "length xs + nat (int (mn_nCount n) - int (length xs)) = mn_nCount n" using assms(3) by simp
  have one: "?loop 3 0 st0 = ?loop 2 (length xs) st1"
    using assms(1-3) by (simp add: read_loop.simps(2) [of 2, simplified] Let_def n'_def st0_def st1_def)
  have two: "?loop 2 (length xs) st1 = ?loop 1 (mn_nCount n) st2"
    using assms(2-5) arith by (simp add: read_loop.simps(2) [of "Suc 0"] numeral_2_eq_2 Let_def n'_def st1_def st2_def)
  have k2: "an_k st2 = k2" by (simp add: st2_def)
  have three: "?loop 1 (mn_nCount n) st2 = Some (Inr (Server_FdDel fd s (st2\<lparr>an_k := k3, an_mem := an_mem st2\<rparr>)))"
    using assms(6) k2 by (simp add: read_loop.simps(2) [of 0, simplified] Let_def n'_def)
  have "an_run st2" "an_data st2 = an_data st" using assms(9) by (simp_all add: st2_def st1_def st0_def)
  then show ?thesis unfolding start one two three
    by (simp add: Server_FdDel_def Let_def ProduceNode_def an_event_def DeleteOut_def PostReq_of_def map_of_merase)
qed

text \<open>
  Observation. The client never connects: \<open>Init\<close> sets the running flag and then calls \<open>ReConnect\<close>, which refuses to connect while the flag is set. Whatever
  the kernel answers, \<open>Init\<close> fails, no connection is made, no queue is created and the thread pool is not started; since
  the flag stays set, every later call fails at once.
\<close>
theorem client_never_connects:
  "\<exists>st'. AsyncClient_Init K ip port st = (Some False, st') \<and> an_log st' = an_log st \<and> an_read st' = an_read st \<and> an_pool st' = an_pool st \<and> an_run st'"
  by (cases "k_socket K (an_k st)") (auto simp: AsyncClient_Init_def Client_InitSocket_def ReConnect_def Let_def)

subsection \<open>Examples\<close>

definition stream_kernel :: "8 word list kernel" where
  "stream_kernel =
     \<lparr>k_socket = (\<lambda>k. (3, k)), k_bind = (\<lambda>_ _ k. (True, k)), k_listen = (\<lambda>_ k. (True, k)), k_epoll_create = (\<lambda>k. (4, k)),
      k_accept = (\<lambda>_ k. ((5, ''127.0.0.1''), k)), k_connect = (\<lambda>_ _ _ k. (True, k)), k_recv = (\<lambda>_. stream_recv), k_send = (\<lambda>_ bs k. (int (length bs), k))\<rparr>"

abbreviation sample_node :: "addr \<Rightarrow> nat \<Rightarrow> mem_node" where
  "sample_node a n \<equiv> MemNode_new\<lparr>mn_pData := a, mn_nCount := n\<rparr>"

definition sample_net :: "mem_node list \<Rightarrow> 'k \<Rightarrow> 'k anet" where
  "sample_net ns k = (AsyncNet_new 2 (\<lambda>_. 0) k)\<lparr>an_run := True, an_sock := 3, an_read := [(5, ns)]\<rparr>"

lemma sample_net_fields [simp]:
  "an_run (sample_net ns k)" "an_read (sample_net ns k) = [(5, ns)]" "an_k (sample_net ns k) = k" "an_data (sample_net ns k) = []"
  by (simp_all add: sample_net_def AsyncNet_new_def)

theorem server_reads_stream_witness:
  "\<exists>st'. Server_PostSockReader 3 stream_kernel 5 3 (sample_net [sample_node 100 2, sample_node 200 2] [7, 8, 9]) = Some (Inr st')
    \<and> an_k st' = [] \<and> map req_view (an_data st') = [(100, 2, 5)] \<and> map (an_mem st') [100..<102] = [7, 8]"
  using server_reads_stream [of stream_kernel 5 "sample_net [sample_node 100 2, sample_node 200 2] [7, 8, 9]" "[sample_node 100 2]" "sample_node 200 2" "[]" "[[7, 8]]" "[9]" 3]
  by (auto simp: stream_kernel_def plain_buf_def MemNode_Valid_def MemNode_new_def buf_of_def msorted_def numeral_3_eq_3)

definition two_parts :: "nat kernel" where
  "two_parts =
     \<lparr>k_socket = (\<lambda>k. (3, k)), k_bind = (\<lambda>_ _ k. (True, k)), k_listen = (\<lambda>_ k. (True, k)), k_epoll_create = (\<lambda>k. (4, k)),
      k_accept = (\<lambda>_ k. ((5, ''127.0.0.1''), k)), k_connect = (\<lambda>_ _ _ k. (True, k)),
      k_recv = (\<lambda>_ n k. if n = 0 then (Some [], k) else if k < 2 then (Some [7], Suc k) else (None, k)), k_send = (\<lambda>_ bs k. (int (length bs), k))\<rparr>"

theorem buffer_in_two_parts_disconnects_witness:
  "\<exists>st' r. Server_PostSockReader 3 two_parts 5 3 (sample_net [sample_node 100 2] 0) = Some (Inr st') \<and> CloseFd 5 \<in> set (an_log st')
    \<and> map_of (an_read st') 5 = None \<and> an_data st' = [r] \<and> mn_oType (pr_node r) = Some OP_EXIT \<and> pr_cSock r = 5"
  using buffer_in_two_parts_disconnects [of two_parts 5 "sample_node 100 2" "sample_net [sample_node 100 2] 0" "[7]" 1 "[7]" 2 2 "[]" 3]
  by (simp add: two_parts_def MemNode_Valid_def MemNode_new_def)

end
