(* ===== verification/TcpNet.thy ===== *)
theory TcpNet
  imports AsyncNet Balance ObjPool
begin

text \<open>
  The TCP server and client on Linux (\<open>Net/TcpServerImpl_Linux.cpp\<close>, \<open>Net/TcpClientImpl_Linux.cpp\<close>) and the pool of request nodes
  (\<open>Net/PostNodeMgr_Linux.cpp\<close>). They connect the socket layer \<open>AsyncNet\<close> with the clients in \<open>Balance\<close> and with a session. The threads of both
  classes are given by one turn of their loops. \<open>None\<close> is a wait, \<open>Undefined\<close> the use of an uninitialised or null value.
\<close>

subsection \<open>Request nodes\<close>

text \<open>The pool of \<open>CPostReq\<close> objects and their contents by address; \<open>io\<close> is the allocation of objects as in \<open>ObjPool\<close>.\<close>

record postmgr =
  pm_pool :: objpool
  pm_nodes :: "addr \<Rightarrow> post_req"
  pm_mem :: bmem

definition PostNodeMgr_new :: "initobj \<Rightarrow> bmem \<Rightarrow> postmgr" where
  "PostNodeMgr_new io mem = \<lparr>pm_pool = snd (ObjPool_Init io 100 ObjPool_new), pm_nodes = (\<lambda>_. PostReq_of MemNode_new), pm_mem = mem\<rparr>"

definition reset_node :: "addr \<Rightarrow> postmgr \<Rightarrow> postmgr" where
  "reset_node p m =
     (let (n, mem) = MemNode_Reset (pr_node (pm_nodes m p)) (pm_mem m)
      in m\<lparr>pm_nodes := (pm_nodes m)(p := (pm_nodes m p)\<lparr>pr_node := n\<rparr>), pm_mem := mem\<rparr>)"

definition ApplyPostNode :: "initobj \<Rightarrow> postmgr \<Rightarrow> xerror + (addr \<times> postmgr)" where
  "ApplyPostNode io m =
     (case ObjPool_Alloc io 1 (pm_pool m) of
        Inl e \<Rightarrow> Inl e
      | Inr (p, pool1) \<Rightarrow>
          (let m1 = m\<lparr>pm_pool := pool1\<rparr>; m2 = (if p \<noteq> 0 then reset_node p m1 else m1)
           in case ObjPool_Alloc io 1 (pm_pool m2) of
                Inl e \<Rightarrow> Inl e
              | Inr (q, pool2) \<Rightarrow> Inr (q, m2\<lparr>pm_pool := pool2\<rparr>)))"

definition ReleaseNode :: "addr \<Rightarrow> postmgr \<Rightarrow> xerror + postmgr" where
  "ReleaseNode p m =
     (case ObjPool_Free p 1 (pm_pool m) of Inl e \<Rightarrow> Inl e | Inr pool \<Rightarrow> Inr (m\<lparr>pm_pool := pool\<rparr>))"

subsection \<open>Server\<close>

record 'k tcpserver =
  ts_bStart :: bool
  ts_port :: int
  ts_interface :: bool
  ts_Manager :: balance
  ts_pServer :: "'k anet"

definition TcpServerImpl_new :: "bmem \<Rightarrow> 'k \<Rightarrow> balance \<Rightarrow> 'k tcpserver" where
  "TcpServerImpl_new mem k mgr =
     \<lparr>ts_bStart = False, ts_port = 0, ts_interface = False, ts_Manager = mgr, ts_pServer = AsyncNet_new 4 mem k\<rparr>"

definition TcpServer_SetNetParam :: "bool \<Rightarrow> 'k tcpserver \<Rightarrow> bool \<times> 'k tcpserver" where
  "TcpServer_SetNetParam i st = (if \<not> i then (False, st) else (True, st\<lparr>ts_interface := True\<rparr>))"

definition TcpServer_Start :: "'k kernel \<Rightarrow> int \<Rightarrow> 'k tcpserver \<Rightarrow> bool \<times> 'k tcpserver" where
  "TcpServer_Start K port st =
     (True, st\<lparr>ts_port := port, ts_pServer := snd (AsyncServer_Init K port (ts_pServer st)),
              ts_Manager := snd (Bal_Start True (ts_Manager st)), ts_bStart := True\<rparr>)"

definition TcpServer_Stop :: "'k tcpserver \<Rightarrow> 'k tcpserver" where
  "TcpServer_Stop st =
     st\<lparr>ts_bStart := False, ts_pServer := AsyncNetServerImpl_Stop (ts_pServer st), ts_Manager := snd (Bal_Stop (ts_Manager st))\<rparr>"

definition TcpServer_RecvNetPackage :: "SockHandle \<Rightarrow> 'k tcpserver \<Rightarrow> int \<times> NetPackage option \<times> 'k tcpserver" where
  "TcpServer_RecvNetPackage h st =
     (case Bal_RecvNetPackage h (ts_Manager st) of (r, p, b) \<Rightarrow> (r, p, st\<lparr>ts_Manager := b\<rparr>))"

definition TcpServer_RecycleMem :: "(session \<Rightarrow> addr \<Rightarrow> session) \<Rightarrow> SockHandle \<Rightarrow> addr \<Rightarrow> 'k tcpserver \<Rightarrow> 'k tcpserver" where
  "TcpServer_RecycleMem fr h pData st = (if pData \<noteq> 0 then st\<lparr>ts_Manager := Bal_Free fr h pData (ts_Manager st)\<rparr> else st)"

text \<open>A package on the \<open>len\<close> bytes at \<open>p\<close>; \<open>ts\<close> is the time stamp and \<open>junk\<close> the uninitialised field.\<close>

definition package_at :: "bmem \<Rightarrow> nat \<Rightarrow> nat \<Rightarrow> addr \<Rightarrow> nat \<Rightarrow> NetPackage" where
  "package_at mem ts junk p len =
     (if p \<noteq> 0 then (NetPackage_new None 0 junk)\<lparr>m_len := len, m_pData := Some (map mem [p..<p + len]), m_timestamp := ts\<rparr>
      else NetPackage_new None 0 junk)"

definition TcpServer_AllocPackage ::
    "(session \<Rightarrow> nat \<Rightarrow> addr \<times> session) \<Rightarrow> bmem \<Rightarrow> nat \<Rightarrow> nat \<Rightarrow> SockHandle \<Rightarrow> nat \<Rightarrow> 'k tcpserver \<Rightarrow> NetPackage \<times> 'k tcpserver" where
  "TcpServer_AllocPackage al mem ts junk h len st =
     (case Bal_Alloc al h len (ts_Manager st) of (p, b) \<Rightarrow> (package_at mem ts junk p len, st\<lparr>ts_Manager := b\<rparr>))"

definition TcpServer_SendNetPackage :: "SockHandle \<Rightarrow> NetPackage \<Rightarrow> 'k tcpserver \<Rightarrow> int \<times> 'k tcpserver" where
  "TcpServer_SendNetPackage h p st =
     (case Bal_SendNetPackage h p (ts_Manager st) of (r, b) \<Rightarrow> (r, st\<lparr>ts_Manager := b\<rparr>))"

definition TcpServer_KickClient :: "SockHandle \<Rightarrow> 'k tcpserver \<Rightarrow> 'k tcpserver" where
  "TcpServer_KickClient h st = st\<lparr>ts_Manager := KickClient h (ts_Manager st)\<rparr>"

text \<open>What a turn of \<open>EpollThread\<close> needs to append a client: the arguments of \<open>AppendNewClient\<close>.\<close>

record enter_env =
  ee_now :: int
  ee_rbase :: addr
  ee_sbase :: addr
  ee_node :: nat
  ee_session :: "session option"

definition req_sock :: "int \<Rightarrow> post_req \<Rightarrow> SockHandle" where
  "req_sock port r = \<lparr>m_sock = pr_cSock r, m_ip = pr_ip r, m_conntype = 0, m_port = port\<rparr>"

definition epoll_switch :: "enter_env \<Rightarrow> post_req \<Rightarrow> 'k tcpserver \<Rightarrow> xerror + 'k tcpserver" where
  "epoll_switch e r st =
     (let h = req_sock (ts_port st) r; n = pr_node r; b = ts_Manager st
      in case mn_oType n of
           None \<Rightarrow> Inl Undefined
         | Some OP_ACCEPT \<Rightarrow>
             (case AppendNewClient (ee_now e) (ee_rbase e) (ee_sbase e) (ee_node e) (ee_session e) h b of
                Inl x \<Rightarrow> Inl x
              | Inr b' \<Rightarrow> Inr (st\<lparr>ts_Manager := b'\<rparr>))
         | Some OP_EXIT \<Rightarrow> Inr (st\<lparr>ts_Manager := RemoveClient h b\<rparr>)
         | Some OP_READ \<Rightarrow>
             (case RecvClientData h (mn_pData n) (mn_nTrans n) (mn_nIndex n) (mn_prev n) 0 b of
                Inl x \<Rightarrow> Inl x
              | Inr b' \<Rightarrow> Inr (st\<lparr>ts_Manager := b'\<rparr>))
         | Some OP_WRITE \<Rightarrow>
             Inr (st\<lparr>ts_Manager := ActivateWrite h (nat (mn_nIndex n mod 2 ^ 64)) (mn_pData n) (mn_nTrans n) 0 (ee_node e) b\<rparr>))"

definition EpollThread :: "enter_env \<Rightarrow> 'k tcpserver \<Rightarrow> (xerror + 'k tcpserver) option" where
  "EpollThread e st =
     (if \<not> ts_bStart st then Some (Inr st)
      else case GetQueueComplateStatus SPostReq_Valid (ts_pServer st) of
        None \<Rightarrow> None
      | Some (ok, r, net) \<Rightarrow>
          (let st1 = st\<lparr>ts_pServer := net\<rparr>
           in case r of
                None \<Rightarrow> Some (Inr st1)
              | Some q \<Rightarrow> if ok then Some (epoll_switch e q st1) else Some (Inr st1)))"

definition TcpServer_Close :: "int \<Rightarrow> 'k tcpserver \<Rightarrow> 'k tcpserver" where
  "TcpServer_Close fd st = st\<lparr>ts_pServer := an_event (CloseFd fd) (ts_pServer st)\<rparr>"

text \<open>
  The requests of a session. The buffer, its length and index and the previous buffer are arguments that the functions do not use:
  only the socket is stored in the node. A null pointer for the node would be dereferenced.
\<close>

definition TcpServer_PostRecvReq ::
    "int \<Rightarrow> addr \<Rightarrow> nat \<Rightarrow> int \<Rightarrow> nat option \<Rightarrow> post_req option \<Rightarrow> 'k tcpserver \<Rightarrow> xerror + (bool \<times> post_req \<times> 'k tcpserver)" where
  "TcpServer_PostRecvReq fd bufp len nIndex pExtend node st =
     (case node of
        None \<Rightarrow> Inl Undefined
      | Some r \<Rightarrow>
          (let r' = r\<lparr>pr_cSock := fd\<rparr>
           in Inr (True, r', st\<lparr>ts_pServer := postQuest fd READTASK (pr_node r') (ts_pServer st)\<rparr>)))"

definition TcpServer_PostSendReq ::
    "int \<Rightarrow> addr \<Rightarrow> nat \<Rightarrow> int \<Rightarrow> post_req option \<Rightarrow> 'k tcpserver \<Rightarrow> xerror + (bool \<times> post_req \<times> 'k tcpserver)" where
  "TcpServer_PostSendReq fd bufp len nIndex node st =
     (case node of
        None \<Rightarrow> Inl Undefined
      | Some r \<Rightarrow>
          (let r' = r\<lparr>pr_cSock := fd\<rparr>
           in Inr (True, r', st\<lparr>ts_pServer := postQuest fd WRITETASK (pr_node r') (ts_pServer st)\<rparr>)))"

text \<open>\<open>SocketSession::PostRecvReq\<close> and \<open>PostSendReq\<close> of a session with its pool of nodes on a server.\<close>

definition Session_node :: "initobj \<Rightarrow> addr \<Rightarrow> postmgr \<Rightarrow> xerror + (addr \<times> postmgr)" where
  "Session_node io node m = (if node = 0 then ApplyPostNode io m else Inr (node, m))"

definition Session_PostRecvReq ::
    "initobj \<Rightarrow> int \<Rightarrow> addr \<Rightarrow> nat \<Rightarrow> int \<Rightarrow> nat option \<Rightarrow> addr \<Rightarrow> postmgr \<Rightarrow> 'k tcpserver \<Rightarrow> xerror + (bool \<times> postmgr \<times> 'k tcpserver)" where
  "Session_PostRecvReq io fd bufp len nIndex pExtend node m st =
     (case Session_node io node m of
        Inl e \<Rightarrow> Inl e
      | Inr (p, m1) \<Rightarrow>
          (case TcpServer_PostRecvReq fd bufp len nIndex pExtend (if p = 0 then None else Some (pm_nodes m1 p)) st of
             Inl e \<Rightarrow> Inl e
           | Inr (ok, r, st') \<Rightarrow> Inr (ok, m1\<lparr>pm_nodes := (pm_nodes m1)(p := r)\<rparr>, st')))"

definition Session_PostSendReq ::
    "initobj \<Rightarrow> int \<Rightarrow> addr \<Rightarrow> nat \<Rightarrow> int \<Rightarrow> addr \<Rightarrow> postmgr \<Rightarrow> 'k tcpserver \<Rightarrow> xerror + (bool \<times> postmgr \<times> 'k tcpserver)" where
  "Session_PostSendReq io fd bufp len nIndex node m st =
     (case Session_node io node m of
        Inl e \<Rightarrow> Inl e
      | Inr (p, m1) \<Rightarrow>
          (case TcpServer_PostSendReq fd bufp len nIndex (if p = 0 then None else Some (pm_nodes m1 p)) st of
             Inl e \<Rightarrow> Inl e
           | Inr (ok, r, st') \<Rightarrow> Inr (ok, m1\<lparr>pm_nodes := (pm_nodes m1)(p := r)\<rparr>, st')))"

subsection \<open>Client\<close>

text \<open>\<open>tcl_deleted\<close>: the timer objects that the client itself has deleted.\<close>

record 'k tcpclient =
  tcl_flag :: bool
  tcl_bStart :: bool
  tcl_client :: "session option"
  tcl_timer :: nat
  tcl_timerMgr :: timermgr
  tcl_pNet :: "'k anet"
  tcl_deleted :: "nat list"

definition TcpClientImpl_new :: "bmem \<Rightarrow> 'k \<Rightarrow> int \<Rightarrow> nat \<Rightarrow> nat \<Rightarrow> nat \<Rightarrow> 'k tcpclient" where
  "TcpClientImpl_new mem k now tid jc jf =
     \<lparr>tcl_flag = False, tcl_bStart = False, tcl_client = None, tcl_timer = tid,
      tcl_timerMgr = snd (AddTimer now ''heartBit'' (Some (Timer_new tid 1000 30 jc jf)) TimerMgrImpl_new),
      tcl_pNet = AsyncNet_new 2 mem k, tcl_deleted = []\<rparr>"

definition TcpClient_Start :: "'k kernel \<Rightarrow> string \<Rightarrow> int \<Rightarrow> session option \<Rightarrow> 'k tcpclient \<Rightarrow> bool \<times> 'k tcpclient" where
  "TcpClient_Start K ip port ses st =
     (let st1 = st\<lparr>tcl_client := ses\<rparr>
      in if ses = None then (False, st1)
         else (True, st1\<lparr>tcl_pNet := snd (AsyncClient_Init K ip port (tcl_pNet st1)), tcl_flag := True, tcl_bStart := True,
                 tcl_timerMgr := snd (TimerMgr_Init 0 1 0 1 (tcl_timerMgr st1))\<rparr>))"

text \<open>\<open>delete\<close> of a timer that the manager has deleted is undefined.\<close>

definition TcpClient_Stop :: "'k tcpclient \<Rightarrow> xerror + 'k tcpclient" where
  "TcpClient_Stop st =
     (let st1 = st\<lparr>tcl_flag := False, tcl_bStart := False, tcl_timerMgr := snd (DelTimer ''heartBit'' (tcl_timerMgr st))\<rparr>
      in case TimerMgr_Stop (tcl_timerMgr st1) of
           Inl e \<Rightarrow> Inl e
         | Inr tm \<Rightarrow>
             if tcl_timer st1 \<in> set (tm_deleted tm) then Inl Undefined
             else Inr (st1\<lparr>tcl_timerMgr := tm, tcl_deleted := tcl_deleted st1 @ [tcl_timer st1]\<rparr>))"

text \<open>The functions that forward to the session; without one they use a null pointer.\<close>

definition on_session :: "(session \<Rightarrow> 'a \<times> session) \<Rightarrow> 'k tcpclient \<Rightarrow> xerror + ('a \<times> 'k tcpclient)" where
  "on_session f st =
     (case tcl_client st of None \<Rightarrow> Inl Undefined | Some ss \<Rightarrow> (case f ss of (r, ss') \<Rightarrow> Inr (r, st\<lparr>tcl_client := Some ss'\<rparr>)))"

definition TcpClient_RecvNetPackage :: "'k tcpclient \<Rightarrow> xerror + ((int \<times> NetPackage option) \<times> 'k tcpclient)" where
  "TcpClient_RecvNetPackage st = on_session (\<lambda>ss. case Session_RecvNetPackage ss of (r, p, ss') \<Rightarrow> ((r, p), ss')) st"

definition TcpClient_RecycleMem :: "(session \<Rightarrow> addr \<Rightarrow> session) \<Rightarrow> addr \<Rightarrow> 'k tcpclient \<Rightarrow> xerror + 'k tcpclient" where
  "TcpClient_RecycleMem fr pData st =
     (if pData = 0 then Inr st
      else case on_session (\<lambda>ss. ((), fr ss pData)) st of Inl e \<Rightarrow> Inl e | Inr (_, st') \<Rightarrow> Inr st')"

definition TcpClient_AllocPackage ::
    "(session \<Rightarrow> nat \<Rightarrow> addr \<times> session) \<Rightarrow> bmem \<Rightarrow> nat \<Rightarrow> nat \<Rightarrow> nat \<Rightarrow> 'k tcpclient \<Rightarrow> xerror + (NetPackage \<times> 'k tcpclient)" where
  "TcpClient_AllocPackage al mem ts junk len st =
     on_session (\<lambda>ss. case al ss len of (p, ss') \<Rightarrow> (package_at mem ts junk p len, ss')) st"

definition TcpClient_SendNetPackage :: "NetPackage \<Rightarrow> 'k tcpclient \<Rightarrow> xerror + (int \<times> 'k tcpclient)" where
  "TcpClient_SendNetPackage p st = on_session (Session_SendNetPackage p) st"

definition TcpClient_getSock :: "'k tcpclient \<Rightarrow> int" where
  "TcpClient_getSock st = an_sock (tcl_pNet st)"

text \<open>The three packages of the base protocol.\<close>

definition base_package :: "nat \<Rightarrow> nat \<Rightarrow> nat \<Rightarrow> NetPackage" where
  "base_package proto ts junk = SetBaseProtol proto ((NetPackage_new None 0 junk)\<lparr>m_timestamp := ts\<rparr>)"

definition ConnServer :: "nat \<Rightarrow> nat \<Rightarrow> 'k tcpclient \<Rightarrow> xerror + (int \<times> 'k tcpclient)" where
  "ConnServer ts junk st = TcpClient_SendNetPackage (base_package 1 ts junk) st"

definition DisconnServer :: "nat \<Rightarrow> nat \<Rightarrow> 'k tcpclient \<Rightarrow> xerror + (int \<times> 'k tcpclient)" where
  "DisconnServer ts junk st = TcpClient_SendNetPackage (base_package 2 ts junk) st"

definition TimerProc :: "nat \<Rightarrow> nat \<Rightarrow> 'k tcpclient \<Rightarrow> xerror + (int \<times> 'k tcpclient)" where
  "TimerProc ts junk st = TcpClient_SendNetPackage (base_package 3 ts junk) st"

text \<open>One turn of \<open>Run\<close>: completed requests are taken from the queue, both cases of the switch are empty.\<close>

definition TcpClient_Run :: "'k tcpclient \<Rightarrow> 'k tcpclient option" where
  "TcpClient_Run st =
     (if \<not> tcl_bStart st then Some st
      else case GetQueueComplateStatus CPostReq_Valid (tcl_pNet st) of
        None \<Rightarrow> None
      | Some (ok, r, net) \<Rightarrow> Some (st\<lparr>tcl_pNet := net\<rparr>))"

definition SessionRun :: "work_env \<Rightarrow> 'k tcpclient \<Rightarrow> (xerror + 'k tcpclient) option" where
  "SessionRun e st =
     (if \<not> tcl_flag st then Some (Inr st)
      else case tcl_client st of
        None \<Rightarrow> Some (Inl Undefined)
      | Some ss \<Rightarrow>
          (case ParseData (we_hooks e) (we_now e) (we_node e) ss of
             Inl x \<Rightarrow> Some (Inl x)
           | Inr ss1 \<Rightarrow>
               (case Session_PostSend (we_fuel e) (we_enc e) (we_node e) ss1 of
                  None \<Rightarrow> None
                | Some (Inl x) \<Rightarrow> Some (Inl x)
                | Some (Inr ss2) \<Rightarrow> Some (Inr (st\<lparr>tcl_client := Some ss2\<rparr>)))))"

definition TcpClient_Close :: "int \<Rightarrow> 'k tcpclient \<Rightarrow> 'k tcpclient" where
  "TcpClient_Close fd st = st\<lparr>tcl_pNet := an_event (CloseFd fd) (tcl_pNet st)\<rparr>"

definition TcpClient_PostRecvReq ::
    "int \<Rightarrow> addr \<Rightarrow> nat \<Rightarrow> int \<Rightarrow> nat option \<Rightarrow> post_req option \<Rightarrow> 'k tcpclient \<Rightarrow> xerror + (bool \<times> post_req \<times> 'k tcpclient)" where
  "TcpClient_PostRecvReq fd bufp len nIndex pExtend node st =
     (case node of
        None \<Rightarrow> Inl Undefined
      | Some r \<Rightarrow>
          (let r' = r\<lparr>pr_cSock := fd\<rparr>
           in Inr (True, r', st\<lparr>tcl_pNet := postQuest fd READTASK (pr_node r') (tcl_pNet st)\<rparr>)))"

definition TcpClient_PostSendReq ::
    "int \<Rightarrow> addr \<Rightarrow> nat \<Rightarrow> int \<Rightarrow> post_req option \<Rightarrow> 'k tcpclient \<Rightarrow> xerror + (bool \<times> post_req \<times> 'k tcpclient)" where
  "TcpClient_PostSendReq fd bufp len nIndex node st =
     (case node of
        None \<Rightarrow> Inl Undefined
      | Some r \<Rightarrow>
          (let r' = r\<lparr>pr_cSock := fd\<rparr>
           in Inr (True, r', st\<lparr>tcl_pNet := postQuest fd WRITETASK (pr_node r') (tcl_pNet st)\<rparr>)))"

subsection \<open>Request nodes leak and are never served\<close>

lemma apply_two:
  assumes "pool_inv f (pm_pool m)" "inj f" "0 \<notin> range f" "1 \<le> m_nMax (pm_pool m)" "m_nMax (pm_pool m) < 16384"
  shows "\<exists>p q m'. ApplyPostNode (newobj f) m = Inr (q, m') \<and> q \<noteq> 0 \<and> p \<noteq> q \<and> p \<notin> live_objs (pm_pool m) \<and> q \<notin> live_objs (pm_pool m)
    \<and> live_objs (pm_pool m') = {p, q} \<union> live_objs (pm_pool m)
    \<and> ((\<forall>a. mn_pData (pr_node (pm_nodes m a)) = 0) \<longrightarrow> pm_nodes m' = pm_nodes m)
    \<and> (\<exists>m''. ReleaseNode q m' = Inr m'' \<and> live_objs (pm_pool m'') = insert p (live_objs (pm_pool m)))"
proof -
  obtain p pool1 where a: "ObjPool_Alloc (newobj f) 1 (pm_pool m) = Inr (p, pool1)" "p \<noteq> 0" "pool_inv f pool1" "p \<notin> live_objs (pm_pool m)"
      "live_objs pool1 = insert p (live_objs (pm_pool m))"
    using alloc_one [OF assms(1-4)] assms(5) by auto
  have mx: "1 \<le> m_nMax pool1" "m_nMax pool1 < 32768" using alloc_nMax [OF a(1)] assms(4,5) by auto
  obtain q pool2 pool3 where b: "ObjPool_Alloc (newobj f) 1 pool1 = Inr (q, pool2)" "q \<noteq> 0" "q \<notin> live_objs pool1"
      "live_objs pool2 = insert q (live_objs pool1)" "ObjPool_Free q 1 pool2 = Inr pool3" "live_objs pool3 = live_objs pool1"
    using alloc_one [OF a(3) assms(2,3) mx] by auto
  define m' where "m' = (reset_node p (m\<lparr>pm_pool := pool1\<rparr>))\<lparr>pm_pool := pool2\<rparr>"
  have pool: "pm_pool (reset_node p (m\<lparr>pm_pool := pool1\<rparr>)) = pool1" by (simp add: reset_node_def split: prod.splits)
  have nodes: "pm_nodes m' = pm_nodes m" if "\<forall>a. mn_pData (pr_node (pm_nodes m a)) = 0"
    using that by (simp add: m'_def reset_node_def MemNode_Reset_def)
  have "ApplyPostNode (newobj f) m = Inr (q, m')" using a(1,2) b(1) by (simp add: ApplyPostNode_def Let_def pool m'_def)
  moreover have "ReleaseNode q m' = Inr (m'\<lparr>pm_pool := pool3\<rparr>)" using b(5) by (simp add: ReleaseNode_def m'_def)
  ultimately show ?thesis using a(2,4,5) b(2,3,4,6) nodes
    by (intro exI [of _ p] exI [of _ q] exI [of _ m']) (auto simp: m'_def)
qed

text \<open>
  Observation. Applying for a request node takes two nodes out of the pool and hands out the second; releasing it gives one back.
  Every pair of calls leaves one more node in use.
\<close>
theorem apply_release_leaks:
  assumes "pool_inv f (pm_pool m)" "inj f" "0 \<notin> range f" "1 \<le> m_nMax (pm_pool m)" "m_nMax (pm_pool m) < 16384"
  shows "\<exists>p q m' m''. ApplyPostNode (newobj f) m = Inr (q, m') \<and> ReleaseNode q m' = Inr m''
    \<and> p \<notin> live_objs (pm_pool m) \<and> live_objs (pm_pool m'') = insert p (live_objs (pm_pool m))"
  using apply_two [OF assms] by blast

text \<open>
  Property C31. On Linux a server never receives data. A receive request of a session is queued as an empty node, because \<open>PostRecvReq\<close> stores only the
  socket in it; the worker that serves the readable socket takes the node from the queue, finds it invalid and returns without
  reading, and the next worker takes the front of an empty list.
\<close>
theorem posted_receive_never_served:
  assumes "pool_inv f (pm_pool m)" "inj f" "0 \<notin> range f" "1 \<le> m_nMax (pm_pool m)" "m_nMax (pm_pool m) < 16384"
    and "\<forall>a. mn_pData (pr_node (pm_nodes m a)) = 0"
    and "an_run (ts_pServer st)" "msorted (an_read (ts_pServer st))" "map_of (an_read (ts_pServer st)) fd = Some []"
  shows "\<exists>m' st' net. Session_PostRecvReq (newobj f) fd bufp len nIndex prev 0 m st = Inr (True, m', st')
    \<and> Server_PostSockReader fuel K fd s (ts_pServer st') = Some (Inr net)
    \<and> an_data net = an_data (ts_pServer st) \<and> an_k net = an_k (ts_pServer st) \<and> an_mem net = an_mem (ts_pServer st)
    \<and> Server_PostSockReader fuel K fd s net = Some (Inl Undefined)"
proof -
  obtain q m1 where q: "ApplyPostNode (newobj f) m = Inr (q, m1)" "q \<noteq> 0" "pm_nodes m1 = pm_nodes m"
    using apply_two [OF assms(1-5)] assms(6) by blast
  define n where "n = pr_node (pm_nodes m q)"
  define st' where "st' = st\<lparr>ts_pServer := (ts_pServer st)\<lparr>an_read := massign fd [n] (an_read (ts_pServer st))\<rparr>\<rparr>"
  define net where "net = (ts_pServer st')\<lparr>an_read := massign fd [] (an_read (ts_pServer st'))\<rparr>"
  have post: "\<exists>m'. Session_PostRecvReq (newobj f) fd bufp len nIndex prev 0 m st = Inr (True, m', st')"
    using q assms(7,9)
    by (simp add: Session_PostRecvReq_def Session_node_def TcpServer_PostRecvReq_def Let_def postQuest_def AppendData_def st'_def n_def)
  have "map_of (an_read (ts_pServer st')) fd = Some [n]" "\<not> MemNode_Valid n"
    using assms(6,8) by (simp_all add: st'_def n_def map_of_massign MemNode_Valid_def)
  then have "Server_PostSockReader fuel K fd s (ts_pServer st') = Some (Inr net)"
    by (simp add: Server_PostSockReader_def sock_reader_def GetAndPopFront_def net_def)
  moreover have "map_of (an_read net) fd = Some []" using assms(8) by (simp add: net_def st'_def map_of_massign)
  then have "Server_PostSockReader fuel K fd s net = Some (Inl Undefined)"
    by (simp add: Server_PostSockReader_def sock_reader_def GetAndPopFront_def)
  ultimately show ?thesis using post by (fastforce simp: net_def st'_def)
qed

subsection \<open>Connections\<close>

lemma init_post_ok:
  "\<exists>ss'. Session_PostRecv 0 None nd (SocketSession_Init ty b now rbase sbase ss) = Inr ss'"
  by (simp add: Session_PostRecv_def SocketSession_Init_def InitFrames_def init_bufs_def RECV_BUFFER_SIZE_def PERIOPOSTSIZE_def Let_def)

text \<open>
  Property C11. A new connection reaches the client list. An event on the listening socket accepts the connection, registers it for
  reading and writing, creates its two queues and queues a request; the turn of \<open>EpollThread\<close> that takes the request appends
  a client with that socket, address and the server's port, behind the others.
\<close>
theorem accepted_client_enters:
  assumes "an_run (ts_pServer st)" "an_data (ts_pServer st) = []" "an_sock (ts_pServer st) = fd" "fd \<noteq> - 1"
    and "k_accept K fd (an_k (ts_pServer st)) = ((c, ip), k)" "c \<noteq> - 1"
    and "ts_bStart st" "m_bStart (ts_Manager st)" "ee_session e = Some ss"
    and "msorted (an_read (ts_pServer st))" "c \<notin> fst ` set (an_read (ts_pServer st))"
  shows "\<exists>st' cl. EpollThread e (st\<lparr>ts_pServer := Server_HandleThread K [(fd, isin, isout)] (ts_pServer st)\<rparr>) = Some (Inr st')
    \<and> m_clientInfos (ts_Manager st') = m_clientInfos (ts_Manager st) @ [cl]
    \<and> c_hSock cl = \<lparr>m_sock = c, m_ip = ip, m_conntype = 0, m_port = ts_port st\<rparr>
    \<and> map_of (an_read (ts_pServer st')) c = Some [] \<and> EpollAdd c (an_hEpoll (ts_pServer st)) True \<in> set (an_log (ts_pServer st'))"
proof -
  define r where "r = (PostReq_of (MemNode_new\<lparr>mn_oType := Some OP_ACCEPT\<rparr>))\<lparr>pr_sSock := fd, pr_cSock := c, pr_ip := ip\<rparr>"
  define net where "net = Server_HandleThread K [(fd, isin, isout)] (ts_pServer st)"
  have net: "an_data net = [r]" "an_run net" "an_read net = minsert c [] (an_read (ts_pServer st))"
      "EpollAdd c (an_hEpoll (ts_pServer st)) True \<in> set (an_log net)"
    using assms(1-6)
    by (simp_all add: net_def r_def Server_HandleThread_def Server_event_def on_accept_callback_def Server_FdAdd_def ProduceNode_def an_event_def
      AppendNew_def Let_def)
  have valid: "SPostReq_Valid r" "mn_oType (pr_node r) = Some OP_ACCEPT" using assms(4,6) by (simp_all add: r_def SPostReq_Valid_def PostReq_of_def)
  define h where "h = \<lparr>m_sock = c, m_ip = ip, m_conntype = 0, m_port = ts_port st\<rparr>"
  obtain ss' where ss': "Session_PostRecv 0 None (ee_node e) (SocketSession_Init 0 (m_pBase (ts_Manager st)) (ee_now e) (ee_rbase e) (ee_sbase e) ss) = Inr ss'"
    using init_post_ok by blast
  then obtain b where b: "AppendNewClient (ee_now e) (ee_rbase e) (ee_sbase e) (ee_node e) (ee_session e) h (ts_Manager st) = Inr b"
      "m_clientInfos b = m_clientInfos (ts_Manager st) @ [\<lparr>c_hSock = h, c_sess = ss'\<rparr>]"
    using assms(8,9) by (simp add: AppendNewClient_def Let_def)
  have "req_sock (ts_port st) r = h" by (simp add: req_sock_def r_def h_def PostReq_of_def)
  then have "EpollThread e (st\<lparr>ts_pServer := net\<rparr>) = Some (Inr (st\<lparr>ts_pServer := net\<lparr>an_data := []\<rparr>, ts_Manager := b\<rparr>))"
    using assms(7) net(1,2) valid b(1) by (simp add: EpollThread_def GetQueueComplateStatus_def epoll_switch_def Let_def)
  moreover have "map_of (an_read net) c = Some []" using assms(10,11) by (simp add: net(3) map_of_minsert map_of_eq_None_iff)
  ultimately show ?thesis using b(2) net(4) unfolding net_def [symmetric] by (simp add: h_def)
qed

text \<open>
  Observation. Stopping a started client deletes its heartbeat timer twice: \<open>DelTimer\<close> deletes it, and \<open>Stop\<close> deletes it again.
\<close>
theorem client_stop_deletes_timer_twice:
  "TcpClient_Stop (snd (TcpClient_Start K ip port (Some ss) (TcpClientImpl_new mem k now tid jc jf))) = Inl Undefined"
proof -
  let ?t = "SetStartTime now (Timer_new tid 1000 30 jc jf)"
  have t: "nInterval ?t \<noteq> 0" "at_id ?t = tid" by (simp_all add: SetStartTime_def Timer_new_def SetTimer_def to_bits_def)
  have no: "ProcDel p \<notin> set (tp_log (start_workers 0 1 0 1 (ThreadPoolImpl_new 2)))" for p
    by (simp add: start_workers_def ThreadPoolImpl_new_def TP_Init_def Register_taskProcess_def submit_job_req_def Let_def)
  show ?thesis using t no
    by (simp add: TcpClient_Start_def TcpClient_Stop_def TcpClientImpl_new_def AddTimer_def TimerMgrImpl_new_def TimerMgr_Init_def Let_def
      DelTimer_def TimerMgr_Stop_def stop_process_def delete_timers_def)
qed

subsection \<open>Examples\<close>

definition sample_mgr :: postmgr where
  "sample_mgr = \<lparr>pm_pool = two_objs, pm_nodes = (\<lambda>_. PostReq_of MemNode_new), pm_mem = (\<lambda>_. 0)\<rparr>"

lemma sample_mgr_ok:
  "pool_inv (\<lambda>k. 100 + k) (pm_pool sample_mgr)" "inj (\<lambda>k :: nat. 100 + k)" "0 \<notin> range (\<lambda>k :: nat. 100 + k)"
  "1 \<le> m_nMax (pm_pool sample_mgr)" "m_nMax (pm_pool sample_mgr) < 16384" "\<forall>a. mn_pData (pr_node (pm_nodes sample_mgr a)) = 0"
proof -
  show "inj (\<lambda>k :: nat. 100 + k)" by (rule injI) simp
  show "0 \<notin> range (\<lambda>k :: nat. 100 + k)" by auto
  show "pool_inv (\<lambda>k. 100 + k) (pm_pool sample_mgr)" unfolding sample_mgr_def using two_objs_inv by simp
  have "m_nMax (pm_pool sample_mgr) = 2" unfolding sample_mgr_def postmgr.simps two_objs_vec by simp
  then show "1 \<le> m_nMax (pm_pool sample_mgr)" "m_nMax (pm_pool sample_mgr) < 16384" by simp_all
  show "\<forall>a. mn_pData (pr_node (pm_nodes sample_mgr a)) = 0" by (simp add: sample_mgr_def PostReq_of_def MemNode_new_def)
qed

definition sample_server :: "8 word list tcpserver" where
  "sample_server = \<lparr>ts_bStart = True, ts_port = 80, ts_interface = True, ts_Manager = snd (Bal_Start True (BalanceHandle_new True False True 0 0 0 0)),
     ts_pServer = sample_net [] [1, 2, 3]\<rparr>"

theorem apply_release_leaks_witness:
  "\<exists>p q m' m''. ApplyPostNode (newobj (\<lambda>k. 100 + k)) sample_mgr = Inr (q, m') \<and> ReleaseNode q m' = Inr m''
    \<and> p \<notin> live_objs (pm_pool sample_mgr) \<and> live_objs (pm_pool m'') = insert p (live_objs (pm_pool sample_mgr))"
  by (rule apply_release_leaks [OF sample_mgr_ok(1-5)])

theorem posted_receive_never_served_witness:
  "\<exists>m' st' net. Session_PostRecvReq (newobj (\<lambda>k. 100 + k)) 5 4096 512 0 None 0 sample_mgr sample_server = Inr (True, m', st')
    \<and> Server_PostSockReader 9 stream_kernel 5 3 (ts_pServer st') = Some (Inr net)
    \<and> an_data net = [] \<and> an_k net = [1, 2, 3] \<and> Server_PostSockReader 9 stream_kernel 5 3 net = Some (Inl Undefined)"
  using posted_receive_never_served [OF sample_mgr_ok, of sample_server 5 4096 512 0 None 9 stream_kernel 3]
  by (auto simp: sample_server_def msorted_def)

theorem accepted_client_enters_witness:
  "\<exists>st' cl. EpollThread \<lparr>ee_now = 0, ee_rbase = 8, ee_sbase = 9000, ee_node = 0, ee_session = Some (SocketSession_new (\<lambda>_. 0))\<rparr>
      (sample_server\<lparr>ts_pServer := Server_HandleThread stream_kernel [(3, True, False)] ((sample_net [] [])\<lparr>an_read := []\<rparr>)\<rparr>) = Some (Inr st')
    \<and> m_clientInfos (ts_Manager st') = [cl] \<and> m_sock (c_hSock cl) = 5 \<and> m_port (c_hSock cl) = 80"
proof -
  let ?st = "sample_server\<lparr>ts_pServer := (sample_net [] [])\<lparr>an_read := []\<rparr>\<rparr>"
  have f: "an_sock (ts_pServer ?st) = 3" "m_bStart (ts_Manager ?st)" "m_clientInfos (ts_Manager ?st) = []" "ts_bStart ?st" "ts_port ?st = 80"
    by (simp_all add: sample_server_def sample_net_def Bal_Start_def BalanceHandle_new_def Let_def)
  show ?thesis
    using accepted_client_enters [of ?st 3 stream_kernel 5 "''127.0.0.1''" "[]"
      "\<lparr>ee_now = 0, ee_rbase = 8, ee_sbase = 9000, ee_node = 0, ee_session = Some (SocketSession_new (\<lambda>_. 0))\<rparr>" "SocketSession_new (\<lambda>_. 0)" True False] f
    by (auto simp: stream_kernel_def msorted_def)
qed

end
