(* ===== verification/WinThread.thy ===== *)
theory WinThread
  imports TPool SyncCtrl
begin

text \<open>
  The thread part of \<open>Thread/\<close> on Windows: spin locks, semaphores with a maximum, events and the thread pool. A system semaphore is its count; as
  documented, \<open>CreateSemaphore\<close> fails for an initial count above the maximum and \<open>ReleaseSemaphore\<close> leaves the count as it is when the
  maximum would be exceeded. A handle is \<open>None\<close> when it is null. The pool has the state of the pool on Linux (\<open>TPool\<close>) and shares the operations that are the
  same in both files; it is proved to behave like that pool as long as the maximum is not exceeded, and to lose tasks for good when it is.
\<close>

subsection \<open>Spin lock and integer\<close>

text \<open>\<open>m_lock\<close> is 0 or 1. A call of \<open>Lock\<close> that spins is \<open>None\<close>.\<close>

definition InterlockedCompareExchange :: "int \<Rightarrow> int \<Rightarrow> int \<Rightarrow> int \<times> int" where
  "InterlockedCompareExchange v new old = (v, if v = old then new else v)"

definition WAtomMutex_Lock :: "int \<Rightarrow> int option" where
  "WAtomMutex_Lock v = (let (was, v') = InterlockedCompareExchange v 1 0 in if was \<noteq> 0 then None else Some v')"

definition WAtomMutex_UnLock :: "int \<Rightarrow> int" where
  "WAtomMutex_UnLock v = 0"

definition WMutexInteger_SetVal :: "int \<Rightarrow> int \<Rightarrow> int" where
  "WMutexInteger_SetVal n v = n"

text \<open>
  \<open>getVal\<close> and \<open>IsVal\<close> read \<open>m_val\<close> before the exchange, which is the only atomic part. \<open>r\<close> and \<open>c\<close> are the values that were read as new value
  and as value to compare with.
\<close>

definition WMutexInteger_getVal :: "int \<Rightarrow> int \<Rightarrow> int \<Rightarrow> int \<times> int" where
  "WMutexInteger_getVal r c v = InterlockedCompareExchange v r c"

definition WMutexInteger_IsVal :: "int \<Rightarrow> int \<Rightarrow> int \<Rightarrow> bool \<times> int" where
  "WMutexInteger_IsVal n r v = (let (was, v') = InterlockedCompareExchange v r n in (n = was, v'))"

text \<open>
  Observation. A query can undo an assignment: when another thread assigns the value that is asked for between the read and the exchange,
  the query answers that the value is there and puts the old value back.
\<close>
lemma IsVal_undoes_SetVal:
  "WMutexInteger_IsVal n v (WMutexInteger_SetVal n v) = (True, v)"
  by (simp add: WMutexInteger_IsVal_def WMutexInteger_SetVal_def InterlockedCompareExchange_def)

subsection \<open>Locks with two modes\<close>

datatype srwlock = SRWFree | SRWExclusive | SRWShared nat

definition WRW_LockWrite :: "srwlock \<Rightarrow> srwlock option" where
  "WRW_LockWrite l = (if l = SRWFree then Some SRWExclusive else None)"

definition WRW_LockRead :: "srwlock \<Rightarrow> srwlock option" where
  "WRW_LockRead l = (case l of SRWFree \<Rightarrow> Some (SRWShared 0) | SRWShared n \<Rightarrow> Some (SRWShared (Suc n)) | SRWExclusive \<Rightarrow> None)"

definition WRW_UnlockWrite :: "srwlock \<Rightarrow> xerror + srwlock" where
  "WRW_UnlockWrite l = (if l = SRWExclusive then Inr SRWFree else Inl Undefined)"

definition WRW_UnlockRead :: "srwlock \<Rightarrow> xerror + srwlock" where
  "WRW_UnlockRead l = (case l of SRWShared n \<Rightarrow> Inr (if n = 0 then SRWFree else SRWShared (n - 1)) | _ \<Rightarrow> Inl Undefined)"

text \<open>\<open>ThreadCtrlExImpl\<close>: the waiting functions give the lock up in shared mode.\<close>

record WThreadCtrlEx =
  wc_lock :: srwlock
  wc_condp :: nat
  wc_condc :: nat

definition WTC_Lock :: "WThreadCtrlEx \<Rightarrow> WThreadCtrlEx option" where
  "WTC_Lock c = map_option (\<lambda>l. c\<lparr>wc_lock := l\<rparr>) (WRW_LockWrite (wc_lock c))"

definition WTC_Unlock :: "WThreadCtrlEx \<Rightarrow> xerror + WThreadCtrlEx" where
  "WTC_Unlock c = map_sum id (\<lambda>l. c\<lparr>wc_lock := l\<rparr>) (WRW_UnlockWrite (wc_lock c))"

definition WTC_WaitProduce :: "WThreadCtrlEx \<Rightarrow> xerror + WThreadCtrlEx" where
  "WTC_WaitProduce c = map_sum id (\<lambda>l. c\<lparr>wc_lock := l, wc_condp := wc_condp c + 1\<rparr>) (WRW_UnlockRead (wc_lock c))"

definition WTC_WaitConsume :: "WThreadCtrlEx \<Rightarrow> xerror + WThreadCtrlEx" where
  "WTC_WaitConsume c = map_sum id (\<lambda>l. c\<lparr>wc_lock := l, wc_condc := wc_condc c + 1\<rparr>) (WRW_UnlockRead (wc_lock c))"

definition WTC_WakeProduce :: "bool \<Rightarrow> WThreadCtrlEx \<Rightarrow> WThreadCtrlEx" where
  "WTC_WakeProduce bAll c = c\<lparr>wc_condp := (if bAll then 0 else wc_condp c - 1)\<rparr>"

definition WTC_WakeConsume :: "bool \<Rightarrow> WThreadCtrlEx \<Rightarrow> WThreadCtrlEx" where
  "WTC_WakeConsume bAll c = c\<lparr>wc_condc := (if bAll then 0 else wc_condc c - 1)\<rparr>"

text \<open>Observation. A thread that locks and then waits gives up a lock in a mode in which it does not hold it.\<close>
lemma lock_then_wait_undefined:
  "WTC_Lock c = Some c' \<Longrightarrow> WTC_WaitProduce c' = Inl Undefined \<and> WTC_WaitConsume c' = Inl Undefined"
  by (auto simp: WTC_Lock_def WTC_WaitProduce_def WTC_WaitConsume_def WRW_LockWrite_def WRW_UnlockRead_def split: if_splits)

subsection \<open>Semaphores\<close>

definition NSEMACOUNT :: nat where "NSEMACOUNT = 10"

definition CreateSemaphore :: "int \<Rightarrow> nat option" where
  "CreateSemaphore n = (if 0 \<le> n \<and> n \<le> int NSEMACOUNT then Some (nat n) else None)"

definition ReleaseSemaphore :: "nat \<Rightarrow> nat \<Rightarrow> nat" where
  "ReleaseSemaphore n s = (if s + n \<le> NSEMACOUNT then s + n else s)"

definition WSem_Post :: "nat option \<Rightarrow> nat option" where
  "WSem_Post h = map_option (ReleaseSemaphore 1) h"

definition WSem_Wait :: "nat option \<Rightarrow> nat option option" where
  "WSem_Wait h = (case h of None \<Rightarrow> Some None | Some s \<Rightarrow> if s = 0 then None else Some (Some (s - 1)))"

record WSemaphoreEx =
  wx_nCount :: nat
  wx_nWait :: nat
  wx_nPost :: nat
  wx_hSema :: "nat option"

definition WSemEx_new :: "nat \<Rightarrow> WSemaphoreEx" where
  "WSemEx_new junk = \<lparr>wx_nCount = junk, wx_nWait = 1, wx_nPost = 1, wx_hSema = None\<rparr>"

definition WSemEx_Init :: "int \<Rightarrow> int \<Rightarrow> int \<Rightarrow> WSemaphoreEx \<Rightarrow> WSemaphoreEx" where
  "WSemEx_Init nCount nWait nPost s =
     (if wx_hSema s \<noteq> None then s
      else \<lparr>wx_nCount = to_uchar nCount, wx_nWait = to_uchar nWait, wx_nPost = to_uchar nPost, wx_hSema = CreateSemaphore nCount\<rparr>)"

definition WSemSignal :: "int \<Rightarrow> WSemaphoreEx \<Rightarrow> WSemaphoreEx" where
  "WSemSignal n s =
     (case wx_hSema s of
        None \<Rightarrow> s
      | Some c \<Rightarrow> s\<lparr>wx_nCount := to_uchar (int (wx_nCount s) + (if 0 < n \<and> n < int (wx_nPost s) then n else int (wx_nPost s))),
                    wx_hSema := Some (ReleaseSemaphore (wx_nPost s) c)\<rparr>)"

text \<open>\<open>SemWait\<close> takes the semaphore one by one: the result is how many are still to be taken when it has to wait, 0 when it returns.\<close>

definition wait_for :: "int \<Rightarrow> WSemaphoreEx \<Rightarrow> nat" where
  "wait_for n s = nat (if 0 < n \<and> n < int (wx_nWait s) then n else int (wx_nWait s))"

fun wait_loop :: "nat \<Rightarrow> WSemaphoreEx \<Rightarrow> nat \<times> WSemaphoreEx" where
  "wait_loop 0 s = (0, s)"
| "wait_loop (Suc k) s =
     (case wx_hSema s of
        None \<Rightarrow> (0, s)
      | Some c \<Rightarrow> if c = 0 then (Suc k, s)
                  else wait_loop k (s\<lparr>wx_hSema := Some (c - 1), wx_nCount := to_uchar (int (wx_nCount s) - 1)\<rparr>))"

definition WSemWait :: "int \<Rightarrow> WSemaphoreEx \<Rightarrow> nat \<times> WSemaphoreEx" where
  "WSemWait n s = (if wx_hSema s = None then (0, s) else wait_loop (wait_for n s) s)"

subsection \<open>Rounds of work\<close>

text \<open>
  \<open>TaskCtrlImpl\<close> on Windows: an event that \<open>PulseEvent\<close> signals for the threads that wait at that moment. \<open>wt_hEvent\<close>: the event was created;
  \<open>wt_waiting\<close>: the threads that wait for it. \<open>AddThread\<close> and \<open>DelThread\<close> do nothing.
\<close>

record WTaskCtrl =
  wt_sema :: WSemaphoreEx
  wt_hEvent :: bool
  wt_waiting :: "addr list"

definition WTaskCtrl_new :: "nat \<Rightarrow> WTaskCtrl" where
  "WTaskCtrl_new junk = \<lparr>wt_sema = WSemEx_new junk, wt_hEvent = False, wt_waiting = []\<rparr>"

definition WTaskCtrl_Init :: "int \<Rightarrow> WTaskCtrl \<Rightarrow> WTaskCtrl" where
  "WTaskCtrl_Init n c = (if wt_hEvent c then c else c\<lparr>wt_sema := WSemEx_Init 0 n 1 (wt_sema c), wt_hEvent := True\<rparr>)"

text \<open>
  The two halves of \<open>SyncTaskOneTime\<close>. The first gives the threads that go on and how many signals the second has to take; the second, called with that number, gives
  how many are still missing when it has to wait. The definition of the whole is the case where nothing runs in between.
\<close>

definition WSync_pulse :: "WTaskCtrl \<Rightarrow> (addr list \<times> nat) \<times> WTaskCtrl" where
  "WSync_pulse c = (if wt_hEvent c then ((wt_waiting c, wait_for (- 1) (wt_sema c)), c\<lparr>wt_waiting := []\<rparr>) else (([], 0), c))"

definition WSync_wait :: "nat \<Rightarrow> WTaskCtrl \<Rightarrow> nat \<times> WTaskCtrl" where
  "WSync_wait k c = (let (j, s) = wait_loop k (wt_sema c) in (j, c\<lparr>wt_sema := s\<rparr>))"

definition WSyncTaskOneTime :: "WTaskCtrl \<Rightarrow> nat \<times> WTaskCtrl" where
  "WSyncTaskOneTime c = (let ((xs, k), c1) = WSync_pulse c in WSync_wait k c1)"

text \<open>\<open>wait\<close>: whether the thread goes on at once.\<close>

definition WTaskCtrl_wait :: "addr \<Rightarrow> WTaskCtrl \<Rightarrow> bool \<times> WTaskCtrl" where
  "WTaskCtrl_wait x c = (if wt_hEvent c then (False, c\<lparr>wt_waiting := wt_waiting c @ [x]\<rparr>) else (True, c))"

definition WTaskCtrl_done :: "WTaskCtrl \<Rightarrow> WTaskCtrl" where
  "WTaskCtrl_done c = c\<lparr>wt_sema := WSemSignal (- 1) (wt_sema c)\<rparr>"

subsection \<open>Thread pool\<close>

text \<open>
  The constructor leaves the pool stopped, which \<open>Init\<close> changes. \<open>run\<close>, \<open>Register_taskProcess\<close> and the setters are the same as on Linux.
\<close>

definition WThreadPool_new :: "nat \<Rightarrow> tpool" where
  "WThreadPool_new limit = (ThreadPoolImpl_new limit)\<lparr>m_flag := False\<rparr>"

definition WTP_Init :: "tpool \<Rightarrow> int \<times> tpool" where
  "WTP_Init st =
     (if m_pools st \<noteq> None then (-1, st) else (0, st\<lparr>m_pools := Some (m_thread_sum st), m_flag := True\<rparr>))"

definition Wsubmit_job_req :: "int \<Rightarrow> task \<Rightarrow> tpool \<Rightarrow> int \<times> tpool" where
  "Wsubmit_job_req w job st =
     (if \<not> m_flag st then (-1, st)
      else if m_LowPriority st \<noteq> ''-1'' \<and> (\<exists>o1 \<in> set (m_jobs st). TaskTypeCompare (m_LowPriority st) (Some job) (m_taskCmp st) o1)
      then (-2, st\<lparr>tp_log := tp_log st @ [TaskDel job]\<rparr>)
      else (w, st\<lparr>m_jobs := m_jobs st @ [job], m_ctrl := ReleaseSemaphore 1 (m_ctrl st)\<rparr>))"

definition WTP_run :: "tpool \<Rightarrow> (xerror + tpool) option" where
  "WTP_run st =
     (if m_ctrl st = 0 then None
      else case take_job (st\<lparr>m_ctrl := m_ctrl st - 1\<rparr>) of
        None \<Rightarrow> Some (Inl Undefined)
      | Some (t, st1) \<Rightarrow> Some (Inr (exec_job t st1)))"

definition WTP_Stop :: "tpool \<Rightarrow> tpool" where
  "WTP_Stop st =
     (if \<not> m_flag st then st
      else st\<lparr>m_flag := False, m_ctrl := (ReleaseSemaphore 1 ^^ m_thread_sum st) (m_ctrl st), m_tasks := [], m_jobs := [], m_pools := None,
              tp_log := tp_log st @ map (\<lambda>(k, p). ProcDel p) (m_tasks st) @
                        concat (map (\<lambda>t. [TaskDone t 1, TaskDel t]) (m_jobs st))\<rparr>)"

text \<open>What other threads and workers do with a pool between \<open>Init\<close> and \<open>Stop\<close>.\<close>

datatype pool_op =
    SubmitOp int task
  | TurnOp
  | RegisterOp jobtype nat
  | MaxPrioOp jobtype
  | MergeOp jobtype
  | CmpOp tcompare

text \<open>A turn of a worker that has to wait changes nothing.\<close>

definition turn :: "(tpool \<Rightarrow> (xerror + tpool) option) \<Rightarrow> tpool \<Rightarrow> tpool" where
  "turn run st = (case run st of Some (Inr st') \<Rightarrow> st' | _ \<Rightarrow> st)"

fun pool_do :: "(int \<Rightarrow> task \<Rightarrow> tpool \<Rightarrow> int \<times> tpool) \<Rightarrow> (tpool \<Rightarrow> (xerror + tpool) option) \<Rightarrow> pool_op \<Rightarrow> tpool \<Rightarrow> tpool" where
  "pool_do sub run (SubmitOp w job) st = snd (sub w job st)"
| "pool_do sub run TurnOp st = turn run st"
| "pool_do sub run (RegisterOp ty p) st = snd (Register_taskProcess ty p st)"
| "pool_do sub run (MaxPrioOp ty) st = setMaxPriorityType ty st"
| "pool_do sub run (MergeOp ty) st = setMergeTaskType ty st"
| "pool_do sub run (CmpOp f) st = setTaskCmp f st"

abbreviation linux_pool :: "pool_op \<Rightarrow> tpool \<Rightarrow> tpool" where
  "linux_pool \<equiv> pool_do submit_job_req TP_run"

abbreviation win_pool :: "pool_op \<Rightarrow> tpool \<Rightarrow> tpool" where
  "win_pool \<equiv> pool_do Wsubmit_job_req WTP_run"

subsection \<open>Like the pool on Linux\<close>

lemma win_run_is_linux: "WTP_run = TP_run"
  by (simp add: fun_eq_iff WTP_run_def TP_run_def)

lemma win_started: "snd (WTP_Init (WThreadPool_new n)) = snd (TP_Init (ThreadPoolImpl_new n))"
  by (simp add: WTP_Init_def TP_Init_def WThreadPool_new_def ThreadPoolImpl_new_def)

lemma started_ok: "pool_ok (snd (TP_Init (ThreadPoolImpl_new n)))" "m_jobs (snd (TP_Init (ThreadPoolImpl_new n))) = []"
  "m_LowPriority (snd (TP_Init (ThreadPoolImpl_new n))) = ''-1''"
  by (simp_all add: pool_ok_def TP_Init_def ThreadPoolImpl_new_def)

lemma linux_pool_ok:
  assumes "pool_ok st"
  shows "pool_ok (linux_pool op st)"
proof (cases op)
  case (SubmitOp w job)
  then show ?thesis using tp_step_ok [OF tp_step.Submit assms] by simp
next
  case TurnOp
  then show ?thesis using TP_run_ok [OF assms] assms by (auto simp: turn_def split: option.splits sum.splits)
next
  case (RegisterOp ty p)
  then show ?thesis using tp_step_ok [OF tp_step.Register assms] by simp
next
  case (MaxPrioOp ty)
  then show ?thesis using tp_step_ok [OF tp_step.MaxPrio assms] by simp
next
  case (MergeOp ty)
  then show ?thesis using tp_step_ok [OF tp_step.Merge assms] by simp
next
  case (CmpOp f)
  then show ?thesis using tp_step_ok [OF tp_step.Cmp assms] by simp
qed

lemma win_op_is_linux:
  assumes "pool_ok st" "length (m_jobs (linux_pool op st)) \<le> NSEMACOUNT"
  shows "win_pool op st = linux_pool op st"
  using assms by (cases op)
    (auto simp: win_run_is_linux Wsubmit_job_req_def submit_job_req_def ReleaseSemaphore_def pool_ok_def split: if_splits)

lemma win_ops_are_linux:
  assumes "pool_ok st" "\<And>k. k < length ops \<Longrightarrow> length (m_jobs (fold linux_pool (take (Suc k) ops) st)) \<le> NSEMACOUNT"
  shows "fold win_pool ops st = fold linux_pool ops st"
  using assms
proof (induction ops arbitrary: st)
  case (Cons op ops)
  have "win_pool op st = linux_pool op st"
    using Cons.prems(2) [of 0] by (intro win_op_is_linux Cons.prems(1)) simp
  moreover have "fold win_pool ops (linux_pool op st) = fold linux_pool ops (linux_pool op st)"
  proof (rule Cons.IH [OF linux_pool_ok [OF Cons.prems(1)]])
    fix k assume "k < length ops"
    then show "length (m_jobs (fold linux_pool (take (Suc k) ops) (linux_pool op st))) \<le> NSEMACOUNT"
      using Cons.prems(2) [of "Suc k"] by simp
  qed
  ultimately show ?case by simp
qed simp

subsection \<open>Tasks that are lost\<close>

text \<open>Tasks in the queue without a count of the semaphore.\<close>

definition unsignalled :: "tpool \<Rightarrow> nat" where
  "unsignalled st = length (m_jobs st) - m_ctrl st"

definition win_ok :: "tpool \<Rightarrow> bool" where
  "win_ok st \<longleftrightarrow> m_ctrl st \<le> length (m_jobs st) \<and> m_ctrl st \<le> NSEMACOUNT"

lemma win_turn:
  assumes "win_ok st" "m_ctrl st = Suc k"
  shows "\<exists>st'. WTP_run st = Some (Inr st') \<and> m_ctrl st' = k \<and> Suc (length (m_jobs st')) = length (m_jobs st) \<and> m_flag st' = m_flag st"
proof -
  have "take_job (st\<lparr>m_ctrl := k\<rparr>) \<noteq> None" using assms by (auto simp: take_job_None win_ok_def)
  then obtain t s where t: "take_job (st\<lparr>m_ctrl := k\<rparr>) = Some (t, s)" by auto
  note f = take_job_fields [OF t]
  show ?thesis using assms(2) t f by (simp add: WTP_run_def)
qed

lemma win_pool_keeps_lost:
  assumes "win_ok st"
  shows "win_ok (win_pool op st) \<and> unsignalled st \<le> unsignalled (win_pool op st)"
proof (cases op)
  case (SubmitOp w job)
  then show ?thesis using assms by (auto simp: win_ok_def unsignalled_def Wsubmit_job_req_def ReleaseSemaphore_def)
next
  case TurnOp
  show ?thesis
  proof (cases "m_ctrl st")
    case 0
    then have "win_pool op st = st" using TurnOp by (simp add: turn_def WTP_run_def)
    then show ?thesis using assms by simp
  next
    case (Suc k)
    then obtain st' where st': "WTP_run st = Some (Inr st')" "m_ctrl st' = k" "Suc (length (m_jobs st')) = length (m_jobs st)"
      using win_turn [OF assms] by blast
    then show ?thesis using assms Suc TurnOp by (auto simp: turn_def win_ok_def unsignalled_def)
  qed
qed (use assms in \<open>auto simp: win_ok_def unsignalled_def Register_taskProcess_def setMaxPriorityType_def setMergeTaskType_def setTaskCmp_def\<close>)

lemma win_ops_keep_lost:
  "win_ok st \<Longrightarrow> win_ok (fold win_pool ops st) \<and> unsignalled st \<le> unsignalled (fold win_pool ops st)"
proof (induction ops arbitrary: st)
  case (Cons op ops)
  note s = win_pool_keeps_lost [OF Cons.prems, of op]
  show ?case using Cons.IH [of "win_pool op st"] s by auto
qed simp

lemma submit_many:
  assumes "m_flag st" "m_LowPriority st = ''-1''" "m_ctrl st \<le> NSEMACOUNT"
  shows "m_jobs (fold (\<lambda>j. win_pool (SubmitOp w j)) js st) = m_jobs st @ js
    \<and> m_ctrl (fold (\<lambda>j. win_pool (SubmitOp w j)) js st) = min NSEMACOUNT (m_ctrl st + length js)"
  using assms
  by (induction js arbitrary: st) (auto simp: Wsubmit_job_req_def ReleaseSemaphore_def)

lemma win_turns:
  assumes "win_ok st"
  shows "m_ctrl ((turn WTP_run ^^ m_ctrl st) st) = 0"
  using assms
proof (induction "m_ctrl st" arbitrary: st)
  case (Suc k)
  obtain st' where st': "WTP_run st = Some (Inr st')" "m_ctrl st' = k" "Suc (length (m_jobs st')) = length (m_jobs st)"
    using win_turn [OF Suc.prems] Suc.hyps(2) by metis
  then have "win_ok st'" using Suc.prems Suc.hyps(2) by (auto simp: win_ok_def)
  then have "m_ctrl ((turn WTP_run ^^ k) st') = 0" using Suc.hyps(1) [of st'] st'(2) by simp
  moreover have "(turn WTP_run ^^ m_ctrl st) st = (turn WTP_run ^^ k) st'"
    unfolding Suc.hyps(2) [symmetric] funpow_Suc_right using st'(1) by (simp add: turn_def)
  ultimately show ?case by simp
qed simp

subsection \<open>Rounds that never end\<close>

text \<open>
  The threads of \<open>TaskCtrl\<close> on Windows: one calls \<open>SyncTaskOneTime\<close> again and again, those of \<open>X\<close> call \<open>wait\<close>, work and call \<open>done\<close>. \<open>wr_main\<close>: the signals the call still
  has to take, \<open>None\<close> outside of a call; \<open>wr_work\<close>: the threads at work.
\<close>

record wrounds =
  wr_ctrl :: WTaskCtrl
  wr_main :: "nat option"
  wr_work :: "addr set"

definition wrounds_start :: "nat \<Rightarrow> nat \<Rightarrow> wrounds" where
  "wrounds_start junk n = \<lparr>wr_ctrl = WTaskCtrl_Init (int n) (WTaskCtrl_new junk), wr_main = None, wr_work = {}\<rparr>"

inductive wrounds_step :: "addr set \<Rightarrow> wrounds \<Rightarrow> wrounds \<Rightarrow> bool" for X where
  WBegin: "wr_main s = None \<Longrightarrow> WSync_pulse (wr_ctrl s) = ((xs, k), c) \<Longrightarrow>
    wrounds_step X s \<lparr>wr_ctrl = c, wr_main = Some k, wr_work = wr_work s \<union> set xs\<rparr>"
| WTake: "wr_main s = Some k \<Longrightarrow> WSync_wait k (wr_ctrl s) = (j, c) \<Longrightarrow>
    wrounds_step X s (s\<lparr>wr_ctrl := c, wr_main := (if j = 0 then None else Some j)\<rparr>)"
| WWait: "x \<in> X \<Longrightarrow> x \<notin> wr_work s \<Longrightarrow> x \<notin> set (wt_waiting (wr_ctrl s)) \<Longrightarrow> WTaskCtrl_wait x (wr_ctrl s) = (go, c) \<Longrightarrow>
    wrounds_step X s (s\<lparr>wr_ctrl := c, wr_work := (if go then insert x (wr_work s) else wr_work s)\<rparr>)"
| WDone: "x \<in> wr_work s \<Longrightarrow>
    wrounds_step X s (s\<lparr>wr_ctrl := WTaskCtrl_done (wr_ctrl s), wr_work := wr_work s - {x}\<rparr>)"

inductive_cases wrounds_stepE: "wrounds_step X s s'"

inductive wrounds_reach :: "addr set \<Rightarrow> wrounds \<Rightarrow> wrounds \<Rightarrow> bool" for X s0 where
  WStart: "wrounds_reach X s0 s0"
| WStep: "wrounds_reach X s0 s \<Longrightarrow> wrounds_step X s s' \<Longrightarrow> wrounds_reach X s0 s'"

text \<open>
  The count of the semaphore, and the invariant: outside of a call no thread works and no signal is pending; inside, the threads at work and the pending signals
  are at most, or with \<open>strict\<close> fewer than, what the call still takes.
\<close>

definition pending_sig :: "wrounds \<Rightarrow> nat" where
  "pending_sig s = (case wx_hSema (wt_sema (wr_ctrl s)) of None \<Rightarrow> 0 | Some c \<Rightarrow> c)"

definition wr_shape :: "addr set \<Rightarrow> wrounds \<Rightarrow> bool" where
  "wr_shape X s \<longleftrightarrow> wt_hEvent (wr_ctrl s) \<and> wx_hSema (wt_sema (wr_ctrl s)) \<noteq> None \<and> wx_nPost (wt_sema (wr_ctrl s)) = 1
     \<and> wx_nWait (wt_sema (wr_ctrl s)) = card X \<and> finite X \<and> wr_work s \<subseteq> X \<and> set (wt_waiting (wr_ctrl s)) \<subseteq> X
     \<and> distinct (wt_waiting (wr_ctrl s)) \<and> set (wt_waiting (wr_ctrl s)) \<inter> wr_work s = {}"

definition wr_bal :: "bool \<Rightarrow> wrounds \<Rightarrow> bool" where
  "wr_bal strict s \<longleftrightarrow>
     (case wr_main s of
        None \<Rightarrow> \<not> strict \<and> wr_work s = {} \<and> pending_sig s = 0
      | Some k \<Rightarrow> if strict then card (wr_work s) + pending_sig s < k else card (wr_work s) + pending_sig s \<le> k)"

lemma wait_loop_counts:
  "wx_hSema s = Some c \<Longrightarrow> \<exists>s'. wait_loop k s = (k - c, s') \<and> wx_hSema s' = Some (c - k) \<and> wx_nPost s' = wx_nPost s \<and> wx_nWait s' = wx_nWait s"
proof (induction k arbitrary: s c)
  case (Suc k)
  show ?case
  proof (cases c)
    case (Suc d)
    then show ?thesis
      using Suc.prems Suc.IH [of "s\<lparr>wx_hSema := Some d, wx_nCount := to_uchar (int (wx_nCount s) - 1)\<rparr>" d] by auto
  qed (use Suc.prems in auto)
qed auto

lemma WTake_keeps:
  assumes "wr_shape X s" "wr_bal b s" "wr_main s = Some k" "WSync_wait k (wr_ctrl s) = (j, c)"
  shows "wr_shape X (s\<lparr>wr_ctrl := c, wr_main := (if j = 0 then None else Some j)\<rparr>)
    \<and> wr_bal b (s\<lparr>wr_ctrl := c, wr_main := (if j = 0 then None else Some j)\<rparr>)"
proof -
  obtain d where d: "wx_hSema (wt_sema (wr_ctrl s)) = Some d" using assms(1) by (auto simp: wr_shape_def)
  obtain t where t: "wait_loop k (wt_sema (wr_ctrl s)) = (k - d, t)" "wx_hSema t = Some (d - k)"
      "wx_nPost t = wx_nPost (wt_sema (wr_ctrl s))" "wx_nWait t = wx_nWait (wt_sema (wr_ctrl s))"
    using wait_loop_counts [OF d] by blast
  have c: "c = (wr_ctrl s)\<lparr>wt_sema := t\<rparr>" "j = k - d" using assms(4) t(1) by (simp_all add: WSync_wait_def)
  have "pending_sig s = d" using d by (simp add: pending_sig_def)
  then have bal: "if b then card (wr_work s) + d < k else card (wr_work s) + d \<le> k" using assms(2,3) by (auto simp: wr_bal_def)
  have "finite (wr_work s)" using assms(1) by (auto simp: wr_shape_def intro: finite_subset)
  then have "card (wr_work s) = 0 \<Longrightarrow> wr_work s = {}" by simp
  then have "wr_bal b (s\<lparr>wr_ctrl := c, wr_main := (if j = 0 then None else Some j)\<rparr>)"
    using bal c t(2) by (auto simp: wr_bal_def pending_sig_def split: if_splits)
  moreover have "wr_shape X (s\<lparr>wr_ctrl := c, wr_main := (if j = 0 then None else Some j)\<rparr>)"
    using assms(1) c t(2-4) by (simp add: wr_shape_def)
  ultimately show ?thesis by blast
qed

lemma WDone_keeps:
  assumes "wr_shape X s" "wr_bal b s" "x \<in> wr_work s"
  shows "wr_shape X (s\<lparr>wr_ctrl := WTaskCtrl_done (wr_ctrl s), wr_work := wr_work s - {x}\<rparr>)
    \<and> wr_bal b (s\<lparr>wr_ctrl := WTaskCtrl_done (wr_ctrl s), wr_work := wr_work s - {x}\<rparr>)"
proof -
  obtain d where d: "wx_hSema (wt_sema (wr_ctrl s)) = Some d" "wx_nPost (wt_sema (wr_ctrl s)) = 1"
    using assms(1) by (auto simp: wr_shape_def)
  define t where "t = WSemSignal (- 1) (wt_sema (wr_ctrl s))"
  obtain d' where t: "wx_hSema t = Some d'" "d' \<le> Suc d" "wx_nPost t = 1" "wx_nWait t = wx_nWait (wt_sema (wr_ctrl s))"
    using d by (simp add: t_def WSemSignal_def ReleaseSemaphore_def)
  have "finite (wr_work s)" using assms(1) by (auto simp: wr_shape_def intro: finite_subset)
  then have "card (wr_work s) = Suc (card (wr_work s - {x}))" using assms(3) by (metis card_Suc_Diff1)
  then have le: "card (wr_work s - {x}) + d' \<le> card (wr_work s) + d" using t(2) by simp
  have sig: "pending_sig (s\<lparr>wr_ctrl := WTaskCtrl_done (wr_ctrl s), wr_work := wr_work s - {x}\<rparr>) = d'" "pending_sig s = d"
    using d(1) t(1) by (simp_all add: pending_sig_def WTaskCtrl_done_def t_def)
  obtain k where k: "wr_main s = Some k" "if b then card (wr_work s) + d < k else card (wr_work s) + d \<le> k"
    using assms(2,3) sig(2) by (auto simp: wr_bal_def split: option.splits)
  have "wr_bal b (s\<lparr>wr_ctrl := WTaskCtrl_done (wr_ctrl s), wr_work := wr_work s - {x}\<rparr>)"
    using k le by (auto simp: wr_bal_def sig(1) split: if_splits)
  moreover have "wr_shape X (s\<lparr>wr_ctrl := WTaskCtrl_done (wr_ctrl s), wr_work := wr_work s - {x}\<rparr>)"
    using assms(1) t(1,3,4) by (auto simp: wr_shape_def WTaskCtrl_done_def t_def [symmetric])
  ultimately show ?thesis by blast
qed

lemma WWait_keeps:
  assumes "wr_shape X s" "wr_bal b s" "x \<in> X" "x \<notin> wr_work s" "x \<notin> set (wt_waiting (wr_ctrl s))" "WTaskCtrl_wait x (wr_ctrl s) = (go, c)"
  shows "wr_shape X (s\<lparr>wr_ctrl := c, wr_work := (if go then insert x (wr_work s) else wr_work s)\<rparr>)
    \<and> wr_bal b (s\<lparr>wr_ctrl := c, wr_work := (if go then insert x (wr_work s) else wr_work s)\<rparr>)"
  using assms by (auto simp: wr_shape_def wr_bal_def pending_sig_def WTaskCtrl_wait_def split: option.splits)

lemma WBegin_bal:
  assumes "wr_shape X s" "wr_bal b s" "wr_main s = None" "WSync_pulse (wr_ctrl s) = ((xs, k), c)"
  shows "wr_shape X \<lparr>wr_ctrl = c, wr_main = Some k, wr_work = wr_work s \<union> set xs\<rparr>
    \<and> wr_bal (set (wt_waiting (wr_ctrl s)) \<noteq> X) \<lparr>wr_ctrl = c, wr_main = Some k, wr_work = wr_work s \<union> set xs\<rparr>"
proof -
  have c: "xs = wt_waiting (wr_ctrl s)" "k = card X" "c = (wr_ctrl s)\<lparr>wt_waiting := []\<rparr>"
    using assms(1,4) by (auto simp: WSync_pulse_def wait_for_def wr_shape_def)
  have w: "wr_work s = {}" "pending_sig s = 0" using assms(2,3) by (simp_all add: wr_bal_def)
  have sub: "set xs \<subseteq> X" "finite X" using assms(1) c(1) by (simp_all add: wr_shape_def)
  then have "card (set xs) \<le> card X" "set xs \<noteq> X \<Longrightarrow> card (set xs) < card X" by (auto intro: card_mono psubset_card_mono)
  moreover have "pending_sig \<lparr>wr_ctrl = c, wr_main = m, wr_work = v\<rparr> = 0" for m v using w(2) c(3) by (simp add: pending_sig_def)
  ultimately have "wr_bal (set xs \<noteq> X) \<lparr>wr_ctrl = c, wr_main = Some k, wr_work = wr_work s \<union> set xs\<rparr>"
    using w(1) c(2) by (simp add: wr_bal_def)
  then show ?thesis using assms(1) c sub w(1) by (simp add: wr_shape_def)
qed

lemma wrounds_step_keeps:
  assumes "wrounds_step X s s'" "wr_shape X s" "wr_bal b s"
  shows "wr_shape X s' \<and> (wr_bal b s' \<or> \<not> b \<and> wr_bal True s')"
  using assms(1)
proof (cases rule: wrounds_step.cases)
  case (WBegin xs k c)
  have "\<not> b" using assms(3) WBegin(2) by (auto simp: wr_bal_def)
  moreover have "wr_shape X s' \<and> wr_bal (set (wt_waiting (wr_ctrl s)) \<noteq> X) s'"
    unfolding WBegin(1) by (rule WBegin_bal [OF assms(2,3) WBegin(2,3)])
  ultimately show ?thesis by (cases "set (wt_waiting (wr_ctrl s)) = X") auto
next
  case (WTake k j c)
  show ?thesis unfolding WTake(1) using WTake_keeps [OF assms(2,3) WTake(2,3)] by blast
next
  case (WWait x go c)
  show ?thesis unfolding WWait(1) using WWait_keeps [OF assms(2,3) WWait(2-5)] by blast
next
  case (WDone x)
  show ?thesis unfolding WDone(1) using WDone_keeps [OF assms(2,3) WDone(2)] by blast
qed

subsection \<open>Properties\<close>

text \<open>
  Property C16. As long as no more than ten tasks are queued the pool on Windows is the pool on Linux: from the state after \<open>Init\<close>, any sequence of submissions,
  turns of workers, registrations and settings that never has more than ten tasks in the Linux queue leads to the same state.
\<close>
theorem win_pool_like_linux:
  assumes "\<And>k. k < length ops \<Longrightarrow> length (m_jobs (fold linux_pool (take (Suc k) ops) (snd (TP_Init (ThreadPoolImpl_new n))))) \<le> NSEMACOUNT"
  shows "fold win_pool ops (snd (WTP_Init (WThreadPool_new n))) = fold linux_pool ops (snd (TP_Init (ThreadPoolImpl_new n)))"
  unfolding win_started by (rule win_ops_are_linux [OF started_ok(1) assms])

text \<open>
  Property C32. Beyond ten tasks the pool on Windows loses wake-ups for good. After a burst of submissions all workers wait after ten turns, and whatever happens
  later, whenever the workers wait there are at least as many tasks in the queue as the burst had more than ten.
\<close>
theorem lost_tasks_stay_queued:
  assumes "st = fold (\<lambda>j. win_pool (SubmitOp w j)) js (snd (WTP_Init (WThreadPool_new n)))" "NSEMACOUNT \<le> length js"
  shows "WTP_run ((turn WTP_run ^^ NSEMACOUNT) st) = None
    \<and> (WTP_run (fold win_pool ops st) = None \<longrightarrow> length js - NSEMACOUNT \<le> length (m_jobs (fold win_pool ops st)))"
proof -
  have s: "m_jobs st = js" "m_ctrl st = NSEMACOUNT"
    using submit_many [of "snd (TP_Init (ThreadPoolImpl_new n))" w js] started_ok [of n] assms(2)
    unfolding assms(1) win_started by (simp_all add: pool_ok_def)
  then have ok: "win_ok st" "unsignalled st = length js - NSEMACOUNT" using assms(2) by (simp_all add: win_ok_def unsignalled_def)
  have "m_ctrl ((turn WTP_run ^^ NSEMACOUNT) st) = 0" using win_turns [OF ok(1)] s(2) by simp
  moreover have "length js - NSEMACOUNT \<le> length (m_jobs (fold win_pool ops st))"
    using win_ops_keep_lost [OF ok(1), of ops] unfolding ok(2) unfolding unsignalled_def by linarith
  ultimately show ?thesis by (simp add: WTP_run_def)
qed

lemma wrounds_start_ok:
  assumes "finite X" "card X < 256"
  shows "wr_shape X (wrounds_start junk (card X)) \<and> wr_bal False (wrounds_start junk (card X))"
  using assms by (simp add: wr_shape_def wr_bal_def wrounds_start_def WTaskCtrl_Init_def WTaskCtrl_new_def WSemEx_Init_def WSemEx_new_def
    CreateSemaphore_def pending_sig_def to_uchar_small)

lemma wrounds_reach_ok:
  "wrounds_reach X s0 s \<Longrightarrow> wr_shape X s0 \<Longrightarrow> wr_bal False s0 \<Longrightarrow> wr_shape X s \<and> (wr_bal False s \<or> wr_bal True s)"
proof (induction rule: wrounds_reach.induct)
  case (WStep s s')
  show ?case using WStep.IH [OF WStep.prems] wrounds_step_keeps [OF WStep.hyps(2)] by blast
qed simp

lemma strict_stays:
  "wrounds_reach X s0 s \<Longrightarrow> wr_shape X s0 \<Longrightarrow> wr_bal True s0 \<Longrightarrow> wr_shape X s \<and> wr_bal True s"
proof (induction rule: wrounds_reach.induct)
  case (WStep s s')
  show ?case using WStep.IH [OF WStep.prems] wrounds_step_keeps [OF WStep.hyps(2)] by blast
qed simp

text \<open>
  Observation. On Windows a round of \<open>TaskCtrl\<close> that begins before every registered thread waits never ends. Take any state that up to 255 threads can reach, outside of a call and with
  a registered thread that does not wait at that moment: after \<open>SyncTaskOneTime\<close> has sent its pulse the call is still in progress in
  every state that any schedule can lead to.
\<close>
theorem early_pulse_never_returns:
  assumes "finite X" "card X < 256" "wrounds_reach X (wrounds_start junk (card X)) s"
    and "wr_main s = None" "x \<in> X" "x \<notin> set (wt_waiting (wr_ctrl s))"
    and "WSync_pulse (wr_ctrl s) = ((xs, k), c)" "wrounds_reach X \<lparr>wr_ctrl = c, wr_main = Some k, wr_work = wr_work s \<union> set xs\<rparr> s'"
  shows "wr_main s' \<noteq> None"
proof -
  have "wr_shape X s" "wr_bal False s"
    using wrounds_reach_ok [OF assms(3)] wrounds_start_ok [OF assms(1,2)] assms(4) by (auto simp: wr_bal_def)
  note b = WBegin_bal [OF this assms(4,7)]
  have "set (wt_waiting (wr_ctrl s)) \<noteq> X" using assms(5,6) by blast
  then have "wr_shape X s' \<and> wr_bal True s'" using b by (intro strict_stays [OF assms(8)]) simp_all
  then show ?thesis by (cases "wr_main s'") (simp_all add: wr_bal_def)
qed

subsection \<open>Examples\<close>

abbreviation sample_ops :: "pool_op list" where
  "sample_ops \<equiv> [RegisterOp ''a'' 7, SubmitOp 0 sample_task, TurnOp]"

theorem win_pool_like_linux_witness:
  "fold win_pool sample_ops (snd (WTP_Init (WThreadPool_new 2))) = fold linux_pool sample_ops (snd (TP_Init (ThreadPoolImpl_new 2)))"
proof (rule win_pool_like_linux)
  fix k assume "k < length sample_ops"
  then have "k \<in> {0, 1, 2}" by auto
  then show "length (m_jobs (fold linux_pool (take (Suc k) sample_ops) (snd (TP_Init (ThreadPoolImpl_new 2))))) \<le> NSEMACOUNT"
    by (auto simp: NSEMACOUNT_def TP_Init_def ThreadPoolImpl_new_def Register_taskProcess_def submit_job_req_def turn_def TP_run_def take_job_def
      exec_job_def numeral_2_eq_2)
qed

abbreviation sample_burst :: tpool where
  "sample_burst \<equiv> fold (\<lambda>j. win_pool (SubmitOp 0 j)) (replicate 12 sample_task) (snd (WTP_Init (WThreadPool_new 2)))"

theorem lost_tasks_stay_queued_witness:
  "WTP_run ((turn WTP_run ^^ 10) sample_burst) = None \<and> 2 \<le> length (m_jobs (fold win_pool (replicate 10 TurnOp) sample_burst))"
proof -
  define st where "st = sample_burst"
  have turns: "fold win_pool (replicate 10 TurnOp) st = (turn WTP_run ^^ 10) st" by (simp add: eval_nat_numeral)
  have "NSEMACOUNT \<le> length (replicate 12 sample_task)" by (simp add: NSEMACOUNT_def)
  note lost = lost_tasks_stay_queued [OF st_def this, of "replicate 10 TurnOp"]
  then have "WTP_run (fold win_pool (replicate 10 TurnOp) st) = None" unfolding turns by (simp add: NSEMACOUNT_def)
  with lost show ?thesis unfolding st_def [symmetric] by (simp add: NSEMACOUNT_def)
qed

abbreviation sample_pulsed :: wrounds where
  "sample_pulsed \<equiv> \<lparr>wr_ctrl = wr_ctrl (wrounds_start 0 1), wr_main = Some 1, wr_work = {}\<rparr>"

theorem early_pulse_never_returns_witness: "wr_main sample_pulsed \<noteq> None"
proof -
  have "WSync_pulse (wr_ctrl (wrounds_start 0 1)) = (([], 1), wr_ctrl (wrounds_start 0 1))"
    by (simp add: WSync_pulse_def wrounds_start_def WTaskCtrl_Init_def WTaskCtrl_new_def WSemEx_Init_def WSemEx_new_def wait_for_def to_uchar_def)
  moreover have "wr_main (wrounds_start 0 1) = None" "10 \<notin> set (wt_waiting (wr_ctrl (wrounds_start 0 1)))" "wr_work (wrounds_start 0 1) = {}"
    by (simp_all add: wrounds_start_def WTaskCtrl_Init_def WTaskCtrl_new_def)
  ultimately show ?thesis
    using early_pulse_never_returns [of "{10}" 0 "wrounds_start 0 1" 10 "[]" 1 "wr_ctrl (wrounds_start 0 1)" sample_pulsed]
    by (simp add: wrounds_reach.WStart)
qed

end
