(* ===== verification/DBFormat.thy ===== *)
theory DBFormat
  imports TimeInf "HOL-Library.Multiset"
begin

text \<open>
  \<open>DB/DBDefine.h\<close> and \<open>DBAccess::Fromat\<close> of \<open>DB/DBAccess.cpp\<close>: the text of a statement with the markers \<open>?\<close>, for values that are bound later, and \<open>%\<close>, for values that are
  printed into it. Pointers into the statement are offsets; the arguments after the ellipsis are a list of values, and taking one of another type
  is \<open>Undefined\<close>. Double values are of a type \<open>'d\<close>. Of \<open>sprintf\<close> the conversions of integers and strings without flags are spelled out; the text of all others
  is the parameter \<open>lib\<close>. Buffers are strings with a capacity, beyond which writing is \<open>Undefined\<close>.
\<close>

subsection \<open>Fields and values\<close>

datatype DBFieldType = DT_INT | DT_INT64 | DT_DOUBLE | DT_STRING | DT_BLOB

record FieldInfo =
  fi_type :: DBFieldType
  fi_name :: string

datatype 'd cval = CInt int | CInt64 int | CDouble 'd | CStr string | CBlob "8 word list"

record 'd DBField =
  df_type :: DBFieldType
  df_name :: string
  df_memType :: nat
  df_len :: nat
  df_val :: "'d cval option"

definition DBField_new :: "'d DBField" where
  "DBField_new = \<lparr>df_type = DT_INT, df_name = [], df_memType = 0, df_len = 0, df_val = None\<rparr>"

record 'd ArgType =
  ar_pStart :: nat
  ar_nFlag :: nat
  ar_val :: "'d DBField"

definition ArgType_of :: "nat \<Rightarrow> nat \<Rightarrow> 'd ArgType" where
  "ArgType_of f p = \<lparr>ar_pStart = p, ar_nFlag = f, ar_val = DBField_new\<rparr>"

datatype 'd vaarg = VaInt int | VaInt64 int | VaDouble 'd | VaStr string | VaPtr "8 word list"

text \<open>One turn of the loop over the types of the arguments.\<close>

fun va_field :: "DBFieldType \<Rightarrow> 'd vaarg list \<Rightarrow> 'd DBField \<Rightarrow> xerror + ('d DBField \<times> 'd vaarg list)" where
  "va_field DT_INT (VaInt n # ap) f = Inr (f\<lparr>df_type := DT_INT, df_len := 4, df_val := Some (CInt n)\<rparr>, ap)"
| "va_field DT_INT64 (VaInt64 n # ap) f = Inr (f\<lparr>df_type := DT_INT64, df_len := 8, df_val := Some (CInt64 n)\<rparr>, ap)"
| "va_field DT_DOUBLE (VaDouble x # ap) f = Inr (f\<lparr>df_type := DT_DOUBLE, df_len := 8, df_val := Some (CDouble x)\<rparr>, ap)"
| "va_field DT_STRING (VaStr s # ap) f =
     Inr (f\<lparr>df_type := DT_STRING, df_len := length s, df_memType := 0, df_val := Some (CStr s)\<rparr>, ap)"
| "va_field DT_BLOB (VaPtr bs # VaInt n # ap) f =
     (if 0 \<le> n \<and> nat n \<le> length bs
      then Inr (f\<lparr>df_type := DT_BLOB, df_len := nat n, df_memType := 0, df_val := Some (CBlob (take (nat n) bs))\<rparr>, ap) else Inl Undefined)"
| "va_field _ _ f = Inl Undefined"

fun fill_args :: "FieldInfo list \<Rightarrow> 'd vaarg list \<Rightarrow> 'd ArgType list \<Rightarrow> xerror + 'd ArgType list" where
  "fill_args (fi # fis) ap (a # as) =
     (case va_field (fi_type fi) ap ((ar_val a)\<lparr>df_name := fi_name fi\<rparr>) of
        Inl e \<Rightarrow> Inl e
      | Inr (f, ap') \<Rightarrow>
          (case fill_args fis ap' as of Inl e \<Rightarrow> Inl e | Inr as' \<Rightarrow> Inr (a\<lparr>ar_val := f\<rparr> # as')))"
| "fill_args _ _ as = Inr as"

subsection \<open>Strings\<close>

function strchr :: "char \<Rightarrow> string \<Rightarrow> nat \<Rightarrow> nat option" where
  "strchr c s i = (if i < length s then (if s ! i = c then Some i else strchr c s (Suc i)) else None)"
  by pat_completeness auto
termination by (relation "measure (\<lambda>(c, s, i). length s - i)") auto

declare strchr.simps [simp del]

lemma strchr_bounds: "strchr c s i = Some p \<Longrightarrow> i \<le> p \<and> p < length s \<and> s ! p = c"
  by (induction c s i rule: strchr.induct) (subst (asm) strchr.simps, fastforce split: if_splits)

text \<open>The loops that collect the offsets of a marker.\<close>

function marks :: "char \<Rightarrow> string \<Rightarrow> nat \<Rightarrow> nat list" where
  "marks c s i = (case strchr c s i of None \<Rightarrow> [] | Some p \<Rightarrow> p # marks c s (Suc p))"
  by pat_completeness auto
termination by (relation "measure (\<lambda>(c, s, i). length s - i)") (use strchr_bounds in fastforce)+

declare marks.simps [simp del]

fun dec_nat :: "nat \<Rightarrow> string" where
  "dec_nat n = (if n < 10 then [digit n] else dec_nat (n div 10) @ [digit (n mod 10)])"

declare dec_nat.simps [simp del]

definition dec_int :: "int \<Rightarrow> string" where
  "dec_int n = (if n < 0 then CHR ''-'' # dec_nat (nat (- n)) else dec_nat (nat n))"

text \<open>A conversion specification of \<open>sprintf\<close>: the percent sign, flags, width, precision and length, and one more character.\<close>

definition spec_char :: "char \<Rightarrow> bool" where
  "spec_char c \<longleftrightarrow> c \<in> set ''-+ #.0123456789hlLjzt''"

fun split_spec :: "string \<Rightarrow> string \<times> string" where
  "split_spec [] = ([], [])"
| "split_spec (c # cs) = (let m = takeWhile spec_char cs in (c # m @ take 1 (drop (length m) cs), drop (Suc (length m)) cs))"

definition c_print :: "(string \<Rightarrow> 'd cval \<Rightarrow> string option) \<Rightarrow> string \<Rightarrow> 'd cval \<Rightarrow> string option" where
  "c_print lib sp v =
     (if sp \<in> {''%d'', ''%i''} then (case v of CInt n \<Rightarrow> Some (dec_int n) | _ \<Rightarrow> None)
      else if sp \<in> {''%ld'', ''%lld''} then (case v of CInt64 n \<Rightarrow> Some (dec_int n) | _ \<Rightarrow> None)
      else if sp = ''%s'' then (case v of CStr s \<Rightarrow> Some s | _ \<Rightarrow> None)
      else lib sp v)"

text \<open>\<open>sprintf\<close> of a format that begins with its only percent sign.\<close>

definition sprintf_piece :: "(string \<Rightarrow> 'd cval \<Rightarrow> string option) \<Rightarrow> string \<Rightarrow> 'd cval \<Rightarrow> string option" where
  "sprintf_piece lib p v = (let (sp, rest) = split_spec p in map_option (\<lambda>t. t @ rest) (c_print lib sp v))"

subsection \<open>Formatting\<close>

text \<open>\<open>strncpy\<close> of \<open>n\<close> bytes from an offset into the cleared buffer \<open>szbuf\<close>, read as a string afterwards.\<close>

definition SZBUF :: nat where "SZBUF = 256"

definition cut_piece :: "string \<Rightarrow> nat \<Rightarrow> nat \<Rightarrow> xerror + string" where
  "cut_piece sql a b = (if b - a < SZBUF then Inr (take (b - a) (drop a sql)) else Inl Undefined)"

text \<open>The parts between the offsets of the percent signs, the last up to the end.\<close>

fun cut_pieces :: "string \<Rightarrow> nat list \<Rightarrow> xerror + string list" where
  "cut_pieces sql [] = Inr []"
| "cut_pieces sql [p] = (case cut_piece sql p (length sql) of Inl e \<Rightarrow> Inl e | Inr s \<Rightarrow> Inr [s])"
| "cut_pieces sql (p # q # ps) =
     (case cut_piece sql p q of
        Inl e \<Rightarrow> Inl e
      | Inr s \<Rightarrow> (case cut_pieces sql (q # ps) of Inl e \<Rightarrow> Inl e | Inr ss \<Rightarrow> Inr (s # ss)))"

text \<open>The loop that prints the parts; \<open>szbuf\<close> keeps its content when the type has no case.\<close>

fun print_pieces :: "(string \<Rightarrow> 'd cval \<Rightarrow> string option) \<Rightarrow> string \<Rightarrow> (string \<times> 'd DBField) list \<Rightarrow> xerror + string list" where
  "print_pieces lib szbuf [] = Inr []"
| "print_pieces lib szbuf ((p, f) # ps) =
     (let txt = (if df_type f = DT_BLOB then Inr szbuf
                 else case df_val f of
                   None \<Rightarrow> Inl Undefined
                 | Some v \<Rightarrow> (case sprintf_piece lib p v of
                                None \<Rightarrow> Inl Undefined
                              | Some t \<Rightarrow> if length t < SZBUF then Inr t else Inl Undefined))
      in case txt of
           Inl e \<Rightarrow> Inl e
         | Inr t \<Rightarrow> (case print_pieces lib t ps of Inl e \<Rightarrow> Inl e | Inr ts \<Rightarrow> Inr (t # ts)))"

definition print_percent :: "(string \<Rightarrow> 'd cval \<Rightarrow> string option) \<Rightarrow> string \<Rightarrow> 'd ArgType list \<Rightarrow> xerror + string" where
  "print_percent lib sql args =
     (let infos = filter (\<lambda>a. ar_nFlag a = 0) args; ps = map ar_pStart infos
      in case cut_piece sql 0 (hd ps) of
           Inl e \<Rightarrow> Inl e
         | Inr h \<Rightarrow>
             (case cut_pieces sql ps of
                Inl e \<Rightarrow> Inl e
              | Inr ss \<Rightarrow>
                  (case print_pieces lib [] (zip ss (map ar_val infos)) of
                     Inl e \<Rightarrow> Inl e
                   | Inr ts \<Rightarrow> Inr (h @ concat ts))))"

text \<open>
  \<open>destr\<close>: the string in the target buffer, whose capacity is \<open>totalCount\<close>. The result is the returned string, \<open>None\<close> for a null pointer, and the
  arguments.
\<close>

definition Fromat :: "(string \<Rightarrow> 'd cval \<Rightarrow> string option) \<Rightarrow> string option \<Rightarrow> string \<Rightarrow> nat \<Rightarrow> 'd ArgType list \<Rightarrow> FieldInfo list \<Rightarrow>
    'd vaarg list \<Rightarrow> char \<Rightarrow> char \<Rightarrow> xerror + (string option \<times> 'd ArgType list)" where
  "Fromat lib destr sql totalCount args0 fis ap c1 c2 =
     (case destr of
        None \<Rightarrow> Inr (None, args0)
      | Some d \<Rightarrow>
          if sql = [] \<or> totalCount < length sql then Inr (None, args0)
          else
            (let args = sort_key ar_pStart (args0 @ map (ArgType_of 1) (marks c1 sql 0) @ map (ArgType_of 0) (marks c2 sql 0))
             in if length args \<noteq> length fis then Inr (None, args)
                else case fill_args fis ap args of
                  Inl e \<Rightarrow> Inl e
                | Inr as \<Rightarrow>
                    if marks c2 sql 0 \<noteq> [] then
                      (case print_percent lib sql as of
                         Inl e \<Rightarrow> Inl e
                       | Inr t \<Rightarrow> if length (d @ t) < totalCount then Inr (Some (d @ t), as) else Inl Undefined)
                    else if length sql < totalCount then Inr (Some sql, as) else Inl Undefined))"

subsection \<open>Reference\<close>

lemma split_spec_append: "fst (split_spec s) @ snd (split_spec s) = s"
proof (cases s)
  case (Cons c cs)
  define m where "m = takeWhile spec_char cs"
  have "m @ drop (length m) cs = cs" unfolding m_def by (metis takeWhile_dropWhile_id dropWhile_eq_drop)
  moreover have "take 1 (drop (length m) cs) @ drop (Suc (length m)) cs = drop (length m) cs"
    by (metis append_take_drop_id drop_drop plus_1_eq_Suc)
  ultimately have "m @ take 1 (drop (length m) cs) @ drop (Suc (length m)) cs = cs" by simp
  then show ?thesis using Cons by (simp add: Let_def m_def [symmetric])
qed simp

lemma split_spec_shorter: "s \<noteq> [] \<Longrightarrow> length (snd (split_spec s)) < length s"
  by (cases s) (auto simp: Let_def)

text \<open>
  The meaning of a statement with its values, read from left to right: a question mark stays and its value is bound, a conversion specification is replaced by the
  text of its value. A specification must end with a conversion character, which is neither a marker nor a flag.
\<close>

definition bad_end :: "char \<Rightarrow> bool" where
  "bad_end l \<longleftrightarrow> spec_char l \<or> l = CHR ''?'' \<or> l = CHR ''%''"

function render :: "(string \<Rightarrow> 'd cval \<Rightarrow> string option) \<Rightarrow> string \<Rightarrow> 'd cval list \<Rightarrow> (string \<times> 'd cval list) option" where
  "render lib [] vs = (if vs = [] then Some ([], []) else None)"
| "render lib (c # cs) vs =
     (if c = CHR ''?'' then
        (case vs of [] \<Rightarrow> None | v # vs' \<Rightarrow> map_option (\<lambda>(t, b). (c # t, v # b)) (render lib cs vs'))
      else if c = CHR ''%'' then
        (case vs of
           [] \<Rightarrow> None
         | v # vs' \<Rightarrow>
             (let (sp, rest) = split_spec (c # cs)
              in if bad_end (last sp) \<or> (\<exists>bs. v = CBlob bs) then None
                 else case c_print lib sp v of
                   None \<Rightarrow> None
                 | Some u \<Rightarrow> map_option (\<lambda>(t, b). (u @ t, b)) (render lib rest vs')))
      else map_option (\<lambda>(t, b). (c # t, b)) (render lib cs vs))"
  by pat_completeness auto
termination
  by (relation "measure (\<lambda>(lib, s, vs). length s)") (auto simp: Let_def)

declare render.simps [simp del]

text \<open>The statement cut before every percent sign.\<close>

fun cutp :: "string \<Rightarrow> string list" where
  "cutp [] = [[]]"
| "cutp (c # cs) =
     (let ps = cutp cs in if c = CHR ''%'' then [] # (c # hd ps) # tl ps else (c # hd ps) # tl ps)"

definition kinds :: "string \<Rightarrow> string" where
  "kinds s = filter (\<lambda>c. c = CHR ''?'' \<or> c = CHR ''%'') s"

definition vals_of :: "char \<Rightarrow> string \<Rightarrow> 'a list \<Rightarrow> 'a list" where
  "vals_of k s vs = map snd (filter (\<lambda>(c, v). c = k) (zip (kinds s) vs))"

lemma cutp_not_Nil [simp]: "cutp s \<noteq> []"
  by (induction s) (auto simp: Let_def)

lemma cutp_hd: "CHR ''%'' \<notin> set (hd (cutp s))"
  by (induction s) (auto simp: Let_def)

lemma cutp_plain: "CHR ''%'' \<notin> set xs \<Longrightarrow> cutp (xs @ s) = (xs @ hd (cutp s)) # tl (cutp s)"
  by (induction xs) (auto simp: Let_def)

lemma spec_char_plain: "spec_char c \<Longrightarrow> c \<noteq> CHR ''%'' \<and> c \<noteq> CHR ''?''"
  by (auto simp: spec_char_def)

lemma kinds_plain: "(\<forall>c \<in> set xs. c \<noteq> CHR ''%'' \<and> c \<noteq> CHR ''?'') \<Longrightarrow> kinds (xs @ s) = kinds s"
  by (auto simp: kinds_def filter_empty_conv)

lemma split_spec_shape:
  assumes "split_spec (CHR ''%'' # cs) = (sp, rest)" "\<not> bad_end (last sp)"
  obtains m l where "sp = CHR ''%'' # m @ [l]" "\<forall>x \<in> set m. spec_char x" "\<not> bad_end l" "cs = m @ l # rest"
proof -
  define m where "m = takeWhile spec_char cs"
  have sp: "sp = CHR ''%'' # m @ take 1 (drop (length m) cs)" and r: "rest = drop (Suc (length m)) cs"
    using assms(1) by (simp_all add: Let_def m_def)
  have all: "\<forall>x \<in> set m. spec_char x" unfolding m_def by (meson set_takeWhileD)
  have cs: "cs = m @ drop (length m) cs" unfolding m_def by (metis takeWhile_dropWhile_id dropWhile_eq_drop)
  show thesis
  proof (cases "drop (length m) cs")
    case Nil
    then have "bad_end (last sp)" using sp all by (cases "m = []") (auto simp: bad_end_def)
    with assms(2) show thesis by simp
  next
    case (Cons l ls)
    then have "rest = ls" unfolding r by (metis drop_Suc list.sel(3) tl_drop)
    moreover have "sp = CHR ''%'' # m @ [l]" using sp Cons by simp
    ultimately show thesis using that all assms(2) cs Cons by simp
  qed
qed

lemma split_spec_of:
  assumes "\<forall>x \<in> set m. spec_char x" "\<not> bad_end l"
  shows "split_spec (c # m @ l # h) = (c # m @ [l], h)"
proof -
  have "takeWhile spec_char (m @ l # h) = m" using assms by (simp add: takeWhile_append bad_end_def)
  then show ?thesis by (simp add: Let_def)
qed

lemma vals_of_plain: "(\<forall>c \<in> set xs. c \<noteq> CHR ''%'' \<and> c \<noteq> CHR ''?'') \<Longrightarrow> vals_of k (xs @ s) vs = vals_of k s vs"
  by (simp add: vals_of_def kinds_plain)

lemma vals_of_Cons:
  "vals_of CHR ''%'' (CHR ''%'' # s) (v # vs) = v # vals_of CHR ''%'' s vs"
  "vals_of CHR ''?'' (CHR ''%'' # s) (v # vs) = vals_of CHR ''?'' s vs"
  "vals_of CHR ''%'' (CHR ''?'' # s) (v # vs) = vals_of CHR ''%'' s vs"
  "vals_of CHR ''?'' (CHR ''?'' # s) (v # vs) = v # vals_of CHR ''?'' s vs"
  by (simp_all add: vals_of_def kinds_def)

text \<open>The reference in terms of the parts: every part is printed with its value, and the values of the question marks are bound.\<close>

definition parts_ok :: "(string \<Rightarrow> 'd cval \<Rightarrow> string option) \<Rightarrow> string \<Rightarrow> 'd cval list \<Rightarrow> string \<Rightarrow> 'd cval list \<Rightarrow> bool" where
  "parts_ok lib s vs t b \<longleftrightarrow>
     length vs = length (kinds s) \<and> b = vals_of CHR ''?'' s vs \<and> length (tl (cutp s)) = length (vals_of CHR ''%'' s vs)
     \<and> (\<exists>ts. list_all2 (\<lambda>(p, v) u. sprintf_piece lib p v = Some u \<and> \<not> (\<exists>bs. v = CBlob bs)) (zip (tl (cutp s)) (vals_of CHR ''%'' s vs)) ts
          \<and> t = hd (cutp s) @ concat ts)"

lemma parts_percent:
  assumes "parts_ok lib rest vs t b" "\<forall>x \<in> set m. spec_char x" "\<not> bad_end l" "c_print lib (CHR ''%'' # m @ [l]) v = Some u" "\<not> (\<exists>bs. v = CBlob bs)"
  shows "parts_ok lib (CHR ''%'' # m @ l # rest) (v # vs) (u @ t) b"
proof -
  have ml: "\<forall>c \<in> set (m @ [l]). c \<noteq> CHR ''%'' \<and> c \<noteq> CHR ''?''" using assms(2,3) spec_char_plain by (auto simp: bad_end_def)
  then have no: "CHR ''%'' \<notin> set (m @ [l])" by blast
  have cut: "cutp (CHR ''%'' # m @ l # rest) = [] # (CHR ''%'' # m @ l # hd (cutp rest)) # tl (cutp rest)"
    using cutp_plain [OF no, of rest] by (simp add: Let_def)
  have k: "kinds (CHR ''%'' # m @ l # rest) = CHR ''%'' # kinds rest" using kinds_plain [OF ml, of rest] by (simp add: kinds_def)
  have v: "vals_of CHR ''%'' (CHR ''%'' # m @ l # rest) (v # vs) = v # vals_of CHR ''%'' rest vs"
    "vals_of CHR ''?'' (CHR ''%'' # m @ l # rest) (v # vs) = vals_of CHR ''?'' rest vs"
    using vals_of_plain [OF ml, of _ rest vs] by (simp_all add: vals_of_Cons)
  have p: "sprintf_piece lib (CHR ''%'' # m @ l # hd (cutp rest)) v = Some (u @ hd (cutp rest))"
    using assms(4) split_spec_of [OF assms(2,3)] by (simp add: sprintf_piece_def)
  obtain ts where ts: "list_all2 (\<lambda>(p, v) u. sprintf_piece lib p v = Some u \<and> \<not> (\<exists>bs. v = CBlob bs)) (zip (tl (cutp rest)) (vals_of CHR ''%'' rest vs)) ts"
    "t = hd (cutp rest) @ concat ts" using assms(1) by (auto simp: parts_ok_def)
  have "list_all2 (\<lambda>(p, v) u. sprintf_piece lib p v = Some u \<and> \<not> (\<exists>bs. v = CBlob bs))
      (zip (tl (cutp (CHR ''%'' # m @ l # rest))) (vals_of CHR ''%'' (CHR ''%'' # m @ l # rest) (v # vs))) ((u @ hd (cutp rest)) # ts)"
    unfolding cut v(1) using p assms(5) ts(1) by simp
  moreover have "u @ t = hd (cutp (CHR ''%'' # m @ l # rest)) @ concat ((u @ hd (cutp rest)) # ts)" unfolding cut using ts(2) by simp
  ultimately show ?thesis using assms(1) unfolding parts_ok_def k v cut by auto
qed

lemma parts_other:
  assumes "parts_ok lib cs vs t b" "c \<noteq> CHR ''%''" "c \<noteq> CHR ''?''"
  shows "parts_ok lib (c # cs) vs (c # t) b"
  using assms by (auto simp: parts_ok_def Let_def kinds_def vals_of_def)

lemma parts_question:
  assumes "parts_ok lib cs vs t b"
  shows "parts_ok lib (CHR ''?'' # cs) (v # vs) (CHR ''?'' # t) (v # b)"
  using assms by (auto simp: parts_ok_def Let_def kinds_def vals_of_def)

lemma render_parts: "render lib s vs = Some (t, b) \<Longrightarrow> parts_ok lib s vs t b"
proof (induction lib s vs arbitrary: t b rule: render.induct)
  case (1 lib vs)
  then show ?case by (auto simp: render.simps parts_ok_def kinds_def vals_of_def split: if_splits)
next
  case (2 lib c cs vs)
  consider (q) "c = CHR ''?''" | (p) "c = CHR ''%''" | (o) "c \<noteq> CHR ''?''" "c \<noteq> CHR ''%''" by blast
  then show ?case
  proof cases
    case q
    then obtain v vs' t' b' where v: "vs = v # vs'" "render lib cs vs' = Some (t', b')" "t = c # t'" "b = v # b'"
      using 2(4) by (auto simp: render.simps split: list.splits)
    then show ?thesis using 2(1) [OF q v(1) v(2)] parts_question q by blast
  next
    case p
    obtain sp rest where sp: "split_spec (c # cs) = (sp, rest)" by (cases "split_spec (c # cs)") auto
    obtain v vs' u t' b' where v: "vs = v # vs'" "\<not> bad_end (last sp)" "\<not> (\<exists>bs. v = CBlob bs)" "c_print lib sp v = Some u"
        "render lib rest vs' = Some (t', b')" "t = u @ t'" "b = b'"
      using 2(4) p sp by (simp add: render.simps split: list.splits if_splits option.splits) auto
    have ok: "parts_ok lib rest vs' t' b'" using 2(2) p sp v by auto
    obtain m l where "sp = CHR ''%'' # m @ [l]" "\<forall>x \<in> set m. spec_char x" "\<not> bad_end l" "cs = m @ l # rest"
      using split_spec_shape [OF sp [unfolded p] v(2)] by blast
    then show ?thesis using parts_percent [OF ok, of m l v u] v p by simp
  next
    case o
    then obtain t' where "render lib cs vs = Some (t', b)" "t = c # t'" using 2(4) by (auto simp: render.simps)
    then show ?thesis using 2(3) [OF o] parts_other [OF _ o(2,1)] by simp
  qed
qed

subsection \<open>The parts of the implementation\<close>

lemma strchr_none: "strchr c s i = None \<Longrightarrow> i \<le> j \<Longrightarrow> j < length s \<Longrightarrow> s ! j \<noteq> c"
proof (induction c s i rule: strchr.induct)
  case (1 c s i)
  have i: "i < length s" using 1(3,4) by simp
  have "s ! i \<noteq> c" "strchr c s (Suc i) = None" using 1(2) i by (simp_all add: strchr.simps [of c s i] split: if_splits)
  then show ?case using 1(1) [OF i] 1(3,4) by (cases "i = j") auto
qed

lemma strchr_first: "strchr c s i = Some p \<Longrightarrow> i \<le> j \<Longrightarrow> j < p \<Longrightarrow> s ! j \<noteq> c"
proof (induction c s i rule: strchr.induct)
  case (1 c s i)
  have i: "i < length s" "s ! i \<noteq> c" using 1(2-4) strchr.simps [of c s i] by (auto split: if_splits)
  then have "strchr c s (Suc i) = Some p" using 1(2) by (simp add: strchr.simps [of c s i])
  then show ?case using 1(1) [OF i] 1(3,4) i(2) by (cases "i = j") auto
qed

lemma marks_filter: "marks c s i = filter (\<lambda>j. s ! j = c) [i..<length s]"
proof (induction c s i rule: marks.induct)
  case (1 c s i)
  show ?case
  proof (cases "strchr c s i")
    case None
    then show ?thesis using strchr_none [OF None] by (auto simp: marks.simps [of c s i] filter_empty_conv)
  next
    case (Some p)
    note b = strchr_bounds [OF Some]
    have "[i..<length s] = [i..<p] @ p # [Suc p..<length s]" 
      using b upt_add_eq_append [of i p "length s - p"] upt_conv_Cons [of p "length s"] by simp
    moreover have "filter (\<lambda>j. s ! j = c) [i..<p] = []" using strchr_first [OF Some] by (auto simp: filter_empty_conv)
    ultimately show ?thesis using Some b 1 [OF Some] by (simp add: marks.simps [of c s i])
  qed
qed

lemma marks_Cons: "marks c (x # s) 0 = (if x = c then [0] else []) @ map Suc (marks c s 0)"
proof -
  have "[0..<Suc (length s)] = 0 # map Suc [0..<length s]" by (simp add: upt_conv_Cons map_Suc_upt del: upt_Suc)
  then show ?thesis by (simp add: marks_filter filter_map comp_def del: upt_Suc)
qed

definition marked :: "string \<Rightarrow> 'd ArgType list" where
  "marked s = map (\<lambda>i. ArgType_of (if s ! i = CHR ''?'' then 1 else 0) i) (filter (\<lambda>i. s ! i = CHR ''?'' \<or> s ! i = CHR ''%'') [0..<length s])"

lemma sorted_args:
  "sort_key ar_pStart (map (ArgType_of 1) (marks CHR ''?'' s 0) @ map (ArgType_of 0) (marks CHR ''%'' s 0)) = (marked s :: 'd ArgType list)"
proof (rule sort_key_inj_key_eq)
  let ?xs = "map (ArgType_of 1) (marks CHR ''?'' s 0) @ map (ArgType_of 0) (marks CHR ''%'' s 0) :: 'd ArgType list"
  have "mset (map (\<lambda>i. ArgType_of (if s ! i = CHR ''?'' then 1 else 0) i) (filter (\<lambda>i. s ! i = CHR ''?'' \<or> s ! i = CHR ''%'') is)) =
      mset (map (ArgType_of 1) (filter (\<lambda>i. s ! i = CHR ''?'') is) @ map (ArgType_of 0) (filter (\<lambda>i. s ! i = CHR ''%'') is))" for "is"
    by (induction "is") auto
  from this [of "[0..<length s]"] show "mset ?xs = mset (marked s)" unfolding marks_filter marked_def by (rule sym)
  show "inj_on ar_pStart (set ?xs)" by (auto simp: inj_on_def marks_filter ArgType_of_def)
  have "map ar_pStart (marked s :: 'd ArgType list) = filter (\<lambda>i. s ! i = CHR ''?'' \<or> s ! i = CHR ''%'') [0..<length s]"
    by (simp add: marked_def comp_def ArgType_of_def)
  moreover have "sorted (filter (\<lambda>i. s ! i = CHR ''?'' \<or> s ! i = CHR ''%'') [0..<length s])" by (simp add: sorted_wrt_filter)
  ultimately show "sorted (map ar_pStart (marked s :: 'd ArgType list))" by (simp only:)
qed

lemma marked_fields:
  "map ar_nFlag (marked s) = map (\<lambda>c. if c = CHR ''?'' then 1 else 0) (kinds s)" "length (marked s) = length (kinds s)"
  "map ar_pStart (filter (\<lambda>a. ar_nFlag a = 0) (marked s)) = marks CHR ''%'' s 0"
proof -
  have k: "kinds s = map ((!) s) (filter (\<lambda>i. s ! i = CHR ''?'' \<or> s ! i = CHR ''%'') [0..<length s])"
  proof -
    have "kinds (map ((!) s) [0..<length s]) = map ((!) s) (filter (\<lambda>i. s ! i = CHR ''?'' \<or> s ! i = CHR ''%'') [0..<length s])"
      unfolding kinds_def by (simp add: filter_map comp_def)
    then show ?thesis by (simp add: map_nth)
  qed
  then show "map ar_nFlag (marked s) = map (\<lambda>c. if c = CHR ''?'' then 1 else 0) (kinds s)" "length (marked s) = length (kinds s)"
    by (simp_all add: marked_def comp_def ArgType_of_def)
  show "map ar_pStart (filter (\<lambda>a. ar_nFlag a = 0) (marked s)) = marks CHR ''%'' s 0"
    by (auto simp: marked_def marks_filter filter_map comp_def ArgType_of_def intro!: filter_cong)
qed

text \<open>Arguments of the right types.\<close>

fun val_type :: "'d cval \<Rightarrow> DBFieldType" where
  "val_type (CInt n) = DT_INT"
| "val_type (CInt64 n) = DT_INT64"
| "val_type (CDouble x) = DT_DOUBLE"
| "val_type (CStr s) = DT_STRING"
| "val_type (CBlob bs) = DT_BLOB"

fun va_of :: "'d cval \<Rightarrow> 'd vaarg list" where
  "va_of (CInt n) = [VaInt n]"
| "va_of (CInt64 n) = [VaInt64 n]"
| "va_of (CDouble x) = [VaDouble x]"
| "va_of (CStr s) = [VaStr s]"
| "va_of (CBlob bs) = [VaPtr bs, VaInt (int (length bs))]"

lemma va_field_of:
  "\<exists>g. va_field (val_type v) (va_of v @ ap) f = Inr (g, ap) \<and> df_type g = val_type v \<and> df_val g = Some v \<and> df_name g = df_name f"
  by (cases v) auto

lemma fill_args_of:
  assumes "map fi_type fis = map val_type vs" "length as = length vs"
  shows "\<exists>as'. fill_args fis (concat (map va_of vs)) as = Inr as' \<and> map ar_nFlag as' = map ar_nFlag as \<and> map ar_pStart as' = map ar_pStart as
    \<and> map (df_val \<circ> ar_val) as' = map Some vs \<and> map (df_type \<circ> ar_val) as' = map val_type vs"
  using assms
proof (induction vs arbitrary: fis as)
  case (Cons v vs)
  obtain fi fis' a as0 where e: "fis = fi # fis'" "as = a # as0" using Cons.prems by (cases fis; cases as) auto
  obtain g where g: "va_field (val_type v) (va_of v @ concat (map va_of vs)) ((ar_val a)\<lparr>df_name := fi_name fi\<rparr>) = Inr (g, concat (map va_of vs))"
      "df_type g = val_type v" "df_val g = Some v" using va_field_of by blast
  obtain as' where "fill_args fis' (concat (map va_of vs)) as0 = Inr as'" "map ar_nFlag as' = map ar_nFlag as0"
      "map ar_pStart as' = map ar_pStart as0" "map (df_val \<circ> ar_val) as' = map Some vs" "map (df_type \<circ> ar_val) as' = map val_type vs"
    using Cons.IH [of fis' as0] Cons.prems e by (auto simp del: comp_apply)
  then show ?case using e g Cons.prems(1) by (intro exI [of _ "a\<lparr>ar_val := g\<rparr> # as'"]) (simp add: comp_def)
qed simp

lemma cut_piece_Suc: "cut_piece (c # s) (Suc a) (Suc b) = cut_piece s a b"
  by (simp add: cut_piece_def)

lemma cut_pieces_Suc: "cut_pieces (c # s) (map Suc ps) = cut_pieces s ps"
  by (induction s ps rule: cut_pieces.induct) (simp_all add: cut_piece_Suc split: sum.splits)

lemma cut_marks:
  assumes "length s < SZBUF"
  shows "(marks CHR ''%'' s 0 = [] \<longrightarrow> cutp s = [s]) \<and> (marks CHR ''%'' s 0 \<noteq> [] \<longrightarrow> hd (cutp s) = take (hd (marks CHR ''%'' s 0)) s)
    \<and> cut_pieces s (marks CHR ''%'' s 0) = Inr (tl (cutp s))"
  using assms
proof (induction s)
  case Nil
  show ?case by (simp add: marks_filter)
next
  case (Cons c s)
  define ps where "ps = marks CHR ''%'' s 0"
  have IH: "ps = [] \<longrightarrow> cutp s = [s]" "ps \<noteq> [] \<longrightarrow> hd (cutp s) = take (hd ps) s" "cut_pieces s ps = Inr (tl (cutp s))"
    using Cons.IH Cons.prems by (simp_all add: ps_def)
  show ?case
  proof (cases "c = CHR ''%''")
    case False
    then show ?thesis using IH by (auto simp: marks_Cons ps_def [symmetric] cut_pieces_Suc Let_def hd_map)
  next
    case True
    have first: "cut_pieces (c # s) (0 # map Suc ps) = Inr ((c # hd (cutp s)) # tl (cutp s))"
    proof (cases ps)
      case Nil
      then show ?thesis using IH Cons.prems by (simp add: cut_piece_def)
    next
      case (Cons q qs)
      have "q \<in> set (marks CHR ''%'' s 0)" using Cons ps_def by (metis list.set_intros(1))
      then have "q < length s" by (simp add: marks_filter)
      then have "cut_piece (c # s) 0 (Suc q) = Inr (c # hd (cutp s))" using IH(2) Cons \<open>length (c # s) < SZBUF\<close> by (simp add: cut_piece_def)
      moreover have "cut_pieces (c # s) (map Suc ps) = Inr (tl (cutp s))" using IH(3) by (simp add: cut_pieces_Suc)
      ultimately show ?thesis using Cons by simp
    qed
    then show ?thesis using True by (simp add: marks_Cons ps_def [symmetric] Let_def)
  qed
qed

lemma print_pieces_of:
  assumes "list_all2 (\<lambda>(p, v) u. sprintf_piece lib p v = Some u \<and> \<not> (\<exists>bs. v = CBlob bs)) (zip ps vs) ts" "length ps = length vs"
    and "\<forall>t \<in> set ts. length t < SZBUF" "map df_val fs = map Some vs" "map df_type fs = map val_type vs"
  shows "print_pieces lib b (zip ps fs) = Inr ts"
  using assms
proof (induction ps arbitrary: vs ts fs b)
  case Nil
  then show ?case by simp
next
  case (Cons p ps)
  obtain v vs' where v: "vs = v # vs'" using Cons.prems(2) by (cases vs) auto
  obtain f fs' where f: "fs = f # fs'" using Cons.prems(4) v by (cases fs) auto
  obtain t ts' where t: "ts = t # ts'" "sprintf_piece lib p v = Some t" "\<not> (\<exists>bs. v = CBlob bs)"
      "list_all2 (\<lambda>(p, v) u. sprintf_piece lib p v = Some u \<and> \<not> (\<exists>bs. v = CBlob bs)) (zip ps vs') ts'"
    using Cons.prems(1) v by (auto simp: list_all2_Cons1)
  have ty: "df_type f \<noteq> DT_BLOB" using Cons.prems(5) v f t(3) by (cases v) auto
  have "print_pieces lib t (zip ps fs') = Inr ts'" using Cons.IH [OF t(4)] Cons.prems v f t(1) by auto
  then show ?case using ty t f v Cons.prems(3,4) by simp
qed

lemma filter_by_flag:
  assumes "map ar_nFlag as = map (\<lambda>c. if c = CHR ''?'' then 1 else 0) ks" "set ks \<subseteq> {CHR ''?'', CHR ''%''}"
  shows "map g (filter (\<lambda>a. ar_nFlag a = 0) as) = map snd (filter (\<lambda>(c, v). c = CHR ''%'') (zip ks (map g as)))"
    and "map g (filter (\<lambda>a. ar_nFlag a = 1) as) = map snd (filter (\<lambda>(c, v). c = CHR ''?'') (zip ks (map g as)))"
  using assms
proof (induction as arbitrary: ks)
  case (Cons a as)
  {
    case 1
    obtain k ks' where k: "ks = k # ks'" using 1 by (cases ks) auto
    with 1 Cons.IH(1) [of ks'] show ?case by (cases "k = CHR ''?''") simp_all
  next
    case 2
    obtain k ks' where k: "ks = k # ks'" using 2 by (cases ks) auto
    with 2 Cons.IH(2) [of ks'] show ?case by (cases "k = CHR ''?''") simp_all
  }
qed simp_all

subsection \<open>Properties\<close>

text \<open>What the loops compute for the arguments of a statement that the reference accepts.\<close>

lemma filled_args:
  fixes vs :: "'d cval list"
  assumes "parts_ok lib sql vs txt binds" "map fi_type fis = map val_type vs"
  obtains as where "fill_args fis (concat (map va_of vs)) (marked sql) = Inr as"
    "map ar_pStart (filter (\<lambda>a. ar_nFlag a = 0) as) = marks CHR ''%'' sql 0"
    "map (df_val \<circ> ar_val) (filter (\<lambda>a. ar_nFlag a = 0) as) = map Some (vals_of CHR ''%'' sql vs)"
    "map (df_type \<circ> ar_val) (filter (\<lambda>a. ar_nFlag a = 0) as) = map val_type (vals_of CHR ''%'' sql vs)"
    "map (df_val \<circ> ar_val) (filter (\<lambda>a. ar_nFlag a = 1) as) = map Some binds"
proof -
  have len: "length (marked sql :: 'd ArgType list) = length vs" "binds = vals_of CHR ''?'' sql vs"
    using assms(1) by (simp_all add: parts_ok_def marked_fields(2))
  obtain as where as: "fill_args fis (concat (map va_of vs)) (marked sql) = Inr as" "map ar_nFlag as = map ar_nFlag (marked sql :: 'd ArgType list)"
      "map ar_pStart as = map ar_pStart (marked sql :: 'd ArgType list)" "map (df_val \<circ> ar_val) as = map Some vs" "map (df_type \<circ> ar_val) as = map val_type vs"
    using fill_args_of [OF assms(2) len(1)] by blast
  have ks: "set (kinds sql) \<subseteq> {CHR ''?'', CHR ''%''}" by (auto simp: kinds_def)
  note flags = as(2) [unfolded marked_fields(1)]
  note F = filter_by_flag [OF flags ks]
  have Z: "map snd (filter (\<lambda>(c, v). c = k) (zip (kinds sql) (map h vs))) = map h (vals_of k sql vs)" for k and h :: "'d cval \<Rightarrow> 'b"
    unfolding vals_of_def zip_map2 by (simp add: filter_map comp_def case_prod_unfold)
  have "map ar_pStart (filter (\<lambda>a. ar_nFlag a = 0) as) = map ar_pStart (filter (\<lambda>a. ar_nFlag a = 0) (marked sql :: 'd ArgType list))"
    using F(1) [of ar_pStart] filter_by_flag(1) [OF marked_fields(1) [where ?'a = 'd] ks, of ar_pStart] as(3) by simp
  then have "map ar_pStart (filter (\<lambda>a. ar_nFlag a = 0) as) = marks CHR ''%'' sql 0" by (simp only: marked_fields(3))
  moreover note F(1) [of "df_val \<circ> ar_val", unfolded as(4) Z] F(1) [of "df_type \<circ> ar_val", unfolded as(5) Z] F(2) [of "df_val \<circ> ar_val", unfolded as(4) Z]
  ultimately show thesis using that as(1) len(2) by simp
qed

lemma print_percent_of:
  assumes "parts_ok lib sql vs txt binds" "length sql < SZBUF" "length txt < SZBUF" "marks CHR ''%'' sql 0 \<noteq> []"
    and "map ar_pStart (filter (\<lambda>a. ar_nFlag a = 0) as) = marks CHR ''%'' sql 0"
    and "map (df_val \<circ> ar_val) (filter (\<lambda>a. ar_nFlag a = 0) as) = map Some (vals_of CHR ''%'' sql vs)"
    and "map (df_type \<circ> ar_val) (filter (\<lambda>a. ar_nFlag a = 0) as) = map val_type (vals_of CHR ''%'' sql vs)"
  shows "print_percent lib sql as = Inr txt"
proof -
  note cut = cut_marks [OF assms(2)]
  have "hd (marks CHR ''%'' sql 0) < length sql" using assms(4) marks_filter by (metis (no_types, lifting) atLeastLessThan_iff hd_in_set mem_Collect_eq set_filter set_upt)
  then have h: "cut_piece sql 0 (hd (marks CHR ''%'' sql 0)) = Inr (hd (cutp sql))" using cut assms(2,4) by (simp add: cut_piece_def)
  obtain ts where ts: "list_all2 (\<lambda>(p, v) u. sprintf_piece lib p v = Some u \<and> \<not> (\<exists>bs. v = CBlob bs)) (zip (tl (cutp sql)) (vals_of CHR ''%'' sql vs)) ts"
    "txt = hd (cutp sql) @ concat ts" "length (tl (cutp sql)) = length (vals_of CHR ''%'' sql vs)" using assms(1) by (auto simp: parts_ok_def)
  have "length t < SZBUF" if "t \<in> set ts" for t
  proof -
    have "length t \<le> sum_list (map length ts)" using that by (induction ts) auto
    then show ?thesis using ts(2) assms(3) by (simp add: length_concat)
  qed
  then have "print_pieces lib [] (zip (tl (cutp sql)) (map ar_val (filter (\<lambda>a. ar_nFlag a = 0) as))) = Inr ts"
    using ts(1,3) assms(6,7) by (intro print_pieces_of) (simp_all add: comp_def)
  then show ?thesis using cut h ts(2) unfolding print_percent_def Let_def assms(5) by simp
qed

lemma Fromat_rendered:
  assumes "render lib sql vs = Some (txt, binds)" "map fi_type fis = map val_type vs"
    and "sql \<noteq> []" "length sql < 256" "length txt < 256" "length sql < totalCount" "length txt < totalCount"
  shows "\<exists>args. Fromat lib (Some []) sql totalCount [] fis (concat (map va_of vs)) CHR ''?'' CHR ''%'' = Inr (Some txt, args)
    \<and> map (df_val \<circ> ar_val) (filter (\<lambda>a. ar_nFlag a = 1) args) = map Some binds"
proof -
  note P = render_parts [OF assms(1)]
  obtain as where as: "fill_args fis (concat (map va_of vs)) (marked sql) = Inr as"
    "map ar_pStart (filter (\<lambda>a. ar_nFlag a = 0) as) = marks CHR ''%'' sql 0"
    "map (df_val \<circ> ar_val) (filter (\<lambda>a. ar_nFlag a = 0) as) = map Some (vals_of CHR ''%'' sql vs)"
    "map (df_type \<circ> ar_val) (filter (\<lambda>a. ar_nFlag a = 0) as) = map val_type (vals_of CHR ''%'' sql vs)"
    "map (df_val \<circ> ar_val) (filter (\<lambda>a. ar_nFlag a = 1) as) = map Some binds"
    using filled_args [OF P assms(2)] by blast
  have len: "length (marked sql :: 'a ArgType list) = length fis"
    using P map_eq_imp_length_eq [OF assms(2)] by (simp add: parts_ok_def marked_fields(2))
  have small: "length sql < SZBUF" "length txt < SZBUF" using assms(4,5) by (simp_all add: SZBUF_def)
  have start: "Fromat lib (Some []) sql totalCount [] fis (concat (map va_of vs)) CHR ''?'' CHR ''%'' =
      (if marks CHR ''%'' sql 0 \<noteq> [] then
         (case print_percent lib sql as of Inl e \<Rightarrow> Inl e | Inr t \<Rightarrow> if length t < totalCount then Inr (Some t, as) else Inl Undefined)
       else Inr (Some sql, as))"
    using assms(3,6) as(1) len unfolding Fromat_def append_Nil sorted_args Let_def
    by (cases "print_percent lib sql as") simp_all
  show ?thesis
  proof (cases "marks CHR ''%'' sql 0 = []")
    case True
    then have "cutp sql = [sql]" using cut_marks [OF small(1)] by simp
    then have "txt = sql" using P by (simp add: parts_ok_def)
    then show ?thesis using start True as(5) by simp
  next
    case False
    then show ?thesis using start print_percent_of [OF P small False as(2-4)] assms(7) as(5) by simp
  qed
qed

text \<open>
  Property C17. Formatting a statement is printing it from left to right. If the reference accepts the statement with the values, the arguments have the types of the
  values and statement and text are shorter than 256 bytes, then \<open>Fromat\<close> with a cleared buffer that is large enough returns the text of the reference,
  and the arguments marked for binding carry the values of the question marks in their order.
\<close>
theorem Fromat_renders:
  assumes "render lib sql vs = Some (txt, binds)" "map fi_type fis = map val_type vs"
    and "sql \<noteq> []" "length sql < 256" "length txt < 256" "length sql < totalCount" "length txt < totalCount"
  shows "\<exists>args. Fromat lib (Some []) sql totalCount [] fis (concat (map va_of vs)) CHR ''?'' CHR ''%'' = Inr (Some txt, args)
    \<and> map (df_val \<circ> ar_val) (filter (\<lambda>a. ar_nFlag a = 1) args) = map Some binds"
  by (rule Fromat_rendered [OF assms])

text \<open>
  Observation. A statement that fills the buffer is accepted and written one byte past its end: \<open>Fromat\<close> compares the capacity with the length without the terminating zero.
\<close>
lemma full_buffer_overflows:
  assumes "sql \<noteq> []" "kinds sql = []"
  shows "Fromat lib (Some d) sql (length sql) [] [] [] CHR ''?'' CHR ''%'' = Inl Undefined"
proof -
  have "(marked sql :: 'a ArgType list) = []" using assms(2) marked_fields(2) [of sql] by auto
  moreover have "marks CHR ''%'' sql 0 = []" using assms(2) by (auto simp: marks_filter kinds_def filter_empty_conv)
  ultimately show ?thesis using assms(1) unfolding Fromat_def append_Nil sorted_args Let_def by simp
qed

lemma Fromat_mismatch:
  fixes lib :: "string \<Rightarrow> 'd cval \<Rightarrow> string option"
  assumes "length (kinds sql) \<noteq> length fis"
  shows "\<exists>args. Fromat lib (Some d) sql totalCount [] fis ap CHR ''?'' CHR ''%'' = Inr (None, args)"
proof -
  have "length (marked sql :: 'd ArgType list) \<noteq> length fis" using assms by (simp add: marked_fields(2))
  then show ?thesis unfolding Fromat_def append_Nil sorted_args Let_def by simp
qed

text \<open>
  Observation. The number of values is checked: with more or fewer types than markers no text is produced and the result is a null pointer.
\<close>
theorem Fromat_count_checked:
  assumes "length (kinds sql) \<noteq> length fis"
  shows "\<exists>args. Fromat lib (Some d) sql totalCount [] fis ap CHR ''?'' CHR ''%'' = Inr (None, args)"
  by (rule Fromat_mismatch [OF assms])

subsection \<open>Examples\<close>

abbreviation no_lib :: "string \<Rightarrow> nat cval \<Rightarrow> string option" where
  "no_lib \<equiv> (\<lambda>_ _. None)"

theorem Fromat_renders_witness:
  "\<exists>args. Fromat no_lib (Some []) ''set a=?,b=%d'' 1024 [] [\<lparr>fi_type = DT_STRING, fi_name = ''a''\<rparr>, \<lparr>fi_type = DT_INT, fi_name = ''b''\<rparr>]
     [VaStr ''x'', VaInt 42] CHR ''?'' CHR ''%'' = Inr (Some ''set a=?,b=42'', args)
     \<and> map (df_val \<circ> ar_val) (filter (\<lambda>a. ar_nFlag a = 1) args) = [Some (CStr ''x'')]"
proof -
  have c: "char_of (52 :: nat) = CHR ''4''" "char_of (50 :: nat) = CHR ''2''" by code_simp+
  have "render no_lib ''set a=?,b=%d'' [CStr ''x'', CInt 42] = Some (''set a=?,b=42'', [CStr ''x''])"
    by (simp add: render.simps spec_char_def bad_end_def c_print_def dec_int_def dec_nat.simps digit_def c)
  from Fromat_renders [OF this, of "[\<lparr>fi_type = DT_STRING, fi_name = ''a''\<rparr>, \<lparr>fi_type = DT_INT, fi_name = ''b''\<rparr>]" 1024]
  show ?thesis by simp
qed

theorem Fromat_count_checked_witness:
  "\<exists>args. Fromat no_lib (Some []) ''a=?'' 1024 [] [] [] CHR ''?'' CHR ''%'' = Inr (None, args)"
  by (rule Fromat_count_checked) (simp add: kinds_def)

end
