(* ===== verification/DBPool.thy ===== *)
theory DBPool
  imports ObjPool "HOL-Library.List_Lexorder" "HOL-Library.Char_ord"
begin

text \<open>
  \<open>DB/DBConnPool.cpp\<close> and \<open>DB/DBConnect.cpp\<close>: a pool of database connections, each of which is a pool of access objects. Both are \<open>ObjPool\<close>s whose \<open>InitObj\<close> creates an
  object by the name that is registered for the kind of database. What \<open>getInstance\<close> creates is a parameter: \<open>mkc name k\<close> and \<open>mka name k\<close> are the objects of
  the \<open>k\<close>-th call, 0 for a null pointer. The virtual functions of a connection are parameters too. An object whose destructor
  was called explicitly is recorded as no longer alive; using it is \<open>Undefined\<close>.
\<close>

record DBInfo =
  di_DBConnName :: string
  di_DBProxyName :: string
  di_pFuncInit :: "bool option"
  di_pFuncUnInit :: "bool option"

type_synonym dbset = "(string, DBInfo) omap"

text \<open>\<open>pFuncDB\<close> is given by its result; a pointer that the constructor leaves uninitialised is \<open>None\<close>.\<close>

definition DBInfo_new :: "string \<Rightarrow> string \<Rightarrow> bool option \<Rightarrow> bool option \<Rightarrow> DBInfo" where
  "DBInfo_new pc pp pInit pUninit = \<lparr>di_DBConnName = pc, di_DBProxyName = pp, di_pFuncInit = pInit, di_pFuncUnInit = pUninit\<rparr>"

record proxy =
  px_connect :: "addr option"
  px_alive :: bool

record DBConnect =
  dc_pool :: objpool
  dc_dbType :: string
  dc_bValid :: bool
  dc_alive :: bool
  dc_proxies :: "addr \<Rightarrow> proxy"

definition DBConnect_new :: DBConnect where
  "DBConnect_new = \<lparr>dc_pool = ObjPool_new, dc_dbType = [], dc_bValid = False, dc_alive = True, dc_proxies = (\<lambda>_. \<lparr>px_connect = None, px_alive = True\<rparr>)\<rparr>"

datatype db_event = DisConnect addr | DestroyConn addr | DestroyProxy addr

record DBConnPool =
  cp_setDb :: dbset
  cp_RorganizeFlag :: bool
  cp_DBInitFlag :: bool
  cp_strDBinfo :: string
  cp_pool :: objpool
  cp_conns :: "addr \<Rightarrow> DBConnect"
  cp_log :: "db_event list"

definition DBConnPool_new :: "dbset \<Rightarrow> DBConnPool" where
  "DBConnPool_new db =
     \<lparr>cp_setDb = db, cp_RorganizeFlag = True, cp_DBInitFlag = False, cp_strDBinfo = [], cp_pool = ObjPool_new, cp_conns = (\<lambda>_. DBConnect_new), cp_log = []\<rparr>"

definition AddSupportDBengine :: "string \<Rightarrow> string \<Rightarrow> string \<Rightarrow> bool option \<Rightarrow> bool option \<Rightarrow> dbset \<Rightarrow> dbset" where
  "AddSupportDBengine dbInfo connName proxyName pInit pUninit db = minsert dbInfo (DBInfo_new connName proxyName pInit pUninit) db"

definition DeleteSupportDBengine :: "string \<Rightarrow> dbset \<Rightarrow> dbset" where
  "DeleteSupportDBengine dbInfo db = merase dbInfo db"

definition ConnPool_InitObj :: "(string \<Rightarrow> nat \<Rightarrow> addr) \<Rightarrow> dbset \<Rightarrow> string \<Rightarrow> initobj" where
  "ConnPool_InitObj mkc db ty =
     (\<lambda>k. case map_of db ty of
            Some i \<Rightarrow> (let p = mkc (di_DBConnName i) k in (p \<noteq> 0, Some p))
          | None \<Rightarrow> (False, None))"

text \<open>\<open>iap\<close>: the result of \<open>InitAccessParam\<close> of the new object.\<close>

definition Connect_InitObj :: "(string \<Rightarrow> nat \<Rightarrow> addr) \<Rightarrow> (addr \<Rightarrow> bool) \<Rightarrow> dbset \<Rightarrow> string \<Rightarrow> initobj" where
  "Connect_InitObj mka iap db ty =
     (\<lambda>k. case map_of db ty of
            Some i \<Rightarrow> (let p = mka (di_DBProxyName i) k in (p \<noteq> 0 \<and> iap p, Some p))
          | None \<Rightarrow> (False, None))"

definition InitDBlib :: "DBConnPool \<Rightarrow> xerror + bool" where
  "InitDBlib st =
     (case map_of (cp_setDb st) (cp_strDBinfo st) of
        None \<Rightarrow> Inr False
      | Some i \<Rightarrow> (case di_pFuncInit i of None \<Rightarrow> Inl Undefined | Some b \<Rightarrow> Inr b))"

text \<open>The thread object in \<open>Init\<close> is a local variable that is not started.\<close>

definition DBConnPool_Init :: "(string \<Rightarrow> nat \<Rightarrow> addr) \<Rightarrow> string \<Rightarrow> int \<Rightarrow> DBConnPool \<Rightarrow> xerror + (bool \<times> DBConnPool)" where
  "DBConnPool_Init mkc ty sz st =
     (let st1 = st\<lparr>cp_strDBinfo := ty\<rparr>;
          (ok, pool) = ObjPool_Init (ConnPool_InitObj mkc (cp_setDb st) ty) sz (cp_pool st);
          st2 = st1\<lparr>cp_pool := pool\<rparr>
      in if ok then (case InitDBlib st2 of Inl e \<Rightarrow> Inl e | Inr b \<Rightarrow> Inr (b, st2)) else Inr (False, st2))"

text \<open>The destructor calls the function for leaving the library without looking whether the kind of database is registered.\<close>

definition DBConnPool_destroy :: "DBConnPool \<Rightarrow> xerror + DBConnPool" where
  "DBConnPool_destroy st =
     (case map_of (cp_setDb st) (cp_strDBinfo st) of
        None \<Rightarrow> Inl Undefined
      | Some i \<Rightarrow> (case di_pFuncUnInit i of
                     None \<Rightarrow> Inl Undefined
                   | Some b \<Rightarrow> Inr (st\<lparr>cp_RorganizeFlag := False, cp_DBInitFlag := False\<rparr>)))"

definition destroy_conn :: "addr \<Rightarrow> DBConnPool \<Rightarrow> DBConnPool" where
  "destroy_conn p st =
     st\<lparr>cp_conns := (cp_conns st)(p := (cp_conns st p)\<lparr>dc_alive := False\<rparr>), cp_log := cp_log st @ [DestroyConn p]\<rparr>"

definition free_conn :: "addr \<Rightarrow> DBConnPool \<Rightarrow> xerror + DBConnPool" where
  "free_conn p st = (case ObjPool_Free p 1 (cp_pool st) of Inl e \<Rightarrow> Inl e | Inr pool \<Rightarrow> Inr (st\<lparr>cp_pool := pool\<rparr>))"

text \<open>\<open>ini\<close>, \<open>con\<close>: the results of \<open>InitConnecion\<close> and \<open>ConnectDB\<close> of a connection.\<close>

definition SetDBInfo :: "string \<Rightarrow> DBConnect \<Rightarrow> DBConnect" where
  "SetDBInfo ty c = c\<lparr>dc_dbType := ty, dc_bValid := True\<rparr>"

definition GetNewConnect :: "(string \<Rightarrow> nat \<Rightarrow> addr) \<Rightarrow> (string \<Rightarrow> nat \<Rightarrow> addr) \<Rightarrow> (addr \<Rightarrow> bool) \<Rightarrow> (addr \<Rightarrow> bool) \<Rightarrow> (addr \<Rightarrow> bool) \<Rightarrow>
    DBConnPool \<Rightarrow> xerror + (addr \<times> DBConnPool)" where
  "GetNewConnect mkc mka iap ini con st =
     (case ObjPool_Alloc (ConnPool_InitObj mkc (cp_setDb st) (cp_strDBinfo st)) 1 (cp_pool st) of
        Inl e \<Rightarrow> Inl e
      | Inr (p, pool) \<Rightarrow>
          (let st1 = st\<lparr>cp_pool := pool\<rparr>
           in if p = 0 then Inr (0, st1)
              else if \<not> dc_alive (cp_conns st p) then Inl Undefined
              else
                (let c = SetDBInfo (cp_strDBinfo st) (cp_conns st p);
                     (ok, acc) = ObjPool_Init (Connect_InitObj mka iap (cp_setDb st) (dc_dbType c)) 10 (dc_pool c);
                     st2 = st1\<lparr>cp_conns := (cp_conns st)(p := c\<lparr>dc_pool := acc\<rparr>)\<rparr>
                 in if ok \<and> ini p \<and> con p then Inr (p, st2)
                    else (case free_conn p (destroy_conn p st2) of Inl e \<Rightarrow> Inl e | Inr st3 \<Rightarrow> Inr (0, st3)))))"

definition ReleaseConn :: "addr \<Rightarrow> DBConnPool \<Rightarrow> xerror + DBConnPool" where
  "ReleaseConn p st =
     (if p = 0 then Inr st
      else if \<not> dc_alive (cp_conns st p) then Inl Undefined
      else free_conn p (destroy_conn p (st\<lparr>cp_log := cp_log st @ [DisConnect p]\<rparr>)))"

definition ReCreatePool :: "addr \<Rightarrow> DBConnPool \<Rightarrow> xerror + DBConnPool" where
  "ReCreatePool p st = ReleaseConn p st"

text \<open>One round of \<open>run\<close> after its pause: every object is deleted and the pool is filled again.\<close>

definition DBConnPool_run :: "(string \<Rightarrow> nat \<Rightarrow> addr) \<Rightarrow> DBConnPool \<Rightarrow> DBConnPool" where
  "DBConnPool_run mkc st =
     (let (dels, pool) = ClearPool (cp_pool st);
          pool' = snd (RetryInitObj (ConnPool_InitObj mkc (cp_setDb st) (cp_strDBinfo st)) pool)
      in st\<lparr>cp_pool := pool', cp_conns := (\<lambda>a. if a \<in> set dels then (cp_conns st a)\<lparr>dc_alive := False\<rparr> else cp_conns st a),
            cp_log := cp_log st @ map DestroyConn dels\<rparr>)"

subsection \<open>Access objects\<close>

definition GetDBAccessProxy :: "(string \<Rightarrow> nat \<Rightarrow> addr) \<Rightarrow> (addr \<Rightarrow> bool) \<Rightarrow> dbset \<Rightarrow> addr \<Rightarrow> DBConnect \<Rightarrow> xerror + (addr \<times> DBConnect)" where
  "GetDBAccessProxy mka iap db self c =
     (if \<not> dc_bValid c then Inr (0, c)
      else case ObjPool_Alloc (Connect_InitObj mka iap db (dc_dbType c)) 1 (dc_pool c) of
        Inl e \<Rightarrow> Inl e
      | Inr (q, pool) \<Rightarrow>
          (let c1 = c\<lparr>dc_pool := pool\<rparr>
           in if q = 0 then Inr (0, c1)
              else if \<not> px_alive (dc_proxies c q) then Inl Undefined
              else Inr (q, c1\<lparr>dc_proxies := (dc_proxies c)(q := \<lparr>px_connect = Some self, px_alive = True\<rparr>)\<rparr>)))"

definition ReleaseDBAccessProxy :: "addr \<Rightarrow> DBConnect \<Rightarrow> xerror + DBConnect" where
  "ReleaseDBAccessProxy q c =
     (if \<not> dc_bValid c then Inr c
      else case ObjPool_Free q 1 (dc_pool c) of
        Inl e \<Rightarrow> Inl e
      | Inr pool \<Rightarrow> Inr (c\<lparr>dc_pool := pool, dc_proxies := (dc_proxies c)(q := \<lparr>px_connect = None, px_alive = False\<rparr>)\<rparr>))"

definition ReleaseInvalidConn :: "addr \<Rightarrow> DBConnPool \<Rightarrow> DBConnPool" where
  "ReleaseInvalidConn p st =
     st\<lparr>cp_conns := (cp_conns st)(p := (cp_conns st p)\<lparr>dc_bValid := False\<rparr>), cp_log := cp_log st @ [DisConnect p]\<rparr>"

text \<open>The functions of \<open>DBAccess\<close> itself: they only look at the connection.\<close>

definition DBAccess_Execute :: "proxy \<Rightarrow> DBConnPool \<Rightarrow> xerror + int" where
  "DBAccess_Execute x st =
     (case px_connect x of None \<Rightarrow> Inl Undefined | Some p \<Rightarrow> if dc_bValid (cp_conns st p) then Inr 0 else Inr (- 1))"

definition DBAccess_Query :: "proxy \<Rightarrow> DBConnPool \<Rightarrow> xerror + int" where
  "DBAccess_Query x st =
     (case px_connect x of None \<Rightarrow> Inl Undefined | Some p \<Rightarrow> if dc_bValid (cp_conns st p) then Inr 0 else Inr (- 1))"

subsection \<open>Properties\<close>

text \<open>A pool whose objects are created by \<open>getInstance\<close> for a registered kind of database.\<close>

definition db_pool_ok :: "(string \<Rightarrow> nat \<Rightarrow> addr) \<Rightarrow> DBConnPool \<Rightarrow> bool" where
  "db_pool_ok mkc st \<longleftrightarrow>
     (\<exists>i. map_of (cp_setDb st) (cp_strDBinfo st) = Some i \<and> inj (mkc (di_DBConnName i)) \<and> 0 \<notin> range (mkc (di_DBConnName i))
        \<and> pool_inv (mkc (di_DBConnName i)) (cp_pool st))
     \<and> 1 \<le> m_nMax (cp_pool st) \<and> m_nMax (cp_pool st) < 32768"

lemma registered_io:
  assumes "map_of db ty = Some i" "0 \<notin> range (mkc (di_DBConnName i))"
  shows "ConnPool_InitObj mkc db ty = newobj (mkc (di_DBConnName i))"
proof
  fix k
  have "mkc (di_DBConnName i) k \<noteq> 0" using assms(2) by (metis rangeI)
  then show "ConnPool_InitObj mkc db ty k = newobj (mkc (di_DBConnName i)) k" using assms(1) by (simp add: ConnPool_InitObj_def newobj_def Let_def)
qed

lemma conn_alloc_again:
  assumes "db_pool_ok mkc st"
  shows "\<exists>p pool1 pool2. p \<noteq> 0 \<and> ObjPool_Alloc (ConnPool_InitObj mkc (cp_setDb st) (cp_strDBinfo st)) 1 (cp_pool st) = Inr (p, pool1)
    \<and> ObjPool_Free p 1 pool1 = Inr pool2 \<and> ObjPool_Alloc (ConnPool_InitObj mkc (cp_setDb st) (cp_strDBinfo st)) 1 pool2 = Inr (p, pool1)
    \<and> live_objs pool2 = live_objs (cp_pool st)"
proof -
  obtain i where i: "map_of (cp_setDb st) (cp_strDBinfo st) = Some i" "inj (mkc (di_DBConnName i))" "0 \<notin> range (mkc (di_DBConnName i))"
      "pool_inv (mkc (di_DBConnName i)) (cp_pool st)" "1 \<le> m_nMax (cp_pool st)" "m_nMax (cp_pool st) < 32768"
    using assms by (auto simp: db_pool_ok_def)
  show ?thesis unfolding registered_io [where mkc = mkc, OF i(1,3)] using alloc_again [OF i(4,2,3), of 1] i(5,6) by auto
qed

text \<open>What \<open>GetNewConnect\<close> does with the object it takes out of the pool.\<close>

lemma GetNewConnect_on:
  assumes "ObjPool_Alloc (ConnPool_InitObj mkc (cp_setDb st) (cp_strDBinfo st)) 1 (cp_pool st) = Inr (p, pool)" "p \<noteq> 0" "dc_alive (cp_conns st p)"
    and "c = SetDBInfo (cp_strDBinfo st) (cp_conns st p)"
    and "ObjPool_Init (Connect_InitObj mka iap (cp_setDb st) (cp_strDBinfo st)) 10 (dc_pool c) = (ok, acc)"
    and "st2 = st\<lparr>cp_pool := pool, cp_conns := (cp_conns st)(p := c\<lparr>dc_pool := acc\<rparr>)\<rparr>"
  shows "GetNewConnect mkc mka iap ini con st =
      (if ok \<and> ini p \<and> con p then Inr (p, st2) else case free_conn p (destroy_conn p st2) of Inl e \<Rightarrow> Inl e | Inr st3 \<Rightarrow> Inr (0, st3))"
proof -
  have "dc_dbType c = cp_strDBinfo st" using assms(4) by (simp add: SetDBInfo_def)
  then show ?thesis using assms unfolding GetNewConnect_def by (simp add: Let_def)
qed

text \<open>
  Observation. Asking for a connection either gives a connected one or leaves nothing behind: the call returns, the connection it gives was set up by all three steps and is valid, and when
  one of the steps fails the call returns a null pointer with the same connections in use as before.
\<close>
theorem connect_or_nothing:
  assumes "db_pool_ok mkc st" "\<forall>a. dc_alive (cp_conns st a)"
  shows "\<exists>p st'. GetNewConnect mkc mka iap ini con st = Inr (p, st')
    \<and> (p \<noteq> 0 \<longrightarrow> ini p \<and> con p \<and> dc_bValid (cp_conns st' p) \<and> dc_alive (cp_conns st' p) \<and> dc_dbType (cp_conns st' p) = cp_strDBinfo st)
    \<and> (p = 0 \<longrightarrow> live_objs (cp_pool st') = live_objs (cp_pool st))"
proof -
  obtain p pool1 pool2 where p: "p \<noteq> 0" "ObjPool_Alloc (ConnPool_InitObj mkc (cp_setDb st) (cp_strDBinfo st)) 1 (cp_pool st) = Inr (p, pool1)"
      "ObjPool_Free p 1 pool1 = Inr pool2" "live_objs pool2 = live_objs (cp_pool st)"
    using conn_alloc_again [OF assms(1)] by blast
  define c where "c = SetDBInfo (cp_strDBinfo st) (cp_conns st p)"
  obtain ok acc where init: "ObjPool_Init (Connect_InitObj mka iap (cp_setDb st) (cp_strDBinfo st)) 10 (dc_pool c) = (ok, acc)" by fastforce
  define st2 where "st2 = st\<lparr>cp_pool := pool1, cp_conns := (cp_conns st)(p := c\<lparr>dc_pool := acc\<rparr>)\<rparr>"
  note go = GetNewConnect_on [OF p(2,1) assms(2) [rule_format] c_def init st2_def]
  have "free_conn p (destroy_conn p st2) = Inr ((destroy_conn p st2)\<lparr>cp_pool := pool2\<rparr>)"
    using p(3) by (simp add: free_conn_def destroy_conn_def st2_def)
  moreover have "dc_alive c" "dc_bValid c" "dc_dbType c = cp_strDBinfo st" using assms(2) by (simp_all add: c_def SetDBInfo_def)
  ultimately show ?thesis unfolding go using p(1,4) by (simp add: st2_def)
qed

text \<open>
  Observation. A connection that was given back is used again after its destructor has run: asking for a connection, releasing it and asking again calls functions of
  a destroyed object.
\<close>
theorem reconnect_uses_destroyed:
  assumes "db_pool_ok mkc st" "GetNewConnect mkc mka iap ini con st = Inr (p, st1)" "p \<noteq> 0"
  shows "\<exists>st2. ReleaseConn p st1 = Inr st2 \<and> GetNewConnect mkc mka iap ini con st2 = Inl Undefined"
proof -
  obtain q pool1 pool2 where q: "q \<noteq> 0" "ObjPool_Alloc (ConnPool_InitObj mkc (cp_setDb st) (cp_strDBinfo st)) 1 (cp_pool st) = Inr (q, pool1)"
      "ObjPool_Free q 1 pool1 = Inr pool2" "ObjPool_Alloc (ConnPool_InitObj mkc (cp_setDb st) (cp_strDBinfo st)) 1 pool2 = Inr (q, pool1)"
    using conn_alloc_again [OF assms(1)] by blast
  define c where "c = SetDBInfo (cp_strDBinfo st) (cp_conns st q)"
  obtain ok acc where init: "ObjPool_Init (Connect_InitObj mka iap (cp_setDb st) (cp_strDBinfo st)) 10 (dc_pool c) = (ok, acc)" by fastforce
  define s where "s = st\<lparr>cp_pool := pool1, cp_conns := (cp_conns st)(q := c\<lparr>dc_pool := acc\<rparr>)\<rparr>"
  have al: "dc_alive (cp_conns st q)" using assms(2) q(1,2) by (auto simp: GetNewConnect_def split: if_splits)
  have e: "p = q" "st1 = s"
    using assms(2,3) GetNewConnect_on [OF q(2,1) al c_def init s_def] by (auto split: if_splits sum.splits)
  define st2 where "st2 = (destroy_conn q (st1\<lparr>cp_log := cp_log st1 @ [DisConnect q]\<rparr>))\<lparr>cp_pool := pool2\<rparr>"
  have f: "cp_setDb st2 = cp_setDb st" "cp_strDBinfo st2 = cp_strDBinfo st" "cp_pool st2 = pool2" "\<not> dc_alive (cp_conns st2 q)"
    by (simp_all add: st2_def e(2) s_def destroy_conn_def)
  have "ReleaseConn p st1 = Inr st2"
    using q(1,3) al e by (simp add: ReleaseConn_def free_conn_def destroy_conn_def st2_def s_def c_def SetDBInfo_def)
  moreover have "GetNewConnect mkc mka iap ini con st2 = Inl Undefined" using q(1,4) f by (simp add: GetNewConnect_def)
  ultimately show ?thesis by blast
qed

subsection \<open>Examples\<close>

abbreviation sample_make :: "string \<Rightarrow> nat \<Rightarrow> addr" where
  "sample_make \<equiv> (\<lambda>_ k. 100 + k)"

definition sample_db :: DBConnPool where
  "sample_db = (DBConnPool_new (AddSupportDBengine ''mysql'' ''MysqlConn'' ''MysqlAccess'' (Some True) (Some True) []))\<lparr>cp_strDBinfo := ''mysql'', cp_pool := two_objs\<rparr>"

lemma sample_db_ok: "db_pool_ok sample_make sample_db" "dc_alive (cp_conns sample_db a)" "cp_pool sample_db = two_objs"
  "map_of (cp_setDb sample_db) (cp_strDBinfo sample_db) = Some (DBInfo_new ''MysqlConn'' ''MysqlAccess'' (Some True) (Some True))"
proof -
  show i: "map_of (cp_setDb sample_db) (cp_strDBinfo sample_db) = Some (DBInfo_new ''MysqlConn'' ''MysqlAccess'' (Some True) (Some True))"
    by (simp add: sample_db_def DBConnPool_new_def AddSupportDBengine_def)
  show p: "cp_pool sample_db = two_objs" by (simp add: sample_db_def)
  show "dc_alive (cp_conns sample_db a)" by (simp add: sample_db_def DBConnPool_new_def DBConnect_new_def)
  have "m_nMax two_objs = 2" by (simp add: two_objs_vec)
  then show "db_pool_ok sample_make sample_db" unfolding db_pool_ok_def p using i two_objs_inv by (auto simp: inj_def)
qed

theorem connect_or_nothing_witness:
  "\<exists>p st'. GetNewConnect sample_make sample_make (\<lambda>_. True) (\<lambda>_. True) (\<lambda>_. False) sample_db = Inr (p, st') \<and> live_objs (cp_pool st') = live_objs two_objs"
  using connect_or_nothing [OF sample_db_ok(1), of sample_make "\<lambda>_. True" "\<lambda>_. True" "\<lambda>_. False"] sample_db_ok(2,3) by auto

lemma init_new_ok: "fst (update_nodes (newobj f) i r st)"
  by (induction r arbitrary: i st) (simp_all add: newobj_def)

theorem reconnect_uses_destroyed_witness:
  "\<exists>p st1 st2. GetNewConnect sample_make sample_make (\<lambda>_. True) (\<lambda>_. True) (\<lambda>_. True) sample_db = Inr (p, st1) \<and> ReleaseConn p st1 = Inr st2
    \<and> GetNewConnect sample_make sample_make (\<lambda>_. True) (\<lambda>_. True) (\<lambda>_. True) st2 = Inl Undefined"
proof -
  obtain p pool where p: "p \<noteq> 0" "ObjPool_Alloc (ConnPool_InitObj sample_make (cp_setDb sample_db) (cp_strDBinfo sample_db)) 1 (cp_pool sample_db) = Inr (p, pool)"
    using conn_alloc_again [OF sample_db_ok(1)] by blast
  define c where "c = SetDBInfo (cp_strDBinfo sample_db) (cp_conns sample_db p)"
  have "Connect_InitObj sample_make (\<lambda>_. True) (cp_setDb sample_db) (cp_strDBinfo sample_db) = newobj (\<lambda>k. 100 + k)"
    using sample_db_ok(4) by (simp add: Connect_InitObj_def newobj_def Let_def fun_eq_iff)
  then obtain acc where init: "ObjPool_Init (Connect_InitObj sample_make (\<lambda>_. True) (cp_setDb sample_db) (cp_strDBinfo sample_db)) 10 (dc_pool c) = (True, acc)"
    using init_new_ok by (simp add: ObjPool_Init_def UpdateRecord_def Let_def) (metis prod.collapse)
  have "\<exists>st1. GetNewConnect sample_make sample_make (\<lambda>_. True) (\<lambda>_. True) (\<lambda>_. True) sample_db = Inr (p, st1)"
    using GetNewConnect_on [OF p(2,1) sample_db_ok(2) c_def init refl] by simp
  then show ?thesis using reconnect_uses_destroyed [OF sample_db_ok(1)] p(1) by blast
qed

end
