(* ===== verification/MysqlDb.thy ===== *)
theory MysqlDb
  imports DBFormat DBPool
begin

text \<open>
  \<open>DB/MysqlConn.cpp\<close> and \<open>DB/MysqlAccess.cpp\<close>: connections and statements of the MySQL client library. The library is a parameter, a record of functions on its state
  \<open>'m\<close>; only what the code uses of their results is in them. A null pointer that is used is \<open>Undefined\<close>. Result rows are lists of texts, \<open>None\<close> for a null.
\<close>

datatype mysql_type =
    MT_SHORT | MT_LONG | MT_LONGLONG | MT_FLOAT | MT_DOUBLE | MT_VARCHAR | MT_STRING | MT_VAR_STRING
  | MT_BLOB | MT_LONG_BLOB | MT_TIME | MT_DATE | MT_DATETIME | MT_OTHER

text \<open>A stored result: columns, what \<open>mysql_fetch_lengths\<close> gives before a row was fetched, and rows.\<close>

record mysql_res =
  rs_fields :: "(string \<times> mysql_type) list"
  rs_lengths :: "nat list option"
  rs_rows :: "string option list list"

text \<open>
  What a parameter of a prepared statement is bound to. For texts and binary values it is the address of the variable that holds the pointer.
\<close>

datatype 'd bind = BindLong int | BindLongLong int | BindDouble 'd | BindString_ptr nat | BindBlob_ptr nat | BindNone

record ('d, 'm) mysql =
  my_init :: "'m \<Rightarrow> bool \<times> 'm"
  my_autocommit :: "bool \<Rightarrow> 'm \<Rightarrow> 'm"
  my_options :: "'m \<Rightarrow> int \<times> 'm"
  my_real_connect :: "string \<Rightarrow> string \<Rightarrow> string \<Rightarrow> string \<Rightarrow> 'm \<Rightarrow> bool \<times> 'm"
  my_commit :: "'m \<Rightarrow> 'm"
  my_rollback :: "'m \<Rightarrow> 'm"
  my_close :: "'m \<Rightarrow> 'm"
  my_query :: "string \<Rightarrow> 'm \<Rightarrow> int \<times> 'm"
  my_store_result :: "'m \<Rightarrow> mysql_res option \<times> 'm"
  my_stmt_init :: "'m \<Rightarrow> bool \<times> 'm"
  my_stmt_prepare :: "string \<Rightarrow> 'm \<Rightarrow> int \<times> 'm"
  my_stmt_param_count :: "'m \<Rightarrow> nat"
  my_stmt_metadata :: "'m \<Rightarrow> mysql_type list option"
  my_stmt_execute :: "'d bind list \<Rightarrow> 'm \<Rightarrow> int \<times> 'm"
  my_stmt_bind_result :: "'m \<Rightarrow> int \<times> 'm"
  my_stmt_store_result :: "'m \<Rightarrow> int \<times> 'm"
  my_stmt_nulls :: "'m \<Rightarrow> bool list"
  my_stmt_close :: "'m \<Rightarrow> 'm"

subsection \<open>Connections\<close>

datatype connptr = ConnJunk | ConnNull | ConnOpen

record mysqlParam =
  mp_dbIp :: string
  mp_user :: string
  mp_passwd :: string
  mp_dbName :: string

record MysqlConn =
  mc_host :: string
  mc_user :: string
  mc_passwd :: string
  mc_dbName :: string
  mc_pConn :: connptr

text \<open>The constructor does not initialise \<open>m_pConn\<close>.\<close>

definition MysqlConn_new :: MysqlConn where
  "MysqlConn_new = \<lparr>mc_host = [], mc_user = [], mc_passwd = [], mc_dbName = [], mc_pConn = ConnJunk\<rparr>"

definition MysqlConn_destroy :: "('d, 'm) mysql \<Rightarrow> MysqlConn \<Rightarrow> 'm \<Rightarrow> xerror + 'm" where
  "MysqlConn_destroy L c m = (case mc_pConn c of ConnJunk \<Rightarrow> Inl Undefined | ConnNull \<Rightarrow> Inr m | ConnOpen \<Rightarrow> Inr (my_close L m))"

definition MysqlConn_InitConnecion :: "('d, 'm) mysql \<Rightarrow> mysqlParam option \<Rightarrow> MysqlConn \<Rightarrow> 'm \<Rightarrow> bool \<times> MysqlConn \<times> 'm" where
  "MysqlConn_InitConnecion L p c m =
     (let (ok, m1) = my_init L m
      in if \<not> ok then (False, c\<lparr>mc_pConn := ConnNull\<rparr>, m1)
         else
           (let c1 = c\<lparr>mc_pConn := ConnOpen\<rparr>; m2 = my_autocommit L True m1
            in case p of
                 None \<Rightarrow> (False, c1, m2)
               | Some q \<Rightarrow>
                   (let c2 = c1\<lparr>mc_host := mp_dbIp q, mc_user := mp_user q, mc_passwd := mp_passwd q, mc_dbName := mp_dbName q\<rparr>;
                        (r, m3) = my_options L m2
                    in (r = 0, c2, m3))))"

definition MysqlConn_ConnectDB :: "('d, 'm) mysql \<Rightarrow> MysqlConn \<Rightarrow> 'm \<Rightarrow> bool \<times> 'm" where
  "MysqlConn_ConnectDB L c m = my_real_connect L (mc_host c) (mc_user c) (mc_passwd c) (mc_dbName c) m"

definition MysqlConn_BeginTrans :: "('d, 'm) mysql \<Rightarrow> 'm \<Rightarrow> int \<times> 'm" where
  "MysqlConn_BeginTrans L m = (0, my_autocommit L False m)"

definition MysqlConn_CommitTrans :: "('d, 'm) mysql \<Rightarrow> bool \<Rightarrow> 'm \<Rightarrow> int \<times> 'm" where
  "MysqlConn_CommitTrans L b m = (0, my_autocommit L True (if b then my_commit L m else my_rollback L m))"

subsection \<open>Statements without parameters\<close>

definition MysqlAccess_Execute :: "('d, 'm) mysql \<Rightarrow> proxy \<Rightarrow> DBConnPool \<Rightarrow> string \<Rightarrow> 'm \<Rightarrow> xerror + (int \<times> 'm)" where
  "MysqlAccess_Execute L x st sql m =
     (case DBAccess_Execute x st of
        Inl e \<Rightarrow> Inl e
      | Inr nRet \<Rightarrow>
          if nRet \<noteq> 0 then Inr (nRet, m)
          else (let (r, m') = my_query L sql m in if r = 0 then Inr (- 2, m') else Inr (0, m')))"

text \<open>One column of a row: the field as the column before left it, with what the type of the column sets.\<close>

definition set_column :: "(string \<Rightarrow> 'd) \<Rightarrow> string \<times> mysql_type \<times> nat \<Rightarrow> string option \<Rightarrow> 'd DBField \<Rightarrow> xerror + 'd DBField" where
  "set_column atof col cell f =
     (let (name, ty, len) = col; g = f\<lparr>df_name := name, df_len := len\<rparr>
      in if ty \<in> {MT_TIME, MT_DATE, MT_DATETIME, MT_OTHER} then Inr g
         else case cell of
           None \<Rightarrow> Inl Undefined
         | Some s \<Rightarrow>
             if ty \<in> {MT_SHORT, MT_LONG} then Inr (g\<lparr>df_type := DT_INT, df_val := Some (CInt (atoi s))\<rparr>)
             else if ty = MT_LONGLONG then Inr (g\<lparr>df_type := DT_INT64, df_val := Some (CInt64 (atoi s))\<rparr>)
             else if ty \<in> {MT_FLOAT, MT_DOUBLE} then Inr (g\<lparr>df_type := DT_DOUBLE, df_val := Some (CDouble (atof s))\<rparr>)
             else if ty \<in> {MT_VARCHAR, MT_STRING, MT_VAR_STRING} then
               (if length s \<le> len then Inr (g\<lparr>df_type := DT_STRING, df_memType := 0, df_val := Some (CStr s)\<rparr>) else Inl Undefined)
             else if len \<le> length s
             then Inr (g\<lparr>df_type := DT_BLOB, df_memType := 0, df_val := Some (CBlob (map (\<lambda>c. of_nat (of_char c)) (take len s)))\<rparr>)
             else Inl Undefined)"

text \<open>The loop over the columns; the fields are appended to the list that all rows share.\<close>

fun row_fields :: "(string \<Rightarrow> 'd) \<Rightarrow> (string \<times> mysql_type \<times> nat) list \<Rightarrow> string option list \<Rightarrow> 'd DBField \<Rightarrow> 'd DBField list \<Rightarrow> xerror + 'd DBField list" where
  "row_fields atof (c # cs) (s # ss) f lst =
     (case set_column atof c s f of Inl e \<Rightarrow> Inl e | Inr g \<Rightarrow> row_fields atof cs ss g (lst @ [g]))"
| "row_fields atof [] _ f lst = Inr lst"
| "row_fields atof (c # cs) [] f lst = Inl Undefined"

fun fetch_rows :: "(string \<Rightarrow> 'd) \<Rightarrow> (string \<times> mysql_type \<times> nat) list \<Rightarrow> string option list list \<Rightarrow> 'd DBField list \<Rightarrow> 'd DBField list list \<Rightarrow>
    xerror + 'd DBField list list" where
  "fetch_rows atof cols [] lst result = Inr result"
| "fetch_rows atof cols (r # rs) lst result =
     (case row_fields atof cols r DBField_new lst of
        Inl e \<Rightarrow> Inl e
      | Inr lst' \<Rightarrow> fetch_rows atof cols rs lst' (result @ [lst']))"

definition MysqlAccess_Query :: "(string \<Rightarrow> 'd) \<Rightarrow> ('d, 'm) mysql \<Rightarrow> proxy \<Rightarrow> DBConnPool \<Rightarrow> string \<Rightarrow> 'd DBField list list \<Rightarrow> 'm \<Rightarrow>
    xerror + (int \<times> 'd DBField list list \<times> 'm)" where
  "MysqlAccess_Query atof L x st sql result m =
     (case DBAccess_Query x st of
        Inl e \<Rightarrow> Inl e
      | Inr nRet \<Rightarrow>
          if nRet \<noteq> 0 then Inr (nRet, result, m)
          else
            (let (r, m1) = my_query L sql m
             in if r \<noteq> 0 then Inr (- 2, result, m1)
                else case my_store_result L m1 of
                  (None, m2) \<Rightarrow> Inl Undefined
                | (Some res, m2) \<Rightarrow>
                    (case (if rs_fields res = [] then Some [] else rs_lengths res) of
                       None \<Rightarrow> Inl Undefined
                     | Some ls \<Rightarrow>
                         if length ls < length (rs_fields res) then Inl Undefined
                         else (case fetch_rows atof (map2 (\<lambda>(n, t) l. (n, t, l)) (rs_fields res) ls) (rs_rows res) [] result of
                                 Inl e \<Rightarrow> Inl e
                               | Inr result' \<Rightarrow> Inr (0, result', m2)))))"

subsection \<open>Statements with parameters\<close>

definition bind_of :: "'d ArgType \<Rightarrow> 'd bind" where
  "bind_of a =
     (case df_val (ar_val a) of
        Some (CInt n) \<Rightarrow> BindLong n
      | Some (CInt64 n) \<Rightarrow> BindLongLong n
      | Some (CDouble d) \<Rightarrow> BindDouble d
      | Some (CStr s) \<Rightarrow> BindString_ptr (df_len (ar_val a))
      | Some (CBlob bs) \<Rightarrow> BindBlob_ptr (df_len (ar_val a))
      | None \<Rightarrow> BindNone)"

text \<open>\<open>strSql\<close> is a cleared buffer of 1024 bytes. A null pointer from \<open>Fromat\<close> goes to \<open>strlen\<close>.\<close>

definition format_sql :: "(string \<Rightarrow> 'd cval \<Rightarrow> string option) \<Rightarrow> string \<Rightarrow> FieldInfo list \<Rightarrow> 'd vaarg list \<Rightarrow> xerror + (int + string \<times> 'd ArgType list)" where
  "format_sql lib sql fis ap =
     (case Fromat lib (Some []) sql 1024 [] fis ap CHR ''?'' CHR ''%'' of
        Inl e \<Rightarrow> Inl e
      | Inr (None, args) \<Rightarrow> Inl Undefined
      | Inr (Some s, args) \<Rightarrow>
          if s = [] then Inr (Inl (- 2)) else if length args \<noteq> length fis then Inr (Inl (- 3)) else Inr (Inr (s, filter (\<lambda>a. ar_nFlag a = 1) args)))"

definition MysqlAccess_ExecuteArgs :: "(string \<Rightarrow> 'd cval \<Rightarrow> string option) \<Rightarrow> ('d, 'm) mysql \<Rightarrow> proxy \<Rightarrow> DBConnPool \<Rightarrow> string \<Rightarrow> FieldInfo list \<Rightarrow>
    'd vaarg list \<Rightarrow> 'm \<Rightarrow> xerror + (int \<times> 'm)" where
  "MysqlAccess_ExecuteArgs lib L x st sql fis ap m =
     (case DBAccess_Execute x st of
        Inl e \<Rightarrow> Inl e
      | Inr nRet \<Rightarrow>
          if nRet \<noteq> 0 then Inr (nRet, m)
          else case format_sql lib sql fis ap of
            Inl e \<Rightarrow> Inl e
          | Inr (Inl r) \<Rightarrow> Inr (r, m)
          | Inr (Inr (s, resVec)) \<Rightarrow>
              (case my_stmt_init L m of
                 (False, m1) \<Rightarrow> Inl Undefined
               | (True, m1) \<Rightarrow>
                   (let (r, m2) = my_stmt_prepare L s m1
                    in if r \<noteq> 0 then Inr (1, m2)
                       else Inr (0, my_stmt_close L (snd (my_stmt_execute L (map bind_of resVec) m2))))))"

text \<open>
  The part of the query from the execution on: the result code. All columns are bound through element 1 of the array. The rows are put into a
  list that is dropped; \<open>my_stmt_nulls\<close> gives the null flags that the fetches set.
\<close>

definition query_fetch :: "('d, 'm) mysql \<Rightarrow> mysql_type list \<Rightarrow> 'd bind list \<Rightarrow> 'm \<Rightarrow> xerror + (int \<times> 'm)" where
  "query_fetch L types binds m =
     (let (r, m1) = my_stmt_execute L binds m
      in if r \<noteq> 0 then Inr (4, m1)
         else if length types = 1 then Inl Undefined
         else
           (let (b, m2) = my_stmt_bind_result L m1
            in if b \<noteq> 0 then Inr (5, m2)
               else
                 (let (s, m3) = my_stmt_store_result L m2
                  in if s \<noteq> 0 then Inr (6, m3) else Inr (if True \<in> set (my_stmt_nulls L m3) then 7 else 0, m3))))"

definition MysqlAccess_QueryArgs :: "(string \<Rightarrow> 'd cval \<Rightarrow> string option) \<Rightarrow> ('d, 'm) mysql \<Rightarrow> proxy \<Rightarrow> DBConnPool \<Rightarrow> string \<Rightarrow> FieldInfo list \<Rightarrow>
    'd vaarg list \<Rightarrow> 'd DBField list list \<Rightarrow> 'm \<Rightarrow> xerror + (int \<times> 'd DBField list list \<times> 'm)" where
  "MysqlAccess_QueryArgs lib L x st sql fis ap result m =
     (case DBAccess_Query x st of
        Inl e \<Rightarrow> Inl e
      | Inr nRet \<Rightarrow>
          if nRet \<noteq> 0 then Inr (nRet, result, m)
          else case format_sql lib sql fis ap of
            Inl e \<Rightarrow> Inl e
          | Inr (Inl r) \<Rightarrow> Inr (r, result, m)
          | Inr (Inr (s, resVec)) \<Rightarrow>
              (case my_stmt_init L m of
                 (False, m1) \<Rightarrow> Inr (- 4, result, m1)
               | (True, m1) \<Rightarrow>
                   (let (r, m2) = my_stmt_prepare L s m1
                    in if r \<noteq> 0 then Inr (1, result, my_stmt_close L m2)
                       else if my_stmt_param_count L m2 \<noteq> length resVec then Inr (2, result, my_stmt_close L m2)
                       else case my_stmt_metadata L m2 of
                         None \<Rightarrow> Inr (3, result, my_stmt_close L m2)
                       | Some types \<Rightarrow>
                           (case query_fetch L types (map bind_of resVec) m2 of
                              Inl e \<Rightarrow> Inl e
                            | Inr (k, m3) \<Rightarrow> Inr (k, result, my_stmt_close L m3)))))"

subsection \<open>Properties\<close>

text \<open>The fields of a row without those of the rows before it.\<close>

lemma row_fields_append:
  "row_fields atof cs ss f lst = map_sum id (\<lambda>fs. lst @ fs) (row_fields atof cs ss f [])"
proof (induction cs arbitrary: ss f lst)
  case (Cons c cs)
  show ?case
  proof (cases ss)
    case (Cons s ss')
    show ?thesis
    proof (cases "set_column atof c s f")
      case (Inr g)
      have "row_fields atof cs ss' g (lst @ [g]) = map_sum id (\<lambda>fs. lst @ fs) (row_fields atof cs ss' g [g])"
        unfolding Cons.IH [of ss' g "lst @ [g]"] Cons.IH [of ss' g "[g]"] by (cases "row_fields atof cs ss' g []") simp_all
      then show ?thesis using Cons Inr by (simp add: id_def)
    qed (use Cons in simp)
  qed simp
qed simp

lemma fetch_rows_prefixes:
  assumes "list_all2 (\<lambda>r fs. row_fields atof cols r DBField_new [] = Inr fs) rows fss"
  shows "fetch_rows atof cols rows lst result = Inr (result @ map (\<lambda>k. lst @ concat (take (Suc k) fss)) [0..<length rows])"
  using assms
proof (induction rows arbitrary: fss lst result)
  case (Cons r rows)
  obtain fs fss' where fs: "fss = fs # fss'" "row_fields atof cols r DBField_new [] = Inr fs"
      "list_all2 (\<lambda>r fs. row_fields atof cols r DBField_new [] = Inr fs) rows fss'"
    using Cons.prems by (auto simp: list_all2_Cons1)
  have up: "[0..<length (r # rows)] = 0 # map Suc [0..<length rows]" by (simp add: upt_conv_Cons map_Suc_upt del: upt_Suc)
  have "row_fields atof cols r DBField_new lst = Inr (lst @ fs)" using row_fields_append [of atof cols r DBField_new lst] fs(2) by simp
  then show ?case using Cons.IH [OF fs(3), of "lst @ fs" "result @ [lst @ fs]"] fs(1) unfolding up by (simp add: comp_def)
qed simp

text \<open>
  Observation. Rows of a query pile up: if the library gave the lengths of the columns, every row of the result would contain the fields of all rows before it as well, because the
  list of fields is not cleared between rows.
\<close>
theorem rows_pile_up:
  assumes "DBAccess_Query x st = Inr 0" "my_query L sql m = (0, m1)" "my_store_result L m1 = (Some res, m2)"
    and "rs_lengths res = Some ls" "length ls = length (rs_fields res)"
    and "list_all2 (\<lambda>r fs. row_fields atof (map2 (\<lambda>(n, t) l. (n, t, l)) (rs_fields res) ls) r DBField_new [] = Inr fs) (rs_rows res) fss"
  shows "MysqlAccess_Query atof L x st sql [] m = Inr (0, map (\<lambda>k. concat (take (Suc k) fss)) [0..<length (rs_rows res)], m2)"
  using assms fetch_rows_prefixes [OF assms(6), of "[]" "[]"] by (auto simp: MysqlAccess_Query_def Let_def)

text \<open>
  Observation. The library documents that there are no lengths before a row was fetched: then every query with a column dereferences a null pointer.
\<close>
lemma query_without_lengths:
  assumes "DBAccess_Query x st = Inr 0" "my_query L sql m = (0, m1)" "my_store_result L m1 = (Some res, m2)" "rs_lengths res = None" "rs_fields res \<noteq> []"
  shows "MysqlAccess_Query atof L x st sql result m = Inl Undefined"
  using assms by (simp add: MysqlAccess_Query_def)

text \<open>Observation. A statement that the library executes is reported as failed, and one that fails as executed.\<close>
lemma execute_inverted:
  assumes "DBAccess_Execute x st = Inr 0" "my_query L sql m = (r, m')"
  shows "MysqlAccess_Execute L x st sql m = Inr (if r = 0 then - 2 else 0, m')"
  using assms by (simp add: MysqlAccess_Execute_def)

text \<open>Observation. A query with parameters never adds a row to the result, whatever the library does.\<close>
lemma query_args_no_rows:
  assumes "MysqlAccess_QueryArgs lib L x st sql fis ap result m = Inr (k, result', m')"
  shows "result' = result"
  using assms by (auto simp: MysqlAccess_QueryArgs_def Let_def split: sum.splits if_splits prod.splits bool.splits option.splits)

text \<open>
  Observation. Executing a statement with the wrong number of values does not fail with a code but uses a null pointer.
\<close>
lemma execute_wrong_count:
  assumes "DBAccess_Execute x st = Inr 0" "length (kinds sql) \<noteq> length fis"
  shows "MysqlAccess_ExecuteArgs lib L x st sql fis ap m = Inl Undefined"
proof -
  have "\<exists>args. Fromat lib (Some []) sql 1024 [] fis ap CHR ''?'' CHR ''%'' = Inr (None, args)" by (rule Fromat_mismatch [OF assms(2)])
  then show ?thesis using assms(1) by (auto simp: MysqlAccess_ExecuteArgs_def format_sql_def)
qed

subsection \<open>Examples\<close>

definition sample_res :: mysql_res where
  "sample_res = \<lparr>rs_fields = [(''id'', MT_LONG)], rs_lengths = Some [1], rs_rows = [[Some ''1''], [Some ''2'']]\<rparr>"

definition sample_lib :: "(nat, unit) mysql" where
  "sample_lib = \<lparr>my_init = (\<lambda>m. (True, m)), my_autocommit = (\<lambda>_ m. m), my_options = (\<lambda>m. (0, m)), my_real_connect = (\<lambda>_ _ _ _ m. (True, m)),
     my_commit = (\<lambda>m. m), my_rollback = (\<lambda>m. m), my_close = (\<lambda>m. m), my_query = (\<lambda>_ m. (0, m)), my_store_result = (\<lambda>m. (Some sample_res, m)),
     my_stmt_init = (\<lambda>m. (True, m)), my_stmt_prepare = (\<lambda>_ m. (0, m)), my_stmt_param_count = (\<lambda>_. 0), my_stmt_metadata = (\<lambda>_. None),
     my_stmt_execute = (\<lambda>_ m. (0, m)), my_stmt_bind_result = (\<lambda>m. (0, m)), my_stmt_store_result = (\<lambda>m. (0, m)), my_stmt_nulls = (\<lambda>_. []),
     my_stmt_close = (\<lambda>m. m)\<rparr>"

definition sample_conns :: DBConnPool where
  "sample_conns = (DBConnPool_new [])\<lparr>cp_conns := (\<lambda>_. DBConnect_new\<lparr>dc_bValid := True\<rparr>)\<rparr>"

abbreviation sample_id :: "int \<Rightarrow> nat DBField" where
  "sample_id n \<equiv> \<lparr>df_type = DT_INT, df_name = ''id'', df_memType = 0, df_len = 1, df_val = Some (CInt n)\<rparr>"

theorem rows_pile_up_witness:
  "MysqlAccess_Query (\<lambda>_. 0) sample_lib \<lparr>px_connect = Some 5, px_alive = True\<rparr> sample_conns ''select id from t'' [] () =
     Inr (0, [[sample_id 1], [sample_id 1, sample_id 2]], ())"
proof -
  have v: "DBAccess_Query \<lparr>px_connect = Some 5, px_alive = True\<rparr> sample_conns = Inr 0"
    by (simp add: DBAccess_Query_def sample_conns_def)
  have a: "atoi ''1'' = 1" "atoi ''2'' = 2" by code_simp+
  have "list_all2 (\<lambda>r fs. row_fields (\<lambda>_. 0) (map2 (\<lambda>(n, t) l. (n, t, l)) (rs_fields sample_res) [1]) r DBField_new [] = Inr fs) (rs_rows sample_res) [[sample_id 1], [sample_id 2]]"
    by (simp add: sample_res_def set_column_def DBField_new_def a)
  from rows_pile_up [OF v _ _ _ _ this, of sample_lib "''select id from t''" "()" "()" "()"] show ?thesis
    by (simp add: sample_lib_def sample_res_def)
qed

end
