(* ===== verification/SignalSlots.thy ===== *)
theory SignalSlots
  imports XPrelude "HOL-Library.List_Lexorder" "HOL-Library.Char_ord"
begin

text \<open>
  \<open>Pattern/Signal/XObject.cpp\<close> and \<open>MyObject.cpp\<close>: signals of objects that are connected to slots of other objects by name. A \<open>set\<close> of \<open>slotInfo\<close>, which is ordered by the
  object alone, is an ordered map from objects to slot names. Emitting a signal gives the calls of \<open>slot_Interface\<close> in order. Dereferencing the end of a map is \<open>Undefined\<close>.
\<close>

type_synonym slotset = "(addr, string) omap"
type_synonym objsets = "(addr, (string, slotset) omap) omap"

definition XConnect :: "addr \<Rightarrow> string \<Rightarrow> addr \<Rightarrow> string \<Rightarrow> objsets \<Rightarrow> bool \<times> objsets" where
  "XConnect pSignal strSig pSlot strSlot st =
     (case map_of st pSignal of
        Some tags \<Rightarrow>
          (case map_of tags strSig of
             Some ss \<Rightarrow>
               if ss = [] then (False, st)
               else (True, massign pSignal (massign strSig (minsert pSlot strSlot ss) tags) st)
           | None \<Rightarrow> (True, massign pSignal (minsert strSig [(pSlot, strSig)] tags) st))
      | None \<Rightarrow> (True, minsert pSignal [(strSig, [(pSlot, strSlot)])] st))"

definition XDisconnect :: "addr \<Rightarrow> string \<Rightarrow> addr \<Rightarrow> string \<Rightarrow> objsets \<Rightarrow> xerror + objsets" where
  "XDisconnect pSignal strSig pSlot strSlot st =
     (case map_of st pSignal of
        None \<Rightarrow> Inr st
      | Some tags \<Rightarrow>
          (case map_of tags strSig of
             None \<Rightarrow> Inl Undefined
           | Some ss \<Rightarrow>
               (let ss' = merase pSlot ss
                in if ss' = [] then Inr (merase pSignal st) else Inr (massign pSignal (massign strSig ss' tags) st))))"

text \<open>\<open>emit_signal\<close> and \<open>XInterface\<close>: the objects and slots that are called.\<close>

definition emit_signal :: "addr \<Rightarrow> string \<Rightarrow> objsets \<Rightarrow> (addr \<times> string) list" where
  "emit_signal pSigObj strSig st =
     (case map_of st pSigObj of
        None \<Rightarrow> []
      | Some tags \<Rightarrow> (case map_of tags strSig of None \<Rightarrow> [] | Some ss \<Rightarrow> ss))"

subsection \<open>Slots of an object\<close>

text \<open>\<open>MyObject\<close>: the registered member functions by name, given by numbers; the result of a call is the function that runs.\<close>

definition RegisterSlot :: "string \<Rightarrow> nat \<Rightarrow> (string, nat) omap \<Rightarrow> (string, nat) omap" where
  "RegisterSlot strSlot pfunc slots = minsert strSlot pfunc slots"

definition UnRegisterSlot :: "string \<Rightarrow> (string, nat) omap \<Rightarrow> (string, nat) omap" where
  "UnRegisterSlot strSlot slots = merase strSlot slots"

definition slot_Interface :: "string \<Rightarrow> (string, nat) omap \<Rightarrow> nat option" where
  "slot_Interface strSlot slots = map_of slots strSlot"

subsection \<open>Connections\<close>

definition sig_ok :: "objsets \<Rightarrow> bool" where
  "sig_ok st \<longleftrightarrow> msorted st \<and> (\<forall>o1 tags. map_of st o1 = Some tags \<longrightarrow> msorted tags \<and> (\<forall>s ss. map_of tags s = Some ss \<longrightarrow> msorted ss \<and> ss \<noteq> []))"

lemma minsert_not_Nil [simp]: "minsert k v m \<noteq> []"
  by (cases m) auto

text \<open>The name under which \<open>XConnect\<close> enters a slot.\<close>

definition slot_name :: "addr \<Rightarrow> string \<Rightarrow> string \<Rightarrow> objsets \<Rightarrow> string" where
  "slot_name pSignal strSig strSlot st =
     (case map_of st pSignal of Some tags \<Rightarrow> (if map_of tags strSig = None then strSig else strSlot) | None \<Rightarrow> strSlot)"

lemma XConnect_ok:
  assumes "sig_ok st"
  shows "sig_ok (snd (XConnect p s x n st))" "fst (XConnect p s x n st)"
proof -
  show "fst (XConnect p s x n st)" using assms by (auto simp: XConnect_def sig_ok_def split: option.splits)
  have st: "msorted st" using assms by (simp add: sig_ok_def)
  show "sig_ok (snd (XConnect p s x n st))"
  proof (cases "map_of st p")
    case None
    then show ?thesis using assms st by (auto simp: XConnect_def sig_ok_def map_of_minsert split: if_splits)
  next
    case (Some tags)
    then have t: "msorted tags" "\<forall>s ss. map_of tags s = Some ss \<longrightarrow> msorted ss \<and> ss \<noteq> []" using assms by (auto simp: sig_ok_def)
    define tags' where "tags' = (case map_of tags s of Some ss \<Rightarrow> massign s (minsert x n ss) tags | None \<Rightarrow> minsert s [(x, s)] tags)"
    have "msorted tags' \<and> (\<forall>s ss. map_of tags' s = Some ss \<longrightarrow> msorted ss \<and> ss \<noteq> [])"
    proof (cases "map_of tags s")
      case None
      then have "tags' = minsert s [(x, s)] tags" by (simp add: tags'_def)
      then show ?thesis using t None by (auto simp: map_of_minsert split: if_splits)
    next
      case (Some ss)
      then have "tags' = massign s (minsert x n ss) tags" by (simp add: tags'_def)
      then show ?thesis using t Some by (auto simp: map_of_massign split: if_splits)
    qed
    moreover have "snd (XConnect p s x n st) = massign p tags' st"
      using Some t by (auto simp: XConnect_def tags'_def split: option.splits)
    ultimately show ?thesis using assms st by (auto simp: sig_ok_def map_of_massign split: if_splits)
  qed
qed

text \<open>
  Observation. What a connection adds. After \<open>XConnect\<close> the signal calls the slots it called before and the new one, in the order of the objects, one slot per object; every
  other signal calls what it called before. The new slot is called by its own name, except when the object already has connections but none of
  this signal: then it is called by the name of the signal.
\<close>
theorem connect_adds_slot:
  assumes "sig_ok st"
  shows "fst (XConnect p s x n st) \<and> sig_ok (snd (XConnect p s x n st))
    \<and> emit_signal p s (snd (XConnect p s x n st)) = minsert x (slot_name p s n st) (emit_signal p s st)
    \<and> (\<forall>q t. (q, t) \<noteq> (p, s) \<longrightarrow> emit_signal q t (snd (XConnect p s x n st)) = emit_signal q t st)"
proof -
  have st: "msorted st" "\<And>tags. map_of st p = Some tags \<Longrightarrow> msorted tags"
      "\<And>tags ss. map_of st p = Some tags \<Longrightarrow> map_of tags s = Some ss \<Longrightarrow> ss \<noteq> []" using assms by (auto simp: sig_ok_def)
  consider (new) "map_of st p = None" | (sig) tags where "map_of st p = Some tags" "map_of tags s = None"
    | (old) tags ss where "map_of st p = Some tags" "map_of tags s = Some ss" by fastforce
  then have "emit_signal p s (snd (XConnect p s x n st)) = minsert x (slot_name p s n st) (emit_signal p s st)
    \<and> (\<forall>q t. (q, t) \<noteq> (p, s) \<longrightarrow> emit_signal q t (snd (XConnect p s x n st)) = emit_signal q t st)"
  proof cases
    case new
    then show ?thesis using st(1) by (auto simp: emit_signal_def XConnect_def slot_name_def map_of_minsert)
  next
    case sig
    then show ?thesis using st(1,2) by (auto simp: emit_signal_def XConnect_def slot_name_def map_of_minsert map_of_massign split: option.splits)
  next
    case old
    then show ?thesis using st by (auto simp: emit_signal_def XConnect_def slot_name_def map_of_massign split: option.splits)
  qed
  then show ?thesis using XConnect_ok [OF assms] by blast
qed

text \<open>
  Observation. Disconnecting the only slot of a signal disconnects all signals of the object: afterwards none of them calls anything. When the signal keeps another slot, just
  the one connection is removed.
\<close>
theorem disconnect_last_drops_all:
  assumes "sig_ok st" "emit_signal p s st \<noteq> []"
  shows "\<exists>st'. XDisconnect p s x n st = Inr st'
    \<and> (merase x (emit_signal p s st) = [] \<longrightarrow> (\<forall>t. emit_signal p t st' = []))
    \<and> (merase x (emit_signal p s st) \<noteq> [] \<longrightarrow> emit_signal p s st' = merase x (emit_signal p s st) \<and> (\<forall>t. t \<noteq> s \<longrightarrow> emit_signal p t st' = emit_signal p t st))
    \<and> (\<forall>q t. q \<noteq> p \<longrightarrow> emit_signal q t st' = emit_signal q t st)"
proof -
  obtain tags ss where t: "map_of st p = Some tags" "map_of tags s = Some ss" "emit_signal p s st = ss"
    using assms(2) by (auto simp: emit_signal_def split: option.splits)
  have m: "msorted st" "msorted tags" using assms(1) t(1) by (auto simp: sig_ok_def)
  show ?thesis unfolding t(3)
    using t(1,2) m by (auto simp: XDisconnect_def Let_def emit_signal_def map_of_massign map_of_merase)
qed

subsection \<open>Examples\<close>

definition two_signals :: objsets where
  "two_signals = snd (XConnect 1 ''moved'' 9 ''on_moved'' (snd (XConnect 1 ''sized'' 8 ''on_sized'' [])))"

lemma two_signals_is: "two_signals = [(1, [(''moved'', [(9, ''moved'')]), (''sized'', [(8, ''on_sized'')])])]"
  by (simp add: two_signals_def XConnect_def)

lemma two_signals_ok: "sig_ok two_signals"
  unfolding two_signals_def by (intro XConnect_ok) (simp add: sig_ok_def)

theorem connect_adds_slot_witness:
  "emit_signal 1 ''moved'' (snd (XConnect 1 ''moved'' 7 ''f'' two_signals)) = [(7, ''f''), (9, ''moved'')]"
  using connect_adds_slot [OF two_signals_ok, of 1 "''moved''" 7 "''f''"] by (simp add: two_signals_is emit_signal_def slot_name_def)

theorem disconnect_last_drops_all_witness:
  "\<exists>st'. XDisconnect 1 ''moved'' 9 ''moved'' two_signals = Inr st' \<and> emit_signal 1 ''sized'' st' = []"
  using disconnect_last_drops_all [OF two_signals_ok, of 1 "''moved''" 9 "''moved''"] by (auto simp: two_signals_is emit_signal_def merase_def)

end
