(* ===== verification/WinBalance.thy ===== *)
theory WinBalance
  imports Balance
begin

text \<open>
  \<open>Net/BalanceHandle_Win32.cpp\<close>: the clients of a server on Windows. The list of clients and its ranges are as in \<open>Balance\<close>; a worker without
  clients sleeps on its condition variable instead of a semaphore, so its position in the loop is part of the state, and a wake-up reaches the threads
  that sleep at that moment only. Threads are numbered in the order of their start; \<open>Start\<close> has no guard and may be called again. The
  lock \<open>m_lock\<close> delimits the operations. Timer queue handles are left out: the code that creates timers and the heartbeat thread is disabled in the source, so
  that \<open>m_HeartbitTh\<close> is never set; whether waiting for its value returns is an argument of \<open>Stop\<close>.
\<close>

datatype wthread = Begun | Running | Sleeping | Woken | Ended

datatype wbal_event = Ev bal_event | DeleteSession SockHandle

record wbalance =
  wb_WorkorFlag :: bool
  wb_HeartBitFlag :: bool
  wb_bStart :: bool
  wb_interface :: bool
  wb_pBase :: bool
  wb_clientInfos :: "client list"
  wb_itrs :: "(nat \<times> nat) list"
  wb_lostHeartbit :: "SockHandle list"
  wb_threads :: "(nat \<times> wthread) list"
  wb_th :: "nat list"
  wb_log :: "wbal_event list"

text \<open>The constructor; the pointers \<open>m_interface\<close> and \<open>m_pBase\<close> are not initialised.\<close>

definition WBalanceHandle_new :: "bool \<Rightarrow> bool \<Rightarrow> wbalance" where
  "WBalanceHandle_new ji jb =
     \<lparr>wb_WorkorFlag = True, wb_HeartBitFlag = True, wb_bStart = False, wb_interface = ji, wb_pBase = jb, wb_clientInfos = [],
      wb_itrs = replicate THREAD_COUNT (0, 0), wb_lostHeartbit = [], wb_threads = [], wb_th = [], wb_log = []\<rparr>"

definition WBal_Start :: "bool \<Rightarrow> wbalance \<Rightarrow> bool \<times> wbalance" where
  "WBal_Start base st =
     (let n = length (wb_threads st)
      in (True, st\<lparr>wb_threads := wb_threads st @ map (\<lambda>i. (i, Begun)) [0..<THREAD_COUNT], wb_th := [n..<n + THREAD_COUNT],
                  wb_bStart := True, wb_pBase := base\<rparr>))"

definition WBal_SetNetParam :: "bool \<Rightarrow> wbalance \<Rightarrow> bool \<times> wbalance" where
  "WBal_SetNetParam i st = (if \<not> i then (False, st) else (True, st\<lparr>wb_interface := True\<rparr>))"

text \<open>\<open>WakeAllConditionVariable(m_HasData + i)\<close> for every \<open>i\<close> whose range is not empty.\<close>

definition has_data :: "wbalance \<Rightarrow> nat \<Rightarrow> bool" where
  "has_data st i \<longleftrightarrow> fst (wb_itrs st ! i) \<noteq> snd (wb_itrs st ! i)"

definition WakeAll :: "wbalance \<Rightarrow> wbalance" where
  "WakeAll st =
     st\<lparr>wb_threads := map (\<lambda>(i, t). (i, if t = Sleeping \<and> i < THREAD_COUNT \<and> has_data st i then Woken else t)) (wb_threads st)\<rparr>"

text \<open>\<open>Stop\<close> up to its wait for the workers, and from there on: it returns when the threads of \<open>m_th\<close> have ended.\<close>

definition WStop_begin :: "bool \<Rightarrow> wbalance \<Rightarrow> wbalance option" where
  "WStop_begin hb st = (if hb then Some (WakeAll (st\<lparr>wb_HeartBitFlag := False, wb_WorkorFlag := False\<rparr>)) else None)"

definition WStop_end :: "wbalance \<Rightarrow> wbalance option" where
  "WStop_end st =
     (if list_all (\<lambda>k. k < length (wb_threads st) \<and> snd (wb_threads st ! k) = Ended) (wb_th st)
      then Some (st\<lparr>wb_log := wb_log st @ map (\<lambda>c. DeleteSession (c_hSock c)) (wb_clientInfos st), wb_clientInfos := [], wb_bStart := False\<rparr>)
      else None)"

definition WInitIterator :: "nat \<Rightarrow> wbalance \<Rightarrow> wbalance" where
  "WInitIterator count st = st\<lparr>wb_itrs := ranges count (length (wb_clientInfos st))\<rparr>"

definition WDealData :: "work_env \<Rightarrow> nat \<times> nat \<Rightarrow> wbalance \<Rightarrow> (xerror + wbalance) option" where
  "WDealData e r st =
     (let cs = wb_clientInfos st; a = fst r; b = snd r
      in case deal_clients e (drop a (take b cs)) of
           None \<Rightarrow> None
         | Some (Inl x) \<Rightarrow> Some (Inl x)
         | Some (Inr cs') \<Rightarrow> Some (Inr (st\<lparr>wb_clientInfos := take a cs @ cs' @ drop b cs\<rparr>)))"

text \<open>The part of \<open>run\<close> before the sleep, and the part behind it.\<close>

definition set_thread :: "nat \<Rightarrow> wthread \<Rightarrow> wbalance \<Rightarrow> wbalance" where
  "set_thread k t st = st\<lparr>wb_threads := (wb_threads st)[k := (fst (wb_threads st ! k), t)]\<rparr>"

definition Wrun_begin :: "work_env \<Rightarrow> nat \<Rightarrow> wbalance \<Rightarrow> (xerror + wbalance) option" where
  "Wrun_begin e k st =
     (let i = fst (wb_threads st ! k)
      in if fst (wb_itrs st ! i) = snd (wb_itrs st ! i) then Some (Inr (set_thread k Sleeping st))
         else WDealData e (wb_itrs st ! i) st)"

definition Wrun_woken :: "work_env \<Rightarrow> nat \<Rightarrow> wbalance \<Rightarrow> (xerror + wbalance) option" where
  "Wrun_woken e k st = WDealData e (wb_itrs st ! fst (wb_threads st ! k)) (set_thread k Running st)"

text \<open>One turn of thread \<open>k\<close> in \<open>ThreadProc\<close>. A sleeping thread does nothing until it is woken, and a thread that ended nothing at all.\<close>

definition WThreadProc :: "work_env \<Rightarrow> nat \<Rightarrow> wbalance \<Rightarrow> (xerror + wbalance) option" where
  "WThreadProc e k st =
     (case snd (wb_threads st ! k) of
        Begun \<Rightarrow> Some (Inr (set_thread k (if wb_interface st then Running else Ended) st))
      | Running \<Rightarrow> if wb_WorkorFlag st then Wrun_begin e k st else Some (Inr (set_thread k Ended st))
      | Sleeping \<Rightarrow> Some (Inr st)
      | Woken \<Rightarrow> Wrun_woken e k st
      | Ended \<Rightarrow> Some (Inr st))"

text \<open>Turns of the threads in any order, each with its environment, up to the first that does not return.\<close>

fun thread_turns :: "(work_env \<times> nat) list \<Rightarrow> wbalance \<Rightarrow> (xerror + wbalance) option" where
  "thread_turns [] st = Some (Inr st)"
| "thread_turns ((e, k) # ks) st =
     (if k < length (wb_threads st)
      then (case WThreadProc e k st of None \<Rightarrow> None | Some (Inl x) \<Rightarrow> Some (Inl x) | Some (Inr st') \<Rightarrow> thread_turns ks st')
      else thread_turns ks st)"

text \<open>The whole of \<open>Stop\<close>, with the turns of the threads while it waits for them, and the destructor.\<close>

definition WBal_Stop :: "bool \<Rightarrow> (work_env \<times> nat) list \<Rightarrow> wbalance \<Rightarrow> (xerror + wbalance) option" where
  "WBal_Stop hb ks st =
     (case WStop_begin hb st of
        None \<Rightarrow> None
      | Some st1 \<Rightarrow>
          (case thread_turns ks st1 of
             None \<Rightarrow> None
           | Some (Inl e) \<Rightarrow> Some (Inl e)
           | Some (Inr st2) \<Rightarrow> map_option Inr (WStop_end st2)))"

definition WBalanceHandle_destroy :: "bool \<Rightarrow> (work_env \<times> nat) list \<Rightarrow> wbalance \<Rightarrow> (xerror + wbalance) option" where
  "WBalanceHandle_destroy hb ks st = (if wb_bStart st then WBal_Stop hb ks st else Some (Inr st))"

definition WKickClient :: "SockHandle \<Rightarrow> wbalance \<Rightarrow> wbalance" where
  "WKickClient h st =
     (let st1 = st\<lparr>wb_log := wb_log st @ [Ev (CloseSock (m_sock h))]\<rparr>;
          st2 = (case List.find (same_sock h) (wb_clientInfos st1) of
                   None \<Rightarrow> st1
                 | Some c \<Rightarrow> WakeAll (WInitIterator THREAD_COUNT (st1\<lparr>wb_clientInfos := drop_client h (wb_clientInfos st1),
                               wb_log := wb_log st1 @ [Ev (DestroySession (c_hSock c))]\<rparr>)))
      in st2\<lparr>wb_log := wb_log st2 @ [Ev (ClientExit h)]\<rparr>)"

definition WAppendNewClient :: "int \<Rightarrow> addr \<Rightarrow> addr \<Rightarrow> nat \<Rightarrow> session option \<Rightarrow> SockHandle \<Rightarrow> wbalance \<Rightarrow> xerror + wbalance" where
  "WAppendNewClient now rbase sbase nd pSession h st =
     (case pSession of
        None \<Rightarrow> Inl (Throw ''can't new Client where connect'')
      | Some ss0 \<Rightarrow>
          (let ss = SocketSession_Init 0 (wb_pBase st) now rbase sbase ss0;
               st1 = WakeAll (WInitIterator THREAD_COUNT (st\<lparr>wb_clientInfos := wb_clientInfos st @ [\<lparr>c_hSock = h, c_sess = ss\<rparr>]\<rparr>));
               st2 = st1\<lparr>wb_log := wb_log st1 @ [Ev (ClientEnter h)]\<rparr>
           in case Session_PostRecv 0 None nd ss of
                Inl e \<Rightarrow> Inl e
              | Inr ss' \<Rightarrow> Inr (st2\<lparr>wb_clientInfos := wb_clientInfos st @ [\<lparr>c_hSock = h, c_sess = ss'\<rparr>]\<rparr>)))"

definition WRemoveClient :: "SockHandle \<Rightarrow> wbalance \<Rightarrow> wbalance" where
  "WRemoveClient h st =
     (let st1 = st\<lparr>wb_log := wb_log st @ [Ev (CloseSock (m_sock h))]\<rparr>;
          st2 = (case List.find (same_sock h) (wb_clientInfos st1) of
                   None \<Rightarrow> st1
                 | Some c \<Rightarrow> WakeAll (WInitIterator THREAD_COUNT (st1\<lparr>wb_clientInfos := drop_client h (wb_clientInfos st1),
                               wb_log := wb_log st1 @ [Ev (DestroySession (c_hSock c))]\<rparr>)))
      in st2\<lparr>wb_log := wb_log st2 @ [Ev (ClientExit h)]\<rparr>)"

definition WRecvClientData :: "SockHandle \<Rightarrow> addr \<Rightarrow> nat \<Rightarrow> int \<Rightarrow> nat option \<Rightarrow> nat \<Rightarrow> wbalance \<Rightarrow> xerror + wbalance" where
  "WRecvClientData h buf len nIndex prev node st =
     (case List.find (same_sock h) (wb_clientInfos st) of
        None \<Rightarrow> Inr st
      | Some c \<Rightarrow>
          (case DispatchData buf len nIndex prev node (c_sess c) of
             Inl e \<Rightarrow> Inl e
           | Inr ss \<Rightarrow> Inr (st\<lparr>wb_clientInfos := upd_client h (\<lambda>_. ss) (wb_clientInfos st)\<rparr>)))"

definition WActivateWrite :: "SockHandle \<Rightarrow> nat \<Rightarrow> addr \<Rightarrow> nat \<Rightarrow> nat \<Rightarrow> nat \<Rightarrow> wbalance \<Rightarrow> wbalance" where
  "WActivateWrite h index buf len node nd st =
     st\<lparr>wb_clientInfos := upd_client h (NoticeComplateSend index buf len node nd) (wb_clientInfos st)\<rparr>"

definition WBal_RecvNetPackage :: "SockHandle \<Rightarrow> wbalance \<Rightarrow> int \<times> NetPackage option \<times> wbalance" where
  "WBal_RecvNetPackage h st =
     (case List.find (same_sock h) (wb_clientInfos st) of
        None \<Rightarrow> (-1, None, st)
      | Some c \<Rightarrow>
          (case Session_RecvNetPackage (c_sess c) of
             (ret, p, ss) \<Rightarrow> (ret, p, st\<lparr>wb_clientInfos := upd_client h (\<lambda>_. ss) (wb_clientInfos st)\<rparr>)))"

definition WBal_Alloc :: "(session \<Rightarrow> nat \<Rightarrow> addr \<times> session) \<Rightarrow> SockHandle \<Rightarrow> nat \<Rightarrow> wbalance \<Rightarrow> addr \<times> wbalance" where
  "WBal_Alloc al h len st =
     (case List.find (same_sock h) (wb_clientInfos st) of
        None \<Rightarrow> (0, st)
      | Some c \<Rightarrow> (case al (c_sess c) len of (p, ss) \<Rightarrow> (p, st\<lparr>wb_clientInfos := upd_client h (\<lambda>_. ss) (wb_clientInfos st)\<rparr>)))"

definition WBal_Free :: "(session \<Rightarrow> addr \<Rightarrow> session) \<Rightarrow> SockHandle \<Rightarrow> addr \<Rightarrow> wbalance \<Rightarrow> wbalance" where
  "WBal_Free fr h p st = st\<lparr>wb_clientInfos := upd_client h (\<lambda>ss. fr ss p) (wb_clientInfos st)\<rparr>"

definition WBal_SendNetPackage :: "SockHandle \<Rightarrow> NetPackage \<Rightarrow> wbalance \<Rightarrow> int \<times> wbalance" where
  "WBal_SendNetPackage h p st =
     (case List.find (same_sock h) (wb_clientInfos st) of
        None \<Rightarrow> (-1, st)
      | Some c \<Rightarrow>
          (case Session_SendNetPackage p (c_sess c) of
             (ret, ss) \<Rightarrow> (ret, st\<lparr>wb_clientInfos := upd_client h (\<lambda>_. ss) (wb_clientInfos st)\<rparr>)))"

definition WTimerRoutine :: "nat \<Rightarrow> int \<Rightarrow> wbalance \<Rightarrow> wbalance" where
  "WTimerRoutine index now st =
     (let (a, b) = wb_itrs st ! index;
          lost = filter (\<lambda>c. HEARTBIT_INTERVAL + HEARTBIT_INTERVAL div 10 < now - m_heartbitTime (c_sess c)) (drop a (take b (wb_clientInfos st)))
      in st\<lparr>wb_lostHeartbit := wb_lostHeartbit st @ map c_hSock lost\<rparr>)"

text \<open>One turn of \<open>HeartbitMonitor\<close>, \<open>None\<close> while nothing is lost.\<close>

definition WHeartbitMonitor :: "wbalance \<Rightarrow> wbalance option" where
  "WHeartbitMonitor st =
     (if \<not> wb_HeartBitFlag st then Some st
      else if wb_lostHeartbit st = [] then None
      else Some ((fold WKickClient (wb_lostHeartbit st) st)\<lparr>wb_lostHeartbit := []\<rparr>))"

subsection \<open>The clients on Windows and on Linux\<close>

text \<open>The operations on the clients, with the parameters of the functions, and what they return. \<open>Serve\<close> is \<open>DealData\<close> on the range of a worker.\<close>

datatype bal_op =
    Append int addr addr nat "session option" SockHandle
  | Remove SockHandle
  | Kick SockHandle
  | Data SockHandle addr nat int "nat option" nat
  | Write SockHandle nat addr nat nat nat
  | RecvPkg SockHandle
  | SendPkg SockHandle NetPackage
  | AllocMem "session \<Rightarrow> nat \<Rightarrow> addr \<times> session" SockHandle nat
  | FreeMem "session \<Rightarrow> addr \<Rightarrow> session" SockHandle addr
  | Serve work_env nat

datatype bal_ret = NoRet | RetInt int | RetPkg int "NetPackage option" | RetAddr addr

definition quiet :: "xerror + 's \<Rightarrow> (xerror + (bal_ret \<times> 's)) option" where
  "quiet r = Some (map_sum id (Pair NoRet) r)"

fun bal_exec :: "bal_op \<Rightarrow> balance \<Rightarrow> (xerror + (bal_ret \<times> balance)) option" where
  "bal_exec (Append now rb sb nd ps h) st = quiet (AppendNewClient now rb sb nd ps h st)"
| "bal_exec (Remove h) st = quiet (Inr (RemoveClient h st))"
| "bal_exec (Kick h) st = quiet (Inr (KickClient h st))"
| "bal_exec (Data h buf len i prev node) st = quiet (RecvClientData h buf len i prev node st)"
| "bal_exec (Write h i buf len node nd) st = quiet (Inr (ActivateWrite h i buf len node nd st))"
| "bal_exec (RecvPkg h) st = (case Bal_RecvNetPackage h st of (r, p, st') \<Rightarrow> Some (Inr (RetPkg r p, st')))"
| "bal_exec (SendPkg h p) st = (case Bal_SendNetPackage h p st of (r, st') \<Rightarrow> Some (Inr (RetInt r, st')))"
| "bal_exec (AllocMem al h len) st = (case Bal_Alloc al h len st of (p, st') \<Rightarrow> Some (Inr (RetAddr p, st')))"
| "bal_exec (FreeMem fr h p) st = quiet (Inr (Bal_Free fr h p st))"
| "bal_exec (Serve e i) st = map_option (map_sum id (Pair NoRet)) (DealData e (m_itrs st ! i) st)"

fun wbal_exec :: "bal_op \<Rightarrow> wbalance \<Rightarrow> (xerror + (bal_ret \<times> wbalance)) option" where
  "wbal_exec (Append now rb sb nd ps h) st = quiet (WAppendNewClient now rb sb nd ps h st)"
| "wbal_exec (Remove h) st = quiet (Inr (WRemoveClient h st))"
| "wbal_exec (Kick h) st = quiet (Inr (WKickClient h st))"
| "wbal_exec (Data h buf len i prev node) st = quiet (WRecvClientData h buf len i prev node st)"
| "wbal_exec (Write h i buf len node nd) st = quiet (Inr (WActivateWrite h i buf len node nd st))"
| "wbal_exec (RecvPkg h) st = (case WBal_RecvNetPackage h st of (r, p, st') \<Rightarrow> Some (Inr (RetPkg r p, st')))"
| "wbal_exec (SendPkg h p) st = (case WBal_SendNetPackage h p st of (r, st') \<Rightarrow> Some (Inr (RetInt r, st')))"
| "wbal_exec (AllocMem al h len) st = (case WBal_Alloc al h len st of (p, st') \<Rightarrow> Some (Inr (RetAddr p, st')))"
| "wbal_exec (FreeMem fr h p) st = quiet (Inr (WBal_Free fr h p st))"
| "wbal_exec (Serve e i) st = map_option (map_sum id (Pair NoRet)) (WDealData e (wb_itrs st ! i) st)"

text \<open>A sequence of operations up to the first that does not return or throws: the values returned and the end.\<close>

fun exec_all :: "('o \<Rightarrow> 's \<Rightarrow> (xerror + ('r \<times> 's)) option) \<Rightarrow> 'o list \<Rightarrow> 's \<Rightarrow> 'r list \<times> (xerror + 's) option" where
  "exec_all f [] st = ([], Some (Inr st))"
| "exec_all f (x # xs) st =
     (case f x st of
        None \<Rightarrow> ([], None)
      | Some (Inl e) \<Rightarrow> ([], Some (Inl e))
      | Some (Inr (r, st')) \<Rightarrow> (case exec_all f xs st' of (rs, z) \<Rightarrow> (r # rs, z)))"

locale same_behaviour =
  fixes exec1 :: "'o \<Rightarrow> 's \<Rightarrow> (xerror + ('r \<times> 's)) option" and exec2 :: "'o \<Rightarrow> 't \<Rightarrow> (xerror + ('r \<times> 't)) option"
    and R :: "'s \<Rightarrow> 't \<Rightarrow> bool"
  assumes one: "R s t \<Longrightarrow> rel_option (rel_sum (=) (rel_prod (=) R)) (exec1 x s) (exec2 x t)"
begin

lemma all: "R s t \<Longrightarrow> rel_prod (=) (rel_option (rel_sum (=) R)) (exec_all exec1 xs s) (exec_all exec2 xs t)"
proof (induction xs arbitrary: s t)
  case (Cons x xs)
  from one [OF Cons.prems, of x] show ?case
  proof (cases rule: option.rel_cases)
    case (Some u v)
    consider e where "u = Inl e" "v = Inl e" | r s' t' where "u = Inr (r, s')" "v = Inr (r, t')" "R s' t'"
      using Some(3) by (cases u; cases v) auto
    then show ?thesis
    proof cases
      case 2
      obtain rs z rs' z' where z: "exec_all exec1 xs s' = (rs, z)" "exec_all exec2 xs t' = (rs', z')" by fastforce
      from Cons.IH [OF 2(3)] z Some 2 show ?thesis by simp
    qed (use Some in simp)
  qed simp
qed simp

end

definition same_clients :: "wbalance \<Rightarrow> balance \<Rightarrow> bool" where
  "same_clients w b \<longleftrightarrow> m_bStart b \<and> wb_clientInfos w = m_clientInfos b \<and> wb_itrs w = m_itrs b \<and> wb_pBase w = m_pBase b \<and>
     wb_log w = map Ev (bal_log b)"

lemma WakeAll_fields [simp]: "wb_clientInfos (WakeAll st) = wb_clientInfos st" "wb_itrs (WakeAll st) = wb_itrs st"
  "wb_pBase (WakeAll st) = wb_pBase st" "wb_log (WakeAll st) = wb_log st" "wb_th (WakeAll st) = wb_th st"
  by (simp_all add: WakeAll_def)

lemma post_sems_more [simp]: "m_pBase (post_sems st) = m_pBase st" "bal_log (post_sems st) = bal_log st"
  by (simp_all add: post_sems_def)

lemma WRemove_is_WKick: "WRemoveClient = WKickClient"
  by (simp add: fun_eq_iff WRemoveClient_def WKickClient_def)

lemma same_kick: "same_clients w b \<Longrightarrow> same_clients (WKickClient h w) (KickClient h b)"
  by (simp add: same_clients_def WKickClient_def KickClient_def Let_def WInitIterator_def InitIterator_def split: option.split)

lemma same_append:
  assumes "same_clients w b"
  shows "rel_sum (=) same_clients (WAppendNewClient now rb sb nd ps h w) (AppendNewClient now rb sb nd ps h b)"
  using assms by (simp add: same_clients_def WAppendNewClient_def AppendNewClient_def Let_def WInitIterator_def InitIterator_def
      split: option.split sum.split)

lemma same_quiet: "rel_sum (=) R u v \<Longrightarrow> rel_option (rel_sum (=) (rel_prod (=) R)) (quiet u) (quiet v)"
  by (cases u; cases v) (simp_all add: quiet_def)

lemma same_data:
  assumes "same_clients w b"
  shows "rel_sum (=) same_clients (WRecvClientData h buf len i prev node w) (RecvClientData h buf len i prev node b)"
  using assms by (simp add: same_clients_def WRecvClientData_def RecvClientData_def split: option.split sum.split)

lemma same_serve:
  assumes "same_clients w b"
  shows "rel_option (rel_sum (=) same_clients) (WDealData e r w) (DealData e r b)"
  using assms by (simp add: same_clients_def WDealData_def DealData_def Let_def split: option.split sum.split)

lemma same_exec:
  assumes "same_clients w b"
  shows "rel_option (rel_sum (=) (rel_prod (=) same_clients)) (wbal_exec x w) (bal_exec x b)"
proof (cases x)
  case (Append now rb sb nd ps h)
  then show ?thesis by (simp add: same_quiet same_append [OF assms])
next
  case (Remove h)
  then show ?thesis by (simp add: same_quiet WRemove_is_WKick RemoveClient_is_Kick same_kick [OF assms])
next
  case (Kick h)
  then show ?thesis by (simp add: same_quiet same_kick [OF assms])
next
  case (Data h buf len i prev node)
  then show ?thesis by (simp add: same_quiet same_data [OF assms])
next
  case (Write h i buf len node nd)
  with assms show ?thesis by (simp add: same_quiet same_clients_def WActivateWrite_def ActivateWrite_def)
next
  case (RecvPkg h)
  with assms show ?thesis
    by (simp add: same_clients_def WBal_RecvNetPackage_def Bal_RecvNetPackage_def split: option.split prod.split)
next
  case (SendPkg h p)
  with assms show ?thesis
    by (simp add: same_clients_def WBal_SendNetPackage_def Bal_SendNetPackage_def split: option.split prod.split)
next
  case (AllocMem al h len)
  with assms show ?thesis by (simp add: same_clients_def WBal_Alloc_def Bal_Alloc_def split: option.split prod.split)
next
  case (FreeMem fr h p)
  with assms show ?thesis by (simp add: same_quiet same_clients_def WBal_Free_def Bal_Free_def)
next
  case (Serve e i)
  have "rel_option (rel_sum (=) (rel_prod (=) R)) (map_option (map_sum id (Pair NoRet)) u) (map_option (map_sum id (Pair NoRet)) v)"
    if "rel_option (rel_sum (=) R) u v" for u :: "(xerror + 's) option" and v :: "(xerror + 't) option" and R
    using that same_quiet [of R] by (cases u; cases v) (simp_all add: quiet_def)
  moreover have "wb_itrs w = m_itrs b" using assms by (simp add: same_clients_def)
  ultimately show ?thesis using Serve same_serve [OF assms, of e "m_itrs b ! i"] by simp
qed

interpretation win_linux: same_behaviour wbal_exec bal_exec same_clients
  by unfold_locales (rule same_exec)

text \<open>
  Property C14: on Windows and on Linux a server keeps its clients alike. After \<open>Start\<close> every sequence of operations on the clients, with workers serving their
  ranges in between, returns the same values, throws the same exceptions, and leaves the same clients in the same ranges with the same calls of the session interface.
\<close>

theorem win_clients_like_linux:
  "rel_prod (=) (rel_option (rel_sum (=) same_clients))
     (exec_all wbal_exec ops (snd (WBal_Start base (WBalanceHandle_new ji jb))))
     (exec_all bal_exec ops (snd (Bal_Start base (BalanceHandle_new jw False jh now hid jc jf))))"
  by (rule win_linux.all)
    (simp add: same_clients_def WBal_Start_def Bal_Start_def WBalanceHandle_new_def BalanceHandle_new_def Let_def)

subsection \<open>Sleeping workers\<close>

text \<open>
  The steps of the server: operations on the clients, turns of its threads, \<open>Start\<close>, the beginning of \<open>Stop\<close>, the heartbeat routines, and a wake-up of a
  sleeping thread without a reason, which condition variables allow.
\<close>

inductive wbal_step :: "wbalance \<Rightarrow> wbalance \<Rightarrow> bool" where
  WStart: "wbal_step st (snd (WBal_Start base st))"
| WParam: "wbal_step st (snd (WBal_SetNetParam i st))"
| WOp: "wbal_exec x st = Some (Inr (r, st')) \<Longrightarrow> (\<And>e i. x \<noteq> Serve e i) \<Longrightarrow> wbal_step st st'"
| WTurn: "k < length (wb_threads st) \<Longrightarrow> WThreadProc e k st = Some (Inr st') \<Longrightarrow> wbal_step st st'"
| WSpurious: "k < length (wb_threads st) \<Longrightarrow> snd (wb_threads st ! k) = Sleeping \<Longrightarrow> wbal_step st (set_thread k Woken st)"
| WTimer: "wbal_step st (WTimerRoutine i now st)"
| WMonitor: "WHeartbitMonitor st = Some st' \<Longrightarrow> wbal_step st st'"
| WStopping: "WStop_begin hb st = Some st' \<Longrightarrow> wbal_step st st'"

inductive wbal_reach :: "wbalance \<Rightarrow> bool" where
  WNew: "wbal_reach (WBalanceHandle_new ji jb)"
| WStep: "wbal_reach st \<Longrightarrow> wbal_step st st' \<Longrightarrow> wbal_reach st'"

text \<open>The ranges cut the list of the clients, threads have a range, and only a thread without clients sleeps.\<close>

definition sleep_ok :: "wbalance \<Rightarrow> nat \<times> wthread \<Rightarrow> bool" where
  "sleep_ok st p \<longleftrightarrow> fst p < THREAD_COUNT \<and> (snd p = Sleeping \<longrightarrow> \<not> has_data st (fst p))"

definition wbal_inv :: "wbalance \<Rightarrow> bool" where
  "wbal_inv st \<longleftrightarrow> wb_itrs st = ranges THREAD_COUNT (length (wb_clientInfos st)) \<and> (\<forall>p \<in> set (wb_threads st). sleep_ok st p)"

lemma sleep_ok_cong: "wb_itrs st' = wb_itrs st \<Longrightarrow> sleep_ok st' p = sleep_ok st p"
  by (simp add: sleep_ok_def has_data_def)

lemma wbal_inv_cong:
  assumes "wbal_inv st" "wb_itrs st' = wb_itrs st" "length (wb_clientInfos st') = length (wb_clientInfos st)"
    and "\<And>p. p \<in> set (wb_threads st') \<Longrightarrow> p \<in> set (wb_threads st) \<or> sleep_ok st p"
  shows "wbal_inv st'"
proof -
  have "sleep_ok st' p" if "p \<in> set (wb_threads st')" for p
    using assms(1) assms(4) [OF that] sleep_ok_cong [OF assms(2)] by (auto simp: wbal_inv_def)
  with assms(1-3) show ?thesis by (simp add: wbal_inv_def)
qed

lemma WakeAll_inv:
  assumes "wb_itrs st = ranges THREAD_COUNT (length (wb_clientInfos st))" "\<forall>p \<in> set (wb_threads st). fst p < THREAD_COUNT"
  shows "wbal_inv (WakeAll st)"
  using assms by (auto simp: wbal_inv_def sleep_ok_def has_data_def WakeAll_def split: if_splits)

lemma threads_bound: "wbal_inv st \<Longrightarrow> \<forall>p \<in> set (wb_threads st). fst p < THREAD_COUNT"
  by (simp add: wbal_inv_def sleep_ok_def)

lemma WKick_inv:
  assumes "wbal_inv st"
  shows "wbal_inv (WKickClient h st)"
proof (cases "List.find (same_sock h) (wb_clientInfos st)")
  case None
  with assms show ?thesis
    by (intro wbal_inv_cong [OF assms]) (simp_all add: WKickClient_def Let_def)
next
  case (Some c)
  let ?s = "WInitIterator THREAD_COUNT (st\<lparr>wb_clientInfos := drop_client h (wb_clientInfos st),
     wb_log := (wb_log st @ [Ev (CloseSock (m_sock h))]) @ [Ev (DestroySession (c_hSock c))]\<rparr>)"
  have "wbal_inv (WakeAll ?s)" by (rule WakeAll_inv) (use threads_bound [OF assms] in \<open>simp_all add: WInitIterator_def\<close>)
  then show ?thesis by (rule wbal_inv_cong) (simp_all add: WKickClient_def Let_def Some)
qed

lemma WAppend_inv:
  assumes "wbal_inv st" "WAppendNewClient now rb sb nd ps h st = Inr st'"
  shows "wbal_inv st'"
proof -
  obtain ss0 ss' where ps: "ps = Some ss0" and q: "Session_PostRecv 0 None nd (SocketSession_Init 0 (wb_pBase st) now rb sb ss0) = Inr ss'"
    using assms(2) by (auto simp: WAppendNewClient_def Let_def split: option.splits sum.splits)
  let ?s = "WInitIterator THREAD_COUNT (st\<lparr>wb_clientInfos := wb_clientInfos st @ [\<lparr>c_hSock = h, c_sess = SocketSession_Init 0 (wb_pBase st) now rb sb ss0\<rparr>]\<rparr>)"
  have st': "st' = (WakeAll ?s)\<lparr>wb_log := wb_log st @ [Ev (ClientEnter h)], wb_clientInfos := wb_clientInfos st @ [\<lparr>c_hSock = h, c_sess = ss'\<rparr>]\<rparr>"
    using assms(2) ps q by (simp add: WAppendNewClient_def Let_def WInitIterator_def)
  have "wbal_inv (WakeAll ?s)" by (rule WakeAll_inv) (use threads_bound [OF assms(1)] in \<open>simp_all add: WInitIterator_def\<close>)
  then show ?thesis by (rule wbal_inv_cong) (simp_all add: st' WInitIterator_def)
qed

lemma exec_inv:
  assumes "wbal_inv st" "wbal_exec x st = Some (Inr (r, st'))" "\<And>e i. x \<noteq> Serve e i"
  shows "wbal_inv st'"
proof (cases x)
  case (Append now rb sb nd ps h)
  with assms(2) have "WAppendNewClient now rb sb nd ps h st = Inr st'"
    by (cases "WAppendNewClient now rb sb nd ps h st") (simp_all add: quiet_def)
  then show ?thesis by (rule WAppend_inv [OF assms(1)])
next
  case (Remove h)
  with assms show ?thesis by (auto simp: quiet_def WRemove_is_WKick WKick_inv)
next
  case (Kick h)
  with assms show ?thesis by (auto simp: quiet_def WKick_inv)
next
  case (Data h buf len i prev node)
  with assms(2) have "\<exists>cs. st' = st\<lparr>wb_clientInfos := cs\<rparr> \<and> length cs = length (wb_clientInfos st)"
    by (auto simp: quiet_def WRecvClientData_def intro: exI [of _ "wb_clientInfos st"] split: option.splits sum.splits)
  then show ?thesis by (elim exE conjE) (rule wbal_inv_cong [OF assms(1)], simp_all)
next
  case (RecvPkg h)
  with assms(2) show ?thesis
    by (intro wbal_inv_cong [OF assms(1)]) (auto simp: WBal_RecvNetPackage_def split: option.splits prod.splits)
next
  case (SendPkg h p)
  with assms(2) show ?thesis
    by (intro wbal_inv_cong [OF assms(1)]) (auto simp: WBal_SendNetPackage_def split: option.splits prod.splits)
next
  case (AllocMem al h len)
  with assms(2) show ?thesis
    by (intro wbal_inv_cong [OF assms(1)]) (auto simp: WBal_Alloc_def split: option.splits prod.splits)
qed (use assms in \<open>auto simp: quiet_def WActivateWrite_def WBal_Free_def intro!: wbal_inv_cong [OF assms(1)]\<close>)

lemma WDealData_keeps:
  assumes "WDealData e r st = Some (Inr st')" "fst r \<le> snd r"
  shows "\<exists>cs. st' = st\<lparr>wb_clientInfos := cs\<rparr> \<and> length cs = length (wb_clientInfos st)"
proof -
  let ?cs = "wb_clientInfos st"
  obtain cs' where c: "deal_clients e (drop (fst r) (take (snd r) ?cs)) = Some (Inr cs')"
    "st' = st\<lparr>wb_clientInfos := take (fst r) ?cs @ cs' @ drop (snd r) ?cs\<rparr>"
    using assms(1) by (auto simp: WDealData_def Let_def split: option.splits sum.splits)
  have "length cs' = length (drop (fst r) (take (snd r) ?cs))" using deal_clients_keeps [OF c(1)] by (metis length_map)
  with assms(2) have "length (take (fst r) ?cs @ cs' @ drop (snd r) ?cs) = length ?cs" by simp
  with c(2) show ?thesis by blast
qed

lemma init_loop_sorted: "it = i * pos \<Longrightarrow> pos * count \<le> n \<Longrightarrow> i + r = count \<Longrightarrow> p \<in> set (init_loop r i it count pos n) \<Longrightarrow> fst p \<le> snd p"
proof (induction r arbitrary: i it)
  case (Suc r)
  have m: "it \<le> n"
  proof -
    have "i * pos \<le> count * pos" using Suc.prems(3) by simp
    also have "\<dots> \<le> n" using Suc.prems(2) by (simp add: mult.commute)
    finally show ?thesis using Suc.prems(1) by simp
  qed
  consider "p = (if i = 0 then 0 else it, if count - 1 = i then n else it + pos)" | "p \<in> set (init_loop r (Suc i) (it + pos) count pos n)"
    using Suc.prems(4) by (auto simp: Let_def)
  then show ?case
  proof cases
    case 1
    with m show ?thesis by auto
  next
    case 2
    show ?thesis by (rule Suc.IH [OF _ Suc.prems(2) _ 2]) (use Suc.prems(1,3) in simp_all)
  qed
qed simp

lemma ranges_sorted: "p \<in> set (ranges count n) \<Longrightarrow> fst p \<le> snd p"
  unfolding ranges_def by (rule init_loop_sorted [of 0 0]) simp_all

lemma range_at:
  assumes "wbal_inv st" "k < length (wb_threads st)"
  shows "fst (wb_threads st ! k) < THREAD_COUNT" "fst (wb_itrs st ! fst (wb_threads st ! k)) \<le> snd (wb_itrs st ! fst (wb_threads st ! k))"
proof -
  show "fst (wb_threads st ! k) < THREAD_COUNT" using threads_bound [OF assms(1)] assms(2) by (meson nth_mem)
  moreover have "wb_itrs st = ranges THREAD_COUNT (length (wb_clientInfos st))" using assms(1) by (simp add: wbal_inv_def)
  ultimately show "fst (wb_itrs st ! fst (wb_threads st ! k)) \<le> snd (wb_itrs st ! fst (wb_threads st ! k))"
    by (intro ranges_sorted [of _ THREAD_COUNT "length (wb_clientInfos st)"]) (simp add: ranges_def ranges_length)
qed

lemma set_thread_inv:
  assumes "wbal_inv st" "k < length (wb_threads st)" "t = Sleeping \<longrightarrow> \<not> has_data st (fst (wb_threads st ! k))"
  shows "wbal_inv (set_thread k t st)"
proof (rule wbal_inv_cong [OF assms(1)])
  fix p assume "p \<in> set (wb_threads (set_thread k t st))"
  then have "p \<in> set (wb_threads st) \<or> p = (fst (wb_threads st ! k), t)"
    using set_update_subset_insert by (fastforce simp: set_thread_def)
  with assms(3) range_at(1) [OF assms(1,2)] show "p \<in> set (wb_threads st) \<or> sleep_ok st p" by (auto simp: sleep_ok_def)
qed (simp_all add: set_thread_def)

lemma serve_inv:
  assumes "wbal_inv st" "WDealData e r st = Some (Inr st')" "fst r \<le> snd r"
  shows "wbal_inv st'"
  using WDealData_keeps [OF assms(2,3)] by (elim exE conjE) (rule wbal_inv_cong [OF assms(1)], simp_all)

lemma turn_inv:
  assumes "wbal_inv st" "k < length (wb_threads st)" "WThreadProc e k st = Some (Inr st')"
  shows "wbal_inv st'"
proof -
  note r = range_at [OF assms(1,2)] and s = set_thread_inv [OF assms(1,2)]
  show ?thesis
  proof (cases "snd (wb_threads st ! k)")
    case Running
    show ?thesis
    proof (cases "wb_WorkorFlag st \<and> has_data st (fst (wb_threads st ! k))")
      case True
      then have "WDealData e (wb_itrs st ! fst (wb_threads st ! k)) st = Some (Inr st')"
        using Running assms(3) by (simp add: WThreadProc_def Wrun_begin_def Let_def has_data_def)
      then show ?thesis by (rule serve_inv [OF assms(1) _ r(2)])
    next
      case False
      then have "st' = set_thread k Ended st \<or> st' = set_thread k Sleeping st \<and> \<not> has_data st (fst (wb_threads st ! k))"
        using Running assms(3) by (auto simp: WThreadProc_def Wrun_begin_def Let_def has_data_def split: if_splits)
      with s show ?thesis by auto
    qed
  next
    case Woken
    then have "WDealData e (wb_itrs st ! fst (wb_threads st ! k)) (set_thread k Running st) = Some (Inr st')"
      using assms(3) by (simp add: WThreadProc_def Wrun_woken_def)
    with serve_inv [OF s _ r(2), of Running] show ?thesis by simp
  qed (use assms s in \<open>auto simp: WThreadProc_def split: if_splits\<close>)
qed

lemma wbal_step_inv:
  assumes "wbal_step st st'" "wbal_inv st"
  shows "wbal_inv st'"
  using assms
proof (cases rule: wbal_step.cases)
  case (WStart base)
  then show ?thesis by (intro wbal_inv_cong [OF assms(2)]) (auto simp: WBal_Start_def Let_def sleep_ok_def)
next
  case (WParam i)
  then have "st' = st \<or> st' = st\<lparr>wb_interface := True\<rparr>" by (auto simp: WBal_SetNetParam_def)
  moreover have "wbal_inv (st\<lparr>wb_interface := True\<rparr>)" by (rule wbal_inv_cong [OF assms(2)]) simp_all
  ultimately show ?thesis using assms(2) by auto
next
  case (WOp x r)
  show ?thesis by (rule exec_inv [OF assms(2) WOp])
next
  case (WTurn k e)
  show ?thesis by (rule turn_inv [OF assms(2) WTurn])
next
  case (WSpurious k)
  with assms(2) show ?thesis by (simp add: set_thread_inv)
next
  case (WTimer i now)
  then show ?thesis by (intro wbal_inv_cong [OF assms(2)]) (simp_all add: WTimerRoutine_def split: prod.splits)
next
  case WMonitor
  have "wbal_inv (fold WKickClient hs s)" if "wbal_inv s" for hs s
    using that by (induction hs arbitrary: s) (simp_all add: WKick_inv)
  from this [OF assms(2), of "wb_lostHeartbit st"]
  have "wbal_inv ((fold WKickClient (wb_lostHeartbit st) st)\<lparr>wb_lostHeartbit := []\<rparr>)" by (rule wbal_inv_cong) simp_all
  with WMonitor assms(2) show ?thesis by (auto simp: WHeartbitMonitor_def split: if_splits)
next
  case (WStopping hb)
  let ?s = "st\<lparr>wb_HeartBitFlag := False, wb_WorkorFlag := False\<rparr>"
  have "wbal_inv (WakeAll ?s)"
    by (rule WakeAll_inv) (use assms(2) threads_bound [OF assms(2)] in \<open>simp_all add: wbal_inv_def\<close>)
  with WStopping show ?thesis by (simp add: WStop_begin_def split: if_splits)
qed

lemma wbal_reach_inv: "wbal_reach st \<Longrightarrow> wbal_inv st"
proof (induction rule: wbal_reach.induct)
  case (WNew ji jb)
  show ?case by (simp add: wbal_inv_def WBalanceHandle_new_def THREAD_COUNT_def ranges_one)
qed (rule wbal_step_inv)

subsection \<open>Properties of the workers\<close>

lemma turn_keeps_sleeper:
  assumes "WThreadProc e k st = Some (Inr st')" "k < length (wb_threads st)" "j < length (wb_threads st)" "snd (wb_threads st ! j) = Sleeping"
  shows "wb_threads st' ! j = wb_threads st ! j \<and> length (wb_threads st') = length (wb_threads st) \<and> wb_th st' = wb_th st"
proof -
  have "wb_threads u = wb_threads v \<and> wb_th u = wb_th v" if "WDealData e r v = Some (Inr u)" for r u v
    using that by (auto simp: WDealData_def Let_def split: option.splits sum.splits)
  then have "(st' = st \<or> (\<exists>t. wb_threads st' = wb_threads (set_thread k t st) \<and> snd (wb_threads st ! k) \<noteq> Sleeping \<and> wb_th st' = wb_th st))
      \<or> wb_threads st' = wb_threads st \<and> wb_th st' = wb_th st"
    using assms(1) by (auto simp: WThreadProc_def Wrun_begin_def Wrun_woken_def Let_def set_thread_def split: wthread.splits if_splits)
  with assms(2-4) show ?thesis by (cases "k = j") (auto simp: set_thread_def)
qed

lemma turns_keep_sleeper:
  assumes "thread_turns ks st = Some (Inr st')" "j < length (wb_threads st)" "snd (wb_threads st ! j) = Sleeping"
  shows "wb_threads st' ! j = wb_threads st ! j \<and> length (wb_threads st') = length (wb_threads st) \<and> wb_th st' = wb_th st"
  using assms
proof (induction ks st rule: thread_turns.induct)
  case (2 e k ks st)
  show ?case
  proof (cases "k < length (wb_threads st)")
    case True
    with "2.prems"(1) obtain u where u: "WThreadProc e k st = Some (Inr u)" "thread_turns ks u = Some (Inr st')"
      by (auto split: option.splits sum.splits)
    note t = turn_keeps_sleeper [OF u(1) True "2.prems"(2,3)]
    have "wb_threads st' ! j = wb_threads u ! j \<and> length (wb_threads st') = length (wb_threads u) \<and> wb_th st' = wb_th u"
      using "2.IH"(1) [OF True u(1) refl u(2)] t "2.prems"(2,3) by simp
    with t show ?thesis by simp
  qed (use 2 in simp)
qed simp

text \<open>A server whose worker went to sleep before the first client came.\<close>

abbreviation napping :: wbalance where
  "napping \<equiv> \<lparr>wb_WorkorFlag = True, wb_HeartBitFlag = True, wb_bStart = True, wb_interface = True, wb_pBase = True, wb_clientInfos = [],
     wb_itrs = [(0, 0)], wb_lostHeartbit = [], wb_threads = [(0, Sleeping)], wb_th = [0], wb_log = []\<rparr>"

lemma napping_reach: "wbal_reach napping"
proof -
  let ?s = "snd (WBal_SetNetParam True (WBalanceHandle_new False False))" and ?e = idle_env
  let ?t = "napping\<lparr>wb_threads := [(0, Begun)]\<rparr>" and ?u = "napping\<lparr>wb_threads := [(0, Running)]\<rparr>"
  have "wbal_reach (snd (WBal_Start True ?s))"
    by (rule wbal_reach.WStep [OF wbal_reach.WStep [OF wbal_reach.WNew wbal_step.WParam] wbal_step.WStart])
  moreover have "snd (WBal_Start True ?s) = ?t"
    by (simp add: WBal_Start_def WBal_SetNetParam_def WBalanceHandle_new_def THREAD_COUNT_def Let_def)
  ultimately have t: "wbal_reach ?t" by simp
  have "WThreadProc ?e 0 ?t = Some (Inr ?u)" by (simp add: WThreadProc_def set_thread_def)
  then have u: "wbal_reach ?u" using wbal_reach.WStep [OF t wbal_step.WTurn [of 0 ?t ?e ?u]] by simp
  have "WThreadProc ?e 0 ?u = Some (Inr napping)" by (simp add: WThreadProc_def Wrun_begin_def set_thread_def)
  then show ?thesis using wbal_reach.WStep [OF u wbal_step.WTurn [of 0 ?u ?e napping]] by simp
qed

text \<open>
  Property C13: no wake-up is lost. In every reachable state, whatever the order in which clients come and go and the threads run, a worker that
  sleeps has no clients, the ranges cover the list of clients, and the next turn of a worker that runs or was woken deals with exactly the clients of its range.
\<close>

theorem no_worker_sleeps_on_clients:
  assumes "wbal_reach st"
  shows "concat (map (slice (wb_clientInfos st)) (wb_itrs st)) = wb_clientInfos st \<and>
    (\<forall>k < length (wb_threads st). let i = fst (wb_threads st ! k); r = wb_itrs st ! i in
       (snd (wb_threads st ! k) = Sleeping \<longrightarrow> slice (wb_clientInfos st) r = []) \<and>
       (wb_WorkorFlag st \<and> snd (wb_threads st ! k) = Running \<and> slice (wb_clientInfos st) r \<noteq> [] \<or> snd (wb_threads st ! k) = Woken \<longrightarrow>
          WThreadProc e k st = WDealData e r (set_thread k Running st)))"
proof -
  note inv = wbal_reach_inv [OF assms]
  have it: "wb_itrs st = ranges THREAD_COUNT (length (wb_clientInfos st))" using inv by (simp add: wbal_inv_def)
  have "slice (wb_clientInfos st) r = []" if "fst r = snd r" for r using that by (simp add: slice_def)
  moreover have "\<not> has_data st (fst (wb_threads st ! k))" if "k < length (wb_threads st)" "snd (wb_threads st ! k) = Sleeping" for k
    using inv that nth_mem [OF that(1)] by (auto simp: wbal_inv_def sleep_ok_def)
  moreover have "set_thread k Running st = st" if "snd (wb_threads st ! k) = Running" for k
    using that by (metis list_update_id prod.collapse set_thread_def wbalance.surjective wbalance.update_convs(9))
  moreover have "concat (map (slice (wb_clientInfos st)) (wb_itrs st)) = wb_clientInfos st"
    unfolding it by (rule ranges_cover) (simp add: THREAD_COUNT_def)
  ultimately show ?thesis by (auto simp: Let_def WThreadProc_def Wrun_begin_def Wrun_woken_def has_data_def)
qed

theorem no_worker_sleeps_on_clients_witness:
  "snd (wb_threads napping ! 0) = Sleeping \<and> slice (wb_clientInfos napping) (wb_itrs napping ! fst (wb_threads napping ! 0)) = []"
  using no_worker_sleeps_on_clients [OF napping_reach] by (simp add: Let_def)

text \<open>
  Observation: \<open>Stop\<close> does not return while a worker sleeps. It wakes just the workers that have clients, and of these none sleeps: its wake-ups change nothing.
  Whatever turns the threads take, a worker of \<open>m_th\<close> that slept still sleeps, and the wait for the threads goes on; only a wake-up without a reason
  or a new client would end it.
\<close>

theorem Stop_wakes_nobody:
  assumes "wbal_reach st" "WStop_begin True st = Some st1"
  shows "wb_threads st1 = wb_threads st \<and>
    ((\<exists>k \<in> set (wb_th st). k < length (wb_threads st) \<and> snd (wb_threads st ! k) = Sleeping) \<longrightarrow>
      (\<forall>ks st2. WBal_Stop True ks st \<noteq> Some (Inr st2)))"
proof -
  note inv = wbal_reach_inv [OF assms(1)]
  have st1: "st1 = WakeAll (st\<lparr>wb_HeartBitFlag := False, wb_WorkorFlag := False\<rparr>)" using assms(2) by (simp add: WStop_begin_def)
  have th: "wb_threads st1 = wb_threads st"
    using inv by (auto simp: st1 WakeAll_def wbal_inv_def sleep_ok_def has_data_def intro!: map_idI)
  have "WStop_end st2 = None"
    if k: "k \<in> set (wb_th st)" "k < length (wb_threads st)" "snd (wb_threads st ! k) = Sleeping" and t: "thread_turns ks st1 = Some (Inr st2)" for k ks st2
  proof -
    have "wb_threads st2 ! k = wb_threads st ! k" "wb_th st2 = wb_th st"
      using turns_keep_sleeper [OF t, of k] k(2,3) th by (simp_all add: st1)
    then have "k \<in> set (wb_th st2)" "snd (wb_threads st2 ! k) \<noteq> Ended" using k(1,3) by simp_all
    then show ?thesis by (auto simp: WStop_end_def list_all_iff)
  qed
  with th assms(2) show ?thesis by (fastforce simp: WBal_Stop_def split: option.splits sum.splits)
qed

theorem Stop_wakes_nobody_witness:
  "(\<exists>st1. WStop_begin True napping = Some st1) \<and> (\<forall>ks st2. WBal_Stop True ks napping \<noteq> Some (Inr st2))"
proof -
  obtain st1 where s: "WStop_begin True napping = Some st1" by (simp add: WStop_begin_def)
  have "\<exists>k \<in> set (wb_th napping). k < length (wb_threads napping) \<and> snd (wb_threads napping ! k) = Sleeping" by simp
  with Stop_wakes_nobody [OF napping_reach s] s show ?thesis by blast
qed

end
