(* ===== verification/WinNet.thy ===== *)
theory WinNet
  imports WinBalance TcpNet
begin

text \<open>
  The TCP server and client on Windows (\<open>Net/TcpServerImpl_Win32.cpp\<close>, \<open>Net/TcpClientImpl_Win32.cpp\<close>), their requests (\<open>Net/PerIOData.cpp\<close>) and the
  pool of requests (\<open>Net/PostNodeMgr_Win32.cpp\<close>). Completion packets are arguments of the turns of the worker threads; the functions of the socket library
  are a parameter whose state is part of the server and the client. Request objects are kept by address, \<open>None\<close> being a deleted one.
\<close>

subsection \<open>Requests\<close>

datatype iotype = ACCEPT_POSTED | RECV_POSTED | SEND_POSTED | CONNECT_POSTED | NULL_POSTED

record periodata =
  pd_acceptsocket :: int
  pd_operationtype :: iotype
  pd_nIndex :: int
  pd_nUseFlag :: int
  pd_nMemFlag :: int
  pd_prev :: "nat option"
  pd_buf :: addr
  pd_len :: nat

definition BUFFERSIZE :: nat where
  "BUFFERSIZE = 1024"

text \<open>A bit field of eight bits of a signed integer.\<close>

definition bits8 :: "int \<Rightarrow> int" where
  "bits8 x = (x + 128) mod 256 - 128"

definition PerIOData_new :: periodata where
  "PerIOData_new = \<lparr>pd_acceptsocket = - 1, pd_operationtype = NULL_POSTED, pd_nIndex = - 1, pd_nUseFlag = - 1, pd_nMemFlag = 0, pd_prev = None,
     pd_buf = 0, pd_len = 0\<rparr>"

text \<open>The other constructor, with the new buffer and the uninitialised \<open>m_pPrevIOData\<close> as arguments.\<close>

definition PerIOData_of :: "int \<Rightarrow> addr \<Rightarrow> nat option \<Rightarrow> periodata" where
  "PerIOData_of nflag buf jp =
     (let d = PerIOData_new\<lparr>pd_nMemFlag := bits8 nflag, pd_prev := jp\<rparr>
      in if bits8 nflag \<noteq> 0 then d\<lparr>pd_buf := buf, pd_len := BUFFERSIZE\<rparr> else d)"

text \<open>The destructor, with the buffer it frees.\<close>

definition PerIOData_destroy :: "periodata \<Rightarrow> addr option \<times> periodata" where
  "PerIOData_destroy d =
     (if pd_nMemFlag d \<noteq> 0 \<and> pd_buf d \<noteq> 0 then (Some (pd_buf d), d\<lparr>pd_buf := 0, pd_nMemFlag := 0\<rparr>) else (None, d))"

definition PerIOData_Reset :: "periodata \<Rightarrow> periodata" where
  "PerIOData_Reset d = d\<lparr>pd_nIndex := - 1, pd_nUseFlag := - 1\<rparr>"

definition SetUse :: "int \<Rightarrow> periodata \<Rightarrow> periodata" where
  "SetUse b d = d\<lparr>pd_nUseFlag := bits8 b\<rparr>"

record wpostmgr =
  wp_pool :: objpool
  wp_nodes :: "addr \<Rightarrow> periodata"

definition WPostNodeMgr_new :: "initobj \<Rightarrow> wpostmgr" where
  "WPostNodeMgr_new io = \<lparr>wp_pool = snd (ObjPool_Init io 100 ObjPool_new), wp_nodes = (\<lambda>_. PerIOData_new)\<rparr>"

definition WApplyPostNode :: "initobj \<Rightarrow> wpostmgr \<Rightarrow> xerror + (addr \<times> wpostmgr)" where
  "WApplyPostNode io m =
     (case ObjPool_Alloc io 1 (wp_pool m) of
        Inl e \<Rightarrow> Inl e
      | Inr (p, pool1) \<Rightarrow>
          (let nodes = (if p \<noteq> 0 then (wp_nodes m)(p := PerIOData_Reset (wp_nodes m p)) else wp_nodes m)
           in case ObjPool_Alloc io 1 pool1 of
                Inl e \<Rightarrow> Inl e
              | Inr (q, pool2) \<Rightarrow> Inr (q, m\<lparr>wp_pool := pool2, wp_nodes := nodes\<rparr>)))"

definition WReleaseNode :: "addr \<Rightarrow> wpostmgr \<Rightarrow> xerror + wpostmgr" where
  "WReleaseNode p m =
     (let nodes = (if p \<noteq> 0 then (wp_nodes m)(p := snd (PerIOData_destroy (wp_nodes m p))) else wp_nodes m)
      in case ObjPool_Free p 1 (wp_pool m) of Inl e \<Rightarrow> Inl e | Inr pool \<Rightarrow> Inr (m\<lparr>wp_pool := pool, wp_nodes := nodes\<rparr>))"

subsection \<open>The socket library\<close>

text \<open>
  Sockets and handles are numbers, \<open>-1\<close> is \<open>INVALID_SOCKET\<close>. \<open>wk_AcceptEx\<close>, \<open>wk_ConnectEx\<close>, \<open>wk_WSARecv\<close> and \<open>wk_WSASend\<close> tell whether the request
  succeeded or is pending; \<open>wk_SockAddrs\<close> reads the remote address and port from the buffer of a completed accept; \<open>wk_new\<close> is the memory of a new
  request object and of its buffer.
\<close>

record 'k wkernel =
  wk_Startup :: "'k \<Rightarrow> bool \<times> 'k"
  wk_CreatePort :: "'k \<Rightarrow> bool \<times> 'k"
  wk_Associate :: "int \<Rightarrow> 'k \<Rightarrow> bool \<times> 'k"
  wk_WSASocket :: "'k \<Rightarrow> int \<times> 'k"
  wk_ReuseAddr :: "int \<Rightarrow> 'k \<Rightarrow> bool \<times> 'k"
  wk_bind :: "int \<Rightarrow> int \<Rightarrow> 'k \<Rightarrow> bool \<times> 'k"
  wk_listen :: "int \<Rightarrow> nat \<Rightarrow> 'k \<Rightarrow> bool \<times> 'k"
  wk_Ioctl :: "int \<Rightarrow> 'k \<Rightarrow> bool \<times> 'k"
  wk_AcceptEx :: "int \<Rightarrow> int \<Rightarrow> addr \<Rightarrow> addr \<Rightarrow> 'k \<Rightarrow> bool \<times> 'k"
  wk_SockAddrs :: "addr \<Rightarrow> 'k \<Rightarrow> string \<times> int"
  wk_ConnectEx :: "int \<Rightarrow> string \<Rightarrow> int \<Rightarrow> addr \<Rightarrow> 'k \<Rightarrow> bool \<times> 'k"
  wk_WSARecv :: "int \<Rightarrow> addr \<Rightarrow> nat \<Rightarrow> addr \<Rightarrow> 'k \<Rightarrow> bool \<times> 'k"
  wk_WSASend :: "int \<Rightarrow> addr \<Rightarrow> nat \<Rightarrow> addr \<Rightarrow> 'k \<Rightarrow> bool \<times> 'k"
  wk_Timer :: "'k \<Rightarrow> bool \<times> 'k"
  wk_new :: "'k \<Rightarrow> (addr \<times> addr) \<times> 'k"
  wk_processors :: nat

text \<open>What \<open>GetQueuedCompletionStatus\<close> delivers, with the error number of a failure.\<close>

record completion =
  cp_ok :: bool
  cp_error :: int
  cp_bytes :: nat
  cp_key :: int
  cp_overlapped :: addr

definition exit_packet :: nat where
  "exit_packet = 2 ^ 32 - 1"

subsection \<open>Server\<close>

definition MAX_POST_ACCEPT :: nat where
  "MAX_POST_ACCEPT = 10"

definition BACKLOG :: nat where
  "BACKLOG = 200"

record 'k wserver =
  ws_bStart :: bool
  ws_WorkerCount :: nat
  ws_port :: int
  ws_completeport :: bool
  ws_AsyncReqs :: "addr list"
  ws_listenSocket :: int
  ws_thiocp :: "bool list"
  ws_interface :: bool
  ws_Manager :: wbalance
  ws_ios :: "addr \<Rightarrow> periodata option"
  ws_closed :: "int list"
  ws_posted :: nat
  ws_k :: 'k

text \<open>The constructor; \<open>m_listenSocket\<close>, \<open>m_interface\<close> and \<open>m_thiocp\<close> are not initialised.\<close>

definition WTcpServerImpl_new :: "'k wkernel \<Rightarrow> int \<Rightarrow> bool \<Rightarrow> bool list \<Rightarrow> wbalance \<Rightarrow> 'k \<Rightarrow> xerror + 'k wserver" where
  "WTcpServerImpl_new K jl ji jt mgr k =
     (case wk_Startup K k of
        (ok, k') \<Rightarrow>
          if \<not> ok then Inl (Throw ''assert(0)'')
          else Inr \<lparr>ws_bStart = False, ws_WorkerCount = 0, ws_port = 0, ws_completeport = False, ws_AsyncReqs = [], ws_listenSocket = jl,
                    ws_thiocp = jt, ws_interface = ji, ws_Manager = mgr, ws_ios = (\<lambda>_. None), ws_closed = [], ws_posted = 0, ws_k = k'\<rparr>)"

definition WServer_SetNetParam :: "bool \<Rightarrow> 'k wserver \<Rightarrow> bool \<times> 'k wserver" where
  "WServer_SetNetParam i st =
     (if \<not> i then (False, st) else (True, st\<lparr>ws_interface := True, ws_Manager := snd (WBal_SetNetParam True (ws_Manager st))\<rparr>))"

definition closesocket :: "int \<Rightarrow> 'k wserver \<Rightarrow> 'k wserver" where
  "closesocket s st = st\<lparr>ws_closed := ws_closed st @ [s]\<rparr>"

definition InitializeIOCP :: "'k wkernel \<Rightarrow> 'k wserver \<Rightarrow> bool \<times> 'k wserver" where
  "InitializeIOCP K st =
     (case wk_CreatePort K (ws_k st) of
        (ok, k) \<Rightarrow>
          let st1 = st\<lparr>ws_completeport := ok, ws_k := k\<rparr>
          in if \<not> ok then (False, st1)
             else (True, st1\<lparr>ws_WorkerCount := wk_processors K, ws_thiocp := replicate (wk_processors K) True\<rparr>))"

definition DeInitializeIOCP :: "'k wserver \<Rightarrow> 'k wserver" where
  "DeInitializeIOCP st = st\<lparr>ws_completeport := False\<rparr>"

definition InitializeSocket :: "'k wkernel \<Rightarrow> int \<Rightarrow> 'k wserver \<Rightarrow> bool \<times> 'k wserver" where
  "InitializeSocket K port st =
     (case wk_WSASocket K (ws_k st) of
        (s, k1) \<Rightarrow>
          let st1 = st\<lparr>ws_listenSocket := s, ws_k := k1\<rparr>
          in if s = - 1 then (False, st1)
             else case wk_Associate K s (ws_k st1) of
               (False, k2) \<Rightarrow> (False, st1\<lparr>ws_k := k2\<rparr>)
             | (True, k2) \<Rightarrow>
                 (case wk_ReuseAddr K s k2 of
                    (False, k3) \<Rightarrow> (False, closesocket s (st1\<lparr>ws_k := k3\<rparr>))
                  | (True, k3) \<Rightarrow>
                      (case wk_bind K s port k3 of
                         (False, k4) \<Rightarrow> (False, closesocket s (st1\<lparr>ws_k := k4\<rparr>))
                       | (True, k4) \<Rightarrow>
                           (case wk_listen K s BACKLOG k4 of
                              (False, k5) \<Rightarrow> (False, closesocket s (st1\<lparr>ws_k := k5\<rparr>))
                            | (True, k5) \<Rightarrow> (True, st1\<lparr>ws_k := k5\<rparr>)))))"

definition DeInitializeSocket :: "'k wserver \<Rightarrow> 'k wserver" where
  "DeInitializeSocket st = closesocket (ws_listenSocket st) st"

definition GetAcceptExFuction :: "'k wkernel \<Rightarrow> 'k wserver \<Rightarrow> bool \<times> 'k wserver" where
  "GetAcceptExFuction K st =
     (if ws_listenSocket st = - 1 then (False, st)
      else case wk_Ioctl K (ws_listenSocket st) (ws_k st) of
        (False, k1) \<Rightarrow> (False, st\<lparr>ws_k := k1\<rparr>)
      | (True, k1) \<Rightarrow> (case wk_Ioctl K (ws_listenSocket st) k1 of (ok, k2) \<Rightarrow> (ok, st\<lparr>ws_k := k2\<rparr>)))"

definition GetNewIOData :: "'k wkernel \<Rightarrow> nat option \<Rightarrow> 'k wserver \<Rightarrow> addr \<times> 'k wserver" where
  "GetNewIOData K jp st =
     (case wk_new K (ws_k st) of
        ((a, buf), k) \<Rightarrow>
          (a, st\<lparr>ws_ios := (ws_ios st)(a := Some (PerIOData_of 1 buf jp)), ws_AsyncReqs := ws_AsyncReqs st @ [a], ws_k := k\<rparr>))"

definition RemoveIOData :: "addr \<Rightarrow> 'k wserver \<Rightarrow> 'k wserver" where
  "RemoveIOData a st =
     (if a \<in> set (ws_AsyncReqs st) then st\<lparr>ws_ios := (ws_ios st)(a := None), ws_AsyncReqs := remove1 a (ws_AsyncReqs st)\<rparr> else st)"

definition PostAcceptEx :: "'k wkernel \<Rightarrow> addr \<Rightarrow> 'k wserver \<Rightarrow> xerror + 'k wserver" where
  "PostAcceptEx K a st =
     (if a = 0 then Inr st
      else case ws_ios st a of
        None \<Rightarrow> Inl Undefined
      | Some d \<Rightarrow>
          (case wk_WSASocket K (ws_k st) of
             (s, k1) \<Rightarrow>
               let d1 = d\<lparr>pd_acceptsocket := s\<rparr>
               in if s = - 1 then Inr (st\<lparr>ws_ios := (ws_ios st)(a := Some d1), ws_k := k1\<rparr>)
                  else
                    let d2 = (PerIOData_Reset d1)\<lparr>pd_operationtype := ACCEPT_POSTED\<rparr>
                    in case wk_AcceptEx K (ws_listenSocket st) s (pd_buf d2) a k1 of
                         (ok, k2) \<Rightarrow>
                           let st2 = st\<lparr>ws_ios := (ws_ios st)(a := Some d2), ws_k := k2\<rparr>
                           in if ok then Inr st2
                              else Inr (RemoveIOData a ((closesocket s st2)\<lparr>ws_ios := (ws_ios st)(a := Some (d2\<lparr>pd_acceptsocket := - 1\<rparr>))\<rparr>))))"

definition DoAcceptEx :: "'k wkernel \<Rightarrow> addr \<Rightarrow> 'k wserver \<Rightarrow> xerror + ((bool \<times> string \<times> int) \<times> 'k wserver)" where
  "DoAcceptEx K a st =
     (case ws_ios st a of
        None \<Rightarrow> Inl Undefined
      | Some d \<Rightarrow>
          (let (ip, port) = wk_SockAddrs K (pd_buf d) (ws_k st)
           in case wk_Associate K (pd_acceptsocket d) (ws_k st) of (ok, k) \<Rightarrow> Inr ((ok, ip, port), st\<lparr>ws_k := k\<rparr>)))"

fun post_accepts :: "'k wkernel \<Rightarrow> nat option \<Rightarrow> nat \<Rightarrow> 'k wserver \<Rightarrow> xerror + 'k wserver" where
  "post_accepts K jp 0 st = Inr st"
| "post_accepts K jp (Suc n) st =
     (let (a, st1) = GetNewIOData K jp st
      in case PostAcceptEx K a st1 of Inl e \<Rightarrow> Inl e | Inr st2 \<Rightarrow> post_accepts K jp n st2)"

definition WServer_Start :: "'k wkernel \<Rightarrow> nat option \<Rightarrow> int \<Rightarrow> 'k wserver \<Rightarrow> xerror + (bool \<times> 'k wserver)" where
  "WServer_Start K jp port st =
     (if \<not> ws_interface st then Inr (False, st)
      else
        case InitializeIOCP K (st\<lparr>ws_Manager := snd (WBal_Start True (ws_Manager st)), ws_port := port\<rparr>) of
          (False, st1) \<Rightarrow> Inr (False, DeInitializeIOCP st1)
        | (True, st1) \<Rightarrow>
            (case InitializeSocket K port st1 of
               (False, st2) \<Rightarrow> Inr (False, DeInitializeSocket st2)
             | (True, st2) \<Rightarrow>
                 (case GetAcceptExFuction K st2 of
                    (False, st3) \<Rightarrow> Inr (False, st3)
                  | (True, st3) \<Rightarrow>
                      (case post_accepts K jp MAX_POST_ACCEPT st3 of
                         Inl e \<Rightarrow> Inl e
                       | Inr st4 \<Rightarrow> Inr (True, st4\<lparr>ws_bStart := True\<rparr>)))))"

text \<open>
  The wait of \<open>Stop\<close> for its worker threads: the answers of \<open>WaitForSingleObject\<close> in order; every answer that is not the end of the thread posts another
  packet. The result is the number of these packets.
\<close>

fun wait_workers :: "bool list \<Rightarrow> bool list \<Rightarrow> nat option" where
  "wait_workers rs [] = Some 0"
| "wait_workers rs (False # hs) = wait_workers rs hs"
| "wait_workers [] (True # hs) = None"
| "wait_workers (True # rs) (True # hs) = wait_workers rs hs"
| "wait_workers (False # rs) (True # hs) = map_option Suc (wait_workers rs (True # hs))"

text \<open>\<open>Stop\<close> with the answers \<open>rs\<close>, the handle that is waited for in \<open>BalanceHandle::Stop\<close>, and the turns of its threads while it waits for them.\<close>

definition WServer_Stop :: "bool list \<Rightarrow> bool \<Rightarrow> (work_env \<times> nat) list \<Rightarrow> 'k wserver \<Rightarrow> (xerror + 'k wserver) option" where
  "WServer_Stop rs hb ks st =
     (case wait_workers rs (take (ws_WorkerCount st) (ws_thiocp st)) of
        None \<Rightarrow> None
      | Some n \<Rightarrow>
          (case WBal_Stop hb ks (ws_Manager st) of
             None \<Rightarrow> None
           | Some (Inl e) \<Rightarrow> Some (Inl e)
           | Some (Inr m) \<Rightarrow>
               Some (Inr ((closesocket (ws_listenSocket st) st)\<lparr>ws_posted := ws_posted st + ws_WorkerCount st + n,
                 ws_thiocp := map (\<lambda>_. False) (take (ws_WorkerCount st) (ws_thiocp st)), ws_Manager := m,
                 ws_completeport := False, ws_bStart := False\<rparr>))))"

text \<open>The destructor.\<close>

definition WServer_destroy :: "bool list \<Rightarrow> bool \<Rightarrow> (work_env \<times> nat) list \<Rightarrow> 'k wserver \<Rightarrow> (xerror + 'k wserver) option" where
  "WServer_destroy rs hb ks st =
     map_option (map_sum id (\<lambda>u. u\<lparr>ws_ios := (\<lambda>a. if a \<in> set (ws_AsyncReqs u) then None else ws_ios u a), ws_AsyncReqs := []\<rparr>))
       (if ws_bStart st then WServer_Stop rs hb ks st else Some (Inr st))"

text \<open>
  One turn of \<open>WorkerThread\<close> with a completion packet; the result tells whether the thread goes on. \<open>e\<close> has the arguments of \<open>AppendNewClient\<close>.
\<close>

definition key_sock :: "int \<Rightarrow> int \<Rightarrow> SockHandle" where
  "key_sock port s = \<lparr>m_sock = s, m_ip = [], m_conntype = 0, m_port = port\<rparr>"

definition worker_accept :: "'k wkernel \<Rightarrow> enter_env \<Rightarrow> addr \<Rightarrow> 'k wserver \<Rightarrow> xerror + 'k wserver" where
  "worker_accept K e a st =
     (case PostAcceptEx K a st of
        Inl x \<Rightarrow> Inl x
      | Inr st1 \<Rightarrow>
          (case DoAcceptEx K a st1 of
             Inl x \<Rightarrow> Inl x
           | Inr ((ok, ip, port), st2) \<Rightarrow>
               if \<not> ok then Inr st2
               else case ws_ios st2 a of
                 None \<Rightarrow> Inl Undefined
               | Some d \<Rightarrow>
                   (case WAppendNewClient (ee_now e) (ee_rbase e) (ee_sbase e) (ee_node e) (ee_session e)
                           \<lparr>m_sock = pd_acceptsocket d, m_ip = ip, m_conntype = 0, m_port = port\<rparr> (ws_Manager st2) of
                      Inl x \<Rightarrow> Inl x
                    | Inr m \<Rightarrow> Inr (st2\<lparr>ws_Manager := m\<rparr>))))"

definition WorkerThread :: "'k wkernel \<Rightarrow> enter_env \<Rightarrow> completion \<Rightarrow> 'k wserver \<Rightarrow> xerror + (bool \<times> 'k wserver)" where
  "WorkerThread K e c st =
     (let h = key_sock (ws_port st) (cp_key c); a = cp_overlapped c
      in if \<not> cp_ok c then
           Inr (True, if cp_error c = 64 \<and> ws_listenSocket st \<noteq> cp_key c then st\<lparr>ws_Manager := WRemoveClient h (ws_Manager st)\<rparr> else st)
         else if cp_bytes c = exit_packet then Inr (False, st)
         else if a = 0 then Inr (True, st)
         else case ws_ios st a of
           None \<Rightarrow> Inl Undefined
         | Some d \<Rightarrow>
             if cp_bytes c = 0 \<and> (pd_operationtype d = RECV_POSTED \<or> pd_operationtype d = SEND_POSTED)
             then Inr (True, st\<lparr>ws_Manager := WRemoveClient h (ws_Manager st)\<rparr>)
             else
               let st1 = st\<lparr>ws_ios := (ws_ios st)(a := Some (SetUse 0 d))\<rparr>
               in case pd_operationtype d of
                    ACCEPT_POSTED \<Rightarrow> map_sum id (Pair True) (worker_accept K e a st1)
                  | RECV_POSTED \<Rightarrow>
                      (case WRecvClientData h (pd_buf d) (cp_bytes c) (pd_nIndex d) (pd_prev d) a (ws_Manager st1) of
                         Inl x \<Rightarrow> Inl x
                       | Inr m \<Rightarrow> Inr (True, st1\<lparr>ws_Manager := m\<rparr>))
                  | SEND_POSTED \<Rightarrow>
                      Inr (True, st1\<lparr>ws_Manager := WActivateWrite h (nat (pd_nIndex d mod 2 ^ 64)) (pd_buf d) (cp_bytes c) a (ee_node e) (ws_Manager st1)\<rparr>)
                  | _ \<Rightarrow> Inr (True, st1))"

text \<open>The requests of a session. The node is a pointer; a null pointer is refused.\<close>

definition recv_req :: "addr \<Rightarrow> nat \<Rightarrow> int \<Rightarrow> nat option \<Rightarrow> periodata \<Rightarrow> periodata" where
  "recv_req pBuf len nIndex pExtend d =
     (SetUse 1 (d\<lparr>pd_prev := pExtend\<rparr>))\<lparr>pd_buf := pBuf, pd_len := len, pd_nIndex := bits8 nIndex, pd_operationtype := RECV_POSTED\<rparr>"

definition send_req :: "addr \<Rightarrow> nat \<Rightarrow> int \<Rightarrow> periodata \<Rightarrow> periodata" where
  "send_req pBuf len nIndex d =
     (SetUse 1 d)\<lparr>pd_buf := pBuf, pd_len := len, pd_nIndex := bits8 nIndex, pd_operationtype := SEND_POSTED\<rparr>"

definition WServer_PostRecvReq ::
    "'k wkernel \<Rightarrow> int \<Rightarrow> addr \<Rightarrow> nat \<Rightarrow> int \<Rightarrow> nat option \<Rightarrow> addr \<Rightarrow> 'k wserver \<Rightarrow> xerror + (bool \<times> 'k wserver)" where
  "WServer_PostRecvReq K fd pBuf len nIndex pExtend node st =
     (if node = 0 then Inr (False, st)
      else case ws_ios st node of
        None \<Rightarrow> Inl Undefined
      | Some d \<Rightarrow>
          (let d1 = recv_req pBuf len nIndex pExtend d
           in case wk_WSARecv K fd pBuf len node (ws_k st) of
                (ok, k) \<Rightarrow> Inr (ok, st\<lparr>ws_ios := (ws_ios st)(node := Some (if ok then d1 else SetUse 0 d1)), ws_k := k\<rparr>)))"

definition WServer_PostSendReq :: "'k wkernel \<Rightarrow> int \<Rightarrow> addr \<Rightarrow> nat \<Rightarrow> int \<Rightarrow> addr \<Rightarrow> 'k wserver \<Rightarrow> xerror + (bool \<times> 'k wserver)" where
  "WServer_PostSendReq K fd pBuf len nIndex node st =
     (if node = 0 then Inr (False, st)
      else case ws_ios st node of
        None \<Rightarrow> Inl Undefined
      | Some d \<Rightarrow>
          (let d1 = send_req pBuf len nIndex d
           in case wk_WSASend K fd pBuf len node (ws_k st) of
                (ok, k) \<Rightarrow> Inr (ok, st\<lparr>ws_ios := (ws_ios st)(node := Some (if ok then d1 else SetUse 0 d1)), ws_k := k\<rparr>)))"

definition WServer_Close :: "int \<Rightarrow> 'k wserver \<Rightarrow> 'k wserver" where
  "WServer_Close fd st = closesocket fd st"

definition WServer_RecvNetPackage :: "SockHandle \<Rightarrow> 'k wserver \<Rightarrow> int \<times> NetPackage option \<times> 'k wserver" where
  "WServer_RecvNetPackage h st = (case WBal_RecvNetPackage h (ws_Manager st) of (r, p, b) \<Rightarrow> (r, p, st\<lparr>ws_Manager := b\<rparr>))"

definition WServer_SendNetPackage :: "SockHandle \<Rightarrow> NetPackage \<Rightarrow> 'k wserver \<Rightarrow> int \<times> 'k wserver" where
  "WServer_SendNetPackage h p st = (case WBal_SendNetPackage h p (ws_Manager st) of (r, b) \<Rightarrow> (r, st\<lparr>ws_Manager := b\<rparr>))"

definition WServer_KickClient :: "SockHandle \<Rightarrow> 'k wserver \<Rightarrow> 'k wserver" where
  "WServer_KickClient h st = st\<lparr>ws_Manager := WKickClient h (ws_Manager st)\<rparr>"

definition WServer_RecycleMem :: "(session \<Rightarrow> addr \<Rightarrow> session) \<Rightarrow> SockHandle \<Rightarrow> addr \<Rightarrow> 'k wserver \<Rightarrow> 'k wserver" where
  "WServer_RecycleMem fr h pData st = (if pData \<noteq> 0 then st\<lparr>ws_Manager := WBal_Free fr h pData (ws_Manager st)\<rparr> else st)"

definition WServer_AllocPackage ::
    "(session \<Rightarrow> nat \<Rightarrow> addr \<times> session) \<Rightarrow> bmem \<Rightarrow> nat \<Rightarrow> nat \<Rightarrow> SockHandle \<Rightarrow> nat \<Rightarrow> 'k wserver \<Rightarrow> NetPackage \<times> 'k wserver" where
  "WServer_AllocPackage al mem ts junk h len st =
     (case WBal_Alloc al h len (ws_Manager st) of (p, b) \<Rightarrow> (package_at mem ts junk p len, st\<lparr>ws_Manager := b\<rparr>))"

subsection \<open>Client\<close>

record 'k wclient =
  wc_flag :: bool
  wc_bStart :: bool
  wc_hIocp :: bool
  wc_socket :: int
  wc_client :: "session option"
  wc_hSock :: "SockHandle option"
  wc_th :: "bool \<times> bool"
  wc_timer :: bool
  wc_ios :: "addr \<Rightarrow> periodata option"
  wc_closed :: "int list"
  wc_posted :: nat
  wc_k :: 'k

text \<open>The constructor; socket and thread handles are not initialised.\<close>

definition WTcpClientImpl_new :: "'k wkernel \<Rightarrow> int \<Rightarrow> bool \<times> bool \<Rightarrow> 'k \<Rightarrow> xerror + 'k wclient" where
  "WTcpClientImpl_new K js jt k =
     (case wk_Timer K k of
        (ok, k') \<Rightarrow>
          if \<not> ok then Inl (Throw ''createTimerQueue failed'')
          else Inr \<lparr>wc_flag = True, wc_bStart = False, wc_hIocp = False, wc_socket = js, wc_client = None, wc_hSock = None, wc_th = jt,
                    wc_timer = False, wc_ios = (\<lambda>_. None), wc_closed = [], wc_posted = 0, wc_k = k'\<rparr>)"

text \<open>The part of \<open>Start\<close> that connects, with the request of the connection; \<open>False\<close> for every early return.\<close>

definition client_connect :: "'k wkernel \<Rightarrow> string \<Rightarrow> int \<Rightarrow> 'k wclient \<Rightarrow> bool \<times> 'k wclient" where
  "client_connect K ip port st =
     (case wk_WSASocket K (wc_k st) of
        (s, k1) \<Rightarrow>
          let st1 = st\<lparr>wc_socket := s, wc_k := k1\<rparr>
          in if s = - 1 then (False, st1)
             else case wk_Associate K s k1 of
               (False, k2) \<Rightarrow> (False, st1\<lparr>wc_k := k2\<rparr>)
             | (True, k2) \<Rightarrow>
                 (case wk_bind K s 0 k2 of
                    (False, k3) \<Rightarrow> (False, st1\<lparr>wc_k := k3\<rparr>)
                  | (True, k3) \<Rightarrow>
                      (case wk_Ioctl K s k3 of
                         (False, k4) \<Rightarrow> (False, st1\<lparr>wc_k := k4\<rparr>)
                       | (True, k4) \<Rightarrow>
                           (case wk_new K k4 of
                              ((a, _), k5) \<Rightarrow>
                                (case wk_ConnectEx K s ip port a k5 of
                                   (ok, k6) \<Rightarrow>
                                     (ok, st1\<lparr>wc_ios := (wc_ios st1)(a := Some (PerIOData_new\<lparr>pd_operationtype := CONNECT_POSTED\<rparr>)), wc_k := k6\<rparr>))))))"

definition WClient_Start ::
    "'k wkernel \<Rightarrow> int \<Rightarrow> addr \<Rightarrow> addr \<Rightarrow> string \<Rightarrow> int \<Rightarrow> session option \<Rightarrow> 'k wclient \<Rightarrow> bool \<times> 'k wclient" where
  "WClient_Start K now rbase sbase ip port pSession st =
     (case wk_Startup K (wc_k st) of
        (False, k1) \<Rightarrow> (False, st\<lparr>wc_k := k1\<rparr>)
      | (True, k1) \<Rightarrow>
          let st1 = st\<lparr>wc_client := pSession, wc_k := k1\<rparr>
          in case pSession of
               None \<Rightarrow> (False, st1)
             | Some ss \<Rightarrow>
                 (case wk_CreatePort K k1 of
                    (False, k2) \<Rightarrow> (False, st1\<lparr>wc_hIocp := False, wc_k := k2\<rparr>)
                  | (True, k2) \<Rightarrow>
                      (case client_connect K ip port (st1\<lparr>wc_hIocp := True, wc_k := k2\<rparr>) of
                         (False, st2) \<Rightarrow> (False, st2)
                       | (True, st2) \<Rightarrow>
                           let st3 = st2\<lparr>wc_client := Some (SocketSession_Init 1 True now rbase sbase ss),
                                 wc_hSock := Some \<lparr>m_sock = wc_socket st2, m_ip = ip, m_conntype = 0, m_port = port\<rparr>, wc_th := (True, True)\<rparr>
                           in case wk_Timer K (wc_k st3) of
                                (False, k3) \<Rightarrow> (False, st3\<lparr>wc_k := k3\<rparr>)
                              | (True, k3) \<Rightarrow> (True, st3\<lparr>wc_timer := True, wc_bStart := True, wc_k := k3\<rparr>))))"

text \<open>The functions that forward to the session; without one they use a null pointer.\<close>

definition wc_session :: "(session \<Rightarrow> 'a \<times> session) \<Rightarrow> 'k wclient \<Rightarrow> xerror + ('a \<times> 'k wclient)" where
  "wc_session f st =
     (case wc_client st of None \<Rightarrow> Inl Undefined | Some ss \<Rightarrow> (case f ss of (r, ss') \<Rightarrow> Inr (r, st\<lparr>wc_client := Some ss'\<rparr>)))"

definition WClient_RecvNetPackage :: "'k wclient \<Rightarrow> xerror + ((int \<times> NetPackage option) \<times> 'k wclient)" where
  "WClient_RecvNetPackage st = wc_session (\<lambda>ss. case Session_RecvNetPackage ss of (r, p, ss') \<Rightarrow> ((r, p), ss')) st"

definition WClient_SendNetPackage :: "NetPackage \<Rightarrow> 'k wclient \<Rightarrow> xerror + (int \<times> 'k wclient)" where
  "WClient_SendNetPackage p st = wc_session (Session_SendNetPackage p) st"

definition WClient_RecycleMem :: "(session \<Rightarrow> addr \<Rightarrow> session) \<Rightarrow> addr \<Rightarrow> 'k wclient \<Rightarrow> xerror + 'k wclient" where
  "WClient_RecycleMem fr pData st =
     (if pData = 0 then Inr st else map_sum id snd (wc_session (\<lambda>ss. ((), fr ss pData)) st))"

definition WClient_AllocPackage ::
    "(session \<Rightarrow> nat \<Rightarrow> addr \<times> session) \<Rightarrow> bmem \<Rightarrow> nat \<Rightarrow> nat \<Rightarrow> nat \<Rightarrow> 'k wclient \<Rightarrow> xerror + (NetPackage \<times> 'k wclient)" where
  "WClient_AllocPackage al mem ts junk len st =
     wc_session (\<lambda>ss. case al ss len of (p, ss') \<Rightarrow> (package_at mem ts junk p len, ss')) st"

definition WConnServer :: "nat \<Rightarrow> nat \<Rightarrow> 'k wclient \<Rightarrow> xerror + (int \<times> 'k wclient)" where
  "WConnServer ts junk st = WClient_SendNetPackage (base_package 1 ts junk) st"

definition WDisconnServer :: "nat \<Rightarrow> nat \<Rightarrow> 'k wclient \<Rightarrow> xerror + (int \<times> 'k wclient)" where
  "WDisconnServer ts junk st = WClient_SendNetPackage (base_package 2 ts junk) st"

definition WClient_TimerRoutine :: "nat \<Rightarrow> nat \<Rightarrow> 'k wclient \<Rightarrow> xerror + (int \<times> 'k wclient)" where
  "WClient_TimerRoutine ts junk st = WClient_SendNetPackage (base_package 3 ts junk) st"

text \<open>\<open>Stop\<close> with the answers of the waits for the two threads.\<close>

definition WClient_Stop :: "bool list \<Rightarrow> nat \<Rightarrow> nat \<Rightarrow> 'k wclient \<Rightarrow> (xerror + 'k wclient) option" where
  "WClient_Stop rs ts junk st =
     (case WDisconnServer ts junk st of
        Inl e \<Rightarrow> Some (Inl e)
      | Inr (_, st1) \<Rightarrow>
          (case wait_workers rs [fst (wc_th st1), snd (wc_th st1)] of
             None \<Rightarrow> None
           | Some n \<Rightarrow>
               Some (Inr (st1\<lparr>wc_timer := False, wc_flag := False, wc_posted := wc_posted st1 + 1 + n, wc_th := (False, False),
                 wc_hIocp := False, wc_closed := wc_closed st1 @ [wc_socket st1], wc_bStart := False\<rparr>))))"

text \<open>One turn of \<open>threadWorker\<close> with a completion packet; after its loop the thread clears its handle. The node is not passed on to the session.\<close>

definition WClient_threadWorker :: "nat \<Rightarrow> completion \<Rightarrow> 'k wclient \<Rightarrow> xerror + 'k wclient" where
  "WClient_threadWorker nd c st =
     (if \<not> wc_flag st \<or> \<not> cp_ok c \<or> cp_bytes c = exit_packet then Inr (st\<lparr>wc_th := (False, snd (wc_th st))\<rparr>)
      else case wc_ios st (cp_overlapped c) of
        None \<Rightarrow> Inl Undefined
      | Some d \<Rightarrow>
          (case pd_operationtype d of
             CONNECT_POSTED \<Rightarrow> Inr (st\<lparr>wc_ios := (wc_ios st)(cp_overlapped c := None)\<rparr>)
           | RECV_POSTED \<Rightarrow>
               (case wc_client st of
                  None \<Rightarrow> Inl Undefined
                | Some ss \<Rightarrow> map_sum id (\<lambda>ss'. st\<lparr>wc_client := Some ss'\<rparr>) (DispatchData (pd_buf d) (cp_bytes c) (pd_nIndex d) (pd_prev d) 0 ss))
           | SEND_POSTED \<Rightarrow>
               map_sum id snd (wc_session (\<lambda>ss. ((), NoticeComplateSend (nat (pd_nIndex d mod 2 ^ 64)) (pd_buf d) (cp_bytes c) 0 nd ss)) st)
           | _ \<Rightarrow> Inr st))"

definition WClient_run :: "work_env \<Rightarrow> 'k wclient \<Rightarrow> (xerror + 'k wclient) option" where
  "WClient_run e st =
     (if \<not> wc_flag st then Some (Inr (st\<lparr>wc_th := (fst (wc_th st), False)\<rparr>))
      else case wc_client st of
        None \<Rightarrow> Some (Inl Undefined)
      | Some ss \<Rightarrow>
          (case ParseData (we_hooks e) (we_now e) (we_node e) ss of
             Inl x \<Rightarrow> Some (Inl x)
           | Inr ss1 \<Rightarrow>
               (case Session_PostSend (we_fuel e) (we_enc e) (we_node e) ss1 of
                  None \<Rightarrow> None
                | Some (Inl x) \<Rightarrow> Some (Inl x)
                | Some (Inr ss2) \<Rightarrow> Some (Inr (st\<lparr>wc_client := Some ss2\<rparr>)))))"

definition WClient_PostRecvReq ::
    "'k wkernel \<Rightarrow> int \<Rightarrow> addr \<Rightarrow> nat \<Rightarrow> int \<Rightarrow> nat option \<Rightarrow> addr \<Rightarrow> 'k wclient \<Rightarrow> xerror + (bool \<times> 'k wclient)" where
  "WClient_PostRecvReq K fd pBuf len nIndex pExtend node st =
     (if node = 0 then Inr (False, st)
      else case wc_ios st node of
        None \<Rightarrow> Inl Undefined
      | Some d \<Rightarrow>
          (let d1 = recv_req pBuf len nIndex pExtend d
           in case wk_WSARecv K fd pBuf len node (wc_k st) of
                (ok, k) \<Rightarrow> Inr (ok, st\<lparr>wc_ios := (wc_ios st)(node := Some (if ok then d1 else SetUse 0 d1)), wc_k := k\<rparr>)))"

definition WClient_PostSendReq :: "'k wkernel \<Rightarrow> int \<Rightarrow> addr \<Rightarrow> nat \<Rightarrow> int \<Rightarrow> addr \<Rightarrow> 'k wclient \<Rightarrow> xerror + (bool \<times> 'k wclient)" where
  "WClient_PostSendReq K fd pBuf len nIndex node st =
     (if node = 0 then Inr (False, st)
      else case wc_ios st node of
        None \<Rightarrow> Inl Undefined
      | Some d \<Rightarrow>
          (let d1 = send_req pBuf len nIndex d
           in case wk_WSASend K fd pBuf len node (wc_k st) of
                (ok, k) \<Rightarrow> Inr (ok, st\<lparr>wc_ios := (wc_ios st)(node := Some (if ok then d1 else SetUse 0 d1)), wc_k := k\<rparr>)))"

definition WClient_Close :: "int \<Rightarrow> 'k wclient \<Rightarrow> 'k wclient" where
  "WClient_Close fd st = st\<lparr>wc_closed := wc_closed st @ [fd]\<rparr>"

definition WClient_destroy :: "bool list \<Rightarrow> nat \<Rightarrow> nat \<Rightarrow> 'k wclient \<Rightarrow> (xerror + 'k wclient) option" where
  "WClient_destroy rs ts junk st = (if wc_bStart st then WClient_Stop rs ts junk st else Some (Inr st))"

definition WClient_ReConnect :: "'k wclient \<Rightarrow> bool \<times> 'k wclient" where
  "WClient_ReConnect st = (False, st)"

definition WClient_getSock :: "'k wclient \<Rightarrow> int" where
  "WClient_getSock st = wc_socket st"

subsection \<open>The way of received data\<close>

lemma bits8_id: "- 128 \<le> x \<Longrightarrow> x < 128 \<Longrightarrow> bits8 x = x"
  by (simp add: bits8_def)

text \<open>
  Property C15: on Windows data that arrive for a posted receive request reach the session that posted it. A request of a session for its buffer is stored in the
  node, with an index of eight bits; when the system completes it with \<open>n\<close> bytes, a worker appends exactly this buffer, length, index and previous
  buffer to the data of the client with that socket, and to no other, and the node is not in use any more.
\<close>

theorem win_receive_reaches_session:
  assumes "node \<noteq> 0" "ws_ios st node = Some d" "wk_WSARecv K fd buf len node (ws_k st) = (True, k)"
    and "c \<in> set (wb_clientInfos (ws_Manager st))" "m_sock (c_hSock c) = fd" "distinct (map (m_sock \<circ> c_hSock) (wb_clientInfos (ws_Manager st)))"
    and "i \<le> length (pp_objs (ss_recv (c_sess c)))" "i < 128" "buf \<noteq> 0" "0 < n" "n < exit_packet"
  shows "\<exists>st1 st2 d2. WServer_PostRecvReq K fd buf len (int i) prev node st = Inr (True, st1) \<and>
    WorkerThread K e \<lparr>cp_ok = True, cp_error = 0, cp_bytes = n, cp_key = fd, cp_overlapped = node\<rparr> st1 = Inr (True, st2) \<and>
    wb_clientInfos (ws_Manager st2) =
      map (\<lambda>x. if x = c then c\<lparr>c_sess := (c_sess c)\<lparr>m_perIoDatas := m_perIoDatas (c_sess c) @
             [\<lparr>io_pBuf = buf, io_len = n, io_nIndex = i, io_pPrev = prev, io_pPostNode = node\<rparr>]\<rparr>\<rparr> else x) (wb_clientInfos (ws_Manager st)) \<and>
    ws_ios st2 node = Some d2 \<and> pd_nUseFlag d2 = 0"
proof -
  let ?st1 = "st\<lparr>ws_ios := (ws_ios st)(node := Some (recv_req buf len (int i) prev d)), ws_k := k\<rparr>"
  have p: "WServer_PostRecvReq K fd buf len (int i) prev node st = Inr (True, ?st1)"
    using assms(1-3) by (simp add: WServer_PostRecvReq_def Let_def)
  let ?h = "key_sock (ws_port st) fd"
  have h: "same_sock ?h c" using assms(5) by (simp add: same_sock_def key_sock_def)
  note u = upd_client_at [OF assms(6,4) h]
  have r: "recv_req buf len (int i) prev d = d\<lparr>pd_prev := prev, pd_nUseFlag := 1, pd_buf := buf, pd_len := len, pd_nIndex := int i, pd_operationtype := RECV_POSTED\<rparr>"
    using assms(8) by (simp add: recv_req_def SetUse_def bits8_id)
  let ?io = "\<lparr>io_pBuf = buf, io_len = n, io_nIndex = i, io_pPrev = prev, io_pPostNode = node\<rparr>"
  have "DispatchData buf n (int i) prev node (c_sess c) = Inr ((c_sess c)\<lparr>m_perIoDatas := m_perIoDatas (c_sess c) @ [?io]\<rparr>)"
    using assms(7,9) by (simp add: DispatchData_def)
  with u have "WRecvClientData ?h buf n (int i) prev node (ws_Manager st) = Inr ((ws_Manager st)\<lparr>wb_clientInfos :=
      map (\<lambda>x. if x = c then c\<lparr>c_sess := (c_sess c)\<lparr>m_perIoDatas := m_perIoDatas (c_sess c) @ [?io]\<rparr>\<rparr> else x) (wb_clientInfos (ws_Manager st))\<rparr>)"
    by (simp add: WRecvClientData_def)
  then show ?thesis using p assms(1,10,11) by (simp add: WorkerThread_def Let_def r SetUse_def bits8_id)
qed

text \<open>
  Observation: on Windows an accepted connection is lost. When the system completes an accept request, the worker first posts the request again, which puts a new socket into it,
  and then takes the client's socket from it: the client that is appended has the new socket, which is not connected. The socket of the connection is not
  added to the clients and not closed, and the request that held it now holds the new one.
\<close>

theorem win_accepted_socket_lost:
  assumes "a \<noteq> 0" "ws_ios st a = Some d" "pd_operationtype d = ACCEPT_POSTED" "n < exit_packet"
    and "wk_WSASocket K (ws_k st) = (s, k1)" "s \<noteq> - 1" "wk_AcceptEx K (ws_listenSocket st) s (pd_buf d) a k1 = (True, k2)"
    and "wk_Associate K s k2 = (True, k3)" "ee_session e = Some ss"
  shows "\<exists>st' cl d'. WorkerThread K e \<lparr>cp_ok = True, cp_error = 0, cp_bytes = n, cp_key = ws_listenSocket st, cp_overlapped = a\<rparr> st = Inr (True, st') \<and>
    wb_clientInfos (ws_Manager st') = wb_clientInfos (ws_Manager st) @ [cl] \<and> m_sock (c_hSock cl) = s \<and>
    ws_ios st' = (ws_ios st)(a \<mapsto> d') \<and> pd_acceptsocket d' = s \<and> ws_closed st' = ws_closed st \<and>
    wb_log (ws_Manager st') = wb_log (ws_Manager st) @ [Ev (ClientEnter (c_hSock cl))]"
proof -
  let ?d2 = "(PerIOData_Reset ((SetUse 0 d)\<lparr>pd_acceptsocket := s\<rparr>))\<lparr>pd_operationtype := ACCEPT_POSTED\<rparr>"
  let ?st1 = "st\<lparr>ws_ios := (ws_ios st)(a := Some (SetUse 0 d))\<rparr>" and ?st2 = "st\<lparr>ws_ios := (ws_ios st)(a \<mapsto> ?d2), ws_k := k2\<rparr>"
  have b: "pd_buf ?d2 = pd_buf d" by (simp add: PerIOData_Reset_def SetUse_def)
  have p: "PostAcceptEx K a ?st1 = Inr ?st2"
    using assms(1,5-7) by (simp add: PostAcceptEx_def Let_def PerIOData_Reset_def SetUse_def)
  obtain ip port where ad: "wk_SockAddrs K (pd_buf d) k2 = (ip, port)" by fastforce
  have q: "DoAcceptEx K a ?st2 = Inr ((True, ip, port), ?st2\<lparr>ws_k := k3\<rparr>)"
    using assms(8) ad b by (simp add: DoAcceptEx_def PerIOData_Reset_def)
  define h where "h = \<lparr>m_sock = s, m_ip = ip, m_conntype = 0, m_port = port\<rparr>"
  obtain ss' where ss': "Session_PostRecv 0 None (ee_node e) (SocketSession_Init 0 (wb_pBase (ws_Manager st)) (ee_now e) (ee_rbase e) (ee_sbase e) ss) = Inr ss'"
    using init_post_ok by blast
  then obtain m where m: "WAppendNewClient (ee_now e) (ee_rbase e) (ee_sbase e) (ee_node e) (ee_session e) h (ws_Manager st) = Inr m"
    "wb_clientInfos m = wb_clientInfos (ws_Manager st) @ [\<lparr>c_hSock = h, c_sess = ss'\<rparr>]" "wb_log m = wb_log (ws_Manager st) @ [Ev (ClientEnter h)]"
    using assms(9) by (simp add: WAppendNewClient_def Let_def WInitIterator_def)
  have "worker_accept K e a ?st1 = Inr (?st2\<lparr>ws_k := k3, ws_Manager := m\<rparr>)"
    using p q m(1) by (simp add: worker_accept_def h_def PerIOData_Reset_def)
  then have "WorkerThread K e \<lparr>cp_ok = True, cp_error = 0, cp_bytes = n, cp_key = ws_listenSocket st, cp_overlapped = a\<rparr> st =
      Inr (True, ?st2\<lparr>ws_k := k3, ws_Manager := m\<rparr>)"
    using assms(1-4) by (simp add: WorkerThread_def Let_def)
  then show ?thesis using m(2,3) by (intro exI [of _ "?st2\<lparr>ws_k := k3, ws_Manager := m\<rparr>"] exI [of _ "\<lparr>c_hSock = h, c_sess = ss'\<rparr>"] exI [of _ ?d2] conjI)
    (simp_all add: h_def PerIOData_Reset_def)
qed

text \<open>
  Observation: if the request cannot be posted again it is deleted, and the worker then uses the deleted object.
\<close>

theorem win_failed_repost_undefined:
  assumes "a \<noteq> 0" "ws_ios st a = Some d" "pd_operationtype d = ACCEPT_POSTED" "n < exit_packet" "a \<in> set (ws_AsyncReqs st)"
    and "wk_WSASocket K (ws_k st) = (s, k1)" "s \<noteq> - 1" "wk_AcceptEx K (ws_listenSocket st) s (pd_buf d) a k1 = (False, k2)"
  shows "WorkerThread K e \<lparr>cp_ok = True, cp_error = 0, cp_bytes = n, cp_key = ws_listenSocket st, cp_overlapped = a\<rparr> st = Inl Undefined"
  using assms by (simp add: WorkerThread_def worker_accept_def PostAcceptEx_def DoAcceptEx_def RemoveIOData_def closesocket_def Let_def
      PerIOData_Reset_def SetUse_def)

subsection \<open>The client waits for nothing\<close>

text \<open>
  The steps of a connected client. A request of the session is carried out by \<open>PostSendReq\<close> or \<open>PostRecvReq\<close> of the client, the latter only when the session
  has posted a request for receiving; \<open>ClNode\<close> is a new request object of the session's pool.
\<close>

inductive wclient_step :: "'k wkernel \<Rightarrow> 'k wclient \<Rightarrow> 'k wclient \<Rightarrow> bool" for K where
  ClComplete: "WClient_threadWorker nd c st = Inr st' \<Longrightarrow> wclient_step K st st'"
| ClRun: "WClient_run e st = Some (Inr st') \<Longrightarrow> wclient_step K st st'"
| ClSend: "WClient_SendNetPackage p st = Inr (r, st') \<Longrightarrow> wclient_step K st st'"
| ClTimer: "WClient_TimerRoutine ts junk st = Inr (r, st') \<Longrightarrow> wclient_step K st st'"
| ClRecv: "WClient_RecvNetPackage st = Inr (r, st') \<Longrightarrow> wclient_step K st st'"
| ClNode: "wclient_step K st (st\<lparr>wc_ios := (wc_ios st)(a := Some PerIOData_new)\<rparr>)"
| ClPostSend: "WClient_PostSendReq K fd buf len i node st = Inr (ok, st') \<Longrightarrow> wclient_step K st st'"
| ClPostRecv: "wc_client st = Some ss \<Longrightarrow> pp_reqs (ss_recv ss) \<noteq> [] \<Longrightarrow> WClient_PostRecvReq K fd buf len i prev node st = Inr (ok, st')
    \<Longrightarrow> wclient_step K st st'"

inductive wclient_reach :: "'k wkernel \<Rightarrow> 'k wclient \<Rightarrow> bool" for K where
  ClNew: "WTcpClientImpl_new K js jt k = Inr st \<Longrightarrow> WClient_Start K now rb sb ip port (Some (SocketSession_new mem)) st = (True, st') \<Longrightarrow> wclient_reach K st'"
| ClStep: "wclient_reach K st \<Longrightarrow> wclient_step K st st' \<Longrightarrow> wclient_reach K st'"

definition no_receive :: "session \<Rightarrow> bool" where
  "no_receive ss \<longleftrightarrow> pp_reqs (ss_recv ss) = [] \<and> m_perIoDatas ss = [] \<and> m_recvQueue ss = []"

definition deaf :: "'k wclient \<Rightarrow> bool" where
  "deaf st \<longleftrightarrow> (\<exists>ss. wc_client st = Some ss \<and> no_receive ss) \<and> (\<forall>a d. wc_ios st a = Some d \<longrightarrow> pd_operationtype d \<noteq> RECV_POSTED)"

lemma no_receive_ops:
  assumes "no_receive ss"
  shows "no_receive (snd (Session_SendNetPackage p ss))" "no_receive (NoticeComplateSend i buf len node nd ss)"
    "Session_RecvNetPackage ss = (- 1, None, ss)" "ParseData hk now nd ss = Inr ss"
  using assms by (simp_all add: no_receive_def Session_SendNetPackage_def NoticeComplateSend_def Session_RecvNetPackage_def ParseData_def Let_def)

lemma no_receive_PostSend: "no_receive ss \<Longrightarrow> Session_PostSend fuel enc nd ss = Some (Inr ss') \<Longrightarrow> no_receive ss'"
  by (auto simp: no_receive_def Session_PostSend_def Let_def split: if_splits option.splits sum.splits prod.splits)

lemma deaf_cong:
  assumes "deaf st" "wc_ios st' = wc_ios st" "wc_client st' = Some ss" "no_receive ss"
  shows "deaf st'"
  using assms by (simp add: deaf_def)

lemma deaf_node:
  assumes "deaf st" "wc_client st' = wc_client st" "wc_ios st' = (wc_ios st)(a := v)" "\<forall>d. v = Some d \<longrightarrow> pd_operationtype d \<noteq> RECV_POSTED"
  shows "deaf st'"
  using assms by (simp add: deaf_def)

lemma deaf_start:
  assumes "WTcpClientImpl_new K js jt k = Inr st" "WClient_Start K now rb sb ip port (Some (SocketSession_new mem)) st = (True, st')"
  shows "deaf st'"
proof -
  have "wc_ios st = (\<lambda>_. None)" using assms(1) by (auto simp: WTcpClientImpl_new_def split: prod.splits if_splits)
  moreover have "(\<exists>a. wc_ios v = (wc_ios u)(a := Some (PerIOData_new\<lparr>pd_operationtype := CONNECT_POSTED\<rparr>)))" if "client_connect K ip port u = (True, v)" for u v
    using that by (auto simp: client_connect_def Let_def split: prod.splits if_splits bool.splits)
  then have "\<exists>a. wc_ios st' = (wc_ios st)(a := Some (PerIOData_new\<lparr>pd_operationtype := CONNECT_POSTED\<rparr>))"
    using assms(2) by (fastforce simp: WClient_Start_def Let_def split: prod.splits bool.splits)
  moreover have "wc_client st' = Some (SocketSession_Init 1 True now rb sb (SocketSession_new mem))"
    using assms(2) by (auto simp: WClient_Start_def Let_def split: prod.splits bool.splits)
  moreover have "no_receive (SocketSession_Init 1 True now rb sb (SocketSession_new mem))"
    by (simp add: no_receive_def SocketSession_Init_def InitFrames_def SocketSession_new_def Let_def)
  ultimately show ?thesis by (auto simp: deaf_def split: if_splits)
qed

lemma deaf_step:
  assumes "wclient_step K st st'" "deaf st"
  shows "deaf st'"
proof -
  obtain ss where ss: "wc_client st = Some ss" "no_receive ss" using assms(2) by (auto simp: deaf_def)
  note keep = deaf_cong [OF assms(2)] and ops = no_receive_ops [OF ss(2)]
  from assms(1) show ?thesis
  proof (cases rule: wclient_step.cases)
    case (ClComplete nd c)
    show ?thesis
    proof (cases "wc_ios st (cp_overlapped c)")
      case (Some d)
      then have "pd_operationtype d \<noteq> RECV_POSTED" using assms(2) by (auto simp: deaf_def)
      with ClComplete Some ss ops(2) show ?thesis
        by (cases "pd_operationtype d") (auto simp: WClient_threadWorker_def wc_session_def split: if_splits
            intro: keep deaf_node [OF assms(2), of _ "cp_overlapped c" None])
    qed (use ClComplete ss in \<open>auto simp: WClient_threadWorker_def split: if_splits intro: keep\<close>)
  next
    case (ClRun e)
    with ss ops(4) show ?thesis
      by (auto simp: WClient_run_def split: if_splits option.splits sum.splits intro: keep no_receive_PostSend)
  next
    case (ClSend p r)
    with ss ops(1) show ?thesis by (auto simp: WClient_SendNetPackage_def wc_session_def split: prod.splits intro!: keep) (metis snd_conv)
  next
    case (ClTimer ts junk r)
    with ss ops(1) show ?thesis
      by (auto simp: WClient_TimerRoutine_def WClient_SendNetPackage_def wc_session_def split: prod.splits intro!: keep) (metis snd_conv)
  next
    case (ClRecv r)
    with ss ops(3) show ?thesis by (auto simp: WClient_RecvNetPackage_def wc_session_def intro!: keep)
  next
    case (ClNode a)
    then show ?thesis by (auto intro!: deaf_node [OF assms(2)] simp: PerIOData_new_def)
  next
    case (ClPostSend fd buf len i node ok)
    then show ?thesis using assms(2)
      by (auto simp: WClient_PostSendReq_def Let_def send_req_def SetUse_def split: if_splits option.splits prod.splits intro!: deaf_node [OF assms(2)])
  next
    case (ClPostRecv ss' fd buf len i prev node ok)
    with ss show ?thesis by (simp add: no_receive_def)
  qed
qed

lemma wclient_reach_deaf: "wclient_reach K st \<Longrightarrow> deaf st"
proof (induction rule: wclient_reach.induct)
  case (ClNew js jt k st now rb sb ip port mem st')
  then show ?case by (rule deaf_start)
next
  case (ClStep st st')
  show ?case by (rule deaf_step [OF ClStep(2,3)])
qed

text \<open>
  Observation: a client on Windows never receives. Only \<open>ParseData\<close> posts requests for receiving, when it has found a package, and nobody posts the first one: whatever a
  connected client sends and whatever requests are completed, its session never has a receive request, received data or a package, and \<open>RecvNetPackage\<close> answers \<open>-1\<close>.
\<close>

theorem win_client_never_receives:
  assumes "wclient_reach K st"
  shows "WClient_RecvNetPackage st = Inr ((- 1, None), st) \<and>
    (\<exists>ss. wc_client st = Some ss \<and> pp_reqs (ss_recv ss) = [] \<and> m_perIoDatas ss = []) \<and>
    (\<forall>a d. wc_ios st a = Some d \<longrightarrow> pd_operationtype d \<noteq> RECV_POSTED)"
proof -
  note d = wclient_reach_deaf [OF assms]
  then obtain ss where ss: "wc_client st = Some ss" "no_receive ss" by (auto simp: deaf_def)
  have "st\<lparr>wc_client := Some ss\<rparr> = st" using ss(1) by (metis (full_types) wclient.surjective wclient.update_convs(5))
  with ss d show ?thesis by (auto simp: WClient_RecvNetPackage_def wc_session_def no_receive_ops(3) deaf_def no_receive_def)
qed

subsection \<open>Examples\<close>

text \<open>A system in which every call succeeds and sockets and addresses are counted.\<close>

definition calm_kernel :: "nat wkernel" where
  "calm_kernel = \<lparr>wk_Startup = Pair True, wk_CreatePort = Pair True, wk_Associate = (\<lambda>_. Pair True), wk_WSASocket = (\<lambda>k. (int k, Suc k)),
     wk_ReuseAddr = (\<lambda>_. Pair True), wk_bind = (\<lambda>_ _. Pair True), wk_listen = (\<lambda>_ _. Pair True), wk_Ioctl = (\<lambda>_. Pair True),
     wk_AcceptEx = (\<lambda>_ _ _ _. Pair True), wk_SockAddrs = (\<lambda>_ _. (''127.0.0.1'', 4000)), wk_ConnectEx = (\<lambda>_ _ _ _. Pair True),
     wk_WSARecv = (\<lambda>_ _ _ _. Pair True), wk_WSASend = (\<lambda>_ _ _ _. Pair True), wk_Timer = Pair True,
     wk_new = (\<lambda>k. ((k, Suc k), Suc (Suc k))), wk_processors = 4\<rparr>"

abbreviation busy_server :: "nat wserver" where
  "busy_server \<equiv> \<lparr>ws_bStart = True, ws_WorkerCount = 4, ws_port = 80, ws_completeport = True, ws_AsyncReqs = [7], ws_listenSocket = 3,
     ws_thiocp = [True, True, True, True], ws_interface = True,
     ws_Manager = napping\<lparr>wb_clientInfos := [\<lparr>c_hSock = sample_sock 5, c_sess = SocketSession_new (\<lambda>_. 0)\<rparr>]\<rparr>,
     ws_ios = [7 \<mapsto> (PerIOData_of 1 2000 None)\<lparr>pd_acceptsocket := 6, pd_operationtype := ACCEPT_POSTED\<rparr>, 9 \<mapsto> PerIOData_new],
     ws_closed = [], ws_posted = 0, ws_k = 20\<rparr>"

abbreviation calm_env :: enter_env where
  "calm_env \<equiv> \<lparr>ee_now = 0, ee_rbase = 8, ee_sbase = 9000, ee_node = 0, ee_session = Some (SocketSession_new (\<lambda>_. 0))\<rparr>"

theorem win_receive_reaches_session_witness:
  "\<exists>st1 st2. WServer_PostRecvReq calm_kernel 5 4096 512 0 None 9 busy_server = Inr (True, st1) \<and>
    WorkerThread calm_kernel calm_env \<lparr>cp_ok = True, cp_error = 0, cp_bytes = 100, cp_key = 5, cp_overlapped = 9\<rparr> st1 = Inr (True, st2) \<and>
    map (m_perIoDatas \<circ> c_sess) (wb_clientInfos (ws_Manager st2)) =
      [[\<lparr>io_pBuf = 4096, io_len = 100, io_nIndex = 0, io_pPrev = None, io_pPostNode = 9\<rparr>]]"
proof -
  let ?c = "\<lparr>c_hSock = sample_sock 5, c_sess = SocketSession_new (\<lambda>_. 0)\<rparr>"
  have c: "?c \<in> set (wb_clientInfos (ws_Manager busy_server))" "m_sock (c_hSock ?c) = 5"
    "distinct (map (m_sock \<circ> c_hSock) (wb_clientInfos (ws_Manager busy_server)))" "ws_ios busy_server 9 = Some PerIOData_new"
    "wk_WSARecv calm_kernel 5 4096 512 9 (ws_k busy_server) = (True, 20)"
    by (simp_all add: calm_kernel_def)
  have n: "(100 :: nat) < exit_packet" by (simp add: exit_packet_def)
  show ?thesis using win_receive_reaches_session [OF _ c(4,5,1,2,3), of 0 100 None calm_env] n
    by (auto simp: SocketSession_new_def Let_def)
qed

theorem win_accepted_socket_lost_witness:
  "\<exists>st' cl. WorkerThread calm_kernel calm_env
      \<lparr>cp_ok = True, cp_error = 0, cp_bytes = 0, cp_key = 3, cp_overlapped = 7\<rparr> busy_server = Inr (True, st') \<and>
    map (m_sock \<circ> c_hSock) (wb_clientInfos (ws_Manager st')) = [5, 20] \<and> ws_closed st' = []"
proof -
  let ?d = "(PerIOData_of 1 2000 None)\<lparr>pd_acceptsocket := 6, pd_operationtype := ACCEPT_POSTED\<rparr>"
  have k: "ws_ios busy_server 7 = Some ?d" "pd_operationtype ?d = ACCEPT_POSTED" "0 < exit_packet"
    "wk_WSASocket calm_kernel (ws_k busy_server) = (20, 21)" "(20 :: int) \<noteq> - 1"
    "wk_AcceptEx calm_kernel (ws_listenSocket busy_server) 20 (pd_buf ?d) 7 21 = (True, 21)" "wk_Associate calm_kernel 20 21 = (True, 21)"
    "ee_session calm_env = Some (SocketSession_new (\<lambda>_. 0))"
    by (simp_all add: calm_kernel_def exit_packet_def)
  show ?thesis using win_accepted_socket_lost [OF _ k] by force
qed

theorem win_client_never_receives_witness:
  "\<exists>st. wclient_reach calm_kernel st \<and> wc_bStart st \<and> WClient_RecvNetPackage st = Inr ((- 1, None), st)"
proof -
  obtain st where s: "WTcpClientImpl_new calm_kernel 0 (False, False) 20 = Inr st" by (simp add: WTcpClientImpl_new_def calm_kernel_def)
  obtain st' where t: "WClient_Start calm_kernel 0 8 9000 ''127.0.0.1'' 80 (Some (SocketSession_new (\<lambda>_. 0))) st = (True, st')" "wc_bStart st'"
    using s by (auto simp: WTcpClientImpl_new_def calm_kernel_def WClient_Start_def client_connect_def Let_def)
  have r: "wclient_reach calm_kernel st'" by (rule wclient_reach.ClNew [OF s t(1)])
  with t(2) win_client_never_receives [OF r] show ?thesis by blast
qed

end
