(* ===== verification/WinTimer.thy ===== *)
theory WinTimer
  imports TimerMod
begin

text \<open>
  The timer managers on Windows (\<open>Thread/TimerMgrImpl_Win32.cpp\<close>, \<open>Thread/MsTimerMgrImpl_Win32.cpp\<close>). Both hand their timers to the timer queue of the
  system and differ in the unit of the times, 1000 and 1 milliseconds: \<open>AddTimer\<close> of the two managers are two uses of \<open>AddTimer_unit\<close>. The timer queue is part of the state: a
  system timer has a handle, the time to its first call, its period, and the address of the entry that is passed to the callback. Callbacks run in threads of the
  system: one that has begun holds the address of its entry until it has called the timer. Deleting a system timer with a null event does not wait for them. Whether
  the system can create a timer is an argument. A null pointer as a timer is \<open>None\<close>.
\<close>

record timerinfo =
  wi_hTimer :: nat
  wi_pTimer :: "abs_timer option"
  wi_node :: nat

record wtimers =
  wt_timers :: "(string, timerinfo) omap"
  wt_queue :: "(nat \<times> (nat \<times> nat \<times> nat)) list"
  wt_running :: "nat list"
  wt_handles :: nat
  wt_nodes :: nat
  wt_calls :: "nat list"
  wt_deleted :: "nat list"


text \<open>The callback with the address of an entry; an entry that was erased is not accessible any more.\<close>

definition WTimer_Routine :: "nat \<Rightarrow> wtimers \<Rightarrow> xerror + wtimers" where
  "WTimer_Routine node st =
     (case find (\<lambda>e. wi_node (snd e) = node) (wt_timers st) of
        None \<Rightarrow> Inl Undefined
      | Some (str, i) \<Rightarrow> (case wi_pTimer i of None \<Rightarrow> Inl Undefined | Some t \<Rightarrow> Inr (st\<lparr>wt_calls := wt_calls st @ [at_id t]\<rparr>)))"

definition AddTimer_unit :: "nat \<Rightarrow> bool \<Rightarrow> string \<Rightarrow> abs_timer option \<Rightarrow> wtimers \<Rightarrow> xerror + (bool \<times> wtimers)" where
  "AddTimer_unit u ok str timer st =
     (if map_of (wt_timers st) str \<noteq> None then Inr (False, st)
      else
        let n = Suc (wt_nodes st); info = \<lparr>wi_hTimer = 0, wi_pTimer = timer, wi_node = n\<rparr>;
            st1 = st\<lparr>wt_nodes := n, wt_timers := minsert str info (wt_timers st)\<rparr>
        in case timer of
             None \<Rightarrow> Inl Undefined
           | Some t \<Rightarrow>
               if \<not> ok then Inr (False, st1)
               else
                 let h = Suc (wt_handles st)
                 in Inr (True, st1\<lparr>wt_handles := h, wt_queue := wt_queue st @ [(h, (u * nStart t mod 2 ^ 32, u * nInterval t mod 2 ^ 32, n))],
                      wt_timers := massign str (info\<lparr>wi_hTimer := h\<rparr>) (wt_timers st1)\<rparr>))"

definition WAddTimer :: "bool \<Rightarrow> string \<Rightarrow> abs_timer option \<Rightarrow> wtimers \<Rightarrow> xerror + (bool \<times> wtimers)" where
  "WAddTimer = AddTimer_unit 1000"

definition WMsAddTimer :: "bool \<Rightarrow> string \<Rightarrow> abs_timer option \<Rightarrow> wtimers \<Rightarrow> xerror + (bool \<times> wtimers)" where
  "WMsAddTimer = AddTimer_unit 1"

text \<open>The other operations of the two managers are the same. \<open>DelTimer\<close> leaves the callbacks that have begun as they are.\<close>

definition WDelTimer :: "string \<Rightarrow> wtimers \<Rightarrow> bool \<times> wtimers" where
  "WDelTimer str st =
     (case map_of (wt_timers st) str of
        None \<Rightarrow> (False, st)
      | Some i \<Rightarrow>
          (True, st\<lparr>wt_queue := filter (\<lambda>q. fst q \<noteq> wi_hTimer i) (wt_queue st),
                   wt_deleted := wt_deleted st @ (case wi_pTimer i of None \<Rightarrow> [] | Some t \<Rightarrow> [at_id t]),
                   wt_timers := merase str (wt_timers st)\<rparr>))"

text \<open>\<open>ChangeTimerQueueTimer\<close> is given the address of the handle in place of the handle, which is no timer of the system: what happens is undefined.\<close>

definition WModifyRepeatTimer :: "string \<Rightarrow> int \<Rightarrow> int \<Rightarrow> wtimers \<Rightarrow> xerror + (bool \<times> wtimers)" where
  "WModifyRepeatTimer str len nInt st = (if map_of (wt_timers st) str = None then Inr (False, st) else Inl Undefined)"

definition WTimerMgr_Init :: "wtimers \<Rightarrow> bool \<times> wtimers" where
  "WTimerMgr_Init st = (True, st)"

definition WTimerMgr_Stop :: "wtimers \<Rightarrow> wtimers" where
  "WTimerMgr_Stop st = st"

text \<open>The destructor: \<open>DelTimer\<close> of the first timer until there is none.\<close>

lemma WDelTimer_less: "wt_timers st \<noteq> [] \<Longrightarrow> length (wt_timers (snd (WDelTimer (fst (hd (wt_timers st))) st))) < length (wt_timers st)"
  by (cases "wt_timers st") (auto simp: WDelTimer_def merase_def less_Suc_eq_le split: option.splits)

function WTimerMgr_destroy :: "wtimers \<Rightarrow> wtimers" where
  "WTimerMgr_destroy st = (if wt_timers st = [] then st else WTimerMgr_destroy (snd (WDelTimer (fst (hd (wt_timers st))) st)))"
  by auto
termination by (relation "measure (\<lambda>st. length (wt_timers st))") (use WDelTimer_less in auto)

declare WTimerMgr_destroy.simps [simp del]

definition WMsTimer_Routine :: "nat \<Rightarrow> wtimers \<Rightarrow> xerror + wtimers" where
  "WMsTimer_Routine = WTimer_Routine"

definition WMsDelTimer :: "string \<Rightarrow> wtimers \<Rightarrow> bool \<times> wtimers" where
  "WMsDelTimer = WDelTimer"

definition WMsModifyRepeatTimer :: "string \<Rightarrow> int \<Rightarrow> int \<Rightarrow> wtimers \<Rightarrow> xerror + (bool \<times> wtimers)" where
  "WMsModifyRepeatTimer = WModifyRepeatTimer"

definition WMsTimerMgr_destroy :: "wtimers \<Rightarrow> wtimers" where
  "WMsTimerMgr_destroy = WTimerMgr_destroy"

subsection \<open>The timer queue follows the manager\<close>




text \<open>The entry at an address, and what is undefined in a state.\<close>

definition entry_at :: "nat \<Rightarrow> wtimers \<Rightarrow> string \<Rightarrow> nat \<Rightarrow> abs_timer \<Rightarrow> bool" where
  "entry_at node st str h t = (map_of (wt_timers st) str = Some \<lparr>wi_hTimer = h, wi_pTimer = Some t, wi_node = node\<rparr>)"


definition wt_link :: "nat \<Rightarrow> wtimers \<Rightarrow> nat \<times> (nat \<times> nat \<times> nat) \<Rightarrow> bool" where
  "wt_link u st q = (\<exists>str t. entry_at (snd (snd (snd q))) st str (fst q) t \<and> fst (snd q) = u * nStart t mod 2 ^ 32 \<and> fst (snd (snd q)) = u * nInterval t mod 2 ^ 32)"

text \<open>Entries have timers and different addresses; the system timers belong to them.\<close>

definition entries_ok :: "(string \<rightharpoonup> timerinfo) \<Rightarrow> nat \<Rightarrow> bool" where
  "entries_ok m n =
     ((\<forall>k i. m k = Some i \<longrightarrow> wi_pTimer i \<noteq> None \<and> wi_node i \<le> n) \<and>
      (\<forall>k i k' i'. m k = Some i \<longrightarrow> m k' = Some i' \<longrightarrow> wi_node i = wi_node i' \<longrightarrow> k = k'))"

definition wt_inv :: "nat \<Rightarrow> wtimers \<Rightarrow> bool" where
  "wt_inv u st = (msorted (wt_timers st) \<and> entries_ok (map_of (wt_timers st)) (wt_nodes st) \<and> (\<forall>q \<in> set (wt_queue st). wt_link u st q))"





lemma wt_inv_upd [simp]: "wt_inv u (st\<lparr>wt_calls := xs\<rparr>) = wt_inv u st" "wt_inv u (st\<lparr>wt_running := ys\<rparr>) = wt_inv u st"
  by (simp_all add: wt_inv_def wt_link_def entry_at_def)











text \<open>
  Observation: a timer that the system could not create is reported as not added but stays in the manager: its name cannot be used, it is never called, and the manager deletes
  it, which its caller may do as well.
\<close>

theorem failed_timer_stays:
  assumes "AddTimer_unit u False str (Some t) st = Inr (r, st')" "msorted (wt_timers st)" "map_of (wt_timers st) str = None"
  shows "\<not> r \<and> AddTimer_unit u ok str s st' = Inr (False, st') \<and> wt_queue st' = wt_queue st \<and> wt_deleted (snd (WDelTimer str st')) = wt_deleted st @ [at_id t]"
  using assms by (auto simp: AddTimer_unit_def Let_def map_of_minsert WDelTimer_def)

end
