(* ===== verification/DirList.thy ===== *)
theory DirList
  imports XPrelude "HOL-Library.Sublist"
begin

text \<open>
  Directory listing (\<open>DirPtr/DirPtr.cpp\<close>) on its two implementations (\<open>DirPtr/DirPtrImpl_Linux.cpp\<close>, \<open>DirPtr/DirPtrImpl_Win32.cpp\<close>), and the
  directory functions (\<open>DirPtr/DirImpl_Linux.cpp\<close>, \<open>DirPtr/DirImpl_Win32.cpp\<close>). A directory is the list of its entries in the order in which the system returns them;
  an open stream holds the entries that were not read yet. Which directories exist is the argument \<open>dirs\<close>. The class chooses its implementation when it is compiled:
  here it takes the operations of one as a record. The interface \<open>dir_stream\<close> states what \<open>DirPtr\<close> needs of an implementation and is interpreted on both.
\<close>

record dirent =
  d_name :: string
  d_type :: int

type_synonym dirs = "string \<Rightarrow> dirent list option"

subsection \<open>The implementation on Linux\<close>

record ldir =
  ld_bFlag :: bool
  ld_dp :: "dirent list option"
  ld_dirp :: "dirent option"

definition LDir_new :: ldir where
  "LDir_new = \<lparr>ld_bFlag = False, ld_dp = None, ld_dirp = None\<rparr>"

text \<open>\<open>readdir\<close> stores what it returns; without a stream its behaviour is undefined.\<close>

definition LDir_readdir :: "ldir \<Rightarrow> xerror + ldir" where
  "LDir_readdir d =
     (case ld_dp d of
        None \<Rightarrow> Inl Undefined
      | Some [] \<Rightarrow> Inr (d\<lparr>ld_dirp := None\<rparr>)
      | Some (e # es) \<Rightarrow> Inr (d\<lparr>ld_dp := Some es, ld_dirp := Some e\<rparr>))"

definition LDir_Init :: "dirs \<Rightarrow> string \<Rightarrow> ldir \<Rightarrow> xerror + (bool \<times> ldir)" where
  "LDir_Init dirs path d =
     (if ld_bFlag d then Inr (False, d)
      else
        let d1 = d\<lparr>ld_dp := dirs path\<rparr>
        in if ld_dp d1 = None then Inr (False, d1)
           else case LDir_readdir d1 of
                  Inl e \<Rightarrow> Inl e
                | Inr d2 \<Rightarrow> if ld_dirp d2 = None then Inr (False, d2) else Inr (True, d2\<lparr>ld_bFlag := True\<rparr>))"

definition LDir_End :: "ldir \<Rightarrow> bool \<times> ldir" where
  "LDir_End d = (if ld_bFlag d \<and> ld_dirp d \<noteq> None then (False, d) else (True, d\<lparr>ld_dp := None\<rparr>))"

definition LDir_Next :: "ldir \<Rightarrow> xerror + ldir" where
  "LDir_Next d =
     (case LDir_readdir d of
        Inl e \<Rightarrow> Inl e
      | Inr d1 \<Rightarrow> Inr (if ld_dirp d1 = None then d1\<lparr>ld_bFlag := False\<rparr> else d1))"

definition LDir_GetCurrent :: "ldir \<Rightarrow> string" where
  "LDir_GetCurrent d = (case ld_dirp d of None \<Rightarrow> '''' | Some e \<Rightarrow> d_name e)"

definition LDir_GetType :: "ldir \<Rightarrow> int" where
  "LDir_GetType d = (case ld_dirp d of None \<Rightarrow> -1 | Some e \<Rightarrow> d_type e)"

text \<open>A copy starts without a stream, and an assignment only closes the stream of its target.\<close>

definition LDir_copy :: "ldir \<Rightarrow> ldir" where
  "LDir_copy th = LDir_new"

definition LDir_assign :: "ldir \<Rightarrow> ldir \<Rightarrow> ldir" where
  "LDir_assign th d = (if ld_dp d \<noteq> None then \<lparr>ld_bFlag = False, ld_dp = None, ld_dirp = None\<rparr> else d)"

subsection \<open>The implementation on Windows\<close>

text \<open>The path with its suffix is written into \<open>MAX_PATH\<close> characters, which are 260 in \<open>windows.h\<close>.\<close>

record wdir =
  wd_bflag :: bool
  wd_hFile :: "dirent list option"
  wd_fileInfo :: dirent

definition WDir_new :: "dirent \<Rightarrow> wdir" where
  "WDir_new junk = \<lparr>wd_bflag = False, wd_hFile = None, wd_fileInfo = junk\<rparr>"

definition WDir_Init :: "dirs \<Rightarrow> string \<Rightarrow> wdir \<Rightarrow> xerror + (bool \<times> wdir)" where
  "WDir_Init dirs path d =
     (if 260 < length path + 3 then Inl Undefined
      else if wd_bflag d then Inr (False, d)
      else case dirs path of
             None \<Rightarrow> Inr (False, d\<lparr>wd_hFile := None\<rparr>)
           | Some [] \<Rightarrow> Inr (False, d\<lparr>wd_hFile := None\<rparr>)
           | Some (e # es) \<Rightarrow> Inr (True, d\<lparr>wd_bflag := True, wd_hFile := Some es, wd_fileInfo := e\<rparr>))"

definition WDir_End :: "wdir \<Rightarrow> bool \<times> wdir" where
  "WDir_End d = (if wd_bflag d then (False, d) else (True, if wd_hFile d \<noteq> None then d\<lparr>wd_hFile := None\<rparr> else d))"

definition WDir_Next :: "wdir \<Rightarrow> xerror + wdir" where
  "WDir_Next d =
     (if wd_bflag d then
        (case wd_hFile d of
           None \<Rightarrow> Inr d
         | Some [] \<Rightarrow> Inr (d\<lparr>wd_bflag := False\<rparr>)
         | Some (e # es) \<Rightarrow> Inr (d\<lparr>wd_hFile := Some es, wd_fileInfo := e\<rparr>))
      else Inr d)"

definition WDir_GetCurrent :: "wdir \<Rightarrow> string" where
  "WDir_GetCurrent d = (if \<not> wd_bflag d then '''' else d_name (wd_fileInfo d))"

definition WDir_GetType :: "wdir \<Rightarrow> int" where
  "WDir_GetType d = (if \<not> wd_bflag d then -1 else d_type (wd_fileInfo d))"

definition WDir_copy :: "dirent \<Rightarrow> wdir \<Rightarrow> wdir" where
  "WDir_copy junk th = WDir_new junk"

text \<open>The assignment closes the handle but keeps it.\<close>

definition WDir_assign :: "wdir \<Rightarrow> wdir \<Rightarrow> wdir" where
  "WDir_assign th d = (if wd_hFile d \<noteq> None then d\<lparr>wd_bflag := False\<rparr> else d)"

subsection \<open>\<open>DirPtr\<close>\<close>

record 'd dirops =
  op_End :: "'d \<Rightarrow> bool \<times> 'd"
  op_Next :: "'d \<Rightarrow> xerror + 'd"
  op_GetCurrent :: "'d \<Rightarrow> string"
  op_GetType :: "'d \<Rightarrow> int"

definition linux_ops :: "ldir dirops" where
  "linux_ops = \<lparr>op_End = LDir_End, op_Next = LDir_Next, op_GetCurrent = LDir_GetCurrent, op_GetType = LDir_GetType\<rparr>"

definition win_ops :: "wdir dirops" where
  "win_ops = \<lparr>op_End = WDir_End, op_Next = WDir_Next, op_GetCurrent = WDir_GetCurrent, op_GetType = WDir_GetType\<rparr>"

text \<open>Where the implementation object lies: on the heap, in the allocator of the caller, or nowhere any more.\<close>

datatype imp_place = OnHeap | InPool | Gone

type_synonym pfunc = "string \<Rightarrow> int \<Rightarrow> bool"

record 'd dirptr =
  dp_Imp :: 'd
  dp_place :: imp_place
  dp_pAllocator :: bool
  dp_findVec :: "pfunc list"
  dp_filter :: "pfunc list"

definition AddFind :: "pfunc \<Rightarrow> 'd dirptr \<Rightarrow> 'd dirptr" where
  "AddFind f p = p\<lparr>dp_findVec := dp_findVec p @ [f]\<rparr>"

definition AddFilter :: "pfunc \<Rightarrow> 'd dirptr \<Rightarrow> 'd dirptr" where
  "AddFilter f p = p\<lparr>dp_filter := dp_filter p @ [f]\<rparr>"

definition strstr :: "string \<Rightarrow> string \<Rightarrow> bool" where
  "strstr s t = list_ex (prefix t) (suffixes s)"

definition IsCurOrParentDir :: pfunc where
  "IsCurOrParentDir name type = (name = ''.'' \<or> strstr name ''..'')"

definition InitFiler :: "'d dirptr \<Rightarrow> 'd dirptr" where
  "InitFiler p = AddFilter IsCurOrParentDir p"

text \<open>The allocator is \<open>None\<close> when there is none, and otherwise says whether it has memory.\<close>

definition DirPtr_new :: "'d \<Rightarrow> bool option \<Rightarrow> 'd dirptr" where
  "DirPtr_new imp pMem =
     InitFiler \<lparr>dp_Imp = imp, dp_place = (if pMem = Some True then InPool else OnHeap), dp_pAllocator = (pMem \<noteq> None), dp_findVec = [], dp_filter = []\<rparr>"

text \<open>Memory is given back to where the allocator says; memory of the heap given to the allocator, and a second release, are undefined.\<close>

definition DirPtr_destroy :: "'d dirptr \<Rightarrow> xerror + 'd dirptr" where
  "DirPtr_destroy p =
     (if dp_place p = (if dp_pAllocator p then InPool else OnHeap) then Inr (p\<lparr>dp_place := Gone\<rparr>) else Inl Undefined)"

definition IsFind :: "'d dirptr \<Rightarrow> string \<Rightarrow> int \<Rightarrow> bool" where
  "IsFind p name type = (dp_findVec p = [] \<or> list_ex (\<lambda>f. f name type) (dp_findVec p))"

definition IsNot :: "'d dirptr \<Rightarrow> string \<Rightarrow> int \<Rightarrow> bool" where
  "IsNot p name type = list_ex (\<lambda>f. f name type) (dp_filter p)"

definition skips :: "'d dirptr \<Rightarrow> string \<Rightarrow> int \<Rightarrow> bool" where
  "skips p name type = (IsNot p name type \<or> dp_findVec p \<noteq> [] \<and> \<not> IsFind p name type)"

text \<open>The two loops over \<open>_Imp\<close>, on the predicate of the entries that are skipped. A loop that does not end is \<open>None\<close>.\<close>

partial_function (option) deref_loop :: "'d dirops \<Rightarrow> pfunc \<Rightarrow> 'd \<Rightarrow> (xerror + 'd) option" where
  "deref_loop ops sk d =
     (case op_End ops d of (b, d1) \<Rightarrow>
        if b then Some (Inr d1)
        else if sk (op_GetCurrent ops d1) (op_GetType ops d1)
             then (case op_Next ops d1 of Inl e \<Rightarrow> Some (Inl e) | Inr d2 \<Rightarrow> deref_loop ops sk d2)
             else Some (Inr d1))"

partial_function (option) incr_loop :: "'d dirops \<Rightarrow> pfunc \<Rightarrow> 'd \<Rightarrow> (xerror + 'd) option" where
  "incr_loop ops sk d =
     (case op_Next ops d of
        Inl e \<Rightarrow> Some (Inl e)
      | Inr d1 \<Rightarrow>
          if sk (op_GetCurrent ops d1) (op_GetType ops d1)
          then (case op_End ops d1 of (b, d2) \<Rightarrow> if b then Some (Inr d2) else incr_loop ops sk d2)
          else Some (Inr d1))"

definition DirPtr_Init :: "('d \<Rightarrow> xerror + (bool \<times> 'd)) \<Rightarrow> 'd dirptr \<Rightarrow> xerror + (bool \<times> 'd dirptr)" where
  "DirPtr_Init init p =
     (if dp_place p = Gone then Inl Undefined
      else case init (dp_Imp p) of Inl e \<Rightarrow> Inl e | Inr (b, d) \<Rightarrow> Inr (b, p\<lparr>dp_Imp := d\<rparr>))"

definition DirPtr_End :: "'d dirops \<Rightarrow> 'd dirptr \<Rightarrow> xerror + (bool \<times> 'd dirptr)" where
  "DirPtr_End ops p =
     (if dp_place p = Gone then Inl Undefined
      else case op_End ops (dp_Imp p) of (b, d) \<Rightarrow> Inr (b, p\<lparr>dp_Imp := d\<rparr>))"

definition DirPtr_deref :: "'d dirops \<Rightarrow> 'd dirptr \<Rightarrow> (xerror + (string \<times> 'd dirptr)) option" where
  "DirPtr_deref ops p =
     (if dp_place p = Gone then Some (Inl Undefined)
      else case deref_loop ops (skips p) (dp_Imp p) of
             None \<Rightarrow> None
           | Some (Inl e) \<Rightarrow> Some (Inl e)
           | Some (Inr d) \<Rightarrow> Some (Inr (op_GetCurrent ops d, p\<lparr>dp_Imp := d\<rparr>)))"

definition DirPtr_incr :: "'d dirops \<Rightarrow> 'd dirptr \<Rightarrow> (xerror + 'd dirptr) option" where
  "DirPtr_incr ops p =
     (if dp_place p = Gone then Some (Inl Undefined)
      else case incr_loop ops (skips p) (dp_Imp p) of
             None \<Rightarrow> None
           | Some (Inl e) \<Rightarrow> Some (Inl e)
           | Some (Inr d) \<Rightarrow> Some (Inr (p\<lparr>dp_Imp := d\<rparr>)))"

text \<open>
  \<open>it++\<close> moves like \<open>++it\<close> and returns a copy, which shares the implementation object and destroys it at the end of the expression.
\<close>

definition DirPtr_postincr :: "'d dirops \<Rightarrow> 'd dirptr \<Rightarrow> (xerror + 'd dirptr) option" where
  "DirPtr_postincr ops p =
     (case DirPtr_incr ops p of
        None \<Rightarrow> None
      | Some (Inl e) \<Rightarrow> Some (Inl e)
      | Some (Inr p1) \<Rightarrow> Some (DirPtr_destroy p1))"

text \<open>The loop the class is made for: \<open>for (; !it.End(); ++it) names.push_back(*it);\<close>\<close>

partial_function (option) dir_walk :: "'d dirops \<Rightarrow> 'd dirptr \<Rightarrow> string list \<Rightarrow> (xerror + (string list \<times> 'd dirptr)) option" where
  "dir_walk ops p acc =
     (case DirPtr_End ops p of
        Inl e \<Rightarrow> Some (Inl e)
      | Inr (b, p1) \<Rightarrow>
          if b then Some (Inr (acc, p1))
          else case DirPtr_deref ops p1 of
                 None \<Rightarrow> None
               | Some (Inl e) \<Rightarrow> Some (Inl e)
               | Some (Inr (s, p2)) \<Rightarrow>
                   (case DirPtr_incr ops p2 of
                      None \<Rightarrow> None
                    | Some (Inl e) \<Rightarrow> Some (Inl e)
                    | Some (Inr p3) \<Rightarrow> dir_walk ops p3 (acc @ [s])))"

definition list_dir :: "'d dirops \<Rightarrow> ('d \<Rightarrow> xerror + (bool \<times> 'd)) \<Rightarrow> 'd dirptr \<Rightarrow> (xerror + (string list \<times> 'd dirptr)) option" where
  "list_dir ops init p = (case DirPtr_Init init p of Inl e \<Rightarrow> Some (Inl e) | Inr (b, p1) \<Rightarrow> dir_walk ops p1 [])"

subsection \<open>The interface of an implementation\<close>

definition sk_ent :: "pfunc \<Rightarrow> dirent \<Rightarrow> bool" where
  "sk_ent sk e = sk (d_name e) (d_type e)"

locale dir_stream =
  fixes ops :: "'d dirops"
    and wf :: "'d \<Rightarrow> bool"
    and pending :: "'d \<Rightarrow> dirent list"
    and closed :: "'d \<Rightarrow> bool"
  assumes End_more: "wf d \<Longrightarrow> pending d \<noteq> [] \<Longrightarrow> op_End ops d = (False, d)"
    and End_done: "wf d \<Longrightarrow> pending d = [] \<Longrightarrow> \<exists>d'. op_End ops d = (True, d') \<and> closed d'"
    and closed_wf: "closed d \<Longrightarrow> wf d \<and> pending d = []"
    and Next_law: "wf d \<Longrightarrow> pending d = e # es \<Longrightarrow> (case op_Next ops d of Inl _ \<Rightarrow> False | Inr d' \<Rightarrow> wf d' \<and> pending d' = es)"
    and cur_more: "wf d \<Longrightarrow> pending d = e # es \<Longrightarrow> op_GetCurrent ops d = d_name e \<and> op_GetType ops d = d_type e"
    and cur_done: "wf d \<Longrightarrow> pending d = [] \<Longrightarrow> op_GetCurrent ops d = ''''"
begin

lemma Next_more: "wf d \<Longrightarrow> pending d = e # es \<Longrightarrow> \<exists>d'. op_Next ops d = Inr d' \<and> wf d' \<and> pending d' = es"
  using Next_law [of d e es] by (cases "op_Next ops d") auto

lemma deref_skips:
  "wf d \<Longrightarrow> \<exists>d'. deref_loop ops sk d = Some (Inr d') \<and> wf d' \<and> pending d' = dropWhile (sk_ent sk) (pending d)
     \<and> (pending d' = [] \<longrightarrow> closed d')"
proof (induction "pending d" arbitrary: d)
  case Nil
  with End_done [of d] closed_wf show ?case by (fastforce simp: deref_loop.simps [of _ _ d])
next
  case (Cons e es)
  have p: "pending d = e # es" using Cons.hyps(2) by simp
  with Cons.prems obtain d1 where d1: "op_Next ops d = Inr d1" "wf d1" "pending d1 = es" using Next_more by blast
  show ?case
  proof (cases "sk_ent sk e")
    case True
    then have "deref_loop ops sk d = deref_loop ops sk d1"
      using cur_more [OF Cons.prems p] d1 p End_more [OF Cons.prems] by (simp add: deref_loop.simps [of _ _ d] sk_ent_def)
    with Cons.hyps(1) [of d1] d1 p True show ?thesis by auto
  next
    case False
    then have "deref_loop ops sk d = Some (Inr d)"
      using cur_more [OF Cons.prems p] p End_more [OF Cons.prems] by (simp add: deref_loop.simps [of _ _ d] sk_ent_def)
    with False p Cons.prems show ?thesis by auto
  qed
qed

lemma incr_skips:
  "wf d \<Longrightarrow> pending d = e # es \<Longrightarrow> \<exists>d'. incr_loop ops sk d = Some (Inr d') \<and> wf d' \<and> pending d' = dropWhile (sk_ent sk) es"
proof (induction es arbitrary: d e)
  case Nil
  then obtain d1 where d1: "op_Next ops d = Inr d1" "wf d1" "pending d1 = []" using Next_more by blast
  with End_done [of d1] obtain d2 where d2: "op_End ops d1 = (True, d2)" "closed d2" by blast
  with d1 closed_wf [of d2] show ?case by (auto simp: incr_loop.simps [of _ _ d])
next
  case (Cons e' es)
  then obtain d1 where d1: "op_Next ops d = Inr d1" "wf d1" "pending d1 = e' # es" using Next_more by blast
  with cur_more [of d1] End_more [of d1] Cons.IH [of d1 e'] show ?case
    by (auto simp: incr_loop.simps [of _ _ d] sk_ent_def)
qed

lemma dropWhile_hd_ok: "dropWhile P xs = [] \<or> list_ex (\<lambda>x. \<not> P x) (dropWhile P xs)"
  by (induction xs) auto

lemma walk_lists:
  "dp_place p \<noteq> Gone \<Longrightarrow> wf (dp_Imp p) \<Longrightarrow> pending (dp_Imp p) = [] \<or> list_ex (\<lambda>e. \<not> sk_ent (skips p) e) (pending (dp_Imp p)) \<Longrightarrow>
   \<exists>d'. dir_walk ops p acc = Some (Inr (acc @ map d_name (filter (\<lambda>e. \<not> sk_ent (skips p) e) (pending (dp_Imp p))), p\<lparr>dp_Imp := d'\<rparr>)) \<and> closed d'"
proof (induction "length (pending (dp_Imp p))" arbitrary: p acc rule: less_induct)
  case less
  show ?case
  proof (cases "pending (dp_Imp p) = []")
    case True
    with End_done [of "dp_Imp p"] less.prems obtain d' where "op_End ops (dp_Imp p) = (True, d')" "closed d'" by blast
    with True less.prems show ?thesis by (auto simp: dir_walk.simps [of _ p] DirPtr_End_def)
  next
    case False
    let ?P = "sk_ent (skips p)"
    from deref_skips [OF less.prems(2), of "skips p"] obtain d1 where d1: "deref_loop ops (skips p) (dp_Imp p) = Some (Inr d1)" "wf d1"
      "pending d1 = dropWhile ?P (pending (dp_Imp p))" by blast
    from False less.prems(3) have ne: "dropWhile ?P (pending (dp_Imp p)) \<noteq> []" by (auto simp: list_ex_iff)
    then obtain e es where e: "dropWhile ?P (pending (dp_Imp p)) = e # es" by (cases "dropWhile ?P (pending (dp_Imp p))") auto
    then have ok: "\<not> ?P e" by (simp add: dropWhile_eq_Cons_conv)
    from incr_skips [OF d1(2)] d1(3) e obtain d2 where d2: "incr_loop ops (skips p) d1 = Some (Inr d2)" "wf d2"
      "pending d2 = dropWhile ?P es" by metis
    let ?p2 = "p\<lparr>dp_Imp := d2\<rparr>"
    have sk: "skips (p\<lparr>dp_Imp := x\<rparr>) = skips p" for x by (simp add: skips_def IsNot_def IsFind_def fun_eq_iff)
    have "length (e # es) \<le> length (pending (dp_Imp p))" by (metis e length_dropWhile_le)
    then have len: "length (pending (dp_Imp ?p2)) < length (pending (dp_Imp p))"
      using length_dropWhile_le [of ?P es] d2(3) by simp
    have fl: "filter (\<lambda>e. \<not> ?P e) (dropWhile ?P xs) = filter (\<lambda>e. \<not> ?P e) xs" for xs by (induction xs) auto
    have walk: "dir_walk ops p acc = dir_walk ops ?p2 (acc @ [d_name e])"
      using less.prems False d1 d2 e End_more [OF less.prems(2) False] cur_more [OF d1(2), of e es] sk
      by (simp add: dir_walk.simps [of _ p] DirPtr_End_def DirPtr_deref_def DirPtr_incr_def)
    have "filter (\<lambda>e. \<not> ?P e) (pending (dp_Imp p)) = e # filter (\<lambda>e. \<not> ?P e) es"
      using fl [of "pending (dp_Imp p)"] e ok by simp
    with less.hyps [OF len, of "acc @ [d_name e]"] walk d2 less.prems(1) dropWhile_hd_ok [of ?P es] fl [of es] sk show ?thesis
      by simp
  qed
qed

lemma walk_none:
  "dp_place p \<noteq> Gone \<Longrightarrow> wf (dp_Imp p) \<Longrightarrow> pending (dp_Imp p) \<noteq> [] \<Longrightarrow> list_all (sk_ent (skips p)) (pending (dp_Imp p)) \<Longrightarrow>
   \<exists>d'. closed d' \<and> DirPtr_End ops p = Inr (False, p) \<and> DirPtr_deref ops p = Some (Inr ('''', p\<lparr>dp_Imp := d'\<rparr>))"
  using deref_skips [of "dp_Imp p" "skips p"] End_more [of "dp_Imp p"] cur_done closed_wf
  by (fastforce simp: DirPtr_End_def DirPtr_deref_def list_all_iff)

end

subsection \<open>The two implementations provide it\<close>

definition ldir_wf :: "ldir \<Rightarrow> bool" where
  "ldir_wf d = (ld_bFlag d = (ld_dirp d \<noteq> None) \<and> (ld_bFlag d \<longrightarrow> ld_dp d \<noteq> None))"

definition ldir_pending :: "ldir \<Rightarrow> dirent list" where
  "ldir_pending d = (case ld_dirp d of None \<Rightarrow> [] | Some e \<Rightarrow> e # the (ld_dp d))"

definition wdir_wf :: "wdir \<Rightarrow> bool" where
  "wdir_wf d = (wd_bflag d \<longrightarrow> wd_hFile d \<noteq> None)"

definition wdir_pending :: "wdir \<Rightarrow> dirent list" where
  "wdir_pending d = (if wd_bflag d then wd_fileInfo d # the (wd_hFile d) else [])"

definition wdir_closed :: "wdir \<Rightarrow> bool" where
  "wdir_closed d = (\<not> wd_bflag d \<and> wd_hFile d = None)"

lemmas ldir_defs = ldir_wf_def ldir_pending_def linux_ops_def LDir_End_def LDir_Next_def LDir_readdir_def LDir_GetCurrent_def LDir_GetType_def LDir_new_def

lemmas wdir_defs = wdir_wf_def wdir_pending_def wdir_closed_def win_ops_def WDir_End_def WDir_Next_def WDir_GetCurrent_def WDir_GetType_def WDir_new_def

interpretation ls: dir_stream linux_ops ldir_wf ldir_pending "\<lambda>d. d = LDir_new"
  by unfold_locales (auto simp: ldir_defs split: option.splits list.splits)

interpretation ws: dir_stream win_ops wdir_wf wdir_pending wdir_closed
  by unfold_locales (auto simp: wdir_defs split: option.splits list.splits if_splits)

lemma LDir_Init_opens:
  "dirs path = Some (e # es) \<Longrightarrow> LDir_Init dirs path LDir_new = Inr (True, \<lparr>ld_bFlag = True, ld_dp = Some es, ld_dirp = Some e\<rparr>)"
  by (simp add: LDir_Init_def LDir_readdir_def LDir_new_def)

lemma WDir_Init_opens:
  "length path \<le> 257 \<Longrightarrow> dirs path = Some (e # es) \<Longrightarrow>
   WDir_Init dirs path (WDir_new j) = Inr (True, \<lparr>wd_bflag = True, wd_hFile = Some es, wd_fileInfo = e\<rparr>)"
  by (simp add: WDir_Init_def WDir_new_def)

text \<open>What an object is set up with does not depend on the implementation.\<close>

definition accepted :: "'d dirptr \<Rightarrow> dirent \<Rightarrow> bool" where
  "accepted p e = (\<not> skips p (d_name e) (d_type e))"

lemma accepted_eq: "accepted p = (\<lambda>e. \<not> sk_ent (skips p) e)"
  by (simp add: accepted_def sk_ent_def fun_eq_iff)

lemma skips_Imp [simp]: "skips (p\<lparr>dp_Imp := d\<rparr>) = skips p"
  by (simp add: skips_def IsNot_def IsFind_def fun_eq_iff)

lemma accepted_Imp [simp]: "accepted (p\<lparr>dp_Imp := d\<rparr>) = accepted p"
  by (simp add: accepted_def fun_eq_iff)

lemma incr_closed_linux: "incr_loop linux_ops sk LDir_new = Some (Inl Undefined)"
  by (subst incr_loop.simps) (simp add: ldir_defs)

lemma list_dir_linux:
  assumes "dp_place p \<noteq> Gone" "dp_Imp p = LDir_new" "dirs path = Some es" "es \<noteq> []"
  shows "list_ex (accepted p) es \<Longrightarrow> list_dir linux_ops (LDir_Init dirs path) p = Some (Inr (map d_name (filter (accepted p) es), p))"
    and "\<not> list_ex (accepted p) es \<Longrightarrow> list_dir linux_ops (LDir_Init dirs path) p = Some (Inl Undefined)"
proof -
  from assms(4) obtain e es1 where es: "es = e # es1" by (cases es) auto
  let ?d = "\<lparr>ld_bFlag = True, ld_dp = Some es1, ld_dirp = Some e\<rparr>"
  let ?p = "p\<lparr>dp_Imp := ?d\<rparr>"
  have init: "list_dir linux_ops (LDir_Init dirs path) p = dir_walk linux_ops ?p []"
    using assms LDir_Init_opens [of dirs path e es1] es by (simp add: list_dir_def DirPtr_Init_def)
  have wf: "ldir_wf ?d" "ldir_pending ?d = es" by (simp_all add: ldir_defs es)
  { assume "list_ex (accepted p) es"
    with ls.walk_lists [of ?p "[]"] wf assms(1) init show "list_dir linux_ops (LDir_Init dirs path) p = Some (Inr (map d_name (filter (accepted p) es), p))"
      using assms(2) by (simp flip: accepted_eq) }
  { assume "\<not> list_ex (accepted p) es"
    with ls.walk_none [of ?p] wf assms have "DirPtr_End linux_ops ?p = Inr (False, ?p)" "DirPtr_deref linux_ops ?p = Some (Inr ('''', p))"
      by (auto simp: list_all_iff list_ex_iff accepted_eq)
    then show "list_dir linux_ops (LDir_Init dirs path) p = Some (Inl Undefined)"
      using assms(1,2) by (simp add: init dir_walk.simps [of _ ?p] DirPtr_incr_def incr_closed_linux) }
qed

lemma list_dir_win:
  assumes "dp_place p \<noteq> Gone" "dp_Imp p = WDir_new j" "length path \<le> 257" "dirs path = Some es" "es \<noteq> []"
  shows "\<exists>d'. wdir_closed d' \<and> list_dir win_ops (WDir_Init dirs path) p =
    Some (Inr (if list_ex (accepted p) es then map d_name (filter (accepted p) es) else [''''], p\<lparr>dp_Imp := d'\<rparr>))"
proof -
  from assms(5) obtain e es1 where es: "es = e # es1" by (cases es) auto
  let ?d = "\<lparr>wd_bflag = True, wd_hFile = Some es1, wd_fileInfo = e\<rparr>"
  let ?p = "p\<lparr>dp_Imp := ?d\<rparr>"
  have init: "list_dir win_ops (WDir_Init dirs path) p = dir_walk win_ops ?p []"
    using assms WDir_Init_opens [of path dirs e es1] es by (simp add: list_dir_def DirPtr_Init_def)
  have wf: "wdir_wf ?d" "wdir_pending ?d = es" by (simp_all add: wdir_defs es)
  show ?thesis
  proof (cases "list_ex (accepted p) es")
    case True
    with ws.walk_lists [of ?p "[]"] wf assms(1) init show ?thesis by (auto simp flip: accepted_eq)
  next
    case False
    with ws.walk_none [of ?p] wf assms obtain d' where d': "wdir_closed d'" "DirPtr_End win_ops ?p = Inr (False, ?p)"
      "DirPtr_deref win_ops ?p = Some (Inr ('''', p\<lparr>dp_Imp := d'\<rparr>))"
      by (auto simp: list_all_iff list_ex_iff accepted_eq)
    have "DirPtr_incr win_ops (p\<lparr>dp_Imp := d'\<rparr>) = Some (Inr (p\<lparr>dp_Imp := d'\<rparr>))"
      using d'(1) assms(1) by (simp add: DirPtr_incr_def incr_loop.simps [of _ _ d'] wdir_defs)
    moreover have "DirPtr_End win_ops (p\<lparr>dp_Imp := d'\<rparr>) = Inr (True, p\<lparr>dp_Imp := d'\<rparr>)"
      using d'(1) assms(1) by (simp add: DirPtr_End_def wdir_defs)
    ultimately have "dir_walk win_ops ?p [] = Some (Inr ([''''], p\<lparr>dp_Imp := d'\<rparr>))"
      using d' by (simp add: dir_walk.simps [of _ ?p] dir_walk.simps [of _ "p\<lparr>dp_Imp := d'\<rparr>"])
    with False d'(1) init show ?thesis by auto
  qed
qed

subsection \<open>What a client sees\<close>

text \<open>An object with additional predicates, added by a derived class: an entry is accepted by \<open>dir_accepts\<close>.\<close>

definition dirptr_with :: "'d \<Rightarrow> bool option \<Rightarrow> pfunc list \<Rightarrow> pfunc list \<Rightarrow> 'd dirptr" where
  "dirptr_with imp mem fnd flt = fold AddFilter flt (fold AddFind fnd (DirPtr_new imp mem))"

definition dir_accepts :: "pfunc list \<Rightarrow> pfunc list \<Rightarrow> dirent \<Rightarrow> bool" where
  "dir_accepts fnd flt e =
     (\<not> IsCurOrParentDir (d_name e) (d_type e) \<and> \<not> list_ex (\<lambda>f. f (d_name e) (d_type e)) flt
      \<and> (fnd = [] \<or> list_ex (\<lambda>f. f (d_name e) (d_type e)) fnd))"

lemma fold_AddFind: "fold AddFind fs p = p\<lparr>dp_findVec := dp_findVec p @ fs\<rparr>"
  by (induction fs arbitrary: p) (simp_all add: AddFind_def)

lemma fold_AddFilter: "fold AddFilter fs p = p\<lparr>dp_filter := dp_filter p @ fs\<rparr>"
  by (induction fs arbitrary: p) (simp_all add: AddFilter_def)

lemma dirptr_with_eq:
  "dirptr_with imp mem fnd flt =
     \<lparr>dp_Imp = imp, dp_place = (if mem = Some True then InPool else OnHeap), dp_pAllocator = (mem \<noteq> None), dp_findVec = fnd,
      dp_filter = IsCurOrParentDir # flt\<rparr>"
  by (simp add: dirptr_with_def fold_AddFind fold_AddFilter DirPtr_new_def InitFiler_def AddFilter_def)

lemma accepted_with: "accepted (dirptr_with imp mem fnd flt) = dir_accepts fnd flt"
  by (auto simp: accepted_def skips_def IsNot_def IsFind_def dirptr_with_eq dir_accepts_def fun_eq_iff)

lemma dirptr_with_Imp [simp]: "dp_Imp (dirptr_with imp mem fnd flt) = imp" "dp_place (dirptr_with imp mem fnd flt) \<noteq> Gone"
  "(dirptr_with imp mem fnd flt)\<lparr>dp_Imp := d\<rparr> = dirptr_with d mem fnd flt"
  by (simp_all add: dirptr_with_eq)

text \<open>
  Property C33. A loop over a directory reports exactly the names of the accepted entries, in the order of the directory, on both systems, and leaves the directory
  closed, if there is an accepted entry and the path has at most 257 characters, which fit the buffer on Windows. Accepted are the entries that no filter rejects, among them the filter for the directory itself and its parent, and that
  one of the find predicates takes, if there are any.
\<close>

theorem directory_listing:
  assumes "dirs path = Some es" "list_ex (dir_accepts fnd flt) es" "length path \<le> 257"
  shows "list_dir linux_ops (LDir_Init dirs path) (dirptr_with LDir_new mem fnd flt)
      = Some (Inr (map d_name (filter (dir_accepts fnd flt) es), dirptr_with LDir_new mem fnd flt))
    \<and> (\<exists>d'. wdir_closed d' \<and> list_dir win_ops (WDir_Init dirs path) (dirptr_with (WDir_new j) mem fnd flt)
      = Some (Inr (map d_name (filter (dir_accepts fnd flt) es), dirptr_with d' mem fnd flt)))"
proof
  have ne: "es \<noteq> []" using assms(2) by auto
  show "list_dir linux_ops (LDir_Init dirs path) (dirptr_with LDir_new mem fnd flt)
      = Some (Inr (map d_name (filter (dir_accepts fnd flt) es), dirptr_with LDir_new mem fnd flt))"
    using list_dir_linux(1) [of "dirptr_with LDir_new mem fnd flt" dirs path es] assms ne by (simp add: accepted_with)
  show "\<exists>d'. wdir_closed d' \<and> list_dir win_ops (WDir_Init dirs path) (dirptr_with (WDir_new j) mem fnd flt)
      = Some (Inr (map d_name (filter (dir_accepts fnd flt) es), dirptr_with d' mem fnd flt))"
    using list_dir_win [of "dirptr_with (WDir_new j) mem fnd flt" j path dirs es] assms ne by (simp add: accepted_with)
qed

definition ex_dirs :: dirs where
  "ex_dirs path =
     (if path = ''d'' then Some [\<lparr>d_name = ''.'', d_type = 4\<rparr>, \<lparr>d_name = ''a'', d_type = 8\<rparr>, \<lparr>d_name = ''..'', d_type = 4\<rparr>, \<lparr>d_name = ''b'', d_type = 4\<rparr>]
      else if path = ''e'' then Some [\<lparr>d_name = ''.'', d_type = 4\<rparr>, \<lparr>d_name = ''..'', d_type = 4\<rparr>] else None)"

lemma directory_listing_witness:
  "list_dir linux_ops (LDir_Init ex_dirs ''d'') (dirptr_with LDir_new None [] [\<lambda>n t. t = 4])
     = Some (Inr ([''a''], dirptr_with LDir_new None [] [\<lambda>n t. t = 4]))"
  using directory_listing [of ex_dirs "''d''" "[\<lparr>d_name = ''.'', d_type = 4\<rparr>, \<lparr>d_name = ''a'', d_type = 8\<rparr>, \<lparr>d_name = ''..'', d_type = 4\<rparr>, \<lparr>d_name = ''b'', d_type = 4\<rparr>]"
      "[]" "[\<lambda>n t. t = 4]" None]
  by (simp add: ex_dirs_def dir_accepts_def IsCurOrParentDir_def strstr_def)

text \<open>
  Observation. If no entry of the directory is accepted, for example in an empty directory, the loop reads from a closed stream on Linux, which is undefined, and
  reports one empty name on Windows.
\<close>

theorem nothing_accepted:
  assumes "dirs path = Some es" "es \<noteq> []" "\<not> list_ex (dir_accepts fnd flt) es" "length path \<le> 257"
  shows "list_dir linux_ops (LDir_Init dirs path) (dirptr_with LDir_new mem fnd flt) = Some (Inl Undefined)
    \<and> (\<exists>d'. wdir_closed d' \<and> list_dir win_ops (WDir_Init dirs path) (dirptr_with (WDir_new j) mem fnd flt)
      = Some (Inr ([''''], dirptr_with d' mem fnd flt)))"
proof
  show "list_dir linux_ops (LDir_Init dirs path) (dirptr_with LDir_new mem fnd flt) = Some (Inl Undefined)"
    using list_dir_linux(2) [of "dirptr_with LDir_new mem fnd flt" dirs path es] assms by (simp add: accepted_with)
  show "\<exists>d'. wdir_closed d' \<and> list_dir win_ops (WDir_Init dirs path) (dirptr_with (WDir_new j) mem fnd flt)
      = Some (Inr ([''''], dirptr_with d' mem fnd flt))"
    using list_dir_win [of "dirptr_with (WDir_new j) mem fnd flt" j path dirs es] assms by (simp add: accepted_with)
qed

lemma nothing_accepted_witness:
  "list_dir linux_ops (LDir_Init ex_dirs ''e'') (dirptr_with LDir_new None [] []) = Some (Inl Undefined)"
  using nothing_accepted [of ex_dirs "''e''" "[\<lparr>d_name = ''.'', d_type = 4\<rparr>, \<lparr>d_name = ''..'', d_type = 4\<rparr>]" "[]" "[]" None]
  by (simp add: ex_dirs_def dir_accepts_def IsCurOrParentDir_def strstr_def)

text \<open>
  Observation. After \<open>it++\<close> the implementation object is gone, and every further use is undefined; the filter for the parent directory also hides every other name
  with two dots in a row.
\<close>

lemma postincr_destroys:
  "DirPtr_postincr ops p = Some (Inr p1) \<Longrightarrow> dp_place p1 = Gone \<and> DirPtr_End ops p1 = Inl Undefined \<and> DirPtr_incr ops p1 = Some (Inl Undefined)"
  by (auto simp: DirPtr_postincr_def DirPtr_destroy_def DirPtr_End_def DirPtr_incr_def split: option.splits sum.splits if_splits)

lemma strstr_sublist: "strstr s t = sublist t s"
  by (auto simp: strstr_def list_ex_iff sublist_altdef' Bex_def)

lemma two_dots_hidden: "sublist ''..'' name \<Longrightarrow> \<not> dir_accepts fnd flt \<lparr>d_name = name, d_type = t\<rparr>"
  by (simp add: dir_accepts_def IsCurOrParentDir_def strstr_sublist)

text \<open>Observation. An allocator without memory leaves the object on the heap, and the destructor gives that to the allocator.\<close>

lemma full_allocator_undefined: "DirPtr_destroy (dirptr_with imp (Some b) fnd flt) = (if b then Inr ((dirptr_with imp (Some b) fnd flt)\<lparr>dp_place := Gone\<rparr>) else Inl Undefined)"
  by (simp add: DirPtr_destroy_def dirptr_with_eq)

subsection \<open>Directory functions on Linux\<close>

text \<open>
  The system calls are arguments, with the results that they document: \<open>getcwd\<close> and \<open>readlink\<close> the text they write into a buffer of the given size, if they succeed,
  \<open>readlink\<close> without a terminating character, and the others zero on success.
\<close>

definition MAX_PATH :: nat where
  "MAX_PATH = 256"

definition X_OK :: nat where
  "X_OK = 1"

definition GetCurWorkDir :: "(nat \<Rightarrow> string option) \<Rightarrow> string" where
  "GetCurWorkDir getcwd = (case getcwd MAX_PATH of None \<Rightarrow> [] | Some s \<Rightarrow> s)"

definition GetExeFullPath :: "(string \<Rightarrow> nat \<Rightarrow> string option) \<Rightarrow> string" where
  "GetExeFullPath readlink = (case readlink ''/proc/self/exe'' MAX_PATH of None \<Rightarrow> [] | Some s \<Rightarrow> s)"

definition SetCurWorkDir :: "(string \<Rightarrow> int) \<Rightarrow> string \<Rightarrow> bool" where
  "SetCurWorkDir chdir path = (0 = chdir path)"

definition CreateDir :: "(string \<Rightarrow> nat \<Rightarrow> int) \<Rightarrow> string \<Rightarrow> nat \<Rightarrow> bool" where
  "CreateDir mkdir path mode = (0 = mkdir path mode)"

definition DeleteDir :: "(string \<Rightarrow> int) \<Rightarrow> string \<Rightarrow> bool" where
  "DeleteDir rmdir path = (0 = rmdir path)"

definition IsFileExist :: "(string \<Rightarrow> nat \<Rightarrow> int) \<Rightarrow> string \<Rightarrow> bool" where
  "IsFileExist access strFile = (0 = access strFile X_OK)"

definition MoveFile :: "(string \<Rightarrow> string \<Rightarrow> int) \<Rightarrow> string \<Rightarrow> string \<Rightarrow> bool" where
  "MoveFile rename oldFile newFile = (0 = rename oldFile newFile)"

definition DeleteFile :: "(string \<Rightarrow> int) \<Rightarrow> string \<Rightarrow> bool" where
  "DeleteFile remove file = (0 = remove file)"

text \<open>Observation. With the documented meaning of \<open>access\<close>, a file that exists but may not be executed is reported as missing.\<close>

lemma plain_file_missing:
  "(\<And>f m. (access f m = 0) = (f \<in> files \<and> (m = X_OK \<longrightarrow> f \<in> executables))) \<Longrightarrow>
   IsFileExist access f = (f \<in> files \<and> f \<in> executables)"
  by (auto simp: IsFileExist_def)

end
