(* ===== verification/WinService.thy ===== *)
theory WinService
  imports DBFormat "HOL-Library.Char_ord" "HOL-Library.List_Lexorder"
begin

text \<open>
  Services on Windows (\<open>SystemApi/Service_Win32.cpp\<close>). The static members of \<open>Service\<close> are a record: the table for the dispatcher with its capacity, the map of the
  services with their status, and whether there is an object. What the system is told (\<open>SetServiceStatus\<close>), what is logged and which hooks of a derived class run is
  recorded. The service manager is a parameter: the results of its functions are arguments (\<open>scm_answers\<close>), the handles it hands out are tracked, and the use of
  a handle that is not open is undefined. How a vector grows is the parameter \<open>grow\<close>.
\<close>

datatype svc_state = SERVICE_STOPPED | SERVICE_START_PENDING | SERVICE_STOP_PENDING | SERVICE_RUNNING | SERVICE_CONTINUE_PENDING
  | SERVICE_PAUSE_PENDING | SERVICE_PAUSED | NoState

text \<open>\<open>NoState\<close> is the zero that a status has before \<open>RegisterHandle\<close>.\<close>

fun state_code :: "svc_state \<Rightarrow> int" where
  "state_code NoState = 0"
| "state_code SERVICE_STOPPED = 1"
| "state_code SERVICE_START_PENDING = 2"
| "state_code SERVICE_STOP_PENDING = 3"
| "state_code SERVICE_RUNNING = 4"
| "state_code SERVICE_CONTINUE_PENDING = 5"
| "state_code SERVICE_PAUSE_PENDING = 6"
| "state_code SERVICE_PAUSED = 7"

record service_status =
  dwServiceType :: nat
  dwCurrentState :: svc_state
  dwControlsAccepted :: nat
  dwWin32ExitCode :: "32 word"
  dwServiceSpecificExitCode :: nat
  dwCheckPoint :: nat
  dwWaitHint :: nat

record svr_info =
  ServiceStatus :: service_status
  hStatus :: nat
  pLogFuncPtr :: "nat option"

definition SvrInfo_new :: svr_info where
  "SvrInfo_new =
     \<lparr>ServiceStatus = \<lparr>dwServiceType = 0, dwCurrentState = NoState, dwControlsAccepted = 0, dwWin32ExitCode = 0, dwServiceSpecificExitCode = 0,
        dwCheckPoint = 0, dwWaitHint = 0\<rparr>, hStatus = 0, pLogFuncPtr = None\<rparr>"

text \<open>An entry of the table is a name with its procedure, or the null entry.\<close>

type_synonym tab_entry = "(string \<times> nat) option"

datatype svc_hook = HookStop | HookShutDown | HookPause | HookContinue

record service =
  sv_tabVec :: "tab_entry list"
  sv_cap :: nat
  sv_ctrlMap :: "(string, svr_info) omap"
  sv_pThis :: bool
  sv_told :: "(nat \<times> service_status) list"
  sv_log :: "(nat \<times> string) list"
  sv_hooks :: "(svc_hook \<times> string) list"

definition MAX_SERVICE_COUNT :: nat where
  "MAX_SERVICE_COUNT = 5"

definition service_static :: service where
  "service_static = \<lparr>sv_tabVec = [], sv_cap = 0, sv_ctrlMap = [], sv_pThis = False, sv_told = [], sv_log = [], sv_hooks = []\<rparr>"

definition Service_new :: "service \<Rightarrow> service" where
  "Service_new st = st\<lparr>sv_pThis := True, sv_cap := max (sv_cap st) MAX_SERVICE_COUNT\<rparr>"

definition push_back :: "(nat \<Rightarrow> nat) \<Rightarrow> tab_entry \<Rightarrow> service \<Rightarrow> service" where
  "push_back grow e st =
     st\<lparr>sv_tabVec := sv_tabVec st @ [e], sv_cap := (if sv_cap st = length (sv_tabVec st) then max (grow (sv_cap st)) (Suc (sv_cap st)) else sv_cap st)\<rparr>"

definition RegisterService :: "(nat \<Rightarrow> nat) \<Rightarrow> string \<Rightarrow> nat \<Rightarrow> nat option \<Rightarrow> service \<Rightarrow> service" where
  "RegisterService grow name pfunc logFuncPtr st =
     (if int (sv_cap st) = (int (length (sv_tabVec st)) - 1) mod 2 ^ 64 then st
      else
        let entry = Some (name, pfunc);
            st1 = (if length (sv_tabVec st) < sv_cap st
                   then if sv_tabVec st = [] then push_back grow entry st
                        else st\<lparr>sv_tabVec := (sv_tabVec st)[length (sv_tabVec st) - 1 := entry]\<rparr>
                   else st);
            st2 = push_back grow None st1
        in st2\<lparr>sv_ctrlMap := minsert name (SvrInfo_new\<lparr>pLogFuncPtr := logFuncPtr\<rparr>) (sv_ctrlMap st2)\<rparr>)"

text \<open>The dispatcher starts the services of the table up to the first null entry; \<open>&m_tabVec[0]\<close> of an empty vector is undefined.\<close>

definition dispatched :: "tab_entry list \<Rightarrow> (string \<times> nat) list" where
  "dispatched tab = map the (takeWhile (\<lambda>e. e \<noteq> None) tab)"

definition InitInstance :: "service \<Rightarrow> xerror + (bool \<times> (string \<times> nat) list)" where
  "InitInstance st = (if sv_tabVec st = [] then Inl Undefined else Inr (sv_pThis st, dispatched (sv_tabVec st)))"

subsection \<open>Status and control requests\<close>

text \<open>A call through a null function pointer is undefined.\<close>

definition call_log :: "nat option \<Rightarrow> string \<Rightarrow> service \<Rightarrow> xerror + service" where
  "call_log f str st = (case f of None \<Rightarrow> Inl Undefined | Some k \<Rightarrow> Inr (st\<lparr>sv_log := sv_log st @ [(k, str)]\<rparr>))"

definition Log :: "string \<Rightarrow> string \<Rightarrow> service \<Rightarrow> xerror + service" where
  "Log name str st =
     (if sv_pThis st then
        (case map_of (sv_ctrlMap st) name of None \<Rightarrow> Inr st | Some i \<Rightarrow> call_log (pLogFuncPtr i) str st)
      else Inr st)"

definition set_info :: "string \<Rightarrow> svr_info \<Rightarrow> service \<Rightarrow> service" where
  "set_info name i st = st\<lparr>sv_ctrlMap := massign name i (sv_ctrlMap st)\<rparr>"

definition SetServiceStatus :: "svr_info \<Rightarrow> service \<Rightarrow> service" where
  "SetServiceStatus i st = st\<lparr>sv_told := sv_told st @ [(hStatus i, ServiceStatus i)]\<rparr>"

text \<open>The member \<open>unused\<close> of what a status handle points to; a handle that is no address of an integer is \<open>None\<close>.\<close>

definition put_text :: "nat \<Rightarrow> string \<Rightarrow> xerror + string" where
  "put_text n s = (if length s < n then Inr s else Inl Undefined)"

definition RegisterHandle :: "(nat \<Rightarrow> int option) \<Rightarrow> nat \<Rightarrow> string \<Rightarrow> nat \<Rightarrow> service \<Rightarrow> xerror + (bool \<times> service)" where
  "RegisterHandle unused h name uType st =
     (case map_of (sv_ctrlMap st) name of
        None \<Rightarrow> Inr (False, st)
      | Some i \<Rightarrow>
          let s1 = \<lparr>dwServiceType = uType, dwCurrentState = SERVICE_START_PENDING, dwControlsAccepted = 1 OR 4 OR 2, dwWin32ExitCode = 0,
                    dwServiceSpecificExitCode = 0, dwCheckPoint = 0, dwWaitHint = 0\<rparr>;
              i1 = i\<lparr>ServiceStatus := s1, hStatus := h\<rparr>
          in if h = 0 then Inr (False, set_info name i1 st)
             else case unused h of
                    None \<Rightarrow> Inl Undefined
                  | Some u \<Rightarrow>
                      (case put_text 32 (''RegisterHandle hStatus '' @ dec_int u) of
                         Inl e \<Rightarrow> Inl e
                       | Inr text \<Rightarrow>
                           (case call_log (pLogFuncPtr i1) text (set_info name i1 st) of
                              Inl e \<Rightarrow> Inl e
                            | Inr st2 \<Rightarrow>
                                let i2 = i1\<lparr>ServiceStatus := s1\<lparr>dwCurrentState := SERVICE_RUNNING\<rparr>\<rparr>
                                in Inr (True, SetServiceStatus i2 (set_info name i2 st2)))))"

text \<open>The control codes; \<open>OnStop\<close> and the other hooks do nothing in this class.\<close>

definition run_hook :: "svc_hook \<Rightarrow> string \<Rightarrow> service \<Rightarrow> service" where
  "run_hook k name st = st\<lparr>sv_hooks := sv_hooks st @ [(k, name)]\<rparr>"

fun control_effect :: "nat \<Rightarrow> (string \<times> svc_state \<times> svc_hook) option" where
  "control_effect c =
     (if c = 1 then Some (''Monitoring stopped.'', SERVICE_STOPPED, HookStop)
      else if c = 5 then Some (''Monitoring stopped shutdown.'', SERVICE_STOPPED, HookShutDown)
      else if c = 2 then Some (''Monitoring pause.'', SERVICE_PAUSED, HookPause)
      else if c = 3 then Some (''Monitoring continue.'', SERVICE_RUNNING, HookContinue)
      else None)"

definition Handle :: "string \<Rightarrow> nat \<Rightarrow> service_status \<Rightarrow> service \<Rightarrow> xerror + (nat \<times> service_status \<times> service)" where
  "Handle name dwControl s st =
     (case control_effect dwControl of
        None \<Rightarrow> Inr (2 ^ 32 - 1, s, st)
      | Some (text, new, hook) \<Rightarrow>
          (case Log name text st of
             Inl e \<Rightarrow> Inl e
           | Inr st1 \<Rightarrow> Inr (0, s\<lparr>dwWin32ExitCode := 0, dwCurrentState := new\<rparr>, run_hook hook name st1)))"

definition CtrlHandleEx :: "(nat \<Rightarrow> int option) \<Rightarrow> nat \<Rightarrow> string \<Rightarrow> service \<Rightarrow> xerror + (nat \<times> service)" where
  "CtrlHandleEx unused dwControl name st =
     (if \<not> sv_pThis st then Inr (2 ^ 32 - 1, st)
      else case map_of (sv_ctrlMap st) name of
             None \<Rightarrow> (case Log name ''con't find register server name'' st of Inl e \<Rightarrow> Inl e | Inr st1 \<Rightarrow> Inr (2 ^ 32 - 1, st1))
           | Some i \<Rightarrow>
               (case Handle name dwControl (ServiceStatus i) st of
                  Inl e \<Rightarrow> Inl e
                | Inr (ret, s, st1) \<Rightarrow>
                    let i1 = i\<lparr>ServiceStatus := s\<rparr>
                    in case unused (hStatus i1) of
                         None \<Rightarrow> Inl Undefined
                       | Some u \<Rightarrow>
                           (case put_text 64 (''CtrlHandleEx hStatus '' @ dec_int u @ '' ,ret:'' @ dec_nat ret) of
                              Inl e \<Rightarrow> Inl e
                            | Inr text \<Rightarrow>
                                (case Log name text (set_info name i1 st1) of
                                   Inl e \<Rightarrow> Inl e
                                 | Inr st2 \<Rightarrow> Inr (ret, SetServiceStatus i1 st2)))))"

definition SetServiceStopStatus :: "string \<Rightarrow> service \<Rightarrow> service" where
  "SetServiceStopStatus name st =
     (case map_of (sv_ctrlMap st) name of
        None \<Rightarrow> st
      | Some i \<Rightarrow>
          let i1 = i\<lparr>ServiceStatus := (ServiceStatus i)\<lparr>dwCurrentState := SERVICE_STOPPED, dwWin32ExitCode := -1\<rparr>\<rparr>
          in SetServiceStatus i1 (set_info name i1 st))"

definition IsServiceStopStatus :: "string \<Rightarrow> service \<Rightarrow> bool" where
  "IsServiceStopStatus name st =
     (case map_of (sv_ctrlMap st) name of None \<Rightarrow> False | Some i \<Rightarrow> dwCurrentState (ServiceStatus i) \<noteq> SERVICE_RUNNING)"

definition GetServiceStatus :: "string \<Rightarrow> service \<Rightarrow> int" where
  "GetServiceStatus name st =
     (case map_of (sv_ctrlMap st) name of None \<Rightarrow> -1 | Some i \<Rightarrow> state_code (dwCurrentState (ServiceStatus i)))"

definition SetExitCode :: "int \<Rightarrow> service_status option \<Rightarrow> service_status option" where
  "SetExitCode nCode = map_option (\<lambda>s. s\<lparr>dwWin32ExitCode := of_int nCode\<rparr>)"

definition SetCurrentStatus :: "svc_state \<Rightarrow> service_status option \<Rightarrow> service_status option" where
  "SetCurrentStatus dwStatus = map_option (\<lambda>s. s\<lparr>dwCurrentState := dwStatus\<rparr>)"

subsection \<open>The service manager\<close>

record scm_answers =
  an_manager :: bool
  an_service :: bool
  an_start :: bool
  an_error :: nat
  an_query :: "nat \<Rightarrow> bool \<times> svc_state"

text \<open>
  The answers of the service manager: whether it can be opened, whether the service can be opened or created, whether it starts, the error code, and the results of
  the queries in their order, each with what then stands in the status (which is indeterminate after a failed query).
\<close>

datatype scm_call = SetDescription string | QueryStatus | ControlStop | DeleteCall | StartCall nat

record scm =
  sc_open :: "nat list"
  sc_next :: nat
  sc_calls :: "(nat \<times> scm_call) list"

definition seqx :: "xerror + 'a \<Rightarrow> ('a \<Rightarrow> xerror + 'b) \<Rightarrow> xerror + 'b" where
  "seqx x f = (case x of Inl e \<Rightarrow> Inl e | Inr a \<Rightarrow> f a)"

lemma seqx_simps [simp]: "seqx (Inl e) f = Inl e" "seqx (Inr a) f = f a"
  by (simp_all add: seqx_def)

definition open_handle :: "bool \<Rightarrow> scm \<Rightarrow> nat \<times> scm" where
  "open_handle ok m =
     (if ok then (Suc (sc_next m), m\<lparr>sc_open := Suc (sc_next m) # sc_open m, sc_next := Suc (sc_next m)\<rparr>) else (0, m))"

definition use_handle :: "nat \<Rightarrow> scm_call \<Rightarrow> scm \<Rightarrow> xerror + scm" where
  "use_handle h c m = (if h \<in> set (sc_open m) then Inr (m\<lparr>sc_calls := sc_calls m @ [(h, c)]\<rparr>) else Inl Undefined)"

definition CloseServiceHandle :: "nat \<Rightarrow> scm \<Rightarrow> xerror + scm" where
  "CloseServiceHandle h m = (if h \<in> set (sc_open m) then Inr (m\<lparr>sc_open := remove1 h (sc_open m)\<rparr>) else Inl Undefined)"

text \<open>A handle for a service is opened through the handle of the manager, which has to be open.\<close>

definition open_service :: "bool \<Rightarrow> nat \<Rightarrow> scm \<Rightarrow> xerror + (nat \<times> scm)" where
  "open_service ok hm m = (if hm \<in> set (sc_open m) then Inr (open_handle ok m) else Inl Undefined)"

definition Create :: "scm_answers \<Rightarrow> string \<Rightarrow> scm \<Rightarrow> xerror + (bool \<times> scm)" where
  "Create an strDesc m =
     (case open_handle (an_manager an) m of (hm, m1) \<Rightarrow>
        if hm = 0 then Inr (False, m1)
        else seqx (open_service (an_service an) hm m1) (\<lambda>(hs, m2).
          if hs = 0 then seqx (CloseServiceHandle hm m2) (\<lambda>m3. Inr (False, m3))
          else seqx (use_handle hs (SetDescription strDesc) m2) (\<lambda>m3.
               seqx (CloseServiceHandle hs m3) (\<lambda>m4.
               seqx (CloseServiceHandle hm m4) (\<lambda>m5. Inr (True, m5))))))"

definition Delete :: "scm_answers \<Rightarrow> scm \<Rightarrow> xerror + scm" where
  "Delete an m =
     (case open_handle (an_manager an) m of (hm, m1) \<Rightarrow>
        if hm = 0 then Inr m1
        else seqx (open_service (an_service an) hm m1) (\<lambda>(hs, m2).
          seqx (if hs = 0 then Inr m2
                else seqx (use_handle hs QueryStatus m2) (\<lambda>m3.
                     seqx (if snd (an_query an 0) = SERVICE_RUNNING then use_handle hs ControlStop m3 else Inr m3) (\<lambda>m4.
                     seqx (use_handle hs DeleteCall m4) (CloseServiceHandle hs))))
            (CloseServiceHandle hm)))"

text \<open>The loop that waits until the service has started; the number of the last query is returned.\<close>

partial_function (option) wait_started :: "(nat \<Rightarrow> bool \<times> svc_state) \<Rightarrow> nat \<Rightarrow> nat option" where
  "wait_started q k = (if fst (q k) \<and> snd (q k) = SERVICE_START_PENDING then wait_started q (Suc k) else Some k)"

definition Start :: "scm_answers \<Rightarrow> nat \<Rightarrow> scm \<Rightarrow> (xerror + (bool \<times> scm)) option" where
  "Start an argc m =
     (case open_handle (an_manager an) m of (hm, m1) \<Rightarrow>
        if hm = 0 then Some (Inr (False, m1))
        else case open_service (an_service an) hm m1 of
               Inl e \<Rightarrow> Some (Inl e)
             | Inr (hs, m2) \<Rightarrow>
                 if hs = 0 then Some (seqx (CloseServiceHandle hm m2) (\<lambda>m3. Inr (False, m3)))
                 else case use_handle hs (StartCall argc) m2 of
                        Inl e \<Rightarrow> Some (Inl e)
                      | Inr m3 \<Rightarrow>
                          if \<not> an_start an then Some (seqx (CloseServiceHandle hs m3) (\<lambda>m4. seqx (CloseServiceHandle hm m4) (\<lambda>m5. Inr (False, m5))))
                          else case wait_started (an_query an) 0 of
                                 None \<Rightarrow> None
                               | Some _ \<Rightarrow>
                                   Some (seqx (use_handle hs QueryStatus m3) (\<lambda>m4.
                                         seqx (CloseServiceHandle hs m4) (\<lambda>m5.
                                         seqx (CloseServiceHandle hm m5) (\<lambda>m6. Inr (True, m6))))))"

definition Stop :: "scm_answers \<Rightarrow> string \<Rightarrow> service \<times> scm \<Rightarrow> xerror + (service \<times> scm)" where
  "Stop an name = (\<lambda>(st, m).
     (case open_handle (an_manager an) m of (hm, m1) \<Rightarrow>
        if hm = 0 then Inr (st, m1)
        else seqx (open_service (an_service an) hm m1) (\<lambda>(hs, m2).
          seqx (if hs = 0 then Inr (st, m2)
                else seqx (use_handle hs QueryStatus m2) (\<lambda>m3.
                     seqx (if snd (an_query an 0) = SERVICE_RUNNING
                           then seqx (Log name ''stop service'' st) (\<lambda>st1. seqx (use_handle hs ControlStop m3) (\<lambda>m4. Inr (st1, m4)))
                           else Inr (st, m3)) (\<lambda>(st1, m4).
                     seqx (CloseServiceHandle hs m4) (\<lambda>m5. Inr (st1, m5)))))
            (\<lambda>(st1, m3). seqx (CloseServiceHandle hm m3) (\<lambda>m4. Inr (st1, m4))))))"

definition IsInstalled :: "scm_answers \<Rightarrow> scm \<Rightarrow> xerror + (bool \<times> scm)" where
  "IsInstalled an m =
     (case open_handle (an_manager an) m of (hm, m1) \<Rightarrow>
        if hm = 0 then Inr (False, m1)
        else seqx (open_service (an_service an) hm m1) (\<lambda>(hs, m2).
          seqx (if hs = 0 then Inr (False, m2) else seqx (CloseServiceHandle hs m2) (\<lambda>m3. Inr (True, m3)))
            (\<lambda>(b, m3). seqx (CloseServiceHandle hm m3) (\<lambda>m4. Inr (b, m4)))))"

subsection \<open>Handles are closed\<close>

text \<open>The counter of the handles is above every open one.\<close>

definition scm_wf :: "scm \<Rightarrow> bool" where
  "scm_wf m = (\<forall>h \<in> set (sc_open m). h \<le> sc_next m)"

named_theorems scm_simps \<open>the operations on handles\<close>

declare open_handle_def [scm_simps] open_service_def [scm_simps] use_handle_def [scm_simps] CloseServiceHandle_def [scm_simps] scm_wf_def [scm_simps]

lemma wait_returns: "\<not> (fst (q (k + n)) \<and> snd (q (k + n)) = SERVICE_START_PENDING) \<Longrightarrow> \<exists>i. wait_started q k = Some i"
proof (induction n arbitrary: k)
  case 0
  then show ?case by (subst wait_started.simps) auto
next
  case (Suc n)
  then show ?case using Suc.IH [of "Suc k"] by (subst wait_started.simps) auto
qed

lemma Create_closes: "\<exists>b m1. Create an d m = Inr (b, m1) \<and> sc_open m1 = sc_open m \<and> b = (an_manager an \<and> an_service an)"
  by (auto simp: Create_def scm_simps)

lemma Delete_closes: "\<exists>m1. Delete an m = Inr m1 \<and> sc_open m1 = sc_open m"
  by (auto simp: Delete_def scm_simps)

lemma IsInstalled_closes: "\<exists>m1. IsInstalled an m = Inr (an_manager an \<and> an_service an, m1) \<and> sc_open m1 = sc_open m"
  by (auto simp: IsInstalled_def scm_simps)

lemma Stop_closes: "Stop an name (st, m) = Inr (st1, m1) \<Longrightarrow> sc_open m1 = sc_open m"
  by (auto simp: Stop_def scm_simps seqx_def split: if_splits sum.splits)

lemma Start_closes: "Start an argc m = Some r \<Longrightarrow> \<exists>b m1. r = Inr (b, m1) \<and> sc_open m1 = sc_open m \<and> b = (an_manager an \<and> an_service an \<and> an_start an)"
  by (auto simp: Start_def scm_simps split: if_splits option.splits)

datatype scm_op = OpCreate scm_answers string | OpDelete scm_answers | OpStart scm_answers nat | OpStop scm_answers string | OpIsInstalled scm_answers

fun scm_step :: "scm_op \<Rightarrow> service \<times> scm \<Rightarrow> (xerror + (service \<times> scm)) option" where
  "scm_step (OpCreate an d) (st, m) = Some (seqx (Create an d m) (\<lambda>(b, m1). Inr (st, m1)))"
| "scm_step (OpDelete an) (st, m) = Some (seqx (Delete an m) (\<lambda>m1. Inr (st, m1)))"
| "scm_step (OpStart an argc) (st, m) = map_option (\<lambda>r. seqx r (\<lambda>(b, m1). Inr (st, m1))) (Start an argc m)"
| "scm_step (OpStop an name) (st, m) = Some (Stop an name (st, m))"
| "scm_step (OpIsInstalled an) (st, m) = Some (seqx (IsInstalled an m) (\<lambda>(b, m1). Inr (st, m1)))"

fun scm_run :: "scm_op list \<Rightarrow> service \<times> scm \<Rightarrow> (xerror + (service \<times> scm)) option" where
  "scm_run [] s = Some (Inr s)"
| "scm_run (op # ops) s =
     (case scm_step op s of None \<Rightarrow> None | Some (Inl e) \<Rightarrow> Some (Inl e) | Some (Inr s1) \<Rightarrow> scm_run ops s1)"

text \<open>A start whose queries report something else than a pending start at some time, or fail.\<close>

fun op_returns :: "scm_op \<Rightarrow> bool" where
  "op_returns (OpStart an argc) = (\<exists>k. \<not> (fst (an_query an k) \<and> snd (an_query an k) = SERVICE_START_PENDING))"
| "op_returns _ = True"

definition logs_ok :: "service \<Rightarrow> bool" where
  "logs_ok st = (\<forall>i \<in> snd ` set (sv_ctrlMap st). pLogFuncPtr i \<noteq> None)"

lemma Log_ok: "logs_ok st \<Longrightarrow> \<exists>st1. Log name s st = Inr st1 \<and> sv_ctrlMap st1 = sv_ctrlMap st \<and> logs_ok st1"
  by (fastforce simp: Log_def logs_ok_def call_log_def split: option.splits dest: map_of_SomeD)

lemma Stop_ok: "logs_ok st \<Longrightarrow> \<exists>st1 m1. Stop an name (st, m) = Inr (st1, m1) \<and> sc_open m1 = sc_open m \<and> logs_ok st1"
  using Log_ok [of st name "''stop service''"] by (auto simp: Stop_def scm_simps)

lemma Start_ok: "op_returns (OpStart an argc) \<Longrightarrow> \<exists>b m1. Start an argc m = Some (Inr (b, m1)) \<and> sc_open m1 = sc_open m"
proof -
  assume "op_returns (OpStart an argc)"
  then obtain i where "wait_started (an_query an) 0 = Some i" using wait_returns [of "an_query an" 0] by auto
  then show ?thesis by (auto simp: Start_def scm_simps)
qed

lemma scm_step_ok:
  assumes "op_returns op" "logs_ok st"
  shows "\<exists>st1 m1. scm_step op (st, m) = Some (Inr (st1, m1)) \<and> sc_open m1 = sc_open m \<and> logs_ok st1"
proof (cases op)
  case (OpCreate an d)
  with Create_closes [of an d m] assms show ?thesis by auto
next
  case (OpDelete an)
  with Delete_closes [of an m] assms show ?thesis by auto
next
  case (OpStart an argc)
  with Start_ok [of an argc m] assms show ?thesis by auto
next
  case (OpStop an name)
  with Stop_ok [of st an name m] assms show ?thesis by auto
next
  case (OpIsInstalled an)
  with IsInstalled_closes [of an m] assms show ?thesis by auto
qed

lemma scm_run_ok:
  "list_all op_returns ops \<Longrightarrow> logs_ok st \<Longrightarrow> \<exists>st1 m1. scm_run ops (st, m) = Some (Inr (st1, m1)) \<and> sc_open m1 = sc_open m \<and> logs_ok st1"
proof (induction ops arbitrary: st m)
  case (Cons op ops)
  then obtain st1 m1 where 1: "scm_step op (st, m) = Some (Inr (st1, m1))" "sc_open m1 = sc_open m" "logs_ok st1"
    using scm_step_ok [of op st m] by auto
  with Cons.IH [of st1 m1] Cons.prems show ?case by simp
qed simp

text \<open>
  Property C35. Whatever the service manager answers, the operations on services return as soon as no start stays pending forever, use only handles that are open, and
  close every handle that they open, in any sequence of operations, provided that the registered services have a log function.
\<close>

theorem service_handles_closed:
  assumes "list_all op_returns ops" "logs_ok st" "sc_open m = []"
  shows "\<exists>st1 m1. scm_run ops (st, m) = Some (Inr (st1, m1)) \<and> sc_open m1 = []"
  using scm_run_ok [OF assms(1,2), of m] assms(3) by auto

definition ex_answers :: scm_answers where
  "ex_answers = \<lparr>an_manager = True, an_service = True, an_start = True, an_error = 0,
     an_query = (\<lambda>k. (True, if k < 2 then SERVICE_START_PENDING else SERVICE_RUNNING))\<rparr>"

lemma service_handles_closed_witness:
  "\<exists>st1 m1. scm_run [OpCreate ex_answers ''d'', OpStart ex_answers 0, OpStop ex_answers ''s'', OpDelete (ex_answers\<lparr>an_service := False\<rparr>)]
     (Service_new service_static, \<lparr>sc_open = [], sc_next = 0, sc_calls = []\<rparr>) = Some (Inr (st1, m1)) \<and> sc_open m1 = []"
proof (rule service_handles_closed)
  have "op_returns (OpStart ex_answers 0)" by (simp add: ex_answers_def) (rule exI [of _ 2], simp)
  then show "list_all op_returns [OpCreate ex_answers ''d'', OpStart ex_answers 0, OpStop ex_answers ''s'', OpDelete (ex_answers\<lparr>an_service := False\<rparr>)]"
    by simp
qed (simp_all add: logs_ok_def Service_new_def service_static_def)

text \<open>Observation. While the queries report a pending start, \<open>Start\<close> does not return.\<close>

lemma wait_forever: "(\<And>i. k \<le> i \<Longrightarrow> fst (q i) \<and> snd (q i) = SERVICE_START_PENDING) \<Longrightarrow> wait_started q k = None"
proof (rule ccontr)
  assume pend: "\<And>i. k \<le> i \<Longrightarrow> fst (q i) \<and> snd (q i) = SERVICE_START_PENDING" and "wait_started q k \<noteq> None"
  then obtain j where "wait_started q k = Some j" by auto
  then have "\<not> (\<forall>i\<ge>k. fst (q i) \<and> snd (q i) = SERVICE_START_PENDING)"
  proof (rule wait_started.raw_induct [where P = "\<lambda>q k j. \<not> (\<forall>i\<ge>k. fst (q i) \<and> snd (q i) = SERVICE_START_PENDING)", rotated])
    fix w :: "(nat \<Rightarrow> bool \<times> svc_state) \<Rightarrow> nat \<Rightarrow> nat option" and q k j
    assume IH: "\<And>q k j. w q k = Some j \<Longrightarrow> \<not> (\<forall>i\<ge>k. fst (q i) \<and> snd (q i) = SERVICE_START_PENDING)"
      and "(if fst (q k) \<and> snd (q k) = SERVICE_START_PENDING then w q (Suc k) else Some k) = Some j"
    then show "\<not> (\<forall>i\<ge>k. fst (q i) \<and> snd (q i) = SERVICE_START_PENDING)"
      by (metis Suc_leD order_refl)
  qed
  with pend show False by blast
qed

lemma Start_waits: "an_manager an \<Longrightarrow> an_service an \<Longrightarrow> an_start an \<Longrightarrow> (\<And>i. an_query an i = (True, SERVICE_START_PENDING)) \<Longrightarrow> Start an argc m = None"
  using wait_forever [of 0 "an_query an"] by (simp add: Start_def scm_simps)

subsection \<open>The table of the dispatcher\<close>

type_synonym svc_reg = "string \<times> nat \<times> nat option"

definition register_all :: "(nat \<Rightarrow> nat) \<Rightarrow> svc_reg list \<Rightarrow> service \<Rightarrow> service" where
  "register_all grow svs st = fold (\<lambda>(n, p, l). RegisterService grow n p l) svs st"

text \<open>The table while the reserved capacity lasts, and behind it.\<close>

definition tab_small :: "tab_entry list \<Rightarrow> (string \<times> nat) list \<Rightarrow> bool" where
  "tab_small tab es = (tab = (if es = [] then [] else map Some es @ [None]))"

definition tab_full :: "nat \<Rightarrow> tab_entry list \<Rightarrow> (string \<times> nat) list \<Rightarrow> bool" where
  "tab_full cap tab es = (take 5 tab = map Some es @ [None] \<and> length es = 4 \<and> (length tab = 5 \<and> cap = 5 \<or> 6 \<le> length tab \<and> length tab \<le> cap))"

lemma capacity_test_false: "n \<le> cap \<Longrightarrow> cap < 2 ^ 64 - 1 \<Longrightarrow> int cap \<noteq> (int n - 1) mod 2 ^ 64"
  by (cases n) (auto simp: zmod_minus1)

lemma register_small:
  assumes "tab_small (sv_tabVec st) es" "sv_cap st = 5" "length es < 4"
  shows "tab_small (sv_tabVec (RegisterService grow n p l st)) (es @ [(n, p)]) \<and> sv_cap (RegisterService grow n p l st) = 5"
  using assms capacity_test_false [of "length (sv_tabVec st)" 5]
  by (auto simp: tab_small_def RegisterService_def push_back_def Let_def list_update_append)

lemma register_full:
  assumes "tab_full (sv_cap st) (sv_tabVec st) es"
  shows "tab_full (sv_cap (RegisterService grow n p l st)) (sv_tabVec (RegisterService grow n p l st)) es"
  using assms by (auto simp: tab_full_def RegisterService_def push_back_def Let_def take_update_cancel)

lemma small_full: "tab_small tab es \<Longrightarrow> length es = 4 \<Longrightarrow> tab_full 5 tab es"
  by (auto simp: tab_small_def tab_full_def)

lemma register_all_full:
  "tab_full (sv_cap st) (sv_tabVec st) es \<Longrightarrow>
   tab_full (sv_cap (register_all grow svs st)) (sv_tabVec (register_all grow svs st)) es"
  by (induction svs arbitrary: st) (auto simp: register_all_def intro: register_full)

lemma register_all_small:
  "tab_small (sv_tabVec st) es \<Longrightarrow> sv_cap st = 5 \<Longrightarrow> length es + length svs \<le> 4 \<Longrightarrow>
   tab_small (sv_tabVec (register_all grow svs st)) (es @ map (\<lambda>(n, p, l). (n, p)) svs) \<and> sv_cap (register_all grow svs st) = 5"
proof (induction svs arbitrary: st es)
  case (Cons s svs)
  obtain n p l where s: "s = (n, p, l)" by (cases s)
  with register_small [of st es grow n p l] Cons.prems Cons.IH [of "RegisterService grow n p l st" "es @ [(n, p)]"] show ?case
    by (simp add: register_all_def)
qed (simp add: register_all_def)

lemma takeWhile_some: "takeWhile (\<lambda>e. e \<noteq> None) (map Some es @ None # r) = map Some es"
  by (induction es) auto

lemma dispatched_small: "tab_small tab es \<Longrightarrow> dispatched tab = es"
  using takeWhile_some [of es "[]"] by (cases "es = []") (simp_all add: tab_small_def dispatched_def comp_def del: not_None_eq)

lemma dispatched_full: "tab_full cap tab es \<Longrightarrow> dispatched tab = es"
proof -
  assume f: "tab_full cap tab es"
  then have "tab = map Some es @ None # drop 5 tab" using append_take_drop_id [of 5 tab] by (auto simp: tab_full_def)
  then have "takeWhile (\<lambda>e. e \<noteq> None) tab = map Some es" by (metis takeWhile_some)
  then show ?thesis by (simp add: dispatched_def comp_def)
qed

text \<open>
  Observation. Behind the constructor the dispatcher starts exactly the first four registered services, in the order of their registration, however many are
  registered and however the vector grows: the table has room for five entries, one of which is the null entry at its end, and nothing behind it is started.
\<close>

theorem first_four_dispatched:
  "dispatched (sv_tabVec (register_all grow svs (Service_new service_static))) = take 4 (map (\<lambda>(n, p, l). (n, p)) svs)"
proof -
  let ?st0 = "Service_new service_static" and ?f = "\<lambda>(n, p, l). (n, p)"
  let ?st1 = "register_all grow (take 4 svs) ?st0"
  have st0: "tab_small (sv_tabVec ?st0) []" "sv_cap ?st0 = 5" by (simp_all add: Service_new_def service_static_def tab_small_def MAX_SERVICE_COUNT_def)
  have st1: "tab_small (sv_tabVec ?st1) (map ?f (take 4 svs))" "sv_cap ?st1 = 5"
    using register_all_small [OF st0, of "take 4 svs" grow] by auto
  have all: "register_all grow svs ?st0 = register_all grow (drop 4 svs) ?st1"
    by (metis append_take_drop_id comp_apply fold_append register_all_def)
  show ?thesis
  proof (cases "length svs \<le> 4")
    case True
    then show ?thesis using dispatched_small [OF st1(1)] by simp
  next
    case False
    then have "tab_full (sv_cap ?st1) (sv_tabVec ?st1) (map ?f (take 4 svs))" using small_full [OF st1(1)] st1(2) by simp
    then have "dispatched (sv_tabVec (register_all grow (drop 4 svs) ?st1)) = map ?f (take 4 svs)"
      using dispatched_full [OF register_all_full] by blast
    then show ?thesis by (simp only: all take_map)
  qed
qed

text \<open>Observation. Without an object nothing is reserved, and the first service that is registered is not stored at all.\<close>

lemma no_object_nothing_dispatched:
  "dispatched (sv_tabVec (RegisterService grow n p l service_static)) = []"
  using capacity_test_false [of 0 0] by (simp add: RegisterService_def service_static_def push_back_def dispatched_def)

subsection \<open>Control requests\<close>

lemma dec_nat_len: "n < 10 ^ Suc k \<Longrightarrow> length (dec_nat n) \<le> Suc k"
proof (induction k arbitrary: n)
  case (Suc k)
  then have "n div 10 < 10 ^ Suc k" by (simp add: less_mult_imp_div_less)
  with Suc.IH [of "n div 10"] show ?case by (subst dec_nat.simps) auto
qed (simp add: dec_nat.simps)

lemma dec_nat_long: "10 ^ k \<le> n \<Longrightarrow> k < length (dec_nat n)"
proof (induction k arbitrary: n)
  case 0
  then show ?case by (subst dec_nat.simps) auto
next
  case (Suc k)
  then have "10 ^ k \<le> n div 10" by (simp add: less_eq_div_iff_mult_less_eq)
  moreover have "1 \<le> (10::nat) ^ k" by simp
  then have "\<not> n < 10" using Suc.prems unfolding power_Suc by linarith
  ultimately show ?case using Suc.IH [of "n div 10"] by (subst dec_nat.simps) simp
qed

lemma dec_int_len: "- (2 ^ 31) \<le> u \<Longrightarrow> u < 2 ^ 31 \<Longrightarrow> length (dec_int u) \<le> 11"
  using dec_nat_len [of "nat (- u)" 9] dec_nat_len [of "nat u" 9] by (auto simp: dec_int_def nat_less_iff)

text \<open>The state of a service after a control request, and the hook that runs.\<close>

definition ctl_state :: "svc_state \<Rightarrow> nat \<Rightarrow> svc_state" where
  "ctl_state s c = (if c = 1 \<or> c = 5 then SERVICE_STOPPED else if c = 2 then SERVICE_PAUSED else if c = 3 then SERVICE_RUNNING else s)"

definition ctl_hooks :: "nat \<Rightarrow> svc_hook list" where
  "ctl_hooks c = (if c = 1 then [HookStop] else if c = 5 then [HookShutDown] else if c = 2 then [HookPause] else if c = 3 then [HookContinue] else [])"

fun ctl_states :: "svc_state \<Rightarrow> nat list \<Rightarrow> svc_state list" where
  "ctl_states s [] = []"
| "ctl_states s (c # cs) = ctl_state s c # ctl_states (ctl_state s c) cs"

fun run_controls :: "(nat \<Rightarrow> int option) \<Rightarrow> string \<Rightarrow> nat list \<Rightarrow> service \<Rightarrow> xerror + (nat list \<times> service)" where
  "run_controls unused name [] st = Inr ([], st)"
| "run_controls unused name (c # cs) st =
     seqx (CtrlHandleEx unused c name st) (\<lambda>(r, st1). seqx (run_controls unused name cs st1) (\<lambda>(rs, st2). Inr (r # rs, st2)))"

lemma ctrl_step:
  assumes "sv_pThis st" "msorted (sv_ctrlMap st)" "map_of (sv_ctrlMap st) name = Some i" "pLogFuncPtr i = Some f"
    and "unused (hStatus i) = Some u" "- (2 ^ 31) \<le> u" "u < 2 ^ 31"
  shows "\<exists>st1 i1. CtrlHandleEx unused c name st = Inr (if ctl_hooks c = [] then 2 ^ 32 - 1 else 0, st1)
    \<and> sv_pThis st1 \<and> msorted (sv_ctrlMap st1) \<and> map_of (sv_ctrlMap st1) = (map_of (sv_ctrlMap st))(name \<mapsto> i1)
    \<and> pLogFuncPtr i1 = Some f \<and> hStatus i1 = hStatus i \<and> dwCurrentState (ServiceStatus i1) = ctl_state (dwCurrentState (ServiceStatus i)) c
    \<and> sv_told st1 = sv_told st @ [(hStatus i, ServiceStatus i1)] \<and> sv_hooks st1 = sv_hooks st @ map (\<lambda>k. (k, name)) (ctl_hooks c)"
proof -
  have len: "length (dec_int u) \<le> 11" using dec_int_len assms(6,7) by blast
  have ret: "length (dec_nat 0) \<le> 10" "length (dec_nat 4294967295) \<le> 10" using dec_nat_len [of 0 9] dec_nat_len [of 4294967295 9] by simp_all
  show ?thesis using assms len ret
    by (auto simp: CtrlHandleEx_def Handle_def Log_def call_log_def put_text_def set_info_def SetServiceStatus_def run_hook_def
        ctl_state_def ctl_hooks_def map_of_massign Let_def)
qed

definition reg_ok :: "(nat \<Rightarrow> int option) \<Rightarrow> string \<Rightarrow> svr_info \<Rightarrow> service \<Rightarrow> bool" where
  "reg_ok unused name i st =
     (sv_pThis st \<and> msorted (sv_ctrlMap st) \<and> map_of (sv_ctrlMap st) name = Some i \<and> pLogFuncPtr i \<noteq> None
      \<and> (case unused (hStatus i) of None \<Rightarrow> False | Some u \<Rightarrow> - (2 ^ 31) \<le> u \<and> u < 2 ^ 31))"

lemma run_controls_ok:
  "reg_ok unused name i st \<Longrightarrow>
   \<exists>st1 i1 told. run_controls unused name cs st = Inr (map (\<lambda>c. if ctl_hooks c = [] then 2 ^ 32 - 1 else 0) cs, st1)
    \<and> reg_ok unused name i1 st1 \<and> dwCurrentState (ServiceStatus i1) = last (dwCurrentState (ServiceStatus i) # ctl_states (dwCurrentState (ServiceStatus i)) cs)
    \<and> sv_told st1 = sv_told st @ told \<and> map (\<lambda>(h, s). (h, dwCurrentState s)) told = map (\<lambda>s. (hStatus i, s)) (ctl_states (dwCurrentState (ServiceStatus i)) cs)
    \<and> sv_hooks st1 = sv_hooks st @ map (\<lambda>k. (k, name)) (concat (map ctl_hooks cs))"
proof (induction cs arbitrary: st i)
  case (Cons c cs)
  from Cons.prems obtain f u where pre: "sv_pThis st" "msorted (sv_ctrlMap st)" "map_of (sv_ctrlMap st) name = Some i" "pLogFuncPtr i = Some f"
    "unused (hStatus i) = Some u" "- (2 ^ 31) \<le> u" "u < 2 ^ 31" by (auto simp: reg_ok_def split: option.splits)
  from ctrl_step [where unused = unused, OF this, of c] obtain st1 i1 where 1: "CtrlHandleEx unused c name st = Inr (if ctl_hooks c = [] then 2 ^ 32 - 1 else 0, st1)"
    "sv_pThis st1" "msorted (sv_ctrlMap st1)" "map_of (sv_ctrlMap st1) = (map_of (sv_ctrlMap st))(name \<mapsto> i1)" "pLogFuncPtr i1 = Some f"
    "hStatus i1 = hStatus i" "dwCurrentState (ServiceStatus i1) = ctl_state (dwCurrentState (ServiceStatus i)) c"
    "sv_told st1 = sv_told st @ [(hStatus i, ServiceStatus i1)]" "sv_hooks st1 = sv_hooks st @ map (\<lambda>k. (k, name)) (ctl_hooks c)" by blast
  then have "reg_ok unused name i1 st1" using pre by (simp add: reg_ok_def)
  from Cons.IH [OF this] obtain st2 i2 told where 2: "run_controls unused name cs st1 = Inr (map (\<lambda>c. if ctl_hooks c = [] then 2 ^ 32 - 1 else 0) cs, st2)"
    "reg_ok unused name i2 st2" "dwCurrentState (ServiceStatus i2) = last (dwCurrentState (ServiceStatus i1) # ctl_states (dwCurrentState (ServiceStatus i1)) cs)"
    "sv_told st2 = sv_told st1 @ told" "map (\<lambda>(h, s). (h, dwCurrentState s)) told = map (\<lambda>s. (hStatus i1, s)) (ctl_states (dwCurrentState (ServiceStatus i1)) cs)"
    "sv_hooks st2 = sv_hooks st1 @ map (\<lambda>k. (k, name)) (concat (map ctl_hooks cs))" by blast
  show ?case
    by (rule exI [of _ st2], rule exI [of _ i2], rule exI [of _ "(hStatus i, ServiceStatus i1) # told"]) (use 1 2 in simp)
qed auto

lemma RegisterHandle_runs:
  assumes "sv_pThis st" "msorted (sv_ctrlMap st)" "map_of (sv_ctrlMap st) name = Some i" "pLogFuncPtr i \<noteq> None"
    and "h \<noteq> 0" "unused h = Some u" "0 \<le> u" "u < 10 ^ 8"
  shows "\<exists>st1 i1. RegisterHandle unused h name ty st = Inr (True, st1) \<and> reg_ok unused name i1 st1 \<and> hStatus i1 = h
    \<and> dwCurrentState (ServiceStatus i1) = SERVICE_RUNNING \<and> sv_told st1 = sv_told st @ [(h, ServiceStatus i1)] \<and> sv_hooks st1 = sv_hooks st"
proof -
  have "length (dec_int u) \<le> 8" using dec_nat_len [of "nat u" 7] assms(7,8) by (simp add: dec_int_def nat_less_iff)
  then show ?thesis using assms
    by (auto simp: RegisterHandle_def put_text_def call_log_def set_info_def SetServiceStatus_def reg_ok_def Let_def map_of_massign)
qed

text \<open>
  Property C34. A registered service that has registered its handle, a number below \<open>10 ^ 8\<close> as its text must fit the buffer, follows its control requests: the system is told of every request exactly once, with the handle of
  the service and the state that the request leads to; the hook of each known request runs once and in their order; unknown requests are answered with -1 and change
  nothing; and the state that the class reports is the last one told.
\<close>

theorem service_follows_controls:
  assumes "sv_pThis st" "msorted (sv_ctrlMap st)" "map_of (sv_ctrlMap st) name = Some i" "pLogFuncPtr i \<noteq> None"
    and "h \<noteq> 0" "unused h = Some u" "0 \<le> u" "u < 10 ^ 8"
  shows "\<exists>st0 st1 told. RegisterHandle unused h name ty st = Inr (True, st0)
    \<and> run_controls unused name cs st0 = Inr (map (\<lambda>c. if ctl_hooks c = [] then 2 ^ 32 - 1 else 0) cs, st1)
    \<and> sv_told st1 = sv_told st @ told
    \<and> map (\<lambda>(k, s). (k, dwCurrentState s)) told = map (\<lambda>s. (h, s)) (SERVICE_RUNNING # ctl_states SERVICE_RUNNING cs)
    \<and> sv_hooks st1 = sv_hooks st @ map (\<lambda>k. (k, name)) (concat (map ctl_hooks cs))
    \<and> GetServiceStatus name st1 = state_code (last (SERVICE_RUNNING # ctl_states SERVICE_RUNNING cs))"
proof -
  from RegisterHandle_runs [where unused = unused and h = h, OF assms, of ty] obtain st0 i0 where 0: "RegisterHandle unused h name ty st = Inr (True, st0)" "reg_ok unused name i0 st0"
    "hStatus i0 = h" "dwCurrentState (ServiceStatus i0) = SERVICE_RUNNING" "sv_told st0 = sv_told st @ [(h, ServiceStatus i0)]" "sv_hooks st0 = sv_hooks st" by blast
  from run_controls_ok [OF 0(2), of cs] 0 obtain st1 i1 told where 1: "run_controls unused name cs st0 = Inr (map (\<lambda>c. if ctl_hooks c = [] then 2 ^ 32 - 1 else 0) cs, st1)"
    "reg_ok unused name i1 st1" "dwCurrentState (ServiceStatus i1) = last (SERVICE_RUNNING # ctl_states SERVICE_RUNNING cs)"
    "sv_told st1 = sv_told st0 @ told" "map (\<lambda>(h, s). (h, dwCurrentState s)) told = map (\<lambda>s. (h, s)) (ctl_states SERVICE_RUNNING cs)"
    "sv_hooks st1 = sv_hooks st0 @ map (\<lambda>k. (k, name)) (concat (map ctl_hooks cs))" by auto
  then have "GetServiceStatus name st1 = state_code (last (SERVICE_RUNNING # ctl_states SERVICE_RUNNING cs))"
    by (simp add: GetServiceStatus_def reg_ok_def)
  then show ?thesis
    by (intro exI [of _ st0] exI [of _ st1] exI [of _ "(h, ServiceStatus i0) # told"]) (use 0 1 in simp)
qed

definition ex_service :: service where
  "ex_service = register_all (\<lambda>n. n + n div 2) [(''a'', 1, Some 7), (''b'', 2, Some 7)] (Service_new service_static)"

lemma service_follows_controls_witness:
  "\<exists>st0 st1. RegisterHandle (\<lambda>h. Some 3) 9 ''b'' 16 ex_service = Inr (True, st0) \<and> run_controls (\<lambda>h. Some 3) ''b'' [2, 3, 77, 1] st0 = Inr ([0, 0, 2 ^ 32 - 1, 0], st1)
     \<and> GetServiceStatus ''b'' st1 = 1"
proof -
  have pre: "sv_pThis ex_service" "msorted (sv_ctrlMap ex_service)" "map_of (sv_ctrlMap ex_service) ''b'' = Some (SvrInfo_new\<lparr>pLogFuncPtr := Some 7\<rparr>)"
    by (simp_all add: ex_service_def register_all_def RegisterService_def push_back_def Service_new_def service_static_def MAX_SERVICE_COUNT_def Let_def)
  show ?thesis
    using service_follows_controls [OF pre, of 9 "\<lambda>h. Some 3" 3 16 "[2, 3, 77, 1]"] by (auto simp: ctl_hooks_def ctl_state_def)
qed

text \<open>
  Observations. A handle whose number has nine or more digits overflows the text of \<open>RegisterHandle\<close>; a service without a log function cannot register its handle.
\<close>

lemma RegisterHandle_overflow:
  "map_of (sv_ctrlMap st) name = Some i \<Longrightarrow> h \<noteq> 0 \<Longrightarrow> unused h = Some u \<Longrightarrow> 10 ^ 8 \<le> u \<Longrightarrow> RegisterHandle unused h name ty st = Inl Undefined"
  using dec_nat_long [of 8 "nat u"] by (auto simp: RegisterHandle_def put_text_def dec_int_def Let_def le_nat_iff)

lemma no_log_undefined:
  "map_of (sv_ctrlMap st) name = Some i \<Longrightarrow> pLogFuncPtr i = None \<Longrightarrow> h \<noteq> 0 \<Longrightarrow> RegisterHandle unused h name ty st = Inl Undefined"
  by (auto simp: RegisterHandle_def call_log_def put_text_def Let_def split: option.splits)

end
