(* ===== verification/WinRegistry.thy ===== *)
theory WinRegistry
  imports DBFormat
begin

text \<open>
  The registry on Windows (\<open>SystemApi/RegItem_Win32.cpp\<close>). The registry is a map from keys to the lists of their values, with the type and the bytes of each; names of
  values are compared without regard to case. A handle refers to a key and has all access rights or none. A \<open>RegKey\<close> is a tag, a union and the length of what its
  pointer owns: the union is a number of 64 bits or a pointer to bytes, of which some may be indeterminate. Objects that are not initialised take their contents from
  an argument.
\<close>

datatype SysKey = SK_LocalMachine | SK_Users | SK_CurrConfig | SK_ClassesRoot | SK_CurrUser

datatype RegKeyType = NONE | UDWORD | QDWORD | STRING | BINARY | SUBKEY

datatype regunion = Num "64 word" | Ptr "8 word option list"

record RegKey =
  rk_rType :: RegKeyType
  rk_val :: regunion
  rk_dLen :: int
  rk_name :: string

definition RegKey_new :: RegKey where
  "RegKey_new = \<lparr>rk_rType = NONE, rk_val = Num 0, rk_dLen = 0, rk_name = ''''\<rparr>"

text \<open>The copy constructor leaves some members as they are in the uninitialised object \<open>junk\<close>.\<close>

definition RegKey_copy :: "RegKey \<Rightarrow> RegKey \<Rightarrow> xerror + RegKey" where
  "RegKey_copy junk that =
     (if 0 < rk_dLen that then
        (case rk_val that of
           Num _ \<Rightarrow> Inl Undefined
         | Ptr bs \<Rightarrow> if length bs < nat (rk_dLen that) then Inl Undefined
                     else Inr \<lparr>rk_rType = rk_rType junk, rk_val = Ptr (take (nat (rk_dLen that)) bs), rk_dLen = rk_dLen that, rk_name = ''''\<rparr>)
      else Inr \<lparr>rk_rType = rk_rType junk, rk_val = rk_val that, rk_dLen = rk_dLen junk, rk_name = rk_name that\<rparr>)"

text \<open>
  The assignment operator keeps the tag of its target. If the target owns memory it calls its destructor, which also destroys the name; the name is used or destroyed
  again afterwards, which is undefined.
\<close>

definition RegKey_assign :: "RegKey \<Rightarrow> RegKey \<Rightarrow> xerror + RegKey" where
  "RegKey_assign that this =
     (if 0 < rk_dLen this then Inl Undefined
      else if 0 < rk_dLen that then
        (case rk_val that of
           Num _ \<Rightarrow> Inl Undefined
         | Ptr bs \<Rightarrow> if length bs < nat (rk_dLen that) then Inl Undefined
                     else Inr (this\<lparr>rk_val := Ptr (take (nat (rk_dLen that)) bs), rk_dLen := rk_dLen that\<rparr>))
      else Inr (this\<lparr>rk_val := rk_val that, rk_name := rk_name that\<rparr>))"

subsection \<open>The registry\<close>

definition REG_SZ :: nat where "REG_SZ = 1"
definition REG_EXPAND_SZ :: nat where "REG_EXPAND_SZ = 2"
definition REG_BINARY :: nat where "REG_BINARY = 3"
definition REG_DWORD :: nat where "REG_DWORD = 4"
definition REG_MULTI_SZ :: nat where "REG_MULTI_SZ = 7"
definition REG_QWORD :: nat where "REG_QWORD = 11"

lemmas reg_consts = REG_SZ_def REG_EXPAND_SZ_def REG_BINARY_def REG_DWORD_def REG_MULTI_SZ_def REG_QWORD_def

record reg_value =
  rv_name :: string
  rv_type :: nat
  rv_data :: "8 word list"

type_synonym registry = "SysKey \<times> string \<Rightarrow> reg_value list option"

definition lower :: "char \<Rightarrow> char" where
  "lower c = (let n = of_char c :: nat in if 65 \<le> n \<and> n \<le> 90 then char_of (n + 32) else c)"

definition same_name :: "string \<Rightarrow> string \<Rightarrow> bool" where
  "same_name a b = (map lower a = map lower b)"

fun set_val :: "string \<Rightarrow> nat \<Rightarrow> 8 word list \<Rightarrow> reg_value list \<Rightarrow> reg_value list" where
  "set_val n t d [] = [\<lparr>rv_name = n, rv_type = t, rv_data = d\<rparr>]"
| "set_val n t d (v # vs) = (if same_name (rv_name v) n then v\<lparr>rv_type := t, rv_data := d\<rparr> # vs else v # set_val n t d vs)"

definition find_val :: "string \<Rightarrow> reg_value list \<Rightarrow> (nat \<times> 8 word list) option" where
  "find_val n vs = map_option (\<lambda>v. (rv_type v, rv_data v)) (find (\<lambda>v. same_name (rv_name v) n) vs)"

definition del_val :: "string \<Rightarrow> reg_value list \<Rightarrow> reg_value list" where
  "del_val n vs = filter (\<lambda>v. \<not> same_name (rv_name v) n) vs"

subsection \<open>\<open>RegItem\<close>\<close>

text \<open>\<open>m_hKey\<close> with whether it has access rights, or null.\<close>

record RegItem =
  ri_hKey :: "bool option"
  ri_root :: SysKey
  ri_sub :: string
  ri_type :: nat

definition RegItem_new :: "SysKey \<Rightarrow> string \<Rightarrow> RegItem" where
  "RegItem_new hKey sub = \<lparr>ri_hKey = None, ri_root = hKey, ri_sub = sub, ri_type = 2 ^ 32 - 1\<rparr>"

definition item_key :: "RegItem \<Rightarrow> SysKey \<times> string" where
  "item_key it = (ri_root it, ri_sub it)"

text \<open>\<open>RegCreateKeyEx\<close> is called with no access rights, \<open>RegOpenKeyEx\<close> with all; \<open>ok\<close> is whether the system allows the call.\<close>

definition OpenItem :: "bool \<Rightarrow> bool \<Rightarrow> RegItem \<times> registry \<Rightarrow> bool \<times> RegItem \<times> registry" where
  "OpenItem ok bCreate = (\<lambda>(it, reg).
     (if \<not> ok then (False, it, reg)
      else if bCreate then
        (case reg (item_key it) of
           None \<Rightarrow> (True, it\<lparr>ri_hKey := Some False\<rparr>, reg(item_key it \<mapsto> []))
         | Some _ \<Rightarrow> (False, it\<lparr>ri_hKey := Some False\<rparr>, reg))
      else (case reg (item_key it) of
              None \<Rightarrow> (False, it, reg)
            | Some _ \<Rightarrow> (True, it\<lparr>ri_hKey := Some True\<rparr>, reg))))"

definition CloseItem :: "RegItem \<Rightarrow> RegItem" where
  "CloseItem it = (if ri_hKey it \<noteq> None then it\<lparr>ri_hKey := None\<rparr> else it)"

definition DeleteItem :: "bool \<Rightarrow> RegItem \<times> registry \<Rightarrow> RegItem \<times> registry" where
  "DeleteItem ok = (\<lambda>(it, reg). (it, if ok then reg(item_key it := None) else reg))"

text \<open>A call on the open key fails without access rights and on a key that was deleted.\<close>

definition on_key :: "(reg_value list \<Rightarrow> reg_value list) \<Rightarrow> RegItem \<times> registry \<Rightarrow> RegItem \<times> registry" where
  "on_key f = (\<lambda>(it, reg).
     (if ri_hKey it \<noteq> Some True then (it, reg)
      else case reg (item_key it) of None \<Rightarrow> (it, reg) | Some vs \<Rightarrow> (it, reg(item_key it \<mapsto> f vs))))"

fun le_bytes :: "nat \<Rightarrow> 64 word \<Rightarrow> 8 word list" where
  "le_bytes 0 w = []"
| "le_bytes (Suc n) w = ucast w # le_bytes n (drop_bit 8 w)"

fun le_val :: "8 word list \<Rightarrow> 64 word" where
  "le_val [] = 0"
| "le_val (b # bs) = ucast b OR push_bit 8 (le_val bs)"

definition byte_of :: "char \<Rightarrow> 8 word" where
  "byte_of c = of_nat (of_char c)"

definition byte_char :: "8 word \<Rightarrow> char" where
  "byte_char b = char_of (unat b)"

definition SetValue_dword :: "string \<Rightarrow> 32 word \<Rightarrow> RegItem \<times> registry \<Rightarrow> RegItem \<times> registry" where
  "SetValue_dword keyName val = on_key (set_val keyName REG_DWORD (le_bytes 4 (ucast val)))"

text \<open>A C string ends at its first zero, so that \<open>strVal\<close> has none.\<close>

definition SetValue_string :: "string \<Rightarrow> string option \<Rightarrow> RegItem \<times> registry \<Rightarrow> xerror + (RegItem \<times> registry)" where
  "SetValue_string keyName strVal s =
     (if ri_hKey (fst s) = None then Inr s
      else case strVal of None \<Rightarrow> Inl Undefined | Some str \<Rightarrow> Inr (on_key (set_val keyName REG_SZ (map byte_of str @ [0])) s))"

definition SetValue_binary :: "string \<Rightarrow> 8 word list \<Rightarrow> int \<Rightarrow> RegItem \<times> registry \<Rightarrow> xerror + (RegItem \<times> registry)" where
  "SetValue_binary keyName pData len s =
     (if ri_hKey (fst s) = None then Inr s
      else if len < 0 \<or> length pData < nat len then Inl Undefined
      else Inr (on_key (set_val keyName REG_BINARY (take (nat len) pData)) s))"

definition EraseValue :: "string \<Rightarrow> RegItem \<times> registry \<Rightarrow> RegItem \<times> registry" where
  "EraseValue keyName = on_key (del_val keyName)"

definition TypeOf :: "nat \<Rightarrow> RegKeyType" where
  "TypeOf t = (if t = REG_DWORD then UDWORD else if t = REG_QWORD then QDWORD
     else if t = REG_SZ \<or> t = REG_MULTI_SZ \<or> t = REG_EXPAND_SZ then STRING else if t = REG_BINARY then BINARY else NONE)"

definition RegQueryValueEx :: "string \<Rightarrow> RegItem \<times> registry \<Rightarrow> (nat \<times> 8 word list) option" where
  "RegQueryValueEx keyName = (\<lambda>(it, reg).
     (if ri_hKey it \<noteq> Some True then None
      else case reg (item_key it) of None \<Rightarrow> None | Some vs \<Rightarrow> find_val keyName vs))"

text \<open>
  The value is read into the union; more than its eight bytes are undefined. If the query fails \<open>m_type\<close> keeps its value. The result is the local object, which a
  compiler may hand to the caller as it is (\<open>ret\<close> is \<open>Inr\<close>) or copy (\<open>ret\<close> is the copy constructor).
\<close>

definition getKeyValue :: "(RegKey \<Rightarrow> xerror + RegKey) \<Rightarrow> string \<Rightarrow> RegItem \<times> registry \<Rightarrow> xerror + (RegKey \<times> RegItem \<times> registry)" where
  "getKeyValue ret keyName = (\<lambda>(it, reg).
     (let q = RegQueryValueEx keyName (it, reg);
          it1 = (case q of None \<Rightarrow> it | Some (t, _) \<Rightarrow> it\<lparr>ri_type := t\<rparr>);
          val = RegKey_new\<lparr>rk_name := keyName, rk_rType := TypeOf (ri_type it1)\<rparr>;
          res = (case q of
                   None \<Rightarrow> Inr val
                 | Some (t, d) \<Rightarrow>
                     if TypeOf t = UDWORD \<or> TypeOf t = QDWORD
                     then if 8 < length d then Inl Undefined else Inr (val\<lparr>rk_val := Num (le_val d)\<rparr>)
                     else if TypeOf t = STRING then Inr (val\<lparr>rk_dLen := int (length d), rk_val := Ptr (map Some d @ [None])\<rparr>)
                     else if TypeOf t = BINARY then Inr (val\<lparr>rk_dLen := int (length d), rk_val := Ptr (map Some d)\<rparr>)
                     else Inr val)
      in case res of
           Inl e \<Rightarrow> Inl e
         | Inr v \<Rightarrow> (case ret v of Inl e \<Rightarrow> Inl e | Inr v1 \<Rightarrow> Inr (v1, it1, reg))))"

text \<open>The two ways a compiler may choose: the object itself, or a copy made in the uninitialised object \<open>junk\<close>.\<close>

definition returned :: "RegKey option \<Rightarrow> RegKey \<Rightarrow> xerror + RegKey" where
  "returned r = (case r of None \<Rightarrow> Inr | Some junk \<Rightarrow> RegKey_copy junk)"

definition Save2Disk :: "bool \<Rightarrow> string option \<Rightarrow> RegItem \<Rightarrow> bool" where
  "Save2Disk ok pFilePath it = (\<not> (ri_hKey it = None \<or> pFilePath = None \<or> pFilePath = Some []) \<and> ok)"

text \<open>What the file holds is an argument, \<open>None\<close> if the system cannot restore it.\<close>

definition RestoreFromDisk :: "reg_value list option \<Rightarrow> string option \<Rightarrow> RegItem \<times> registry \<Rightarrow> bool \<times> RegItem \<times> registry" where
  "RestoreFromDisk file pFilePath = (\<lambda>(it, reg).
     (if ri_hKey it = None \<or> pFilePath = None \<or> pFilePath = Some [] then (False, it, reg)
      else case file of None \<Rightarrow> (False, it, reg) | Some vs \<Rightarrow> (True, it, reg(item_key it \<mapsto> vs))))"

subsection \<open>Enumeration\<close>

record systime =
  wYear :: nat
  wMonth :: nat
  wDay :: nat
  wHour :: nat
  wMinute :: nat
  wSecond :: nat

definition MAX_KEY_LENGTH :: nat where
  "MAX_KEY_LENGTH = 255"

definition MAX_VALUE_NAME :: nat where
  "MAX_VALUE_NAME = 16383"

definition dec_pad :: "nat \<Rightarrow> nat \<Rightarrow> string" where
  "dec_pad w n = replicate (w - length (dec_nat n)) CHR ''0'' @ dec_nat n"

definition item_date :: "systime \<Rightarrow> string" where
  "item_date t = dec_pad 4 (wYear t) @ ''-'' @ dec_pad 2 (wMonth t) @ ''-'' @ dec_pad 2 (wDay t) @ '' '' @ dec_pad 2 (wHour t + 8) @ '':'' @ dec_pad 2 (wMinute t)
     @ '':'' @ dec_pad 2 (wSecond t)"

definition sub_date :: "systime \<Rightarrow> string" where
  "sub_date t = dec_nat (wYear t) @ ''-'' @ dec_nat (wMonth t) @ ''-'' @ dec_nat (wDay t) @ '' '' @ dec_nat (wHour t + 8) @ '':'' @ dec_nat (wMinute t)
     @ '':'' @ dec_nat (wSecond t) @ [char_of (10::nat)]"

text \<open>\<open>RegEnumKeyEx\<close> and \<open>RegEnumValue\<close> fail when a name with its end, or the data, does not fit the buffers.\<close>

definition enum_subkeys :: "(string \<times> systime) list \<Rightarrow> (string \<times> string) list" where
  "enum_subkeys subs = map (\<lambda>(n, t). (n, sub_date t)) (filter (\<lambda>(n, t). length n < MAX_KEY_LENGTH) subs)"

definition enum_fits :: "reg_value \<Rightarrow> bool" where
  "enum_fits v = (length (rv_name v) < MAX_VALUE_NAME \<and> length (rv_data v) \<le> MAX_VALUE_NAME)"

definition enum_value :: "reg_value \<Rightarrow> xerror + RegKey" where
  "enum_value v =
     (let d = rv_data v; k = RegKey_new\<lparr>rk_name := rv_name v\<rparr>; s = takeWhile (\<lambda>b. b \<noteq> 0) d
      in case TypeOf (rv_type v) of
           UDWORD \<Rightarrow> Inr (k\<lparr>rk_rType := UDWORD, rk_val := Num (le_val (take 4 (d @ replicate 4 0)))\<rparr>)
         | QDWORD \<Rightarrow> Inr (k\<lparr>rk_rType := QDWORD, rk_val := Num (le_val (take 8 (d @ replicate 8 0)))\<rparr>)
         | STRING \<Rightarrow>
             if length s = MAX_VALUE_NAME then Inl Undefined
             else Inr (k\<lparr>rk_rType := STRING, rk_dLen := int (length d + 1), rk_val := Ptr (map Some (s @ [0]) @ replicate (length d - length s) None)\<rparr>)
         | BINARY \<Rightarrow> Inr (k\<lparr>rk_rType := BINARY, rk_dLen := int (length d), rk_val := Ptr (map Some d)\<rparr>)
         | _ \<Rightarrow> Inr k)"

fun enum_values :: "RegKey \<Rightarrow> reg_value list \<Rightarrow> RegKey list \<Rightarrow> xerror + RegKey list" where
  "enum_values junk [] lst = Inr lst"
| "enum_values junk (v # vs) lst =
     (if \<not> enum_fits v then enum_values junk vs lst
      else case enum_value v of
             Inl e \<Rightarrow> Inl e
           | Inr kVal \<Rightarrow> (case RegKey_copy junk kVal of Inl e \<Rightarrow> Inl e | Inr k \<Rightarrow> enum_values junk vs (lst @ [k])))"

text \<open>
  The subkeys of the key with their times and the time of the key itself are arguments. Without access to the key the number of values is not initialised.
\<close>

definition GetItemInfos :: "RegKey \<Rightarrow> systime \<Rightarrow> (string \<times> systime) list \<Rightarrow> RegItem \<times> registry \<Rightarrow> RegKey list \<Rightarrow> (string \<times> string) list
    \<Rightarrow> xerror + (string \<times> RegKey list \<times> (string \<times> string) list)" where
  "GetItemInfos junk time subs = (\<lambda>(it, reg) lst SubKeyLst.
     (case (if ri_hKey it = Some True then reg (item_key it) else None) of
        None \<Rightarrow> Inl Undefined
      | Some vs \<Rightarrow>
          let SubKeyLst1 = SubKeyLst @ enum_subkeys subs
          in if length SubKeyLst1 \<noteq> length subs then Inr ([], lst, SubKeyLst1)
             else case enum_values junk vs lst of
                    Inl e \<Rightarrow> Inl e
                  | Inr lst1 \<Rightarrow> Inr (if length lst1 \<noteq> length vs then [] else item_date time, lst1, SubKeyLst1)))"

subsection \<open>Stores of named values\<close>

text \<open>What the class relies on when it sets, reads and erases values; names may be the same although they are written differently.\<close>

locale value_store =
  fixes same :: "'n \<Rightarrow> 'n \<Rightarrow> bool"
    and getv :: "'n \<Rightarrow> 's \<Rightarrow> 'v option"
    and setv :: "'n \<Rightarrow> 'v \<Rightarrow> 's \<Rightarrow> 's"
    and delv :: "'n \<Rightarrow> 's \<Rightarrow> 's"
  assumes same_refl: "same n n"
    and get_set: "getv m (setv n v s) = (if same n m then Some v else getv m s)"
    and get_del: "getv m (delv n s) = (if same n m then None else getv m s)"
begin

lemma get_set_same: "same n m \<Longrightarrow> getv m (setv n v s) = Some v"
  by (simp add: get_set)

lemma get_set_set: "same n m \<Longrightarrow> getv m (setv n v (setv n' v' s)) = Some v"
  by (simp add: get_set)

lemma set_del: "same n m \<Longrightarrow> getv m (delv n (setv n' v s)) = None"
  by (simp add: get_del)

lemma del_other: "\<not> same n m \<Longrightarrow> getv m (delv n s) = getv m s"
  by (simp add: get_del)

end

lemma same_name_refl [simp]: "same_name n n"
  by (simp add: same_name_def)

lemma find_set_val: "find_val m (set_val n t d vs) = (if same_name n m then Some (t, d) else find_val m vs)"
  by (induction n t d vs rule: set_val.induct) (auto simp: find_val_def same_name_def)

lemma find_del_val: "find_val m (del_val n vs) = (if same_name n m then None else find_val m vs)"
  by (induction vs) (auto simp: find_val_def del_val_def same_name_def)

interpretation reg: value_store same_name find_val "\<lambda>n (t, d). set_val n t d" del_val
  by unfold_locales (auto simp: find_set_val find_del_val split: prod.splits)

subsection \<open>What is set is read back\<close>

lemma le_val_bytes: "le_val (le_bytes n w) = take_bit (8 * n) w"
proof (induction n arbitrary: w)
  case (Suc n)
  show ?case unfolding le_bytes.simps le_val.simps Suc.IH
    by (rule bit_word_eqI) (auto simp: bit_simps)
qed simp

lemma length_le_bytes [simp]: "length (le_bytes n w) = n"
  by (induction n arbitrary: w) auto

lemma le_val_dword: "le_val (le_bytes 4 (ucast (v :: 32 word))) = ucast v"
  unfolding le_val_bytes by (rule bit_word_eqI) (auto simp: bit_simps dest: bit_imp_le_length)

text \<open>The C string in a buffer: up to the first zero, if all bytes up to there are determinate.\<close>

fun buf_cstr :: "8 word option list \<Rightarrow> string option" where
  "buf_cstr (Some b # bs) = (if b = 0 then Some [] else map_option (\<lambda>s. byte_char b # s) (buf_cstr bs))"
| "buf_cstr _ = None"

lemma char_less_256: "(of_char c :: nat) < 256"
  by (metis of_char_of less_le_trans not_less nat_of_char_less_256)

lemma unat_byte_of: "unat (byte_of c) = of_char c"
  using char_less_256 [of c] by (simp add: byte_of_def)

lemma byte_char_of [simp]: "byte_char (byte_of c) = c"
  by (simp add: byte_char_def unat_byte_of)

lemma byte_of_zero: "byte_of c = 0 \<longleftrightarrow> c = char_of (0::nat)"
proof
  assume "byte_of c = 0"
  then have "byte_char (byte_of c) = char_of (0::nat)" by (simp add: byte_char_def)
  then show "c = char_of (0::nat)" by simp
next
  assume "c = char_of (0::nat)"
  then have "(of_char c :: nat) = 0" by simp
  then show "byte_of c = 0" by (simp add: byte_of_def)
qed

lemma buf_cstr_bytes: "char_of (0::nat) \<notin> set s \<Longrightarrow> buf_cstr (map Some (map byte_of s @ [0]) @ r) = Some s"
  by (induction s) (auto simp: byte_of_zero)

definition readable :: "RegItem \<times> registry \<Rightarrow> bool" where
  "readable s = (ri_hKey (fst s) = Some True \<and> snd s (item_key (fst s)) \<noteq> None)"

lemma query_on_key:
  "readable s \<Longrightarrow> RegQueryValueEx m (on_key f s) = find_val m (f (the (snd s (item_key (fst s)))))"
  by (auto simp: RegQueryValueEx_def on_key_def readable_def item_key_def split: prod.splits option.splits)

lemma on_key_it [simp]: "fst (on_key f s) = fst s"
  by (auto simp: on_key_def split: prod.splits option.splits)

lemma getKeyValue_of:
  "RegQueryValueEx n s = Some (t, d) \<Longrightarrow> length d \<le> 8 \<or> TypeOf t \<notin> {UDWORD, QDWORD} \<Longrightarrow>
   \<exists>it1 k. getKeyValue Inr n s = Inr (k, it1, snd s) \<and> rk_rType k = TypeOf t \<and> rk_name k = n
     \<and> (TypeOf t \<in> {UDWORD, QDWORD} \<longrightarrow> rk_val k = Num (le_val d) \<and> rk_dLen k = 0)
     \<and> (TypeOf t = STRING \<longrightarrow> rk_val k = Ptr (map Some d @ [None]) \<and> rk_dLen k = int (length d))
     \<and> (TypeOf t = BINARY \<longrightarrow> rk_val k = Ptr (map Some d) \<and> rk_dLen k = int (length d))
     \<and> (TypeOf t = NONE \<longrightarrow> rk_val k = Num 0 \<and> rk_dLen k = 0)"
  by (cases s) (auto simp: getKeyValue_def Let_def RegKey_new_def)

lemma TypeOf_consts [simp]: "TypeOf REG_DWORD = UDWORD" "TypeOf REG_SZ = STRING" "TypeOf REG_BINARY = BINARY" "TypeOf REG_QWORD = QDWORD"
  by (simp_all add: TypeOf_def reg_consts)

lemma getKeyValue_ret:
  "getKeyValue ret n s = (case getKeyValue Inr n s of Inl e \<Rightarrow> Inl e | Inr (k, s1) \<Rightarrow> (case ret k of Inl e \<Rightarrow> Inl e | Inr k1 \<Rightarrow> Inr (k1, s1)))"
  by (cases s) (simp add: getKeyValue_def Let_def split: sum.split prod.split option.split)

text \<open>
  What a caller gets for a value, in both ways of returning: the member of the union for the type of the value is right. The tag, the name and the length of a value that
  owns no memory are right only without a copy, which has those of the uninitialised object.
\<close>

definition got_value :: "RegKey option \<Rightarrow> string \<Rightarrow> nat \<Rightarrow> 8 word list \<Rightarrow> RegKey \<Rightarrow> bool" where
  "got_value r n t d k =
     ((TypeOf t \<in> {UDWORD, QDWORD} \<longrightarrow> rk_val k = Num (le_val d)) \<and>
      (TypeOf t = STRING \<longrightarrow> (\<exists>rest. rk_val k = Ptr (map Some d @ rest))) \<and>
      (TypeOf t = BINARY \<longrightarrow> rk_val k = Ptr (map Some d)) \<and>
      (TypeOf t = NONE \<longrightarrow> rk_val k = Num 0) \<and>
      (case r of
         None \<Rightarrow> rk_rType k = TypeOf t \<and> rk_name k = n \<and> rk_dLen k = (if TypeOf t \<in> {STRING, BINARY} then int (length d) else 0)
       | Some junk \<Rightarrow> rk_rType k = rk_rType junk \<and> rk_dLen k = (if TypeOf t \<in> {STRING, BINARY} \<and> d \<noteq> [] then int (length d) else rk_dLen junk)))"

lemma TypeOf_cases: "TypeOf t \<in> {NONE, UDWORD, QDWORD, STRING, BINARY}"
  by (simp add: TypeOf_def)

lemma getKeyValue_returned:
  assumes "RegQueryValueEx n s = Some (t, d)" "length d \<le> 8 \<or> TypeOf t \<notin> {UDWORD, QDWORD}"
  shows "\<exists>k it1. getKeyValue (returned r) n s = Inr (k, it1, snd s) \<and> got_value r n t d k"
proof -
  from getKeyValue_of [OF assms] obtain it1 k where k: "getKeyValue Inr n s = Inr (k, it1, snd s)" "rk_rType k = TypeOf t" "rk_name k = n"
    "TypeOf t \<in> {UDWORD, QDWORD} \<Longrightarrow> rk_val k = Num (le_val d) \<and> rk_dLen k = 0"
    "TypeOf t = STRING \<Longrightarrow> rk_val k = Ptr (map Some d @ [None]) \<and> rk_dLen k = int (length d)"
    "TypeOf t = BINARY \<Longrightarrow> rk_val k = Ptr (map Some d) \<and> rk_dLen k = int (length d)"
    "TypeOf t = NONE \<Longrightarrow> rk_val k = Num 0 \<and> rk_dLen k = 0" by blast
  have "\<exists>k1. returned r k = Inr k1 \<and> got_value r n t d k1"
  proof (cases r)
    case None
    then show ?thesis using k(2-) TypeOf_cases [of t] by (auto simp: returned_def got_value_def)
  next
    case (Some junk)
    then show ?thesis using k(2-) TypeOf_cases [of t] by (auto simp: returned_def got_value_def RegKey_copy_def)
  qed
  then show ?thesis using k(1) by (auto simp: getKeyValue_ret [of "returned r"])
qed

lemma opened_readable: "OpenItem ok False s0 = (True, s) \<Longrightarrow> readable s"
  by (cases s0) (auto simp: OpenItem_def readable_def item_key_def split: if_splits option.splits)

text \<open>
  Property C37. On a key that was opened with \<open>OpenItem(false)\<close> a value that was set is read back, under every spelling of its name that differs in case only and for
  both ways in which a compiler may return the result: a number as the number, a string as the string, and binary data as its bytes. Without a copy also the tag and the
  length are right; the copy has the tag of the uninitialised object, and its length for empty data.
\<close>

theorem registry_roundtrip:
  assumes "OpenItem ok False s0 = (True, s)" "same_name n m" "char_of (0::nat) \<notin> set str"
  shows "(\<exists>k s1. getKeyValue (returned r) m (SetValue_dword n v s) = Inr (k, s1) \<and> rk_val k = Num (ucast v)
        \<and> rk_rType k = (case r of None \<Rightarrow> UDWORD | Some junk \<Rightarrow> rk_rType junk))
    \<and> (\<exists>s1 k s2 bs. SetValue_string n (Some str) s = Inr s1 \<and> getKeyValue (returned r) m s1 = Inr (k, s2) \<and> rk_val k = Ptr bs \<and> buf_cstr bs = Some str
        \<and> rk_rType k = (case r of None \<Rightarrow> STRING | Some junk \<Rightarrow> rk_rType junk))
    \<and> (\<exists>s1 k s2. SetValue_binary n (d @ rest) (int (length d)) s = Inr s1 \<and> getKeyValue (returned r) m s1 = Inr (k, s2) \<and> rk_val k = Ptr (map Some d)
        \<and> rk_rType k = (case r of None \<Rightarrow> BINARY | Some junk \<Rightarrow> rk_rType junk)
        \<and> rk_dLen k = (if d = [] then (case r of None \<Rightarrow> 0 | Some junk \<Rightarrow> rk_dLen junk) else int (length d)))"
proof -
  note rd = opened_readable [OF assms(1)]
  have q: "RegQueryValueEx m (on_key (set_val n t x) s) = Some (t, x)" for t x
    using query_on_key [OF rd, of m "set_val n t x"] reg.get_set_same [OF assms(2), of "(t, x)"] by simp
  have h: "ri_hKey (fst s) \<noteq> None" using rd by (simp add: readable_def)
  have "\<exists>k s1. getKeyValue (returned r) m (SetValue_dword n v s) = Inr (k, s1) \<and> rk_val k = Num (ucast v)
      \<and> rk_rType k = (case r of None \<Rightarrow> UDWORD | Some junk \<Rightarrow> rk_rType junk)"
    using getKeyValue_returned [OF q [of REG_DWORD "le_bytes 4 (ucast v)"], of r]
    by (auto simp: SetValue_dword_def le_val_dword got_value_def simp del: split_paired_Ex split: option.splits)
  moreover have "\<exists>s1 k s2 bs. SetValue_string n (Some str) s = Inr s1 \<and> getKeyValue (returned r) m s1 = Inr (k, s2) \<and> rk_val k = Ptr bs \<and> buf_cstr bs = Some str
      \<and> rk_rType k = (case r of None \<Rightarrow> STRING | Some junk \<Rightarrow> rk_rType junk)"
  proof -
    from getKeyValue_returned [OF q [of REG_SZ "map byte_of str @ [0]"], of r] obtain k s2 rest where
      "getKeyValue (returned r) m (on_key (set_val n REG_SZ (map byte_of str @ [0])) s) = Inr (k, s2)" "rk_val k = Ptr (map Some (map byte_of str @ [0]) @ rest)"
      "rk_rType k = (case r of None \<Rightarrow> STRING | Some junk \<Rightarrow> rk_rType junk)" by (auto simp: got_value_def split: option.splits)
    with buf_cstr_bytes [OF assms(3), of rest] h show ?thesis by (auto simp: SetValue_string_def simp del: split_paired_Ex)
  qed
  moreover have "\<exists>s1 k s2. SetValue_binary n (d @ rest) (int (length d)) s = Inr s1 \<and> getKeyValue (returned r) m s1 = Inr (k, s2) \<and> rk_val k = Ptr (map Some d)
      \<and> rk_rType k = (case r of None \<Rightarrow> BINARY | Some junk \<Rightarrow> rk_rType junk)
      \<and> rk_dLen k = (if d = [] then (case r of None \<Rightarrow> 0 | Some junk \<Rightarrow> rk_dLen junk) else int (length d))"
    using getKeyValue_returned [OF q [of REG_BINARY d], of r] h
    by (auto simp: SetValue_binary_def got_value_def simp del: split_paired_Ex split: option.splits)
  ultimately show ?thesis by blast
qed

definition ex_item :: "RegItem \<times> registry" where
  "ex_item = (\<lparr>ri_hKey = Some True, ri_root = SK_CurrUser, ri_sub = ''a'', ri_type = 0\<rparr>, (\<lambda>k. None)((SK_CurrUser, ''a'') \<mapsto> []))"

lemma ex_item_opened: "OpenItem True False (RegItem_new SK_CurrUser ''a''\<lparr>ri_type := 0\<rparr>, (\<lambda>k. None)((SK_CurrUser, ''a'') \<mapsto> [])) = (True, ex_item)"
  by (simp add: OpenItem_def RegItem_new_def item_key_def ex_item_def)

lemma registry_roundtrip_witness:
  "\<exists>k s1. getKeyValue (returned None) ''run'' (SetValue_dword ''Run'' 7 ex_item) = Inr (k, s1) \<and> rk_rType k = UDWORD \<and> rk_val k = Num 7"
proof -
  have "same_name ''Run'' ''run''" by code_simp
  from registry_roundtrip [OF ex_item_opened this, of "''x''" None 7 "[]" "[]"] have "char_of (0::nat) \<notin> set ''x'' \<Longrightarrow> ?thesis" by auto
  moreover have "char_of (0::nat) \<notin> set ''x''" by code_simp
  ultimately show ?thesis by blast
qed

subsection \<open>Types of values\<close>

text \<open>The values of a registry are well formed: numbers have their size and strings their end.\<close>

definition value_typed :: "nat \<Rightarrow> 8 word list \<Rightarrow> bool" where
  "value_typed t d = ((t = REG_DWORD \<longrightarrow> length d = 4) \<and> (t = REG_QWORD \<longrightarrow> length d = 8) \<and> (TypeOf t = STRING \<longrightarrow> 0 \<in> set d))"

definition values_typed :: "reg_value list \<Rightarrow> bool" where
  "values_typed vs = (\<forall>v \<in> set vs. value_typed (rv_type v) (rv_data v))"

definition registry_typed :: "registry \<Rightarrow> bool" where
  "registry_typed reg = (\<forall>k vs. reg k = Some vs \<longrightarrow> values_typed vs)"

text \<open>The member of the union for a type can be read: a number below its bound, a string with its end inside its buffer, or determinate bytes.\<close>

definition payload_typed :: "RegKeyType \<Rightarrow> RegKey \<Rightarrow> bool" where
  "payload_typed ty k =
     (case ty of
        UDWORD \<Rightarrow> (case rk_val k of Num w \<Rightarrow> w < 2 ^ 32 | Ptr _ \<Rightarrow> False)
      | QDWORD \<Rightarrow> (case rk_val k of Num w \<Rightarrow> True | Ptr _ \<Rightarrow> False)
      | STRING \<Rightarrow> (case rk_val k of Num w \<Rightarrow> False | Ptr bs \<Rightarrow> buf_cstr bs \<noteq> None)
      | BINARY \<Rightarrow> (case rk_val k of Num w \<Rightarrow> False | Ptr bs \<Rightarrow> None \<notin> set bs)
      | NONE \<Rightarrow> rk_val k = Num 0
      | SUBKEY \<Rightarrow> False)"

datatype reg_op = OpOpen bool bool | OpClose | OpDelete bool | OpDword string "32 word" | OpString string "string option" | OpBinary string "8 word list" int
  | OpErase string | OpGet string "RegKey option" | OpInfos RegKey systime "(string \<times> systime) list" "RegKey list" "(string \<times> string) list"
  | OpSave bool "string option" | OpRestore "reg_value list option" "string option"

fun reg_step :: "reg_op \<Rightarrow> RegItem \<times> registry \<Rightarrow> xerror + (RegItem \<times> registry)" where
  "reg_step (OpOpen ok c) s = Inr (snd (OpenItem ok c s))"
| "reg_step OpClose s = Inr (CloseItem (fst s), snd s)"
| "reg_step (OpDelete ok) s = Inr (DeleteItem ok s)"
| "reg_step (OpDword n v) s = Inr (SetValue_dword n v s)"
| "reg_step (OpString n str) s = SetValue_string n str s"
| "reg_step (OpBinary n d len) s = SetValue_binary n d len s"
| "reg_step (OpErase n) s = Inr (EraseValue n s)"
| "reg_step (OpGet n r) s = (case getKeyValue (returned r) n s of Inl e \<Rightarrow> Inl e | Inr (k, s1) \<Rightarrow> Inr s1)"
| "reg_step (OpInfos junk time subs lst sub) s = (case GetItemInfos junk time subs s lst sub of Inl e \<Rightarrow> Inl e | Inr _ \<Rightarrow> Inr s)"
| "reg_step (OpSave ok path) s = (let r = Save2Disk ok path (fst s) in Inr s)"
| "reg_step (OpRestore file path) s = Inr (snd (RestoreFromDisk file path s))"

fun reg_run :: "reg_op list \<Rightarrow> RegItem \<times> registry \<Rightarrow> xerror + (RegItem \<times> registry)" where
  "reg_run [] s = Inr s"
| "reg_run (op # ops) s = (case reg_step op s of Inl e \<Rightarrow> Inl e | Inr s1 \<Rightarrow> reg_run ops s1)"

text \<open>
  What a caller must not do: set a string from a null pointer or binary data beyond their end, with a key, and ask for the values of a key that is not open for reading. And
  a file that is restored has well-formed values.
\<close>

fun reg_bad :: "reg_op \<Rightarrow> RegItem \<times> registry \<Rightarrow> bool" where
  "reg_bad (OpString n str) s = (ri_hKey (fst s) \<noteq> None \<and> str = None)"
| "reg_bad (OpBinary n d len) s = (ri_hKey (fst s) \<noteq> None \<and> (len < 0 \<or> length d < nat len))"
| "reg_bad (OpInfos junk time subs lst sub) s = (\<not> readable s)"
| "reg_bad _ s = False"

fun op_typed :: "reg_op \<Rightarrow> bool" where
  "op_typed (OpRestore file path) = (case file of None \<Rightarrow> True | Some vs \<Rightarrow> values_typed vs)"
| "op_typed _ = True"

lemma values_typed_set: "values_typed vs \<Longrightarrow> value_typed t d \<Longrightarrow> values_typed (set_val n t d vs)"
  by (induction n t d vs rule: set_val.induct) (auto simp: values_typed_def)

lemma on_key_typed:
  "registry_typed (snd s) \<Longrightarrow> (\<And>vs. values_typed vs \<Longrightarrow> values_typed (f vs)) \<Longrightarrow> registry_typed (snd (on_key f s))"
  by (cases s) (auto simp: on_key_def registry_typed_def simp del: split_paired_All split: option.splits)

lemma find_val_typed: "values_typed vs \<Longrightarrow> find_val n vs = Some (t, d) \<Longrightarrow> value_typed t d"
  by (auto simp: find_val_def values_typed_def find_Some_iff)

lemma query_typed: "registry_typed (snd s) \<Longrightarrow> RegQueryValueEx n s = Some (t, d) \<Longrightarrow> value_typed t d"
  by (cases s) (auto simp: RegQueryValueEx_def registry_typed_def simp del: split_paired_All dest: find_val_typed split: option.splits if_splits)

lemma TypeOf_num: "TypeOf t = UDWORD \<longleftrightarrow> t = REG_DWORD" "TypeOf t = QDWORD \<longleftrightarrow> t = REG_QWORD" "TypeOf t \<noteq> SUBKEY"
  by (simp_all add: TypeOf_def reg_consts)

lemma typed_size: "value_typed t d \<Longrightarrow> length d \<le> 8 \<or> TypeOf t \<notin> {UDWORD, QDWORD}"
  by (auto simp: value_typed_def TypeOf_num)

lemma get_typed_state: "registry_typed (snd s) \<Longrightarrow> \<exists>k it1. getKeyValue (returned r) n s = Inr (k, it1, snd s)"
proof (cases "RegQueryValueEx n s")
  case None
  then have "getKeyValue Inr n s = Inr (RegKey_new\<lparr>rk_name := n, rk_rType := TypeOf (ri_type (fst s))\<rparr>, s)" by (cases s) (simp add: getKeyValue_def Let_def)
  then show ?thesis unfolding getKeyValue_ret [of "returned r" n s] by (cases s) (auto simp: returned_def RegKey_copy_def RegKey_new_def split: option.split)
next
  case (Some td)
  moreover assume "registry_typed (snd s)"
  ultimately show ?thesis using getKeyValue_returned [of n s] typed_size [OF query_typed] by (cases td) blast
qed

lemma values_typed_consts:
  "value_typed REG_DWORD (le_bytes 4 w)" "value_typed REG_SZ (d @ [0])" "value_typed REG_BINARY d"
  by (simp_all add: value_typed_def reg_consts TypeOf_def)

lemma values_typed_del: "values_typed vs \<Longrightarrow> values_typed (del_val n vs)"
  by (auto simp: values_typed_def del_val_def)

lemma registry_typed_upd: "registry_typed reg \<Longrightarrow> (\<And>vs. v = Some vs \<Longrightarrow> values_typed vs) \<Longrightarrow> registry_typed (reg(k := v))"
  by (simp add: registry_typed_def del: split_paired_All)

lemma OpenItem_typed: "registry_typed (snd s) \<Longrightarrow> registry_typed (snd (snd (OpenItem ok c s)))"
  by (cases s) (auto simp: OpenItem_def values_typed_def intro!: registry_typed_upd split: option.splits)

lemma DeleteItem_typed: "registry_typed (snd s) \<Longrightarrow> registry_typed (snd (DeleteItem ok s))"
  by (cases s) (auto simp: DeleteItem_def intro!: registry_typed_upd)

lemma RestoreFromDisk_typed:
  "registry_typed (snd s) \<Longrightarrow> (\<And>vs. file = Some vs \<Longrightarrow> values_typed vs) \<Longrightarrow> registry_typed (snd (snd (RestoreFromDisk file path s)))"
  by (cases s) (auto simp: RestoreFromDisk_def intro!: registry_typed_upd split: option.splits)

text \<open>The values of a well-formed key can be listed.\<close>

lemma enum_value_typed:
  "value_typed (rv_type v) (rv_data v) \<Longrightarrow> enum_fits v \<Longrightarrow> \<exists>k. enum_value v = Inr k \<and> (\<exists>k1. RegKey_copy junk k = Inr k1)"
proof -
  assume a: "value_typed (rv_type v) (rv_data v)" "enum_fits v"
  have s: "length (takeWhile (\<lambda>b. b \<noteq> 0) (rv_data v)) < length (rv_data v)" if "TypeOf (rv_type v) = STRING"
  proof -
    have "0 \<in> set (rv_data v)" using a(1) that by (simp add: value_typed_def)
    then have "takeWhile (\<lambda>b. b \<noteq> 0) (rv_data v) \<noteq> rv_data v" by (metis (mono_tags) takeWhile_eq_all_conv)
    then show ?thesis by (metis length_takeWhile_le nless_le takeWhile_eq_take take_all_iff)
  qed
  then show ?thesis using a(2) TypeOf_cases [of "rv_type v"]
    by (auto simp: enum_value_def enum_fits_def RegKey_copy_def RegKey_new_def Let_def nat_add_distrib)
qed

lemma enum_values_typed: "values_typed vs \<Longrightarrow> \<exists>lst1. enum_values junk vs lst = Inr lst1"
proof (induction junk vs lst rule: enum_values.induct)
  case (2 junk v vs lst)
  then show ?case using enum_value_typed [of v junk] by (cases "enum_fits v") (auto simp: values_typed_def)
qed simp

lemma GetItemInfos_undefined:
  "registry_typed (snd s) \<Longrightarrow> (GetItemInfos junk time subs s lst sub = Inl e) = (e = Undefined \<and> \<not> readable s)"
proof (cases "readable s")
  case False
  then show ?thesis by (cases s) (auto simp: GetItemInfos_def readable_def)
next
  case True
  assume t: "registry_typed (snd s)"
  obtain it reg vs where s: "s = (it, reg)" "ri_hKey it = Some True" "reg (item_key it) = Some vs" using True by (cases s) (auto simp: readable_def)
  then have "values_typed vs" using t by (auto simp: registry_typed_def simp del: split_paired_All)
  from enum_values_typed [OF this, of junk lst] s show ?thesis by (auto simp: GetItemInfos_def Let_def readable_def)
qed

lemma reg_step_undefined: "registry_typed (snd s) \<Longrightarrow> (reg_step op s = Inl e) = (e = Undefined \<and> reg_bad op s)"
proof (cases op)
  case (OpGet n r)
  assume "registry_typed (snd s)"
  with get_typed_state [OF this, of r n] OpGet show ?thesis by auto
next
  case (OpInfos junk time subs lst sub)
  assume "registry_typed (snd s)"
  from GetItemInfos_undefined [OF this, of junk time subs lst sub e] OpInfos show ?thesis by (auto split: sum.splits)
qed (auto simp: SetValue_string_def SetValue_binary_def Let_def split: option.splits)

lemma reg_step_typed: "registry_typed (snd s) \<Longrightarrow> op_typed op \<Longrightarrow> reg_step op s = Inr s1 \<Longrightarrow> registry_typed (snd s1)"
proof (cases op)
  case (OpGet n r)
  assume "registry_typed (snd s)" "reg_step op s = Inr s1"
  with get_typed_state [of s r n] OpGet show ?thesis by auto
qed (auto simp: SetValue_dword_def SetValue_string_def SetValue_binary_def EraseValue_def Let_def
    simp del: split_paired_Ex intro!: OpenItem_typed DeleteItem_typed RestoreFromDisk_typed on_key_typed values_typed_set values_typed_consts values_typed_del
    split: if_splits option.splits sum.splits)

lemma reg_run_typed: "registry_typed (snd s) \<Longrightarrow> list_all op_typed ops \<Longrightarrow> reg_run ops s = Inr s1 \<Longrightarrow> registry_typed (snd s1)"
proof (induction ops arbitrary: s)
  case (Cons op ops)
  from Cons.prems(3) obtain s2 where s2: "reg_step op s = Inr s2" "reg_run ops s2 = Inr s1" by (auto split: sum.splits)
  with Cons.prems(2) reg_step_typed [OF Cons.prems(1) _ s2(1)] Cons.IH [of s2] show ?case by simp
qed simp

lemma le_val_bound: "length d \<le> 4 \<Longrightarrow> le_val d < 2 ^ 32"
proof -
  have bit: "bit (le_val d) n \<Longrightarrow> n < 8 * length d" for n
  proof (induction d arbitrary: n)
    case (Cons b d)
    from Cons.prems have "bit b n \<or> 8 \<le> n \<and> bit (le_val d) (n - 8)" by (auto simp: bit_simps)
    with Cons.IH [of "n - 8"] show ?case using bit_imp_le_length [of b n] by auto
  qed simp
  assume "length d \<le> 4"
  with bit have "take_bit 32 (le_val d) = le_val d" by (intro bit_word_eqI) (fastforce simp: bit_simps)
  moreover have "uint (take_bit 32 (le_val d)) < 2 ^ 32" using take_bit_int_less_exp [of 32 "uint (le_val d)"] by (simp add: unsigned_take_bit_eq)
  ultimately show ?thesis by (simp add: word_less_def)
qed

lemma buf_cstr_zero: "0 \<in> set d \<Longrightarrow> buf_cstr (map Some d @ r) \<noteq> None"
  by (induction d) auto

text \<open>
  Property C36. The class is type safe on values that exist. After any sequence of its operations, listing and saving and restoring included, on a well-formed registry and
  with well-formed files, in which nothing was undefined, the registry is well formed; what can be undefined next is exactly setting a string from a null pointer or
  binary data beyond their end with a key, and listing a key that is not open for reading. The key read for an existing value holds, for both ways in which a
  compiler may return it, a value of the type of the stored one: a number below its bound, a string with its end inside its buffer, or determinate bytes. Its tag
  names that type only without a copy; the copy has the tag of the uninitialised object.
\<close>

theorem registry_type_safe:
  assumes "registry_typed (snd s)" "list_all op_typed ops" "reg_run ops s = Inr s1"
  shows "registry_typed (snd s1) \<and> (\<forall>op e. (reg_step op s1 = Inl e) = (e = Undefined \<and> reg_bad op s1)) \<and>
    (\<forall>n r t d. RegQueryValueEx n s1 = Some (t, d) \<longrightarrow>
       (\<exists>k s2. getKeyValue (returned r) n s1 = Inr (k, s2) \<and> payload_typed (TypeOf t) k \<and> rk_rType k = (case r of None \<Rightarrow> TypeOf t | Some junk \<Rightarrow> rk_rType junk)))"
proof -
  have ty: "registry_typed (snd s1)" by (rule reg_run_typed [OF assms])
  moreover have "\<exists>k s2. getKeyValue (returned r) n s1 = Inr (k, s2) \<and> payload_typed (TypeOf t) k \<and> rk_rType k = (case r of None \<Rightarrow> TypeOf t | Some junk \<Rightarrow> rk_rType junk)"
    if q: "RegQueryValueEx n s1 = Some (t, d)" for n r t d
  proof -
    have v: "value_typed t d" using query_typed [OF ty q] .
    from getKeyValue_returned [OF q typed_size [OF v], of r] obtain k it1 where k: "getKeyValue (returned r) n s1 = Inr (k, it1, snd s1)" "got_value r n t d k" by blast
    have "TypeOf t = UDWORD \<Longrightarrow> le_val d < 2 ^ 32" "TypeOf t = STRING \<Longrightarrow> 0 \<in> set d"
      using v le_val_bound [of d] by (auto simp: value_typed_def TypeOf_num)
    then have "payload_typed (TypeOf t) k" using k(2) buf_cstr_zero [of d] buf_cstr_zero [of d "[]"] TypeOf_cases [of t] by (auto simp: payload_typed_def got_value_def)
    moreover have "rk_rType k = (case r of None \<Rightarrow> TypeOf t | Some junk \<Rightarrow> rk_rType junk)" using k(2) by (simp add: got_value_def split: option.splits)
    ultimately show ?thesis using k(1) by blast
  qed
  ultimately show ?thesis using reg_step_undefined by blast
qed

lemma registry_type_safe_witness:
  "\<exists>s1. reg_run [OpString ''n'' (Some ''v''), OpGet ''n'' None, OpErase ''q''] ex_item = Inr s1
     \<and> (\<exists>k s2. getKeyValue (returned None) ''n'' s1 = Inr (k, s2) \<and> payload_typed STRING k \<and> rk_rType k = STRING)"
proof -
  let ?ops = "[OpString ''n'' (Some ''v''), OpGet ''n'' None, OpErase ''q'']"
  have t: "registry_typed (snd ex_item)" by (auto simp: ex_item_def registry_typed_def values_typed_def split: if_splits)
  have "\<not> same_name ''n'' ''q''" "byte_of (CHR ''v'') \<noteq> 0" by code_simp+
  then obtain s1 d where s1: "reg_run ?ops ex_item = Inr s1" "RegQueryValueEx ''n'' s1 = Some (REG_SZ, d)"
    by (auto simp: SetValue_string_def EraseValue_def on_key_def ex_item_def item_key_def getKeyValue_def RegQueryValueEx_def Let_def returned_def
        find_val_def del_val_def)
  have "list_all op_typed ?ops" by simp
  from registry_type_safe [OF t this s1(1)] s1(2) have "\<exists>k s2. getKeyValue (returned None) ''n'' s1 = Inr (k, s2) \<and> payload_typed (TypeOf REG_SZ) k \<and> rk_rType k = TypeOf REG_SZ"
    by fastforce
  with s1(1) show ?thesis by auto
qed

text \<open>
  Observations. A key that \<open>OpenItem\<close> creates, or opens with \<open>bCreate\<close>, has no access rights: setting and erasing change nothing. Opening an existing key this way
  succeeds but returns false. A value that does not exist is reported with the type of the value read before. The copy of a key has the tag of the uninitialised
  object, and no name if it owns memory, so that the entries of the list that \<open>GetItemInfos\<close> fills have lost them.
\<close>

lemma created_key_unusable:
  "OpenItem True True (it, reg) = (b, it1, reg1) \<Longrightarrow>
     SetValue_dword n v (it1, reg1) = (it1, reg1) \<and> EraseValue n (it1, reg1) = (it1, reg1) \<and> b = (reg (item_key it) = None) \<and> ri_hKey it1 \<noteq> None"
  by (auto simp: OpenItem_def SetValue_dword_def EraseValue_def on_key_def split: option.splits)

lemma missing_value_stale_type:
  "RegQueryValueEx n (it, reg) = None \<Longrightarrow>
     \<exists>k. getKeyValue Inr n (it, reg) = Inr (k, it, reg) \<and> rk_rType k = TypeOf (ri_type it) \<and> rk_val k = Num 0"
  by (simp add: getKeyValue_def Let_def RegKey_new_def)

lemma copy_loses:
  "RegKey_copy junk k = Inr k1 \<Longrightarrow> rk_rType k1 = rk_rType junk \<and> (0 < rk_dLen k \<longrightarrow> rk_name k1 = '''') \<and> (rk_dLen k \<le> 0 \<longrightarrow> rk_dLen k1 = rk_dLen junk)"
  by (auto simp: RegKey_copy_def split: if_splits regunion.splits)

lemma enum_values_lose:
  "enum_values junk vs lst = Inr lst1 \<Longrightarrow> \<exists>ks. lst1 = lst @ ks \<and> length ks = length (filter enum_fits vs) \<and> list_all (\<lambda>k. rk_rType k = rk_rType junk) ks"
proof (induction junk vs lst rule: enum_values.induct)
  case (2 junk v vs lst)
  then show ?case by (fastforce split: if_splits sum.splits dest: copy_loses)
qed simp

text \<open>Observation. The list of the values is complete exactly if all of them fit the buffers; a subkey with a name of the maximal length of 255 is not listed.\<close>

lemma infos_complete:
  assumes "GetItemInfos junk time subs (it, reg) [] [] = Inr (text, lst, subLst)" "reg (item_key it) = Some vs" "list_all (\<lambda>(n, t). length n < 255) subs"
  shows "text = (if list_all enum_fits vs then item_date time else '''') \<and> length subLst = length subs"
proof -
  have "filter (\<lambda>(n, t). length n < MAX_KEY_LENGTH) subs = subs" using assms(3) by (auto simp: list_all_iff MAX_KEY_LENGTH_def filter_id_conv)
  then have l: "length (enum_subkeys subs) = length subs" by (simp add: enum_subkeys_def)
  have f: "length (filter enum_fits vs) = length vs \<longleftrightarrow> list_all enum_fits vs" by (simp add: list_all_iff flip: length_filter_less) (metis filter_True filter_id_conv length_filter_less less_irrefl)
  show ?thesis using assms(1,2) l f by (fastforce simp: GetItemInfos_def Let_def dest: enum_values_lose split: sum.splits if_splits)
qed

end
