(* ===== verification/AdoDb.thy ===== *)
theory AdoDb
  imports DBFormat DBPool
begin

text \<open>
  The driver for ADO (\<open>DB/AdoConn.cpp\<close>, \<open>DB/AdoAccess.cpp\<close>). The COM objects are a parameter, a record of functions on their state \<open>'m\<close>; a method that fails throws a
  \<open>_com_error\<close>, as the use of a null smart pointer does. A \<open>catch (_com_error &)\<close> catches only these, a \<open>catch (...)\<close> every exception, and none an undefined access.
  A recordset is the list of its rows, a row the list of its columns.
\<close>

definition com_error :: xerror where
  "com_error = Throw ''_com_error''"

datatype ado_type = adInteger | adBigInt | adDouble | adBSTR | adVarChar | adWChar | adBinary | adOther

text \<open>A variant that holds an array of bytes, which may be null, or something else.\<close>

datatype 'd variant = VArray "8 word list option" | VVal "'d cval" | VNull

record 'd ado_col =
  co_name :: string
  co_type :: ado_type
  co_size :: int
  co_val :: "'d variant"

type_synonym 'd ado_rows = "'d ado_col list list"

record 'd ado_param =
  pa_name :: string
  pa_type :: ado_type
  pa_size :: nat
  pa_val :: "'d variant"

text \<open>
  \<open>ad_command\<close> executes a command with its text and parameters, \<open>ad_execute\<close> a text on the connection; both give a recordset, or throw (\<open>None\<close>). \<open>ad_array\<close> is
  whether an array of a size can be created, \<open>ad_param\<close> whether a parameter can be created and appended.
\<close>

record ('d, 'm) ado =
  ad_instance :: "string \<Rightarrow> 'm \<Rightarrow> bool \<times> 'm"
  ad_open :: "string \<Rightarrow> string \<Rightarrow> string \<Rightarrow> 'm \<Rightarrow> bool \<times> 'm"
  ad_close :: "'m \<Rightarrow> bool \<times> 'm"
  ad_begin :: "'m \<Rightarrow> bool \<times> 'm"
  ad_commit :: "'m \<Rightarrow> bool \<times> 'm"
  ad_rollback :: "'m \<Rightarrow> bool \<times> 'm"
  ad_execute :: "string \<Rightarrow> 'm \<Rightarrow> 'd ado_rows option \<times> 'm"
  ad_array :: "nat \<Rightarrow> bool"
  ad_param :: "'d ado_param \<Rightarrow> bool"
  ad_command :: "string \<Rightarrow> 'd ado_param list \<Rightarrow> 'm \<Rightarrow> 'd ado_rows option \<times> 'm"

subsection \<open>Connections\<close>

record adoParam =
  ap_dbIp :: string
  ap_user :: string
  ap_passwd :: string
  ap_dbName :: string
  ap_dbBase :: string

record AdoConn =
  ao_dbStr :: string
  ao_user :: string
  ao_passwd :: string
  ao_DBIP :: string
  ao_DBName :: string
  ao_pConn :: bool

definition AdoConn_new :: AdoConn where
  "AdoConn_new = \<lparr>ao_dbStr = [], ao_user = [], ao_passwd = [], ao_DBIP = [], ao_DBName = [], ao_pConn = False\<rparr>"

definition Ado_InitConnecion :: "adoParam \<Rightarrow> AdoConn \<Rightarrow> bool \<times> AdoConn" where
  "Ado_InitConnecion q c =
     (True, c\<lparr>ao_DBIP := ap_dbIp q, ao_user := ap_user q, ao_passwd := ap_passwd q, ao_dbStr := ap_dbBase q, ao_DBName := ap_dbName q\<rparr>)"

text \<open>\<open>sprintf\<close> with strings only; another conversion, or more conversions than strings, is undefined.\<close>

fun print_strings :: "string \<Rightarrow> string list \<Rightarrow> xerror + string" where
  "print_strings [] ss = Inr []"
| "print_strings (c # cs) ss =
     (if c \<noteq> CHR ''%'' then map_sum id (\<lambda>t. c # t) (print_strings cs ss)
      else case cs of
             [] \<Rightarrow> Inl Undefined
           | d # ds \<Rightarrow>
               if d = CHR ''%'' then map_sum id (\<lambda>t. CHR ''%'' # t) (print_strings ds ss)
               else if d = CHR ''s'' then (case ss of [] \<Rightarrow> Inl Undefined | u # us \<Rightarrow> map_sum id (\<lambda>t. u @ t) (print_strings ds us))
               else Inl Undefined)"

definition Ado_ConnectDB :: "('d, 'm) ado \<Rightarrow> AdoConn \<Rightarrow> 'm \<Rightarrow> xerror + (bool \<times> AdoConn \<times> 'm)" where
  "Ado_ConnectDB L c m =
     (case ad_instance L ''Connection'' m of (ok, m1) \<Rightarrow>
        if \<not> ok then Inr (False, c\<lparr>ao_pConn := False\<rparr>, m1)
        else
          let c1 = c\<lparr>ao_pConn := True\<rparr>
          in case print_strings (ao_dbStr c) [ao_DBName c, ao_DBIP c] of
               Inl e \<Rightarrow> Inl e
             | Inr strConn \<Rightarrow>
                 if 512 \<le> length strConn then Inl Undefined
                 else case ad_open L strConn (ao_user c) (ao_passwd c) m1 of (opened, m2) \<Rightarrow> Inr (opened, c1, m2))"

definition Ado_DisConnectDB :: "('d, 'm) ado \<Rightarrow> AdoConn \<Rightarrow> 'm \<Rightarrow> AdoConn \<times> 'm" where
  "Ado_DisConnectDB L c m =
     (if ao_pConn c then (case ad_close L m of (ok, m1) \<Rightarrow> (if ok then c\<lparr>ao_pConn := False\<rparr> else c, m1)) else (c, m))"

text \<open>The transactions of a connection that is null throw, and are caught like every exception.\<close>

definition Ado_BeginTrans :: "('d, 'm) ado \<Rightarrow> AdoConn \<Rightarrow> 'm \<Rightarrow> int \<times> 'm" where
  "Ado_BeginTrans L c m = (if \<not> ao_pConn c then (-1, m) else case ad_begin L m of (ok, m1) \<Rightarrow> (if ok then 0 else -1, m1))"

definition Ado_CommitTrans :: "('d, 'm) ado \<Rightarrow> bool \<Rightarrow> AdoConn \<Rightarrow> 'm \<Rightarrow> int \<times> 'm" where
  "Ado_CommitTrans L b c m =
     (if \<not> ao_pConn c then (-1, m) else case (if b then ad_commit L m else ad_rollback L m) of (ok, m1) \<Rightarrow> (if ok then 0 else -1, m1))"

subsection \<open>Binary data\<close>

text \<open>The loop that puts the bytes into the array, from an offset on; without an array putting a byte fails.\<close>

function put_loop :: "bool \<Rightarrow> 8 word list \<Rightarrow> int \<Rightarrow> nat \<Rightarrow> 8 word list \<Rightarrow> xerror + 8 word list option" where
  "put_loop psa lpData nBytes off arr =
     (if \<not> int off < nBytes then Inr (Some arr)
      else if length lpData \<le> off then Inl Undefined
      else if \<not> psa then Inr None
      else put_loop psa lpData nBytes (Suc off) (arr[off := lpData ! off]))"
  by pat_completeness auto
termination
  by (relation "measure (\<lambda>(psa, lpData, nBytes, off, arr). nat nBytes - off)") auto

declare put_loop.simps [simp del]

definition SetAdoBinaryData :: "('d, 'm) ado \<Rightarrow> 8 word list \<Rightarrow> int \<Rightarrow> xerror + 'd variant option" where
  "SetAdoBinaryData L lpData nBytes =
     (let n = nat (nBytes mod 2 ^ 32); psa = ad_array L n
      in case put_loop psa lpData nBytes 0 (replicate n 0) of
           Inl e \<Rightarrow> Inl e
         | Inr None \<Rightarrow> Inr None
         | Inr (Some arr) \<Rightarrow> Inr (Some (VArray (if psa then Some arr else None))))"

text \<open>
  \<open>GetCollect\<close> gives the value of the first column with the name. The field is set up before. The result is what the function returns, with the field.
\<close>

definition col_named :: "'d ado_col list \<Rightarrow> string \<Rightarrow> 'd ado_col option" where
  "col_named row name = find (\<lambda>c. co_name c = name) row"

definition GetBinaryByAdo :: "'d ado_col list \<Rightarrow> string \<Rightarrow> nat \<Rightarrow> 'd DBField \<Rightarrow> xerror + (int \<times> 'd DBField)" where
  "GetBinaryByAdo row colName lDataSize f =
     (let g = f\<lparr>df_len := lDataSize, df_memType := 0, df_type := DT_BLOB, df_val := None\<rparr>
      in case col_named row colName of
           None \<Rightarrow> Inr (0, g)
         | Some c \<Rightarrow>
             (case co_val c of
                VArray None \<Rightarrow> Inl Undefined
              | VArray (Some bs) \<Rightarrow> if length bs < lDataSize then Inl Undefined else Inr (int lDataSize, g\<lparr>df_val := Some (CBlob (take lDataSize bs))\<rparr>)
              | _ \<Rightarrow> Inr (0, g)))"

subsection \<open>Statements\<close>

definition Ado_Execute :: "('d, 'm) ado \<Rightarrow> AdoConn \<Rightarrow> proxy \<Rightarrow> DBConnPool \<Rightarrow> string \<Rightarrow> 'm \<Rightarrow> xerror + (int \<times> 'm)" where
  "Ado_Execute L c x st sql m =
     (case DBAccess_Execute x st of
        Inl e \<Rightarrow> Inl e
      | Inr nRet \<Rightarrow>
          if nRet \<noteq> 0 then Inr (nRet, m)
          else if \<not> ao_pConn c then Inr (1, m)
          else case ad_execute L sql m of (r, m1) \<Rightarrow> Inr (if r = None then 1 else 0, m1))"

text \<open>\<open>Fromat\<close> into a cleared buffer with the tests behind it; \<open>strlen\<close> of a null pointer is undefined.\<close>

definition ado_format :: "(string \<Rightarrow> 'd cval \<Rightarrow> string option) \<Rightarrow> nat \<Rightarrow> string \<Rightarrow> FieldInfo list \<Rightarrow> 'd vaarg list \<Rightarrow> xerror + (int + string \<times> 'd ArgType list)" where
  "ado_format lib cap sql fis ap =
     (case Fromat lib (Some []) sql cap [] fis ap CHR ''?'' CHR ''%'' of
        Inl e \<Rightarrow> Inl e
      | Inr (None, args) \<Rightarrow> Inl Undefined
      | Inr (Some s, args) \<Rightarrow> Inr (if s = [] then Inl (- 2) else if length args \<noteq> length fis then Inl (- 3) else Inr (s, args)))"

text \<open>The parameter for one argument; \<open>cmd\<close> below is whether the command could be created. The argument is read by its type; \<open>throw\<close> of a text is no \<open>_com_error\<close>.\<close>

definition arg_param :: "('d, 'm) ado \<Rightarrow> 'd ArgType \<Rightarrow> xerror + 'd ado_param" where
  "arg_param L a =
     (let f = ar_val a; mk = (\<lambda>t n v. Inr \<lparr>pa_name = df_name f, pa_type = t, pa_size = n, pa_val = v\<rparr>)
      in case (df_type f, df_val f) of
           (DT_INT, Some (CInt n)) \<Rightarrow> mk adInteger 4 (VVal (CInt n))
         | (DT_INT64, Some (CInt64 n)) \<Rightarrow> mk adBigInt 8 (VVal (CInt64 n))
         | (DT_DOUBLE, Some (CDouble d)) \<Rightarrow> mk adDouble 8 (VVal (CDouble d))
         | (DT_STRING, Some (CStr s)) \<Rightarrow> mk adBSTR (df_len f) (VVal (CStr s))
         | (DT_BLOB, Some (CBlob bs)) \<Rightarrow>
             (case SetAdoBinaryData L bs (int (df_len f)) of
                Inl e \<Rightarrow> Inl e
              | Inr None \<Rightarrow> Inl (Throw ''Write Binary data error'')
              | Inr (Some v) \<Rightarrow> mk adBinary (df_len f) v)
         | _ \<Rightarrow> Inl Undefined)"

fun append_params :: "('d, 'm) ado \<Rightarrow> bool \<Rightarrow> 'd ArgType list \<Rightarrow> 'd ado_param list \<Rightarrow> xerror + 'd ado_param list" where
  "append_params L cmd [] ps = Inr ps"
| "append_params L cmd (a # as) ps =
     (if ar_nFlag a = 0 then append_params L cmd as ps
      else case arg_param L a of
             Inl e \<Rightarrow> Inl e
           | Inr p \<Rightarrow> if cmd \<and> ad_param L p then append_params L cmd as (ps @ [p]) else Inl com_error)"

text \<open>The part inside the \<open>try\<close>: the command with its parameters is executed, on a connection that is not null.\<close>

definition run_command :: "('d, 'm) ado \<Rightarrow> AdoConn \<Rightarrow> string \<Rightarrow> 'd ArgType list \<Rightarrow> 'm \<Rightarrow> (xerror + 'd ado_rows) \<times> 'm" where
  "run_command L c s args m =
     (case ad_instance L ''Command'' m of (cmd, m1) \<Rightarrow>
        case append_params L cmd args [] of
          Inl e \<Rightarrow> (Inl e, m1)
        | Inr ps \<Rightarrow>
            if \<not> cmd \<or> \<not> ao_pConn c then (Inl com_error, m1)
            else case ad_command L s ps m1 of (None, m2) \<Rightarrow> (Inl com_error, m2) | (Some rs, m2) \<Rightarrow> (Inr rs, m2))"

definition Ado_ExecuteArgs :: "(string \<Rightarrow> 'd cval \<Rightarrow> string option) \<Rightarrow> ('d, 'm) ado \<Rightarrow> AdoConn \<Rightarrow> proxy \<Rightarrow> DBConnPool \<Rightarrow> string \<Rightarrow> FieldInfo list \<Rightarrow>
    'd vaarg list \<Rightarrow> 'm \<Rightarrow> xerror + (int \<times> 'm)" where
  "Ado_ExecuteArgs lib L c x st sql fis ap m =
     (case DBAccess_Execute x st of
        Inl e \<Rightarrow> Inl e
      | Inr nRet \<Rightarrow>
          if nRet \<noteq> 0 then Inr (nRet, m)
          else case ado_format lib 1024 sql fis ap of
            Inl e \<Rightarrow> Inl e
          | Inr (Inl r) \<Rightarrow> Inr (r, m)
          | Inr (Inr (s, args)) \<Rightarrow>
              (case run_command L c s args m of
                 (Inl e, m1) \<Rightarrow> if e = com_error then Inr (1, m1) else Inl e
               | (Inr rs, m1) \<Rightarrow> Inr (0, m1)))"

subsection \<open>Queries\<close>

text \<open>The query without arguments is a test: it uses its own connection and statement, and only looks at the columns \<open>id\<close> and \<open>pic\<close>.\<close>

definition pic_read :: "'d ado_col list \<Rightarrow> xerror + int" where
  "pic_read row =
     (case col_named row ''pic'' of
        None \<Rightarrow> Inl com_error
      | Some c \<Rightarrow>
          if co_size c \<le> 0 then Inr 0
          else (case co_val c of
                  VArray None \<Rightarrow> Inl Undefined
                | VArray (Some bs) \<Rightarrow> if length bs < nat (co_size c) then Inl Undefined else Inr (co_size c)
                | _ \<Rightarrow> Inr 0))"

fun pic_loop :: "'d ado_rows \<Rightarrow> xerror + int" where
  "pic_loop [] = Inr 0"
| "pic_loop (row # rows) =
     (if col_named row ''id'' = None then Inr (-1)
      else case pic_read row of Inl e \<Rightarrow> if e = com_error then Inr (-1) else Inl e | Inr n \<Rightarrow> pic_loop rows)"

definition test_conn :: string where
  "test_conn = ''Provider=SQLOLEDB.1;Password=zhubin123;Persist Security Info=True;User ID=sa;Initial Catalog=test;Data Source=localhost''"

definition Ado_Query :: "('d, 'm) ado \<Rightarrow> string \<Rightarrow> 'd DBField list list \<Rightarrow> 'm \<Rightarrow> xerror + (int \<times> 'd DBField list list \<times> 'm)" where
  "Ado_Query L sql result m =
     (case ad_instance L ''Connection'' m of (ok, m1) \<Rightarrow>
        if \<not> ok then Inr (-1, result, m1)
        else case ad_open L test_conn '''' '''' m1 of (ok2, m2) \<Rightarrow>
          if \<not> ok2 then Inr (-1, result, m2)
          else case ad_instance L ''adodb.Recordset'' m2 of (ok3, m3) \<Rightarrow>
            if \<not> ok3 then Inr (-1, result, m3)
            else case ad_execute L ''select  * from example_blob'' m3 of
              (None, m4) \<Rightarrow> Inr (-1, result, m4)
            | (Some rows, m4) \<Rightarrow> (case pic_loop rows of Inl e \<Rightarrow> Inl e | Inr r \<Rightarrow> Inr (r, result, m4)))"

text \<open>One column of a row. A value that is not of the type of its column cannot be converted and throws.\<close>

definition col_field :: "'d ado_col list \<Rightarrow> 'd ado_col \<Rightarrow> xerror + 'd DBField" where
  "col_field row c =
     (let f = DBField_new\<lparr>df_name := co_name c\<rparr>
      in if co_type c = adInteger then
           (case co_val c of VVal (CInt n) \<Rightarrow> Inr (f\<lparr>df_type := DT_INT, df_val := Some (CInt n)\<rparr>) | _ \<Rightarrow> Inl com_error)
         else if co_type c = adBigInt then
           (case co_val c of VVal (CInt64 n) \<Rightarrow> Inr (f\<lparr>df_type := DT_INT64, df_val := Some (CInt64 n)\<rparr>) | _ \<Rightarrow> Inl com_error)
         else if co_type c = adDouble then
           (case co_val c of VVal (CDouble d) \<Rightarrow> Inr (f\<lparr>df_type := DT_DOUBLE, df_val := Some (CDouble d)\<rparr>) | _ \<Rightarrow> Inl com_error)
         else if co_type c \<in> {adBSTR, adVarChar, adWChar} then
           (case co_val c of
              VVal (CStr s) \<Rightarrow> Inr (f\<lparr>df_type := DT_STRING, df_len := length s, df_memType := 0, df_val := Some (CStr s)\<rparr>)
            | _ \<Rightarrow> Inl com_error)
         else if co_type c = adBinary then
           (case GetBinaryByAdo row (co_name c) (nat (co_size c)) (f\<lparr>df_type := DT_BLOB\<rparr>) of
              Inl e \<Rightarrow> Inl e
            | Inr (n, g) \<Rightarrow> if n \<le> 0 then Inl (Throw ''Get Binary data error'') else Inr g)
         else Inr f)"

text \<open>
  The copy constructor of a field. It looks at \<open>memType\<close> of the new object, which is not initialised: the number \<open>n\<close> of the copy gives what is there. If that happens to be one,
  it assigns to a string that was never constructed. Otherwise all bytes are copied, those of the string as well: \<open>cy_name\<close> is the name that is left in such a copy, or
  \<open>None\<close> if its characters are then released by the original and by the copy, both of which end inside the function.
\<close>

record copying =
  cy_memType :: "nat \<Rightarrow> nat"
  cy_name :: "string \<Rightarrow> string option"

definition DBField_copy :: "copying \<Rightarrow> nat \<Rightarrow> 'd DBField \<Rightarrow> xerror + 'd DBField" where
  "DBField_copy C n f =
     (if cy_memType C n = 1 then Inl Undefined
      else case cy_name C (df_name f) of None \<Rightarrow> Inl Undefined | Some s \<Rightarrow> Inr (f\<lparr>df_name := s\<rparr>))"

text \<open>The copy of a list, with the number of the first copy.\<close>

fun copy_fields :: "copying \<Rightarrow> nat \<Rightarrow> 'd DBField list \<Rightarrow> xerror + 'd DBField list" where
  "copy_fields C n [] = Inr []"
| "copy_fields C n (f # fs) =
     (case DBField_copy C n f of Inl e \<Rightarrow> Inl e | Inr g \<Rightarrow> map_sum id (\<lambda>gs. g # gs) (copy_fields C (Suc n) fs))"

text \<open>The loop over the columns; \<open>None\<close> is the return in the middle of it. The field is copied into the list.\<close>

fun row_loop :: "copying \<Rightarrow> nat \<Rightarrow> 'd ado_col list \<Rightarrow> 'd ado_col list \<Rightarrow> 'd DBField list \<Rightarrow> xerror + 'd DBField list option" where
  "row_loop C n row [] lst = Inr (Some lst)"
| "row_loop C n row (c # cs) lst =
     (if co_size c \<le> 0 then Inr None
      else case col_field row c of
             Inl e \<Rightarrow> Inl e
           | Inr f \<Rightarrow> (case DBField_copy C n f of Inl e \<Rightarrow> Inl e | Inr g \<Rightarrow> row_loop C (Suc n) row cs (lst @ [g])))"

text \<open>The loop over the rows with the handler around it. The list of a row is copied into the result.\<close>

fun rows_loop :: "copying \<Rightarrow> nat \<Rightarrow> 'd ado_rows \<Rightarrow> 'd DBField list list \<Rightarrow> xerror + (int \<times> 'd DBField list list)" where
  "rows_loop C n [] result = Inr (0, result)"
| "rows_loop C n (row # rows) result =
     (case row_loop C n row row [] of
        Inl e \<Rightarrow> if e = Undefined then Inl e else Inr (1, result)
      | Inr None \<Rightarrow> Inr (0, result)
      | Inr (Some lst) \<Rightarrow>
          (case copy_fields C (n + length row) lst of
             Inl e \<Rightarrow> Inl e
           | Inr lst1 \<Rightarrow> rows_loop C (n + 2 * length row) rows (result @ [lst1])))"

text \<open>An exception of the command is dropped; the recordset is then null or closed, and the next access throws.\<close>

definition Ado_QueryArgs :: "copying \<Rightarrow> (string \<Rightarrow> 'd cval \<Rightarrow> string option) \<Rightarrow> ('d, 'm) ado \<Rightarrow> AdoConn \<Rightarrow> proxy \<Rightarrow> DBConnPool \<Rightarrow> string \<Rightarrow> FieldInfo list \<Rightarrow>
    'd vaarg list \<Rightarrow> 'd DBField list list \<Rightarrow> 'm \<Rightarrow> xerror + (int \<times> 'd DBField list list \<times> 'm)" where
  "Ado_QueryArgs C lib L c x st sql fis ap result m =
     (case DBAccess_Query x st of
        Inl e \<Rightarrow> Inl e
      | Inr nRet \<Rightarrow>
          if nRet \<noteq> 0 then Inr (nRet, result, m)
          else case ado_format lib 512 sql fis ap of
            Inl e \<Rightarrow> Inl e
          | Inr (Inl r) \<Rightarrow> Inr (r, result, m)
          | Inr (Inr (s, args)) \<Rightarrow>
              (case run_command L c s args (snd (ad_instance L ''Recordset'' m)) of
                 (Inl e, m1) \<Rightarrow> if e = Undefined then Inl e else Inr (1, result, m1)
               | (Inr rows, m1) \<Rightarrow> (case rows_loop C 0 rows result of Inl e \<Rightarrow> Inl e | Inr (r, res) \<Rightarrow> Inr (r, res, m1))))"

subsection \<open>Binary data survive\<close>

lemma put_loop_fills:
  "off \<le> length data \<Longrightarrow> length arr = length data \<Longrightarrow> take off arr = take off data \<Longrightarrow> put_loop True data (int (length data)) off arr = Inr (Some data)"
proof (induction "length data - off" arbitrary: off arr)
  case 0
  then show ?case by (simp add: put_loop.simps [of True data _ off])
next
  case (Suc n)
  then have "take (Suc off) (arr[off := data ! off]) = take (Suc off) data" by (simp add: take_Suc_conv_app_nth)
  moreover have "off < length data" using Suc.hyps(2) by simp
  ultimately show ?case using Suc.hyps(1) [of "Suc off" "arr[off := data ! off]"] Suc.hyps(2) Suc.prems
    by (simp add: put_loop.simps [of True data _ off])
qed

lemma SetAdoBinaryData_ok:
  "length bs < 2 ^ 32 \<Longrightarrow> ad_array L (length bs) \<Longrightarrow> SetAdoBinaryData L bs (int (length bs)) = Inr (Some (VArray (Some bs)))"
  using put_loop_fills [of 0 bs "replicate (length bs) 0"] by (simp add: SetAdoBinaryData_def Let_def nat_mod_as_int)

lemma blob_roundtrip:
  assumes "length bs < 2 ^ 32" "ad_array L (length bs)" "col_named row name = Some \<lparr>co_name = name, co_type = adBinary, co_size = sz, co_val = v\<rparr>"
    and "SetAdoBinaryData L bs (int (length bs)) = Inr (Some v)"
  shows "\<exists>g. GetBinaryByAdo row name (length bs) f = Inr (int (length bs), g) \<and> df_val g = Some (CBlob bs) \<and> df_len g = length bs"
  using assms SetAdoBinaryData_ok [of bs L] by (auto simp: GetBinaryByAdo_def Let_def)

subsection \<open>A statement reaches the server with its values\<close>

text \<open>Fields as \<open>Fromat\<close> fills them.\<close>

definition field_ok :: "'d DBField \<Rightarrow> bool" where
  "field_ok f = (case df_val f of
     None \<Rightarrow> False
   | Some v \<Rightarrow> df_type f = val_type v \<and> (case v of CBlob bs \<Rightarrow> df_len f = length bs | CStr s \<Rightarrow> df_len f = length s | _ \<Rightarrow> True))"

lemma va_field_ok: "va_field t ap f = Inr (g, ap') \<Longrightarrow> field_ok g"
  by (induction t ap f rule: va_field.induct) (auto simp: field_ok_def split: if_splits)

lemma fill_args_ok:
  "fill_args fis ap as = Inr as' \<Longrightarrow> length as' = length as \<and> (length as \<le> length fis \<longrightarrow> (\<forall>a \<in> set as'. field_ok (ar_val a)))"
proof (induction fis ap as arbitrary: as' rule: fill_args.induct)
  case (1 fi fis ap a as)
  from "1.prems" obtain f ap' as'' where f: "va_field (fi_type fi) ap ((ar_val a)\<lparr>df_name := fi_name fi\<rparr>) = Inr (f, ap')"
    "fill_args fis ap' as = Inr as''" "as' = a\<lparr>ar_val := f\<rparr> # as''" by (auto split: sum.splits)
  from "1.IH" [OF f(1) refl f(2)] va_field_ok [OF f(1)] f(3) show ?case by simp
qed auto

lemma Fromat_ok:
  "Fromat lib d sql cap as fis ap c1 c2 = Inr (Some t, args) \<Longrightarrow> length args = length fis \<and> (\<forall>a \<in> set args. field_ok (ar_val a))"
  by (auto simp: Fromat_def Let_def split: option.splits if_splits sum.splits dest!: fill_args_ok)

fun var_of :: "'d cval \<Rightarrow> 'd variant" where
  "var_of (CBlob bs) = VArray (Some bs)"
| "var_of v = VVal v"

fun ado_of :: "DBFieldType \<Rightarrow> ado_type" where
  "ado_of DT_INT = adInteger"
| "ado_of DT_INT64 = adBigInt"
| "ado_of DT_DOUBLE = adDouble"
| "ado_of DT_STRING = adBSTR"
| "ado_of DT_BLOB = adBinary"

definition small_blob :: "'d cval \<Rightarrow> bool" where
  "small_blob v = (case v of CBlob bs \<Rightarrow> length bs < 2 ^ 32 | _ \<Rightarrow> True)"

fun par_size :: "'d cval \<Rightarrow> nat" where
  "par_size (CInt n) = 4"
| "par_size (CInt64 n) = 8"
| "par_size (CDouble d) = 8"
| "par_size (CStr s) = length s"
| "par_size (CBlob bs) = length bs"

text \<open>The parameter for a value.\<close>

definition param_for :: "'d ado_param \<Rightarrow> 'd cval \<Rightarrow> bool" where
  "param_for p v = (pa_val p = var_of v \<and> pa_type p = ado_of (val_type v) \<and> pa_size p = par_size v)"

text \<open>The arrays for binary data can be created.\<close>

definition arrays_fit :: "('d, 'm) ado \<Rightarrow> 'd cval list \<Rightarrow> bool" where
  "arrays_fit L vs = (\<forall>v \<in> set vs. case v of CBlob bs \<Rightarrow> ad_array L (length bs) | _ \<Rightarrow> True)"

lemma arg_param_ok:
  assumes "field_ok (ar_val a)" "df_val (ar_val a) = Some v" "small_blob v" "arrays_fit L [v]"
  shows "\<exists>p. arg_param L a = Inr p \<and> param_for p v"
  using assms by (cases v) (auto simp: arg_param_def field_ok_def small_blob_def arrays_fit_def param_for_def SetAdoBinaryData_ok Let_def)

text \<open>The first parameter that is refused ends the statement.\<close>

lemma append_params_ok:
  "arrays_fit L vs \<Longrightarrow> \<forall>a \<in> set args. field_ok (ar_val a) \<Longrightarrow> map (df_val \<circ> ar_val) (filter (\<lambda>a. ar_nFlag a = 1) args) = map Some vs \<Longrightarrow>
     \<forall>a \<in> set args. ar_nFlag a \<le> 1 \<Longrightarrow> list_all small_blob vs \<Longrightarrow>
     \<exists>ps. list_all2 param_for ps vs \<and> append_params L True args ps0 = (if list_all (ad_param L) ps then Inr (ps0 @ ps) else Inl com_error)"
proof (induction args arbitrary: vs ps0)
  case (Cons a args)
  show ?case
  proof (cases "ar_nFlag a = 0")
    case True
    with Cons.prems Cons.IH [of vs ps0] show ?thesis by auto
  next
    case False
    with Cons.prems(4) have f: "ar_nFlag a = 1" by auto
    then obtain v ws where v: "vs = v # ws" "df_val (ar_val a) = Some v" using Cons.prems(3) by (cases vs) auto
    from arg_param_ok [of a v L] v Cons.prems(1,2,5) obtain p where p: "arg_param L a = Inr p" "param_for p v"
      by (auto simp: arrays_fit_def)
    have "arrays_fit L ws" using Cons.prems(1) v(1) by (simp add: arrays_fit_def)
    from Cons.IH [OF this, of "ps0 @ [p]"] Cons.prems v f obtain ps where
      "list_all2 param_for ps ws" "append_params L True args (ps0 @ [p]) = (if list_all (ad_param L) ps then Inr (ps0 @ [p] @ ps) else Inl com_error)" by auto
    with p f v show ?thesis by (intro exI [of _ "p # ps"]) simp
  qed
qed auto

lemma fill_args_flags: "fill_args fis ap as = Inr as' \<Longrightarrow> map ar_nFlag as' = map ar_nFlag as"
proof (induction fis ap as arbitrary: as' rule: fill_args.induct)
  case (1 fi fis ap a as)
  then show ?case by (auto split: sum.splits)
qed auto

lemma Fromat_flags:
  "Fromat lib d sql cap [] fis ap c1 c2 = Inr (Some t, args) \<Longrightarrow> \<forall>a \<in> set args. ar_nFlag a \<le> 1"
proof -
  assume F: "Fromat lib d sql cap [] fis ap c1 c2 = Inr (Some t, args)"
  let ?as = "sort_key ar_pStart (map (ArgType_of 1) (marks c1 sql 0) @ map (ArgType_of 0) (marks c2 sql 0)) :: 'a ArgType list"
  from F have "fill_args fis ap ?as = Inr args" by (auto simp: Fromat_def Let_def split: option.splits if_splits sum.splits)
  then have "set (map ar_nFlag args) = set (map ar_nFlag ?as)" by (simp add: fill_args_flags)
  also have "\<dots> \<subseteq> {0, 1}" by (auto simp: ArgType_of_def)
  finally show ?thesis by fastforce
qed

lemma ado_statement:
  assumes "DBAccess_Execute x st = Inr 0" "ao_pConn c" "ad_instance L ''Command'' m = (True, m1)"
    and "render lib sql vs = Some (txt, binds)" "map fi_type fis = map val_type vs" "sql \<noteq> []" "txt \<noteq> []" "length sql < 256" "length txt < 256"
    and "list_all small_blob binds" "arrays_fit L binds"
  shows "\<exists>ps. list_all2 param_for ps binds \<and>
      Ado_ExecuteArgs lib L c x st sql fis (concat (map va_of vs)) m =
        (if list_all (ad_param L) ps then Inr (if fst (ad_command L txt ps m1) = None then 1 else 0, snd (ad_command L txt ps m1)) else Inr (1, m1))"
proof -
  from Fromat_rendered [OF assms(4-6,8,9), of 1024] assms(8,9) obtain args where
    F: "Fromat lib (Some []) sql 1024 [] fis (concat (map va_of vs)) CHR ''?'' CHR ''%'' = Inr (Some txt, args)"
    "map (df_val \<circ> ar_val) (filter (\<lambda>a. ar_nFlag a = 1) args) = map Some binds" by auto
  note ok = Fromat_ok [OF F(1)]
  obtain ps where ps: "list_all2 param_for ps binds" "append_params L True args [] = (if list_all (ad_param L) ps then Inr ps else Inl com_error)"
    using append_params_ok [OF assms(11) conjunct2 [OF ok] F(2) Fromat_flags [OF F(1)] assms(10), of "[]"] by auto
  have "run_command L c txt args m =
      (if list_all (ad_param L) ps then (case ad_command L txt ps m1 of (None, m2) \<Rightarrow> (Inl com_error, m2) | (Some rs, m2) \<Rightarrow> (Inr rs, m2)) else (Inl com_error, m1))"
    using assms(2,3) ps(2) by (simp add: run_command_def)
  then have "Ado_ExecuteArgs lib L c x st sql fis (concat (map va_of vs)) m
      = (if list_all (ad_param L) ps then Inr (if fst (ad_command L txt ps m1) = None then 1 else 0, snd (ad_command L txt ps m1)) else Inr (1, m1))"
    using assms(1,7) F(1) ok
    by (simp add: Ado_ExecuteArgs_def ado_format_def split: prod.splits option.splits)
  with ps(1) show ?thesis by blast
qed


definition ex_ado :: "(nat, (string \<times> nat ado_param list) list) ado" where
  "ex_ado = \<lparr>ad_instance = (\<lambda>_ m. (True, m)), ad_open = (\<lambda>_ _ _ m. (True, m)), ad_close = (\<lambda>m. (True, m)), ad_begin = (\<lambda>m. (True, m)),
     ad_commit = (\<lambda>m. (True, m)), ad_rollback = (\<lambda>m. (True, m)), ad_execute = (\<lambda>s m. (Some [], m @ [(s, [])])), ad_array = (\<lambda>_. True),
     ad_param = (\<lambda>p. pa_type p \<in> {adBSTR, adBinary} \<longrightarrow> 0 < pa_size p), ad_command = (\<lambda>s ps m. (Some [], m @ [(s, ps)]))\<rparr>"

definition ex_conns :: DBConnPool where
  "ex_conns = (DBConnPool_new [])\<lparr>cp_conns := (\<lambda>_. DBConnect_new\<lparr>dc_bValid := True\<rparr>)\<rparr>"


text \<open>Observation. ADO takes no parameter of variable length whose size is zero, so that a statement with an empty string to bind is never executed.\<close>

lemma empty_string_refused:
  assumes "DBAccess_Execute x st = Inr 0" "ao_pConn c" "ad_instance L ''Command'' m = (True, m1)"
    and "render lib sql vs = Some (txt, binds)" "map fi_type fis = map val_type vs" "sql \<noteq> []" "txt \<noteq> []" "length sql < 256" "length txt < 256"
    and "list_all small_blob binds" "arrays_fit L binds" "CStr [] \<in> set binds" "\<And>p. pa_type p = adBSTR \<Longrightarrow> pa_size p = 0 \<Longrightarrow> \<not> ad_param L p"
  shows "Ado_ExecuteArgs lib L c x st sql fis (concat (map va_of vs)) m = Inr (1, m1)"
proof -
  from ado_statement [OF assms(1-11)] obtain ps where ps: "list_all2 param_for ps binds"
    "Ado_ExecuteArgs lib L c x st sql fis (concat (map va_of vs)) m =
        (if list_all (ad_param L) ps then Inr (if fst (ad_command L txt ps m1) = None then 1 else 0, snd (ad_command L txt ps m1)) else Inr (1, m1))" by blast
  from ps(1) assms(12) obtain p where "p \<in> set ps" "param_for p (CStr [])" by (induction ps binds rule: list_all2_induct) auto
  with assms(13) [of p] have "\<not> list_all (ad_param L) ps" by (auto simp: param_for_def list_all_iff)
  with ps(2) show ?thesis by simp
qed

subsection \<open>The rows of a query\<close>

text \<open>The name and the value of a column, and what a provider keeps of its values: they have the type of their column, and binary data its size.\<close>

definition col_cell :: "'d ado_col \<Rightarrow> string \<times> 'd cval option" where
  "col_cell c =
     (co_name c, if co_type c = adOther then None
                 else (case co_val c of VVal v \<Rightarrow> Some v | VArray (Some bs) \<Rightarrow> Some (CBlob bs) | _ \<Rightarrow> None))"

definition col_ok :: "'d ado_col \<Rightarrow> bool" where
  "col_ok c =
     (case co_type c of
        adInteger \<Rightarrow> (case co_val c of VVal (CInt _) \<Rightarrow> True | _ \<Rightarrow> False)
      | adBigInt \<Rightarrow> (case co_val c of VVal (CInt64 _) \<Rightarrow> True | _ \<Rightarrow> False)
      | adDouble \<Rightarrow> (case co_val c of VVal (CDouble _) \<Rightarrow> True | _ \<Rightarrow> False)
      | adBinary \<Rightarrow> (case co_val c of VArray (Some bs) \<Rightarrow> co_size c = int (length bs) | _ \<Rightarrow> False)
      | adOther \<Rightarrow> True
      | _ \<Rightarrow> (case co_val c of VVal (CStr _) \<Rightarrow> True | _ \<Rightarrow> False))"

definition col_filled :: "'d ado_col \<Rightarrow> bool" where
  "col_filled c = (0 < co_size c)"

definition row_ok :: "'d ado_col list \<Rightarrow> bool" where
  "row_ok row = (distinct (map co_name row) \<and> (\<forall>c \<in> set row. col_filled c \<longrightarrow> col_ok c))"

lemma col_named_distinct: "distinct (map co_name row) \<Longrightarrow> c \<in> set row \<Longrightarrow> col_named row (co_name c) = Some c"
  unfolding col_named_def by (induction row) auto

lemma col_field_ok:
  assumes "row_ok row" "c \<in> set row" "col_filled c"
  shows "\<exists>f. col_field row c = Inr f \<and> (df_name f, df_val f) = col_cell c"
proof -
  have ok: "col_ok c" and nm: "col_named row (co_name c) = Some c"
    using assms col_named_distinct [of row c] by (simp_all add: row_ok_def)
  show ?thesis
  proof (cases "co_type c = adBinary")
    case True
    with ok obtain bs where "co_val c = VArray (Some bs)" "co_size c = int (length bs)"
      by (auto simp: col_ok_def split: variant.splits option.splits)
    with True nm assms(3) show ?thesis by (simp add: col_field_def GetBinaryByAdo_def col_cell_def col_filled_def DBField_new_def Let_def)
  next
    case False
    then show ?thesis using ok
      by (cases "co_type c"; cases "co_val c")
        (simp_all add: col_ok_def col_field_def col_cell_def DBField_new_def Let_def split: cval.splits)
  qed
qed

text \<open>The condition on the memory that copies are made in, and on strings whose bytes are copied.\<close>

definition copies_fine :: "copying \<Rightarrow> bool" where
  "copies_fine C = ((\<forall>n. cy_memType C n \<noteq> 1) \<and> (\<forall>s. cy_name C s \<noteq> None))"

lemma DBField_copy_val: "copies_fine C \<Longrightarrow> \<exists>g. DBField_copy C n f = Inr g \<and> df_val g = df_val f"
  by (auto simp: copies_fine_def DBField_copy_def split: option.split)

lemma copy_fields_val: "copies_fine C \<Longrightarrow> \<exists>gs. copy_fields C n fs = Inr gs \<and> map df_val gs = map df_val fs"
proof (induction fs arbitrary: n)
  case (Cons f fs)
  from DBField_copy_val [OF Cons.prems, of n f] Cons.IH [OF Cons.prems, of "Suc n"] show ?case by auto
qed simp

lemma row_loop_full:
  "copies_fine C \<Longrightarrow> row_ok row \<Longrightarrow> set cs \<subseteq> set row \<Longrightarrow> list_all col_filled cs \<Longrightarrow>
   \<exists>fs. row_loop C n row cs lst = Inr (Some (lst @ fs)) \<and> map df_val fs = map (snd \<circ> col_cell) cs"
proof (induction cs arbitrary: lst n)
  case (Cons c cs)
  then obtain f where f: "col_field row c = Inr f" "(df_name f, df_val f) = col_cell c" using col_field_ok [of row c] by auto
  obtain g where g: "DBField_copy C n f = Inr g" "df_val g = df_val f" using DBField_copy_val [OF Cons.prems(1), of n f] by auto
  from Cons.IH [of "Suc n" "lst @ [g]"] Cons.prems obtain fs where
    "row_loop C (Suc n) row cs (lst @ [g]) = Inr (Some ((lst @ [g]) @ fs))" "map df_val fs = map (snd \<circ> col_cell) cs" by auto
  moreover have "df_val f = snd (col_cell c)" using f(2) by (metis snd_conv)
  ultimately show ?case using f(1) g Cons.prems(4) by (intro exI [of _ "g # fs"]) (simp add: col_filled_def)
qed auto

lemma row_loop_cut:
  "copies_fine C \<Longrightarrow> row_ok row \<Longrightarrow> set cs \<subseteq> set row \<Longrightarrow> \<not> list_all col_filled cs \<Longrightarrow> row_loop C n row cs lst = Inr None"
proof (induction cs arbitrary: lst n)
  case (Cons c cs)
  show ?case
  proof (cases "col_filled c")
    case True
    then obtain f where "col_field row c = Inr f" using col_field_ok [of row c] Cons.prems by auto
    with Cons True DBField_copy_val [OF Cons.prems(1), of n f] show ?thesis by (auto simp: col_filled_def)
  qed (simp add: col_filled_def)
qed simp

lemma rows_loop_prefix:
  "copies_fine C \<Longrightarrow> list_all row_ok rows \<Longrightarrow>
   \<exists>new. rows_loop C n rows result = Inr (0, result @ new) \<and> map (map df_val) new = map (map (snd \<circ> col_cell)) (takeWhile (list_all col_filled) rows)"
proof (induction rows arbitrary: result n)
  case (Cons row rows)
  show ?case
  proof (cases "list_all col_filled row")
    case True
    with row_loop_full [OF Cons.prems(1), of row row n "[]"] Cons.prems obtain fs where fs: "row_loop C n row row [] = Inr (Some fs)"
      "map df_val fs = map (snd \<circ> col_cell) row" by auto
    obtain gs where gs: "copy_fields C (n + length row) fs = Inr gs" "map df_val gs = map df_val fs" using copy_fields_val [OF Cons.prems(1)] by blast
    from Cons.IH [of "n + 2 * length row" "result @ [gs]"] Cons.prems obtain new where
      "rows_loop C (n + 2 * length row) rows (result @ [gs]) = Inr (0, (result @ [gs]) @ new)"
      "map (map df_val) new = map (map (snd \<circ> col_cell)) (takeWhile (list_all col_filled) rows)" by auto
    with fs gs True show ?thesis by (intro exI [of _ "gs # new"]) simp
  next
    case False
    with row_loop_cut [OF Cons.prems(1), of row row n "[]"] Cons.prems show ?thesis by simp
  qed
qed simp

text \<open>
  Observation. If the copies of fields are harmless, a query whose command gives a recordset returns zero and appends, in the order of the recordset, the values of the
  rows before the first one with an empty column; that row and all rows behind it are left out without a sign, so that the result is complete exactly if no column is
  empty or null. Of the names nothing is said.
\<close>

theorem ado_query_rows:
  assumes "DBAccess_Query x st = Inr 0" "ado_format lib 512 sql fis ap = Inr (Inr (s, args))"
    and "run_command L c s args (snd (ad_instance L ''Recordset'' m)) = (Inr rows, m1)" "list_all row_ok rows" "copies_fine C"
  shows "\<exists>new. Ado_QueryArgs C lib L c x st sql fis ap result m = Inr (0, result @ new, m1)
    \<and> map (map df_val) new = map (map (snd \<circ> col_cell)) (takeWhile (list_all col_filled) rows)"
  using rows_loop_prefix [OF assms(5,4), of 0 result] assms(1-3) by (auto simp: Ado_QueryArgs_def)

definition ex_rows :: "nat ado_rows" where
  "ex_rows =
     [[\<lparr>co_name = ''id'', co_type = adInteger, co_size = 4, co_val = VVal (CInt 1)\<rparr>, \<lparr>co_name = ''pic'', co_type = adBinary, co_size = 2, co_val = VArray (Some [7, 8])\<rparr>],
      [\<lparr>co_name = ''id'', co_type = adInteger, co_size = 4, co_val = VVal (CInt 2)\<rparr>, \<lparr>co_name = ''pic'', co_type = adBinary, co_size = 0, co_val = VNull\<rparr>],
      [\<lparr>co_name = ''id'', co_type = adInteger, co_size = 4, co_val = VVal (CInt 3)\<rparr>, \<lparr>co_name = ''pic'', co_type = adBinary, co_size = 1, co_val = VArray (Some [9])\<rparr>]]"

lemma ado_query_rows_witness:
  "\<exists>new. Ado_QueryArgs \<lparr>cy_memType = (\<lambda>_. 0), cy_name = Some\<rparr> no_lib (ex_ado\<lparr>ad_command := (\<lambda>s ps m. (Some ex_rows, m))\<rparr>) (AdoConn_new\<lparr>ao_pConn := True\<rparr>)
       \<lparr>px_connect = Some 5, px_alive = True\<rparr> ex_conns ''select'' [] [] [] [] = Inr (0, new, [])
     \<and> map (map df_val) new = [[Some (CInt 1), Some (CBlob [7, 8])]]"
proof -
  let ?L = "ex_ado\<lparr>ad_command := (\<lambda>s ps m. (Some ex_rows, m))\<rparr>" and ?c = "AdoConn_new\<lparr>ao_pConn := True\<rparr>"
  have q: "DBAccess_Query \<lparr>px_connect = Some 5, px_alive = True\<rparr> ex_conns = Inr 0" by (simp add: DBAccess_Query_def ex_conns_def)
  have "Fromat no_lib (Some []) ''select'' 512 [] [] [] CHR ''?'' CHR ''%'' = Inr (Some ''select'', [] :: nat ArgType list)"
    by (simp add: Fromat_def marks_filter Let_def upt_rec)
  then have f: "ado_format no_lib 512 ''select'' [] [] = Inr (Inr (''select'', [] :: nat ArgType list))" by (simp add: ado_format_def)
  have r: "run_command ?L ?c ''select'' [] (snd (ad_instance ?L ''Recordset'' [])) = (Inr ex_rows, [])"
    by (simp add: run_command_def ex_ado_def)
  have ok: "list_all row_ok ex_rows" by (simp add: ex_rows_def row_ok_def col_ok_def col_filled_def)
  have c: "copies_fine \<lparr>cy_memType = (\<lambda>_. 0), cy_name = Some\<rparr>" by (simp add: copies_fine_def)
  from ado_query_rows [OF q f r ok c, of "[]"] show ?thesis by (simp add: ex_rows_def col_filled_def col_cell_def)
qed

text \<open>Observation. A column whose name is released twice makes the query undefined, as does memory that happens to hold a one.\<close>

lemma column_copy_undefined:
  assumes "row_ok row" "row = col # cs" "col_filled col" "cy_name C (co_name col) = None \<or> cy_memType C n = 1"
  shows "rows_loop C n (row # rows) result = Inl Undefined"
proof -
  obtain f where f: "col_field row col = Inr f" "(df_name f, df_val f) = col_cell col" using col_field_ok [of row col] assms(1-3) by auto
  then have "df_name f = co_name col" by (simp add: col_cell_def)
  then have "DBField_copy C n f = Inl Undefined" using assms(4) by (auto simp: DBField_copy_def)
  with f(1) assms(2,3) show ?thesis by (simp add: col_filled_def)
qed

text \<open>
  Observations. The query without arguments never looks at its statement and never adds to the result. A statement with arguments on a connection that is null returns
  one, while a statement with the wrong number of arguments is undefined instead of an error code. A blob whose array cannot be created leaves \<open>Execute\<close> with an
  exception that it does not catch.
\<close>

lemma Ado_Query_ignores:
  "Ado_Query L sql result m = Inr (r, res, m1) \<Longrightarrow> res = result \<and> Ado_Query L sql' result m = Inr (r, res, m1)"
  by (auto simp: Ado_Query_def split: prod.splits if_splits option.splits sum.splits)

lemma ado_wrong_count:
  "DBAccess_Execute x st = Inr 0 \<Longrightarrow> length (kinds sql) \<noteq> length fis \<Longrightarrow> Ado_ExecuteArgs lib L c x st sql fis ap m = Inl Undefined"
proof -
  assume a: "DBAccess_Execute x st = Inr 0" "length (kinds sql) \<noteq> length fis"
  have "\<exists>args. Fromat lib (Some []) sql 1024 [] fis ap CHR ''?'' CHR ''%'' = Inr (None, args)" by (rule Fromat_mismatch [OF a(2)])
  with a(1) show ?thesis by (auto simp: Ado_ExecuteArgs_def ado_format_def)
qed

lemma blob_exception_escapes:
  assumes "DBAccess_Execute x st = Inr 0" "ado_format lib 1024 sql fis ap = Inr (Inr (s, [a]))" "ar_nFlag a = 1"
    and "df_type (ar_val a) = DT_BLOB" "df_val (ar_val a) = Some (CBlob bs)" "df_len (ar_val a) = length bs" "bs \<noteq> []" "\<And>n. \<not> ad_array L n"
  shows "Ado_ExecuteArgs lib L c x st sql fis ap m = Inl (Throw ''Write Binary data error'')"
proof -
  have "SetAdoBinaryData L bs (int (length bs)) = Inr None"
    using assms(7,8) by (simp add: SetAdoBinaryData_def Let_def put_loop.simps [of False _ _ 0])
  then have "arg_param L a = Inl (Throw ''Write Binary data error'')" using assms(4-6) by (simp add: arg_param_def Let_def)
  then show ?thesis using assms(1-3) by (simp add: Ado_ExecuteArgs_def run_command_def com_error_def split: prod.splits)
qed

end
