(* ===== verification/ThreadObj.thy ===== *)
theory ThreadObj
  imports XPrelude
begin

text \<open>
  Thread objects (\<open>Thread/ThreadImpl_Linux.h\<close>, \<open>Thread/ThreadImpl_Win32.h\<close>), the class \<open>Thread\<close> on them, and the callback of \<open>Timer\<close> (\<open>Thread/Timer.h\<close>). The objects
  lie in a store and the threads of the system hold the address of the object that started them; both platforms are one model with a parameter for the platform. The
  union of the two kinds of member functions holds what was stored: a call as the other kind is undefined. The events are the calls of the program and the two moments
  at which a thread touches its object.
\<close>

datatype platform = Linux | Windows

text \<open>A member function without or with an argument; the number names the function.\<close>

datatype callback = Plain nat | Ex nat

record thobj =
  th_funcptr :: "callback option"
  th_hThread :: nat
  th_bRuning :: bool
  th_pExtend :: nat

definition ThreadImpl_new :: "nat option \<Rightarrow> thobj" where
  "ThreadImpl_new pFunc = \<lparr>th_funcptr = map_option Plain pFunc, th_hThread = 0, th_bRuning = False, th_pExtend = 0\<rparr>"

definition ThreadImpl_newEx :: "nat option \<Rightarrow> nat \<Rightarrow> thobj" where
  "ThreadImpl_newEx pFunc pParam = \<lparr>th_funcptr = map_option Ex pFunc, th_hThread = 0, th_bRuning = False, th_pExtend = pParam\<rparr>"

definition ThreadImpl_copy :: "thobj \<Rightarrow> thobj" where
  "ThreadImpl_copy th = \<lparr>th_funcptr = th_funcptr th, th_hThread = 0, th_bRuning = False, th_pExtend = th_pExtend th\<rparr>"

definition HasInThParam :: "thobj \<Rightarrow> bool" where
  "HasInThParam o1 = (th_pExtend o1 \<noteq> 0)"

text \<open>What \<open>Run\<close> calls: the function with its argument, if any. The test for null looks at the bits that both kinds share.\<close>

definition Run :: "thobj \<Rightarrow> xerror + (nat \<times> nat option) list" where
  "Run o1 =
     (case th_funcptr o1 of
        None \<Rightarrow> Inr []
      | Some cb \<Rightarrow>
          if HasInThParam o1
          then (case cb of Ex f \<Rightarrow> Inr [(f, Some (th_pExtend o1))] | Plain _ \<Rightarrow> Inl Undefined)
          else (case cb of Plain f \<Rightarrow> Inr [(f, None)] | Ex _ \<Rightarrow> Inl Undefined))"

datatype th_phase = Created | InRun | Ended

record thsys =
  ts_objs :: "nat \<Rightarrow> thobj option"
  ts_threads :: "nat \<Rightarrow> (nat \<times> th_phase) option"
  ts_next :: nat
  ts_calls :: "(nat \<times> nat option) list"

definition thsys_init :: thsys where
  "thsys_init = \<lparr>ts_objs = (\<lambda>_. None), ts_threads = (\<lambda>_. None), ts_next = 0, ts_calls = []\<rparr>"

definition set_obj :: "nat \<Rightarrow> thobj \<Rightarrow> thsys \<Rightarrow> thsys" where
  "set_obj a o1 s = s\<lparr>ts_objs := (ts_objs s)(a \<mapsto> o1)\<rparr>"

text \<open>\<open>start\<close>, with whether the system can create the thread. On Windows a failure stores the null handle.\<close>

definition th_start :: "platform \<Rightarrow> bool \<Rightarrow> nat \<Rightarrow> thsys \<Rightarrow> xerror + (bool \<times> thsys)" where
  "th_start P ok a s =
     (case ts_objs s a of
        None \<Rightarrow> Inl Undefined
      | Some o1 \<Rightarrow>
          if \<not> ok then Inr (False, if P = Windows then set_obj a (o1\<lparr>th_hThread := 0\<rparr>) s else s)
          else
            let t = Suc (ts_next s)
            in Inr (True, (set_obj a (o1\<lparr>th_hThread := t\<rparr>) s)\<lparr>ts_next := t, ts_threads := (ts_threads s)(t \<mapsto> (a, Created))\<rparr>))"

text \<open>\<open>stop\<close> waits on Windows until the thread of the handle has ended; waiting for the null handle returns at once. \<open>None\<close> is a wait that cannot end now.\<close>

definition th_ended :: "nat \<Rightarrow> thsys \<Rightarrow> bool" where
  "th_ended t s = (case ts_threads s t of None \<Rightarrow> True | Some (a, ph) \<Rightarrow> ph = Ended)"

definition th_stop :: "platform \<Rightarrow> nat \<Rightarrow> thsys \<Rightarrow> (xerror + thsys) option" where
  "th_stop P a s =
     (case ts_objs s a of
        None \<Rightarrow> Some (Inl Undefined)
      | Some o1 \<Rightarrow>
          if P = Windows \<and> \<not> th_ended (th_hThread o1) s then None
          else Some (Inr (set_obj a (o1\<lparr>th_hThread := 0\<rparr>) s)))"

text \<open>The destructor; on Windows it calls \<open>stop\<close> only with a handle.\<close>

definition th_delete :: "platform \<Rightarrow> nat \<Rightarrow> thsys \<Rightarrow> (xerror + thsys) option" where
  "th_delete P a s =
     (case ts_objs s a of
        None \<Rightarrow> Some (Inl Undefined)
      | Some o1 \<Rightarrow>
          (case (if P = Linux \<or> th_hThread o1 \<noteq> 0 then th_stop P a s else Some (Inr s)) of
             None \<Rightarrow> None
           | Some (Inl e) \<Rightarrow> Some (Inl e)
           | Some (Inr s1) \<Rightarrow> Some (Inr (s1\<lparr>ts_objs := (ts_objs s1)(a := None)\<rparr>))))"

text \<open>The two halves of \<open>threadProc\<close>, before and behind the time that the callback takes.\<close>

definition th_begin :: "nat \<Rightarrow> thsys \<Rightarrow> (xerror + thsys) option" where
  "th_begin t s =
     (case ts_threads s t of
        Some (a, Created) \<Rightarrow>
          Some (case ts_objs s a of
                  None \<Rightarrow> Inl Undefined
                | Some o1 \<Rightarrow>
                    (case Run o1 of
                       Inl e \<Rightarrow> Inl e
                     | Inr cs \<Rightarrow> Inr ((set_obj a (o1\<lparr>th_bRuning := True\<rparr>) s)\<lparr>ts_threads := (ts_threads s)(t \<mapsto> (a, InRun)), ts_calls := ts_calls s @ cs\<rparr>)))
      | _ \<Rightarrow> None)"

definition th_end :: "nat \<Rightarrow> thsys \<Rightarrow> (xerror + thsys) option" where
  "th_end t s =
     (case ts_threads s t of
        Some (a, InRun) \<Rightarrow>
          Some (case ts_objs s a of
                  None \<Rightarrow> Inl Undefined
                | Some o1 \<Rightarrow> Inr ((set_obj a (o1\<lparr>th_bRuning := False\<rparr>) s)\<lparr>ts_threads := (ts_threads s)(t \<mapsto> (a, Ended))\<rparr>))
      | _ \<Rightarrow> None)"

definition GetThreadID :: "nat \<Rightarrow> thsys \<Rightarrow> xerror + nat" where
  "GetThreadID a s = (case ts_objs s a of None \<Rightarrow> Inl Undefined | Some o1 \<Rightarrow> Inr (th_hThread o1))"

definition IsRuning :: "nat \<Rightarrow> thsys \<Rightarrow> xerror + bool" where
  "IsRuning a s = (case ts_objs s a of None \<Rightarrow> Inl Undefined | Some o1 \<Rightarrow> Inr (th_bRuning o1))"

text \<open>\<open>Thread\<close> is an object with its virtual \<open>run\<close> as the callback; number 0 stands for it.\<close>

definition Thread_obj :: thobj where
  "Thread_obj = ThreadImpl_new (Some 0)"

text \<open>\<open>Timer::TimerProc\<close> makes the same choice between the two kinds of functions by its argument.\<close>

definition TimerProc :: "callback \<Rightarrow> nat \<Rightarrow> xerror + nat \<times> nat option" where
  "TimerProc cb pExtend =
     (if pExtend = 0 then (case cb of Plain f \<Rightarrow> Inr (f, None) | Ex _ \<Rightarrow> Inl Undefined)
      else (case cb of Ex f \<Rightarrow> Inr (f, Some pExtend) | Plain _ \<Rightarrow> Inl Undefined))"

subsection \<open>Events\<close>

datatype th_event = EvNew nat thobj | EvAssign nat nat | EvStart nat bool | EvStop nat | EvDelete nat | EvBegin nat | EvEnd nat

text \<open>
  What C++ itself demands of a program: a constructor, which leaves the object without a handle, runs where no object is, and the other calls are on objects that exist.
  Nothing else is asked of the callers: any function with any argument, and starting an object that has been started.
\<close>

definition newly_made :: "thobj \<Rightarrow> bool" where
  "newly_made o1 = (th_hThread o1 = 0 \<and> \<not> th_bRuning o1)"

fun allowed :: "th_event \<Rightarrow> thsys \<Rightarrow> bool" where
  "allowed (EvNew a o1) s = (ts_objs s a = None \<and> newly_made o1)"
| "allowed (EvAssign a b) s = (ts_objs s a \<noteq> None \<and> ts_objs s b \<noteq> None)"
| "allowed (EvStart a ok) s = (ts_objs s a \<noteq> None)"
| "allowed (EvStop a) s = (ts_objs s a \<noteq> None)"
| "allowed (EvDelete a) s = (ts_objs s a \<noteq> None)"
| "allowed (EvBegin t) s = True"
| "allowed (EvEnd t) s = True"

text \<open>The assignment operator sets what the copy constructor sets.\<close>

definition th_assign :: "nat \<Rightarrow> nat \<Rightarrow> thsys \<Rightarrow> xerror + thsys" where
  "th_assign a b s = (case ts_objs s b of None \<Rightarrow> Inl Undefined | Some o2 \<Rightarrow> if ts_objs s a = None then Inl Undefined else Inr (set_obj a (ThreadImpl_copy o2) s))"

fun th_step :: "platform \<Rightarrow> th_event \<Rightarrow> thsys \<Rightarrow> (xerror + thsys) option" where
  "th_step P (EvNew a o1) s = Some (Inr (set_obj a o1 s))"
| "th_step P (EvAssign a b) s = Some (th_assign a b s)"
| "th_step P (EvStart a ok) s = Some (map_sum id snd (th_start P ok a s))"
| "th_step P (EvStop a) s = th_stop P a s"
| "th_step P (EvDelete a) s = th_delete P a s"
| "th_step P (EvBegin t) s = th_begin t s"
| "th_step P (EvEnd t) s = th_end t s"

text \<open>
  Starting an object again and assigning to it overwrite its handle. A thread that has not ended then is one that nobody can wait for; the runs collect these threads.
\<close>

definition handle_lost :: "nat \<Rightarrow> thsys \<Rightarrow> nat list" where
  "handle_lost a s = (case ts_objs s a of None \<Rightarrow> [] | Some o1 \<Rightarrow> if th_ended (th_hThread o1) s then [] else [th_hThread o1])"

fun lost :: "th_event \<Rightarrow> thsys \<Rightarrow> nat list" where
  "lost (EvStart a ok) s = handle_lost a s"
| "lost (EvAssign a b) s = handle_lost a s"
| "lost _ s = []"

inductive th_reach :: "platform \<Rightarrow> thsys \<Rightarrow> nat list \<Rightarrow> bool" for P where
  init: "th_reach P thsys_init []"
| step: "th_reach P s ls \<Longrightarrow> allowed ev s \<Longrightarrow> th_step P ev s = Some (Inr s1) \<Longrightarrow> th_reach P s1 (lost ev s @ ls)"

text \<open>The state and the lost threads behind a sequence of events.\<close>

fun th_events :: "platform \<Rightarrow> th_event list \<Rightarrow> thsys \<times> nat list \<Rightarrow> (thsys \<times> nat list) option" where
  "th_events P [] (s, ls) = Some (s, ls)"
| "th_events P (ev # evs) (s, ls) =
     (if allowed ev s then (case th_step P ev s of Some (Inr s1) \<Rightarrow> th_events P evs (s1, lost ev s @ ls) | _ \<Rightarrow> None) else None)"

lemma th_events_reach: "th_reach P s ls \<Longrightarrow> th_events P evs (s, ls) = Some (s1, ls1) \<Longrightarrow> th_reach P s1 ls1"
proof (induction evs arbitrary: s ls)
  case (Cons ev evs)
  from Cons.prems(2) obtain s2 where "allowed ev s" "th_step P ev s = Some (Inr s2)" "th_events P evs (s2, lost ev s @ ls) = Some (s1, ls1)"
    by (auto split: if_splits option.splits sum.splits)
  with Cons.IH [of s2 "lost ev s @ ls"] th_reach.step [OF Cons.prems(1)] show ?case by blast
qed simp

subsection \<open>Threads on Windows do not outlive their objects\<close>

text \<open>Every thread that has neither ended nor been lost is the one of the handle of its object.\<close>

definition live_ok :: "thsys \<Rightarrow> nat list \<Rightarrow> nat \<Rightarrow> nat \<times> th_phase \<Rightarrow> bool" where
  "live_ok s ls t = (\<lambda>(a, ph). t \<noteq> 0 \<and> t \<le> ts_next s \<and> (ph \<noteq> Ended \<and> t \<notin> set ls \<longrightarrow> (\<exists>o1. ts_objs s a = Some o1 \<and> th_hThread o1 = t)))"

definition th_inv :: "thsys \<Rightarrow> nat list \<Rightarrow> bool" where
  "th_inv s ls =
     ((\<forall>t ap. ts_threads s t = Some ap \<longrightarrow> live_ok s ls t ap) \<and> (\<forall>a o1. ts_objs s a = Some o1 \<longrightarrow> th_hThread o1 \<le> ts_next s))"

lemma th_inv_init: "th_inv thsys_init []"
  by (simp add: th_inv_def thsys_init_def)

lemma th_inv_obj: "th_inv s ls \<Longrightarrow> ts_objs s a = Some o1 \<Longrightarrow> th_hThread o1 \<le> ts_next s"
  by (simp add: th_inv_def)

lemma th_inv_live:
  "th_inv s ls \<Longrightarrow> ts_threads s t = Some (a, ph) \<Longrightarrow> ph \<noteq> Ended \<Longrightarrow> t \<notin> set ls \<Longrightarrow> \<exists>o1. ts_objs s a = Some o1 \<and> th_hThread o1 = t"
  by (force simp: th_inv_def live_ok_def)

lemma th_inv_id: "th_inv s ls \<Longrightarrow> ts_threads s t = Some (a, ph) \<Longrightarrow> t \<noteq> 0 \<and> t \<le> ts_next s"
  by (force simp: th_inv_def live_ok_def)

lemma th_invI:
  "(\<And>t a ph. ts_threads s t = Some (a, ph) \<Longrightarrow> t \<noteq> 0 \<and> t \<le> ts_next s) \<Longrightarrow>
   (\<And>t a ph. ts_threads s t = Some (a, ph) \<Longrightarrow> ph \<noteq> Ended \<Longrightarrow> t \<notin> set ls \<Longrightarrow> \<exists>o1. ts_objs s a = Some o1 \<and> th_hThread o1 = t) \<Longrightarrow>
   (\<And>a o1. ts_objs s a = Some o1 \<Longrightarrow> th_hThread o1 \<le> ts_next s) \<Longrightarrow> th_inv s ls"
  by (auto simp: th_inv_def live_ok_def)

text \<open>What the events do to objects and threads: the updates of which they are made.\<close>

lemma inv_set_obj:
  assumes "th_inv s ls" "th_hThread o2 \<le> ts_next s" "set ls \<subseteq> set ls'"
    and "\<And>t ph. ts_threads s t = Some (a, ph) \<Longrightarrow> ph \<noteq> Ended \<Longrightarrow> t \<notin> set ls' \<Longrightarrow> th_hThread o2 = t"
  shows "th_inv (set_obj a o2 s) ls'"
proof (rule th_invI)
  fix t b ph assume t: "ts_threads (set_obj a o2 s) t = Some (b, ph)"
  then have t': "ts_threads s t = Some (b, ph)" by (simp add: set_obj_def)
  then show "t \<noteq> 0 \<and> t \<le> ts_next (set_obj a o2 s)" using th_inv_id [OF assms(1)] by (simp add: set_obj_def)
  assume "ph \<noteq> Ended" "t \<notin> set ls'"
  with th_inv_live [OF assms(1) t'] t' assms(3,4) show "\<exists>o1. ts_objs (set_obj a o2 s) b = Some o1 \<and> th_hThread o1 = t"
    by (cases "b = a") (auto simp: set_obj_def)
next
  fix b o1 assume "ts_objs (set_obj a o2 s) b = Some o1"
  then show "th_hThread o1 \<le> ts_next (set_obj a o2 s)"
    using th_inv_obj [OF assms(1), of b o1] assms(2) by (auto simp: set_obj_def split: if_splits)
qed

lemma inv_same_handle:
  assumes "th_inv s ls" "ts_objs s a = Some o1" "th_hThread o2 = th_hThread o1"
  shows "th_inv (set_obj a o2 s) ls"
  using inv_set_obj [OF assms(1), of o2 ls a] th_inv_obj [OF assms(1,2)] th_inv_live [OF assms(1)] assms(2,3) by fastforce

lemma inv_phase:
  assumes "th_inv s ls" "ts_threads s t = Some (a, ph)" "ph \<noteq> Ended"
  shows "th_inv (s\<lparr>ts_threads := (ts_threads s)(t \<mapsto> (a, ph'))\<rparr>) ls"
  using assms th_inv_live [OF assms] th_inv_id [OF assms(1)] th_inv_live [OF assms(1)] th_inv_obj [OF assms(1)]
  by (intro th_invI) (auto split: if_splits)

lemma inv_new:
  assumes "th_inv s ls" "allowed (EvNew a o1) s" "set ls \<subseteq> set ls'"
  shows "th_inv (set_obj a o1 s) ls'"
  using assms(2) th_inv_live [OF assms(1)] assms(3) by (intro inv_set_obj [OF assms(1) _ assms(3)]) (fastforce simp: newly_made_def)+

lemma handle_lostI: "ts_objs s a = Some o1 \<Longrightarrow> ts_threads s (th_hThread o1) = Some (b, ph) \<Longrightarrow> ph \<noteq> Ended \<Longrightarrow> th_hThread o1 \<in> set (handle_lost a s)"
  by (simp add: handle_lost_def th_ended_def)

text \<open>Whatever handle an object gets instead of its own, only the thread of the old one is lost.\<close>

lemma inv_overwrite:
  assumes "th_inv s ls" "ts_objs s a \<noteq> None" "th_hThread o2 \<le> ts_next s"
  shows "th_inv (set_obj a o2 s) (handle_lost a s @ ls)"
proof (rule inv_set_obj [OF assms(1,3)])
  fix t ph assume t: "ts_threads s t = Some (a, ph)" "ph \<noteq> Ended" "t \<notin> set (handle_lost a s @ ls)"
  with th_inv_live [OF assms(1) t(1,2)] show "th_hThread o2 = t" using handle_lostI [of s a _ a ph] by fastforce
qed simp

lemma inv_no_handle:
  assumes "th_inv s ls" "ts_objs s a = Some o1" "th_ended (th_hThread o1) s"
  shows "th_inv (set_obj a (o1\<lparr>th_hThread := 0\<rparr>) s) ls"
  using inv_overwrite [OF assms(1), of a "o1\<lparr>th_hThread := 0\<rparr>"] assms(2,3) by (simp add: handle_lost_def)

lemma inv_stop: "th_inv s ls \<Longrightarrow> th_stop Windows a s = Some (Inr s1) \<Longrightarrow> th_inv s1 ls"
  using inv_no_handle [of s ls a] by (auto simp: th_stop_def split: option.splits if_splits)

lemma inv_assign: "th_inv s ls \<Longrightarrow> th_assign a b s = Inr s1 \<Longrightarrow> th_inv s1 (handle_lost a s @ ls)"
  using inv_overwrite [of s ls a] by (auto simp: th_assign_def ThreadImpl_copy_def split: option.splits if_splits)

lemma inv_new_thread:
  assumes "th_inv s ls" "ts_objs s a = Some o1"
  shows "th_inv ((set_obj a (o1\<lparr>th_hThread := Suc (ts_next s)\<rparr>) s)\<lparr>ts_next := Suc (ts_next s), ts_threads := (ts_threads s)(Suc (ts_next s) \<mapsto> (a, Created))\<rparr>)
     (handle_lost a s @ ls)"
  (is "th_inv ?s1 ?ls")
proof (rule th_invI)
  fix t b ph assume t: "ts_threads ?s1 t = Some (b, ph)"
  then show "t \<noteq> 0 \<and> t \<le> ts_next ?s1" using th_inv_id [OF assms(1), of t] by (auto split: if_splits)
  assume "ph \<noteq> Ended" "t \<notin> set ?ls"
  then show "\<exists>o2. ts_objs ?s1 b = Some o2 \<and> th_hThread o2 = t"
    using t th_inv_live [OF assms(1), of t b ph] assms(2) handle_lostI [of s a o1 a ph] by (fastforce simp: set_obj_def split: if_splits)
next
  fix b o2 assume "ts_objs ?s1 b = Some o2"
  then show "th_hThread o2 \<le> ts_next ?s1" using th_inv_obj [OF assms(1), of b o2] by (auto simp: set_obj_def split: if_splits)
qed

lemma inv_start:
  assumes "th_inv s ls" "th_start Windows ok a s = Inr (b, s1)"
  shows "th_inv s1 (handle_lost a s @ ls)"
  using assms inv_new_thread [OF assms(1)] inv_overwrite [OF assms(1), of a] by (auto simp: th_start_def Let_def split: option.splits if_splits)

lemma inv_free:
  assumes "th_inv s ls" "ts_objs s a = Some o1" "th_hThread o1 = 0"
  shows "th_inv (s\<lparr>ts_objs := (ts_objs s)(a := None)\<rparr>) ls"
  using th_inv_id [OF assms(1)] th_inv_live [OF assms(1)] th_inv_obj [OF assms(1)] assms(2,3)
  by (intro th_invI) (fastforce split: if_splits)+

lemma inv_delete:
  assumes "th_inv s ls" "th_delete Windows a s = Some (Inr s1)"
  shows "th_inv s1 ls"
proof -
  from assms(2) obtain o1 where o1: "ts_objs s a = Some o1" by (auto simp: th_delete_def split: option.splits)
  show ?thesis
  proof (cases "th_hThread o1 = 0")
    case True
    then show ?thesis using assms(2) o1 inv_free [OF assms(1) o1] by (simp add: th_delete_def)
  next
    case False
    then have w: "th_ended (th_hThread o1) s" and s1: "s1 = (set_obj a (o1\<lparr>th_hThread := 0\<rparr>) s)\<lparr>ts_objs := (ts_objs (set_obj a (o1\<lparr>th_hThread := 0\<rparr>) s))(a := None)\<rparr>"
      using assms(2) o1 by (auto simp: th_delete_def th_stop_def split: if_splits)
    have "th_inv (set_obj a (o1\<lparr>th_hThread := 0\<rparr>) s) ls" by (rule inv_no_handle [OF assms(1) o1 w])
    from inv_free [OF this, of a "o1\<lparr>th_hThread := 0\<rparr>"] s1 show ?thesis by (simp add: set_obj_def)
  qed
qed

lemma inv_begin:
  assumes "th_inv s ls" "th_begin t s = Some (Inr s1)"
  shows "th_inv s1 ls"
proof -
  from assms(2) obtain a o1 cs where b: "ts_threads s t = Some (a, Created)" "ts_objs s a = Some o1"
    "s1 = (set_obj a (o1\<lparr>th_bRuning := True\<rparr>) s)\<lparr>ts_threads := (ts_threads s)(t \<mapsto> (a, InRun)), ts_calls := ts_calls s @ cs\<rparr>"
    by (auto simp: th_begin_def split: option.splits prod.splits th_phase.splits sum.splits)
  have "th_inv (set_obj a (o1\<lparr>th_bRuning := True\<rparr>) s) ls" using inv_same_handle [OF assms(1) b(2)] by simp
  from inv_phase [OF this, of t a Created InRun] b(1) have "th_inv (s1\<lparr>ts_calls := ts_calls s\<rparr>) ls" by (simp add: b(3) set_obj_def)
  then show ?thesis by (simp add: th_inv_def live_ok_def)
qed

lemma inv_end:
  assumes "th_inv s ls" "th_end t s = Some (Inr s1)"
  shows "th_inv s1 ls"
proof -
  from assms(2) obtain a o1 where b: "ts_threads s t = Some (a, InRun)" "ts_objs s a = Some o1"
    "s1 = (set_obj a (o1\<lparr>th_bRuning := False\<rparr>) s)\<lparr>ts_threads := (ts_threads s)(t \<mapsto> (a, Ended))\<rparr>"
    by (auto simp: th_end_def split: option.splits prod.splits th_phase.splits sum.splits)
  have "th_inv (set_obj a (o1\<lparr>th_bRuning := False\<rparr>) s) ls" using inv_same_handle [OF assms(1) b(2)] by simp
  from inv_phase [OF this, of t a InRun Ended] b(1) show ?thesis by (simp add: b(3) set_obj_def)
qed

lemma th_reach_inv: "th_reach Windows s ls \<Longrightarrow> th_inv s ls"
proof (induction rule: th_reach.induct)
  case (step s ls ev s1)
  show ?case
  proof (cases ev)
    case (EvStart a ok)
    with step.hyps(3) have "map_sum id snd (th_start Windows ok a s) = Inr s1" by simp
    then obtain b where b: "th_start Windows ok a s = Inr (b, s1)" by (cases "th_start Windows ok a s") (simp_all, metis surjective_pairing)
    from inv_start [OF step.IH b] EvStart show ?thesis by simp
  next
    case (EvNew a o1)
    then show ?thesis using step.hyps(2,3) inv_new [OF step.IH, of a o1 ls] by simp
  next
    case (EvAssign a b)
    then show ?thesis using step.hyps(2,3) inv_assign [OF step.IH, of a b s1] by simp
  next
    case (EvStop a)
    then show ?thesis using step.hyps(2,3) inv_stop [OF step.IH, of a s1] by simp
  next
    case (EvDelete a)
    then show ?thesis using step.hyps(2,3) inv_delete [OF step.IH, of a s1] by simp
  next
    case (EvBegin t)
    then show ?thesis using step.hyps(2,3) inv_begin [OF step.IH, of t s1] by simp
  next
    case (EvEnd t)
    then show ?thesis using step.hyps(2,3) inv_end [OF step.IH, of t s1] by simp
  qed
qed (rule th_inv_init)

text \<open>Whether a function fits the argument of its object, and the call that was registered.\<close>

definition args_ok :: "thobj \<Rightarrow> bool" where
  "args_ok o1 = (case th_funcptr o1 of None \<Rightarrow> True | Some (Plain _) \<Rightarrow> th_pExtend o1 = 0 | Some (Ex _) \<Rightarrow> th_pExtend o1 \<noteq> 0)"

definition registered :: "thobj \<Rightarrow> (nat \<times> nat option) list" where
  "registered o1 = (case th_funcptr o1 of None \<Rightarrow> [] | Some (Plain f) \<Rightarrow> [(f, None)] | Some (Ex f) \<Rightarrow> [(f, Some (th_pExtend o1))])"

lemma Run_registered: "Run o1 = (if args_ok o1 then Inr (registered o1) else Inl Undefined)"
  by (simp add: args_ok_def registered_def Run_def HasInThParam_def split: option.split callback.split)

text \<open>
  Property C39. On Windows a thread does not outlive its object, unless the program overwrites its handle. Objects are made with any function and any argument, started any
  number of times, assigned to, stopped and deleted, in any interleaving with the threads. In every state that is reached, an object with a thread that has neither ended
  nor been lost, by starting the object again or assigning to it while the thread lived, still exists, and stopping or deleting it waits; the end of such a thread is
  never undefined. Its begin makes exactly the call that was registered, if a function with an argument got one that is not null and one without got none, and is
  undefined otherwise.
\<close>

theorem win_threads_keep_objects:
  assumes "th_reach Windows s ls" "ts_threads s t = Some (a, ph)" "ph \<noteq> Ended" "t \<notin> set ls"
  shows "\<exists>o1. ts_objs s a = Some o1 \<and> th_stop Windows a s = None \<and> th_delete Windows a s = None \<and>
     th_end t s \<noteq> Some (Inl e) \<and>
     (ph = Created \<longrightarrow>
        (if args_ok o1 then \<exists>s1. th_begin t s = Some (Inr s1) \<and> ts_calls s1 = ts_calls s @ registered o1 else th_begin t s = Some (Inl Undefined)))"
proof -
  note I = th_reach_inv [OF assms(1)]
  from th_inv_live [OF I assms(2-4)] obtain o1 where o1: "ts_objs s a = Some o1" "th_hThread o1 = t" by blast
  have live: "\<not> th_ended t s" using assms(2,3) by (simp add: th_ended_def)
  have "th_stop Windows a s = None" "th_delete Windows a s = None"
    using o1 live th_inv_id [OF I assms(2)] by (simp_all add: th_stop_def th_delete_def)
  moreover have "th_end t s \<noteq> Some (Inl e)" using assms(2) o1(1) by (simp add: th_end_def split: th_phase.split)
  moreover have "ph = Created \<Longrightarrow>
     (if args_ok o1 then \<exists>s1. th_begin t s = Some (Inr s1) \<and> ts_calls s1 = ts_calls s @ registered o1 else th_begin t s = Some (Inl Undefined))"
    using assms(2) o1(1) by (simp add: th_begin_def Run_registered)
  ultimately show ?thesis using o1(1) by blast
qed

lemma win_threads_keep_objects_witness:
  "\<exists>s. th_events Windows [EvNew 5 (ThreadImpl_newEx (Some 3) 7), EvStart 5 True, EvStart 5 True, EvBegin 1] (thsys_init, []) = Some (s, [1]) \<and>
     ts_calls s = [(3, Some 7)] \<and> th_delete Windows 5 s = None \<and> (\<exists>s1. th_begin 2 s = Some (Inr s1) \<and> ts_calls s1 = [(3, Some 7), (3, Some 7)])"
proof -
  obtain s where s: "th_events Windows [EvNew 5 (ThreadImpl_newEx (Some 3) 7), EvStart 5 True, EvStart 5 True, EvBegin 1] (thsys_init, []) = Some (s, [1])"
    "ts_calls s = [(3, Some 7)]" "ts_threads s 2 = Some (5, Created)" "ts_objs s 5 = Some ((ThreadImpl_newEx (Some 3) 7)\<lparr>th_hThread := 2, th_bRuning := True\<rparr>)"
    by (simp add: ThreadImpl_newEx_def newly_made_def thsys_init_def th_start_def th_begin_def Run_def HasInThParam_def set_obj_def
        handle_lost_def th_ended_def Let_def numeral_2_eq_2)
  from th_events_reach [OF th_reach.init s(1)] have "th_reach Windows s [1]" .
  from win_threads_keep_objects [OF this s(3), of Undefined] s show ?thesis
    by (simp add: args_ok_def registered_def ThreadImpl_newEx_def)
qed

text \<open>
  Observation. A thread that was lost is not waited for: an object that is started twice and deleted when its second thread has ended is missing to the first one.
\<close>

lemma started_twice_loses_object:
  "\<exists>s. th_events Windows [EvNew 5 (ThreadImpl_new (Some 3)), EvStart 5 True, EvStart 5 True, EvBegin 1, EvBegin 2, EvEnd 2, EvDelete 5] (thsys_init, []) = Some (s, [1]) \<and>
     th_end 1 s = Some (Inl Undefined)"
  by (simp add: ThreadImpl_new_def newly_made_def thsys_init_def th_start_def th_begin_def Run_def HasInThParam_def set_obj_def
      handle_lost_def th_ended_def th_end_def th_delete_def th_stop_def Let_def numeral_2_eq_2)

text \<open>
  Observation. On Linux neither \<open>stop\<close> nor the destructor waits: an object can be deleted under its running thread at any time, and the thread then writes into what was
  the object.
\<close>

lemma linux_thread_loses_object:
  assumes "ts_threads s t = Some (a, InRun)" "ts_objs s a \<noteq> None"
  shows "\<exists>s1. th_delete Linux a s = Some (Inr s1) \<and> th_end t s1 = Some (Inl Undefined)"
  using assms by (auto simp: th_delete_def th_stop_def th_end_def set_obj_def)

text \<open>
  Observation. A member function with an argument that is registered with a null argument, as \<open>BalanceHandle\<close> does for its first worker, whose argument is its index 0, is
  called as a function without one, on both platforms and at every start: the behaviour is undefined. The callbacks of timers behave in the same way.
\<close>

theorem null_argument_undefined:
  assumes "ts_objs s a = Some (ThreadImpl_newEx (Some f) 0)"
  shows "\<exists>s1. th_start P True a s = Inr (True, s1) \<and> th_begin (Suc (ts_next s)) s1 = Some (Inl Undefined) \<and> TimerProc (Ex f) 0 = Inl Undefined"
  using assms by (simp add: th_start_def th_begin_def set_obj_def Let_def ThreadImpl_newEx_def Run_def HasInThParam_def TimerProc_def)

lemma null_argument_undefined_witness:
  "\<exists>s1. th_start Linux True 5 (set_obj 5 (ThreadImpl_newEx (Some 3) 0) thsys_init) = Inr (True, s1) \<and> th_begin 1 s1 = Some (Inl Undefined)"
  using null_argument_undefined [of "set_obj 5 (ThreadImpl_newEx (Some 3) 0) thsys_init" 5 3 Linux] by (auto simp: set_obj_def thsys_init_def)

end
