(* ===== verification/IpcObjs.thy ===== *)
theory IpcObjs
  imports XPrelude
begin

text \<open>
  Objects that processes share: shared memory (\<open>SharedMemory/SharedMemoryImpl_Linux.cpp\<close>, \<open>SharedMemory/SharedMemoryImpl_Win32.cpp\<close>), events and mutexes
  (\<open>SystemApi/ProcessEvent_Linux.cpp\<close>, \<open>ProcessEvent_Win32.cpp\<close>, \<open>ProcessMutex_Win32.cpp\<close>) and loaded libraries (\<open>DyPlugin/DyPluginImpl_Linux.cpp\<close>,
  \<open>DyPluginImpl_Win32.cpp\<close>). The tables of the system are states of their own, with the documented behaviour of the system calls on them; whether a call is allowed
  to succeed is an argument.
\<close>

subsection \<open>Shared memory on Linux\<close>

record segment =
  sg_data :: "8 word list"
  sg_attach :: nat
  sg_removed :: bool

record shm_sys =
  sh_keys :: "int \<Rightarrow> nat option"
  sh_segs :: "nat \<Rightarrow> segment option"
  sh_next :: nat

text \<open>An attached address is the segment; \<open>BadAddr\<close> is the value -1 that \<open>shmat\<close> returns when it fails.\<close>

datatype shm_addr = NullAddr | BadAddr | SegAddr nat

record lshm =
  ls_shmid :: "nat option"
  ls_pStart :: shm_addr

definition LShm_new :: lshm where
  "LShm_new = \<lparr>ls_shmid = None, ls_pStart = NullAddr\<rparr>"

text \<open>\<open>shmget\<close> with \<open>IPC_CREAT\<close>: an existing segment must be large enough, a new one is cleared.\<close>

definition shmget :: "bool \<Rightarrow> int \<Rightarrow> nat \<Rightarrow> shm_sys \<Rightarrow> nat option \<times> shm_sys" where
  "shmget ok key sz s =
     (case sh_keys s key of
        Some i \<Rightarrow> ((case sh_segs s i of None \<Rightarrow> None | Some g \<Rightarrow> if sz \<le> length (sg_data g) then Some i else None), s)
      | None \<Rightarrow>
          if \<not> ok then (None, s)
          else (Some (sh_next s), s\<lparr>sh_keys := (sh_keys s)(key \<mapsto> sh_next s),
                  sh_segs := (sh_segs s)(sh_next s \<mapsto> \<lparr>sg_data = replicate sz 0, sg_attach = 0, sg_removed = False\<rparr>), sh_next := Suc (sh_next s)\<rparr>))"

definition LShm_Open :: "(string \<Rightarrow> nat \<Rightarrow> int) \<Rightarrow> bool \<Rightarrow> string \<Rightarrow> nat \<Rightarrow> lshm \<times> shm_sys \<Rightarrow> bool \<times> lshm \<times> shm_sys" where
  "LShm_Open ftok ok str sz = (\<lambda>(o1, s).
     (if ls_shmid o1 \<noteq> None then (False, o1, s)
      else case shmget ok (ftok str (sz mod 256)) sz s of
             (None, s1) \<Rightarrow> (False, o1, s1)
           | (Some i, s1) \<Rightarrow> (True, o1\<lparr>ls_shmid := Some i\<rparr>, s1)))"

text \<open>The result of \<open>shmat\<close> is compared with null.\<close>

definition LShm_Attach :: "bool \<Rightarrow> lshm \<times> shm_sys \<Rightarrow> bool \<times> lshm \<times> shm_sys" where
  "LShm_Attach ok = (\<lambda>(o1, s).
     (case ls_shmid o1 of
        None \<Rightarrow> (False, o1, s)
      | Some i \<Rightarrow>
          (case sh_segs s i of
             Some g \<Rightarrow> if ok then (True, o1\<lparr>ls_pStart := SegAddr i\<rparr>, s\<lparr>sh_segs := (sh_segs s)(i \<mapsto> g\<lparr>sg_attach := Suc (sg_attach g)\<rparr>)\<rparr>)
                       else (True, o1\<lparr>ls_pStart := BadAddr\<rparr>, s)
           | None \<Rightarrow> (True, o1\<lparr>ls_pStart := BadAddr\<rparr>, s))))"

definition drop_if_unused :: "nat \<Rightarrow> shm_sys \<Rightarrow> shm_sys" where
  "drop_if_unused i s =
     (case sh_segs s i of
        None \<Rightarrow> s
      | Some g \<Rightarrow> if sg_removed g \<and> sg_attach g = 0 then s\<lparr>sh_segs := (sh_segs s)(i := None)\<rparr> else s)"

definition shmdt :: "shm_addr \<Rightarrow> shm_sys \<Rightarrow> shm_sys" where
  "shmdt p s =
     (case p of
        SegAddr i \<Rightarrow> (case sh_segs s i of None \<Rightarrow> s | Some g \<Rightarrow> drop_if_unused i (s\<lparr>sh_segs := (sh_segs s)(i \<mapsto> g\<lparr>sg_attach := sg_attach g - 1\<rparr>)\<rparr>))
      | _ \<Rightarrow> s)"

definition LShm_Detach :: "lshm \<times> shm_sys \<Rightarrow> lshm \<times> shm_sys" where
  "LShm_Detach = (\<lambda>(o1, s). (if ls_shmid o1 \<noteq> None \<and> ls_pStart o1 \<noteq> NullAddr then (o1\<lparr>ls_pStart := NullAddr\<rparr>, shmdt (ls_pStart o1) s) else (o1, s)))"

text \<open>\<open>IPC_RMID\<close> frees the key; the segment lives on while it is attached.\<close>

definition shm_rmid :: "nat \<Rightarrow> shm_sys \<Rightarrow> shm_sys" where
  "shm_rmid i s =
     (case sh_segs s i of
        None \<Rightarrow> s
      | Some g \<Rightarrow> drop_if_unused i (s\<lparr>sh_keys := (\<lambda>k. if sh_keys s k = Some i then None else sh_keys s k),
                     sh_segs := (sh_segs s)(i \<mapsto> g\<lparr>sg_removed := True\<rparr>)\<rparr>))"

definition LShm_Close :: "lshm \<times> shm_sys \<Rightarrow> lshm \<times> shm_sys" where
  "LShm_Close = (\<lambda>(o1, s). (case ls_shmid o1 of None \<Rightarrow> (o1, s) | Some i \<Rightarrow> (o1\<lparr>ls_shmid := None\<rparr>, shm_rmid i s)))"

text \<open>\<open>SharedMemory::Open\<close> and \<open>Close\<close>.\<close>

definition Shm_Open :: "(string \<Rightarrow> nat \<Rightarrow> int) \<Rightarrow> bool \<Rightarrow> bool \<Rightarrow> string \<Rightarrow> nat \<Rightarrow> lshm \<times> shm_sys \<Rightarrow> bool \<times> lshm \<times> shm_sys" where
  "Shm_Open ftok ok ok2 str sz os = (case LShm_Open ftok ok str sz os of (b, os1) \<Rightarrow> if b then LShm_Attach ok2 os1 else (False, os1))"

definition Shm_Close :: "lshm \<times> shm_sys \<Rightarrow> lshm \<times> shm_sys" where
  "Shm_Close os = LShm_Close (LShm_Detach os)"

subsection \<open>Shared memory on Windows\<close>

text \<open>A mapping lives while a handle or a view refers to it.\<close>

record mapping =
  mp_data :: "8 word list"
  mp_refs :: nat

record map_sys =
  ms_names :: "string \<Rightarrow> nat option"
  ms_maps :: "nat \<Rightarrow> mapping option"
  ms_next :: nat

record wshm =
  wh_hMap :: "nat option"
  wh_pStart :: "nat option"

definition WShm_new :: wshm where
  "WShm_new = \<lparr>wh_hMap = None, wh_pStart = None\<rparr>"

definition add_ref :: "nat \<Rightarrow> map_sys \<Rightarrow> map_sys" where
  "add_ref i s = (case ms_maps s i of None \<Rightarrow> s | Some g \<Rightarrow> s\<lparr>ms_maps := (ms_maps s)(i \<mapsto> g\<lparr>mp_refs := Suc (mp_refs g)\<rparr>)\<rparr>)"

definition del_ref :: "nat \<Rightarrow> map_sys \<Rightarrow> map_sys" where
  "del_ref i s =
     (case ms_maps s i of
        None \<Rightarrow> s
      | Some g \<Rightarrow>
          if mp_refs g \<le> 1 then s\<lparr>ms_maps := (ms_maps s)(i := None), ms_names := (\<lambda>n. if ms_names s n = Some i then None else ms_names s n)\<rparr>
          else s\<lparr>ms_maps := (ms_maps s)(i \<mapsto> g\<lparr>mp_refs := mp_refs g - 1\<rparr>)\<rparr>)"

text \<open>\<open>Open\<close> succeeds also when neither call gave a handle.\<close>

definition WShm_Open :: "bool \<Rightarrow> string \<Rightarrow> nat \<Rightarrow> wshm \<times> map_sys \<Rightarrow> bool \<times> wshm \<times> map_sys" where
  "WShm_Open ok str sz = (\<lambda>(o1, s).
     (if wh_hMap o1 \<noteq> None then (False, o1, s)
      else case ms_names s str of
             Some i \<Rightarrow> (True, o1\<lparr>wh_hMap := Some i\<rparr>, add_ref i s)
           | None \<Rightarrow>
               if \<not> ok then (True, o1, s)
               else (True, o1\<lparr>wh_hMap := Some (ms_next s)\<rparr>,
                     s\<lparr>ms_names := (ms_names s)(str \<mapsto> ms_next s), ms_maps := (ms_maps s)(ms_next s \<mapsto> \<lparr>mp_data = replicate sz 0, mp_refs = 1\<rparr>),
                       ms_next := Suc (ms_next s)\<rparr>)))"

definition WShm_Attach :: "bool \<Rightarrow> wshm \<times> map_sys \<Rightarrow> bool \<times> wshm \<times> map_sys" where
  "WShm_Attach ok = (\<lambda>(o1, s).
     (case wh_hMap o1 of
        None \<Rightarrow> (False, o1, s)
      | Some i \<Rightarrow> if ok then (True, o1\<lparr>wh_pStart := Some i\<rparr>, add_ref i s) else (False, o1\<lparr>wh_pStart := None\<rparr>, s)))"

definition WShm_Detach :: "wshm \<times> map_sys \<Rightarrow> wshm \<times> map_sys" where
  "WShm_Detach = (\<lambda>(o1, s).
     (case (wh_hMap o1, wh_pStart o1) of (Some _, Some i) \<Rightarrow> (o1\<lparr>wh_pStart := None\<rparr>, del_ref i s) | _ \<Rightarrow> (o1, s)))"

definition WShm_Close :: "wshm \<times> map_sys \<Rightarrow> wshm \<times> map_sys" where
  "WShm_Close = (\<lambda>(o1, s). (case wh_hMap o1 of None \<Rightarrow> (o1, s) | Some i \<Rightarrow> (o1\<lparr>wh_hMap := None\<rparr>, del_ref i s)))"

definition WSharedMemory_Open :: "bool \<Rightarrow> bool \<Rightarrow> string \<Rightarrow> nat \<Rightarrow> wshm \<times> map_sys \<Rightarrow> bool \<times> wshm \<times> map_sys" where
  "WSharedMemory_Open ok ok2 str sz os = (case WShm_Open ok str sz os of (b, os1) \<Rightarrow> if b then WShm_Attach ok2 os1 else (False, os1))"

definition WSharedMemory_Close :: "wshm \<times> map_sys \<Rightarrow> wshm \<times> map_sys" where
  "WSharedMemory_Close os = WShm_Close (WShm_Detach os)"

subsection \<open>Processes that share memory\<close>

text \<open>On Windows: \<open>n\<close> objects that open and close regions.\<close>

datatype shm_op = RegionOpen nat bool bool string nat | RegionClose nat

type_synonym wregions = "(nat \<Rightarrow> wshm) \<times> map_sys"

definition on_wshm :: "nat \<Rightarrow> (wshm \<times> map_sys \<Rightarrow> wshm \<times> map_sys) \<Rightarrow> wregions \<Rightarrow> wregions" where
  "on_wshm k f = (\<lambda>(os, s). (case f (os k, s) of (o1, s1) \<Rightarrow> (os(k := o1), s1)))"

fun region_step :: "shm_op \<Rightarrow> wregions \<Rightarrow> wregions" where
  "region_step (RegionOpen k ok ok2 str sz) = on_wshm k (\<lambda>os. snd (WSharedMemory_Open ok ok2 str sz os))"
| "region_step (RegionClose k) = on_wshm k WSharedMemory_Close"

fun op_obj :: "shm_op \<Rightarrow> nat" where
  "op_obj (RegionOpen k ok ok2 str sz) = k"
| "op_obj (RegionClose k) = k"

text \<open>How often an object refers to a mapping.\<close>

definition refs_of :: "wshm \<Rightarrow> nat \<Rightarrow> nat" where
  "refs_of o1 i = (if wh_hMap o1 = Some i then 1 else 0) + (if wh_pStart o1 = Some i then 1 else 0)"

text \<open>The references of the system change as those of the object.\<close>

definition ref_count :: "map_sys \<Rightarrow> nat \<Rightarrow> nat" where
  "ref_count s i = (case ms_maps s i of None \<Rightarrow> 0 | Some g \<Rightarrow> mp_refs g)"

definition sys_ok :: "map_sys \<Rightarrow> bool" where
  "sys_ok s = ((\<forall>i g. ms_maps s i = Some g \<longrightarrow> 0 < mp_refs g \<and> i < ms_next s) \<and> (\<forall>str i. ms_names s str = Some i \<longrightarrow> ms_maps s i \<noteq> None))"

definition fits :: "wshm \<times> map_sys \<Rightarrow> wshm \<times> map_sys \<Rightarrow> bool" where
  "fits = (\<lambda>(o1, s) (o2, s2). sys_ok s2 \<and> (\<forall>i. ref_count s2 i + refs_of o1 i = ref_count s i + refs_of o2 i))"

lemma sys_okI:
  "(\<And>i g. ms_maps s i = Some g \<Longrightarrow> 0 < mp_refs g \<and> i < ms_next s) \<Longrightarrow> (\<And>str i. ms_names s str = Some i \<Longrightarrow> ms_maps s i \<noteq> None) \<Longrightarrow> sys_ok s"
  by (simp add: sys_ok_def)

lemma sys_ok_map: "sys_ok s \<Longrightarrow> ms_maps s i = Some g \<Longrightarrow> 0 < mp_refs g \<and> i < ms_next s"
  by (simp add: sys_ok_def)

lemma sys_ok_name: "sys_ok s \<Longrightarrow> ms_names s str = Some i \<Longrightarrow> \<exists>g. ms_maps s i = Some g"
  by (simp add: sys_ok_def)

lemma add_ref_ok: "sys_ok s \<Longrightarrow> sys_ok (add_ref i s)"
  by (rule sys_okI) (auto simp: add_ref_def dest: sys_ok_map sys_ok_name split: option.splits if_splits)

lemma add_ref_count: "ms_maps s i \<noteq> None \<Longrightarrow> ref_count (add_ref i s) j = ref_count s j + (if j = i then 1 else 0)"
  by (auto simp: add_ref_def ref_count_def)

lemma del_ref_ok: "sys_ok s \<Longrightarrow> sys_ok (del_ref i s)"
  by (rule sys_okI) (auto simp: del_ref_def dest: sys_ok_map sys_ok_name split: option.splits if_splits)

lemma del_ref_count: "ref_count (del_ref i s) j = ref_count s j - (if j = i then 1 else 0)"
  by (auto simp: del_ref_def ref_count_def split: option.splits)

lemma ref_count_pos: "sys_ok s \<Longrightarrow> (ms_maps s i \<noteq> None) = (0 < ref_count s i)"
  by (auto simp: ref_count_def dest: sys_ok_map split: option.splits)

lemma ref_count_above: "sys_ok s \<Longrightarrow> ms_next s \<le> i \<Longrightarrow> ms_maps s i = None"
  by (metis leD not_Some_eq sys_ok_map)

lemma fits_refl: "sys_ok s \<Longrightarrow> fits (o1, s) (o1, s)"
  by (simp add: fits_def)

lemma fits_trans: "fits a b \<Longrightarrow> fits b c \<Longrightarrow> fits a c"
proof (cases a; cases b; cases c)
  fix o1 s1 o2 s2 o3 s3
  assume e: "a = (o1, s1)" "b = (o2, s2)" "c = (o3, s3)" and "fits a b" "fits b c"
  then have ok: "sys_ok s3" and h: "\<And>i. ref_count s2 i + refs_of o1 i = ref_count s1 i + refs_of o2 i" "\<And>i. ref_count s3 i + refs_of o2 i = ref_count s2 i + refs_of o3 i"
    by (simp_all add: fits_def)
  have "ref_count s3 i + refs_of o1 i = ref_count s1 i + refs_of o3 i" for i using h [of i] by linarith
  with ok show ?thesis unfolding e fits_def by simp
qed

definition shm_tidy :: "wshm \<Rightarrow> bool" where
  "shm_tidy o1 = (wh_pStart o1 = None \<or> wh_pStart o1 = wh_hMap o1)"

lemma new_mapping_ok:
  assumes "sys_ok s" "ms_names s str = None"
  shows "sys_ok (s\<lparr>ms_names := (ms_names s)(str \<mapsto> ms_next s), ms_maps := (ms_maps s)(ms_next s \<mapsto> \<lparr>mp_data = replicate sz 0, mp_refs = 1\<rparr>), ms_next := Suc (ms_next s)\<rparr>)"
  by (rule sys_okI) (use sys_ok_map [OF assms(1)] sys_ok_name [OF assms(1)] in \<open>auto split: if_splits simp: less_SucI\<close>)

lemma Open_fits:
  assumes "sys_ok s" "shm_tidy o1"
  shows "fits (o1, s) (snd (WShm_Open ok str sz (o1, s))) \<and> shm_tidy (fst (snd (WShm_Open ok str sz (o1, s))))
    \<and> (wh_hMap o1 = None \<longrightarrow> wh_pStart (fst (snd (WShm_Open ok str sz (o1, s)))) = None)
    \<and> (wh_hMap o1 \<noteq> None \<longrightarrow> \<not> fst (WShm_Open ok str sz (o1, s)))"
proof (cases "wh_hMap o1")
  case None
  then have p: "wh_pStart o1 = None" using assms(2) by (auto simp: shm_tidy_def)
  show ?thesis
  proof (cases "ms_names s str")
    case None2: None
    show ?thesis
      using None p None2 new_mapping_ok [OF assms(1) None2, of sz] ref_count_above [OF assms(1), of "ms_next s"] assms(1)
      by (auto simp: WShm_Open_def fits_def refs_of_def ref_count_def shm_tidy_def)
  next
    case (Some i)
    then show ?thesis using None p add_ref_ok [OF assms(1), of i] add_ref_count [of s i] sys_ok_name [OF assms(1) Some]
      by (auto simp: WShm_Open_def fits_def refs_of_def shm_tidy_def)
  qed
qed (use assms in \<open>simp add: WShm_Open_def fits_refl\<close>)

lemma Attach_fits:
  assumes "sys_ok s" "wh_pStart o1 = None" "\<And>i. wh_hMap o1 = Some i \<Longrightarrow> ms_maps s i \<noteq> None"
  shows "fits (o1, s) (snd (WShm_Attach ok (o1, s))) \<and> shm_tidy (fst (snd (WShm_Attach ok (o1, s))))"
  using assms add_ref_ok [OF assms(1)] add_ref_count [of s]
  by (cases "wh_hMap o1") (auto simp: WShm_Attach_def fits_def refs_of_def shm_tidy_def)

lemma Close_fits:
  assumes "sys_ok s" "shm_tidy o1" "\<And>i. refs_of o1 i \<le> ref_count s i"
  shows "fits (o1, s) (WSharedMemory_Close (o1, s)) \<and> shm_tidy (fst (WSharedMemory_Close (o1, s)))"
proof (cases "wh_hMap o1")
  case None
  then show ?thesis using assms by (auto simp: WSharedMemory_Close_def WShm_Close_def WShm_Detach_def fits_refl shm_tidy_def)
next
  case (Some i)
  have r: "refs_of o1 j \<le> ref_count s j" for j by (rule assms(3))
  show ?thesis
  proof (cases "wh_pStart o1")
    case None
    then show ?thesis using Some assms r [of i] del_ref_ok [OF assms(1), of i] del_ref_count [of i s]
      by (auto simp: WSharedMemory_Close_def WShm_Close_def WShm_Detach_def fits_def refs_of_def shm_tidy_def)
  next
    case (Some k)
    then have k: "k = i" using assms(2) \<open>wh_hMap o1 = Some i\<close> by (simp add: shm_tidy_def)
    have ok: "sys_ok (del_ref i (del_ref i s))" using del_ref_ok del_ref_ok assms(1) by blast
    have "ref_count (del_ref i (del_ref i s)) j + refs_of o1 j = ref_count s j" for j
      using r [of j] Some k \<open>wh_hMap o1 = Some i\<close> by (auto simp: del_ref_count refs_of_def)
    then show ?thesis using ok Some k \<open>wh_hMap o1 = Some i\<close>
      by (simp add: WSharedMemory_Close_def WShm_Close_def WShm_Detach_def fits_def refs_of_def shm_tidy_def)
  qed
qed

subsection \<open>Regions on Windows live as long as they are open\<close>

definition wr_inv :: "nat \<Rightarrow> wregions \<Rightarrow> bool" where
  "wr_inv n = (\<lambda>(os, s). sys_ok s \<and> (\<forall>k. shm_tidy (os k)) \<and> (\<forall>i. ref_count s i = (\<Sum>k<n. refs_of (os k) i)))"

lemma refs_le_sum: "(k::nat) < n \<Longrightarrow> refs_of (os k) i \<le> (\<Sum>k<n. refs_of (os k) i)"
  using sum.remove [of "{..<n}" k "\<lambda>k. refs_of (os k) i"] by simp

lemma wr_inv_on:
  assumes "wr_inv n (os, s)" "k < n" "fits (os k, s) (f (os k, s))" "shm_tidy (fst (f (os k, s)))"
  shows "wr_inv n (on_wshm k f (os, s))"
proof -
  obtain o1 s1 where f: "f (os k, s) = (o1, s1)" by (cases "f (os k, s)")
  have k: "k \<in> {..<n}" using assms(2) by simp
  have "ref_count s1 i = (\<Sum>j<n. refs_of ((os(k := o1)) j) i)" for i
  proof -
    have "ref_count s i = refs_of (os k) i + (\<Sum>j \<in> {..<n} - {k}. refs_of (os j) i)"
      using assms(1) sum.remove [OF _ k, of "\<lambda>j. refs_of (os j) i"] by (simp add: wr_inv_def)
    moreover have "(\<Sum>j<n. refs_of ((os(k := o1)) j) i) = refs_of o1 i + (\<Sum>j \<in> {..<n} - {k}. refs_of (os j) i)"
      using sum.remove [OF _ k, of "\<lambda>j. refs_of ((os(k := o1)) j) i"] by simp
    moreover have "ref_count s1 i + refs_of (os k) i = ref_count s i + refs_of o1 i" using assms(3) f by (simp add: fits_def)
    ultimately show ?thesis by linarith
  qed
  then show ?thesis using assms f by (simp add: wr_inv_def on_wshm_def fits_def)
qed

lemma region_open_fits:
  assumes "sys_ok s" "shm_tidy o1" "\<And>i. refs_of o1 i \<le> ref_count s i"
  shows "fits (o1, s) (snd (WSharedMemory_Open ok ok2 str sz (o1, s))) \<and> shm_tidy (fst (snd (WSharedMemory_Open ok ok2 str sz (o1, s))))"
proof -
  obtain b o2 s2 where 2: "WShm_Open ok str sz (o1, s) = (b, o2, s2)" by (cases "WShm_Open ok str sz (o1, s)") auto
  note O = Open_fits [OF assms(1,2), of ok str sz, unfolded 2, simplified]
  show ?thesis
  proof (cases b)
    case False
    then show ?thesis using O 2 by (simp add: WSharedMemory_Open_def)
  next
    case True
    then have h: "wh_hMap o1 = None" "wh_pStart o2 = None" using O by auto
    have ok2: "sys_ok s2" using O by (simp add: fits_def)
    have "ms_maps s2 i \<noteq> None" if "wh_hMap o2 = Some i" for i
    proof -
      have "0 < refs_of o2 i" using that by (simp add: refs_of_def)
      moreover have "ref_count s2 i + refs_of o1 i = ref_count s i + refs_of o2 i" using O by (simp add: fits_def)
      ultimately have "0 < ref_count s2 i" using assms(3) [of i] by linarith
      then show ?thesis using ref_count_pos [OF ok2] by simp
    qed
    from Attach_fits [OF ok2 h(2) this] O True 2 show ?thesis
      by (auto simp: WSharedMemory_Open_def intro: fits_trans)
  qed
qed

lemma region_step_inv:
  assumes "wr_inv n r" "op_obj op < n"
  shows "wr_inv n (region_step op r)"
proof -
  obtain os s where r: "r = (os, s)" by (cases r)
  then have pre: "sys_ok s" "shm_tidy (os (op_obj op))" "refs_of (os (op_obj op)) i \<le> ref_count s i" for i
    using assms refs_le_sum [of "op_obj op" n os i] by (simp_all add: wr_inv_def)
  show ?thesis
  proof (cases op)
    case (RegionOpen k ok ok2 str sz)
    then show ?thesis using wr_inv_on [of n os s k "\<lambda>os. snd (WSharedMemory_Open ok ok2 str sz os)"] region_open_fits [OF pre, of ok ok2 str sz] assms r by simp
  next
    case (RegionClose k)
    then show ?thesis using wr_inv_on [of n os s k WSharedMemory_Close] Close_fits [OF pre] assms r by simp
  qed
qed

definition no_regions :: wregions where
  "no_regions = ((\<lambda>_. WShm_new), \<lparr>ms_names = (\<lambda>_. None), ms_maps = (\<lambda>_. None), ms_next = 0\<rparr>)"

lemma wr_inv_run: "list_all (\<lambda>op. op_obj op < n) ops \<Longrightarrow> wr_inv n r \<Longrightarrow> wr_inv n (fold region_step ops r)"
proof (induction ops arbitrary: r)
  case (Cons op ops)
  then have "wr_inv n (region_step op r)" by (intro region_step_inv) simp_all
  from Cons.IH [OF _ this] Cons.prems show ?case by simp
qed simp

text \<open>
  Observation. On Windows a region lives exactly as long as one of the objects has it open, in every state that opening and closing reach.
\<close>

lemma win_regions_live:
  assumes "list_all (\<lambda>op. op_obj op < n) ops" "(os, s) = fold region_step ops no_regions"
  shows "(ms_maps s i \<noteq> None) = (\<exists>k<n. wh_hMap (os k) = Some i)"
proof -
  have "wr_inv n no_regions" by (simp add: wr_inv_def no_regions_def sys_ok_def shm_tidy_def WShm_new_def ref_count_def refs_of_def)
  then have I: "wr_inv n (os, s)" using wr_inv_run [OF assms(1)] assms(2) by simp
  have "0 < refs_of (os k) i \<longleftrightarrow> wh_hMap (os k) = Some i" for k
    using I by (cases "wh_pStart (os k)") (auto simp: wr_inv_def refs_of_def shm_tidy_def dest!: spec [of _ k])
  then have "(\<exists>k<n. wh_hMap (os k) = Some i) = (\<exists>k<n. 0 < refs_of (os k) i)" by simp
  also have "\<dots> = (0 < (\<Sum>k<n. refs_of (os k) i))"
    using sum_pos2 [of "{..<n}" _ "\<lambda>k. refs_of (os k) i"] sum.neutral [of "{..<n}" "\<lambda>k. refs_of (os k) i"] by (metis finite_lessThan lessThan_iff neq0_conv zero_le)
  finally show ?thesis using I ref_count_pos [of s i] by (simp add: wr_inv_def)
qed

text \<open>
  Observations. On Linux two objects that open the same name get the same segment, but whoever closes first takes the name away from it: the next object that opens the
  name gets a new and empty segment, while the others still use the old one. A name that is no file has the key -1, as every other such name. And a failed attachment
  counts as a success, with the address -1.
\<close>

lemma linux_region_shared:
  assumes "ls_shmid a = None" "ls_shmid b = None" "LShm_Open ftok ok str sz (a, s) = (True, a1, s1)"
  shows "LShm_Open ftok ok2 str sz (b, s1) = (True, b\<lparr>ls_shmid := ls_shmid a1\<rparr>, s1)"
  using assms by (auto simp: LShm_Open_def shmget_def split: option.splits if_splits)

lemma linux_close_splits:
  assumes "sh_keys s (ftok str (sz mod 256)) = Some i" "sh_segs s i = Some g" "i < sh_next s" "ls_shmid a = Some i" "ls_shmid b = None" "0 < sg_attach g"
  shows "(case LShm_Close (a, s) of (a1, s1) \<Rightarrow> sh_segs s1 i = Some (g\<lparr>sg_removed := True\<rparr>)
    \<and> (case LShm_Open ftok True str sz (b, s1) of (ok, b1, s2) \<Rightarrow> ok \<and> ls_shmid b1 = Some (sh_next s) \<and> ls_shmid b1 \<noteq> Some i
        \<and> sh_segs s2 (sh_next s) = Some \<lparr>sg_data = replicate sz 0, sg_attach = 0, sg_removed = False\<rparr>))"
  using assms by (simp add: LShm_Close_def shm_rmid_def drop_if_unused_def LShm_Open_def shmget_def)

lemma linux_missing_names_shared:
  "(\<And>k. ftok m k = -1) \<Longrightarrow> (\<And>k. ftok n k = -1) \<Longrightarrow> LShm_Open ftok ok m sz os = LShm_Open ftok ok n sz os"
  by (cases os) (simp add: LShm_Open_def)

lemma linux_failed_attach_succeeds:
  "ls_shmid a = Some i \<Longrightarrow> \<exists>s1. LShm_Attach False (a, s) = (True, a\<lparr>ls_pStart := BadAddr\<rparr>, s1)"
  by (auto simp: LShm_Attach_def split: option.splits)

subsection \<open>Events on Linux\<close>

text \<open>A semaphore with what the end of every process will add to its value (\<open>SEM_UNDO\<close>).\<close>

record ksem =
  ks_val :: nat
  ks_adj :: "nat \<Rightarrow> int"

record sem_sys =
  se_keys :: "int \<Rightarrow> nat option"
  se_sems :: "nat \<Rightarrow> ksem option"
  se_next :: nat

definition LEvent_new :: "nat option" where
  "LEvent_new = None"

definition LEvent_Create :: "(string \<Rightarrow> nat \<Rightarrow> int) \<Rightarrow> bool \<Rightarrow> string \<Rightarrow> nat \<Rightarrow> nat option \<times> sem_sys \<Rightarrow> bool \<times> nat option \<times> sem_sys" where
  "LEvent_Create ftok ok strName mode = (\<lambda>(m_id, s).
     (if m_id \<noteq> None then (False, m_id, s)
      else case se_keys s (ftok strName (mode mod 256)) of
             Some i \<Rightarrow> if ok then (True, Some i, s\<lparr>se_sems := (se_sems s)(i \<mapsto> \<lparr>ks_val = 0, ks_adj = (\<lambda>_. 0)\<rparr>)\<rparr>) else (False, None, s)
           | None \<Rightarrow>
               if ok then (True, Some (se_next s), s\<lparr>se_keys := (se_keys s)(ftok strName (mode mod 256) \<mapsto> se_next s),
                 se_sems := (se_sems s)(se_next s \<mapsto> \<lparr>ks_val = 0, ks_adj = (\<lambda>_. 0)\<rparr>), se_next := Suc (se_next s)\<rparr>)
               else (False, None, s)))"

definition LEvent_Open :: "(string \<Rightarrow> nat \<Rightarrow> int) \<Rightarrow> bool \<Rightarrow> string \<Rightarrow> nat \<Rightarrow> nat option \<times> sem_sys \<Rightarrow> bool \<times> nat option \<times> sem_sys" where
  "LEvent_Open ftok ok strName mode = (\<lambda>(m_id, s).
     (if m_id \<noteq> None then (False, m_id, s)
      else let r = (if ok then se_keys s (ftok strName (mode mod 256)) else None) in (r \<noteq> None, r, s)))"

text \<open>An operation of the process \<open>p\<close>; waiting for a semaphore that is zero is \<open>None\<close>. On a semaphore that was removed the call fails at once.\<close>

definition LEvent_Wait :: "nat \<Rightarrow> nat option \<Rightarrow> sem_sys \<Rightarrow> sem_sys option" where
  "LEvent_Wait p m_id s =
     (case m_id of
        None \<Rightarrow> Some s
      | Some i \<Rightarrow>
          (case se_sems s i of
             None \<Rightarrow> Some s
           | Some k \<Rightarrow> if ks_val k = 0 then None
                       else Some (s\<lparr>se_sems := (se_sems s)(i \<mapsto> \<lparr>ks_val = ks_val k - 1, ks_adj = (ks_adj k)(p := ks_adj k p + 1)\<rparr>)\<rparr>)))"

definition LEvent_Post :: "nat \<Rightarrow> nat option \<Rightarrow> sem_sys \<Rightarrow> sem_sys" where
  "LEvent_Post p m_id s =
     (case m_id of
        None \<Rightarrow> s
      | Some i \<Rightarrow>
          (case se_sems s i of
             None \<Rightarrow> s
           | Some k \<Rightarrow> s\<lparr>se_sems := (se_sems s)(i \<mapsto> \<lparr>ks_val = ks_val k + 1, ks_adj = (ks_adj k)(p := ks_adj k p - 1)\<rparr>)\<rparr>))"

definition LEvent_Delete :: "nat option \<times> sem_sys \<Rightarrow> nat option \<times> sem_sys" where
  "LEvent_Delete = (\<lambda>(m_id, s).
     (case m_id of
        None \<Rightarrow> (None, s)
      | Some i \<Rightarrow> (None, s\<lparr>se_keys := (\<lambda>k. if se_keys s k = Some i then None else se_keys s k), se_sems := (se_sems s)(i := None)\<rparr>)))"

definition process_exit :: "nat \<Rightarrow> sem_sys \<Rightarrow> sem_sys" where
  "process_exit p s =
     s\<lparr>se_sems := (\<lambda>i. map_option (\<lambda>k. \<lparr>ks_val = nat (int (ks_val k) + ks_adj k p), ks_adj = (ks_adj k)(p := 0)\<rparr>) (se_sems s i))\<rparr>"

text \<open>
  Observations. An event that a process posts is taken back when the process ends before the waiter has run, and an event that a process has received appears again
  when this process ends. Creating an event of a name in use clears what was posted.
\<close>

lemma post_undone:
  assumes "se_sems s i = Some k" "ks_adj k p = 0"
  shows "se_sems (process_exit p (LEvent_Post p (Some i) s)) i = Some (k\<lparr>ks_val := ks_val k\<rparr>)"
  using assms by (simp add: process_exit_def LEvent_Post_def fun_upd_idem)

lemma received_again:
  assumes "se_sems s i = Some k" "ks_adj k p = 0" "ks_val k = Suc v"
  shows "\<exists>s1. LEvent_Wait p (Some i) s = Some s1 \<and> se_sems (process_exit p s1) i = Some k"
  using assms by (auto simp: process_exit_def LEvent_Wait_def fun_upd_idem)

lemma create_clears:
  "se_keys s (ftok n (mode mod 256)) = Some i \<Longrightarrow> LEvent_Create ftok True n mode (None, s) = (True, Some i, s1) \<Longrightarrow> LEvent_Wait p (Some i) s1 = None"
  by (auto simp: LEvent_Create_def LEvent_Wait_def)

subsection \<open>Events and mutexes on Windows\<close>

record kevent =
  ke_manual :: bool
  ke_signalled :: bool

record ev_sys =
  es_names :: "string \<Rightarrow> nat option"
  es_events :: "nat \<Rightarrow> kevent option"
  es_next :: nat

record wevent =
  we_hHandle :: "nat option"
  we_bManual :: bool

definition WEvent_new :: wevent where
  "WEvent_new = \<lparr>we_hHandle = None, we_bManual = False\<rparr>"

text \<open>The second argument of the system's function, whether the event is reset by hand, is the negation of \<open>bManual\<close>.\<close>

definition WEvent_Create :: "bool \<Rightarrow> string \<Rightarrow> bool \<Rightarrow> wevent \<times> ev_sys \<Rightarrow> bool \<times> wevent \<times> ev_sys" where
  "WEvent_Create ok strName bManual = (\<lambda>(o1, s).
     (if we_hHandle o1 \<noteq> None then (False, o1, s)
      else
        let o2 = o1\<lparr>we_bManual := bManual\<rparr>
        in if \<not> ok then (False, o2, s)
           else case es_names s strName of
                  Some i \<Rightarrow> (True, o2\<lparr>we_hHandle := Some i\<rparr>, s)
                | None \<Rightarrow> (True, o2\<lparr>we_hHandle := Some (es_next s)\<rparr>,
                    s\<lparr>es_names := (es_names s)(strName \<mapsto> es_next s),
                      es_events := (es_events s)(es_next s \<mapsto> \<lparr>ke_manual = (if bManual then False else True), ke_signalled = False\<rparr>), es_next := Suc (es_next s)\<rparr>)))"

definition WEvent_Open :: "bool \<Rightarrow> string \<Rightarrow> wevent \<times> ev_sys \<Rightarrow> bool \<times> wevent \<times> ev_sys" where
  "WEvent_Open ok strName = (\<lambda>(o1, s).
     (if we_hHandle o1 \<noteq> None then (False, o1, s)
      else let h = (if ok then es_names s strName else None) in (h \<noteq> None, o1\<lparr>we_hHandle := h\<rparr>, s)))"

definition on_event :: "(kevent \<Rightarrow> kevent) \<Rightarrow> wevent \<Rightarrow> ev_sys \<Rightarrow> ev_sys" where
  "on_event f o1 s =
     (case we_hHandle o1 of
        None \<Rightarrow> s
      | Some i \<Rightarrow> (case es_events s i of None \<Rightarrow> s | Some k \<Rightarrow> s\<lparr>es_events := (es_events s)(i \<mapsto> f k)\<rparr>))"

definition WEvent_Wait :: "wevent \<Rightarrow> ev_sys \<Rightarrow> ev_sys option" where
  "WEvent_Wait o1 s =
     (case we_hHandle o1 of
        None \<Rightarrow> Some s
      | Some i \<Rightarrow>
          (case es_events s i of
             None \<Rightarrow> Some s
           | Some k \<Rightarrow> if \<not> ke_signalled k then None
                       else Some (if ke_manual k then s else s\<lparr>es_events := (es_events s)(i \<mapsto> k\<lparr>ke_signalled := False\<rparr>)\<rparr>)))"

definition WEvent_Post :: "wevent \<Rightarrow> ev_sys \<Rightarrow> ev_sys" where
  "WEvent_Post = on_event (\<lambda>k. k\<lparr>ke_signalled := True\<rparr>)"

definition WEvent_ManualReset :: "wevent \<Rightarrow> ev_sys \<Rightarrow> ev_sys" where
  "WEvent_ManualReset o1 s = (if we_bManual o1 then on_event (\<lambda>k. k\<lparr>ke_signalled := False\<rparr>) o1 s else s)"

text \<open>
  Observation. The two modes are exchanged: an event that is not to be reset by hand is never reset, so that after one \<open>Post\<close> no \<open>Wait\<close> waits any more, and
  \<open>ManualReset\<close> does nothing; an event to be reset by hand is reset by the first \<open>Wait\<close>.
\<close>

lemma event_mode_exchanged:
  assumes "WEvent_Create True n bManual (WEvent_new, s) = (True, o1, s1)" "es_names s n = None"
  shows "\<not> bManual \<Longrightarrow> WEvent_Wait o1 (WEvent_Post o1 s1) = Some (WEvent_Post o1 s1) \<and> WEvent_ManualReset o1 (WEvent_Post o1 s1) = WEvent_Post o1 s1"
    and "bManual \<Longrightarrow> \<exists>s2. WEvent_Wait o1 (WEvent_Post o1 s1) = Some s2 \<and> WEvent_Wait o1 s2 = None"
  using assms by (auto simp: WEvent_Create_def WEvent_new_def WEvent_Post_def WEvent_Wait_def WEvent_ManualReset_def on_event_def)

text \<open>A mutex of the system: its owner with the number of times it is locked. Unlocking by another thread fails and changes nothing.\<close>

definition WMutex_Lock :: "nat \<Rightarrow> bool \<Rightarrow> (nat \<times> nat) option \<Rightarrow> (nat \<times> nat) option option" where
  "WMutex_Lock t open mx =
     (if \<not> open then Some mx else case mx of None \<Rightarrow> Some (Some (t, 1)) | Some (u, n) \<Rightarrow> if u = t then Some (Some (u, Suc n)) else None)"

definition WMutex_Unlock :: "nat \<Rightarrow> bool \<Rightarrow> (nat \<times> nat) option \<Rightarrow> (nat \<times> nat) option" where
  "WMutex_Unlock t open mx =
     (if \<not> open then mx else case mx of None \<Rightarrow> None | Some (u, n) \<Rightarrow> if u \<noteq> t then mx else if n \<le> 1 then None else Some (u, n - 1))"

subsection \<open>Loaded libraries\<close>

text \<open>\<open>libs\<close> are the libraries that can be loaded, with their symbols. Closing a null handle is undefined on Linux and tested on Windows.\<close>

definition OpenLib :: "(string \<Rightarrow> (string \<Rightarrow> nat option) option) \<Rightarrow> string \<Rightarrow> string option \<Rightarrow> bool \<times> string option" where
  "OpenLib libs filePath h = (if libs filePath = None then (False, None) else (True, Some filePath))"

definition GetObjByLib :: "(string \<Rightarrow> (string \<Rightarrow> nat option) option) \<Rightarrow> string \<Rightarrow> string option \<Rightarrow> nat option" where
  "GetObjByLib libs strName h = (case h of None \<Rightarrow> None | Some f \<Rightarrow> (case libs f of None \<Rightarrow> None | Some syms \<Rightarrow> syms strName))"

definition LCloseLib :: "string option \<Rightarrow> xerror + string option" where
  "LCloseLib h = (if h = None then Inl Undefined else Inr None)"

definition WCloseLib :: "string option \<Rightarrow> string option" where
  "WCloseLib h = (if h \<noteq> None then None else h)"

definition DyPlugin_assign :: "string option \<Rightarrow> string option \<Rightarrow> string option" where
  "DyPlugin_assign th h = (if h \<noteq> None then None else h)"

end
