(* ===== verification/AppleNet.thy ===== *)
theory AppleNet
  imports AsyncNet
begin

text \<open>
  The asynchronous sockets for Apple (\<open>Net/AsyncNetServerImpl_Apple.cpp\<close>, \<open>Net/AsyncNetClientImpl_Apple.cpp\<close>): the state of \<open>AsyncNet\<close> with the filters that are
  registered at the kernel queue. A filter is a descriptor with the number of what is monitored; registering adds one, deleting fails if it is not there. An event is a
  descriptor, its filter and the amount of data, which for a listening socket is the number of waiting connections.
\<close>

definition EVFILT_READ :: int where "EVFILT_READ = -1"
definition EVFILT_WRITE :: int where "EVFILT_WRITE = -2"
definition MAX_EVENT_COUNT :: nat where "MAX_EVENT_COUNT = 5000"

record 'k kqnet =
  kq_net :: "'k anet"
  kq_filters :: "(int \<times> int) list"

definition kq_new :: "'k anet \<Rightarrow> 'k kqnet" where
  "kq_new net = \<lparr>kq_net = net, kq_filters = []\<rparr>"

definition kevent_add :: "int \<Rightarrow> int \<Rightarrow> 'k kqnet \<Rightarrow> int \<times> 'k kqnet" where
  "kevent_add fd filt st = (0, st\<lparr>kq_filters := List.insert (fd, filt) (kq_filters st)\<rparr>)"

definition kevent_del :: "int \<Rightarrow> int \<Rightarrow> 'k kqnet \<Rightarrow> int \<times> 'k kqnet" where
  "kevent_del fd filt st =
     (if (fd, filt) \<in> set (kq_filters st) then (0, st\<lparr>kq_filters := removeAll (fd, filt) (kq_filters st)\<rparr>) else (-1, st))"

text \<open>The filters are combined bit by bit, although they are numbers and not flags.\<close>

definition Apple_FdAdd :: "int \<Rightarrow> bool \<Rightarrow> 'k kqnet \<Rightarrow> int \<times> 'k kqnet" where
  "Apple_FdAdd fd bMonWrite st =
     (if bMonWrite then kevent_add fd (EVFILT_READ OR EVFILT_WRITE) st else kevent_add fd EVFILT_READ st)"

definition drop_fd :: "int \<Rightarrow> post_req \<Rightarrow> 'k kqnet \<Rightarrow> 'k kqnet" where
  "drop_fd fd node st =
     (let st1 = an_event (CloseFd fd) (kq_net st);
          st2 = st1\<lparr>an_read := DeleteOut fd (an_read st1), an_write := DeleteOut fd (an_write st1)\<rparr>
      in st\<lparr>kq_net := ProduceNode node st2, kq_filters := filter (\<lambda>p. fst p \<noteq> fd) (kq_filters st)\<rparr>)"

text \<open>Closing a descriptor also removes its filters.\<close>

definition Apple_Server_FdDel :: "int \<Rightarrow> 'k kqnet \<Rightarrow> int \<times> 'k kqnet" where
  "Apple_Server_FdDel fd st =
     (case kevent_del fd (EVFILT_READ OR EVFILT_WRITE) st of (r, st1) \<Rightarrow>
        if r = -1 then (-1, st1)
        else (0, drop_fd fd ((PostReq_of (MemNode_new\<lparr>mn_oType := Some OP_EXIT\<rparr>))\<lparr>pr_sSock := an_sock (kq_net st1), pr_cSock := fd\<rparr>) st1))"

definition Apple_Client_FdDel :: "int \<Rightarrow> 'k kqnet \<Rightarrow> int \<times> 'k kqnet" where
  "Apple_Client_FdDel fd st =
     (case kevent_del fd (EVFILT_READ OR EVFILT_WRITE) st of (r, st1) \<Rightarrow>
        if r = -1 then (-1, st1)
        else (0, drop_fd fd ((PostReq_of (MemNode_new\<lparr>mn_oType := Some OP_EXIT\<rparr>))\<lparr>pr_sSock := an_sock (kq_net st1), pr_cSock := fd\<rparr>) st1))"

definition Apple_AsyncInit :: "'k kernel \<Rightarrow> int \<Rightarrow> 'k kqnet \<Rightarrow> int \<times> 'k kqnet" where
  "Apple_AsyncInit K sfd st =
     (let (q, k) = k_epoll_create K (an_k (kq_net st))
      in (q, snd (Apple_FdAdd sfd False (st\<lparr>kq_net := (kq_net st)\<lparr>an_hEpoll := q, an_k := k\<rparr>\<rparr>))))"

definition Apple_Server_Stop :: "'k kqnet \<Rightarrow> 'k kqnet" where
  "Apple_Server_Stop st = st\<lparr>kq_net := AsyncNetServerImpl_Stop (kq_net st), kq_filters := []\<rparr>"

definition Apple_Client_Stop :: "'k kqnet \<Rightarrow> 'k kqnet" where
  "Apple_Client_Stop st = st\<lparr>kq_net := AsyncNetClientImpl_Stop (kq_net st), kq_filters := []\<rparr>"

text \<open>\<open>on_accept_callback\<close> of the common server with \<open>FdAdd\<close> for Apple.\<close>

definition Apple_accept :: "'k kernel \<Rightarrow> 'k kqnet \<Rightarrow> int \<times> string \<times> 'k kqnet" where
  "Apple_accept K st =
     (let ((fd, ip), k) = k_accept K (an_sock (kq_net st)) (an_k (kq_net st)); st1 = st\<lparr>kq_net := (kq_net st)\<lparr>an_k := k\<rparr>\<rparr>
      in if fd = - 1 then (- 1, [], st1) else (fd, ip, snd (Apple_FdAdd fd True st1)))"

definition enter_client :: "'k kernel \<Rightarrow> 'k kqnet \<Rightarrow> 'k kqnet" where
  "enter_client K st =
     (case Apple_accept K st of
        (c, ip, st1) \<Rightarrow>
          if c = - 1 then st1
          else
            let net = kq_net st1;
                net2 = ProduceNode ((PostReq_of (MemNode_new\<lparr>mn_oType := Some OP_ACCEPT\<rparr>))\<lparr>pr_sSock := an_sock net, pr_cSock := c, pr_ip := ip\<rparr>) net
            in st1\<lparr>kq_net := net2\<lparr>an_read := AppendNew c (an_read net2), an_write := AppendNew c (an_write net2)\<rparr>\<rparr>)"

text \<open>
  The loop over the waiting connections. Its bound is read from the event at the position of the loop's own counter; events behind those delivered are cleared, and
  reading behind the array is undefined.
\<close>

type_synonym kq_event = "int \<times> int \<times> nat"

definition event_data :: "kq_event list \<Rightarrow> nat \<Rightarrow> nat" where
  "event_data evs i = (if i < length evs then snd (snd (evs ! i)) else 0)"

function accept_loop :: "'k kernel \<Rightarrow> kq_event list \<Rightarrow> nat \<Rightarrow> 'k kqnet \<Rightarrow> xerror + 'k kqnet" where
  "accept_loop K evs i st =
     (if MAX_EVENT_COUNT \<le> i then Inl Undefined
      else if i < event_data evs i then accept_loop K evs (Suc i) (enter_client K st)
      else Inr st)"
  by pat_completeness auto
termination
  by (relation "measure (\<lambda>(K, evs, i, st). MAX_EVENT_COUNT - i)") auto

declare accept_loop.simps [simp del]

definition submit_kq :: "int \<Rightarrow> jobtype \<Rightarrow> int \<Rightarrow> 'k kqnet \<Rightarrow> 'k kqnet" where
  "submit_kq c type s st = st\<lparr>kq_net := submit_rw c type s (kq_net st)\<rparr>"

definition Apple_Server_event :: "'k kernel \<Rightarrow> kq_event list \<Rightarrow> kq_event \<Rightarrow> 'k kqnet \<Rightarrow> xerror + 'k kqnet" where
  "Apple_Server_event K evs ev st =
     (case ev of (fd, filt, data) \<Rightarrow>
        if filt = EVFILT_READ then
          (if fd = an_sock (kq_net st) then accept_loop K evs 0 st else Inr (submit_kq fd READTASK (an_sock (kq_net st)) st))
        else if filt = EVFILT_WRITE then Inr (submit_kq fd WRITETASK (an_sock (kq_net st)) st)
        else Inr st)"

fun event_loop :: "(kq_event \<Rightarrow> 'k kqnet \<Rightarrow> xerror + 'k kqnet) \<Rightarrow> kq_event list \<Rightarrow> 'k kqnet \<Rightarrow> xerror + 'k kqnet" where
  "event_loop f [] st = Inr st"
| "event_loop f (ev # evs) st = (case f ev st of Inl e \<Rightarrow> Inl e | Inr st1 \<Rightarrow> event_loop f evs st1)"

definition Apple_Server_HandleThread :: "'k kernel \<Rightarrow> kq_event list \<Rightarrow> 'k kqnet \<Rightarrow> xerror + 'k kqnet" where
  "Apple_Server_HandleThread K evs st = (if an_run (kq_net st) then event_loop (Apple_Server_event K evs) evs st else Inr st)"

definition Apple_Client_event :: "kq_event \<Rightarrow> 'k kqnet \<Rightarrow> xerror + 'k kqnet" where
  "Apple_Client_event ev st =
     (case ev of (fd, filt, data) \<Rightarrow>
        if filt = EVFILT_READ \<and> fd = an_sock (kq_net st) then Inr (submit_kq fd READTASK (an_sock (kq_net st)) st)
        else if filt = EVFILT_WRITE then Inr (submit_kq fd WRITETASK (an_sock (kq_net st)) st)
        else Inr st)"

definition Apple_Client_HandleThread :: "kq_event list \<Rightarrow> 'k kqnet \<Rightarrow> xerror + 'k kqnet" where
  "Apple_Client_HandleThread evs st = (if an_run (kq_net st) then event_loop Apple_Client_event evs st else Inr st)"

subsection \<open>Nothing is ever written\<close>

lemma filter_or [simp]: "EVFILT_READ OR EVFILT_WRITE = EVFILT_READ"
  by (simp add: EVFILT_READ_def)

text \<open>The filters of a server, and the descriptors for which events may arrive.\<close>

definition only_reads :: "'k kqnet \<Rightarrow> bool" where
  "only_reads st = (\<forall>p \<in> set (kq_filters st). snd p = EVFILT_READ)"

lemma only_reads_add: "only_reads st \<Longrightarrow> only_reads (snd (Apple_FdAdd fd w st))"
  by (auto simp: only_reads_def Apple_FdAdd_def kevent_add_def)

lemma only_reads_net [simp]: "only_reads (st\<lparr>kq_net := n\<rparr>) = only_reads st"
  by (simp add: only_reads_def)

lemma only_reads_enter: "only_reads st \<Longrightarrow> only_reads (enter_client K st)"
  by (auto simp: enter_client_def Apple_accept_def Let_def intro: only_reads_add split: prod.splits)

lemma only_reads_accept: "only_reads st \<Longrightarrow> accept_loop K evs i st = Inr st1 \<Longrightarrow> only_reads st1"
  by (induction K evs i st rule: accept_loop.induct) (subst (asm) (2) accept_loop.simps, auto intro: only_reads_enter split: if_splits)

definition jobs_of :: "'k kqnet \<Rightarrow> task list" where
  "jobs_of st = m_jobs (an_pool (kq_net st))"

definition no_writes :: "'k kqnet \<Rightarrow> bool" where
  "no_writes st = (only_reads st \<and> (\<forall>j \<in> set (jobs_of st). m_type j = READTASK))"

definition registered_event :: "'k kqnet \<Rightarrow> kq_event \<Rightarrow> bool" where
  "registered_event st ev = ((fst ev, fst (snd ev)) \<in> set (kq_filters st))"

lemma jobs_submit: "set (jobs_of (submit_kq c t s st)) \<subseteq> insert \<lparr>tk_id = an_next (kq_net st), m_type = t\<rparr> (set (jobs_of st))"
  by (auto simp: jobs_of_def submit_kq_def submit_rw_def submit_job_req_def Let_def)

lemma no_writes_read: "no_writes st \<Longrightarrow> no_writes (submit_kq c READTASK s st)"
  using jobs_submit [of c READTASK s st] by (auto simp: no_writes_def only_reads_def) (auto simp: submit_kq_def)

lemma jobs_enter: "jobs_of (enter_client K st) = jobs_of st"
  by (auto simp: enter_client_def Apple_accept_def jobs_of_def ProduceNode_def Apple_FdAdd_def kevent_add_def Let_def split: prod.splits)

lemma no_writes_accept: "no_writes st \<Longrightarrow> accept_loop K evs i st = Inr st1 \<Longrightarrow> no_writes st1"
proof (induction K evs i st rule: accept_loop.induct)
  case (1 K evs i st)
  then show ?case
    using only_reads_enter [of st K] jobs_enter [of K st] by (subst (asm) (2) accept_loop.simps) (auto simp: no_writes_def split: if_splits)
qed

lemma no_writes_event: "no_writes st \<Longrightarrow> fst (snd ev) = EVFILT_READ \<Longrightarrow> Apple_Server_event K evs ev st = Inr st1 \<Longrightarrow> no_writes st1"
  by (auto simp: Apple_Server_event_def intro: no_writes_accept no_writes_read split: prod.splits if_splits)

lemma no_writes_events:
  "no_writes st \<Longrightarrow> \<forall>ev \<in> set es. fst (snd ev) = EVFILT_READ \<Longrightarrow> event_loop (Apple_Server_event K evs) es st = Inr st1 \<Longrightarrow> no_writes st1"
proof (induction es arbitrary: st)
  case (Cons ev es)
  from Cons.prems(3) obtain st2 where "Apple_Server_event K evs ev st = Inr st2" "event_loop (Apple_Server_event K evs) es st2 = Inr st1"
    by (auto split: sum.splits)
  with Cons.IH [of st2] Cons.prems(1,2) no_writes_event [of st ev K evs st2] show ?case by simp
qed simp

text \<open>
  The states of a server: batches of events, each of a filter that is registered then, descriptors that are dropped, and what workers and clients do, who add no tasks
  and change no filters.
\<close>

inductive apple_reach :: "'k kernel \<Rightarrow> 'k kqnet \<Rightarrow> bool" for K where
  init: "m_jobs (an_pool net) = [] \<Longrightarrow> apple_reach K (kq_new net)"
| started: "apple_reach K st \<Longrightarrow> apple_reach K (snd (Apple_AsyncInit K sfd st))"
| batch: "apple_reach K st \<Longrightarrow> list_all (registered_event st) evs \<Longrightarrow> Apple_Server_HandleThread K evs st = Inr st1 \<Longrightarrow> apple_reach K st1"
| drop: "apple_reach K st \<Longrightarrow> apple_reach K (snd (Apple_Server_FdDel fd st))"
| others: "apple_reach K st \<Longrightarrow> set (m_jobs (an_pool net)) \<subseteq> set (jobs_of st) \<Longrightarrow> apple_reach K (st\<lparr>kq_net := net\<rparr>)"

lemma no_writes_del: "no_writes st \<Longrightarrow> no_writes (snd (Apple_Server_FdDel fd st))"
  by (auto simp: no_writes_def only_reads_def jobs_of_def Apple_Server_FdDel_def kevent_del_def drop_fd_def an_event_def ProduceNode_def Let_def)

text \<open>
  Observation. A server on Apple never writes: the filter that should report that a socket can be written is the number of the one for reading, so that in every
  reachable state only reading is monitored and the pool has no task for writing.
\<close>

lemma apple_never_writes: "apple_reach K st \<Longrightarrow> j \<in> set (jobs_of st) \<Longrightarrow> m_type j = READTASK"
proof -
  have "no_writes st" if "apple_reach K st"
    using that
  proof (induction rule: apple_reach.induct)
    case (started st sfd)
    then show ?case by (auto simp: Apple_AsyncInit_def no_writes_def jobs_of_def Let_def only_reads_def Apple_FdAdd_def kevent_add_def split: prod.splits)
  next
    case (batch st evs st1)
    have "\<forall>ev \<in> set evs. fst (snd ev) = EVFILT_READ"
      using batch.hyps(2) batch.IH unfolding list_all_iff registered_event_def no_writes_def only_reads_def by fastforce
    then show ?case using no_writes_events [OF batch.IH, of evs K evs st1] batch by (auto simp: Apple_Server_HandleThread_def split: if_splits)
  next
    case (drop st fd)
    show ?case by (rule no_writes_del [OF drop.IH])
  qed (auto simp: no_writes_def jobs_of_def only_reads_def kq_new_def)
  then show "apple_reach K st \<Longrightarrow> j \<in> set (jobs_of st) \<Longrightarrow> m_type j = READTASK" by (auto simp: no_writes_def)
qed

text \<open>
  Observation. With the event of the listening socket alone the loop accepts one connection however many wait; with other events behind it the number depends on
  their data.
\<close>

lemma apple_accepts_one:
  "an_run (kq_net st) \<Longrightarrow> 0 < n \<Longrightarrow>
   Apple_Server_HandleThread K [(an_sock (kq_net st), EVFILT_READ, n)] st = Inr (enter_client K st)"
  by (simp add: Apple_Server_HandleThread_def Apple_Server_event_def accept_loop.simps [of _ _ 0] accept_loop.simps [of _ _ "Suc 0"] event_data_def MAX_EVENT_COUNT_def)

end
