(* ===== verification/ProcApi.thy ===== *)
theory ProcApi
  imports TimeInf WinRegistry "HOL-Library.Sublist"
begin

text \<open>
  Processes: the search for a process by its name (\<open>SystemApi/SystemApi_Linux.cpp\<close>, \<open>SystemApi_Win32.cpp\<close>), the start of a daemon, and the objects that start
  processes (\<open>ProcessImpl_Linux.cpp\<close>, \<open>ProcessImpl_Win32.cpp\<close>). The entries of \<open>/proc\<close>, the snapshot of the processes and the answers of the system calls
  are arguments; what the system is asked to do is recorded.
\<close>

subsection \<open>The search on Linux\<close>

text \<open>An entry of \<open>/proc\<close>: its name, whether it is a directory, and the contents of its \<open>cmdline\<close> if that can be opened.\<close>

record proc_entry =
  pe_name :: string
  pe_dir :: bool
  pe_cmdline :: "string option"

definition IsNumeric :: "string \<Rightarrow> bool" where
  "IsNumeric s = list_all is_digit s"

text \<open>The C string that starts at the beginning of an array.\<close>

definition c_str :: "string \<Rightarrow> string" where
  "c_str s = takeWhile (\<lambda>c. c \<noteq> CHR 0x00) s"

definition scan_token :: "string \<Rightarrow> string" where
  "scan_token s = takeWhile (\<lambda>c. \<not> is_blank c) (dropWhile is_blank s)"

text \<open>
  \<open>fscanf\<close> into the array for the name, whose contents are \<open>None\<close> before the first success. It takes everything up to white space, the zeros between the arguments included,
  and leaves the array alone if there is nothing; what does not fit is undefined.
\<close>

definition fscanf_name :: "string \<Rightarrow> string option \<Rightarrow> xerror + string option" where
  "fscanf_name content buf =
     (let t = scan_token content
      in if t = [] then Inr buf else if 300 \<le> length t then Inl Undefined else Inr (Some (c_str t)))"

definition strrchr :: "char \<Rightarrow> string \<Rightarrow> nat option" where
  "strrchr c s = (if c \<in> set s then Some (length s - 1 - length (takeWhile (\<lambda>x. x \<noteq> c) (rev s))) else None)"

text \<open>Where the pure name begins: \<open>chrptr_StringToCompare\<close> as an offset in the array.\<close>

definition name_at :: "string \<Rightarrow> nat" where
  "name_at s = (case strrchr (CHR ''/'') s of Some i \<Rightarrow> i + 1 | None \<Rightarrow> 0)"

fun str_index :: "string \<Rightarrow> string \<Rightarrow> nat option" where
  "str_index n h = (if take (length n) h = n then Some 0 else case h of [] \<Rightarrow> None | c # h' \<Rightarrow> map_option Suc (str_index n h'))"

declare str_index.simps [simp del]

definition strcmp_Wrapper :: "string \<Rightarrow> string \<Rightarrow> bool \<Rightarrow> int" where
  "strcmp_Wrapper s1 s2 sens = (if sens then of_bool (s1 = s2) else of_bool (map lower s1 = map lower s2))"

text \<open>The pointer that was found, or null, goes through a union of a pointer and an \<open>int\<close>: only its lower 32 bits are returned.\<close>

definition strstr_Wrapper :: "int \<Rightarrow> string \<Rightarrow> string \<Rightarrow> bool \<Rightarrow> int" where
  "strstr_Wrapper at h n sens =
     (case (if sens then str_index n h else str_index (map lower n) (map lower h)) of
        None \<Rightarrow> 0
      | Some i \<Rightarrow> sint (word_of_int (at + int i) :: 32 word))"

definition CompareFunction :: "int \<Rightarrow> string \<Rightarrow> string \<Rightarrow> bool \<Rightarrow> bool \<Rightarrow> int" where
  "CompareFunction at s n sens exact = (if exact then strcmp_Wrapper s n sens else strstr_Wrapper at s n sens)"

text \<open>
  The loop over \<open>/proc\<close>. \<open>at\<close> is the address of the array for the name, which is read behind \<open>fscanf\<close> whether that stored something or not. The array for the path has
  100 bytes. Both streams are closed on every way out.
\<close>

fun pid_loop :: "int \<Rightarrow> string \<Rightarrow> bool \<Rightarrow> bool \<Rightarrow> proc_entry list \<Rightarrow> string option \<Rightarrow> xerror + int" where
  "pid_loop at n sens exact [] buf = Inr (-1)"
| "pid_loop at n sens exact (e # es) buf =
     (if \<not> (pe_dir e \<and> IsNumeric (pe_name e)) then pid_loop at n sens exact es buf
      else if 100 < length (''/proc/'' @ pe_name e @ ''/cmdline'') + 1 then Inl Undefined
      else case pe_cmdline e of
          None \<Rightarrow> pid_loop at n sens exact es buf
        | Some content \<Rightarrow>
            (case fscanf_name content buf of
               Inl x \<Rightarrow> Inl x
             | Inr None \<Rightarrow> Inl Undefined
             | Inr (Some s) \<Rightarrow>
                 if CompareFunction (at + int (name_at s)) (drop (name_at s) s) n sens exact \<noteq> 0
                 then (if atoi (pe_name e) < 2 ^ 31 then Inr (atoi (pe_name e)) else Inl Undefined)
                 else pid_loop at n sens exact es (Some s)))"

definition GetPIDbyName_implements :: "int \<Rightarrow> proc_entry list option \<Rightarrow> string \<Rightarrow> bool \<Rightarrow> bool \<Rightarrow> xerror + int" where
  "GetPIDbyName_implements at dir n sens exact =
     (case dir of None \<Rightarrow> Inr (-2) | Some es \<Rightarrow> pid_loop at n sens exact es None)"

definition GetProcessID :: "int \<Rightarrow> proc_entry list option \<Rightarrow> string \<Rightarrow> xerror + nat" where
  "GetProcessID at dir n = map_sum id (\<lambda>p. nat (p mod 2 ^ 32)) (GetPIDbyName_implements at dir n False False)"

subsection \<open>The search on Windows\<close>

text \<open>The snapshot is \<open>None\<close> if it could not be taken; without a first process the entry that is compared was never set. \<open>spec\<close> is \<open>PathMatchSpec\<close>.\<close>

fun snap_loop :: "(string \<Rightarrow> string \<Rightarrow> bool) \<Rightarrow> string \<Rightarrow> (string \<times> nat) list \<Rightarrow> nat" where
  "snap_loop spec n [] = 0"
| "snap_loop spec n ((file, pid) # ps) = (if spec file n then pid else snap_loop spec n ps)"

definition WGetProcessID :: "(string \<Rightarrow> string \<Rightarrow> bool) \<Rightarrow> (string \<times> nat) list option \<Rightarrow> string \<Rightarrow> xerror + nat" where
  "WGetProcessID spec snap n = (case snap of None \<Rightarrow> Inr 0 | Some [] \<Rightarrow> Inl Undefined | Some ps \<Rightarrow> Inr (snap_loop spec n ps))"

subsection \<open>What the search finds\<close>

text \<open>
  The name of the command of an entry, if it is a process with a command line that is not empty; the entries that are asked for; and entries whose names and
  command lines fit the arrays.
\<close>

definition readable :: "proc_entry \<Rightarrow> bool" where
  "readable e = (pe_dir e \<and> IsNumeric (pe_name e) \<and> pe_cmdline e \<noteq> None)"

definition command_name :: "proc_entry \<Rightarrow> string option" where
  "command_name e =
     (if readable e \<and> scan_token (the (pe_cmdline e)) \<noteq> []
      then Some (let s = c_str (scan_token (the (pe_cmdline e))) in drop (name_at s) s) else None)"

definition names_it :: "string \<Rightarrow> bool \<Rightarrow> bool \<Rightarrow> string \<Rightarrow> bool" where
  "names_it n sens exact s =
     (let a = (if sens then n else map lower n); b = (if sens then s else map lower s) in if exact then a = b else sublist a b)"

definition is_wanted :: "string \<Rightarrow> bool \<Rightarrow> bool \<Rightarrow> proc_entry \<Rightarrow> bool" where
  "is_wanted n sens exact e = (case command_name e of None \<Rightarrow> False | Some s \<Rightarrow> names_it n sens exact s)"

definition entry_fits :: "proc_entry \<Rightarrow> bool" where
  "entry_fits e =
     (length (pe_name e) \<le> 85 \<and> (IsNumeric (pe_name e) \<longrightarrow> atoi (pe_name e) < 2 ^ 31) \<and>
      (case pe_cmdline e of None \<Rightarrow> True | Some c \<Rightarrow> length (scan_token c) < 300))"

definition first_readable_named :: "proc_entry list \<Rightarrow> bool" where
  "first_readable_named es = (case filter readable es of [] \<Rightarrow> True | e # r \<Rightarrow> command_name e \<noteq> None)"

text \<open>No place of the array has an address whose lower 32 bits are zero.\<close>

definition address_ok :: "int \<Rightarrow> bool" where
  "address_ok at = (0 < at mod 2 ^ 32 \<and> at mod 2 ^ 32 + 300 < 2 ^ 32)"

lemma str_index_iff: "str_index n h \<noteq> None \<longleftrightarrow> sublist n h"
proof (induction h)
  case Nil
  then show ?case by (subst str_index.simps) auto
next
  case (Cons c h)
  then show ?case
    by (subst str_index.simps) (auto simp: sublist_Cons_right prefix_def split: if_splits; metis append_eq_conv_conj append_take_drop_id)
qed

lemma str_index_bound: "str_index n h = Some i \<Longrightarrow> i \<le> length h"
proof (induction h arbitrary: i)
  case (Cons c h)
  then show ?case by (subst (asm) (2) str_index.simps) (auto split: if_splits)
qed (simp add: str_index.simps split: if_splits)

lemma low_bits_nonzero: "address_ok at \<Longrightarrow> i < 300 \<Longrightarrow> sint (word_of_int (at + int i) :: 32 word) \<noteq> 0"
proof -
  assume a: "address_ok at" and i: "i < 300"
  have "(at + int i) mod 2 ^ 32 = (at mod 2 ^ 32 + int i) mod 2 ^ 32" by (simp add: mod_add_left_eq)
  also have "\<dots> = at mod 2 ^ 32 + int i" using a i by (intro mod_pos_pos_trivial) (simp_all add: address_ok_def)
  finally have "(at + int i) mod 2 ^ 32 = at mod 2 ^ 32 + int i" .
  then have "uint (word_of_int (at + int i) :: 32 word) \<noteq> 0"
    using a unfolding uint_word_of_int by (simp add: address_ok_def)
  then show ?thesis unfolding unsigned_eq_0_iff signed_eq_0_iff .
qed

lemma name_at_le: "name_at s \<le> length s"
proof (cases "CHR ''/'' \<in> set s")
  case True
  then have "0 < length s" by (cases s) auto
  then have "length s - 1 - k + 1 \<le> length s" for k by linarith
  with True show ?thesis by (simp add: name_at_def strrchr_def)
qed (simp add: name_at_def strrchr_def)

text \<open>The comparison tells whether the name is wanted, wherever in the array it is.\<close>

lemma CompareFunction_names:
  assumes a: "address_ok at" and l: "length s < 300"
  shows "(CompareFunction (at + int (name_at s)) (drop (name_at s) s) n sens exact \<noteq> 0) = names_it n sens exact (drop (name_at s) s)"
proof (cases exact)
  case False
  let ?h = "if sens then drop (name_at s) s else map lower (drop (name_at s) s)" and ?n = "if sens then n else map lower n"
  have c: "CompareFunction (at + int (name_at s)) (drop (name_at s) s) n sens exact =
      (case str_index ?n ?h of None \<Rightarrow> 0 | Some i \<Rightarrow> sint (word_of_int (at + int (name_at s) + int i) :: 32 word))"
    using False by (simp add: CompareFunction_def strstr_Wrapper_def)
  show ?thesis
  proof (cases "str_index ?n ?h")
    case None
    then show ?thesis using c str_index_iff [of ?n ?h] False by (auto simp: names_it_def Let_def)
  next
    case (Some i)
    then have "name_at s + i < 300" using str_index_bound [OF Some] name_at_le [of s] l by (auto split: if_splits)
    from low_bits_nonzero [OF a this] Some c show ?thesis
      using str_index_iff [of ?n ?h] False by (auto simp: names_it_def Let_def add.assoc)
  qed
qed (auto simp: CompareFunction_def strcmp_Wrapper_def names_it_def Let_def)

lemma c_str_length: "length (c_str t) \<le> length t"
  by (simp add: c_str_def length_takeWhile_le)

text \<open>What an earlier command line has left in the array is not wanted, otherwise the search had ended there.\<close>

definition left_over :: "string \<Rightarrow> bool \<Rightarrow> bool \<Rightarrow> proc_entry list \<Rightarrow> string option \<Rightarrow> bool" where
  "left_over n sens exact es buf =
     (case buf of None \<Rightarrow> first_readable_named es | Some s \<Rightarrow> length s < 300 \<and> \<not> names_it n sens exact (drop (name_at s) s))"

lemma left_over_skip: "left_over n sens exact (e # es) buf \<Longrightarrow> \<not> readable e \<Longrightarrow> left_over n sens exact es buf"
  by (simp add: left_over_def first_readable_named_def split: option.splits)

lemma pid_loop_finds:
  "address_ok at \<Longrightarrow> list_all entry_fits es \<Longrightarrow> left_over n sens exact es buf \<Longrightarrow>
   pid_loop at n sens exact es buf = Inr (case find (is_wanted n sens exact) es of None \<Rightarrow> -1 | Some e \<Rightarrow> atoi (pe_name e))"
proof (induction es arbitrary: buf)
  case (Cons e es)
  have IH: "left_over n sens exact es b \<Longrightarrow>
      pid_loop at n sens exact es b = Inr (case find (is_wanted n sens exact) es of None \<Rightarrow> -1 | Some e \<Rightarrow> atoi (pe_name e))" for b
    using Cons.IH Cons.prems by simp
  show ?case
  proof (cases "readable e")
    case False
    then have "\<not> is_wanted n sens exact e" by (simp add: is_wanted_def command_name_def)
    moreover have "pid_loop at n sens exact (e # es) buf = pid_loop at n sens exact es buf"
      using False Cons.prems(2) by (simp add: readable_def entry_fits_def)
    ultimately show ?thesis using IH [OF left_over_skip [OF Cons.prems(3) False]] by simp
  next
    case True
    then obtain c where c: "pe_cmdline e = Some c" by (auto simp: readable_def)
    have fits: "length (pe_name e) \<le> 85" "atoi (pe_name e) < 2 ^ 31" "length (scan_token c) < 300"
      using Cons.prems(2) True c by (auto simp: entry_fits_def readable_def)
    show ?thesis
    proof (cases "scan_token c = []")
      case empty: True
      then have "buf \<noteq> None" using Cons.prems(3) True c by (auto simp: left_over_def first_readable_named_def command_name_def split: option.splits)
      then obtain s where s: "buf = Some s" by auto
      have l: "length s < 300" and nn: "\<not> names_it n sens exact (drop (name_at s) s)" using Cons.prems(3) by (simp_all add: left_over_def s)
      have lo: "left_over n sens exact es buf" using l nn by (simp add: left_over_def s)
      have nw: "\<not> is_wanted n sens exact e" using empty c by (simp add: is_wanted_def command_name_def)
      have "pid_loop at n sens exact (e # es) buf = pid_loop at n sens exact es buf"
        using CompareFunction_names [OF Cons.prems(1) l, of n sens exact] nn True empty fits c by (simp add: s readable_def fscanf_name_def Let_def)
      then show ?thesis using IH [OF lo] nw by simp
    next
      case False
      let ?s = "c_str (scan_token c)"
      have l: "length ?s < 300" using fits c_str_length [of "scan_token c"] by linarith
      have cn: "command_name e = Some (drop (name_at ?s) ?s)" using True False c by (simp add: command_name_def Let_def)
      have w: "is_wanted n sens exact e = names_it n sens exact (drop (name_at ?s) ?s)" by (simp add: is_wanted_def cn)
      then have "left_over n sens exact es (Some ?s)" if "\<not> is_wanted n sens exact e" using that l by (simp add: left_over_def)
      then show ?thesis using IH [of "Some ?s"] CompareFunction_names [OF Cons.prems(1) l, of n sens exact, folded w] True False fits c
        by (simp add: readable_def fscanf_name_def Let_def)
    qed
  qed
qed simp

definition ex_procs :: "proc_entry list" where
  "ex_procs =
     [\<lparr>pe_name = ''self'', pe_dir = True, pe_cmdline = Some ''/bin/top''\<rparr>, \<lparr>pe_name = ''1'', pe_dir = True, pe_cmdline = Some ''/sbin/Init''\<rparr>,
      \<lparr>pe_name = ''2'', pe_dir = True, pe_cmdline = Some []\<rparr>, \<lparr>pe_name = ''37'', pe_dir = True, pe_cmdline = Some (''/usr/bin/TopView'' @ [CHR 0x00] @ ''init'')\<rparr>,
      \<lparr>pe_name = ''38'', pe_dir = True, pe_cmdline = Some ''/bin/top''\<rparr>]"

text \<open>
  Property C40. \<open>GetProcessID\<close> on Linux returns the number of the first process of \<open>/proc\<close> whose own command name contains the given one, without regard to case, and
  otherwise the unsigned \<open>-1\<close>: what a process with an empty command line finds in the array, which is the name of an earlier process, never matches. The names and command lines
  must fit the arrays, the first command line must not be empty, and no place of the array may have an address that is zero in its lower 32 bits.
\<close>

theorem process_found_by_name:
  assumes "address_ok at" "list_all entry_fits es" "first_readable_named es"
  shows "GetProcessID at (Some es) n =
      Inr (case find (is_wanted n False False) es of None \<Rightarrow> 2 ^ 32 - 1 | Some e \<Rightarrow> nat (atoi (pe_name e) mod 2 ^ 32))"
  using assms pid_loop_finds [of at es n False False None]
  by (simp add: GetProcessID_def GetPIDbyName_implements_def left_over_def split: option.splits)

lemma process_found_by_name_witness:
  "GetProcessID 4096 (Some ex_procs) ''top'' = Inr (case find (is_wanted ''top'' False False) ex_procs of None \<Rightarrow> 2 ^ 32 - 1 | Some e \<Rightarrow> nat (atoi (pe_name e) mod 2 ^ 32)) \<and>
   find (is_wanted ''top'' False False) ex_procs = Some (ex_procs ! 3)"
proof
  show "GetProcessID 4096 (Some ex_procs) ''top'' = Inr (case find (is_wanted ''top'' False False) ex_procs of None \<Rightarrow> 2 ^ 32 - 1 | Some e \<Rightarrow> nat (atoi (pe_name e) mod 2 ^ 32))"
    by (rule process_found_by_name) (code_simp+)
  show "find (is_wanted ''top'' False False) ex_procs = Some (ex_procs ! 3)" by code_simp
qed

text \<open>
  Observation. What the hypotheses exclude: if the first process whose command line can be opened has an empty one, as a thread of the kernel has, the array is compared
  before anything was stored in it; a command line of 300 bytes without white space is written over the end of the array; and a name is not found if it begins at
  an address that is zero in its lower 32 bits.
\<close>

lemma kernel_thread_first:
  "readable e \<Longrightarrow> length (pe_name e) \<le> 85 \<Longrightarrow> scan_token (the (pe_cmdline e)) = [] \<Longrightarrow> GetProcessID at (Some (e # es)) n = Inl Undefined"
  by (auto simp: readable_def GetProcessID_def GetPIDbyName_implements_def fscanf_name_def)

lemma long_command_line:
  "readable e \<Longrightarrow> length (pe_name e) \<le> 85 \<Longrightarrow> 300 \<le> length (scan_token (the (pe_cmdline e))) \<Longrightarrow> GetProcessID at (Some (e # es)) n = Inl Undefined"
  by (auto simp: readable_def GetProcessID_def GetPIDbyName_implements_def fscanf_name_def Let_def)

lemma name_at_bad_address: "CompareFunction (2 ^ 32 * k) s (take m s) True False = 0"
proof -
  have "uint (word_of_int (2 ^ 32 * k) :: 32 word) = 0" unfolding uint_word_of_int by simp
  then have "(word_of_int (2 ^ 32 * k) :: 32 word) = 0" unfolding unsigned_eq_0_iff .
  moreover have "str_index (take m s) s = Some 0" by (subst str_index.simps) (simp add: min_def)
  ultimately show ?thesis by (simp add: CompareFunction_def strstr_Wrapper_def)
qed

text \<open>Observation. Without a match the answer is the unsigned \<open>-1\<close> on Linux and zero on Windows, where the first process that \<open>PathMatchSpec\<close> accepts is returned.\<close>

lemma Windows_process_found: "WGetProcessID spec (Some (p # ps)) n = Inr (case find (\<lambda>q. spec (fst q) n) (p # ps) of None \<Rightarrow> 0 | Some q \<Rightarrow> snd q)"
proof -
  have "snap_loop spec n qs = (case find (\<lambda>q. spec (fst q) n) qs of None \<Rightarrow> 0 | Some q \<Rightarrow> snd q)" for qs
    by (induction spec n qs rule: snap_loop.induct) auto
  then show ?thesis by (simp add: WGetProcessID_def del: snap_loop.simps)
qed

lemma Linux_process_missing: "address_ok at \<Longrightarrow> GetProcessID at (Some []) n = Inr (2 ^ 32 - 1) \<and> GetProcessID at None n = Inr (2 ^ 32 - 2)"
  by (simp add: GetProcessID_def GetPIDbyName_implements_def)

subsection \<open>Daemons and processes on Linux\<close>

datatype daemon_call = CloseStream nat | Setsid | Umask nat | Chdir string

text \<open>
  \<open>StartDaemon\<close> with the directory, which may be null, whether it can be entered, the variable \<open>HOME\<close> and the result of \<open>fork\<close>. The parent and a failed fork answer alike;
  a string from the null pointer is undefined.
\<close>

definition StartDaemon :: "string option \<Rightarrow> (string \<Rightarrow> bool) \<Rightarrow> string option \<Rightarrow> int \<Rightarrow> xerror + int \<times> daemon_call list" where
  "StartDaemon workDir access_x home fork =
     (let dir = (case workDir of None \<Rightarrow> home | Some w \<Rightarrow> if w = [] \<or> \<not> access_x w then home else Some w)
      in case dir of
           None \<Rightarrow> Inl Undefined
         | Some d \<Rightarrow> if fork \<noteq> 0 then Inr (-1, []) else Inr (0, map CloseStream [0..<3] @ [Setsid, Umask 18, Chdir d]))"

text \<open>A process object. What it does to others is a signal: \<open>kill\<close> sends to one process, to a group, or with \<open>-1\<close> to all.\<close>

record lproc =
  lp_pid :: int
  lp_cmdPath :: string
  lp_func :: nat

definition LProc_new :: "nat \<Rightarrow> lproc" where
  "LProc_new func = \<lparr>lp_pid = -1, lp_cmdPath = [], lp_func = func\<rparr>"

record sys_process =
  sp_pid :: int
  sp_group :: int

definition kill_targets :: "int \<Rightarrow> sys_process \<Rightarrow> sys_process list \<Rightarrow> int list" where
  "kill_targets pid me ps =
     map sp_pid
       (filter (\<lambda>p. if 0 < pid then sp_pid p = pid
                    else if pid = 0 then sp_group p = sp_group me
                    else if pid = -1 then sp_pid p \<noteq> 1 \<and> sp_pid p \<noteq> sp_pid me
                    else sp_group p = - pid) ps)"

definition LProc_delete :: "lproc \<Rightarrow> sys_process \<Rightarrow> sys_process list \<Rightarrow> int list" where
  "LProc_delete p me ps = kill_targets (lp_pid p) me ps"

text \<open>
  The child of \<open>vfork\<close> runs first in the memory of the parent; it must not return from the function, which it does if \<open>NewProcessBody\<close> returns (\<open>replaced\<close> is false).
  The result is the number and the handler that \<open>signal\<close> sets in the parent.
\<close>

definition LStartNewProcess :: "int \<Rightarrow> bool \<Rightarrow> string \<Rightarrow> bool \<Rightarrow> lproc \<Rightarrow> xerror + nat \<times> nat option \<times> lproc" where
  "LStartNewProcess vfork replaced path pCall p =
     (if \<not> pCall then Inr (2 ^ 32 - 1, None, p)
      else if 0 < vfork \<and> \<not> replaced then Inl Undefined
      else Inr (nat (vfork mod 2 ^ 32), Some (lp_func p), p\<lparr>lp_pid := vfork, lp_cmdPath := path\<rparr>))"

definition LProcess_StartNewProcess :: "int \<Rightarrow> bool \<Rightarrow> string \<Rightarrow> lproc \<Rightarrow> xerror + nat \<times> nat option \<times> lproc" where
  "LProcess_StartNewProcess vfork replaced path p =
     (if path = [] then Inr (2 ^ 32 - 1, None, p) else LStartNewProcess vfork replaced path True p)"

text \<open>
  Observation. A started process is ended with its object, and no other; an object that started none, or failed to, ends every process it may signal.
\<close>

lemma Linux_delete_ends_started:
  "LStartNewProcess vfork True path True p = Inr (r, h, q) \<Longrightarrow> 0 < vfork \<Longrightarrow> set (LProc_delete q me ps) \<subseteq> {vfork}"
  by (auto simp: LStartNewProcess_def LProc_delete_def kill_targets_def)

lemma Linux_delete_ends_all:
  "LProc_delete (LProc_new f) me ps = map sp_pid (filter (\<lambda>p. sp_pid p \<noteq> 1 \<and> sp_pid p \<noteq> sp_pid me) ps) \<and>
   (LStartNewProcess (-1) replaced path True p = Inr (r, h, q) \<longrightarrow> LProc_delete q me ps = LProc_delete (LProc_new f) me ps)"
  by (auto simp: LStartNewProcess_def LProc_delete_def LProc_new_def kill_targets_def)

subsection \<open>Processes on Windows\<close>

text \<open>The handles of a process object and those that are open in the system. Closing a handle that is not open is undefined; zero is no handle.\<close>

record wproc =
  wp_cmdPath :: string
  wp_hThread :: nat
  wp_hProcess :: nat
  wp_dwProcessId :: nat
  wp_hWait :: nat

definition WProc_new :: wproc where
  "WProc_new = \<lparr>wp_cmdPath = [], wp_hThread = 0, wp_hProcess = 0, wp_dwProcessId = 0, wp_hWait = 0\<rparr>"

fun close_all :: "nat list \<Rightarrow> nat list \<Rightarrow> xerror + nat list" where
  "close_all [] os = Inr os"
| "close_all (h # hs) os = (if h \<in> set os then close_all hs (remove1 h os) else Inl Undefined)"

text \<open>
  The answers of the system: the handles of thread and process with the number if \<open>CreateProcess\<close> succeeds, and the handle of the wait if that could be registered.
\<close>

definition WNewProcessBody :: "(nat \<times> nat \<times> nat) option \<Rightarrow> nat option \<Rightarrow> wproc \<Rightarrow> nat list \<Rightarrow> xerror + nat \<times> wproc \<times> nat list" where
  "WNewProcessBody created wait p os =
     (case created of
        None \<Rightarrow> Inr (2 ^ 32 - 1, p, os)
      | Some (ht, hp, pid) \<Rightarrow>
          let p1 = p\<lparr>wp_hThread := ht, wp_hProcess := hp, wp_dwProcessId := pid\<rparr>
          in case wait of
               Some w \<Rightarrow> Inr (pid, p1\<lparr>wp_hWait := w\<rparr>, w # hp # ht # os)
             | None \<Rightarrow> map_sum id (\<lambda>os1. (2 ^ 32 - 1, p1, os1)) (close_all [ht, hp] (hp # ht # os)))"

definition WStartNewProcess :: "(nat \<times> nat \<times> nat) option \<Rightarrow> nat option \<Rightarrow> string \<Rightarrow> bool \<Rightarrow> wproc \<Rightarrow> nat list \<Rightarrow> xerror + nat \<times> wproc \<times> nat list" where
  "WStartNewProcess created wait path pCall p os =
     (if \<not> pCall then Inr (0, p, os) else WNewProcessBody created wait (p\<lparr>wp_cmdPath := path\<rparr>) os)"

text \<open>The destructor, with the number of the process it terminates if that is still active.\<close>

definition WProc_delete :: "bool \<Rightarrow> wproc \<Rightarrow> nat list \<Rightarrow> xerror + nat option \<times> nat list" where
  "WProc_delete active p os =
     map_sum id (\<lambda>os1. (if wp_hProcess p \<noteq> 0 \<and> active then Some (wp_dwProcessId p) else None, os1))
       (close_all (filter (\<lambda>h. h \<noteq> 0) [wp_hThread p, wp_hWait p, wp_hProcess p]) os)"

text \<open>
  Observation. Starting one process and deleting its object closes what was opened; if the wait cannot be registered, the handles are closed and kept, so that the
  destructor closes them again; and a second start loses the handles of the first.
\<close>

lemma WStart_waiting:
  "WStartNewProcess (Some (ht, hp, pid)) (Some w) path True p os =
   Inr (pid, p\<lparr>wp_cmdPath := path, wp_hThread := ht, wp_hProcess := hp, wp_dwProcessId := pid, wp_hWait := w\<rparr>, w # hp # ht # os)"
  by (simp add: WStartNewProcess_def WNewProcessBody_def)

lemma close_started: "distinct [ht, hp, w] \<Longrightarrow> close_all [ht, w, hp] (w # hp # ht # os) = Inr os"
  by simp

lemma Windows_process_closed:
  assumes "distinct [ht, hp, w]" "0 \<notin> {ht, hp, w}"
    and "WStartNewProcess (Some (ht, hp, pid)) (Some w) path True WProc_new os = Inr (r, p, os1)"
  shows "r = pid \<and> WProc_delete active p os1 = Inr (if active then Some pid else None, os)"
  using assms(2,3) close_started [OF assms(1), of os] unfolding WStart_waiting by (clarsimp simp: WProc_delete_def)

lemma Windows_handles_closed_twice:
  assumes "ht \<noteq> hp" "ht \<noteq> 0" "ht \<notin> set os"
    and "WStartNewProcess (Some (ht, hp, pid)) None path True WProc_new os = Inr (r, p, os1)"
  shows "os1 = os \<and> WProc_delete active p os1 = Inl Undefined"
  using assms by (clarsimp simp: WStartNewProcess_def WNewProcessBody_def WProc_delete_def WProc_new_def)

lemma Windows_second_start_leaks:
  assumes "distinct [ht2, hp2, w2]" "0 \<notin> {ht2, hp2, w2}"
    and "WStartNewProcess (Some (ht, hp, pid)) (Some w) path True WProc_new [] = Inr (r, p, os1)"
    and "WStartNewProcess (Some (ht2, hp2, pid2)) (Some w2) path True p os1 = Inr (r2, p2, os2)"
  shows "WProc_delete active p2 os2 = Inr (if active then Some pid2 else None, [w, hp, ht])"
  using assms(2-4) close_started [OF assms(1), of "[w, hp, ht]"] unfolding WStart_waiting by (clarsimp simp: WProc_delete_def)

end
