(* ===== verification/Spec2Isabelle.thy ===== *)
theory Spec2Isabelle
  imports StaticAlloc MemMgr ObjPool MemPool RefPtrs NetFrame PackPer Session TimeInf TPool TimerMod TimerRun Balance TreeRel SyncCtrl AsyncNet TcpNet WinThread DBFormat DBPool MysqlDb SignalSlots WinBalance WinNet WinTimer DirList WinService WinRegistry AdoDb ThreadObj IpcObjs AppleNet ProcApi
begin

text \<open>
  A verification library for XFramework, a C++ framework of memory managers, a TCP layer, threads and timers, database access,
  date arithmetic and small patterns. File names are relative to \<open>src/\<close>.

  \<^bold>\<open>The program.\<close> The memory part (\<open>Mem/\<close>) has an allocator that keeps all its state inside a shared block (\<open>XStaticAlloc\<close>), an
  allocator of units on pages (\<open>MemMgr\<close>) behind an STL allocator (\<open>XAllocator\<close>), a pool of nodes in size classes (\<open>MemPool\<close>), a pool of objects (\<open>ObjPool\<close>), reference-counted pointers
  (\<open>RefPtr\<close>) and a table of statistics. The network part (\<open>Net/\<close>) cuts packages into frames with a 24-byte header and packs them
  into send buffers (\<open>DataHandle.h\<close>), finds frames in receive buffers (\<open>PackPerData.cpp\<close>), drives one connection
  (\<open>SocketSession.cpp\<close>) and shares the connections of a server out to workers (\<open>BalanceHandle_Linux.cpp\<close>). Below it an epoll thread submits
  readable and writable sockets to a thread pool whose workers receive and send (\<open>AsyncServer.h\<close>, \<open>AsyncClient.h\<close>, \<open>AsyncNet*Impl_Linux.cpp\<close>); \<open>TcpServerImpl_Linux.cpp\<close> and
  \<open>TcpClientImpl_Linux.cpp\<close> put the layers together. On Windows the place of the epoll thread is taken by completion ports
  (\<open>TcpServerImpl_Win32.cpp\<close>, \<open>TcpClientImpl_Win32.cpp\<close>, \<open>BalanceHandle_Win32.cpp\<close>). The thread part
  (\<open>Thread/\<close>) has a task queue with workers (\<open>ThreadPoolImpl_Linux.cpp\<close>), which the timer managers use to run timers (\<open>TimerMgrImpl_Linux.cpp\<close>,
  \<open>MsTimerMgrImpl_Linux.cpp\<close>); the server uses a timer for its heartbeat check. It also has locks, semaphores and \<open>TaskCtrl\<close>, which lets
  several threads work in rounds, for Linux and for Windows. The database part (\<open>DB/\<close>) formats statements (\<open>DBAccess.cpp\<close>), keeps connections and access objects in
  pools (\<open>DBConnPool.cpp\<close>, \<open>DBConnect.cpp\<close>) and has a driver for MySQL. \<open>SystemApi/TimeInfo.cpp\<close> is the date type, \<open>Pattern/TreeRelation.h\<close> a tree of
  registered classes that the database part uses to create drivers by name, and \<open>Pattern/Signal\<close> connects signals of objects to slots of others.
  The system part (\<open>SystemApi/\<close>, \<open>SharedMemory/\<close>, \<open>DyPlugin/\<close>) wraps directories, services, the registry, processes, shared memory, named events and mutexes, and plugins.

  \<^bold>\<open>Theories.\<close>
  \<^item> \<open>XPrelude\<close>: \<open>std::map\<close> as an ordered association list (interface \<open>std_map\<close> with its interpretation), raw memory with little-endian
    reads and writes, coverage counts of address ranges, the error type \<open>xerror\<close>.
  \<^item> \<open>StaticAlloc\<close>: \<open>XStaticAlloc\<close> on the raw bytes of its block and its three maps. \<open>Alloc\<close> and \<open>Free\<close> keep the partition
    of the heap into free ranges and live blocks; formatting and reloading a block agree; two places where the record area is handled wrongly.
  \<^item> \<open>FreeRuns\<close>: runs of free entries in a list of flags, the interface \<open>run_finder\<close> of a first-fit search.
  \<^item> \<open>MemMgr\<close>: pages of units with flag strings, \<open>FindAvailable\<close> is first fit (an interpretation of \<open>run_finder\<close>), allocation
    hands out unused bytes, allocation and release are inverse, the errors of \<open>Free\<close>.
  \<^item> \<open>ObjPool\<close>: \<open>Mem/ObjPool.h\<close>, again an interpretation of \<open>run_finder\<close>; the two halves of \<open>Alloc\<close> are separate so that their
    interleaving can be stated; 16-bit counters.
  \<^item> \<open>MemPool\<close>: \<open>Mem/MemPool.cpp\<close>, a tree of nodes and chips with pointers as paths. Free and allocate are inverse, merging restores a node that was cut once;
    cutting in half, merging a node that was cut twice, growing and the cutting of the first block do not do what they should.
  \<^item> \<open>RefPtrs\<close>: the registry \<open>Ref\<close> and the operations of \<open>RefPtr\<close> on a store of pointer objects, as a step relation whose reachable states
    have exact counts; \<open>MemStatistics\<close>.
  \<^item> \<open>NetFrame\<close>: headers as bytes, \<open>BuildPackage\<close> and \<open>Packaging\<close> into buffers in one memory, reassembly by \<open>setMsgFrames\<close>.
  \<^item> \<open>PackPer\<close>: one buffer, receiving whole, several and cut frames, and recording what was sent. Requests to the network are recorded.
  \<^item> \<open>Session\<close>: \<open>SocketSession\<close> with \<open>ParseData\<close> split along its phases; delivery of an arrived package, the send pipeline under partial
    sends, the heartbeat time.
  \<^item> \<open>TimeInf\<close>: \<open>TimeInfo\<close> with its bit fields, \<open>mktime\<close> and \<open>localtime_r\<close> for a fixed offset, text form and comparison.
  \<^item> \<open>TPool\<close>: tasks, queue, semaphore and workers. The interface \<open>two_queues\<close> states the queue as two queues served by priority;
    its interpretation on \<open>take_job\<close> gives the order in which a worker processes everything.
  \<^item> \<open>TimerMod\<close>: timers, both managers, ticks and workers.
  \<^item> \<open>TimerRun\<close>: any order of signals, turns of the threads and calls; a repeating timer refines an alarm clock, whatever its uninitialised members hold.
  \<^item> \<open>Balance\<close>: clients, ranges of the workers, routing, workers' turns and the heartbeat threads, on top of \<open>Session\<close> and \<open>TimerMod\<close>.
  \<^item> \<open>TreeRel\<close>: the tree of registered classes on a store of nodes. The search is the first in preorder and \<open>AddChild\<close> adds a leaf to the
    tree; the comparison of classes saturates at two generations, and nothing is ever removed.
  \<^item> \<open>SyncCtrl\<close>: the synchronisation classes on Linux. The threads of \<open>TaskCtrl\<close> are a step relation: its rounds of work are separated, and every round ends
    under every schedule, for up to 255 threads.
  \<^item> \<open>AsyncNet\<close>: server and client sockets with their queues, on the thread pool of \<open>TPool\<close> and a kernel that is a parameter. What a worker does with a stream of
    received bytes is stated exactly, including the bytes it loses.
  \<^item> \<open>TcpNet\<close>: \<open>TcpServerImpl\<close>, \<open>TcpClientImpl\<close> and the request nodes, on \<open>AsyncNet\<close>, \<open>Balance\<close>, \<open>Session\<close>, \<open>TimerMod\<close> and \<open>ObjPool\<close>: the way of a new connection from
    the event to the list of clients, and of a receive request that is never served.
  \<^item> \<open>WinThread\<close>: locks, semaphores, \<open>TaskCtrl\<close> and the thread pool on Windows. The pool is the pool on Linux while at most ten tasks are queued, and loses wake-ups
    beyond; a round that begins too early never ends.
  \<^item> \<open>WinTimer\<close>: the timer managers on Windows with the timer queue of the system and the callbacks that have begun, for which deleting a timer does not
    wait: what a callback finds when its timer is gone is part of the statement.
  \<^item> \<open>WinBalance\<close>: the clients of a server on Windows. They are kept as on Linux, by an interpretation of the interface \<open>same_behaviour\<close>; the workers sleep on
    condition variables, no wake-up is lost, but stopping wakes nobody.
  \<^item> \<open>WinNet\<close>: server, client and requests on Windows, with the socket library as a parameter. Received data reach the session that asked for them;
    accepted sockets are lost, and a client never asks for data.
  \<^item> \<open>DBFormat\<close>: \<open>DBAccess::Fromat\<close> is equal to a reference that reads the statement from left to right.
  \<^item> \<open>DBPool\<close>: the two levels of pools on \<open>ObjPool\<close>. A failed connection leaves nothing in use; a released one is used again after its destructor.
  \<^item> \<open>MysqlDb\<close>: the MySQL driver, with the client library as a parameter.
  \<^item> \<open>SignalSlots\<close>: what connecting and disconnecting change in what a signal calls.
  \<^item> \<open>AdoDb\<close>: the ADO driver with COM objects as values and the data source as a parameter. A statement reaches the data source with its parameters
    in place, unless ADO refuses one; what a query gives depends on the copying of fields, which is a parameter.
  \<^item> \<open>DirList\<close>: the iterators over a directory on Linux and on Windows, two interpretations of the interface \<open>dir_stream\<close>; walking one gives the
    accepted entries in order.
  \<^item> \<open>WinService\<close>: a service with its slot in the table of handlers, its control codes and its states, as a run over the controls that arrive.
  \<^item> \<open>WinRegistry\<close>: keys and values of the registry; in a registry of well-formed values reading respects their types, and writing and reading are inverse; the copy of a key
    that a compiler may make when one is returned loses its tag.
  \<^item> \<open>ThreadObj\<close>: the thread objects with the life of the object that a running thread uses. On Windows an object waits for the thread whose handle it has; threads
    whose handle was overwritten are collected and excluded.
  \<^item> \<open>IpcObjs\<close>: shared memory, named events and mutexes, plugins.
  \<^item> \<open>AppleNet\<close>: the part of \<open>AsyncNet\<close> that is different on Apple; in no reachable state is a task for writing submitted.
  \<^item> \<open>ProcApi\<close>: finding a process by its name, where the array for the names is read without having been written, starting processes and daemons.

  \<^bold>\<open>State and effects.\<close> Classes are records with the source's field names; operations take and return the
  state. Exceptions, and accesses that C++ leaves undefined, are values of \<open>xerror\<close> in a sum; an operation that waits for
  a semaphore or does not end is \<open>None\<close>. Bit fields and small integers keep their width by an explicit \<open>mod\<close>. Calls to virtual functions of user code and
  to the operating system are parameters or are recorded. The tables of the service manager, the registry, directories and shared memory are values that their
  documented calls read and change; COM objects are values with the calls made on them. Locks delimit the operations; where a lock is not held for a whole operation
  (\<open>ObjPool\<close>) or not released (\<open>Balance\<close>) it is modelled.

  \<^bold>\<open>Bounds and fuel.\<close> \<open>Packaging\<close> takes fuel because the loop of the source may not end; one unit is enough when the frames of the queue fit the first
  buffer, and no amount is when the first package does not fit (both proved). \<open>UpdatePools\<close> of \<open>MemPool\<close> takes fuel for the same reason: two units are enough
  for \<open>Init\<close>, and none is when no class lacks nodes. The searches of \<open>TreeRel\<close> need the height of the tree, \<open>relationcmp\<close> two more. The loop of a socket reader (\<open>read_loop\<close>) needs
  two more turns than there are buffers to fill. The sequences of turns of workers and timers (\<open>thread_func\<close>, \<open>Bal_run\<close>, \<open>drain\<close>)
  are finite by their arguments, and the statements say how many turns are enough.
  The loops over a directory (\<open>deref_loop\<close>, \<open>incr_loop\<close>, \<open>dir_walk\<close>) and the wait for a service to start (\<open>wait_started\<close>) are partial functions into \<open>option\<close>:
  that they return is part of what is proved of them. All other loops are total functions.

  \<^bold>\<open>Not modelled.\<close> The drivers other than those for MySQL and ADO are stubs. Facade classes (\<open>XTcpServer\<close>, \<open>AtomMutex\<close> and others) forward to
  the modelled implementations. The functions that simulate input are empty; the
  functions on whole directories for Windows do not compile as they are; the remaining patterns and the test programs have no behaviour of the library of their own.
  The printing functions and trace output are left out throughout.
\<close>

end
